(* ===== verification/Prelude.thy ===== *)
theory Prelude
  imports Main "HOL-Library.Word" "HOL-Library.AList" "HOL-Library.Monad_Syntax"
begin

text \<open>
  What every component shares: bytes and typed arrays, JavaScript errors as values, the
  big-endian integers of the wire formats, hexadecimal map keys, insertion-ordered maps, and
  the interfaces (locales) that the components provide and use.

  Conventions. A \<open>Uint8Array\<close> is a list of bytes. A function that throws returns a sum whose
  left value is the error; a function that returns null on bad input returns an option. A
  JavaScript number that is a length, an index or a field of the wire is a \<open>nat\<close>; a number
  that comes from a caller or a clock is an \<open>int\<close>.
\<close>

unbundle bit_operations_syntax

section \<open>Types\<close>

type_synonym byte = "8 word"
type_synonym bytes = "byte list"

datatype js_error = Error string | TypeError string | RangeError string

type_synonym 'a res = "js_error + 'a"

named_theorems layout \<open>where the fields of a buffer are, once its parts are written\<close>
named_theorems codec \<open>what a parser returns on what its builder wrote\<close>

section \<open>Typed arrays\<close>

text \<open>\<open>new Uint8Array(n)\<close>, \<open>xs.subarray(a, b)\<close> (which clamps to the array) and
  \<open>dst.set(src, off)\<close>. The last throws a RangeError when the source does not fit; every call
  of the modelled code is behind a check that it does.\<close>

definition zeros :: "nat \<Rightarrow> bytes" where
  "zeros n = replicate n 0"

definition subarray :: "'a list \<Rightarrow> nat \<Rightarrow> nat \<Rightarrow> 'a list" where
  "subarray xs a b = take (b - a) (drop a xs)"

definition set_at :: "'a list \<Rightarrow> nat \<Rightarrow> 'a list \<Rightarrow> 'a list" where
  "set_at dst off src = take off dst @ src @ drop (off + length src) dst"

lemma length_zeros [simp]: "length (zeros n) = n"
  by (simp add: zeros_def)

lemma zeros_0 [simp]: "zeros 0 = []"
  by (simp add: zeros_def)

lemma set_zeros: "set (zeros n) \<subseteq> {0}"
  by (auto simp: zeros_def)

lemma nth_zeros [simp]: "i < n \<Longrightarrow> zeros n ! i = 0"
  by (simp add: zeros_def)

lemma take_zeros [simp]: "take k (zeros n) = zeros (min k n)"
  by (simp add: zeros_def)

lemma drop_zeros [simp]: "drop k (zeros n) = zeros (n - k)"
  by (simp add: zeros_def)

lemma all_zero_iff_zeros: "(\<forall>b\<in>set xs. b = 0) \<longleftrightarrow> xs = zeros (length xs)"
  unfolding zeros_def by (metis in_set_replicate replicate_eqI)

lemma length_subarray [simp]: "length (subarray xs a b) = min (b - a) (length xs - a)"
  by (simp add: subarray_def)

lemma subarray_append_left: "b \<le> length xs \<Longrightarrow> subarray (xs @ ys) a b = subarray xs a b"
  by (cases "a \<le> length xs") (simp_all add: subarray_def)

lemma subarray_append_right:
  "length xs \<le> a \<Longrightarrow> subarray (xs @ ys) a b = subarray ys (a - length xs) (b - length xs)"
  by (simp add: subarray_def)

lemma subarray_all: "length xs \<le> b \<Longrightarrow> subarray xs 0 b = xs"
  by (simp add: subarray_def)

lemma subarray_prefix: "length xs = b \<Longrightarrow> subarray (xs @ ys) 0 b = xs"
  by (simp add: subarray_def)

lemma subarray_middle:
  "length pre = a \<Longrightarrow> a + length xs = b \<Longrightarrow> subarray (pre @ xs @ post) a b = xs"
  by (auto simp: subarray_def)

lemma subarray_join:
  "a \<le> b \<Longrightarrow> b \<le> c \<Longrightarrow> subarray xs a b @ subarray xs b c = subarray xs a c"
proof -
  assume ab: "a \<le> b" and bc: "b \<le> c"
  have "take (c - a) (drop a xs)
      = take (b - a) (drop a xs) @ take (c - b) (drop (b - a) (drop a xs))"
    using ab bc take_add [of "b - a" "c - b" "drop a xs"] by simp
  then show ?thesis using ab by (simp add: subarray_def)
qed

lemma subarray_whole: "subarray xs 0 (length xs) = xs"
  by (simp add: subarray_def)

lemma subarray_empty [simp]: "b \<le> a \<Longrightarrow> subarray xs a b = []"
  by (simp add: subarray_def)

lemma take_subarray: "take b xs = subarray xs 0 b"
  by (simp add: subarray_def)

lemma drop_subarray: "drop a xs = subarray xs a (length xs)"
  by (simp add: subarray_def)

lemma nth_subarray: "a + i < b \<Longrightarrow> b \<le> length xs \<Longrightarrow> subarray xs a b ! i = xs ! (a + i)"
  by (simp add: subarray_def)

lemma subarray_subarray:
  "a + d \<le> b \<Longrightarrow> subarray (subarray xs a b) c d = subarray xs (a + c) (a + d)"
proof -
  assume "a + d \<le> b"
  then have "min (d - c) (b - a - c) = d - c" by simp
  then show ?thesis
    by (simp add: subarray_def drop_take add.commute)
qed

lemma subarray_single: "a < length xs \<Longrightarrow> subarray xs a (Suc a) = [xs ! a]"
  by (simp add: subarray_def take_Suc_conv_app_nth Cons_nth_drop_Suc [symmetric])

lemma subarray_byte: "a < length xs \<Longrightarrow> b = Suc a \<Longrightarrow> subarray xs a b = [xs ! a]"
  by (simp add: subarray_single)

lemma length_set_at [simp]:
  "off + length src \<le> length dst \<Longrightarrow> length (set_at dst off src) = length dst"
  by (simp add: set_at_def)

text \<open>A builder allocates a zeroed buffer and writes its fields from left to right; a parser reads
  fields at offsets. The collection \<open>layout\<close> walks both over a buffer that is written out as the
  concatenation of its fields.\<close>

lemma set_at_zeros [layout]:
  "length src \<le> n \<Longrightarrow> set_at (zeros n) 0 src = src @ zeros (n - length src)"
  by (simp add: set_at_def)

lemma set_at_front: "length src = length xs \<Longrightarrow> set_at (xs @ ys) 0 src = src @ ys"
  by (simp add: set_at_def)

lemma set_at_Cons [layout]: "0 < off \<Longrightarrow> set_at (x # xs) off src = x # set_at xs (off - 1) src"
  by (cases off) (simp_all add: set_at_def)

lemma set_at_append [layout]:
  "length xs \<le> off \<Longrightarrow> set_at (xs @ ys) off src = xs @ set_at ys (off - length xs) src"
  by (simp add: set_at_def)

lemma list_update_zeros [layout]: "0 < n \<Longrightarrow> (zeros n)[0 := v] = v # zeros (n - 1)"
  by (cases n) (auto simp: zeros_def)

lemma list_update_Cons [layout]: "0 < i \<Longrightarrow> (x # xs)[i := v] = x # xs[i - 1 := v]"
  by (cases i) simp_all

lemma list_update_append_right [layout]:
  "length xs \<le> i \<Longrightarrow> (xs @ ys)[i := v] = xs @ ys[i - length xs := v]"
  by (simp add: list_update_append)

lemma subarray_Cons [layout]: "0 < a \<Longrightarrow> subarray (x # xs) a b = subarray xs (a - 1) (b - 1)"
  by (cases a; cases b) (simp_all add: subarray_def)

lemma subarray_Cons_0 [layout]: "0 < b \<Longrightarrow> subarray (x # xs) 0 b = x # subarray xs 0 (b - 1)"
  by (cases b) (simp_all add: subarray_def)

lemma subarray_skip [layout]:
  "length xs \<le> a \<Longrightarrow> subarray (xs @ ys) a b = subarray ys (a - length xs) (b - length xs)"
  by (rule subarray_append_right)

lemma subarray_keep [layout]:
  "length xs \<le> b \<Longrightarrow> subarray (xs @ ys) 0 b = xs @ subarray ys 0 (b - length xs)"
  by (simp add: subarray_def)

lemma subarray_zeros [layout]: "subarray (zeros n) a b = zeros (min (b - a) (n - a))"
  by (simp add: subarray_def)

lemmas subarray_full [layout] = subarray_all

lemma nth_append_skip [layout]: "length xs \<le> i \<Longrightarrow> (xs @ ys) ! i = ys ! (i - length xs)"
  by (simp add: nth_append)

lemma nth_Cons_skip [layout]: "0 < i \<Longrightarrow> (x # xs) ! i = xs ! (i - 1)"
  by (cases i) simp_all

section \<open>Big-endian integers\<close>

text \<open>\<open>DataView.setUint16\<close>, \<open>setUint32\<close> and \<open>setBigUint64\<close> with \<open>littleEndian = false\<close>: the
  value is taken modulo the width. The matching getters read it back.\<close>

fun be_bytes :: "nat \<Rightarrow> nat \<Rightarrow> bytes" where
  "be_bytes 0 v = []"
| "be_bytes (Suc n) v = be_bytes n (v div 256) @ [word_of_nat v]"

definition be_val :: "bytes \<Rightarrow> nat" where
  "be_val bs = foldl (\<lambda>acc b. acc * 256 + unat b) 0 bs"

lemma length_be_bytes [simp]: "length (be_bytes n v) = n"
  by (induction n arbitrary: v) simp_all

lemma be_val_Nil [simp]: "be_val [] = 0"
  by (simp add: be_val_def)

lemma be_val_snoc [simp]: "be_val (bs @ [b]) = be_val bs * 256 + unat b"
  by (simp add: be_val_def)

lemma unat_byte_bound: "unat (b :: byte) < 256"
proof -
  have "(unsigned b :: nat) < 2 ^ LENGTH(8)" by (rule unsigned_less)
  then show ?thesis by simp
qed

lemma unat_byte_of_nat: "unat (word_of_nat v :: byte) = v mod 256"
  by (simp add: unat_of_nat)

lemma be_val_be_bytes: "be_val (be_bytes n v) = v mod 256 ^ n"
proof (induction n arbitrary: v)
  case 0
  then show ?case by simp
next
  case (Suc n)
  have "v mod 256 ^ Suc n = 256 * (v div 256 mod 256 ^ n) + v mod 256"
    by (simp add: mod_mult2_eq)
  then show ?case using Suc by (simp add: unat_byte_of_nat)
qed

lemma be_val_be_bytes_id [codec]: "v < 256 ^ n \<Longrightarrow> be_val (be_bytes n v) = v"
  by (simp add: be_val_be_bytes)

lemma be_val_bound: "be_val bs < 256 ^ length bs"
proof (induction bs rule: rev_induct)
  case Nil
  then show ?case by simp
next
  case (snoc b bs)
  have "be_val bs * 256 + unat b < (be_val bs + 1) * 256"
    using unat_byte_bound [of b] by simp
  also have "\<dots> \<le> 256 ^ length bs * 256"
    using snoc by (intro mult_le_mono1) simp
  finally show ?case by (simp add: mult.commute)
qed

lemma be_bytes_be_val: "be_bytes (length bs) (be_val bs) = bs"
proof (induction bs rule: rev_induct)
  case Nil
  then show ?case by simp
next
  case (snoc b bs)
  have "(be_val bs * 256 + unat b) div 256 = be_val bs"
    using unat_byte_bound [of b] by simp
  moreover have "(word_of_nat (be_val bs * 256 + unat b) :: byte) = b"
    by (simp add: word_eq_iff_unsigned [where ?'a = nat] unat_byte_of_nat unat_byte_bound del: of_nat_add of_nat_mult)
  ultimately show ?case using snoc by simp
qed

lemma be_bytes_be_val_n: "length bs = n \<Longrightarrow> be_bytes n (be_val bs) = bs"
  using be_bytes_be_val by blast

lemma be_val_append: "be_val (xs @ ys) = be_val xs * 256 ^ length ys + be_val ys"
proof (induction ys rule: rev_induct)
  case Nil
  then show ?case by simp
next
  case (snoc y ys)
  have "be_val (xs @ ys @ [y]) = be_val (xs @ ys) * 256 + unat y"
    using be_val_snoc [of "xs @ ys" y] by simp
  then show ?case using snoc by (simp add: algebra_simps)
qed

lemma be_val_Cons: "be_val (b # bs) = unat b * 256 ^ length bs + be_val bs"
  using be_val_append [of "[b]" bs] by (simp add: be_val_def)

lemma be_val_inj: "length a = length b \<Longrightarrow> be_val a = be_val b \<longleftrightarrow> a = b"
  by (metis be_bytes_be_val)

text \<open>The same number read with shifts, \<open>(hi << 8) | lo\<close>, and written with \<open>(n >>> 8) & 0xFF\<close>.\<close>

lemma shift_or_nat: "(push_bit 8 (unat (hi :: byte)) :: nat) OR unat (lo :: byte) = unat hi * 256 + unat lo"
proof -
  have "(push_bit 8 (unat hi) :: nat) AND unat lo = 0"
  proof (rule bit_eqI)
    fix n
    show "bit (push_bit 8 (unat hi) AND unat lo) n = bit (0 :: nat) n"
      using unat_byte_bound [of lo]
      by (auto simp: bit_simps dest: bit_imp_le_length)
  qed
  then show ?thesis
    by (simp add: disjunctive_add_eq_or [symmetric] push_bit_eq_mult)
qed

lemma be_val_pair: "be_val [hi, lo] = unat hi * 256 + unat lo"
  by (simp add: be_val_def)

lemma be_val_1 [simp]: "be_val [b] = unat b"
  by (simp add: be_val_def)

text \<open>Storing a number in a \<open>Uint8Array\<close>, with the mask the code writes: \<open>buf[i] = n & 0xFF\<close>.\<close>

definition u8 :: "nat \<Rightarrow> byte" where
  "u8 n = word_of_nat (n AND 0xFF)"

lemma and_255: "n AND 255 = n mod (256 :: nat)"
proof -
  have "n AND mask 8 = take_bit 8 n" by (simp add: take_bit_eq_mask)
  then show ?thesis by (simp add: take_bit_eq_mod mask_eq_exp_minus_1)
qed

lemma unat_u8: "unat (u8 n) = n mod 256"
  by (simp add: u8_def unat_byte_of_nat and_255)

lemma unat_u8_id [codec]: "n < 256 \<Longrightarrow> unat (u8 n) = n"
  by (simp add: unat_u8)

lemma u8_unat [simp]: "u8 (unat b) = b"
  by (simp add: word_eq_iff_unsigned [where ?'a = nat] unat_u8 unat_byte_bound)

lemma be_val_two: "n < 65536 \<Longrightarrow> be_val [u8 (n div 256), u8 n] = n"
  by (simp add: be_val_pair unat_u8)

lemma be_bytes_2: "be_bytes 2 n = [u8 (n div 256), u8 n]"
  by (simp add: numeral_2_eq_2 u8_def and_255)
    (simp add: word_eq_iff_unsigned [where ?'a = nat] unat_byte_of_nat)

lemma word_or_zero: "(x :: byte) OR y = 0 \<longleftrightarrow> x = 0 \<and> y = 0"
  by (metis or.left_neutral or.right_idem or.right_neutral)

lemma word_xor_zero: "(x :: byte) XOR y = 0 \<longleftrightarrow> x = y"
  by (metis xor.assoc xor.left_neutral xor.right_neutral xor_self_eq)

text \<open>\<open>diff |= a[i] ^ b[i]\<close> over equal lengths, compared with zero at the end.\<close>

fun xor_diff :: "bytes \<Rightarrow> bytes \<Rightarrow> byte \<Rightarrow> byte" where
  "xor_diff (a # as) (b # bs) diff = xor_diff as bs (diff OR (a XOR b))"
| "xor_diff _ _ diff = diff"

lemma xor_diff_zero: "length a = length b \<Longrightarrow> xor_diff a b d = 0 \<longleftrightarrow> d = 0 \<and> a = b"
  by (induction a b d rule: xor_diff.induct) (auto simp: word_or_zero word_xor_zero)

text \<open>\<open>constantTimeEqual\<close> of several modules is equality.\<close>

definition constantTimeEqual :: "bytes \<Rightarrow> bytes \<Rightarrow> bool" where
  "constantTimeEqual a b = (if length a \<noteq> length b then False else xor_diff a b 0 = 0)"

lemma constantTimeEqual_iff [simp]: "constantTimeEqual a b \<longleftrightarrow> a = b"
  by (auto simp: constantTimeEqual_def xor_diff_zero)

end
