(* ===== verification/Codec.thy ===== *)
theory Codec
  imports Prelude
begin

text \<open>
  The two shapes a wire format has here, each as an interface.

  \<^item> A \<open>frame\<close> is a whole buffer: one function builds it, one parses it.
  \<^item> A \<open>record\<close> is part of a buffer: the parser reads it at a cursor and returns the cursor
    after it. Lists of records are read by a loop over a count, and the loop's facts are proved
    here once, for every kind of record.
\<close>

section \<open>Frames\<close>

locale frame_codec =
  fixes build :: "'a \<Rightarrow> 'e + 'b"
    and parse :: "'b \<Rightarrow> 'a option"
    and ok :: "'a \<Rightarrow> bool"
  assumes build_ok: "ok x \<Longrightarrow> \<exists>bs. build x = Inr bs \<and> parse bs = Some x"
    and parse_ok: "parse bs = Some x \<Longrightarrow> ok x \<and> build x = Inr bs"
begin

lemma roundtrip: "ok x \<Longrightarrow> build x = Inr bs \<Longrightarrow> parse bs = Some x"
  using build_ok by fastforce

lemma build_inj: "ok x \<Longrightarrow> ok y \<Longrightarrow> build x = build y \<Longrightarrow> x = y"
  using build_ok by (metis option.inject sum.inject(2))

lemma parse_inj: "parse bs = Some x \<Longrightarrow> parse cs = Some x \<Longrightarrow> bs = cs"
  by (metis parse_ok sum.inject(2))

lemma parse_iff: "parse bs = Some x \<longleftrightarrow> ok x \<and> build x = Inr bs"
  using roundtrip parse_ok by blast

lemma parse_dom: "dom parse = {bs. \<exists>x. ok x \<and> build x = Inr bs}"
  by (auto simp: parse_iff)

end

section \<open>Mapping a function that may throw\<close>

fun map_res :: "('a \<Rightarrow> 'b res) \<Rightarrow> 'a list \<Rightarrow> 'b list res" where
  "map_res f [] = Inr []"
| "map_res f (x # xs) =
     (case f x of
        Inl e \<Rightarrow> Inl e
      | Inr y \<Rightarrow> (case map_res f xs of Inl e \<Rightarrow> Inl e | Inr ys \<Rightarrow> Inr (y # ys)))"

lemma map_res_ok: "(\<And>x. x \<in> set xs \<Longrightarrow> f x = Inr (g x)) \<Longrightarrow> map_res f xs = Inr (map g xs)"
  by (induction xs) simp_all

lemma map_res_Inr: "map_res f xs = Inr ys \<Longrightarrow> list_all2 (\<lambda>x y. f x = Inr y) xs ys"
  by (induction xs arbitrary: ys) (auto split: sum.splits)

section \<open>Records at a cursor\<close>

text \<open>\<open>for (let i = 0; i < n; i += 1)\<close> over a parser that returns null or a value and the
  next cursor; null ends the loop with null.\<close>

fun read_n :: "('s \<Rightarrow> ('a \<times> 's) option) \<Rightarrow> nat \<Rightarrow> 's \<Rightarrow> ('a list \<times> 's) option" where
  "read_n f 0 s = Some ([], s)"
| "read_n f (Suc n) s =
     (case f s of
        None \<Rightarrow> None
      | Some (x, s') \<Rightarrow>
          (case read_n f n s' of
             None \<Rightarrow> None
           | Some (xs, s'') \<Rightarrow> Some (x # xs, s'')))"

lemma read_n_length: "read_n f n s = Some (xs, s') \<Longrightarrow> length xs = n"
  by (induction n arbitrary: s xs) (auto split: option.splits)

locale record_codec =
  fixes enc :: "'a \<Rightarrow> bytes"
    and dec :: "bytes \<Rightarrow> nat \<Rightarrow> ('a \<times> nat) option"
    and ok :: "'a \<Rightarrow> bool"
  assumes dec_enc: "ok x \<Longrightarrow>
      dec (pre @ enc x @ post) (length pre) = Some (x, length pre + length (enc x))"
    and dec_sound: "dec buf off = Some (x, off') \<Longrightarrow>
      ok x \<and> off \<le> off' \<and> off' \<le> length buf \<and> subarray buf off off' = enc x"
begin

lemma enc_inj: "ok x \<Longrightarrow> ok y \<Longrightarrow> enc x = enc y \<Longrightarrow> x = y"
  using dec_enc [of x "[]" "[]"] dec_enc [of y "[]" "[]"] by simp

lemma read_n_enc:
  "list_all ok xs \<Longrightarrow>
   read_n (dec (pre @ concat (map enc xs) @ post)) (length xs) (length pre)
     = Some (xs, length pre + length (concat (map enc xs)))"
proof (induction xs arbitrary: pre)
  case Nil
  then show ?case by simp
next
  case (Cons x xs)
  have first: "dec (pre @ enc x @ concat (map enc xs) @ post) (length pre)
      = Some (x, length pre + length (enc x))"
    using Cons.prems by (intro dec_enc) simp
  have rest: "read_n (dec ((pre @ enc x) @ concat (map enc xs) @ post)) (length xs)
      (length (pre @ enc x))
      = Some (xs, length (pre @ enc x) + length (concat (map enc xs)))"
    using Cons.prems by (intro Cons.IH) simp
  show ?case using first rest by (simp add: add.assoc)
qed

lemma read_n_sound:
  "read_n (dec buf) n off = Some (xs, off') \<Longrightarrow> off \<le> length buf \<Longrightarrow>
   list_all ok xs \<and> off \<le> off' \<and> off' \<le> length buf
   \<and> subarray buf off off' = concat (map enc xs)"
proof (induction n arbitrary: off xs)
  case 0
  then show ?case by simp
next
  case (Suc n)
  obtain x m ys where x: "dec buf off = Some (x, m)"
    and ys: "read_n (dec buf) n m = Some (ys, off')" and xs: "xs = x # ys"
    using Suc.prems(1) by (auto split: option.splits)
  have sx: "ok x \<and> off \<le> m \<and> m \<le> length buf \<and> subarray buf off m = enc x"
    using x by (rule dec_sound)
  have sys: "list_all ok ys \<and> m \<le> off' \<and> off' \<le> length buf
      \<and> subarray buf m off' = concat (map enc ys)"
    using ys sx by (intro Suc.IH) auto
  show ?case using sx sys xs subarray_join [of off m off' buf] by simp
qed

text \<open>The loop accepts a buffer exactly when it holds that many well-formed records.\<close>

lemma read_n_iff:
  assumes "off \<le> length buf"
  shows "read_n (dec buf) n off = Some (xs, length buf)
    \<longleftrightarrow> length xs = n \<and> list_all ok xs \<and> drop off buf = concat (map enc xs)"
    (is "?read = Some ?r \<longleftrightarrow> _")
proof
  assume r: "?read = Some ?r"
  show "length xs = n \<and> list_all ok xs \<and> drop off buf = concat (map enc xs)"
    using read_n_sound [OF r assms] read_n_length [OF r] by (simp add: drop_subarray)
next
  assume r: "length xs = n \<and> list_all ok xs \<and> drop off buf = concat (map enc xs)"
  then have "buf = take off buf @ concat (map enc xs) @ []"
    by (metis append.right_neutral append_take_drop_id)
  moreover have "length (take off buf) = off" using assms by simp
  ultimately show "?read = Some ?r"
    using read_n_enc [of xs "take off buf" "[]"] r
    by (metis append.right_neutral length_append)
qed

end

end
