(* ===== verification/Wire_Format.thy ===== *)
theory Wire_Format
  imports Codec
begin

text \<open>
  The v0.1 packet format: \<open>modules/wire/constants.mjs\<close>, \<open>header.mjs\<close> (the 54-byte cleartext
  header) and \<open>inner.mjs\<close> (the padded plaintext). The lemmas say where the fields lie, that
  parsing inverts building on every bucket, and that the inner parser accepts nothing else:
  a plaintext has one reading, and its padding carries nothing.
\<close>

section \<open>constants.mjs\<close>

definition WIRE_VERSION :: nat where [simp]: "WIRE_VERSION = 0x01"
definition BUCKET_SMALL :: nat where [simp]: "BUCKET_SMALL = 0x01"
definition BUCKET_MEDIUM :: nat where [simp]: "BUCKET_MEDIUM = 0x02"
definition BUCKET_LARGE :: nat where [simp]: "BUCKET_LARGE = 0x03"
definition BUCKET_SIZE_SMALL :: nat where [simp]: "BUCKET_SIZE_SMALL = 256"
definition BUCKET_SIZE_MEDIUM :: nat where [simp]: "BUCKET_SIZE_MEDIUM = 1024"
definition BUCKET_SIZE_LARGE :: nat where [simp]: "BUCKET_SIZE_LARGE = 4096"

definition bucketSize :: "nat \<Rightarrow> nat" where
  "bucketSize bucket =
     (if bucket = BUCKET_SMALL then BUCKET_SIZE_SMALL
      else if bucket = BUCKET_MEDIUM then BUCKET_SIZE_MEDIUM
      else if bucket = BUCKET_LARGE then BUCKET_SIZE_LARGE
      else 0)"

definition bucketForSize :: "nat \<Rightarrow> nat" where
  "bucketForSize sz =
     (if sz \<le> BUCKET_SIZE_SMALL then BUCKET_SMALL
      else if sz \<le> BUCKET_SIZE_MEDIUM then BUCKET_MEDIUM
      else if sz \<le> BUCKET_SIZE_LARGE then BUCKET_LARGE
      else 0)"

definition LEN_RECIPIENT_PREFIX :: nat where [simp]: "LEN_RECIPIENT_PREFIX = 8"
definition LEN_EPH_PK :: nat where [simp]: "LEN_EPH_PK = 32"
definition LEN_NONCE :: nat where [simp]: "LEN_NONCE = 12"
definition OFFSET_VERSION :: nat where [simp]: "OFFSET_VERSION = 0"
definition OFFSET_BUCKET :: nat where [simp]: "OFFSET_BUCKET = 1"
definition OFFSET_RECIPIENT_PREFIX :: nat where [simp]: "OFFSET_RECIPIENT_PREFIX = 2"
definition OFFSET_EPH_PK :: nat where [simp]: "OFFSET_EPH_PK = 10"
definition OFFSET_NONCE :: nat where [simp]: "OFFSET_NONCE = 42"
definition LEN_OUTER_HEADER :: nat where [simp]: "LEN_OUTER_HEADER = 54"
definition LEN_AEAD_TAG :: nat where [simp]: "LEN_AEAD_TAG = 16"
definition LEN_FRAMING :: nat where [simp]: "LEN_FRAMING = LEN_OUTER_HEADER + LEN_AEAD_TAG"

definition innerLengthForBucket :: "nat \<Rightarrow> nat" where
  "innerLengthForBucket bucket =
     (let sz = bucketSize bucket in if sz = 0 then 0 else sz - LEN_FRAMING)"

definition LEN_SENDER_FINGERPRINT :: nat where [simp]: "LEN_SENDER_FINGERPRINT = 32"
definition OFFSET_PACKET_TYPE :: nat where [simp]: "OFFSET_PACKET_TYPE = 0"
definition OFFSET_REAL_LENGTH :: nat where [simp]: "OFFSET_REAL_LENGTH = 1"
definition OFFSET_SENDER_FINGERPRINT :: nat where [simp]: "OFFSET_SENDER_FINGERPRINT = 3"
definition OFFSET_PAYLOAD :: nat where [simp]: "OFFSET_PAYLOAD = 35"
definition LEN_INNER_PREFIX :: nat where [simp]: "LEN_INNER_PREFIX = 35"

definition maxPayloadForBucket :: "nat \<Rightarrow> nat" where
  "maxPayloadForBucket bucket =
     (let inner = innerLengthForBucket bucket in if inner = 0 then 0 else inner - LEN_INNER_PREFIX)"

definition TYPE_RESERVED :: nat where [simp]: "TYPE_RESERVED = 0x00"
definition TYPE_DATA :: nat where [simp]: "TYPE_DATA = 0x01"
definition TYPE_ANNOUNCE_PEER :: nat where [simp]: "TYPE_ANNOUNCE_PEER = 0x02"
definition TYPE_FORWARD :: nat where [simp]: "TYPE_FORWARD = 0x03"
definition TYPE_KEY_CERTIFICATE :: nat where [simp]: "TYPE_KEY_CERTIFICATE = 0x04"

definition REPLAY_MIN_ENTRIES :: nat where [simp]: "REPLAY_MIN_ENTRIES = 8192"
definition REPLAY_MIN_SECONDS :: nat where [simp]: "REPLAY_MIN_SECONDS = 300"

text \<open>The three sizes, and the smallest bucket for a size.\<close>

lemma bucket_cases:
  assumes "bucketSize b \<noteq> 0"
  obtains "b = 1" | "b = 2" | "b = 3"
  using assms by (auto simp: bucketSize_def split: if_splits)

lemma bucket_byte: "bucketSize b \<noteq> 0 \<Longrightarrow> b < 256"
  by (simp add: bucketSize_def split: if_splits)

lemma bucketForSize_spec:
  "bucketForSize n \<noteq> 0 \<Longrightarrow> bucketSize (bucketForSize n) \<in> {256, 1024, 4096}
    \<and> n \<le> bucketSize (bucketForSize n)
    \<and> (\<forall>m\<in>{256, 1024, 4096}. n \<le> m \<longrightarrow> bucketSize (bucketForSize n) \<le> m)"
  by (simp add: bucketForSize_def bucketSize_def split: if_splits)

lemma bucketForSize_fits:
  "bucketForSize n \<noteq> 0 \<Longrightarrow> n \<le> bucketSize (bucketForSize n)"
  by (simp add: bucketForSize_def bucketSize_def split: if_splits)

lemma bucketForSize_least:
  "n \<le> bucketSize b \<Longrightarrow> 0 < bucketSize b \<Longrightarrow>
   bucketForSize n \<noteq> 0 \<and> bucketSize (bucketForSize n) \<le> bucketSize b"
  by (auto simp: bucketForSize_def bucketSize_def split: if_splits)

lemma bucketForSize_bucketSize: "bucketSize b \<noteq> 0 \<Longrightarrow> bucketForSize (bucketSize b) = b"
  by (auto simp: bucketForSize_def bucketSize_def split: if_splits)

lemma innerLength_bucket:
  "bucketSize b \<noteq> 0 \<Longrightarrow> bucketSize b = innerLengthForBucket b + 70
    \<and> innerLengthForBucket b = maxPayloadForBucket b + 35 \<and> 0 < innerLengthForBucket b
    \<and> maxPayloadForBucket b < 65536"
  by (auto simp: innerLengthForBucket_def maxPayloadForBucket_def bucketSize_def split: if_splits)

lemma innerLength_0: "innerLengthForBucket b = 0 \<longleftrightarrow> bucketSize b = 0"
  by (auto simp: innerLengthForBucket_def bucketSize_def)

section \<open>header.mjs\<close>

record outer_header =
  hdr_version :: nat
  hdr_bucket :: nat
  hdr_recipientPrefix :: bytes
  hdr_ephPk :: bytes
  hdr_nonce :: bytes

definition buildOuterHeader :: "outer_header \<Rightarrow> bytes res" where
  "buildOuterHeader h =
     (if length (hdr_recipientPrefix h) \<noteq> LEN_RECIPIENT_PREFIX
        then Inl (Error ''recipientPrefix must be 8 bytes'')
      else if length (hdr_ephPk h) \<noteq> LEN_EPH_PK then Inl (Error ''ephPk must be 32 bytes'')
      else if length (hdr_nonce h) \<noteq> LEN_NONCE then Inl (Error ''nonce must be 12 bytes'')
      else
        let header = zeros LEN_OUTER_HEADER;
            header = header[OFFSET_VERSION := u8 (hdr_version h)];
            header = header[OFFSET_BUCKET := u8 (hdr_bucket h)];
            header = set_at header OFFSET_RECIPIENT_PREFIX (hdr_recipientPrefix h);
            header = set_at header OFFSET_EPH_PK (hdr_ephPk h)
        in Inr (set_at header OFFSET_NONCE (hdr_nonce h)))"

definition parseOuterHeader :: "bytes \<Rightarrow> outer_header option" where
  "parseOuterHeader buf =
     (if length buf < LEN_OUTER_HEADER then None
      else Some \<lparr>
        hdr_version = unat (buf ! OFFSET_VERSION),
        hdr_bucket = unat (buf ! OFFSET_BUCKET),
        hdr_recipientPrefix =
          subarray buf OFFSET_RECIPIENT_PREFIX (OFFSET_RECIPIENT_PREFIX + LEN_RECIPIENT_PREFIX),
        hdr_ephPk = subarray buf OFFSET_EPH_PK (OFFSET_EPH_PK + LEN_EPH_PK),
        hdr_nonce = subarray buf OFFSET_NONCE (OFFSET_NONCE + LEN_NONCE)\<rparr>)"

definition header_ok :: "outer_header \<Rightarrow> bool" where
  "header_ok h \<longleftrightarrow> hdr_version h < 256 \<and> hdr_bucket h < 256
     \<and> length (hdr_recipientPrefix h) = 8 \<and> length (hdr_ephPk h) = 32 \<and> length (hdr_nonce h) = 12"

lemma buildOuterHeader_layout:
  "header_ok h \<Longrightarrow> buildOuterHeader h
    = Inr (u8 (hdr_version h) # u8 (hdr_bucket h) # hdr_recipientPrefix h @ hdr_ephPk h @ hdr_nonce h)"
  by (simp add: buildOuterHeader_def header_ok_def Let_def layout)

lemma length_outer_header:
  "buildOuterHeader h = Inr bs \<Longrightarrow> length bs = 54"
  by (auto simp: buildOuterHeader_def Let_def split: if_splits)

lemma parse_build_header:
  assumes "header_ok h" "buildOuterHeader h = Inr bs"
  shows "parseOuterHeader (bs @ rest) = Some h"
  using assms
  by (cases h)
    (auto simp: buildOuterHeader_layout parseOuterHeader_def header_ok_def layout codec)

lemma parseOuterHeader_ok: "parseOuterHeader buf = Some h \<Longrightarrow> header_ok h"
  by (auto simp: parseOuterHeader_def header_ok_def unat_byte_bound split: if_splits)

lemma header_split:
  assumes "54 \<le> length buf"
  shows "subarray buf 0 54
    = buf ! 0 # buf ! 1 # subarray buf 2 10 @ subarray buf 10 42 @ subarray buf 42 54"
proof -
  have "subarray buf 0 54 = subarray buf 0 1 @ subarray buf 1 2 @ subarray buf 2 10
      @ subarray buf 10 42 @ subarray buf 42 54"
    by (simp add: subarray_join)
  moreover have "subarray buf 0 1 = [buf ! 0]" "subarray buf 1 2 = [buf ! 1]"
    using assms by (intro subarray_byte; linarith)+
  ultimately show ?thesis by simp
qed

lemma build_parse_header:
  assumes "parseOuterHeader buf = Some h"
  shows "buildOuterHeader h = Inr (subarray buf 0 54)"
proof -
  have len: "54 \<le> length buf" and h: "h = \<lparr>hdr_version = unat (buf ! 0),
      hdr_bucket = unat (buf ! 1), hdr_recipientPrefix = subarray buf 2 10,
      hdr_ephPk = subarray buf 10 42, hdr_nonce = subarray buf 42 54\<rparr>"
    using assms by (auto simp: parseOuterHeader_def split: if_splits)
  show ?thesis
    using buildOuterHeader_layout [OF parseOuterHeader_ok [OF assms]]
    by (simp add: header_split [OF len] h)
qed

section \<open>inner.mjs\<close>

record inner_plaintext =
  inn_packetType :: nat
  inn_senderFingerprint :: bytes
  inn_payload :: bytes
  inn_realLength :: nat

definition buildInnerPlaintext :: "nat \<Rightarrow> nat \<Rightarrow> bytes \<Rightarrow> bytes \<Rightarrow> bytes res" where
  "buildInnerPlaintext bucket packetType senderFingerprint payload =
     (let innerLen = innerLengthForBucket bucket
      in if innerLen = 0 then Inl (Error ''unknown bucket code'')
         else if length senderFingerprint \<noteq> LEN_SENDER_FINGERPRINT
           then Inl (Error ''senderFingerprint must be 32 bytes'')
         else if length payload > maxPayloadForBucket bucket
           then Inl (Error ''payload exceeds bucket capacity'')
         else if length payload > 0xFFFF then Inl (Error ''payload exceeds 65535 bytes'')
         else
           let inner = zeros innerLen;
               inner = inner[OFFSET_PACKET_TYPE := u8 packetType];
               inner = inner[OFFSET_REAL_LENGTH := u8 (drop_bit 8 (length payload))];
               inner = inner[OFFSET_REAL_LENGTH + 1 := u8 (length payload)];
               inner = set_at inner OFFSET_SENDER_FINGERPRINT senderFingerprint
           in Inr (set_at inner OFFSET_PAYLOAD payload))"

definition parseInnerPlaintext :: "bytes \<Rightarrow> nat \<Rightarrow> inner_plaintext option" where
  "parseInnerPlaintext plaintext bucket =
     (let expectedLen = innerLengthForBucket bucket
      in if expectedLen = 0 then None
         else if length plaintext \<noteq> expectedLen then None
         else
           let packetType = unat (plaintext ! OFFSET_PACKET_TYPE);
               realLength = (push_bit 8 (unat (plaintext ! OFFSET_REAL_LENGTH)))
                              OR unat (plaintext ! (OFFSET_REAL_LENGTH + 1))
           in if realLength > maxPayloadForBucket bucket then None
              else
                let payloadStart = OFFSET_PAYLOAD;
                    payloadEnd = payloadStart + realLength
                in if list_ex (\<lambda>b. b \<noteq> 0) (subarray plaintext payloadEnd expectedLen) then None
                   else Some \<lparr>
                     inn_packetType = packetType,
                     inn_senderFingerprint =
                       subarray plaintext OFFSET_SENDER_FINGERPRINT
                         (OFFSET_SENDER_FINGERPRINT + LEN_SENDER_FINGERPRINT),
                     inn_payload = subarray plaintext payloadStart payloadEnd,
                     inn_realLength = realLength\<rparr>)"

definition inner_ok :: "nat \<Rightarrow> inner_plaintext \<Rightarrow> bool" where
  "inner_ok bucket p \<longleftrightarrow> bucketSize bucket \<noteq> 0 \<and> inn_packetType p < 256
     \<and> length (inn_senderFingerprint p) = 32
     \<and> length (inn_payload p) \<le> maxPayloadForBucket bucket
     \<and> inn_realLength p = length (inn_payload p)"

definition buildInner :: "nat \<Rightarrow> inner_plaintext \<Rightarrow> bytes res" where
  "buildInner bucket p
     = buildInnerPlaintext bucket (inn_packetType p) (inn_senderFingerprint p) (inn_payload p)"

lemma buildInner_layout:
  assumes "bucketSize b \<noteq> 0" "length fp = 32" "length payload \<le> maxPayloadForBucket b"
  shows "buildInnerPlaintext b ty fp payload
    = Inr (u8 ty # u8 (length payload div 256) # u8 (length payload) # fp @ payload
           @ zeros (maxPayloadForBucket b - length payload))"
proof -
  have "innerLengthForBucket b = maxPayloadForBucket b + 35" "maxPayloadForBucket b < 65536"
    using innerLength_bucket [OF assms(1)] by simp_all
  then show ?thesis
    using assms by (simp add: buildInnerPlaintext_def Let_def drop_bit_eq_div layout)
qed

lemma length_buildInner:
  assumes "buildInnerPlaintext b ty fp payload = Inr bs"
  shows "length bs = innerLengthForBucket b \<and> length fp = 32
    \<and> length payload \<le> maxPayloadForBucket b \<and> bucketSize b \<noteq> 0"
proof -
  have h: "bucketSize b \<noteq> 0" "length fp = 32" "length payload \<le> maxPayloadForBucket b"
    using assms innerLength_0 [of b]
    by (auto simp: buildInnerPlaintext_def Let_def split: if_splits)
  then show ?thesis
    using assms buildInner_layout [OF h, of ty] innerLength_bucket [of b] by auto
qed

lemma parseInner_layout:
  assumes "bucketSize b \<noteq> 0" "length fp = 32" "length payload \<le> maxPayloadForBucket b"
    and "unat hi * 256 + unat lo = length payload"
  shows "parseInnerPlaintext (ty # hi # lo # fp @ payload
           @ zeros (maxPayloadForBucket b - length payload)) b
    = Some \<lparr>inn_packetType = unat ty, inn_senderFingerprint = fp,
         inn_payload = payload, inn_realLength = length payload\<rparr>"
proof -
  have m: "innerLengthForBucket b = maxPayloadForBucket b + 35"
    using innerLength_bucket [OF assms(1)] by simp
  have z: "\<not> list_ex (\<lambda>b. b \<noteq> 0) (zeros n)" for n
    by (auto simp: zeros_def list_ex_iff)
  show ?thesis
    using assms m z by (simp add: parseInnerPlaintext_def Let_def shift_or_nat layout)
qed

lemma parse_build_inner:
  assumes "inner_ok b p"
  shows "\<exists>bs. buildInner b p = Inr bs \<and> parseInnerPlaintext bs b = Some p"
proof -
  obtain ty fp pay where p: "p = \<lparr>inn_packetType = ty, inn_senderFingerprint = fp,
      inn_payload = pay, inn_realLength = length pay\<rparr>" and ty: "ty < 256"
    and h: "bucketSize b \<noteq> 0" "length fp = 32" "length pay \<le> maxPayloadForBucket b"
    using assms by (cases p) (auto simp: inner_ok_def)
  have "length pay < 65536" using h innerLength_bucket [of b] by simp
  then have "unat (u8 (length pay div 256)) * 256 + unat (u8 (length pay)) = length pay"
    using be_val_two [of "length pay"] by (simp add: be_val_pair)
  then show ?thesis
    using parseInner_layout [OF h, of "u8 (length pay div 256)" "u8 (length pay)" "u8 ty"]
      buildInner_layout [OF h, of ty] ty
    by (simp add: p buildInner_def unat_u8_id)
qed

lemma build_parse_inner:
  assumes "parseInnerPlaintext bs b = Some p"
  shows "inner_ok b p \<and> buildInner b p = Inr bs"
proof -
  let ?n = "unat (bs ! 1) * 256 + unat (bs ! 2)"
  have b: "bucketSize b \<noteq> 0" and len: "length bs = innerLengthForBucket b"
    and n: "?n \<le> maxPayloadForBucket b"
    and pad: "\<not> list_ex (\<lambda>b. b \<noteq> 0) (subarray bs (35 + ?n) (length bs))"
    and p: "p = \<lparr>inn_packetType = unat (bs ! 0), inn_senderFingerprint = subarray bs 3 35,
      inn_payload = subarray bs 35 (35 + ?n), inn_realLength = ?n\<rparr>"
    using assms innerLength_0 [of b]
    by (auto simp: parseInnerPlaintext_def Let_def shift_or_nat numeral_2_eq_2 not_less
        split: if_splits)
  have m: "length bs = maxPayloadForBucket b + 35" "maxPayloadForBucket b < 65536"
    using innerLength_bucket [OF b] len by simp_all
  have z: "subarray bs (35 + ?n) (length bs) = zeros (maxPayloadForBucket b - ?n)"
    using pad m all_zero_iff_zeros [of "subarray bs (35 + ?n) (length bs)"]
    by (simp add: list_ex_iff)
  have "bs = subarray bs 0 1 @ subarray bs 1 2 @ subarray bs 2 3 @ subarray bs 3 35
      @ subarray bs 35 (35 + ?n) @ subarray bs (35 + ?n) (length bs)"
    using m n by (simp add: subarray_join subarray_all)
  moreover have "subarray bs 0 1 = [bs ! 0]" "subarray bs 1 2 = [bs ! 1]" "subarray bs 2 3 = [bs ! 2]"
    using m by (intro subarray_byte; linarith)+
  ultimately have bs: "bs = bs ! 0 # bs ! 1 # bs ! 2 # subarray bs 3 35
      @ subarray bs 35 (35 + ?n) @ zeros (maxPayloadForBucket b - ?n)"
    using z by simp
  have ok: "inner_ok b p"
    using b m n by (simp add: p inner_ok_def unat_byte_bound)
  have hi: "u8 (?n div 256) = bs ! 1" and lo: "u8 ?n = bs ! 2"
    using unat_byte_bound [of "bs ! 2"] unat_byte_bound [of "bs ! 1"]
    by (simp_all add: word_eq_iff_unsigned [where ?'a = nat] unat_u8)
  have "buildInner b p = Inr (bs ! 0 # bs ! 1 # bs ! 2 # subarray bs 3 35
      @ subarray bs 35 (35 + ?n) @ zeros (maxPayloadForBucket b - ?n))"
    using buildInner_layout [OF b, of "subarray bs 3 35" "subarray bs 35 (35 + ?n)" "unat (bs ! 0)"]
      m n hi lo by (simp add: p buildInner_def)
  with ok bs show ?thesis by simp
qed

interpretation inner: frame_codec "buildInner b" "\<lambda>bs. parseInnerPlaintext bs b" "inner_ok b" for b
  by unfold_locales (simp_all add: parse_build_inner build_parse_inner)

end
