(* ===== verification/JsMap.thy ===== *)
theory JsMap
  imports Prelude
begin

text \<open>
  JavaScript's \<open>Map\<close>: it iterates in insertion order, \<open>set\<close> on a key it holds keeps the key's
  place, \<open>delete\<close> forgets the key. The model is an association list with the library's update
  and delete, which do exactly that; the interface \<open>ordered_map\<close> says what the components use
  of it. The keys of the modelled code are hexadecimal strings (\<open>Buffer.from(x).toString('hex')\<close>).
\<close>

section \<open>Insertion-ordered maps\<close>

type_synonym ('k, 'v) jsmap = "('k \<times> 'v) list"

definition map_get :: "('k, 'v) jsmap \<Rightarrow> 'k \<Rightarrow> 'v option" where
  "map_get m k = map_of m k"

definition map_has :: "('k, 'v) jsmap \<Rightarrow> 'k \<Rightarrow> bool" where
  "map_has m k \<longleftrightarrow> map_of m k \<noteq> None"

definition map_set :: "'k \<Rightarrow> 'v \<Rightarrow> ('k, 'v) jsmap \<Rightarrow> ('k, 'v) jsmap" where
  "map_set k v m = AList.update k v m"

definition map_delete :: "'k \<Rightarrow> ('k, 'v) jsmap \<Rightarrow> ('k, 'v) jsmap" where
  "map_delete k m = AList.delete k m"

definition map_keys :: "('k, 'v) jsmap \<Rightarrow> 'k list" where
  "map_keys m = map fst m"

definition map_size :: "('k, 'v) jsmap \<Rightarrow> nat" where
  "map_size m = length m"

locale ordered_map =
  fixes get :: "'m \<Rightarrow> 'k \<Rightarrow> 'v option"
    and put :: "'k \<Rightarrow> 'v \<Rightarrow> 'm \<Rightarrow> 'm"
    and del :: "'k \<Rightarrow> 'm \<Rightarrow> 'm"
    and keys :: "'m \<Rightarrow> 'k list"
  assumes get_put: "get (put k v m) j = (if j = k then Some v else get m j)"
    and get_del: "get (del k m) j = (if j = k then None else get m j)"
    and keys_put: "keys (put k v m) = (if k \<in> set (keys m) then keys m else keys m @ [k])"
    and keys_del: "keys (del k m) = filter (\<lambda>j. j \<noteq> k) (keys m)"
    and get_keys: "get m k \<noteq> None \<longleftrightarrow> k \<in> set (keys m)"
begin

lemma get_put_same [simp]: "get (put k v m) k = Some v"
  by (simp add: get_put)

lemma get_put_other: "j \<noteq> k \<Longrightarrow> get (put k v m) j = get m j"
  by (simp add: get_put)

lemma distinct_put: "distinct (keys m) \<Longrightarrow> distinct (keys (put k v m))"
  by (simp add: keys_put)

lemma distinct_del: "distinct (keys m) \<Longrightarrow> distinct (keys (del k m))"
  by (simp add: keys_del)

lemma size_put_new: "get m k = None \<Longrightarrow> length (keys (put k v m)) = Suc (length (keys m))"
  using get_keys [of m k] by (auto simp: keys_put)

lemma size_put_old: "get m k \<noteq> None \<Longrightarrow> length (keys (put k v m)) = length (keys m)"
  using get_keys [of m k] by (auto simp: keys_put)

lemma size_put_le: "length (keys (put k v m)) \<le> Suc (length (keys m))"
  by (simp add: keys_put)

lemma size_del_le: "length (keys (del k m)) \<le> length (keys m)"
  by (simp add: keys_del)

lemma size_del: "distinct (keys m) \<Longrightarrow> get m k \<noteq> None \<Longrightarrow>
  Suc (length (keys (del k m))) = length (keys m)"
proof -
  assume d: "distinct (keys m)" and "get m k \<noteq> None"
  then have k: "k \<in> set (keys m)" using get_keys by blast
  have "keys (del k m) = remove1 k (keys m)"
    using d by (simp add: keys_del distinct_remove1_removeAll removeAll_filter_not_eq neq_commute)
  then show ?thesis
    using k length_pos_if_in_set [OF k] by (simp add: length_remove1)
qed

end

interpretation jm: ordered_map map_get map_set map_delete map_keys
proof
  fix k j :: 'a and v :: 'b and m :: "('a \<times> 'b) list"
  show "map_get (map_set k v m) j = (if j = k then Some v else map_get m j)"
    by (simp add: map_get_def map_set_def update_conv')
  show "map_get (map_delete k m) j = (if j = k then None else map_get m j)"
    by (simp add: map_get_def map_delete_def delete_conv')
  show "map_keys (map_set k v m)
      = (if k \<in> set (map_keys m) then map_keys m else map_keys m @ [k])"
    by (simp add: map_keys_def map_set_def update_keys)
  show "map_keys (map_delete k m) = filter (\<lambda>j. j \<noteq> k) (map_keys m)"
    by (simp add: map_keys_def map_delete_def delete_keys removeAll_filter_not_eq neq_commute)
  show "map_get m k \<noteq> None \<longleftrightarrow> k \<in> set (map_keys m)"
    by (simp add: map_get_def map_keys_def map_of_eq_None_iff)
qed

text \<open>A map built by the code never holds a key twice; then the entries are the lookups.\<close>

lemma map_size_keys: "map_size m = length (map_keys m)"
  by (simp add: map_size_def map_keys_def)

lemma map_has_get: "map_has m k \<longleftrightarrow> map_get m k \<noteq> None"
  by (simp add: map_has_def map_get_def)

lemma map_get_mem: "map_get m k = Some v \<Longrightarrow> (k, v) \<in> set m"
  by (simp add: map_get_def map_of_SomeD)

lemma map_mem_get: "distinct (map_keys m) \<Longrightarrow> (k, v) \<in> set m \<Longrightarrow> map_get m k = Some v"
  by (simp add: map_get_def map_keys_def)

lemma map_get_iff: "distinct (map_keys m) \<Longrightarrow> map_get m k = Some v \<longleftrightarrow> (k, v) \<in> set m"
  by (metis map_get_mem map_mem_get)

lemma map_delete_filter: "map_delete k m = filter (\<lambda>e. fst e \<noteq> k) m"
  by (auto simp: map_delete_def AList.delete_eq intro!: filter_cong)

lemma map_get_Nil [simp]: "map_get [] k = None"
  by (simp add: map_get_def)

lemma map_keys_Nil [simp]: "map_keys [] = []"
  by (simp add: map_keys_def)

section \<open>Hexadecimal keys\<close>

definition hex_digit :: "nat \<Rightarrow> char" where
  "hex_digit n = ''0123456789abcdef'' ! n"

definition hex_byte :: "byte \<Rightarrow> string" where
  "hex_byte b = [hex_digit (unat b div 16), hex_digit (unat b mod 16)]"

definition toHex :: "bytes \<Rightarrow> string" where
  "toHex bs = concat (map hex_byte bs)"

lemma hex_digit_inj: "m < 16 \<Longrightarrow> n < 16 \<Longrightarrow> hex_digit m = hex_digit n \<longleftrightarrow> m = n"
proof -
  assume "m < 16" "n < 16"
  moreover have "distinct ''0123456789abcdef''" by simp
  moreover have "length ''0123456789abcdef'' = 16" by simp
  ultimately show ?thesis
    unfolding hex_digit_def using nth_eq_iff_index_eq by metis
qed

lemma hex_byte_inj: "hex_byte a = hex_byte b \<longleftrightarrow> a = b"
proof
  assume h: "hex_byte a = hex_byte b"
  have bounds: "unat a div 16 < 16" "unat b div 16 < 16"
    using unat_byte_bound [of a] unat_byte_bound [of b] by auto
  have "unat a div 16 = unat b div 16"
    using h bounds by (simp add: hex_byte_def hex_digit_inj)
  moreover have "unat a mod 16 = unat b mod 16"
    using h by (simp add: hex_byte_def hex_digit_inj)
  ultimately have "unat a = unat b" by (metis div_mult_mod_eq)
  then show "a = b" by (simp add: word_eq_iff_unsigned [where ?'a = nat])
qed simp

lemma length_hex_byte [simp]: "length (hex_byte b) = 2"
  by (simp add: hex_byte_def)

lemma toHex_Cons: "toHex (b # bs) = hex_byte b @ toHex bs"
  by (simp add: toHex_def)

lemma toHex_Nil [simp]: "toHex [] = []"
  by (simp add: toHex_def)

lemma toHex_eq: "toHex a = toHex b \<longleftrightarrow> a = b"
proof
  assume "toHex a = toHex b"
  then show "a = b"
  proof (induction a arbitrary: b)
    case Nil
    then show ?case by (cases b) (simp_all add: toHex_Cons hex_byte_def)
  next
    case (Cons x a)
    then obtain y b' where b: "b = y # b'"
      by (cases b) (simp_all add: toHex_Cons hex_byte_def)
    then have "hex_byte x = hex_byte y \<and> toHex a = toHex b'"
      using Cons.prems by (simp add: toHex_Cons)
    then show ?case using b Cons.IH by (simp add: hex_byte_inj)
  qed
qed simp

lemma hex_digit_set: "n < 16 \<Longrightarrow> hex_digit n \<in> set ''0123456789abcdef''"
  unfolding hex_digit_def by (rule nth_mem) simp

lemma toHex_chars: "set (toHex bs) \<subseteq> set ''0123456789abcdef''"
proof (induction bs)
  case Nil
  then show ?case by simp
next
  case (Cons b bs)
  have "unat b div 16 < 16" using unat_byte_bound [of b] by auto
  then have "set (hex_byte b) \<subseteq> set ''0123456789abcdef''"
    using hex_digit_set [of "unat b div 16"] hex_digit_set [of "unat b mod 16"]
    unfolding hex_byte_def by (simp del: insert_iff)
  then show ?case using Cons by (auto simp: toHex_Cons simp del: list.set)
qed

text \<open>No hexadecimal key is the key \<open>'__self__'\<close> under which the peer table keeps its own record.\<close>

lemma toHex_not_self: "toHex bs \<noteq> ''__self__''"
proof
  assume h: "toHex bs = ''__self__''"
  have "CHR ''_'' \<in> set (toHex bs)" by (simp add: h)
  then show False using toHex_chars [of bs] by auto
qed

end
