(* ===== verification/Wire_Replay.thy ===== *)
theory Wire_Replay
  imports Wire_Format JsMap
begin

text \<open>
  \<open>modules/wire/replay.mjs\<close>: the sliding-window replay log, a \<open>Map\<close> from the hexadecimal
  (ephPk, nonce) pair to the time of insertion, in insertion order. Eviction walks from the
  oldest insertion. The lemmas show what an eviction can and cannot remove: only old entries,
  only from the front, and never below the configured minimum.
\<close>

section \<open>The log and its operations\<close>

record replay_log =
  rpl_seen :: "(string, int) jsmap"
  rpl_minEntries :: nat
  rpl_minSeconds :: int

definition createReplayLog :: "nat \<Rightarrow> int \<Rightarrow> replay_log" where
  "createReplayLog minEntries minSeconds
     = \<lparr>rpl_seen = [], rpl_minEntries = minEntries, rpl_minSeconds = minSeconds\<rparr>"

definition toKey :: "bytes \<Rightarrow> bytes \<Rightarrow> string res" where
  "toKey ephPk nonce =
     (if length ephPk \<noteq> 32 \<or> length nonce \<noteq> 12
        then Inl (Error ''replay key requires ephPk(32) || nonce(12)'')
      else
        let buf = set_at (zeros 44) 0 ephPk
        in Inr (toHex (set_at buf 32 nonce)))"

definition replay_check :: "replay_log \<Rightarrow> bytes \<Rightarrow> bytes \<Rightarrow> bool res" where
  "replay_check l ephPk nonce =
     (case toKey ephPk nonce of
        Inl e \<Rightarrow> Inl e
      | Inr k \<Rightarrow> Inr (map_has (rpl_seen l) k))"

text \<open>The loop of \<open>evict\<close>: it deletes the entry it stands on and moves to the next.\<close>

fun evict_loop :: "nat \<Rightarrow> int \<Rightarrow> (string, int) jsmap \<Rightarrow> (string, int) jsmap" where
  "evict_loop minEntries cutoff [] = []"
| "evict_loop minEntries cutoff ((k, ts) # rest) =
     (if map_size ((k, ts) # rest) \<le> minEntries then (k, ts) # rest
      else if ts > cutoff then (k, ts) # rest
      else evict_loop minEntries cutoff rest)"

definition replay_evict :: "replay_log \<Rightarrow> int \<Rightarrow> replay_log" where
  "replay_evict l nowTs =
     (if map_size (rpl_seen l) \<le> rpl_minEntries l then l
      else
        let cutoff = nowTs - rpl_minSeconds l
        in l\<lparr>rpl_seen := evict_loop (rpl_minEntries l) cutoff (rpl_seen l)\<rparr>)"

definition replay_insert :: "replay_log \<Rightarrow> bytes \<Rightarrow> bytes \<Rightarrow> int \<Rightarrow> replay_log res" where
  "replay_insert l ephPk nonce ts =
     (case toKey ephPk nonce of
        Inl e \<Rightarrow> Inl e
      | Inr k \<Rightarrow> Inr (replay_evict (l\<lparr>rpl_seen := map_set k ts (rpl_seen l)\<rparr>) ts))"

section \<open>Eviction\<close>

lemma toKey_ok:
  "length e = 32 \<Longrightarrow> length n = 12 \<Longrightarrow> toKey e n = Inr (toHex (e @ n))"
  by (simp add: toKey_def Let_def layout)

lemma toKey_inj:
  "toKey e n = Inr k \<Longrightarrow> toKey e' n' = Inr k \<Longrightarrow> e = e' \<and> n = n'"
  by (auto simp: toKey_def Let_def layout toHex_eq split: if_splits)

lemma evict_loop_suffix: "\<exists>gone. seen = gone @ evict_loop m c seen \<and> (\<forall>(k, ts)\<in>set gone. ts \<le> c)"
proof (induction seen)
  case Nil
  then show ?case by simp
next
  case (Cons e rest)
  obtain k ts where e: "e = (k, ts)" by (cases e)
  show ?case
  proof (cases "map_size (e # rest) \<le> m \<or> ts > c")
    case True
    then show ?thesis using e by auto
  next
    case False
    obtain gone where "rest = gone @ evict_loop m c rest" "\<forall>(k, ts)\<in>set gone. ts \<le> c"
      using Cons.IH by blast
    then have "e # rest = (e # gone) @ evict_loop m c (e # rest)"
      "\<forall>(k, ts)\<in>set (e # gone). ts \<le> c"
      using False e by auto
    then show ?thesis by blast
  qed
qed

lemma evict_loop_size: "min m (length seen) \<le> length (evict_loop m c seen)"
  by (induction seen) (auto simp: map_size_def)

text \<open>An eviction removes a prefix of old entries and leaves at least \<open>minEntries\<close>.\<close>

lemma replay_evict_suffix:
  "\<exists>gone. rpl_seen l = gone @ rpl_seen (replay_evict l now)
     \<and> (\<forall>(k, ts)\<in>set gone. ts \<le> now - rpl_minSeconds l)"
  using evict_loop_suffix [of "rpl_seen l" "rpl_minEntries l" "now - rpl_minSeconds l"]
  by (auto simp: replay_evict_def Let_def)

lemma replay_evict_size:
  "min (rpl_minEntries l) (map_size (rpl_seen l)) \<le> map_size (rpl_seen (replay_evict l now))"
  using evict_loop_size [of "rpl_minEntries l" "rpl_seen l" "now - rpl_minSeconds l"]
  by (simp add: replay_evict_def Let_def map_size_def min_def split: if_splits)

lemma replay_evict_config [simp]:
  "rpl_minEntries (replay_evict l now) = rpl_minEntries l"
  "rpl_minSeconds (replay_evict l now) = rpl_minSeconds l"
  by (simp_all add: replay_evict_def Let_def)

definition replay_inv :: "replay_log \<Rightarrow> bool" where
  "replay_inv l \<longleftrightarrow> distinct (map_keys (rpl_seen l))"

lemma replay_evict_get:
  assumes "replay_inv l" "map_get (rpl_seen l) k = Some ts" "now - rpl_minSeconds l < ts"
  shows "map_get (rpl_seen (replay_evict l now)) k = Some ts"
proof -
  obtain gone where s: "rpl_seen l = gone @ rpl_seen (replay_evict l now)"
    and old: "\<forall>(k, ts)\<in>set gone. ts \<le> now - rpl_minSeconds l"
    using replay_evict_suffix [of l now] by blast
  have "(k, ts) \<in> set (rpl_seen l)" using assms(2) by (rule map_get_mem)
  then have "(k, ts) \<in> set (rpl_seen (replay_evict l now))"
    using s old assms(3) by (metis Un_iff case_prodD not_le set_append)
  moreover have "distinct (map_keys (rpl_seen (replay_evict l now)))"
    using assms(1) s unfolding replay_inv_def map_keys_def by (metis distinct_append map_append)
  ultimately show ?thesis by (simp add: map_mem_get)
qed

lemma replay_evict_sub:
  assumes "map_get (rpl_seen (replay_evict l now)) k = Some ts" "replay_inv l"
  shows "map_get (rpl_seen l) k = Some ts"
proof -
  obtain gone where s: "rpl_seen l = gone @ rpl_seen (replay_evict l now)"
    using replay_evict_suffix [of l now] by blast
  have "(k, ts) \<in> set (rpl_seen l)" using map_get_mem [OF assms(1)] s by (metis Un_iff set_append)
  then show ?thesis using assms(2) by (simp add: replay_inv_def map_mem_get)
qed

lemma replay_inv_evict: "replay_inv l \<Longrightarrow> replay_inv (replay_evict l now)"
proof -
  obtain gone where s: "rpl_seen l = gone @ rpl_seen (replay_evict l now)"
    using replay_evict_suffix [of l now] by blast
  assume "replay_inv l"
  then show ?thesis using s unfolding replay_inv_def map_keys_def by (metis distinct_append map_append)
qed

lemma replay_inv_create: "replay_inv (createReplayLog m s)"
  by (simp add: replay_inv_def createReplayLog_def)

lemma replay_insert_cases:
  assumes "replay_insert l e n ts = Inr l'"
  obtains "length e = 32" "length n = 12"
    "l' = replay_evict (l\<lparr>rpl_seen := map_set (toHex (e @ n)) ts (rpl_seen l)\<rparr>) ts"
proof -
  have len: "length e = 32" "length n = 12"
    using assms by (auto simp: replay_insert_def toKey_def split: if_splits)
  then show thesis
    using assms that by (simp add: replay_insert_def toKey_ok)
qed

lemma replay_insert_inv:
  assumes "replay_insert l e n ts = Inr l'" "replay_inv l"
  shows "replay_inv l'"
  using assms(1)
proof (rule replay_insert_cases)
  let ?m = "l\<lparr>rpl_seen := map_set (toHex (e @ n)) ts (rpl_seen l)\<rparr>"
  assume "l' = replay_evict ?m ts"
  moreover have "replay_inv ?m" using assms(2) by (simp add: replay_inv_def jm.distinct_put)
  ultimately show ?thesis by (simp add: replay_inv_evict)
qed

lemma replay_insert_config:
  assumes "replay_insert l e n ts = Inr l'"
  shows "rpl_minEntries l' = rpl_minEntries l \<and> rpl_minSeconds l' = rpl_minSeconds l"
  using assms by (rule replay_insert_cases) simp

text \<open>What was just inserted is found; what is younger than the window is kept.\<close>

lemma replay_insert_found:
  assumes "replay_insert l e n ts = Inr l'" "replay_inv l" "0 < rpl_minSeconds l"
  shows "map_get (rpl_seen l') (toHex (e @ n)) = Some ts"
  using assms(1)
proof (rule replay_insert_cases)
  let ?m = "l\<lparr>rpl_seen := map_set (toHex (e @ n)) ts (rpl_seen l)\<rparr>"
  assume "l' = replay_evict ?m ts"
  moreover have "replay_inv ?m" using assms(2) by (simp add: replay_inv_def jm.distinct_put)
  ultimately show ?thesis using assms(3) replay_evict_get [of ?m "toHex (e @ n)" ts ts] by simp
qed

lemma replay_insert_kept:
  assumes "replay_insert l e n now = Inr l'" "replay_inv l"
    and "map_get (rpl_seen l) k = Some ts" "now - rpl_minSeconds l < ts" "k \<noteq> toHex (e @ n)"
  shows "map_get (rpl_seen l') k = Some ts"
  using assms(1)
proof (rule replay_insert_cases)
  let ?m = "l\<lparr>rpl_seen := map_set (toHex (e @ n)) now (rpl_seen l)\<rparr>"
  assume "l' = replay_evict ?m now"
  moreover have "replay_inv ?m" using assms(2) by (simp add: replay_inv_def jm.distinct_put)
  ultimately show ?thesis
    using assms(3-5) replay_evict_get [of ?m k ts now] by (simp add: jm.get_put_other)
qed

text \<open>The log remembers nothing it was not given.\<close>

lemma replay_insert_only:
  assumes "replay_insert l e n now = Inr l'" "replay_inv l" "map_get (rpl_seen l') k = Some ts"
  shows "k = toHex (e @ n) \<and> ts = now \<or> map_get (rpl_seen l) k = Some ts"
  using assms(1)
proof (rule replay_insert_cases)
  let ?m = "l\<lparr>rpl_seen := map_set (toHex (e @ n)) now (rpl_seen l)\<rparr>"
  assume "l' = replay_evict ?m now"
  moreover have "replay_inv ?m" using assms(2) by (simp add: replay_inv_def jm.distinct_put)
  ultimately have "map_get (rpl_seen ?m) k = Some ts"
    using assms(3) replay_evict_sub [of ?m now k ts] by simp
  then show ?thesis by (auto simp: jm.get_put split: if_splits)
qed

text \<open>An insertion never shrinks the log below its minimum.\<close>

lemma replay_insert_size:
  assumes "replay_insert l e n now = Inr l'" "replay_inv l"
  shows "min (rpl_minEntries l) (map_size (rpl_seen l)) \<le> map_size (rpl_seen l')"
  using assms(1)
proof (rule replay_insert_cases)
  let ?m = "l\<lparr>rpl_seen := map_set (toHex (e @ n)) now (rpl_seen l)\<rparr>"
  assume l': "l' = replay_evict ?m now"
  have "map_size (rpl_seen l) \<le> map_size (rpl_seen ?m)"
    by (simp add: map_size_keys jm.keys_put)
  then show ?thesis using l' replay_evict_size [of ?m now] by simp
qed

end
