(* ===== verification/Crypto.thy ===== *)
theory Crypto
  imports Prelude
begin

text \<open>
  \<open>modules/crypto\<close>: identities, onion keys, the packet AEAD, key certificates and hybrid
  signatures. The primitives themselves come from \<open>@noble\<close> packages and from Node's OpenSSL
  binding; they are the fields of the record \<open>crypto\<close>, an argument of every definition that
  uses them. What the code relies on is stated as predicates on that record
  (\<open>sig_correct\<close>, \<open>aead_correct\<close>, \<open>dh_correct\<close>, \<open>hash_ok\<close>), never assumed globally, and
  \<open>toy_crypto\<close> is an instance that satisfies all of them. A primitive that throws returns
  None. Random draws are arguments.
\<close>

section \<open>The primitives\<close>

record crypto =
  blake2b_32 :: "bytes \<Rightarrow> bytes"
  ed_public :: "bytes \<Rightarrow> bytes"
  ed_sign :: "bytes \<Rightarrow> bytes \<Rightarrow> bytes"
  ed_verify :: "bytes \<Rightarrow> bytes \<Rightarrow> bytes \<Rightarrow> bool option"
  x_public :: "bytes \<Rightarrow> bytes"
  x_shared :: "bytes \<Rightarrow> bytes \<Rightarrow> bytes option"
  hkdf_sha256 :: "bytes \<Rightarrow> bytes \<Rightarrow> bytes \<Rightarrow> nat \<Rightarrow> bytes"
  poly_seal :: "bytes \<Rightarrow> bytes \<Rightarrow> bytes \<Rightarrow> bytes \<Rightarrow> bytes \<times> bytes"
  poly_open :: "bytes \<Rightarrow> bytes \<Rightarrow> bytes \<Rightarrow> bytes \<Rightarrow> bytes \<Rightarrow> bytes option"
  chacha_stream :: "bytes \<Rightarrow> bytes \<Rightarrow> nat \<Rightarrow> byte"
  mldsa_keygen :: "bytes \<Rightarrow> bytes \<times> bytes"
  mldsa_sign :: "bytes \<Rightarrow> bytes \<Rightarrow> bytes"
  mldsa_verify :: "bytes \<Rightarrow> bytes \<Rightarrow> bytes \<Rightarrow> bool option"
  kem_keygen :: "bytes \<Rightarrow> bytes \<times> bytes"
  kem_encaps :: "bytes \<Rightarrow> bytes \<Rightarrow> (bytes \<times> bytes) option"
  kem_decaps :: "bytes \<Rightarrow> bytes \<Rightarrow> bytes option"

definition hash_ok :: "crypto \<Rightarrow> bool" where
  "hash_ok C \<longleftrightarrow> (\<forall>x. length (blake2b_32 C x) = 32)
     \<and> (\<forall>ikm salt info n. length (hkdf_sha256 C ikm salt info n) = n)"

definition sig_correct :: "crypto \<Rightarrow> bool" where
  "sig_correct C \<longleftrightarrow> (\<forall>m sk. length sk = 32 \<longrightarrow>
      length (ed_public C sk) = 32 \<and> length (ed_sign C m sk) = 64
      \<and> ed_verify C (ed_sign C m sk) m (ed_public C sk) = Some True)"

definition dh_correct :: "crypto \<Rightarrow> bool" where
  "dh_correct C \<longleftrightarrow> (\<forall>a b. length a = 32 \<longrightarrow> length b = 32 \<longrightarrow>
      length (x_public C a) = 32
      \<and> x_shared C a (x_public C b) = x_shared C b (x_public C a))"

text \<open>RFC 8439: sealing keeps the length and yields a 16-byte tag; opening succeeds exactly on
  what sealing produced under the same key, nonce and associated data.\<close>

definition aead_correct :: "crypto \<Rightarrow> bool" where
  "aead_correct C \<longleftrightarrow> (\<forall>k n a p. length k = 32 \<longrightarrow> length n = 12 \<longrightarrow>
      length (fst (poly_seal C k n a p)) = length p
      \<and> length (snd (poly_seal C k n a p)) = 16
      \<and> (\<forall>c t q. poly_open C k n a c t = Some q \<longleftrightarrow> (c, t) = poly_seal C k n a q))"

text \<open>A concrete instance, for evaluating the model on inputs.\<close>

definition pad_to :: "nat \<Rightarrow> bytes \<Rightarrow> bytes" where
  "pad_to n x = take n (x @ zeros n)"

lemma length_pad_to [simp]: "length (pad_to n x) = n"
  by (simp add: pad_to_def)

lemma pad_to_id: "length x = n \<Longrightarrow> pad_to n x = x"
  by (simp add: pad_to_def)

definition toy_crypto :: crypto where
  "toy_crypto = \<lparr>
     blake2b_32 = pad_to 32,
     ed_public = pad_to 32,
     ed_sign = (\<lambda>m sk. pad_to 64 (pad_to 32 sk @ m)),
     ed_verify = (\<lambda>s m pk. Some (s = pad_to 64 (pk @ m))),
     x_public = pad_to 32,
     x_shared = (\<lambda>a b. Some (map2 (\<lambda>x y. x XOR y) (pad_to 32 a) (pad_to 32 b))),
     hkdf_sha256 = (\<lambda>ikm salt info n. pad_to n ikm),
     poly_seal = (\<lambda>k n a p. (p, pad_to 16 k)),
     poly_open = (\<lambda>k n a c t. if t = pad_to 16 k then Some c else None),
     chacha_stream = (\<lambda>k iv i. word_of_nat (i + be_val k + be_val iv)),
     mldsa_keygen = (\<lambda>seed. (pad_to 4032 seed, pad_to 1952 seed)),
     mldsa_sign = (\<lambda>m sk. pad_to 3309 (pad_to 32 sk @ m)),
     mldsa_verify = (\<lambda>s m pk. Some (s = pad_to 3309 (pad_to 32 pk @ m))),
     kem_keygen = (\<lambda>seed. (pad_to 1184 seed, pad_to 2400 seed)),
     kem_encaps = (\<lambda>r ek. Some (pad_to 1088 r, pad_to 32 (pad_to 16 r @ pad_to 16 ek))),
     kem_decaps = (\<lambda>c dk. Some (pad_to 32 (pad_to 16 c @ pad_to 16 dk)))\<rparr>"

lemma map2_xor_commute: "map2 (\<lambda>x y :: byte. x XOR y) a b = map2 (\<lambda>x y. x XOR y) b a"
  by (induction a b rule: list_induct2') (simp_all add: xor.commute)

lemma map2_xor_zeros: "length xs = n \<Longrightarrow> map2 (\<lambda>x y :: byte. x XOR y) xs (zeros n) = xs"
proof (induction xs arbitrary: n)
  case Nil
  then show ?case by simp
next
  case (Cons x xs)
  then show ?case by (cases n) (auto simp: zeros_def)
qed

lemma toy_hash_ok: "hash_ok toy_crypto"
  by (simp add: hash_ok_def toy_crypto_def)

lemma toy_sig_correct: "sig_correct toy_crypto"
  by (simp add: sig_correct_def toy_crypto_def pad_to_id)

lemma toy_dh_correct: "dh_correct toy_crypto"
  unfolding dh_correct_def toy_crypto_def
  by (simp add: pad_to_id map2_xor_commute)

lemma toy_aead_correct: "aead_correct toy_crypto"
  by (auto simp: aead_correct_def toy_crypto_def split: if_splits)

section \<open>fingerprint.mjs, identity.mjs, zeroize.mjs\<close>

definition blake2b256 :: "crypto \<Rightarrow> bytes \<Rightarrow> bytes" where
  "blake2b256 C input = blake2b_32 C input"

definition fingerprint :: "crypto \<Rightarrow> bytes \<Rightarrow> bytes" where
  "fingerprint C idPk = blake2b256 C idPk"

lemma length_fingerprint [simp]: "hash_ok C \<Longrightarrow> length (fingerprint C pk) = 32"
  by (simp add: fingerprint_def blake2b256_def hash_ok_def)

definition generateIdentity :: "crypto \<Rightarrow> bytes \<Rightarrow> bytes \<times> bytes" where
  "generateIdentity C seed = (seed, ed_public C seed)"

definition publicFromSecret :: "crypto \<Rightarrow> bytes \<Rightarrow> bytes" where
  "publicFromSecret C idSk = ed_public C idSk"

definition sign :: "crypto \<Rightarrow> bytes \<Rightarrow> bytes \<Rightarrow> bytes" where
  "sign C message idSk = ed_sign C message idSk"

text \<open>The library throws on malformed buffers; the wrapper turns that into false.\<close>

definition verify :: "crypto \<Rightarrow> bytes \<Rightarrow> bytes \<Rightarrow> bytes \<Rightarrow> bool" where
  "verify C signature message idPk =
     (case ed_verify C signature message idPk of None \<Rightarrow> False | Some b \<Rightarrow> b)"

lemma verify_sign:
  "sig_correct C \<Longrightarrow> length sk = 32 \<Longrightarrow> verify C (sign C m sk) m (ed_public C sk)"
  by (simp add: verify_def sign_def sig_correct_def)

lemma length_sign: "sig_correct C \<Longrightarrow> length sk = 32 \<Longrightarrow> length (sign C m sk) = 64"
  by (simp add: sign_def sig_correct_def)

definition identityFingerprint :: "crypto \<Rightarrow> bytes \<Rightarrow> bytes" where
  "identityFingerprint C idPk = fingerprint C idPk"

definition zeroize :: "bytes \<Rightarrow> bytes" where
  "zeroize buf = zeros (length buf)"

section \<open>onion.mjs\<close>

definition generateOnion :: "crypto \<Rightarrow> bytes \<Rightarrow> bytes \<times> bytes" where
  "generateOnion C seed = (seed, x_public C seed)"

definition sharedSecret :: "crypto \<Rightarrow> bytes \<Rightarrow> bytes \<Rightarrow> bytes option" where
  "sharedSecret C sk peerPk =
     (case x_shared C sk peerPk of
        None \<Rightarrow> None
      | Some shared \<Rightarrow>
          if length shared \<noteq> 32 then None
          else if shared = zeros 32 then None
          else Some shared)"

lemma sharedSecret_sym:
  assumes "dh_correct C" "length a = 32" "length b = 32"
  shows "sharedSecret C a (x_public C b) = sharedSecret C b (x_public C a)"
proof -
  have "x_shared C a (x_public C b) = x_shared C b (x_public C a)"
    using assms unfolding dh_correct_def by blast
  then show ?thesis by (simp add: sharedSecret_def)
qed

text \<open>Agreement with the all-zero public key is the secret itself in the instance.\<close>

lemma toy_sharedSecret:
  "length sk = 32 \<Longrightarrow> sk \<noteq> zeros 32 \<Longrightarrow>
   sharedSecret toy_crypto sk (x_public toy_crypto (zeros 32)) = Some sk"
  by (simp add: sharedSecret_def toy_crypto_def pad_to_id map2_xor_zeros)

text \<open>\<open>new TextEncoder().encode\<close> on the ASCII strings of the code.\<close>

definition ascii :: "string \<Rightarrow> bytes" where
  "ascii s = map of_char s"

definition kdf :: "crypto \<Rightarrow> bytes \<Rightarrow> bytes \<Rightarrow> nat \<Rightarrow> bytes" where
  "kdf C ikm info n = hkdf_sha256 C ikm [] info n"

definition deriveAeadKey :: "crypto \<Rightarrow> bytes \<Rightarrow> bytes" where
  "deriveAeadKey C shared = kdf C shared (ascii ''anon-layer/v1/aead'') 32"

lemma length_deriveAeadKey [simp]: "hash_ok C \<Longrightarrow> length (deriveAeadKey C s) = 32"
  by (simp add: deriveAeadKey_def kdf_def hash_ok_def)

definition aeadEncrypt ::
  "crypto \<Rightarrow> bytes \<Rightarrow> bytes \<Rightarrow> bytes \<Rightarrow> bytes \<Rightarrow> (bytes \<times> bytes) res" where
  "aeadEncrypt C key nonce aad plaintext =
     (if length key \<noteq> 32 then Inl (Error ''aead key must be 32 bytes'')
      else if length nonce \<noteq> 12 then Inl (Error ''aead nonce must be 12 bytes'')
      else Inr (poly_seal C key nonce aad plaintext))"

definition aeadDecrypt ::
  "crypto \<Rightarrow> bytes \<Rightarrow> bytes \<Rightarrow> bytes \<Rightarrow> bytes \<Rightarrow> bytes \<Rightarrow> bytes option" where
  "aeadDecrypt C key nonce aad ciphertext tag =
     (if length key \<noteq> 32 then None
      else if length nonce \<noteq> 12 then None
      else if length tag \<noteq> 16 then None
      else poly_open C key nonce aad ciphertext tag)"

lemma aeadEncrypt_Inr:
  "length k = 32 \<Longrightarrow> length n = 12 \<Longrightarrow> \<exists>c t. aeadEncrypt C k n a p = Inr (c, t)"
  by (simp add: aeadEncrypt_def)

lemma aeadEncrypt_ok:
  assumes "aead_correct C" "aeadEncrypt C k n a p = Inr (c, t)"
  shows "length c = length p \<and> length t = 16 \<and> aeadDecrypt C k n a c t = Some p"
proof -
  have len: "length k = 32" "length n = 12" and e: "poly_seal C k n a p = (c, t)"
    using assms(2) by (auto simp: aeadEncrypt_def split: if_splits)
  then have "length c = length p" "length t = 16" "poly_open C k n a c t = Some p"
    using assms(1) len unfolding aead_correct_def by (metis fst_conv, metis snd_conv, metis)
  then show ?thesis using len by (simp add: aeadDecrypt_def)
qed

lemma aeadDecrypt_sound:
  assumes "aead_correct C" "aeadDecrypt C k n a c t = Some p"
  shows "aeadEncrypt C k n a p = Inr (c, t) \<and> length c = length p \<and> length t = 16"
proof -
  have len: "length k = 32" "length n = 12" "length t = 16" "poly_open C k n a c t = Some p"
    using assms(2) by (simp_all add: aeadDecrypt_def split: if_splits)
  then have "(c, t) = poly_seal C k n a p"
    using assms(1) by (simp add: aead_correct_def)
  then show ?thesis
    using len assms(1) unfolding aead_correct_def by (metis aeadEncrypt_def fst_conv)
qed

section \<open>cert.mjs: the 105-byte key certificate\<close>

text \<open>\<open>Number(view.getBigUint64(...))\<close>: above \<open>2 ^ 53\<close> the conversion rounds to the nearest
  double, ties to even.\<close>

fun bit_length :: "nat \<Rightarrow> nat" where
  "bit_length n = (if n = 0 then 0 else Suc (bit_length (n div 2)))"

declare bit_length.simps [simp del]

definition js_number :: "nat \<Rightarrow> nat" where
  "js_number n =
     (if bit_length n \<le> 53 then n
      else let e = bit_length n - 53; q = n div 2 ^ e; r = n mod 2 ^ e; half = 2 ^ (e - 1)
           in (if half < r \<or> (r = half \<and> odd q) then Suc q else q) * 2 ^ e)"

lemma bit_length_le: "bit_length n \<le> k \<longleftrightarrow> n < 2 ^ k"
proof (induction k arbitrary: n)
  case 0
  then show ?case by (subst bit_length.simps) simp
next
  case (Suc k)
  show ?case
  proof (cases "n = 0")
    case True
    then show ?thesis by (simp add: bit_length.simps)
  next
    case False
    then have "bit_length n \<le> Suc k \<longleftrightarrow> n div 2 < 2 ^ k"
      using Suc by (simp add: bit_length.simps [of n])
    then show ?thesis by auto
  qed
qed

lemma js_number_small: "n < 2 ^ 53 \<Longrightarrow> js_number n = n"
  by (simp add: js_number_def bit_length_le)

lemma js_number_big: "2 ^ 53 \<le> n \<Longrightarrow> 2 ^ 53 \<le> js_number n"
proof -
  assume "2 ^ 53 \<le> n"
  then have big: "53 < bit_length n" using bit_length_le [of n 53] by linarith
  define e where "e = bit_length n - 53"
  have "2 ^ (52 + e) \<le> n"
    using bit_length_le [of n "52 + e"] big unfolding e_def by linarith
  then have "2 ^ 52 \<le> n div 2 ^ e"
    by (simp add: power_add less_eq_div_iff_mult_less_eq)
  then have q: "2 ^ 52 * 2 ^ e \<le> n div 2 ^ e * 2 ^ e"
    by (rule mult_le_mono1)
  have "(2 :: nat) ^ 1 \<le> 2 ^ e"
    using big unfolding e_def by (intro power_increasing) simp_all
  then have "(2 :: nat) ^ 53 \<le> 2 ^ 52 * 2 ^ e" by simp
  then have "2 ^ 53 \<le> n div 2 ^ e * 2 ^ e" using q by (rule order_trans)
  moreover have "n div 2 ^ e * 2 ^ e \<le> Suc (n div 2 ^ e) * 2 ^ e" by simp
  ultimately show ?thesis
    using big unfolding js_number_def Let_def e_def [symmetric] by auto
qed

lemma js_number_le_iff:
  "now < 2 ^ 53 \<Longrightarrow> int (js_number n) \<le> now \<longleftrightarrow> int n \<le> now"
  using js_number_small [of n] js_number_big [of n] by (cases "n < 2 ^ 53") auto

definition CERT_VERSION :: byte where [simp]: "CERT_VERSION = 0x01"
definition LEN_CERT :: nat where [simp]: "LEN_CERT = 105"
definition LEN_SIGNED :: nat where [simp]: "LEN_SIGNED = 41"
definition OFFSET_ONION_PK :: nat where [simp]: "OFFSET_ONION_PK = 1"
definition OFFSET_EXPIRY :: nat where [simp]: "OFFSET_EXPIRY = 33"
definition OFFSET_SIG :: nat where [simp]: "OFFSET_SIG = 41"
definition LEN_ONION_PK :: nat where [simp]: "LEN_ONION_PK = 32"
definition LEN_SIG :: nat where [simp]: "LEN_SIG = 64"
definition CERT_BYTES :: nat where [simp]: "CERT_BYTES = LEN_CERT"

definition writeBigUint64BE :: "bytes \<Rightarrow> nat \<Rightarrow> int \<Rightarrow> bytes" where
  "writeBigUint64BE buf off v = set_at buf off (be_bytes 8 (nat (v mod 2 ^ 64)))"

definition readBigUint64BE :: "bytes \<Rightarrow> nat \<Rightarrow> nat" where
  "readBigUint64BE buf off = js_number (be_val (subarray buf off (off + 8)))"

definition buildCertificate :: "crypto \<Rightarrow> bytes \<Rightarrow> bytes \<Rightarrow> int \<Rightarrow> bytes res" where
  "buildCertificate C idSk onionPk expirySeconds =
     (if length onionPk \<noteq> LEN_ONION_PK then Inl (Error ''onionPk must be 32 bytes'')
      else
        let cert = (zeros LEN_CERT)[0 := CERT_VERSION];
            cert = set_at cert OFFSET_ONION_PK onionPk;
            cert = writeBigUint64BE cert OFFSET_EXPIRY expirySeconds;
            signature = sign C (subarray cert 0 LEN_SIGNED) idSk
        in Inr (set_at cert OFFSET_SIG signature))"

record cert_fields =
  cert_onionPk :: bytes
  cert_expirySeconds :: nat

definition verifyCertificate :: "crypto \<Rightarrow> bytes \<Rightarrow> bytes \<Rightarrow> int \<Rightarrow> cert_fields option" where
  "verifyCertificate C cert idPk nowSeconds =
     (if length cert \<noteq> LEN_CERT then None
      else if cert ! 0 \<noteq> CERT_VERSION then None
      else
        let expirySeconds = readBigUint64BE cert OFFSET_EXPIRY
        in if int expirySeconds \<le> nowSeconds then None
           else if \<not> verify C (subarray cert OFFSET_SIG (OFFSET_SIG + LEN_SIG))
                     (subarray cert 0 LEN_SIGNED) idPk then None
           else Some \<lparr>cert_onionPk = subarray cert OFFSET_ONION_PK (OFFSET_ONION_PK + LEN_ONION_PK),
                      cert_expirySeconds = expirySeconds\<rparr>)"

text \<open>The signed prefix, laid out.\<close>

definition cert_body :: "bytes \<Rightarrow> int \<Rightarrow> bytes" where
  "cert_body onionPk e = CERT_VERSION # onionPk @ be_bytes 8 (nat (e mod 2 ^ 64))"

lemma buildCertificate_layout:
  assumes "length onionPk = 32" "length (sign C (cert_body onionPk e) sk) = 64"
  shows "buildCertificate C sk onionPk e
    = Inr (cert_body onionPk e @ sign C (cert_body onionPk e) sk)"
  using assms
  by (simp add: buildCertificate_def writeBigUint64BE_def Let_def cert_body_def layout)

lemma length_cert_body: "length onionPk = 32 \<Longrightarrow> length (cert_body onionPk e) = 41"
  by (simp add: cert_body_def)

lemma verifyCertificate_iff:
  "verifyCertificate C cert idPk now = Some f \<longleftrightarrow>
     length cert = 105 \<and> cert ! 0 = 1 \<and> now < int (readBigUint64BE cert 33)
     \<and> verify C (subarray cert 41 105) (subarray cert 0 41) idPk
     \<and> f = \<lparr>cert_onionPk = subarray cert 1 33, cert_expirySeconds = readBigUint64BE cert 33\<rparr>"
  by (auto simp: verifyCertificate_def Let_def not_le)

lemma verifyCertificate_onionPk:
  "verifyCertificate C cert idPk now = Some f \<Longrightarrow> length (cert_onionPk f) = 32"
  by (auto simp: verifyCertificate_iff)

lemma verifyCertificate_None_now:
  "verifyCertificate C cert idPk now = Some f \<Longrightarrow> now < int (cert_expirySeconds f)"
  by (auto simp: verifyCertificate_iff)

text \<open>The later clock accepts no more: what verifies later verified before.\<close>

lemma verifyCertificate_antimono:
  "verifyCertificate C cert idPk now = Some f \<Longrightarrow> t \<le> now
   \<Longrightarrow> verifyCertificate C cert idPk t = Some f"
  by (auto simp: verifyCertificate_iff)

lemma verify_built_certificate:
  assumes "sig_correct C" "length sk = 32" "length onionPk = 32"
    and "buildCertificate C sk onionPk e = Inr cert"
  shows "verifyCertificate C cert (ed_public C sk) now
    = (if int (js_number (nat (e mod 2 ^ 64))) \<le> now then None
       else Some \<lparr>cert_onionPk = onionPk, cert_expirySeconds = js_number (nat (e mod 2 ^ 64))\<rparr>)"
proof -
  let ?v = "nat (e mod 2 ^ 64)"
  let ?body = "cert_body onionPk e"
  have v: "?v < 256 ^ 8" by (simp add: nat_less_iff)
  have cert: "cert = ?body @ sign C ?body sk"
    using assms buildCertificate_layout [of onionPk C e sk] by (simp add: length_sign)
  have len: "length ?body = 41" "length (sign C ?body sk) = 64" "length cert = 105"
    using assms by (simp_all add: cert length_cert_body length_sign)
  have "readBigUint64BE cert 33 = js_number ?v"
    using assms(3) len be_val_be_bytes_id [OF v]
    by (simp add: readBigUint64BE_def cert cert_body_def layout)
  moreover have "subarray cert 1 33 = onionPk"
    using assms(3) by (simp add: cert cert_body_def layout)
  moreover have "subarray cert 0 41 = ?body"
    using len by (simp add: cert layout)
  moreover have "subarray cert 41 105 = sign C ?body sk"
    using len by (simp add: cert layout)
  moreover have "cert ! 0 = CERT_VERSION"
    by (simp add: cert cert_body_def)
  ultimately show ?thesis
    using len verify_sign [OF assms(1,2)]
    by (simp add: verifyCertificate_def Let_def)
qed

section \<open>hybrid_sign.mjs\<close>

definition ED25519_PK_BYTES :: nat where [simp]: "ED25519_PK_BYTES = 32"
definition ED25519_SK_BYTES :: nat where [simp]: "ED25519_SK_BYTES = 32"
definition ED25519_SIG_BYTES :: nat where [simp]: "ED25519_SIG_BYTES = 64"
definition MLDSA_PK_BYTES :: nat where [simp]: "MLDSA_PK_BYTES = 1952"
definition MLDSA_SK_BYTES :: nat where [simp]: "MLDSA_SK_BYTES = 4032"
definition MLDSA_SIG_BYTES :: nat where [simp]: "MLDSA_SIG_BYTES = 3309"
definition HYBRID_PK_BYTES :: nat where [simp]: "HYBRID_PK_BYTES = ED25519_PK_BYTES + MLDSA_PK_BYTES"
definition HYBRID_SIG_BYTES :: nat where [simp]: "HYBRID_SIG_BYTES = ED25519_SIG_BYTES + MLDSA_SIG_BYTES"

record hybrid_keys =
  key_edSk :: bytes
  key_edPk :: bytes
  key_mldsaSk :: bytes
  key_mldsaPk :: bytes

text \<open>Two independent draws of 32 bytes, one for each key pair.\<close>

definition hybridKeygen :: "crypto \<Rightarrow> bytes \<Rightarrow> bytes \<Rightarrow> hybrid_keys" where
  "hybridKeygen C edSeed seed =
     (let mldsaKp = mldsa_keygen C seed
      in \<lparr>key_edSk = edSeed, key_edPk = ed_public C edSeed,
          key_mldsaSk = fst mldsaKp, key_mldsaPk = snd mldsaKp\<rparr>)"

definition hybridSign :: "crypto \<Rightarrow> bytes \<Rightarrow> bytes \<Rightarrow> bytes \<Rightarrow> bytes \<times> bytes" where
  "hybridSign C message edSk mldsaSk = (sign C message edSk, mldsa_sign C message mldsaSk)"

definition hybridVerify ::
  "crypto \<Rightarrow> bytes \<Rightarrow> bytes \<Rightarrow> bytes \<Rightarrow> bytes \<Rightarrow> bytes \<Rightarrow> bool" where
  "hybridVerify C message edPk mldsaPk edSig mldsaSig =
     (if length edPk \<noteq> ED25519_PK_BYTES then False
      else if length mldsaPk \<noteq> MLDSA_PK_BYTES then False
      else if length edSig \<noteq> ED25519_SIG_BYTES then False
      else if length mldsaSig \<noteq> MLDSA_SIG_BYTES then False
      else
        let okEd = verify C edSig message edPk;
            okMldsa = (case mldsa_verify C mldsaSig message mldsaPk of None \<Rightarrow> False | Some b \<Rightarrow> b)
        in okEd \<and> okMldsa)"

definition mldsa_correct :: "crypto \<Rightarrow> bool" where
  "mldsa_correct C \<longleftrightarrow> (\<forall>m seed. length seed = 32 \<longrightarrow>
      length (fst (mldsa_keygen C seed)) = 4032 \<and> length (snd (mldsa_keygen C seed)) = 1952
      \<and> length (mldsa_sign C m (fst (mldsa_keygen C seed))) = 3309
      \<and> mldsa_verify C (mldsa_sign C m (fst (mldsa_keygen C seed))) m (snd (mldsa_keygen C seed))
          = Some True)"

lemma toy_mldsa_correct: "mldsa_correct toy_crypto"
  by (auto simp: mldsa_correct_def toy_crypto_def pad_to_def)

lemma hybridVerify_hybridSign:
  assumes "sig_correct C" "mldsa_correct C" "length a = 32" "length b = 32"
    and "hybridKeygen C a b = k" "hybridSign C m (key_edSk k) (key_mldsaSk k) = (es, ms)"
  shows "hybridVerify C m (key_edPk k) (key_mldsaPk k) es ms"
  using assms
  by (auto simp: hybridKeygen_def hybridSign_def hybridVerify_def Let_def verify_sign length_sign
      sig_correct_def mldsa_correct_def)

lemma hybridVerify_both:
  "hybridVerify C m ep mp es ms \<Longrightarrow>
   verify C es m ep \<and> mldsa_verify C ms m mp = Some True
   \<and> length ep = 32 \<and> length mp = 1952 \<and> length es = 64 \<and> length ms = 3309"
  by (auto simp: hybridVerify_def Let_def split: if_splits option.splits)

section \<open>Properties\<close>

text \<open>A certificate that an identity issues for an onion key verifies under that identity until its
  expiry, and yields that key and that expiry; from the expiry on it is refused. The expiry is
  the double nearest to the 64-bit value that was written.\<close>

theorem certificate_roundtrip:
  assumes "sig_correct C" "length sk = 32" "buildCertificate C sk onionPk e = Inr cert"
  shows "verifyCertificate C cert (publicFromSecret C sk) now
    = (if int (js_number (nat (e mod 2 ^ 64))) \<le> now then None
       else Some \<lparr>cert_onionPk = onionPk, cert_expirySeconds = js_number (nat (e mod 2 ^ 64))\<rparr>)"
proof -
  have "length onionPk = 32" using assms(3) by (simp add: buildCertificate_def split: if_splits)
  then show ?thesis
    using verify_built_certificate [OF assms(1,2) _ assms(3)] by (simp add: publicFromSecret_def)
qed

theorem certificate_roundtrip_witness:
  "\<exists>cert. buildCertificate toy_crypto (zeros 32) (zeros 32) 100 = Inr cert
    \<and> verifyCertificate toy_crypto cert (publicFromSecret toy_crypto (zeros 32)) 99
      = Some \<lparr>cert_onionPk = zeros 32, cert_expirySeconds = 100\<rparr>
    \<and> verifyCertificate toy_crypto cert (publicFromSecret toy_crypto (zeros 32)) 100 = None"
proof -
  obtain cert where c: "buildCertificate toy_crypto (zeros 32) (zeros 32) 100 = Inr cert"
    by (simp add: buildCertificate_def Let_def)
  then show ?thesis
    using certificate_roundtrip [OF toy_sig_correct _ c, of 99]
      certificate_roundtrip [OF toy_sig_correct _ c, of 100]
    by (simp add: js_number_small)
qed

text \<open>A hybrid signature made with a generated key pair verifies, and a hybrid signature that
  verifies has passed both the Ed25519 and the ML-DSA check.\<close>

theorem hybrid_signature:
  assumes "sig_correct C" "mldsa_correct C" "length a = 32" "length b = 32"
    and "hybridKeygen C a b = k" "hybridSign C m (key_edSk k) (key_mldsaSk k) = (es, ms)"
  shows "hybridVerify C m (key_edPk k) (key_mldsaPk k) es ms
    \<and> (\<not> hybridVerify C m' ep mp es' ms'
        \<or> (verify C es' m' ep \<and> mldsa_verify C ms' m' mp = Some True))"
  using hybridVerify_hybridSign [OF assms] hybridVerify_both [of C m' ep mp es' ms'] by blast

theorem hybrid_signature_witness:
  "hybridVerify toy_crypto [7] (key_edPk (hybridKeygen toy_crypto (zeros 32) (zeros 32)))
     (key_mldsaPk (hybridKeygen toy_crypto (zeros 32) (zeros 32)))
     (fst (hybridSign toy_crypto [7] (key_edSk (hybridKeygen toy_crypto (zeros 32) (zeros 32)))
       (key_mldsaSk (hybridKeygen toy_crypto (zeros 32) (zeros 32)))))
     (snd (hybridSign toy_crypto [7] (key_edSk (hybridKeygen toy_crypto (zeros 32) (zeros 32)))
       (key_mldsaSk (hybridKeygen toy_crypto (zeros 32) (zeros 32)))))"
  using hybrid_signature [OF toy_sig_correct toy_mldsa_correct, of "zeros 32" "zeros 32"] by simp

end
