(* ===== verification/Wire_Packet.thy ===== *)
theory Wire_Packet
  imports Wire_Replay Crypto
begin

text \<open>
  \<open>modules/wire/packet.mjs\<close>: the send path (\<open>encodePacket\<close>) and the receive path
  (\<open>decodePacket\<close>). The random draws of the sender are arguments: \<open>rng i\<close> is the secret key of
  attempt \<open>i\<close>, \<open>nonce\<close> the nonce. The receiver returns the packet or null, the replay log
  after it, and what it passed to \<open>onPostAeadFailure\<close>, if it called it.
\<close>

section \<open>encodePacket\<close>

definition MAX_EPH_RETRIES :: nat where [simp]: "MAX_EPH_RETRIES = 8"

fun eph_loop :: "crypto \<Rightarrow> bytes \<Rightarrow> (nat \<Rightarrow> bytes) \<Rightarrow> nat \<Rightarrow> nat \<Rightarrow> (bytes \<times> bytes) option" where
  "eph_loop C recipientOnionPk rng attempt 0 = None"
| "eph_loop C recipientOnionPk rng attempt (Suc left) =
     (let (ephSk, ephPk) = generateOnion C (rng attempt)
      in case sharedSecret C ephSk recipientOnionPk of
           Some shared \<Rightarrow> Some (ephPk, shared)
         | None \<Rightarrow> eph_loop C recipientOnionPk rng (attempt + 1) left)"

record send_args =
  snd_recipientIdPk :: bytes
  snd_recipientOnionPk :: bytes
  snd_senderFingerprint :: bytes
  snd_packetType :: nat
  snd_payload :: bytes

definition encodePacket :: "crypto \<Rightarrow> (nat \<Rightarrow> bytes) \<Rightarrow> bytes \<Rightarrow> send_args \<Rightarrow> bytes res" where
  "encodePacket C rng nonce a =
     (let bucket = bucketForSize (LEN_OUTER_HEADER + 35 + length (snd_payload a) + LEN_AEAD_TAG)
      in if bucket = 0
           then Inl (Error ''payload exceeds BUCKET_LARGE capacity; fragment at the application layer'')
         else
           let recipientPrefix = subarray (fingerprint C (snd_recipientIdPk a)) 0 LEN_RECIPIENT_PREFIX
           in case eph_loop C (snd_recipientOnionPk a) rng 0 MAX_EPH_RETRIES of
                None \<Rightarrow> Inl (Error ''recipient onion key produces all-zero X25519 shared (low-order point)'')
              | Some (ephPk, shared) \<Rightarrow>
                  let aeadKey = deriveAeadKey C shared
                  in case buildInnerPlaintext bucket (snd_packetType a) (snd_senderFingerprint a) (snd_payload a) of
                       Inl e \<Rightarrow> Inl e
                     | Inr inner \<Rightarrow>
                         (case buildOuterHeader \<lparr>hdr_version = WIRE_VERSION, hdr_bucket = bucket,
                                 hdr_recipientPrefix = recipientPrefix, hdr_ephPk = ephPk, hdr_nonce = nonce\<rparr> of
                            Inl e \<Rightarrow> Inl e
                          | Inr outerHeader \<Rightarrow>
                              (case aeadEncrypt C aeadKey nonce outerHeader inner of
                                 Inl e \<Rightarrow> Inl e
                               | Inr (ciphertext, tag) \<Rightarrow>
                                   let packet = zeros (bucketSize bucket);
                                       packet = set_at packet 0 outerHeader;
                                       packet = set_at packet LEN_OUTER_HEADER ciphertext
                                   in Inr (set_at packet (LEN_OUTER_HEADER + length ciphertext) tag))))"

section \<open>decodePacket\<close>

record decoded_packet =
  pkt_bucket :: nat
  pkt_packetType :: nat
  pkt_senderFingerprint :: bytes
  pkt_payload :: bytes
  pkt_ephPk :: bytes
  pkt_nonce :: bytes

datatype failure_reason = Real_length | Padding | Replay

record decode_outcome =
  out_packet :: "decoded_packet option"
  out_log :: "replay_log option"
  out_failure :: "(bytes \<times> failure_reason) option"

definition dropped :: "replay_log option \<Rightarrow> decode_outcome" where
  "dropped replayLog = \<lparr>out_packet = None, out_log = replayLog, out_failure = None\<rparr>"

text \<open>Steps 1 to 5: everything up to the authenticated plaintext.\<close>

definition open_packet ::
  "crypto \<Rightarrow> bytes \<Rightarrow> bytes \<Rightarrow> bytes \<Rightarrow> (nat \<times> outer_header \<times> bytes) option" where
  "open_packet C myIdPk myOnionSk raw =
     (let bucket = bucketForSize (length raw)
      in if bucket = 0 \<or> length raw \<noteq> bucketSize bucket then None
         else case parseOuterHeader raw of
           None \<Rightarrow> None
         | Some outer \<Rightarrow>
             if hdr_version outer \<noteq> WIRE_VERSION then None
             else if hdr_bucket outer \<noteq> bucket then None
             else
               let myPrefix = subarray (fingerprint C myIdPk) 0 LEN_RECIPIENT_PREFIX
               in if hdr_recipientPrefix outer \<noteq> myPrefix then None
                  else case sharedSecret C myOnionSk (hdr_ephPk outer) of
                    None \<Rightarrow> None
                  | Some shared \<Rightarrow>
                      let aeadKey = deriveAeadKey C shared;
                          innerLen = innerLengthForBucket bucket;
                          ciphertext = subarray raw LEN_OUTER_HEADER (LEN_OUTER_HEADER + innerLen);
                          tag = subarray raw (LEN_OUTER_HEADER + innerLen)
                                  (LEN_OUTER_HEADER + innerLen + LEN_AEAD_TAG);
                          aad = subarray raw 0 LEN_OUTER_HEADER
                      in case aeadDecrypt C aeadKey (hdr_nonce outer) aad ciphertext tag of
                           None \<Rightarrow> None
                         | Some plaintext \<Rightarrow> Some (bucket, outer, plaintext))"

text \<open>The reason reported when the plaintext is malformed.\<close>

definition failure_of :: "bytes \<Rightarrow> nat \<Rightarrow> (bytes \<times> failure_reason) option" where
  "failure_of plaintext bucket =
     (if length plaintext \<ge> OFFSET_SENDER_FINGERPRINT + LEN_SENDER_FINGERPRINT then
        let claimedFp = subarray plaintext OFFSET_SENDER_FINGERPRINT
                          (OFFSET_SENDER_FINGERPRINT + LEN_SENDER_FINGERPRINT);
            claimedRealLength = (push_bit 8 (unat (plaintext ! 1))) OR unat (plaintext ! 2);
            maxPayload = bucketSize bucket - LEN_OUTER_HEADER - LEN_AEAD_TAG - 35
        in Some (claimedFp, if claimedRealLength > maxPayload then Real_length else Padding)
      else None)"

definition decodePacket ::
  "crypto \<Rightarrow> bytes \<Rightarrow> bytes \<Rightarrow> replay_log option \<Rightarrow> int \<Rightarrow> bytes \<Rightarrow> decode_outcome res" where
  "decodePacket C myIdPk myOnionSk replayLog now raw =
     (case open_packet C myIdPk myOnionSk raw of
        None \<Rightarrow> Inr (dropped replayLog)
      | Some (bucket, outer, plaintext) \<Rightarrow>
          (case parseInnerPlaintext plaintext bucket of
             None \<Rightarrow> Inr ((dropped replayLog)\<lparr>out_failure := failure_of plaintext bucket\<rparr>)
           | Some inner \<Rightarrow>
               let packet = \<lparr>pkt_bucket = bucket, pkt_packetType = inn_packetType inner,
                     pkt_senderFingerprint = inn_senderFingerprint inner,
                     pkt_payload = inn_payload inner,
                     pkt_ephPk = hdr_ephPk outer, pkt_nonce = hdr_nonce outer\<rparr>
               in case replayLog of
                    None \<Rightarrow> Inr \<lparr>out_packet = Some packet, out_log = None, out_failure = None\<rparr>
                  | Some log \<Rightarrow>
                      (case replay_check log (hdr_ephPk outer) (hdr_nonce outer) of
                         Inl e \<Rightarrow> Inl e
                       | Inr True \<Rightarrow>
                           Inr ((dropped replayLog)
                             \<lparr>out_failure := Some (inn_senderFingerprint inner, Replay)\<rparr>)
                       | Inr False \<Rightarrow>
                           (case replay_insert log (hdr_ephPk outer) (hdr_nonce outer) now of
                              Inl e \<Rightarrow> Inl e
                            | Inr log' \<Rightarrow>
                                Inr \<lparr>out_packet = Some packet, out_log = Some log', out_failure = None\<rparr>))))"

section \<open>The send path\<close>

lemma eph_loop_Some:
  "eph_loop C pk rng i n = Some (ephPk, shared) \<Longrightarrow>
   \<exists>j. i \<le> j \<and> j < i + n \<and> ephPk = x_public C (rng j) \<and> sharedSecret C (rng j) pk = Some shared"
proof (induction n arbitrary: i)
  case 0
  then show ?case by simp
next
  case (Suc n)
  show ?case
  proof (cases "sharedSecret C (rng i) pk")
    case None
    then have "eph_loop C pk rng (i + 1) n = Some (ephPk, shared)"
      using Suc.prems by (simp add: generateOnion_def)
    from Suc.IH [OF this] obtain j where "i + 1 \<le> j \<and> j < i + 1 + n \<and> ephPk = x_public C (rng j)
        \<and> sharedSecret C (rng j) pk = Some shared" by blast
    then show ?thesis by (intro exI [of _ j]) simp
  next
    case (Some s)
    then show ?thesis using Suc.prems by (auto simp: generateOnion_def intro!: exI [of _ i])
  qed
qed

text \<open>A packet the receiver could be sent: header, ciphertext and tag in their places.\<close>

definition sealed_packet :: "crypto \<Rightarrow> nat \<Rightarrow> outer_header \<Rightarrow> bytes \<Rightarrow> bytes \<Rightarrow> bytes \<Rightarrow> bool" where
  "sealed_packet C bucket h shared plaintext raw \<longleftrightarrow>
     (\<exists>hb c t. buildOuterHeader h = Inr hb
        \<and> aeadEncrypt C (deriveAeadKey C shared) (hdr_nonce h) hb plaintext = Inr (c, t)
        \<and> length c = innerLengthForBucket bucket \<and> length t = 16 \<and> raw = hb @ c @ t)"

lemma length_sealed_packet:
  assumes "sealed_packet C b h s p raw" "bucketSize b \<noteq> 0"
  shows "length raw = bucketSize b"
  using assms innerLength_bucket [of b] length_outer_header
  by (auto simp: sealed_packet_def)

lemma encodePacket_sealed:
  assumes "aead_correct C" "hash_ok C" "encodePacket C rng nonce a = Inr raw"
  obtains b j shared inner where
    "b = bucketForSize (105 + length (snd_payload a))" "b \<noteq> 0" "j < 8"
    "sharedSecret C (rng j) (snd_recipientOnionPk a) = Some shared"
    "buildInnerPlaintext b (snd_packetType a) (snd_senderFingerprint a) (snd_payload a) = Inr inner"
    "length nonce = 12" "length (x_public C (rng j)) = 32"
    "sealed_packet C b \<lparr>hdr_version = 1, hdr_bucket = b,
       hdr_recipientPrefix = subarray (fingerprint C (snd_recipientIdPk a)) 0 8,
       hdr_ephPk = x_public C (rng j), hdr_nonce = nonce\<rparr> shared inner raw"
proof -
  let ?b = "bucketForSize (105 + length (snd_payload a))"
  let ?h = "\<lambda>pk. \<lparr>hdr_version = 1, hdr_bucket = ?b,
       hdr_recipientPrefix = subarray (fingerprint C (snd_recipientIdPk a)) 0 8,
       hdr_ephPk = pk, hdr_nonce = nonce\<rparr>"
  obtain ephPk shared inner hb c t where b: "?b \<noteq> 0"
    and e: "eph_loop C (snd_recipientOnionPk a) rng 0 8 = Some (ephPk, shared)"
    and i: "buildInnerPlaintext ?b (snd_packetType a) (snd_senderFingerprint a) (snd_payload a) = Inr inner"
    and h: "buildOuterHeader (?h ephPk) = Inr hb"
    and ct: "aeadEncrypt C (deriveAeadKey C shared) nonce hb inner = Inr (c, t)"
    and raw: "raw = set_at (set_at (set_at (zeros (bucketSize ?b)) 0 hb) 54 c) (54 + length c) t"
    using assms(3)
    by (auto simp: encodePacket_def Let_def add.commute split: if_splits sum.splits option.splits)
  obtain j where j: "j < 8" "ephPk = x_public C (rng j)"
      "sharedSecret C (rng j) (snd_recipientOnionPk a) = Some shared"
    using eph_loop_Some [OF e] by auto
  have hdr: "length hb = 54" "length nonce = 12" "length ephPk = 32"
    using h length_outer_header [OF h] by (auto simp: buildOuterHeader_def split: if_splits)
  have inner: "length inner = innerLengthForBucket ?b" "bucketSize ?b \<noteq> 0"
    using length_buildInner [OF i] by simp_all
  have ct': "length c = innerLengthForBucket ?b" "length t = 16"
    using aeadEncrypt_ok [OF assms(1) ct] inner by simp_all
  have "bucketSize ?b = 54 + (innerLengthForBucket ?b + 16)"
    using innerLength_bucket [OF inner(2)] by simp
  then have "raw = hb @ c @ t"
    using raw hdr ct' by (simp add: layout)
  then have "sealed_packet C ?b (?h ephPk) shared inner raw"
    using h ct ct' by (auto simp: sealed_packet_def)
  with that [OF refl b j(1,3) i hdr(2)] j hdr show thesis by simp
qed

text \<open>Sending succeeds whenever the fields have their sizes, the payload fits and the first ephemeral
  key agrees on a secret.\<close>

lemma encodePacket_succeeds:
  assumes "hash_ok C" "length (snd_payload a) \<le> 3991" "length (snd_senderFingerprint a) = 32"
    and "length nonce = 12" "length (x_public C (rng 0)) = 32"
    and "sharedSecret C (rng 0) (snd_recipientOnionPk a) = Some shared"
  shows "\<exists>raw. encodePacket C rng nonce a = Inr raw"
proof -
  let ?b = "bucketForSize (105 + length (snd_payload a))"
  have b0: "?b \<noteq> 0" using assms(2) by (simp add: bucketForSize_def)
  then have b: "bucketSize ?b \<noteq> 0" "length (snd_payload a) \<le> maxPayloadForBucket ?b"
    using bucketForSize_spec [OF b0] innerLength_bucket [of ?b] by auto
  have e: "eph_loop C (snd_recipientOnionPk a) rng 0 8 = Some (x_public C (rng 0), shared)"
    using assms(6) by (simp add: eval_nat_numeral generateOnion_def)
  obtain inner where i: "buildInnerPlaintext ?b (snd_packetType a) (snd_senderFingerprint a) (snd_payload a)
      = Inr inner"
    using buildInner_layout [OF b(1) assms(3) b(2)] by blast
  obtain hb where h: "buildOuterHeader \<lparr>hdr_version = 1, hdr_bucket = ?b,
       hdr_recipientPrefix = subarray (fingerprint C (snd_recipientIdPk a)) 0 8,
       hdr_ephPk = x_public C (rng 0), hdr_nonce = nonce\<rparr> = Inr hb"
    using assms by (simp add: buildOuterHeader_def Let_def)
  obtain c t where "aeadEncrypt C (deriveAeadKey C shared) nonce hb inner = Inr (c, t)"
    using aeadEncrypt_Inr [of "deriveAeadKey C shared" nonce C hb inner] assms(1,4) by auto
  then show ?thesis
    using b0 e i h by (simp add: encodePacket_def Let_def add.commute)
qed

section \<open>The receive path\<close>

lemma innerLength_cases:
  "bucketSize b \<noteq> 0 \<Longrightarrow> innerLengthForBucket b \<in> {186, 954, 4026}"
  by (auto simp: innerLengthForBucket_def bucketSize_def split: if_splits)

text \<open>Opening accepts exactly the sealed packets addressed to this node.\<close>

lemma open_sealed:
  assumes "aead_correct C" "hash_ok C" "bucketSize b \<noteq> 0" "header_ok h" "hdr_version h = 1" "hdr_bucket h = b"
    and "hdr_recipientPrefix h = subarray (fingerprint C myIdPk) 0 8"
    and "sharedSecret C myOnionSk (hdr_ephPk h) = Some shared"
    and "sealed_packet C b h shared plaintext raw"
  shows "open_packet C myIdPk myOnionSk raw = Some (b, h, plaintext)"
proof -
  obtain hb c t where hb: "buildOuterHeader h = Inr hb"
    and ct: "aeadEncrypt C (deriveAeadKey C shared) (hdr_nonce h) hb plaintext = Inr (c, t)"
    and len: "length c = innerLengthForBucket b" "length t = 16" and raw: "raw = hb @ c @ t"
    using assms(9) by (auto simp: sealed_packet_def)
  have lr: "length raw = bucketSize b"
    using assms(3,9) by (simp add: length_sealed_packet)
  have lb: "bucketForSize (length raw) = b" using assms(3) lr by (simp add: bucketForSize_bucketSize)
  have lh: "length hb = 54" using hb by (rule length_outer_header)
  have n: "length (hdr_nonce h) = 12" using assms(4) by (simp add: header_ok_def)
  have d: "aeadDecrypt C (deriveAeadKey C shared) (hdr_nonce h) hb c t = Some plaintext"
    using aeadEncrypt_ok [OF assms(1) ct] by simp
  have p: "parseOuterHeader raw = Some h" unfolding raw using assms(4) hb by (rule parse_build_header)
  have s: "subarray raw 0 54 = hb" "subarray raw 54 (54 + innerLengthForBucket b) = c"
      "subarray raw (54 + innerLengthForBucket b) (70 + innerLengthForBucket b) = t"
    using lh len by (simp_all add: raw layout)
  have "b \<noteq> 0" using assms(3) bucketSize_def [of 0] by (intro notI) simp
  then show ?thesis
    using lb lr p s d assms(5-8) by (simp add: open_packet_def Let_def add.commute)
qed

lemma open_sound:
  assumes "aead_correct C" "open_packet C myIdPk myOnionSk raw = Some (b, h, plaintext)"
  obtains shared where "bucketSize b \<noteq> 0" "length raw = bucketSize b" "header_ok h"
    "hdr_version h = 1" "hdr_bucket h = b"
    "hdr_recipientPrefix h = subarray (fingerprint C myIdPk) 0 8"
    "sharedSecret C myOnionSk (hdr_ephPk h) = Some shared"
    "length plaintext = innerLengthForBucket b"
    "sealed_packet C b h shared plaintext raw"
proof -
  let ?n = "innerLengthForBucket b"
  obtain shared where lr: "length raw = bucketSize b" "b = bucketForSize (length raw)" "b \<noteq> 0"
    and p: "parseOuterHeader raw = Some h" "hdr_version h = 1" "hdr_bucket h = b"
      "hdr_recipientPrefix h = subarray (fingerprint C myIdPk) 0 8"
    and s: "sharedSecret C myOnionSk (hdr_ephPk h) = Some shared"
    and d: "aeadDecrypt C (deriveAeadKey C shared) (hdr_nonce h) (subarray raw 0 54)
        (subarray raw 54 (54 + ?n)) (subarray raw (54 + ?n) (54 + ?n + 16)) = Some plaintext"
    using assms(2)
    by (auto simp: open_packet_def Let_def add.commute split: if_splits option.splits)
  have b: "bucketSize b \<noteq> 0"
    using lr by (auto simp: bucketForSize_def bucketSize_def split: if_splits)
  have e: "aeadEncrypt C (deriveAeadKey C shared) (hdr_nonce h) (subarray raw 0 54) plaintext
        = Inr (subarray raw 54 (54 + ?n), subarray raw (54 + ?n) (54 + ?n + 16))"
      "length (subarray raw 54 (54 + ?n)) = length plaintext"
      "length (subarray raw (54 + ?n) (54 + ?n + 16)) = 16"
    using aeadDecrypt_sound [OF assms(1) d] by simp_all
  have sz: "bucketSize b = 54 + ?n + 16" using innerLength_bucket [OF b] by simp
  then have "raw = subarray raw 0 54 @ subarray raw 54 (54 + ?n) @ subarray raw (54 + ?n) (54 + ?n + 16)"
    using lr(1) by (simp add: subarray_join subarray_all)
  moreover have "buildOuterHeader h = Inr (subarray raw 0 54)"
    using p(1) by (rule build_parse_header)
  moreover have "length (subarray raw 54 (54 + ?n)) = ?n" using sz lr(1) by simp
  ultimately have "sealed_packet C b h shared plaintext raw"
    using e unfolding sealed_packet_def by metis
  moreover have "length plaintext = ?n" using e(2) sz lr(1) by simp
  ultimately show thesis
    using that [OF b lr(1) parseOuterHeader_ok [OF p(1)] p(2-4) s] by blast
qed

lemma open_header:
  "open_packet C myIdPk myOnionSk raw = Some (b, h, plaintext) \<Longrightarrow>
   parseOuterHeader raw = Some h \<and> length (hdr_ephPk h) = 32 \<and> length (hdr_nonce h) = 12"
  using parseOuterHeader_ok [of raw h]
  by (auto simp: open_packet_def Let_def header_ok_def split: if_splits option.splits)

lemma replay_check_ok:
  "length e = 32 \<Longrightarrow> length n = 12 \<Longrightarrow>
   replay_check l e n = Inr (map_get (rpl_seen l) (toHex (e @ n)) \<noteq> None)"
  by (simp add: replay_check_def toKey_ok map_has_get)

lemma replay_insert_ok:
  "length e = 32 \<Longrightarrow> length n = 12 \<Longrightarrow> \<exists>l'. replay_insert l e n ts = Inr l'"
  by (simp add: replay_insert_def toKey_ok)

lemma decode_returns:
  "\<exists>out. decodePacket C myIdPk myOnionSk log now raw = Inr out
     \<and> (out_packet out = None \<longrightarrow> out_log out = log)
     \<and> (out_failure out \<noteq> None \<longrightarrow>
          out_packet out = None \<and> open_packet C myIdPk myOnionSk raw \<noteq> None)"
proof (cases "open_packet C myIdPk myOnionSk raw")
  case None
  then show ?thesis by (simp add: decodePacket_def dropped_def)
next
  case (Some r)
  obtain b h p where r: "r = (b, h, p)" by (cases r)
  have len: "length (hdr_ephPk h) = 32" "length (hdr_nonce h) = 12"
    using open_header Some r by blast+
  obtain l' where "\<And>l. log = Some l \<Longrightarrow> replay_insert l (hdr_ephPk h) (hdr_nonce h) now = Inr l'"
    using replay_insert_ok [OF len] by (cases log) auto
  then show ?thesis
    using Some len
    by (auto simp: r decodePacket_def dropped_def Let_def replay_check_ok
        split: option.splits bool.splits)
qed

text \<open>What an accepted packet says about the bytes and about the log.\<close>

lemma decode_accept:
  assumes "decodePacket C myIdPk myOnionSk log now raw = Inr out" "out_packet out = Some pkt"
  obtains b h plaintext where
    "open_packet C myIdPk myOnionSk raw = Some (b, h, plaintext)"
    "parseInnerPlaintext plaintext b = Some \<lparr>inn_packetType = pkt_packetType pkt,
       inn_senderFingerprint = pkt_senderFingerprint pkt, inn_payload = pkt_payload pkt,
       inn_realLength = length (pkt_payload pkt)\<rparr>"
    "pkt_bucket pkt = b" "pkt_ephPk pkt = hdr_ephPk h" "pkt_nonce pkt = hdr_nonce h"
    "\<And>l. log = Some l \<Longrightarrow> map_get (rpl_seen l) (toHex (hdr_ephPk h @ hdr_nonce h)) = None
       \<and> (\<exists>l'. out_log out = Some l' \<and> replay_insert l (hdr_ephPk h) (hdr_nonce h) now = Inr l')"
proof -
  obtain b h plaintext where o: "open_packet C myIdPk myOnionSk raw = Some (b, h, plaintext)"
    using assms by (auto simp: decodePacket_def dropped_def split: option.splits)
  have len: "length (hdr_ephPk h) = 32" "length (hdr_nonce h) = 12"
    using open_header [OF o] by simp_all
  obtain i where i: "parseInnerPlaintext plaintext b = Some i"
    using assms o by (auto simp: decodePacket_def dropped_def split: option.splits)
  have r: "inn_realLength i = length (inn_payload i)"
    using build_parse_inner [OF i] by (simp add: inner_ok_def)
  have pkt: "pkt = \<lparr>pkt_bucket = b, pkt_packetType = inn_packetType i,
      pkt_senderFingerprint = inn_senderFingerprint i, pkt_payload = inn_payload i,
      pkt_ephPk = hdr_ephPk h, pkt_nonce = hdr_nonce h\<rparr>"
    using assms o i len
    by (auto simp: decodePacket_def dropped_def Let_def replay_check_ok
        split: option.splits bool.splits sum.splits)
  have "map_get (rpl_seen l) (toHex (hdr_ephPk h @ hdr_nonce h)) = None
       \<and> (\<exists>l'. out_log out = Some l' \<and> replay_insert l (hdr_ephPk h) (hdr_nonce h) now = Inr l')"
    if "log = Some l" for l
    using assms o i len that
    by (auto simp: decodePacket_def dropped_def Let_def replay_check_ok
        split: option.splits bool.splits sum.splits)
  then show thesis
    using that [OF o] i r by (cases i) (simp add: pkt)
qed

lemma decode_accept_bytes:
  assumes "decodePacket C myIdPk myOnionSk log now raw = Inr out" "out_packet out = Some pkt"
  shows "pkt_ephPk pkt = subarray raw 10 42 \<and> pkt_nonce pkt = subarray raw 42 54"
proof -
  obtain b h plaintext where o: "open_packet C myIdPk myOnionSk raw = Some (b, h, plaintext)"
    and p: "pkt_ephPk pkt = hdr_ephPk h" "pkt_nonce pkt = hdr_nonce h"
    using decode_accept [OF assms] by metis
  then show ?thesis using open_header [OF o] by (auto simp: parseOuterHeader_def split: if_splits)
qed

lemma decode_accept_log:
  assumes "decodePacket C myIdPk myOnionSk (Some l) now raw = Inr out" "out_packet out = Some pkt"
  obtains b h plaintext l' where "open_packet C myIdPk myOnionSk raw = Some (b, h, plaintext)"
    "pkt_ephPk pkt = hdr_ephPk h" "pkt_nonce pkt = hdr_nonce h"
    "map_get (rpl_seen l) (toHex (hdr_ephPk h @ hdr_nonce h)) = None"
    "replay_insert l (hdr_ephPk h) (hdr_nonce h) now = Inr l'" "out_log out = Some l'"
proof (rule decode_accept [OF assms])
  fix b h plaintext
  assume o: "open_packet C myIdPk myOnionSk raw = Some (b, h, plaintext)"
    and p: "pkt_ephPk pkt = hdr_ephPk h" "pkt_nonce pkt = hdr_nonce h"
    and l: "\<And>l'. Some l = Some l' \<Longrightarrow> map_get (rpl_seen l') (toHex (hdr_ephPk h @ hdr_nonce h)) = None
       \<and> (\<exists>l''. out_log out = Some l'' \<and> replay_insert l' (hdr_ephPk h) (hdr_nonce h) now = Inr l'')"
  from l [OF refl] show thesis using that [OF o p] by blast
qed

lemma decode_sealed:
  assumes "open_packet C myIdPk myOnionSk raw = Some (b, h, plaintext)"
    and "parseInnerPlaintext plaintext b = Some i"
    and "map_get (rpl_seen l) (toHex (hdr_ephPk h @ hdr_nonce h)) = None"
  shows "\<exists>l'. replay_insert l (hdr_ephPk h) (hdr_nonce h) now = Inr l' \<and>
    decodePacket C myIdPk myOnionSk (Some l) now raw = Inr \<lparr>
      out_packet = Some \<lparr>pkt_bucket = b, pkt_packetType = inn_packetType i,
        pkt_senderFingerprint = inn_senderFingerprint i, pkt_payload = inn_payload i,
        pkt_ephPk = hdr_ephPk h, pkt_nonce = hdr_nonce h\<rparr>,
      out_log = Some l', out_failure = None\<rparr>"
proof -
  have len: "length (hdr_ephPk h) = 32" "length (hdr_nonce h) = 12"
    using open_header [OF assms(1)] by simp_all
  obtain l' where "replay_insert l (hdr_ephPk h) (hdr_nonce h) now = Inr l'"
    using replay_insert_ok [OF len] by blast
  then show ?thesis
    using assms len by (simp add: decodePacket_def Let_def replay_check_ok)
qed

lemma encode_opens:
  assumes "aead_correct C" "hash_ok C" "dh_correct C"
    and "\<And>i. length (rng i) = 32" "length onionSk = 32" "ty < 256"
    and enc: "encodePacket C rng nonce \<lparr>snd_recipientIdPk = idPk, snd_recipientOnionPk = x_public C onionSk,
           snd_senderFingerprint = fp, snd_packetType = ty, snd_payload = payload\<rparr> = Inr raw"
  shows "\<exists>h inner. open_packet C idPk onionSk raw = Some (bucketForSize (105 + length payload), h, inner)
    \<and> hdr_ephPk h = subarray raw 10 42 \<and> hdr_nonce h = nonce \<and> length (hdr_ephPk h) = 32 \<and> length nonce = 12
    \<and> parseInnerPlaintext inner (bucketForSize (105 + length payload)) = Some \<lparr>inn_packetType = ty,
        inn_senderFingerprint = fp, inn_payload = payload, inn_realLength = length payload\<rparr>"
proof -
  let ?a = "\<lparr>snd_recipientIdPk = idPk, snd_recipientOnionPk = x_public C onionSk,
      snd_senderFingerprint = fp, snd_packetType = ty, snd_payload = payload\<rparr>"
  obtain b j shared inner where enc':
    "b = bucketForSize (105 + length (snd_payload ?a))" "b \<noteq> 0" "j < 8"
    "sharedSecret C (rng j) (snd_recipientOnionPk ?a) = Some shared"
    "buildInnerPlaintext b (snd_packetType ?a) (snd_senderFingerprint ?a) (snd_payload ?a) = Inr inner"
    "length nonce = 12" "length (x_public C (rng j)) = 32"
    "sealed_packet C b \<lparr>hdr_version = 1, hdr_bucket = b,
       hdr_recipientPrefix = subarray (fingerprint C (snd_recipientIdPk ?a)) 0 8,
       hdr_ephPk = x_public C (rng j), hdr_nonce = nonce\<rparr> shared inner raw"
    by (rule encodePacket_sealed [OF assms(1,2) enc])
  let ?h = "\<lparr>hdr_version = 1, hdr_bucket = b, hdr_recipientPrefix = subarray (fingerprint C idPk) 0 8,
       hdr_ephPk = x_public C (rng j), hdr_nonce = nonce\<rparr>"
  have b: "b = bucketForSize (105 + length payload)"
    and sh: "sharedSecret C (rng j) (x_public C onionSk) = Some shared"
    and i: "buildInnerPlaintext b ty fp payload = Inr inner"
    and s: "sealed_packet C b ?h shared inner raw"
    using enc' by simp_all
  note n = enc'(6) and e = enc'(7)
  have bi: "bucketSize b \<noteq> 0" "length fp = 32" "length payload \<le> maxPayloadForBucket b"
    using length_buildInner [OF i] by simp_all
  then have "b < 256" by (simp add: bucket_byte)
  then have hok: "header_ok ?h" using n e assms(2) by (simp add: header_ok_def)
  have sh': "sharedSecret C onionSk (x_public C (rng j)) = Some shared"
    using sh sharedSecret_sym [OF assms(3) assms(5) assms(4), of j] by simp
  have o: "open_packet C idPk onionSk raw = Some (b, ?h, inner)"
    using assms(1,2) bi(1) hok s sh' by (intro open_sealed [where shared = shared]) simp_all
  have pr: "parseInnerPlaintext inner b = Some \<lparr>inn_packetType = ty, inn_senderFingerprint = fp,
      inn_payload = payload, inn_realLength = length payload\<rparr>"
    using bi assms(6) i
    by (intro inner.roundtrip) (simp_all add: inner_ok_def buildInner_def)
  have "parseOuterHeader raw = Some ?h" using open_header [OF o] by simp
  then have "subarray raw 10 42 = x_public C (rng j)"
    by (auto simp: parseOuterHeader_def split: if_splits)
  then show ?thesis using o pr e n by (simp add: b [symmetric])
qed

section \<open>Properties\<close>

text \<open>C4. Whatever bytes arrive, the receive path returns: no input makes it throw. A dropped packet
  leaves the replay log as it was, and a failure is only reported for a dropped packet whose
  authenticated decryption succeeded.\<close>

theorem decodePacket_total:
  "case decodePacket C myIdPk myOnionSk log now raw of
     Inl e \<Rightarrow> False
   | Inr out \<Rightarrow>
       (case out_packet out of Some pkt \<Rightarrow> out_failure out = None | None \<Rightarrow> out_log out = log)
       \<and> (case out_failure out of None \<Rightarrow> True | Some f \<Rightarrow> \<exists>r. open_packet C myIdPk myOnionSk raw = Some r)"
  using decode_returns [of C myIdPk myOnionSk log now raw] by (auto split: option.splits)

lemma encoded_packet_decodes:
  assumes "aead_correct C" "hash_ok C" "dh_correct C"
    and "\<And>i. length (rng i) = 32" "length onionSk = 32" "ty < 256"
    and enc: "encodePacket C rng nonce \<lparr>snd_recipientIdPk = idPk, snd_recipientOnionPk = x_public C onionSk,
           snd_senderFingerprint = fp, snd_packetType = ty, snd_payload = payload\<rparr> = Inr raw"
    and "replay_inv l" "0 < rpl_minSeconds l" "replay_check l (subarray raw 10 42) nonce = Inr False"
  shows "\<exists>l'. decodePacket C idPk onionSk (Some l) now raw = Inr \<lparr>
      out_packet = Some \<lparr>pkt_bucket = bucketForSize (105 + length payload), pkt_packetType = ty,
        pkt_senderFingerprint = fp, pkt_payload = payload,
        pkt_ephPk = subarray raw 10 42, pkt_nonce = nonce\<rparr>,
      out_log = Some l', out_failure = None\<rparr>
    \<and> replay_check l' (subarray raw 10 42) nonce = Inr True"
proof -
  let ?b = "bucketForSize (105 + length payload)"
  obtain h inner where o: "open_packet C idPk onionSk raw = Some (?b, h, inner)"
    and h: "hdr_ephPk h = subarray raw 10 42" "hdr_nonce h = nonce" "length (hdr_ephPk h) = 32" "length nonce = 12"
    and pr: "parseInnerPlaintext inner ?b = Some \<lparr>inn_packetType = ty, inn_senderFingerprint = fp,
        inn_payload = payload, inn_realLength = length payload\<rparr>"
    using encode_opens [OF assms(1-7)] by blast
  have fresh: "map_get (rpl_seen l) (toHex (hdr_ephPk h @ hdr_nonce h)) = None"
    using assms(10) h by (simp add: replay_check_ok)
  obtain l' where l': "replay_insert l (hdr_ephPk h) (hdr_nonce h) now = Inr l'"
    and d: "decodePacket C idPk onionSk (Some l) now raw = Inr \<lparr>
      out_packet = Some \<lparr>pkt_bucket = ?b, pkt_packetType = ty, pkt_senderFingerprint = fp,
        pkt_payload = payload, pkt_ephPk = hdr_ephPk h, pkt_nonce = hdr_nonce h\<rparr>,
      out_log = Some l', out_failure = None\<rparr>"
    using decode_sealed [OF o pr fresh, of now] by auto
  have "replay_check l' (hdr_ephPk h) (hdr_nonce h) = Inr True"
    using replay_insert_found [OF l' assms(8,9)] h by (simp add: replay_check_ok)
  then show ?thesis using d h by simp
qed

text \<open>C1. Round trip: a packet encoded to a node is decoded by it to the type, the sender fingerprint and
  the payload that were sent, in the smallest bucket that holds them; the node then knows the
  packet and would not take it again.\<close>

theorem packet_roundtrip:
  assumes "aead_correct C" "hash_ok C" "dh_correct C"
    and "\<And>i. length (rng i) = 32" "length onionSk = 32" "ty < 256"
    and enc: "encodePacket C rng nonce \<lparr>snd_recipientIdPk = idPk, snd_recipientOnionPk = x_public C onionSk,
           snd_senderFingerprint = fp, snd_packetType = ty, snd_payload = payload\<rparr> = Inr raw"
    and "replay_inv l" "0 < rpl_minSeconds l" "replay_check l (subarray raw 10 42) nonce = Inr False"
  shows "\<exists>l'. decodePacket C idPk onionSk (Some l) now raw = Inr \<lparr>
      out_packet = Some \<lparr>pkt_bucket = bucketForSize (105 + length payload), pkt_packetType = ty,
        pkt_senderFingerprint = fp, pkt_payload = payload,
        pkt_ephPk = subarray raw 10 42, pkt_nonce = nonce\<rparr>,
      out_log = Some l', out_failure = None\<rparr>
    \<and> replay_check l' (subarray raw 10 42) nonce = Inr True"
  using assms by (rule encoded_packet_decodes)

text \<open>What \<open>encodePacket\<close> emits has one of the three bucket lengths, and the least that holds the
  payload, so the length on the wire tells an observer the bucket and no more.\<close>

theorem encodePacket_length:
  assumes "aead_correct C" "hash_ok C" "encodePacket C rng nonce a = Inr raw"
  shows "length raw \<in> {256, 1024, 4096} \<and> 105 + length (snd_payload a) \<le> length raw
    \<and> (\<forall>n\<in>{256, 1024, 4096}. 105 + length (snd_payload a) \<le> n \<longrightarrow> length raw \<le> n)"
proof -
  let ?n = "105 + length (snd_payload a)"
  obtain b h shared inner where b: "b = bucketForSize ?n" "b \<noteq> 0" and s: "sealed_packet C b h shared inner raw"
    using encodePacket_sealed [OF assms] by metis
  note spec = bucketForSize_spec [of ?n, folded b(1), OF b(2)]
  then have "bucketSize b \<noteq> 0" by auto
  then have "length raw = bucketSize b" using s by (simp add: length_sealed_packet)
  then show ?thesis using spec by simp
qed

text \<open>C3. No malleability: the decoded packet determines every byte that was on the wire. Two byte
  strings that a node decodes to the same packet are equal.\<close>

theorem decodePacket_inj:
  assumes "aead_correct C"
    and "decodePacket C idPk sk log1 now1 raw1 = Inr out1" "out_packet out1 = Some pkt"
    and "decodePacket C idPk sk log2 now2 raw2 = Inr out2" "out_packet out2 = Some pkt"
  shows "raw1 = raw2"
proof -
  have key: "\<exists>shared h plaintext. sharedSecret C sk (pkt_ephPk pkt) = Some shared
      \<and> h = \<lparr>hdr_version = 1, hdr_bucket = pkt_bucket pkt,
          hdr_recipientPrefix = subarray (fingerprint C idPk) 0 8,
          hdr_ephPk = pkt_ephPk pkt, hdr_nonce = pkt_nonce pkt\<rparr>
      \<and> buildInnerPlaintext (pkt_bucket pkt) (pkt_packetType pkt) (pkt_senderFingerprint pkt) (pkt_payload pkt)
          = Inr plaintext
      \<and> sealed_packet C (pkt_bucket pkt) h shared plaintext raw"
    if d: "decodePacket C idPk sk log now raw = Inr out" "out_packet out = Some pkt" for log now raw out
  proof -
    obtain b h plaintext where o: "open_packet C idPk sk raw = Some (b, h, plaintext)"
      and i: "parseInnerPlaintext plaintext b = Some \<lparr>inn_packetType = pkt_packetType pkt,
       inn_senderFingerprint = pkt_senderFingerprint pkt, inn_payload = pkt_payload pkt,
       inn_realLength = length (pkt_payload pkt)\<rparr>"
      and p: "pkt_bucket pkt = b" "pkt_ephPk pkt = hdr_ephPk h" "pkt_nonce pkt = hdr_nonce h"
      using decode_accept [OF d] by metis
    obtain shared where "hdr_version h = 1" "hdr_bucket h = b"
      "hdr_recipientPrefix h = subarray (fingerprint C idPk) 0 8"
      "sharedSecret C sk (hdr_ephPk h) = Some shared" "sealed_packet C b h shared plaintext raw"
      using open_sound [OF assms(1) o] by metis
    then show ?thesis using build_parse_inner [OF i] p by (cases h) (auto simp: buildInner_def)
  qed
  from key [OF assms(2,3)] key [OF assms(4,5)] show ?thesis
    by (auto simp: sealed_packet_def)
qed

text \<open>A node that receives a sequence of byte strings, each at its time.\<close>

fun recv_run :: "crypto \<Rightarrow> bytes \<Rightarrow> bytes \<Rightarrow> replay_log option \<Rightarrow> (int \<times> bytes) list \<Rightarrow> replay_log option res" where
  "recv_run C idPk sk log [] = Inr log"
| "recv_run C idPk sk log ((now, raw) # rest) =
     (case decodePacket C idPk sk log now raw of
        Inl e \<Rightarrow> Inl e
      | Inr out \<Rightarrow> recv_run C idPk sk (out_log out) rest)"

lemma decode_log:
  assumes "decodePacket C idPk sk (Some l) now raw = Inr out" "replay_inv l"
    and "map_get (rpl_seen l) k = Some t0" "now < t0 + rpl_minSeconds l"
  shows "\<exists>l'. out_log out = Some l' \<and> replay_inv l' \<and> rpl_minSeconds l' = rpl_minSeconds l
    \<and> map_get (rpl_seen l') k = Some t0"
proof (cases "out_packet out")
  case None
  then have "out_log out = Some l"
    using decode_returns [of C idPk sk "Some l" now raw] assms(1) by auto
  then show ?thesis using assms by simp
next
  case (Some pkt)
  obtain b h q l' where "open_packet C idPk sk raw = Some (b, h, q)"
    and "pkt_ephPk pkt = hdr_ephPk h" "pkt_nonce pkt = hdr_nonce h"
    and fresh: "map_get (rpl_seen l) (toHex (hdr_ephPk h @ hdr_nonce h)) = None"
    and ins: "replay_insert l (hdr_ephPk h) (hdr_nonce h) now = Inr l'" and out: "out_log out = Some l'"
    by (rule decode_accept_log [OF assms(1) Some])
  have "k \<noteq> toHex (hdr_ephPk h @ hdr_nonce h)" using fresh assms(3) by auto
  then show ?thesis
    using out replay_insert_inv [OF ins assms(2)] replay_insert_config [OF ins] assms(4)
      replay_insert_kept [OF ins assms(2,3)] by simp
qed

lemma recv_run_log:
  "recv_run C idPk sk (Some l) xs = Inr log \<Longrightarrow> replay_inv l \<Longrightarrow> map_get (rpl_seen l) k = Some t0 \<Longrightarrow>
   \<forall>(t, r)\<in>set xs. t < t0 + rpl_minSeconds l \<Longrightarrow>
   \<exists>l'. log = Some l' \<and> map_get (rpl_seen l') k = Some t0"
proof (induction xs arbitrary: l)
  case Nil
  then show ?case by auto
next
  case (Cons x xs)
  obtain now raw out where x: "x = (now, raw)" and d: "decodePacket C idPk sk (Some l) now raw = Inr out"
    and r: "recv_run C idPk sk (out_log out) xs = Inr log"
    using Cons.prems(1) by (cases x) (auto split: sum.splits)
  obtain l' where "out_log out = Some l'" "replay_inv l'" "rpl_minSeconds l' = rpl_minSeconds l"
      "map_get (rpl_seen l') k = Some t0"
    using decode_log [OF d Cons.prems(2,3)] Cons.prems(4) x by auto
  then show ?case using Cons.IH [of l'] r Cons.prems(4) by simp
qed

text \<open>C2. Replay protection: once a packet is accepted, no packet with the same ephemeral key and nonce is
  accepted again while the window lasts, whatever is received in between and whatever the clock
  does inside the window.\<close>

theorem replay_rejected:
  assumes "replay_inv l" "0 < rpl_minSeconds l"
    and "decodePacket C idPk sk (Some l) t0 raw = Inr out" "out_packet out = Some pkt"
    and "recv_run C idPk sk (out_log out) xs = Inr log"
    and "\<forall>(t, r)\<in>set xs. t < t0 + rpl_minSeconds l"
    and "decodePacket C idPk sk log now raw' = Inr out'"
    and "subarray raw' 10 42 = pkt_ephPk pkt" "subarray raw' 42 54 = pkt_nonce pkt"
  shows "out_packet out' = None"
proof (rule ccontr)
  assume "out_packet out' \<noteq> None"
  then obtain pkt' where acc: "out_packet out' = Some pkt'" by blast
  obtain b h q l1 where "open_packet C idPk sk raw = Some (b, h, q)"
    and p: "pkt_ephPk pkt = hdr_ephPk h" "pkt_nonce pkt = hdr_nonce h"
    and "map_get (rpl_seen l) (toHex (hdr_ephPk h @ hdr_nonce h)) = None"
    and ins: "replay_insert l (hdr_ephPk h) (hdr_nonce h) t0 = Inr l1" and out: "out_log out = Some l1"
    by (rule decode_accept_log [OF assms(3,4)])
  let ?k = "toHex (pkt_ephPk pkt @ pkt_nonce pkt)"
  have "map_get (rpl_seen l1) ?k = Some t0"
    using replay_insert_found [OF ins assms(1,2)] p by simp
  then obtain l2 where log: "log = Some l2" and k: "map_get (rpl_seen l2) ?k = Some t0"
    using recv_run_log [of C idPk sk l1 xs log] replay_insert_inv [OF ins assms(1)]
      replay_insert_config [OF ins] assms(5,6) out by auto
  obtain b' h' q' l3 where o: "open_packet C idPk sk raw' = Some (b', h', q')"
    and "pkt_ephPk pkt' = hdr_ephPk h'" "pkt_nonce pkt' = hdr_nonce h'"
    and fresh: "map_get (rpl_seen l2) (toHex (hdr_ephPk h' @ hdr_nonce h')) = None"
    and "replay_insert l2 (hdr_ephPk h') (hdr_nonce h') now = Inr l3" "out_log out' = Some l3"
    by (rule decode_accept_log [OF assms(7) [unfolded log] acc])
  have "hdr_ephPk h' = subarray raw' 10 42" "hdr_nonce h' = subarray raw' 42 54"
    using open_header [OF o] by (auto simp: parseOuterHeader_def split: if_splits)
  then show False using fresh k assms(8,9) by simp
qed

section \<open>Witnesses\<close>

definition toy_args :: send_args where
  "toy_args = \<lparr>snd_recipientIdPk = zeros 32, snd_recipientOnionPk = x_public toy_crypto (zeros 32),
     snd_senderFingerprint = zeros 32, snd_packetType = 1, snd_payload = [1, 2, 3]\<rparr>"

definition toy_rng :: "nat \<Rightarrow> bytes" where
  "toy_rng i = 1 # zeros 31"

definition toy_log :: replay_log where
  "toy_log = createReplayLog 8192 300"

lemma toy_shared: "sharedSecret toy_crypto (toy_rng i) (x_public toy_crypto (zeros 32)) = Some (toy_rng i)"
proof -
  have "toy_rng i ! 0 \<noteq> zeros 32 ! 0" by (simp add: toy_rng_def)
  then have "toy_rng i \<noteq> zeros 32" by metis
  then show ?thesis by (intro toy_sharedSecret) (simp_all add: toy_rng_def)
qed

lemma toy_packet: "\<exists>raw. encodePacket toy_crypto toy_rng (zeros 12) toy_args = Inr raw"
  using toy_shared [of 0]
  by (intro encodePacket_succeeds [OF toy_hash_ok])
    (simp_all add: toy_args_def toy_rng_def toy_crypto_def)

lemma toy_log_facts: "replay_inv toy_log" "0 < rpl_minSeconds toy_log" "rpl_seen toy_log = []"
  by (simp_all add: toy_log_def createReplayLog_def replay_inv_def)

lemma toy_fresh:
  "54 \<le> length raw \<Longrightarrow> replay_check toy_log (subarray raw 10 42) (zeros 12) = Inr False"
  by (simp add: replay_check_ok toy_log_facts)

theorem encodePacket_length_witness:
  "\<exists>raw. encodePacket toy_crypto toy_rng (zeros 12) toy_args = Inr raw \<and> length raw = 256"
proof -
  obtain raw where raw: "encodePacket toy_crypto toy_rng (zeros 12) toy_args = Inr raw"
    using toy_packet by blast
  then show ?thesis
    using encodePacket_length [OF toy_aead_correct toy_hash_ok raw] by (auto simp: toy_args_def)
qed

theorem packet_roundtrip_witness:
  "\<exists>raw l'. encodePacket toy_crypto toy_rng (zeros 12) toy_args = Inr raw
     \<and> decodePacket toy_crypto (zeros 32) (zeros 32) (Some toy_log) 7 raw = Inr \<lparr>
      out_packet = Some \<lparr>pkt_bucket = 1, pkt_packetType = 1,
        pkt_senderFingerprint = zeros 32, pkt_payload = [1, 2, 3],
        pkt_ephPk = subarray raw 10 42, pkt_nonce = zeros 12\<rparr>,
      out_log = Some l', out_failure = None\<rparr>"
proof -
  obtain raw where raw: "encodePacket toy_crypto toy_rng (zeros 12) toy_args = Inr raw"
    using toy_packet by blast
  then have "54 \<le> length raw"
    using encodePacket_sealed [OF toy_aead_correct toy_hash_ok raw] length_outer_header
    by (fastforce simp: sealed_packet_def)
  then show ?thesis
    using packet_roundtrip [OF toy_aead_correct toy_hash_ok toy_dh_correct _ _ _ raw [unfolded toy_args_def]
        toy_log_facts(1,2) toy_fresh] raw
    by (auto simp: toy_rng_def bucketForSize_def)
qed

text \<open>A packet that the toy node accepts.\<close>

lemma toy_accepted:
  "\<exists>raw out pkt l'. decodePacket toy_crypto (zeros 32) (zeros 32) (Some toy_log) 7 raw = Inr out
     \<and> out_packet out = Some pkt \<and> out_log out = Some l'"
proof -
  obtain raw where raw: "encodePacket toy_crypto toy_rng (zeros 12) toy_args = Inr raw"
    using toy_packet by blast
  obtain b h i p where o: "open_packet toy_crypto (zeros 32) (zeros 32) raw = Some (b, h, p)"
    and i: "parseInnerPlaintext p b = Some i"
    using encode_opens [OF toy_aead_correct toy_hash_ok toy_dh_correct _ _ _ raw [unfolded toy_args_def]]
    by (auto simp: toy_rng_def)
  from decode_sealed [OF o i, of toy_log 7] toy_log_facts(3) show ?thesis
    by (simp add: map_get_def) (metis decode_outcome.select_convs(1,2))
qed

theorem decodePacket_inj_witness:
  "\<exists>raw pkt. {r. \<exists>out. decodePacket toy_crypto (zeros 32) (zeros 32) (Some toy_log) 7 r = Inr out
     \<and> out_packet out = Some pkt} = {raw}"
proof -
  obtain raw out pkt where "decodePacket toy_crypto (zeros 32) (zeros 32) (Some toy_log) 7 raw = Inr out"
    "out_packet out = Some pkt"
    using toy_accepted by blast
  then show ?thesis
    using decodePacket_inj [OF toy_aead_correct, of "zeros 32" "zeros 32" "Some toy_log" 7 raw out pkt]
    by (intro exI [of _ raw] exI [of _ pkt]) blast
qed

theorem replay_rejected_witness:
  "\<exists>raw out pkt out'. decodePacket toy_crypto (zeros 32) (zeros 32) (Some toy_log) 7 raw = Inr out
     \<and> out_packet out = Some pkt
     \<and> decodePacket toy_crypto (zeros 32) (zeros 32) (out_log out) 300 raw = Inr out'
     \<and> out_packet out' = None"
proof -
  obtain raw out pkt l' where d: "decodePacket toy_crypto (zeros 32) (zeros 32) (Some toy_log) 7 raw = Inr out"
    "out_packet out = Some pkt" "out_log out = Some l'"
    using toy_accepted by blast
  obtain out' where d': "decodePacket toy_crypto (zeros 32) (zeros 32) (out_log out) 300 raw = Inr out'"
    using decode_returns by blast
  have "subarray raw 10 42 = pkt_ephPk pkt" "subarray raw 42 54 = pkt_nonce pkt"
    using decode_accept_bytes [OF d(1,2)] by simp_all
  then have "out_packet out' = None"
    by (intro replay_rejected [OF toy_log_facts(1,2) d(1,2) _ _ d', where xs = "[]"]) simp_all
  then show ?thesis using d d' by blast
qed

end
