(* ===== verification/Wire_Transport.thy ===== *)
theory Wire_Transport
  imports Codec
begin

text \<open>
  \<open>modules/wire/transport.mjs\<close>: transport records and length-prefixed lists of them, shared by
  ANNOUNCE_PEER, FORWARD and the seed list. Records are a \<open>record_codec\<close>; the lemmas give the
  layout of a serialised list, its round trip inside any buffer, and that a parsed list is
  canonical: re-serialising it gives back the bytes that were read.
\<close>

definition TRANSPORT_WEBSOCKET_IPV4 :: nat where [simp]: "TRANSPORT_WEBSOCKET_IPV4 = 0x01"
definition TRANSPORT_WEBSOCKET_IPV6 :: nat where [simp]: "TRANSPORT_WEBSOCKET_IPV6 = 0x02"
definition LEN_TRANSPORT_HEADER :: nat where [simp]: "LEN_TRANSPORT_HEADER = 2"
definition MAX_TRANSPORT_COUNT :: nat where [simp]: "MAX_TRANSPORT_COUNT = 255"

record transport =
  tr_type :: nat
  tr_address :: bytes

definition KNOWN_LENGTHS :: "nat \<Rightarrow> nat option" where
  "KNOWN_LENGTHS = [TRANSPORT_WEBSOCKET_IPV4 \<mapsto> 6, TRANSPORT_WEBSOCKET_IPV6 \<mapsto> 18]"

definition wrong_known_length :: "nat \<Rightarrow> nat \<Rightarrow> bool" where
  "wrong_known_length ty len =
     (case KNOWN_LENGTHS ty of None \<Rightarrow> False | Some expected \<Rightarrow> len \<noteq> expected)"

section \<open>serializeTransports\<close>

text \<open>The first loop checks every record and sums the sizes; the second writes.\<close>

fun transports_total :: "transport list \<Rightarrow> nat \<Rightarrow> nat res" where
  "transports_total [] n = Inr n"
| "transports_total (t # ts) n =
     (if length (tr_address t) > 0xFF then Inl (Error ''transport address exceeds 255 bytes'')
      else if wrong_known_length (tr_type t) (length (tr_address t))
        then Inl (Error ''transport type requires a fixed-length address'')
      else transports_total ts (n + LEN_TRANSPORT_HEADER + length (tr_address t)))"

fun write_transports :: "transport list \<Rightarrow> bytes \<Rightarrow> nat \<Rightarrow> bytes" where
  "write_transports [] buf off = buf"
| "write_transports (t # ts) buf off =
     (let buf = buf[off := u8 (tr_type t)];
          buf = buf[off + 1 := u8 (length (tr_address t))];
          buf = set_at buf (off + 2) (tr_address t)
      in write_transports ts buf (off + LEN_TRANSPORT_HEADER + length (tr_address t)))"

definition serializeTransports :: "transport list \<Rightarrow> bytes res" where
  "serializeTransports transports =
     (if length transports > MAX_TRANSPORT_COUNT
        then Inl (Error ''transport list exceeds count limit'')
      else case transports_total transports 1 of
             Inl e \<Rightarrow> Inl e
           | Inr n \<Rightarrow>
               Inr (write_transports transports ((zeros n)[0 := u8 (length transports)]) 1))"

section \<open>parseTransports\<close>

text \<open>The body of the loop: one record at the cursor.\<close>

definition parse_transport :: "bytes \<Rightarrow> nat \<Rightarrow> (transport \<times> nat) option" where
  "parse_transport buf cursor =
     (if length buf < cursor + LEN_TRANSPORT_HEADER then None
      else
        let ty = unat (buf ! cursor);
            len = unat (buf ! (cursor + 1));
            addrStart = cursor + LEN_TRANSPORT_HEADER;
            addrEnd = addrStart + len
        in if length buf < addrEnd then None
           else if wrong_known_length ty len then None
           else Some (\<lparr>tr_type = ty, tr_address = subarray buf addrStart addrEnd\<rparr>, addrEnd))"

definition parseTransports :: "bytes \<Rightarrow> nat \<Rightarrow> (transport list \<times> nat) option" where
  "parseTransports buf offset =
     (if length buf < offset + 1 then None
      else
        let count = unat (buf ! offset)
        in case read_n (parse_transport buf) count (offset + 1) of
             None \<Rightarrow> None
           | Some (transports, cursor) \<Rightarrow> Some (transports, cursor - offset))"

section \<open>Correctness\<close>

definition transport_ok :: "transport \<Rightarrow> bool" where
  "transport_ok t \<longleftrightarrow> tr_type t < 256 \<and> length (tr_address t) \<le> 255
     \<and> \<not> wrong_known_length (tr_type t) (length (tr_address t))"

definition enc_transport :: "transport \<Rightarrow> bytes" where
  "enc_transport t = u8 (tr_type t) # u8 (length (tr_address t)) # tr_address t"

definition transports_ok :: "transport list \<Rightarrow> bool" where
  "transports_ok ts \<longleftrightarrow> length ts \<le> 255 \<and> list_all transport_ok ts"

definition enc_transports :: "transport list \<Rightarrow> bytes" where
  "enc_transports ts = u8 (length ts) # concat (map enc_transport ts)"

lemma length_enc_transport [simp]: "length (enc_transport t) = 2 + length (tr_address t)"
  by (simp add: enc_transport_def)

interpretation tr: record_codec enc_transport parse_transport transport_ok
proof
  fix t and pre post :: bytes
  assume ok: "transport_ok t"
  show "parse_transport (pre @ enc_transport t @ post) (length pre)
      = Some (t, length pre + length (enc_transport t))"
    using ok
    by (cases t)
      (simp add: parse_transport_def enc_transport_def transport_ok_def Let_def unat_u8_id layout)
next
  fix buf off t off'
  assume p: "parse_transport buf off = Some (t, off')"
  let ?ty = "unat (buf ! off)" and ?len = "unat (buf ! Suc off)"
  have len: "off + 2 + ?len \<le> length buf" and off': "off' = off + 2 + ?len"
    and t: "t = \<lparr>tr_type = ?ty, tr_address = subarray buf (off + 2) (off + 2 + ?len)\<rparr>"
    and known: "\<not> wrong_known_length ?ty ?len"
    using p by (auto simp: parse_transport_def Let_def not_less split: if_splits)
  have "subarray buf off off' = subarray buf off (off + 1) @ subarray buf (off + 1) (off + 2)
      @ subarray buf (off + 2) off'"
    by (simp add: off' subarray_join)
  moreover have "subarray buf off (off + 1) = [buf ! off]"
      "subarray buf (off + 1) (off + 2) = [buf ! (off + 1)]"
    using len by (intro subarray_byte; linarith)+
  ultimately have "subarray buf off off' = enc_transport t"
    using len by (simp add: enc_transport_def t off')
  then show "transport_ok t \<and> off \<le> off' \<and> off' \<le> length buf \<and> subarray buf off off' = enc_transport t"
    using len known unat_byte_bound [of "buf ! off"] unat_byte_bound [of "buf ! Suc off"]
    by (simp add: t off' transport_ok_def)
qed

lemma transports_total_ok:
  "list_all transport_ok ts \<Longrightarrow>
   transports_total ts n = Inr (n + length (concat (map enc_transport ts)))"
  by (induction ts arbitrary: n) (simp_all add: transport_ok_def)

lemma transports_total_Inr:
  "transports_total ts n = Inr m \<Longrightarrow> list_all (\<lambda>t. tr_type t < 256) ts \<Longrightarrow> list_all transport_ok ts"
  by (induction ts arbitrary: n) (auto simp: transport_ok_def split: if_splits)

lemma write_transports_fill:
  "write_transports ts (pre @ zeros (length (concat (map enc_transport ts)))) (length pre)
    = pre @ concat (map enc_transport ts)"
proof (induction ts arbitrary: pre)
  case Nil
  then show ?case by simp
next
  case (Cons t ts)
  let ?rest = "length (concat (map enc_transport ts))"
  have "write_transports (t # ts) (pre @ zeros (length (concat (map enc_transport (t # ts)))))
      (length pre)
      = write_transports ts ((pre @ enc_transport t) @ zeros ?rest) (length (pre @ enc_transport t))"
    by (simp add: Let_def enc_transport_def layout add.commute add.left_commute)
  also have "\<dots> = (pre @ enc_transport t) @ concat (map enc_transport ts)"
    by (rule Cons.IH)
  finally show ?case by simp
qed

lemma serializeTransports_layout:
  assumes "transports_ok ts"
  shows "serializeTransports ts = Inr (enc_transports ts)"
  using assms write_transports_fill [of ts "[u8 (length ts)]"]
  by (simp add: serializeTransports_def transports_ok_def enc_transports_def transports_total_ok layout)

text \<open>A type above 255 would be stored modulo 256; with byte-sized types the serialiser accepts
  exactly the well-formed lists.\<close>

lemma serializeTransports_iff:
  assumes "list_all (\<lambda>t. tr_type t < 256) ts"
  shows "serializeTransports ts = Inr bs \<longleftrightarrow> transports_ok ts \<and> bs = enc_transports ts"
proof
  assume s: "serializeTransports ts = Inr bs"
  then have "length ts \<le> 255" and "\<exists>m. transports_total ts 1 = Inr m"
    by (auto simp: serializeTransports_def split: if_splits sum.splits)
  then have ok: "transports_ok ts"
    using transports_total_Inr assms by (auto simp: transports_ok_def)
  then show "transports_ok ts \<and> bs = enc_transports ts"
    using s serializeTransports_layout [OF ok] by simp
qed (simp add: serializeTransports_layout)

lemma parse_enc_transports:
  assumes "transports_ok ts"
  shows "parseTransports (pre @ enc_transports ts @ post) (length pre)
    = Some (ts, length (enc_transports ts))"
proof -
  have "read_n (parse_transport ((pre @ [u8 (length ts)]) @ concat (map enc_transport ts) @ post))
      (length ts) (length (pre @ [u8 (length ts)]))
      = Some (ts, length (pre @ [u8 (length ts)]) + length (concat (map enc_transport ts)))"
    using assms by (intro tr.read_n_enc) (simp add: transports_ok_def)
  then show ?thesis
    using assms
    by (simp add: parseTransports_def enc_transports_def transports_ok_def unat_u8_id layout)
qed

lemma parseTransports_sound:
  assumes "parseTransports buf off = Some (ts, n)"
  shows "transports_ok ts \<and> off + n \<le> length buf \<and> subarray buf off (off + n) = enc_transports ts
    \<and> 0 < n"
proof -
  let ?count = "unat (buf ! off)"
  obtain cursor where off: "off + 1 \<le> length buf"
    and r: "read_n (parse_transport buf) ?count (off + 1) = Some (ts, cursor)"
    and n: "n = cursor - off"
    using assms by (auto simp: parseTransports_def not_less split: if_splits option.splits)
  have s: "list_all transport_ok ts \<and> off + 1 \<le> cursor \<and> cursor \<le> length buf
      \<and> subarray buf (off + 1) cursor = concat (map enc_transport ts)"
    using tr.read_n_sound [OF r off] .
  have "length ts = ?count" using r by (rule read_n_length)
  moreover have "subarray buf off cursor = buf ! off # subarray buf (off + 1) cursor"
    using s off subarray_join [of off "off + 1" cursor buf] subarray_byte [of off buf "off + 1"] by simp
  ultimately have "subarray buf off cursor = enc_transports ts"
    using s by (simp add: enc_transports_def)
  then show ?thesis
    using s n unat_byte_bound [of "buf ! off"] \<open>length ts = ?count\<close>
    by (simp add: transports_ok_def)
qed

text \<open>A list that is the last field of a payload, as ANNOUNCE_PEER requires.\<close>

lemma parseTransports_last:
  assumes "off \<le> length buf"
  shows "parseTransports buf off = Some (ts, n) \<and> off + n = length buf
    \<longleftrightarrow> transports_ok ts \<and> drop off buf = enc_transports ts \<and> n = length (enc_transports ts)"
proof
  assume p: "parseTransports buf off = Some (ts, n) \<and> off + n = length buf"
  then have "transports_ok ts" and e: "subarray buf off (length buf) = enc_transports ts"
    using parseTransports_sound by fastforce+
  moreover have "length (subarray buf off (length buf)) = n" using p by auto
  ultimately show "transports_ok ts \<and> drop off buf = enc_transports ts \<and> n = length (enc_transports ts)"
    using e by (metis drop_subarray)
next
  assume r: "transports_ok ts \<and> drop off buf = enc_transports ts \<and> n = length (enc_transports ts)"
  then have "buf = take off buf @ enc_transports ts @ []" and "length (take off buf) = off"
    using assms by (metis append.right_neutral append_take_drop_id) (simp add: assms)
  then have "parseTransports buf off = Some (ts, n)"
    using parse_enc_transports [of ts "take off buf" "[]"] r by metis
  moreover have "off + n = length buf"
    using r assms by (metis diff_add_inverse length_drop le_add_diff_inverse)
  ultimately show "parseTransports buf off = Some (ts, n) \<and> off + n = length buf" by simp
qed

end
