(* ===== verification/Wire_Payloads.thy ===== *)
theory Wire_Payloads
  imports Wire_Format Wire_Transport Crypto
begin

text \<open>
  The payloads of the four packet types: \<open>modules/wire/data.mjs\<close>, \<open>announce.mjs\<close>,
  \<open>forward.mjs\<close> and \<open>key_certificate.mjs\<close>. Each is a \<open>frame_codec\<close> on its well-formed values:
  the parser accepts exactly what the builder writes. The two verifiers compare a
  fingerprint in constant time and then check the key certificate.
\<close>

section \<open>data.mjs\<close>

record data_payload =
  dat_conversationTag :: bytes
  dat_sequenceNumber :: nat
  dat_payload :: bytes

definition LEN_CONVERSATION_TAG :: nat where [simp]: "LEN_CONVERSATION_TAG = 16"
definition LEN_DATA_PREFIX :: nat where [simp]: "LEN_DATA_PREFIX = LEN_CONVERSATION_TAG + 8"

definition buildDataPayload :: "data_payload \<Rightarrow> bytes res" where
  "buildDataPayload d =
     (if length (dat_conversationTag d) \<noteq> LEN_CONVERSATION_TAG
        then Inl (Error ''conversationTag must be 16 bytes'')
      else
        let buf = zeros (LEN_DATA_PREFIX + length (dat_payload d));
            buf = set_at buf 0 (dat_conversationTag d);
            buf = set_at buf 16 (be_bytes 8 (dat_sequenceNumber d))
        in Inr (set_at buf 24 (dat_payload d)))"

definition parseDataPayload :: "bytes \<Rightarrow> data_payload option" where
  "parseDataPayload payload =
     (if length payload < LEN_DATA_PREFIX then None
      else Some \<lparr>
        dat_conversationTag = subarray payload 0 LEN_CONVERSATION_TAG,
        dat_sequenceNumber = be_val (subarray payload 16 (16 + 8)),
        dat_payload = subarray payload 24 (length payload)\<rparr>)"

definition data_ok :: "data_payload \<Rightarrow> bool" where
  "data_ok d \<longleftrightarrow> length (dat_conversationTag d) = 16 \<and> dat_sequenceNumber d < 2 ^ 64"

lemma buildData_layout:
  "length (dat_conversationTag d) = 16 \<Longrightarrow> buildDataPayload d
    = Inr (dat_conversationTag d @ be_bytes 8 (dat_sequenceNumber d) @ dat_payload d)"
  by (simp add: buildDataPayload_def Let_def layout)

lemma split3:
  "a \<le> b \<Longrightarrow> b \<le> length buf \<Longrightarrow> buf = subarray buf 0 a @ subarray buf a b @ subarray buf b (length buf)"
  by (simp add: subarray_join subarray_whole)

interpretation dat: frame_codec buildDataPayload parseDataPayload data_ok
proof
  fix d assume "data_ok d"
  then show "\<exists>bs. buildDataPayload d = Inr bs \<and> parseDataPayload bs = Some d"
    by (cases d) (auto simp: buildData_layout data_ok_def parseDataPayload_def layout be_val_be_bytes_id)
next
  fix bs d assume p: "parseDataPayload bs = Some d"
  then have len: "24 \<le> length bs" and d: "d = \<lparr>dat_conversationTag = subarray bs 0 16,
      dat_sequenceNumber = be_val (subarray bs 16 24), dat_payload = subarray bs 24 (length bs)\<rparr>"
    by (auto simp: parseDataPayload_def split: if_splits)
  have "be_val (subarray bs 16 24) < 2 ^ 64"
    using be_val_bound [of "subarray bs 16 24"] len by simp
  moreover have "be_bytes 8 (be_val (subarray bs 16 24)) = subarray bs 16 24"
    using len by (intro be_bytes_be_val_n) simp
  ultimately show "data_ok d \<and> buildDataPayload d = Inr bs"
    using len split3 [of 16 24 bs] by (simp add: d data_ok_def buildData_layout)
qed

section \<open>key\_certificate.mjs\<close>

record key_certificate =
  kc_idPk :: bytes
  kc_certBytes :: bytes

definition LEN_ID_PK :: nat where [simp]: "LEN_ID_PK = 32"
definition KEY_CERTIFICATE_LENGTH :: nat where [simp]: "KEY_CERTIFICATE_LENGTH = LEN_ID_PK + CERT_BYTES"

definition buildKeyCertificatePayload :: "key_certificate \<Rightarrow> bytes res" where
  "buildKeyCertificatePayload k =
     (if length (kc_idPk k) \<noteq> LEN_ID_PK then Inl (Error ''idPk must be 32 bytes'')
      else if length (kc_certBytes k) \<noteq> CERT_BYTES then Inl (Error ''certBytes must be 105 bytes'')
      else
        let buf = set_at (zeros KEY_CERTIFICATE_LENGTH) 0 (kc_idPk k)
        in Inr (set_at buf 32 (kc_certBytes k)))"

definition parseKeyCertificatePayload :: "bytes \<Rightarrow> key_certificate option" where
  "parseKeyCertificatePayload payload =
     (if length payload \<noteq> KEY_CERTIFICATE_LENGTH then None
      else Some \<lparr>kc_idPk = subarray payload 0 32,
                 kc_certBytes = subarray payload 32 KEY_CERTIFICATE_LENGTH\<rparr>)"

definition key_certificate_ok :: "key_certificate \<Rightarrow> bool" where
  "key_certificate_ok k \<longleftrightarrow> length (kc_idPk k) = 32 \<and> length (kc_certBytes k) = 105"

interpretation kc: frame_codec buildKeyCertificatePayload parseKeyCertificatePayload key_certificate_ok
proof
  fix k assume "key_certificate_ok k"
  then show "\<exists>bs. buildKeyCertificatePayload k = Inr bs \<and> parseKeyCertificatePayload bs = Some k"
    by (cases k) (auto simp: key_certificate_ok_def buildKeyCertificatePayload_def
        parseKeyCertificatePayload_def layout)
next
  fix bs k assume "parseKeyCertificatePayload bs = Some k"
  then show "key_certificate_ok k \<and> buildKeyCertificatePayload k = Inr bs"
    by (auto simp: key_certificate_ok_def buildKeyCertificatePayload_def
        parseKeyCertificatePayload_def layout subarray_join subarray_all split: if_splits)
qed

definition ct_equal :: "bytes \<Rightarrow> bytes \<Rightarrow> bool" where
  "ct_equal a b = (if length a \<noteq> length b then False else xor_diff a b 0 = 0)"

text \<open>The constant-time comparison is equality.\<close>

lemma ct_equal_iff [simp]: "ct_equal a b \<longleftrightarrow> a = b"
  by (auto simp: ct_equal_def xor_diff_zero)

definition verifyKeyCertificate :: "crypto \<Rightarrow> key_certificate \<Rightarrow> bytes \<Rightarrow> int \<Rightarrow> bool" where
  "verifyKeyCertificate C parsed senderFingerprint nowSeconds =
     (let computed = fingerprint C (kc_idPk parsed)
      in if \<not> ct_equal computed senderFingerprint then False
         else verifyCertificate C (kc_certBytes parsed) (kc_idPk parsed) nowSeconds \<noteq> None)"

lemma verifyKeyCertificate_iff:
  "verifyKeyCertificate C k fp now \<longleftrightarrow>
     fp = fingerprint C (kc_idPk k)
     \<and> (\<exists>f. verifyCertificate C (kc_certBytes k) (kc_idPk k) now = Some f)"
  by (auto simp: verifyKeyCertificate_def)

section \<open>announce.mjs\<close>

record announce_peer =
  ann_announcedFingerprint :: bytes
  ann_certBytes :: bytes
  ann_transports :: "transport list"

definition ANN_OFFSET_TRANSPORTS :: nat where [simp]: "ANN_OFFSET_TRANSPORTS = 32 + CERT_BYTES"
definition ANNOUNCE_PEER_MIN_LENGTH :: nat where [simp]: "ANNOUNCE_PEER_MIN_LENGTH = 32 + CERT_BYTES + 1"

definition buildAnnouncePeerPayload :: "announce_peer \<Rightarrow> bytes res" where
  "buildAnnouncePeerPayload a =
     (if length (ann_announcedFingerprint a) \<noteq> 32
        then Inl (Error ''announcedFingerprint must be 32 bytes'')
      else if length (ann_certBytes a) \<noteq> CERT_BYTES then Inl (Error ''certBytes must be 105 bytes'')
      else case serializeTransports (ann_transports a) of
             Inl e \<Rightarrow> Inl e
           | Inr transportBytes \<Rightarrow>
               let buf = zeros (ANN_OFFSET_TRANSPORTS + length transportBytes);
                   buf = set_at buf 0 (ann_announcedFingerprint a);
                   buf = set_at buf 32 (ann_certBytes a)
               in Inr (set_at buf ANN_OFFSET_TRANSPORTS transportBytes))"

definition parseAnnouncePeerPayload :: "bytes \<Rightarrow> announce_peer option" where
  "parseAnnouncePeerPayload payload =
     (if length payload < ANNOUNCE_PEER_MIN_LENGTH then None
      else case parseTransports payload ANN_OFFSET_TRANSPORTS of
             None \<Rightarrow> None
           | Some (transports, consumed) \<Rightarrow>
               if ANN_OFFSET_TRANSPORTS + consumed \<noteq> length payload then None
               else Some \<lparr>
                 ann_announcedFingerprint = subarray payload 0 32,
                 ann_certBytes = subarray payload 32 ANN_OFFSET_TRANSPORTS,
                 ann_transports = transports\<rparr>)"

definition verifyAnnouncePeer :: "crypto \<Rightarrow> announce_peer \<Rightarrow> bytes \<Rightarrow> int \<Rightarrow> bool" where
  "verifyAnnouncePeer C parsed announcedIdPk nowSeconds =
     (let computed = fingerprint C announcedIdPk
      in if \<not> ct_equal computed (ann_announcedFingerprint parsed) then False
         else verifyCertificate C (ann_certBytes parsed) announcedIdPk nowSeconds \<noteq> None)"

lemma verifyAnnouncePeer_iff:
  "verifyAnnouncePeer C a pk now \<longleftrightarrow>
     ann_announcedFingerprint a = fingerprint C pk
     \<and> (\<exists>f. verifyCertificate C (ann_certBytes a) pk now = Some f)"
  by (auto simp: verifyAnnouncePeer_def)

definition announce_ok :: "announce_peer \<Rightarrow> bool" where
  "announce_ok a \<longleftrightarrow> length (ann_announcedFingerprint a) = 32
     \<and> length (ann_certBytes a) = 105 \<and> transports_ok (ann_transports a)"

lemma buildAnnounce_layout:
  "announce_ok a \<Longrightarrow> buildAnnouncePeerPayload a
    = Inr (ann_announcedFingerprint a @ ann_certBytes a @ enc_transports (ann_transports a))"
  by (simp add: buildAnnouncePeerPayload_def announce_ok_def serializeTransports_layout Let_def layout)

interpretation ann: frame_codec buildAnnouncePeerPayload parseAnnouncePeerPayload announce_ok
proof
  fix a assume ok: "announce_ok a"
  then have t: "parseTransports ((ann_announcedFingerprint a @ ann_certBytes a)
      @ enc_transports (ann_transports a) @ []) (length (ann_announcedFingerprint a @ ann_certBytes a))
      = Some (ann_transports a, length (enc_transports (ann_transports a)))"
    by (intro parse_enc_transports) (simp add: announce_ok_def)
  have "0 < length (enc_transports (ann_transports a))" by (simp add: enc_transports_def)
  then show "\<exists>bs. buildAnnouncePeerPayload a = Inr bs \<and> parseAnnouncePeerPayload bs = Some a"
    using ok t
    by (cases a) (simp add: buildAnnounce_layout parseAnnouncePeerPayload_def announce_ok_def layout)
next
  fix bs a assume p: "parseAnnouncePeerPayload bs = Some a"
  then obtain n where len: "138 \<le> length bs" and t: "parseTransports bs 137 = Some (ann_transports a, n)"
      and n: "137 + n = length bs"
      and a: "ann_announcedFingerprint a = subarray bs 0 32" "ann_certBytes a = subarray bs 32 137"
    by (auto simp: parseAnnouncePeerPayload_def split: if_splits option.splits)
  have s: "transports_ok (ann_transports a) \<and> subarray bs 137 (length bs) = enc_transports (ann_transports a)"
    using parseTransports_sound [OF t] n by simp
  then have "announce_ok a" using len a by (simp add: announce_ok_def)
  then show "announce_ok a \<and> buildAnnouncePeerPayload a = Inr bs"
    using s len a split3 [of 32 137 bs] by (simp add: buildAnnounce_layout)
qed

section \<open>forward.mjs\<close>

record forward_payload =
  fwd_nextHopFingerprint :: bytes
  fwd_transports :: "transport list"
  fwd_innerPacket :: bytes

definition FORWARD_MIN_LENGTH :: nat where [simp]: "FORWARD_MIN_LENGTH = 32 + 1 + 256"

definition buildForwardPayload :: "forward_payload \<Rightarrow> bytes res" where
  "buildForwardPayload f =
     (if length (fwd_nextHopFingerprint f) \<noteq> 32
        then Inl (Error ''nextHopFingerprint must be 32 bytes'')
      else
        let innerBucket = bucketForSize (length (fwd_innerPacket f))
        in if innerBucket = 0 \<or> length (fwd_innerPacket f) \<noteq> bucketSize innerBucket
             then Inl (Error ''innerPacket length must be exactly one of 256, 1024, or 4096'')
           else case serializeTransports (fwd_transports f) of
                  Inl e \<Rightarrow> Inl e
                | Inr transportBytes \<Rightarrow>
                    let buf = zeros (32 + length transportBytes + length (fwd_innerPacket f));
                        buf = set_at buf 0 (fwd_nextHopFingerprint f);
                        buf = set_at buf 32 transportBytes
                    in Inr (set_at buf (32 + length transportBytes) (fwd_innerPacket f)))"

text \<open>The prefix loop compares byte by byte and returns null at the first difference.\<close>

fun prefix_bytes_match :: "nat \<Rightarrow> nat \<Rightarrow> bytes \<Rightarrow> nat \<Rightarrow> bytes \<Rightarrow> bool" where
  "prefix_bytes_match 0 i a off b = True"
| "prefix_bytes_match (Suc n) i a off b =
     (if a ! (off + i) \<noteq> b ! i then False else prefix_bytes_match n (i + 1) a off b)"

lemma prefix_bytes_match_iff:
  "prefix_bytes_match n i a off b \<longleftrightarrow> (\<forall>j<n. a ! (off + i + j) = b ! (i + j))"
proof (induction n arbitrary: i)
  case 0
  then show ?case by simp
next
  case (Suc n)
  then show ?case
    by (simp add: All_less_Suc2)
qed

lemma prefix_bytes_match_subarray:
  assumes "off + n \<le> length a" "n \<le> length b"
  shows "prefix_bytes_match n 0 a off b \<longleftrightarrow> subarray a off (off + n) = subarray b 0 n"
proof -
  have "subarray a off (off + n) = subarray b 0 n \<longleftrightarrow>
      (\<forall>j<n. subarray a off (off + n) ! j = subarray b 0 n ! j)"
    using assms by (subst list_eq_iff_nth_eq) auto
  then show ?thesis
    using assms by (simp add: prefix_bytes_match_iff nth_subarray)
qed

definition parseForwardPayload :: "bytes \<Rightarrow> forward_payload option" where
  "parseForwardPayload payload =
     (if length payload < FORWARD_MIN_LENGTH then None
      else
        let nextHopFingerprint = subarray payload 0 32
        in case parseTransports payload 32 of
             None \<Rightarrow> None
           | Some (transports, consumed) \<Rightarrow>
               let innerStart = 32 + consumed;
                   innerLength = length payload - innerStart;
                   innerBucket = bucketForSize innerLength
               in if innerBucket = 0 \<or> innerLength \<noteq> bucketSize innerBucket then None
                  else
                    let innerPacket = subarray payload innerStart (innerStart + innerLength)
                    in if \<not> prefix_bytes_match LEN_RECIPIENT_PREFIX 0 innerPacket
                            OFFSET_RECIPIENT_PREFIX nextHopFingerprint then None
                       else Some \<lparr>fwd_nextHopFingerprint = nextHopFingerprint,
                                  fwd_transports = transports,
                                  fwd_innerPacket = innerPacket\<rparr>)"

definition is_bucket_size :: "nat \<Rightarrow> bool" where
  "is_bucket_size n \<longleftrightarrow> bucketForSize n \<noteq> 0 \<and> n = bucketSize (bucketForSize n)"

lemma is_bucket_size_iff: "is_bucket_size n \<longleftrightarrow> n \<in> {256, 1024, 4096}"
  by (auto simp: is_bucket_size_def bucketForSize_def bucketSize_def)

definition forward_ok :: "forward_payload \<Rightarrow> bool" where
  "forward_ok f \<longleftrightarrow> length (fwd_nextHopFingerprint f) = 32 \<and> transports_ok (fwd_transports f)
     \<and> is_bucket_size (length (fwd_innerPacket f))
     \<and> subarray (fwd_innerPacket f) 2 10 = subarray (fwd_nextHopFingerprint f) 0 8"

lemma buildForward_layout:
  "length (fwd_nextHopFingerprint f) = 32 \<Longrightarrow> transports_ok (fwd_transports f)
   \<Longrightarrow> is_bucket_size (length (fwd_innerPacket f)) \<Longrightarrow> buildForwardPayload f
    = Inr (fwd_nextHopFingerprint f @ enc_transports (fwd_transports f) @ fwd_innerPacket f)"
  by (auto simp: buildForwardPayload_def serializeTransports_layout is_bucket_size_def Let_def layout)

lemma prefix_match_inner:
  "256 \<le> length p \<Longrightarrow> length fp = 32 \<Longrightarrow>
   prefix_bytes_match 8 0 p 2 fp \<longleftrightarrow> subarray p 2 10 = subarray fp 0 8"
  using prefix_bytes_match_subarray [of 2 8 p fp] by simp

interpretation fwd: frame_codec buildForwardPayload parseForwardPayload forward_ok
proof
  fix f assume ok: "forward_ok f"
  let ?t = "enc_transports (fwd_transports f)"
  have len: "length (fwd_innerPacket f) \<ge> 256"
    using ok by (auto simp: forward_ok_def is_bucket_size_iff)
  have b: "bucketForSize (length (fwd_innerPacket f)) \<noteq> 0"
      "length (fwd_innerPacket f) = bucketSize (bucketForSize (length (fwd_innerPacket f)))"
    using ok by (simp_all add: forward_ok_def is_bucket_size_def)
  have t: "parseTransports (fwd_nextHopFingerprint f @ ?t @ fwd_innerPacket f)
      (length (fwd_nextHopFingerprint f)) = Some (fwd_transports f, length ?t)"
    using ok by (intro parse_enc_transports) (simp add: forward_ok_def)
  have m: "prefix_bytes_match 8 0 (fwd_innerPacket f) 2 (fwd_nextHopFingerprint f)"
    using ok len by (simp add: forward_ok_def prefix_match_inner)
  obtain k where "length ?t = Suc k" by (simp add: enc_transports_def)
  then show "\<exists>bs. buildForwardPayload f = Inr bs \<and> parseForwardPayload bs = Some f"
    using ok t m len b
    by (cases f) (auto simp: buildForward_layout parseForwardPayload_def forward_ok_def Let_def layout)
next
  fix bs f assume p: "parseForwardPayload bs = Some f"
  then obtain n where len: "289 \<le> length bs" and t: "parseTransports bs 32 = Some (fwd_transports f, n)"
      and b: "is_bucket_size (length bs - (32 + n))"
      and fp: "fwd_nextHopFingerprint f = subarray bs 0 32"
      and inner: "fwd_innerPacket f = subarray bs (32 + n) (32 + n + (length bs - (32 + n)))"
      and m: "prefix_bytes_match 8 0 (fwd_innerPacket f) 2 (fwd_nextHopFingerprint f)"
    by (auto simp: parseForwardPayload_def Let_def is_bucket_size_def split: if_splits option.splits)
  have s: "transports_ok (fwd_transports f)" "32 + n \<le> length bs"
      "subarray bs 32 (32 + n) = enc_transports (fwd_transports f)"
    using parseTransports_sound [OF t] by simp_all
  have inner': "fwd_innerPacket f = subarray bs (32 + n) (length bs)" using inner s(2) by simp
  have li: "length (fwd_innerPacket f) = length bs - (32 + n)" by (simp add: inner')
  have l256: "256 \<le> length (fwd_innerPacket f)" and l32: "length (fwd_nextHopFingerprint f) = 32"
    using b li fp len by (auto simp: is_bucket_size_iff)
  have ok: "forward_ok f"
    using s b m li l32 prefix_match_inner [OF l256 l32] by (simp add: forward_ok_def)
  then show "forward_ok f \<and> buildForwardPayload f = Inr bs"
    using s split3 [of 32 "32 + n" bs] fp inner'
    by (simp add: forward_ok_def buildForward_layout)
qed

section \<open>Properties\<close>

text \<open>The FORWARD payload is canonical: the parser accepts a byte string exactly when it is what the
  builder writes for a well-formed payload (an inner packet of a bucket size whose routing prefix
  is the prefix of the next hop), and every well-formed payload is written and read back.\<close>

theorem forward_codec:
  "(parseForwardPayload bs = Some f \<longleftrightarrow> forward_ok f \<and> buildForwardPayload f = Inr bs)
   \<and> (forward_ok f \<longleftrightarrow> (\<exists>bs. buildForwardPayload f = Inr bs \<and> parseForwardPayload bs = Some f))"
  using fwd.parse_iff fwd.build_ok by blast

text \<open>The ANNOUNCE_PEER payload is canonical: what is parsed is exactly what the builder writes for
  a well-formed announcement, and every well-formed announcement is read back.\<close>

theorem announce_codec:
  "(parseAnnouncePeerPayload bs = Some a \<longleftrightarrow> announce_ok a \<and> buildAnnouncePeerPayload a = Inr bs)
   \<and> (announce_ok a \<longleftrightarrow> (\<exists>bs. buildAnnouncePeerPayload a = Inr bs \<and> parseAnnouncePeerPayload bs = Some a))"
  using ann.parse_iff ann.build_ok by blast

end
