(* ===== verification/Wire_Rate_Limit.thy ===== *)
theory Wire_Rate_Limit
  imports JsMap
begin

text \<open>
  \<open>modules/wire/forward_rate_limit.mjs\<close>: three sliding windows over FORWARD requests, per
  source key, per destination and global. A bucket is a list of timestamps; a query first
  drops the expired ones. The theory states the guarantee abstractly (\<open>window_inv\<close>: a bucket is
  what is left of the accepted history, and no window of the history holds more than the
  limit), shows that dropping and pushing keep it, and derives the limit for every run.
\<close>

section \<open>The limiter\<close>

record limiter =
  lim_sourceLog :: "(string, int list) jsmap"
  lim_destLog :: "(string, int list) jsmap"
  lim_globalLog :: "int list"
  lim_perSource :: nat
  lim_perDestination :: nat
  lim_global :: nat
  lim_window :: int

definition PER_SOURCE_LIMIT :: nat where [simp]: "PER_SOURCE_LIMIT = 32"
definition PER_DESTINATION_LIMIT :: nat where [simp]: "PER_DESTINATION_LIMIT = 64"
definition GLOBAL_LIMIT :: nat where [simp]: "GLOBAL_LIMIT = 4096"
definition WINDOW_SECONDS :: int where [simp]: "WINDOW_SECONDS = 60"

definition createForwardRateLimiter :: "nat \<Rightarrow> nat \<Rightarrow> nat \<Rightarrow> int \<Rightarrow> limiter" where
  "createForwardRateLimiter perSource perDestination glob window =
     \<lparr>lim_sourceLog = [], lim_destLog = [], lim_globalLog = [], lim_perSource = perSource,
      lim_perDestination = perDestination, lim_global = glob, lim_window = window\<rparr>"

text \<open>\<open>evict\<close>: drop from the front while the head is at or below the cutoff.\<close>

fun evict :: "int list \<Rightarrow> int \<Rightarrow> int list" where
  "evict [] cutoff = []"
| "evict (t # ts) cutoff = (if t \<le> cutoff then evict ts cutoff else t # ts)"

text \<open>\<open>cleanupBucket\<close> returns the bucket and the log with the bucket evicted; an emptied bucket
  leaves the log.\<close>

definition cleanupBucket ::
  "(string, int list) jsmap \<Rightarrow> string \<Rightarrow> int \<Rightarrow> int list \<times> (string, int list) jsmap" where
  "cleanupBucket log key cutoff =
     (case map_get log key of
        None \<Rightarrow> ([], log)
      | Some ts \<Rightarrow>
          let ts = evict ts cutoff
          in if ts = [] then ([], map_delete key log) else (ts, map_set key ts log))"

definition checkAndCount :: "limiter \<Rightarrow> int \<Rightarrow> bytes \<Rightarrow> bytes \<Rightarrow> bool \<times> limiter" where
  "checkAndCount l now sourceEphPk destFingerprint =
     (let ts = now;
          cutoff = ts - lim_window l;
          sk = toHex sourceEphPk;
          dk = toHex destFingerprint;
          (sourceTs, sourceLog) = cleanupBucket (lim_sourceLog l) sk cutoff;
          (destTs, destLog) = cleanupBucket (lim_destLog l) dk cutoff;
          globalLog = evict (lim_globalLog l) cutoff;
          l = l\<lparr>lim_sourceLog := sourceLog, lim_destLog := destLog, lim_globalLog := globalLog\<rparr>
      in if length sourceTs \<ge> lim_perSource l then (False, l)
         else if length destTs \<ge> lim_perDestination l then (False, l)
         else if length globalLog \<ge> lim_global l then (False, l)
         else (True, l\<lparr>lim_sourceLog := map_set sk (sourceTs @ [ts]) sourceLog,
                       lim_destLog := map_set dk (destTs @ [ts]) destLog,
                       lim_globalLog := globalLog @ [ts]\<rparr>))"

definition limiter_stats :: "limiter \<Rightarrow> nat \<times> nat \<times> nat" where
  "limiter_stats l = (map_size (lim_sourceLog l), map_size (lim_destLog l), length (lim_globalLog l))"

section \<open>One window, abstractly\<close>

text \<open>How many accepted times lie in the window that ends at \<open>t\<close>.\<close>

definition window_count :: "int \<Rightarrow> int \<Rightarrow> int list \<Rightarrow> nat" where
  "window_count w t h = length (filter (\<lambda>x. t - w < x \<and> x \<le> t) h)"

definition window_inv :: "int \<Rightarrow> nat \<Rightarrow> int list \<Rightarrow> int list \<Rightarrow> int \<Rightarrow> bool" where
  "window_inv w lim bucket h now \<longleftrightarrow>
     (\<exists>old. h = old @ bucket \<and> (\<forall>x\<in>set old. x \<le> now - w))
     \<and> (\<forall>t. window_count w t h \<le> lim)"

lemma evict_split: "\<exists>gone. ts = gone @ evict ts c \<and> (\<forall>x\<in>set gone. x \<le> c)"
proof (induction ts)
  case Nil
  then show ?case by simp
next
  case (Cons t ts)
  then obtain gone where g: "ts = gone @ evict ts c" "\<forall>x\<in>set gone. x \<le> c" by blast
  show ?case
  proof (cases "t \<le> c")
    case True
    then have "t # ts = (t # gone) @ evict (t # ts) c \<and> (\<forall>x\<in>set (t # gone). x \<le> c)"
      using g by simp
    then show ?thesis by blast
  qed simp
qed

lemma window_inv_later: "window_inv w lim b h n \<Longrightarrow> n \<le> m \<Longrightarrow> window_inv w lim b h m"
proof -
  assume w: "window_inv w lim b h n" and "n \<le> m"
  then obtain old where "h = old @ b" "\<forall>x\<in>set old. x \<le> n - w"
    unfolding window_inv_def by blast
  then have "h = old @ b \<and> (\<forall>x\<in>set old. x \<le> m - w)" using \<open>n \<le> m\<close> by auto
  then show ?thesis using w unfolding window_inv_def by blast
qed

lemma window_inv_evict:
  assumes "window_inv w lim b h n" "n \<le> m"
  shows "window_inv w lim (evict b (m - w)) h m"
proof -
  obtain old gone where "h = old @ b" "\<forall>x\<in>set old. x \<le> n - w"
    "b = gone @ evict b (m - w)" "\<forall>x\<in>set gone. x \<le> m - w"
    using assms(1) evict_split [of b "m - w"] unfolding window_inv_def by blast
  then have "h = (old @ gone) @ evict b (m - w) \<and> (\<forall>x\<in>set (old @ gone). x \<le> m - w)"
    using assms(2) by auto
  then show ?thesis using assms(1) unfolding window_inv_def by blast
qed

lemma window_inv_push:
  assumes inv: "window_inv w lim b h m" and room: "length b < lim"
  shows "window_inv w lim (b @ [m]) (h @ [m]) m"
proof -
  obtain old where h: "h = old @ b" and old: "\<forall>x\<in>set old. x \<le> m - w"
    using inv unfolding window_inv_def by blast
  have "window_count w t (h @ [m]) \<le> lim" for t
  proof (cases "t - w < m \<and> m \<le> t")
    case True
    then have "filter (\<lambda>x. t - w < x \<and> x \<le> t) old = []"
      using old by (force simp: filter_empty_conv)
    then have "window_count w t (h @ [m]) \<le> length b + 1"
      using True by (simp add: window_count_def h)
    then show ?thesis using room by simp
  next
    case False
    then have "window_count w t (h @ [m]) = window_count w t h"
      by (simp add: window_count_def)
    then show ?thesis using inv unfolding window_inv_def by simp
  qed
  moreover have "h @ [m] = old @ (b @ [m])" using h by simp
  ultimately show ?thesis using old unfolding window_inv_def by blast
qed

section \<open>Runs\<close>

record fwd_request =
  rq_now :: int
  rq_source :: bytes
  rq_dest :: bytes

text \<open>The limiter over a list of requests, and the requests it accepted.\<close>

fun limiter_run :: "limiter \<Rightarrow> fwd_request list \<Rightarrow> fwd_request list \<times> limiter" where
  "limiter_run l [] = ([], l)"
| "limiter_run l (r # rs) =
     (let (accepted, l) = checkAndCount l (rq_now r) (rq_source r) (rq_dest r);
          (acc, l) = limiter_run l rs
      in (if accepted then r # acc else acc, l))"

definition bucket :: "(string, int list) jsmap \<Rightarrow> string \<Rightarrow> int list" where
  "bucket log k = (case map_get log k of None \<Rightarrow> [] | Some ts \<Rightarrow> ts)"

definition source_times :: "bytes \<Rightarrow> fwd_request list \<Rightarrow> int list" where
  "source_times s h = map rq_now (filter (\<lambda>r. rq_source r = s) h)"

definition dest_times :: "bytes \<Rightarrow> fwd_request list \<Rightarrow> int list" where
  "dest_times d h = map rq_now (filter (\<lambda>r. rq_dest r = d) h)"

definition limiter_inv :: "limiter \<Rightarrow> fwd_request list \<Rightarrow> int \<Rightarrow> bool" where
  "limiter_inv l h n \<longleftrightarrow>
     (\<forall>s. window_inv (lim_window l) (lim_perSource l) (bucket (lim_sourceLog l) (toHex s)) (source_times s h) n)
     \<and> (\<forall>d. window_inv (lim_window l) (lim_perDestination l) (bucket (lim_destLog l) (toHex d)) (dest_times d h) n)
     \<and> window_inv (lim_window l) (lim_global l) (lim_globalLog l) (map rq_now h) n"

lemma cleanupBucket_bucket:
  assumes "cleanupBucket log k c = (ts, log')"
  shows "ts = evict (bucket log k) c \<and> bucket log' k = ts \<and> (\<forall>j. j \<noteq> k \<longrightarrow> bucket log' j = bucket log j)"
  using assms
  by (auto simp: cleanupBucket_def bucket_def Let_def jm.get_put jm.get_del split: option.splits if_splits)

lemma bucket_set: "bucket (map_set k v m) j = (if j = k then v else bucket m j)"
  by (simp add: bucket_def jm.get_put)

text \<open>The two outcomes of a request, over the buckets.\<close>

lemma checkAndCount_buckets:
  assumes "checkAndCount l now s d = (acc, l')"
  shows "lim_window l' = lim_window l \<and> lim_perSource l' = lim_perSource l
    \<and> lim_perDestination l' = lim_perDestination l \<and> lim_global l' = lim_global l"
    and "acc \<Longrightarrow> length (evict (bucket (lim_sourceLog l) (toHex s)) (now - lim_window l)) < lim_perSource l
      \<and> length (evict (bucket (lim_destLog l) (toHex d)) (now - lim_window l)) < lim_perDestination l
      \<and> length (evict (lim_globalLog l) (now - lim_window l)) < lim_global l"
    and "bucket (lim_sourceLog l') k =
      (if k = toHex s then evict (bucket (lim_sourceLog l) k) (now - lim_window l) @ (if acc then [now] else [])
       else bucket (lim_sourceLog l) k)"
    and "bucket (lim_destLog l') k =
      (if k = toHex d then evict (bucket (lim_destLog l) k) (now - lim_window l) @ (if acc then [now] else [])
       else bucket (lim_destLog l) k)"
    and "lim_globalLog l' = evict (lim_globalLog l) (now - lim_window l) @ (if acc then [now] else [])"
proof -
  let ?c = "now - lim_window l"
  obtain st sl where s: "cleanupBucket (lim_sourceLog l) (toHex s) ?c = (st, sl)" by fastforce
  obtain dt dl where d: "cleanupBucket (lim_destLog l) (toHex d) ?c = (dt, dl)" by fastforce
  note sb = cleanupBucket_bucket [OF s] and db = cleanupBucket_bucket [OF d]
  note defs = assms [unfolded checkAndCount_def Let_def s d prod.case, symmetric]
  show "lim_window l' = lim_window l \<and> lim_perSource l' = lim_perSource l
    \<and> lim_perDestination l' = lim_perDestination l \<and> lim_global l' = lim_global l"
    using defs by (simp split: if_splits)
  show "acc \<Longrightarrow> length (evict (bucket (lim_sourceLog l) (toHex s)) ?c) < lim_perSource l
      \<and> length (evict (bucket (lim_destLog l) (toHex d)) ?c) < lim_perDestination l
      \<and> length (evict (lim_globalLog l) ?c) < lim_global l"
    using defs sb db by (simp split: if_splits)
  show "bucket (lim_sourceLog l') k =
      (if k = toHex s then evict (bucket (lim_sourceLog l) k) ?c @ (if acc then [now] else [])
       else bucket (lim_sourceLog l) k)"
    using defs sb by (auto simp: bucket_set split: if_splits)
  show "bucket (lim_destLog l') k =
      (if k = toHex d then evict (bucket (lim_destLog l) k) ?c @ (if acc then [now] else [])
       else bucket (lim_destLog l) k)"
    using defs db by (auto simp: bucket_set split: if_splits)
  show "lim_globalLog l' = evict (lim_globalLog l) ?c @ (if acc then [now] else [])"
    using defs by (simp split: if_splits)
qed

lemma source_times_snoc:
  "source_times s (h @ [r]) = source_times s h @ (if rq_source r = s then [rq_now r] else [])"
  by (simp add: source_times_def)

lemma dest_times_snoc:
  "dest_times d (h @ [r]) = dest_times d h @ (if rq_dest r = d then [rq_now r] else [])"
  by (simp add: dest_times_def)

lemma window_inv_step:
  assumes "window_inv w lim b h n" "n \<le> m" "acc \<Longrightarrow> length (evict b (m - w)) < lim"
  shows "window_inv w lim (evict b (m - w) @ (if acc then [m] else [])) (h @ (if acc then [m] else [])) m"
  using window_inv_push [OF window_inv_evict [OF assms(1,2)]] window_inv_evict [OF assms(1,2)] assms(3)
  by (cases acc) simp_all

lemma limiter_inv_step:
  assumes inv: "limiter_inv l h n" and later: "n \<le> rq_now r"
    and step: "checkAndCount l (rq_now r) (rq_source r) (rq_dest r) = (acc, l')"
  shows "limiter_inv l' (if acc then h @ [r] else h) (rq_now r)"
proof -
  note c = checkAndCount_buckets [OF step]
  let ?h = "if acc then h @ [r] else h"
  have hs: "source_times s ?h = source_times s h @ (if acc \<and> rq_source r = s then [rq_now r] else [])" for s
    by (simp add: source_times_snoc)
  have hd: "dest_times d ?h = dest_times d h @ (if acc \<and> rq_dest r = d then [rq_now r] else [])" for d
    by (simp add: dest_times_snoc)
  have hg: "map rq_now ?h = map rq_now h @ (if acc then [rq_now r] else [])" by simp
  have "window_inv (lim_window l) (lim_perSource l) (bucket (lim_sourceLog l') (toHex s))
      (source_times s ?h) (rq_now r)" for s
  proof (cases "s = rq_source r")
    case True
    then show ?thesis
      using inv window_inv_step [OF _ later, of "lim_window l" "lim_perSource l"
          "bucket (lim_sourceLog l) (toHex s)" "source_times s h" acc] c(2)
      unfolding limiter_inv_def c(3) hs by simp
  next
    case False
    then show ?thesis
      using inv window_inv_later [OF _ later] unfolding limiter_inv_def c(3) hs
      by (simp add: toHex_eq)
  qed
  moreover have "window_inv (lim_window l) (lim_perDestination l) (bucket (lim_destLog l') (toHex d))
      (dest_times d ?h) (rq_now r)" for d
  proof (cases "d = rq_dest r")
    case True
    then show ?thesis
      using inv window_inv_step [OF _ later, of "lim_window l" "lim_perDestination l"
          "bucket (lim_destLog l) (toHex d)" "dest_times d h" acc] c(2)
      unfolding limiter_inv_def c(4) hd by simp
  next
    case False
    then show ?thesis
      using inv window_inv_later [OF _ later] unfolding limiter_inv_def c(4) hd
      by (simp add: toHex_eq)
  qed
  moreover have "window_inv (lim_window l) (lim_global l) (lim_globalLog l') (map rq_now ?h) (rq_now r)"
    using inv window_inv_step [OF _ later, of "lim_window l" "lim_global l"
        "lim_globalLog l" "map rq_now h" acc] c(2)
    unfolding limiter_inv_def c(5) hg by simp
  ultimately show ?thesis using c(1) by (simp add: limiter_inv_def)
qed

fun nondecreasing :: "int \<Rightarrow> fwd_request list \<Rightarrow> bool" where
  "nondecreasing n [] = True"
| "nondecreasing n (r # rs) = (n \<le> rq_now r \<and> nondecreasing (rq_now r) rs)"

lemma limiter_run_inv:
  "limiter_run l rs = (acc, l') \<Longrightarrow> limiter_inv l h n \<Longrightarrow> nondecreasing n rs \<Longrightarrow>
   (\<exists>m. limiter_inv l' (h @ acc) m) \<and> lim_window l' = lim_window l \<and> lim_perSource l' = lim_perSource l
   \<and> lim_perDestination l' = lim_perDestination l \<and> lim_global l' = lim_global l"
proof (induction rs arbitrary: l acc h n)
  case Nil
  then show ?case by auto
next
  case (Cons r rs)
  obtain a l1 where step: "checkAndCount l (rq_now r) (rq_source r) (rq_dest r) = (a, l1)" by fastforce
  obtain acc1 where run: "limiter_run l1 rs = (acc1, l')" and acc: "acc = (if a then r # acc1 else acc1)"
    using Cons.prems(1) by (auto simp: step Let_def split: prod.splits)
  have "limiter_inv l1 (if a then h @ [r] else h) (rq_now r)"
    using limiter_inv_step [OF Cons.prems(2) _ step] Cons.prems(3) by simp
  from Cons.IH [OF run this] show ?case
    using Cons.prems(3) acc checkAndCount_buckets(1) [OF step] by (cases a) simp_all
qed

lemma limiter_inv_create:
  "limiter_inv (createForwardRateLimiter a b c w) [] n"
  by (simp add: limiter_inv_def createForwardRateLimiter_def window_inv_def bucket_def
      source_times_def dest_times_def window_count_def)

lemma limiter_limits:
  assumes "limiter_run (createForwardRateLimiter a b c w) rs = (acc, l)" "nondecreasing n rs"
  shows "window_count w t (source_times s acc) \<le> a
    \<and> window_count w t (dest_times d acc) \<le> b \<and> window_count w t (map rq_now acc) \<le> c"
proof -
  obtain m where inv: "limiter_inv l acc m" and cfg: "lim_window l = w" "lim_perSource l = a"
      "lim_perDestination l = b" "lim_global l = c"
    using limiter_run_inv [OF assms(1) limiter_inv_create assms(2)]
    by (auto simp: createForwardRateLimiter_def)
  then show ?thesis
    unfolding limiter_inv_def window_inv_def by simp
qed

section \<open>Properties\<close>

text \<open>C5. Sliding-window guarantee: whatever requests arrive, as long as the clock does not go back, no
  window of \<open>w\<close> seconds ever holds more accepted requests of one source than its limit, nor of
  one destination, nor in all.\<close>

theorem forward_rate_limit:
  assumes "limiter_run (createForwardRateLimiter a b c w) rs = (acc, l)" "nondecreasing n rs"
  shows "window_count w t (source_times s acc) \<le> a
    \<and> window_count w t (dest_times d acc) \<le> b \<and> window_count w t (map rq_now acc) \<le> c"
  by (rule limiter_limits [OF assms])

definition toy_requests :: "fwd_request list" where
  "toy_requests = [\<lparr>rq_now = 0, rq_source = [1], rq_dest = [2]\<rparr>,
     \<lparr>rq_now = 5, rq_source = [1], rq_dest = [3]\<rparr>, \<lparr>rq_now = 61, rq_source = [1], rq_dest = [2]\<rparr>]"

theorem forward_rate_limit_witness:
  "map rq_now (fst (limiter_run (createForwardRateLimiter 1 8 8 60) toy_requests)) = [0, 61]
   \<and> window_count 60 61 (source_times [1] (fst (limiter_run (createForwardRateLimiter 1 8 8 60) toy_requests))) \<le> 1"
proof
  show "map rq_now (fst (limiter_run (createForwardRateLimiter 1 8 8 60) toy_requests)) = [0, 61]"
    by code_simp
  have "nondecreasing 0 toy_requests" by (simp add: toy_requests_def)
  then show "window_count 60 61 (source_times [1] (fst (limiter_run (createForwardRateLimiter 1 8 8 60) toy_requests))) \<le> 1"
    using forward_rate_limit [of 1 8 8 60 toy_requests] by (metis prod.collapse)
qed

end
