(* ===== verification/Machine.thy ===== *)
theory Machine
  imports Prelude
begin

text \<open>
  Components that answer a sequence of calls. \<open>call_machine\<close> is the interface of their proofs: a
  step function on the state, an invariant that the initial state has and every step keeps. The
  lemmas carry the invariant, and any relation between states that steps keep, to every run.
\<close>

fun run_calls :: "('op \<Rightarrow> 's \<Rightarrow> 's) \<Rightarrow> 'op list \<Rightarrow> 's \<Rightarrow> 's" where
  "run_calls step [] s = s"
| "run_calls step (op # ops) s = run_calls step ops (step op s)"

lemma run_calls_append: "run_calls step (xs @ ys) s = run_calls step ys (run_calls step xs s)"
  by (induction xs arbitrary: s) simp_all

locale call_machine =
  fixes init :: "'s \<Rightarrow> bool"
    and step :: "'op \<Rightarrow> 's \<Rightarrow> 's"
    and inv :: "'s \<Rightarrow> bool"
  assumes inv_init: "init s \<Longrightarrow> inv s"
    and inv_step: "inv s \<Longrightarrow> inv (step op s)"
begin

lemma inv_run: "inv s \<Longrightarrow> inv (run_calls step ops s)"
  by (induction ops arbitrary: s) (simp_all add: inv_step)

lemma inv_reachable: "init s \<Longrightarrow> inv (run_calls step ops s)"
  by (simp add: inv_init inv_run)

text \<open>A fact about one step that composes holds of a run.\<close>

lemma run_relates:
  assumes refl: "\<And>s. R s s" and trans: "\<And>s t u. R s t \<Longrightarrow> R t u \<Longrightarrow> R s u"
    and one: "\<And>op s. inv s \<Longrightarrow> P op \<Longrightarrow> R s (step op s)"
  shows "inv s \<Longrightarrow> list_all P ops \<Longrightarrow> R s (run_calls step ops s)"
proof (induction ops arbitrary: s)
  case Nil
  then show ?case by (simp add: refl)
next
  case (Cons op ops)
  have "R s (step op s)" using Cons.prems by (intro one) simp_all
  moreover have "R (step op s) (run_calls step ops (step op s))"
    using Cons.prems by (intro Cons.IH) (simp_all add: inv_step)
  ultimately show ?case by (simp add: trans [of s "step op s"])
qed

end

end
