(* ===== verification/Peer_Table.thy ===== *)
theory Peer_Table
  imports Crypto JsMap Machine Wire_Transport
begin

text \<open>
  \<open>modules/peer/table.mjs\<close>: the table of known peers, with the eviction policy of SPEC 7.4. The
  map holds peer records under the hexadecimal fingerprint and one record of another shape, the
  list of receivers of our own certificate, under the key \<open>'__self__'\<close>; both shapes are kept.
  Clock readings are arguments: \<open>nowSeconds\<close> is the caller's optional value, \<open>now\<close> the clock.
\<close>

section \<open>State\<close>

record peer =
  per_idPk :: bytes
  per_fingerprint :: bytes
  per_certBytes :: bytes
  per_expirySeconds :: nat
  per_onionPk :: bytes
  per_transports :: "transport list"
  per_connected :: bool
  per_lastReachableAt :: "int option"
  per_firstUnreachableAt :: "int option"
  per_keyCertSentTo :: "string list"
  per_lastAnnouncedAt :: "(string, int) jsmap"

datatype slot = Peer peer | Self "string list"

type_synonym peer_table = "(string, slot) jsmap"

definition UNREACHABLE_EVICT_SECONDS :: int where [simp]: "UNREACHABLE_EVICT_SECONDS = 3600"

definition SELF_KEY :: string where "SELF_KEY = ''__self__''"

definition createPeerTable :: peer_table where
  "createPeerTable = []"

definition keyOf :: "bytes \<Rightarrow> string" where
  "keyOf fp = toHex fp"

definition at_time :: "int option \<Rightarrow> int \<Rightarrow> int" where
  "at_time nowSeconds now = (case nowSeconds of Some t \<Rightarrow> t | None \<Rightarrow> now)"

section \<open>Operations\<close>

text \<open>\<open>wipeEntry\<close>: what a reference to a dropped record still shows.\<close>

definition wipeEntry :: "peer \<Rightarrow> peer" where
  "wipeEntry e = e\<lparr>per_idPk := zeroize (per_idPk e), per_fingerprint := zeroize (per_fingerprint e),
     per_certBytes := zeroize (per_certBytes e), per_onionPk := zeroize (per_onionPk e),
     per_transports := map (\<lambda>t. t\<lparr>tr_address := zeroize (tr_address t)\<rparr>) (per_transports e)\<rparr>"

definition addOrUpdate ::
  "crypto \<Rightarrow> int \<Rightarrow> bytes \<Rightarrow> bytes \<Rightarrow> transport list \<Rightarrow> int option \<Rightarrow> peer_table \<Rightarrow> bool \<times> peer_table" where
  "addOrUpdate C now idPk certBytes transports nowSeconds peers =
     (let ts = at_time nowSeconds now
      in case verifyCertificate C certBytes idPk ts of
           None \<Rightarrow> (False, peers)
         | Some cert \<Rightarrow>
             let fp = fingerprint C idPk;
                 key = keyOf fp
             in case map_get peers key of
                  Some (Peer existing) \<Rightarrow>
                    (True, map_set key (Peer (existing\<lparr>per_certBytes := certBytes,
                       per_expirySeconds := cert_expirySeconds cert,
                       per_onionPk := cert_onionPk cert,
                       per_transports := transports\<rparr>)) peers)
                | Some (Self _) \<Rightarrow> (True, peers)
                | None \<Rightarrow>
                    (True, map_set key (Peer \<lparr>per_idPk = idPk, per_fingerprint = fp,
                       per_certBytes = certBytes, per_expirySeconds = cert_expirySeconds cert,
                       per_onionPk = cert_onionPk cert, per_transports = transports,
                       per_connected = False, per_lastReachableAt = None,
                       per_firstUnreachableAt = None, per_keyCertSentTo = [],
                       per_lastAnnouncedAt = []\<rparr>) peers))"

text \<open>\<open>get\<close> takes a fingerprint, so it never meets the record of the other shape
  (\<open>toHex_not_self\<close>).\<close>

definition get :: "bytes \<Rightarrow> peer_table \<Rightarrow> peer option" where
  "get fp peers = (case map_get peers (keyOf fp) of Some (Peer p) \<Rightarrow> Some p | _ \<Rightarrow> None)"

definition list_slots :: "peer_table \<Rightarrow> slot list" where
  "list_slots peers = map snd peers"

definition remove :: "bytes \<Rightarrow> peer_table \<Rightarrow> bool \<times> peer option \<times> peer_table" where
  "remove fp peers =
     (let key = keyOf fp
      in case get fp peers of
           None \<Rightarrow> (False, None, peers)
         | Some entry \<Rightarrow> (True, Some (wipeEntry entry), map_delete key peers))"

definition markInnerValidationFailed :: "bytes \<Rightarrow> peer_table \<Rightarrow> peer_table" where
  "markInnerValidationFailed fp peers =
     (let key = keyOf fp
      in case get fp peers of None \<Rightarrow> peers | Some entry \<Rightarrow> map_delete key peers)"

text \<open>\<open>const p = get(fp); if (p) \<dots>\<close>: assignments to the fields of the record in the map.\<close>

definition with_peer :: "(peer \<Rightarrow> peer) \<Rightarrow> bytes \<Rightarrow> peer_table \<Rightarrow> peer_table" where
  "with_peer f fp peers =
     (case get fp peers of None \<Rightarrow> peers | Some p \<Rightarrow> map_set (keyOf fp) (Peer (f p)) peers)"

definition markConnected :: "bytes \<Rightarrow> peer_table \<Rightarrow> peer_table" where
  "markConnected fp = with_peer (\<lambda>p. p\<lparr>per_connected := True, per_firstUnreachableAt := None\<rparr>) fp"

definition markDisconnected :: "bytes \<Rightarrow> peer_table \<Rightarrow> peer_table" where
  "markDisconnected fp = with_peer (\<lambda>p. p\<lparr>per_connected := False\<rparr>) fp"

definition markReachable :: "int \<Rightarrow> bytes \<Rightarrow> int option \<Rightarrow> peer_table \<Rightarrow> peer_table" where
  "markReachable now fp nowSeconds =
     with_peer (\<lambda>p. p\<lparr>per_lastReachableAt := Some (at_time nowSeconds now), per_firstUnreachableAt := None\<rparr>) fp"

definition markUnreachable :: "int \<Rightarrow> bytes \<Rightarrow> int option \<Rightarrow> peer_table \<Rightarrow> peer_table" where
  "markUnreachable now fp nowSeconds =
     with_peer (\<lambda>p.
       let ts = at_time nowSeconds now;
           p = (if per_firstUnreachableAt p = None then p\<lparr>per_firstUnreachableAt := Some ts\<rparr> else p)
       in p\<lparr>per_connected := False\<rparr>) fp"

definition markAnnouncedTo :: "int \<Rightarrow> bytes \<Rightarrow> bytes \<Rightarrow> int option \<Rightarrow> peer_table \<Rightarrow> peer_table" where
  "markAnnouncedTo now receiverFp subjectFp nowSeconds =
     with_peer (\<lambda>subject. subject\<lparr>per_lastAnnouncedAt :=
       map_set (keyOf receiverFp) (at_time nowSeconds now) (per_lastAnnouncedAt subject)\<rparr>) subjectFp"

definition self_record :: "peer_table \<Rightarrow> string list option" where
  "self_record peers = (case map_get peers SELF_KEY of Some (Self s) \<Rightarrow> Some s | _ \<Rightarrow> None)"

definition markKeyCertSentTo :: "bytes \<Rightarrow> peer_table \<Rightarrow> peer_table" where
  "markKeyCertSentTo receiverFp peers =
     (let sent = (case self_record peers of None \<Rightarrow> [] | Some s \<Rightarrow> s)
      in map_set SELF_KEY (Self (List.insert (keyOf receiverFp) sent)) peers)"

definition hasSentKeyCertTo :: "bytes \<Rightarrow> peer_table \<Rightarrow> bool" where
  "hasSentKeyCertTo receiverFp peers =
     (case self_record peers of None \<Rightarrow> False | Some s \<Rightarrow> keyOf receiverFp \<in> set s)"

definition must_evict :: "int \<Rightarrow> peer \<Rightarrow> bool" where
  "must_evict ts p \<longleftrightarrow>
     int (per_expirySeconds p) \<le> ts
     \<or> (case per_firstUnreachableAt p of
          None \<Rightarrow> False
        | Some t \<Rightarrow> \<not> per_connected p \<and> ts - t \<ge> UNREACHABLE_EVICT_SECONDS)"

text \<open>The loop over the map, which deletes as it goes.\<close>

fun prune_loop :: "int \<Rightarrow> (string \<times> slot) list \<Rightarrow> peer_table \<Rightarrow> nat \<Rightarrow> nat \<times> peer_table" where
  "prune_loop ts [] peers evicted = (evicted, peers)"
| "prune_loop ts ((key, Self s) # rest) peers evicted = prune_loop ts rest peers evicted"
| "prune_loop ts ((key, Peer p) # rest) peers evicted =
     (if must_evict ts p then prune_loop ts rest (map_delete key peers) (evicted + 1)
      else prune_loop ts rest peers evicted)"

definition prune :: "int \<Rightarrow> int option \<Rightarrow> peer_table \<Rightarrow> nat \<times> peer_table" where
  "prune now nowSeconds peers = prune_loop (at_time nowSeconds now) peers peers 0"

fun connectedFingerprints :: "peer_table \<Rightarrow> bytes list" where
  "connectedFingerprints [] = []"
| "connectedFingerprints ((key, Self s) # rest) = connectedFingerprints rest"
| "connectedFingerprints ((key, Peer p) # rest) =
     (if per_connected p then per_fingerprint p # connectedFingerprints rest
      else connectedFingerprints rest)"

text \<open>The loop of \<open>pickAnnouncementSubject\<close>: peers never announced to the receiver, peers announced
  at the oldest time so far, and that time (None is Infinity).\<close>

fun subject_loop ::
  "string \<Rightarrow> peer_table \<Rightarrow> peer list \<Rightarrow> peer list \<Rightarrow> int option \<Rightarrow> peer list \<times> peer list" where
  "subject_loop receiverKey [] never oldest best = (never, oldest)"
| "subject_loop receiverKey ((key, Self s) # rest) never oldest best =
     subject_loop receiverKey rest never oldest best"
| "subject_loop receiverKey ((key, Peer p) # rest) never oldest best =
     (if per_connected p then subject_loop receiverKey rest never oldest best
      else if key = receiverKey then subject_loop receiverKey rest never oldest best
      else case map_get (per_lastAnnouncedAt p) receiverKey of
             None \<Rightarrow> subject_loop receiverKey rest (never @ [p]) oldest best
           | Some lastAt \<Rightarrow>
               if best = None \<or> lastAt < the best
                 then subject_loop receiverKey rest never [p] (Some lastAt)
               else if lastAt = the best
                 then subject_loop receiverKey rest never (oldest @ [p]) best
               else subject_loop receiverKey rest never oldest best)"

text \<open>\<open>rnd n\<close> is \<open>Math.floor(Math.random() * n)\<close>, which is below \<open>n\<close>.\<close>

definition pickAnnouncementSubject :: "(nat \<Rightarrow> nat) \<Rightarrow> bytes \<Rightarrow> peer_table \<Rightarrow> bytes option" where
  "pickAnnouncementSubject rnd receiverFp peers =
     (let (never, oldest) = subject_loop (keyOf receiverFp) peers [] [] None;
          pool = (if length never > 0 then never else oldest)
      in if length pool = 0 then None
         else Some (per_fingerprint (pool ! rnd (length pool))))"

definition peerCount :: "peer_table \<Rightarrow> nat" where
  "peerCount peers = length (filter (\<lambda>key. key \<noteq> SELF_KEY) (map_keys peers))"

end
