(* ===== verification/Peer_Table_Props.thy ===== *)
theory Peer_Table_Props
  imports Peer_Table
begin

text \<open>
  What the peer table keeps. \<open>table_inv\<close> files every record under the fingerprint of the key that
  signed its certificate; the interpretation \<open>pt\<close> of \<open>call_machine\<close> carries it to every sequence
  of calls. The other lemmas say what survives \<open>prune\<close> and which subject gossip may pick.
\<close>

section \<open>The invariant\<close>

text \<open>A certificate for the onion key and expiry that verified, at some time, under a key with the
  fingerprint.\<close>

definition certified :: "crypto \<Rightarrow> bytes \<Rightarrow> bytes \<Rightarrow> bytes \<Rightarrow> nat \<Rightarrow> bool" where
  "certified C fp certBytes onionPk expiry \<longleftrightarrow>
     (\<exists>idPk t. fingerprint C idPk = fp
        \<and> verifyCertificate C certBytes idPk t = Some \<lparr>cert_onionPk = onionPk, cert_expirySeconds = expiry\<rparr>)"

lemma certifiedI:
  "verifyCertificate C certBytes idPk t = Some f \<Longrightarrow>
   certified C (fingerprint C idPk) certBytes (cert_onionPk f) (cert_expirySeconds f)"
  unfolding certified_def by (cases f) auto

definition peer_ok :: "crypto \<Rightarrow> string \<Rightarrow> peer \<Rightarrow> bool" where
  "peer_ok C key p \<longleftrightarrow> key = toHex (per_fingerprint p)
     \<and> per_fingerprint p = fingerprint C (per_idPk p)
     \<and> certified C (per_fingerprint p) (per_certBytes p) (per_onionPk p) (per_expirySeconds p)
     \<and> (per_connected p \<longrightarrow> per_firstUnreachableAt p = None)"

definition slot_ok :: "crypto \<Rightarrow> string \<Rightarrow> slot \<Rightarrow> bool" where
  "slot_ok C key s = (case s of Self _ \<Rightarrow> key = SELF_KEY | Peer p \<Rightarrow> peer_ok C key p)"

definition table_inv :: "crypto \<Rightarrow> peer_table \<Rightarrow> bool" where
  "table_inv C t \<longleftrightarrow> distinct (map_keys t) \<and> (\<forall>k s. map_get t k = Some s \<longrightarrow> slot_ok C k s)"

lemma table_inv_get: "table_inv C t \<Longrightarrow> get fp t = Some p \<Longrightarrow> peer_ok C (toHex fp) p"
  by (auto simp: table_inv_def get_def keyOf_def slot_ok_def split: option.splits slot.splits)

lemma table_inv_set: "table_inv C t \<Longrightarrow> slot_ok C k s \<Longrightarrow> table_inv C (map_set k s t)"
  by (simp add: table_inv_def jm.get_put jm.distinct_put)

lemma table_inv_delete: "table_inv C t \<Longrightarrow> table_inv C (map_delete k t)"
  by (simp add: table_inv_def jm.get_del jm.distinct_del)

lemma table_inv_with_peer:
  "table_inv C t \<Longrightarrow> (\<And>k p. peer_ok C k p \<Longrightarrow> peer_ok C k (f p)) \<Longrightarrow> table_inv C (with_peer f fp t)"
  using table_inv_get [of C t fp]
  by (auto simp: with_peer_def keyOf_def slot_ok_def intro!: table_inv_set split: option.splits)

lemma addOrUpdate_inv:
  assumes inv: "table_inv C t"
  shows "table_inv C (snd (addOrUpdate C now idPk certBytes transports nowSeconds t))"
proof (cases "verifyCertificate C certBytes idPk (at_time nowSeconds now)")
  case None
  then show ?thesis using inv by (simp add: addOrUpdate_def Let_def)
next
  case (Some f)
  let ?key = "keyOf (fingerprint C idPk)"
  note v = certifiedI [OF Some]
  show ?thesis
  proof (cases "map_get t ?key")
    case None
    then show ?thesis
      using Some v inv
      by (auto simp: addOrUpdate_def Let_def slot_ok_def peer_ok_def keyOf_def intro!: table_inv_set)
  next
    case s: (Some s)
    show ?thesis
    proof (cases s)
      case (Peer p)
      then have "slot_ok C ?key (Peer p)" using s inv unfolding table_inv_def by blast
      then have "peer_ok C ?key p" by (simp add: slot_ok_def)
      moreover from this have "per_fingerprint p = fingerprint C idPk"
        by (simp add: peer_ok_def keyOf_def toHex_eq)
      ultimately have fp: "per_fingerprint p = fingerprint C idPk" "peer_ok C ?key p"
        by simp_all
      show ?thesis
        using Some v s Peer inv fp
        by (auto simp: addOrUpdate_def Let_def slot_ok_def peer_ok_def intro!: table_inv_set)
    next
      case (Self l)
      then show ?thesis using Some s inv by (simp add: addOrUpdate_def Let_def)
    qed
  qed
qed

lemma mark_inv:
  assumes "table_inv C t"
  shows "table_inv C (markConnected fp t)" "table_inv C (markDisconnected fp t)"
    "table_inv C (markReachable now fp ns t)" "table_inv C (markUnreachable now fp ns t)"
    "table_inv C (markAnnouncedTo now rf fp ns t)"
  using assms
  unfolding markConnected_def markDisconnected_def markReachable_def markUnreachable_def markAnnouncedTo_def
  by (auto intro!: table_inv_with_peer simp: peer_ok_def Let_def)

lemma markKeyCertSentTo_inv: "table_inv C t \<Longrightarrow> table_inv C (markKeyCertSentTo fp t)"
  by (simp add: markKeyCertSentTo_def Let_def table_inv_set slot_ok_def)

lemma evict_inv:
  "table_inv C t \<Longrightarrow> table_inv C (snd (snd (remove fp t)))"
  "table_inv C t \<Longrightarrow> table_inv C (markInnerValidationFailed fp t)"
  by (auto simp: remove_def markInnerValidationFailed_def Let_def table_inv_delete split: option.splits)

section \<open>prune\<close>

definition survives :: "int \<Rightarrow> slot \<Rightarrow> bool" where
  "survives ts s = (case s of Self _ \<Rightarrow> True | Peer p \<Rightarrow> \<not> must_evict ts p)"

lemma prune_loop_filter:
  "distinct (map fst (done @ todo)) \<Longrightarrow>
   prune_loop ts todo (filter (\<lambda>e. survives ts (snd e)) done @ todo) n
     = (n + length (filter (\<lambda>e. \<not> survives ts (snd e)) todo), filter (\<lambda>e. survives ts (snd e)) (done @ todo))"
proof (induction todo arbitrary: "done" n)
  case Nil
  then show ?case by simp
next
  case (Cons e todo)
  obtain k s where e: "e = (k, s)" by (cases e)
  have IH: "prune_loop ts todo (filter (\<lambda>e. survives ts (snd e)) (done @ [e]) @ todo) m
      = (m + length (filter (\<lambda>e. \<not> survives ts (snd e)) todo),
         filter (\<lambda>e. survives ts (snd e)) ((done @ [e]) @ todo))" for m
    using Cons.prems by (intro Cons.IH) simp
  have "\<forall>x\<in>set (done @ todo). fst x \<noteq> k" using Cons.prems e by (auto simp: image_iff)
  then have del: "map_delete k (filter (\<lambda>e. survives ts (snd e)) done @ (k, s) # todo)
      = filter (\<lambda>e. survives ts (snd e)) done @ todo"
    by (auto simp: map_delete_filter filter_id_conv intro: filter_cong)
  show ?case
    using IH [of n] IH [of "n + 1"] del by (cases s) (auto simp: e survives_def)
qed

lemma prune_filter:
  "table_inv C t \<Longrightarrow> prune now ns t =
     (length (filter (\<lambda>e. \<not> survives (at_time ns now) (snd e)) t),
      filter (\<lambda>e. survives (at_time ns now) (snd e)) t)"
  using prune_loop_filter [of "[]" t "at_time ns now" 0]
  by (simp add: prune_def table_inv_def map_keys_def)

lemma map_get_filter:
  "distinct (map_keys t) \<Longrightarrow> map_get (filter (\<lambda>e. P (snd e)) t) k
    = (case map_get t k of Some s \<Rightarrow> if P s then Some s else None | None \<Rightarrow> None)"
proof (induction t)
  case Nil
  then show ?case by simp
next
  case (Cons e t)
  then have "fst e = k \<Longrightarrow> map_of t k = None"
    by (auto simp: map_keys_def map_of_eq_None_iff)
  then show ?case using Cons by (cases e) (auto simp: map_get_def map_keys_def)
qed

lemma prune_get:
  "table_inv C t \<Longrightarrow> map_get (snd (prune now ns t)) k
    = (case map_get t k of Some s \<Rightarrow> if survives (at_time ns now) s then Some s else None | None \<Rightarrow> None)"
  by (subst prune_filter, assumption)
    (auto simp: table_inv_def map_get_filter split: option.splits)

lemma prune_inv: "table_inv C t \<Longrightarrow> table_inv C (snd (prune now ns t))"
  using prune_get [of C t now ns]
  by (auto simp: table_inv_def prune_filter map_keys_def distinct_map_filter split: option.splits if_splits)

section \<open>Runs\<close>

datatype table_op =
    AddOrUpdate int bytes bytes "transport list" "int option"
  | Remove bytes
  | InnerValidationFailed bytes
  | Connected bytes
  | Disconnected bytes
  | Reachable int bytes "int option"
  | Unreachable int bytes "int option"
  | AnnouncedTo int bytes bytes "int option"
  | KeyCertSentTo bytes
  | Prune int "int option"

fun table_step :: "crypto \<Rightarrow> table_op \<Rightarrow> peer_table \<Rightarrow> peer_table" where
  "table_step C (AddOrUpdate now idPk cert ts ns) t = snd (addOrUpdate C now idPk cert ts ns t)"
| "table_step C (Remove fp) t = snd (snd (remove fp t))"
| "table_step C (InnerValidationFailed fp) t = markInnerValidationFailed fp t"
| "table_step C (Connected fp) t = markConnected fp t"
| "table_step C (Disconnected fp) t = markDisconnected fp t"
| "table_step C (Reachable now fp ns) t = markReachable now fp ns t"
| "table_step C (Unreachable now fp ns) t = markUnreachable now fp ns t"
| "table_step C (AnnouncedTo now rf fp ns) t = markAnnouncedTo now rf fp ns t"
| "table_step C (KeyCertSentTo fp) t = markKeyCertSentTo fp t"
| "table_step C (Prune now ns) t = snd (prune now ns t)"

lemma table_inv_create: "table_inv C createPeerTable"
  by (simp add: table_inv_def createPeerTable_def)

interpretation pt: call_machine "\<lambda>t. t = createPeerTable" "table_step C" "table_inv C" for C
proof
  fix t assume "t = createPeerTable" then show "table_inv C t" by (simp add: table_inv_create)
next
  fix t op assume "table_inv C t"
  then show "table_inv C (table_step C op t)"
    by (cases op) (simp_all add: addOrUpdate_inv mark_inv markKeyCertSentTo_inv evict_inv prune_inv)
qed

section \<open>Subjects of gossip\<close>

definition candidate :: "string \<Rightarrow> peer_table \<Rightarrow> peer \<Rightarrow> bool" where
  "candidate rk t p \<longleftrightarrow> (\<exists>k. (k, Peer p) \<in> set t \<and> \<not> per_connected p \<and> k \<noteq> rk)"

definition never_told :: "string \<Rightarrow> peer \<Rightarrow> bool" where
  "never_told rk p \<longleftrightarrow> map_get (per_lastAnnouncedAt p) rk = None"

text \<open>What the two pools hold after the loop: \<open>oldest\<close> are the candidates announced at the least
  time of all.\<close>

definition oldest_inv :: "string \<Rightarrow> peer_table \<Rightarrow> peer list \<Rightarrow> int option \<Rightarrow> bool" where
  "oldest_inv rk t oldest best \<longleftrightarrow>
     (case best of
        None \<Rightarrow> oldest = [] \<and> (\<forall>p. candidate rk t p \<longrightarrow> never_told rk p)
      | Some b \<Rightarrow> oldest \<noteq> []
          \<and> (\<forall>p. p \<in> set oldest \<longleftrightarrow> candidate rk t p \<and> map_get (per_lastAnnouncedAt p) rk = Some b)
          \<and> (\<forall>p a. candidate rk t p \<longrightarrow> map_get (per_lastAnnouncedAt p) rk = Some a \<longrightarrow> b \<le> a))"

lemma candidate_snoc:
  "candidate rk (t @ [e]) p \<longleftrightarrow> candidate rk t p \<or> (snd e = Peer p \<and> \<not> per_connected p \<and> fst e \<noteq> rk)"
  by (cases e) (auto simp: candidate_def)

lemma candidate_Nil: "\<not> candidate rk [] p"
  by (simp add: candidate_def)

lemma oldest_inv_Nil: "oldest_inv rk [] [] None"
  by (simp add: oldest_inv_def candidate_Nil)

lemma oldest_inv_cong: "candidate rk t = candidate rk u \<Longrightarrow> oldest_inv rk t = oldest_inv rk u"
  by (intro ext) (simp add: oldest_inv_def split: option.split)

lemma candidate_skip:
  "(case e of (k, Self s) \<Rightarrow> True | (k, Peer p) \<Rightarrow> per_connected p \<or> k = rk)
   \<Longrightarrow> candidate rk (t @ [e]) = candidate rk t"
  by (cases e) (auto simp: candidate_snoc fun_eq_iff split: slot.splits)

lemma oldest_inv_new:
  assumes "oldest_inv rk t oldest best" "best = None \<or> a < the best"
    and "snd e = Peer p" "\<not> per_connected p" "fst e \<noteq> rk" "map_get (per_lastAnnouncedAt p) rk = Some a"
  shows "oldest_inv rk (t @ [e]) [p] (Some a)"
proof -
  have "a < b" if "candidate rk t q" "map_get (per_lastAnnouncedAt q) rk = Some b" for q b
  proof (cases best)
    case None
    then show ?thesis using assms(1) that by (auto simp: oldest_inv_def never_told_def)
  next
    case (Some c)
    then have "c \<le> b" using assms(1) that by (simp add: oldest_inv_def)
    then show ?thesis using assms(2) Some by simp
  qed
  then show ?thesis
    using assms(3-6) unfolding oldest_inv_def candidate_snoc by (simp; fastforce)
qed

lemma subject_loop_inv:
  "subject_loop rk todo never oldest best = (never', oldest') \<Longrightarrow>
   \<forall>p. p \<in> set never \<longleftrightarrow> candidate rk seen p \<and> never_told rk p \<Longrightarrow>
   oldest_inv rk seen oldest best \<Longrightarrow>
   (\<forall>p. p \<in> set never' \<longleftrightarrow> candidate rk (seen @ todo) p \<and> never_told rk p)
    \<and> (\<exists>best'. oldest_inv rk (seen @ todo) oldest' best')"
proof (induction todo arbitrary: seen never oldest best)
  case Nil
  then show ?case by auto
next
  case (Cons e todo)
  let ?seen = "seen @ [e]"
  have step: ?case
    if "subject_loop rk todo nv old b = (never', oldest')"
      "\<forall>p. p \<in> set nv \<longleftrightarrow> candidate rk ?seen p \<and> never_told rk p" "oldest_inv rk ?seen old b" for nv old b
    using Cons.IH [OF that] by simp
  show ?case
  proof (cases "case e of (k, Self s) \<Rightarrow> True | (k, Peer p) \<Rightarrow> per_connected p \<or> k = rk")
    case True
    then have c: "candidate rk ?seen = candidate rk seen" by (rule candidate_skip)
    have run: "subject_loop rk todo never oldest best = (never', oldest')"
      using True Cons.prems(1) by (cases e) (auto split: slot.splits if_splits)
    show ?thesis by (rule step [OF run]) (use Cons.prems(2,3) c oldest_inv_cong [OF c] in simp_all)
  next
    case False
    then obtain k p where e: "e = (k, Peer p)" and cand: "\<not> per_connected p" "k \<noteq> rk"
      by (cases e) (auto split: slot.splits)
    show ?thesis
    proof (cases "map_get (per_lastAnnouncedAt p) rk")
      case None
      have run: "subject_loop rk todo (never @ [p]) oldest best = (never', oldest')"
        using Cons.prems(1) e cand None by simp
      show ?thesis
        by (rule step [OF run])
          (use Cons.prems(2,3) e cand None in
            \<open>auto simp: oldest_inv_def candidate_snoc never_told_def split: option.splits\<close>)
    next
      case (Some a)
      have nv: "\<forall>q. q \<in> set never \<longleftrightarrow> candidate rk ?seen q \<and> never_told rk q"
        using Cons.prems(2) e cand Some by (auto simp: candidate_snoc never_told_def)
      consider "best = None \<or> a < the best" | b where "best = Some b" "a = b" | b where "best = Some b" "b < a"
        by (cases best) fastforce+
      then show ?thesis
      proof cases
        case 1
        have run: "subject_loop rk todo never [p] (Some a) = (never', oldest')"
          using Cons.prems(1) e cand Some 1 by simp
        show ?thesis
          by (rule step [OF run nv], rule oldest_inv_new [OF Cons.prems(3) 1]) (use e cand Some in simp_all)
      next
        case 2
        have run: "subject_loop rk todo never (oldest @ [p]) best = (never', oldest')"
          using Cons.prems(1) e cand Some 2 by simp
        show ?thesis
          by (rule step [OF run nv]) (use Cons.prems(3) e cand Some 2 in \<open>auto simp: oldest_inv_def candidate_snoc\<close>)
      next
        case 3
        have run: "subject_loop rk todo never oldest best = (never', oldest')"
          using Cons.prems(1) e cand Some 3 by simp
        show ?thesis
          by (rule step [OF run nv]) (use Cons.prems(3) e cand Some 3 in \<open>auto simp: oldest_inv_def candidate_snoc\<close>)
      qed
    qed
  qed
qed

lemma subject_pools:
  assumes "subject_loop rk t [] [] None = (never, oldest)"
  shows "(\<forall>p. p \<in> set never \<longleftrightarrow> candidate rk t p \<and> never_told rk p)
    \<and> (oldest = [] \<longleftrightarrow> (\<forall>p. candidate rk t p \<longrightarrow> never_told rk p))
    \<and> (\<forall>p\<in>set oldest. candidate rk t p \<and> (\<exists>b. map_get (per_lastAnnouncedAt p) rk = Some b
        \<and> (\<forall>q a. candidate rk t q \<longrightarrow> map_get (per_lastAnnouncedAt q) rk = Some a \<longrightarrow> b \<le> a)))"
proof -
  obtain best where never: "\<forall>p. p \<in> set never \<longleftrightarrow> candidate rk t p \<and> never_told rk p"
    and old: "oldest_inv rk t oldest best"
    using subject_loop_inv [OF assms, of "[]"] by (fastforce simp: candidate_Nil oldest_inv_Nil)
  show ?thesis
  proof (cases best)
    case None
    then show ?thesis using never old by (simp add: oldest_inv_def)
  next
    case (Some b)
    then have o: "oldest \<noteq> []" "\<And>p. p \<in> set oldest \<longleftrightarrow> candidate rk t p \<and> map_get (per_lastAnnouncedAt p) rk = Some b"
        "\<And>p a. candidate rk t p \<Longrightarrow> map_get (per_lastAnnouncedAt p) rk = Some a \<Longrightarrow> b \<le> a"
      using old by (simp_all add: oldest_inv_def)
    obtain q where "q \<in> set oldest" using o(1) by (cases oldest) auto
    then have "candidate rk t q \<and> \<not> never_told rk q" using o(2) by (simp add: never_told_def)
    then show ?thesis using never o by blast
  qed
qed

text \<open>Which peer is picked: a candidate that was never announced to the receiver if there is one, else
  one announced to it least recently. None is returned exactly when there is no candidate.\<close>

lemma pick_subject:
  assumes rnd: "\<And>n. 0 < n \<Longrightarrow> rnd n < n"
  shows "case pickAnnouncementSubject rnd fp t of
      None \<Rightarrow> \<forall>p. \<not> candidate (keyOf fp) t p
    | Some s \<Rightarrow> \<exists>p. candidate (keyOf fp) t p \<and> s = per_fingerprint p
        \<and> (never_told (keyOf fp) p
           \<or> (\<forall>q. candidate (keyOf fp) t q \<longrightarrow>
                (\<exists>b a. map_get (per_lastAnnouncedAt p) (keyOf fp) = Some b
                  \<and> map_get (per_lastAnnouncedAt q) (keyOf fp) = Some a \<and> b \<le> a)))"
proof -
  obtain never oldest where r: "subject_loop (keyOf fp) t [] [] None = (never, oldest)" by fastforce
  note pools = subject_pools [OF r]
  have in_pool: "\<And>xs :: peer list. xs \<noteq> [] \<Longrightarrow> xs ! rnd (length xs) \<in> set xs"
    using rnd by (simp add: nth_mem)
  show ?thesis
  proof (cases "never = []")
    case never: False
    then show ?thesis
      using pools in_pool [OF never] r by (auto simp: pickAnnouncementSubject_def)
  next
    case never: True
    then have told: "\<And>p. candidate (keyOf fp) t p \<Longrightarrow> \<exists>a. map_get (per_lastAnnouncedAt p) (keyOf fp) = Some a"
      using pools by (auto simp: never_told_def)
    show ?thesis
    proof (cases "oldest = []")
      case True
      then show ?thesis
        using pools never r by (auto simp: pickAnnouncementSubject_def)
    next
      case old: False
      let ?p = "oldest ! rnd (length oldest)"
      have p: "?p \<in> set oldest" using in_pool [OF old] .
      then have "candidate (keyOf fp) t ?p \<and> (\<forall>q. candidate (keyOf fp) t q \<longrightarrow>
          (\<exists>b a. map_get (per_lastAnnouncedAt ?p) (keyOf fp) = Some b
            \<and> map_get (per_lastAnnouncedAt q) (keyOf fp) = Some a \<and> b \<le> a))"
        using pools told by meson
      then show ?thesis using never old r by (auto simp: pickAnnouncementSubject_def)
    qed
  qed
qed

section \<open>Calls that keep a peer\<close>

text \<open>\<open>evicts fp op\<close>: the calls that the SPEC allows to drop the peer \<open>fp\<close>.\<close>

fun evicts :: "bytes \<Rightarrow> table_op \<Rightarrow> bool" where
  "evicts fp (Remove f) = (f = fp)"
| "evicts fp (InnerValidationFailed f) = (f = fp)"
| "evicts fp (Prune now ns) = True"
| "evicts fp op = False"

lemma get_map_set: "map_get t (keyOf fp) = Some s \<Longrightarrow> get fp (map_set k (Peer p) t) = None \<Longrightarrow> get fp t = None"
  by (auto simp: get_def jm.get_put split: option.splits slot.splits if_splits)

lemma with_peer_get: "get g (with_peer f fp t) = (if g = fp then map_option f (get fp t) else get g t)"
  by (auto simp: with_peer_def get_def keyOf_def jm.get_put toHex_eq split: option.splits slot.splits)

lemma evict_get:
  "get g (snd (snd (remove fp t))) = (if g = fp then None else get g t)"
  "get g (markInnerValidationFailed fp t) = (if g = fp then None else get g t)"
  by (auto simp: remove_def markInnerValidationFailed_def get_def keyOf_def jm.get_del toHex_eq
      split: option.splits slot.splits)

lemma addOrUpdate_get: "get g t \<noteq> None \<Longrightarrow> get g (snd (addOrUpdate C now idPk cert ts ns t)) \<noteq> None"
  by (auto simp: addOrUpdate_def get_def Let_def keyOf_def jm.get_put toHex_eq
      split: option.splits slot.splits if_splits)

lemma markKeyCertSentTo_get: "get g (markKeyCertSentTo fp t) = get g t"
  by (simp add: markKeyCertSentTo_def Let_def get_def keyOf_def jm.get_put toHex_not_self SELF_KEY_def)

lemma step_keeps: "\<not> evicts fp op \<Longrightarrow> get fp t \<noteq> None \<Longrightarrow> get fp (table_step C op t) \<noteq> None"
  by (cases op) (auto simp: addOrUpdate_get evict_get with_peer_get markKeyCertSentTo_get
      markConnected_def markDisconnected_def markReachable_def markUnreachable_def markAnnouncedTo_def
      simp del: not_None_eq)

section \<open>Properties\<close>

text \<open>C6. After any sequence of calls, every peer record of the table is filed under the fingerprint of its
  identity key, its onion key and expiry are those of a certificate that verified under a key with
  that fingerprint, no connected peer counts as unreachable, and no key occurs twice.\<close>

theorem peer_table_sound: "table_inv C (run_calls (table_step C) ops createPeerTable)"
  by (simp add: pt.inv_reachable)

text \<open>\<open>prune\<close> evicts exactly the peers whose certificate has expired or that are disconnected and
  have been unreachable for an hour; every other record stays as it is, and the count it returns
  is the number of records that went.\<close>

theorem prune_exact:
  fixes C ops now ns
  defines "t \<equiv> run_calls (table_step C) ops createPeerTable"
  shows "map_get (snd (prune now ns t)) k
      = (case map_get t k of
           Some (Peer p) \<Rightarrow> if must_evict (at_time ns now) p then None else Some (Peer p)
         | Some (Self s) \<Rightarrow> Some (Self s) | None \<Rightarrow> None)
    \<and> fst (prune now ns t) + map_size (snd (prune now ns t)) = map_size t"
proof -
  have inv: "table_inv C t" unfolding t_def by (simp add: pt.inv_reachable)
  have "map_get (snd (prune now ns t)) k
      = (case map_get t k of
           Some (Peer p) \<Rightarrow> if must_evict (at_time ns now) p then None else Some (Peer p)
         | Some (Self s) \<Rightarrow> Some (Self s) | None \<Rightarrow> None)"
    using prune_get [OF inv] by (auto simp: survives_def split: option.splits slot.splits)
  moreover have "fst (prune now ns t) + map_size (snd (prune now ns t)) = map_size t"
    using sum_length_filter_compl [of "\<lambda>e. survives (at_time ns now) (snd e)" t]
    by (simp add: prune_filter [OF inv] map_size_def)
  ultimately show ?thesis ..
qed

text \<open>A known peer leaves the table only by \<open>remove\<close>, by a failure attributed to it, or by \<open>prune\<close>:
  no other sequence of calls, whatever its arguments, drops it.\<close>

theorem only_evictions_drop:
  assumes "get fp (run_calls (table_step C) before createPeerTable) \<noteq> None"
    and "list_all (\<lambda>op. \<not> evicts fp op) ops"
  shows "get fp (run_calls (table_step C) (before @ ops) createPeerTable) \<noteq> None"
proof -
  let ?t = "run_calls (table_step C) before createPeerTable"
  have "get fp ?t \<noteq> None \<longrightarrow> get fp (run_calls (table_step C) ops ?t) \<noteq> None"
  proof (rule pt.run_relates [where C = C and P = "\<lambda>op. \<not> evicts fp op"
        and R = "\<lambda>s u. get fp s \<noteq> None \<longrightarrow> get fp u \<noteq> None"])
    show "get fp s \<noteq> None \<longrightarrow> get fp (table_step C op s) \<noteq> None" if "\<not> evicts fp op" for op s
      using step_keeps that by blast
    show "table_inv C ?t" by (simp add: pt.inv_reachable)
  qed (use assms(2) in auto)
  then show ?thesis using assms(1) by (simp add: run_calls_append)
qed

definition toy_cert :: bytes where
  "toy_cert = cert_body (zeros 32) 100 @ sign toy_crypto (cert_body (zeros 32) 100) (zeros 32)"

lemma toy_cert_verifies:
  "now < 100 \<Longrightarrow> verifyCertificate toy_crypto toy_cert (zeros 32) now
    = Some \<lparr>cert_onionPk = zeros 32, cert_expirySeconds = 100\<rparr>"
proof -
  assume now: "now < 100"
  have "buildCertificate toy_crypto (zeros 32) (zeros 32) 100 = Inr toy_cert"
    unfolding toy_cert_def
    by (rule buildCertificate_layout) (simp_all add: length_sign [OF toy_sig_correct])
  then show ?thesis
    using verify_built_certificate [OF toy_sig_correct, of "zeros 32" "zeros 32" 100 toy_cert now] now
    by (simp add: toy_crypto_def pad_to_id js_number_small)
qed

definition toy_join :: "table_op list" where
  "toy_join = [AddOrUpdate 7 (zeros 32) toy_cert [] None, Connected (zeros 32)]"

lemma toy_join_get:
  "get (zeros 32) (run_calls (table_step toy_crypto) toy_join createPeerTable) \<noteq> None"
proof -
  have "fingerprint toy_crypto (zeros 32) = zeros 32"
    by (simp add: fingerprint_def blake2b256_def toy_crypto_def pad_to_id)
  then have "get (zeros 32) (snd (addOrUpdate toy_crypto 7 (zeros 32) toy_cert [] None createPeerTable)) \<noteq> None"
    by (simp add: createPeerTable_def addOrUpdate_def Let_def at_time_def toy_cert_verifies get_def jm.get_put)
  then show ?thesis by (simp add: toy_join_def markConnected_def with_peer_get del: not_None_eq)
qed

theorem only_evictions_drop_witness:
  "get (zeros 32) (run_calls (table_step toy_crypto) (toy_join @ [Unreachable 50 (zeros 32) None, Remove []])
     createPeerTable) \<noteq> None"
proof (rule only_evictions_drop [OF toy_join_get])
  have "[] \<noteq> zeros 32" by (metis length_zeros list.size(3) zero_neq_numeral)
  then show "list_all (\<lambda>op. \<not> evicts (zeros 32) op) [Unreachable 50 (zeros 32) None, Remove []]" by simp
qed

text \<open>The subject of an announcement is a peer that is not connected and is not the receiver. It is
  one never announced to the receiver if there is one, and otherwise one whose last announcement
  to it is the oldest; none is returned only when there is no such peer.\<close>

theorem announcement_subject:
  assumes "\<And>n. 0 < n \<Longrightarrow> rnd n < n"
  shows "case pickAnnouncementSubject rnd fp t of
      None \<Rightarrow> \<forall>p. \<not> candidate (keyOf fp) t p
    | Some s \<Rightarrow> \<exists>p. candidate (keyOf fp) t p \<and> s = per_fingerprint p
        \<and> (never_told (keyOf fp) p
           \<or> (\<forall>q. candidate (keyOf fp) t q \<longrightarrow>
                (\<exists>b a. map_get (per_lastAnnouncedAt p) (keyOf fp) = Some b
                  \<and> map_get (per_lastAnnouncedAt q) (keyOf fp) = Some a \<and> b \<le> a)))"
  using assms by (rule pick_subject)

definition toy_peer :: "byte \<Rightarrow> (string, int) jsmap \<Rightarrow> peer" where
  "toy_peer b told = \<lparr>per_idPk = [b], per_fingerprint = [b], per_certBytes = [], per_expirySeconds = 9,
     per_onionPk = [], per_transports = [], per_connected = False, per_lastReachableAt = None,
     per_firstUnreachableAt = None, per_keyCertSentTo = [], per_lastAnnouncedAt = told\<rparr>"

definition toy_peers :: peer_table where
  "toy_peers = [(''01'', Peer (toy_peer 1 [(''09'', 50)])), (''02'', Peer (toy_peer 2 [(''09'', 20)])),
     (''09'', Peer (toy_peer 9 []))]"

theorem announcement_subject_witness:
  "pickAnnouncementSubject (\<lambda>n. n - 1) [9] toy_peers = Some [2]
   \<and> (\<exists>p. candidate ''09'' toy_peers p \<and> [2] = per_fingerprint p)"
proof -
  have k: "keyOf [9] = ''09''" by code_simp
  have r: "pickAnnouncementSubject (\<lambda>n. n - 1) [9] toy_peers = Some [2]" by code_simp
  then show ?thesis
    using announcement_subject [of "\<lambda>n. n - 1" "[9]" toy_peers] unfolding k by auto
qed

end
