(* ===== verification/Node_Dispatcher.thy ===== *)
theory Node_Dispatcher
  imports Wire_Packet Wire_Payloads Wire_Rate_Limit Peer_Table_Props
begin

text \<open>
  \<open>modules/node/identity_cache.mjs\<close> and \<open>modules/node/dispatcher.mjs\<close>: the cache of identity keys and
  the handler of inbound packets, every packet type and every early return. The handler ends with
  at most one callback (\<open>onData\<close>, \<open>forwardSend\<close> or \<open>learnPeerOnTransport\<close>), which is its result;
  a transport is a number. The readings of the clocks are arguments: \<open>ms\<close> for the replay log, and
  \<open>clk i\<close> for the \<open>i\<close>-th call of \<open>nowSeconds\<close> and of the limiter's clock.
\<close>

section \<open>The identity cache\<close>

type_synonym identity_cache = "(string, bytes) jsmap"

definition createIdentityCache :: identity_cache where "createIdentityCache = []"

definition cache_set :: "crypto \<Rightarrow> bytes \<Rightarrow> identity_cache \<Rightarrow> identity_cache res" where
  "cache_set C idPk cache =
     (if length idPk \<noteq> 32 then Inl (Error ''idPk must be 32 bytes'')
      else Inr (map_set (toHex (fingerprint C idPk)) idPk cache))"

definition cache_get :: "bytes \<Rightarrow> identity_cache \<Rightarrow> bytes option" where
  "cache_get fp cache = map_get cache (toHex fp)"

definition cache_has :: "bytes \<Rightarrow> identity_cache \<Rightarrow> bool" where
  "cache_has fp cache = map_has cache (toHex fp)"

definition cache_size :: "identity_cache \<Rightarrow> nat" where "cache_size cache = map_size cache"

section \<open>The dispatcher\<close>


record local_identity =
  lid_idPk :: bytes
  lid_onionSk :: bytes
  lid_fingerprint :: bytes

record shared_state =
  shs_peers :: peer_table
  shs_cache :: identity_cache
  shs_log :: "replay_log option"
  shs_limiter :: limiter

datatype callback =
    On_Data bytes data_payload
  | Forward_Send bytes "transport list" bytes
  | Learn_Peer bytes nat

definition blame :: "bytes \<Rightarrow> shared_state \<Rightarrow> shared_state" where
  "blame fp s = s\<lparr>shs_peers := markInnerValidationFailed fp (shs_peers s)\<rparr>"

definition handle_data :: "decoded_packet \<Rightarrow> shared_state \<Rightarrow> callback option \<times> shared_state" where
  "handle_data packet s =
     (case parseDataPayload (pkt_payload packet) of
        None \<Rightarrow> (None, blame (pkt_senderFingerprint packet) s)
      | Some data \<Rightarrow> (Some (On_Data (pkt_senderFingerprint packet) data), s))"

definition handle_key_certificate ::
  "crypto \<Rightarrow> (nat \<Rightarrow> int) \<Rightarrow> nat option \<Rightarrow> decoded_packet \<Rightarrow> shared_state \<Rightarrow> (callback option \<times> shared_state) res" where
  "handle_key_certificate C clk senderTransport packet s =
     (case parseKeyCertificatePayload (pkt_payload packet) of
        None \<Rightarrow> Inr (None, blame (pkt_senderFingerprint packet) s)
      | Some parsed \<Rightarrow>
          if \<not> verifyKeyCertificate C parsed (pkt_senderFingerprint packet) (clk 0)
            then Inr (None, blame (pkt_senderFingerprint packet) s)
          else
            (case cache_set C (kc_idPk parsed) (shs_cache s) of
               Inl e \<Rightarrow> Inl e
             | Inr cache \<Rightarrow>
                 let s = s\<lparr>shs_cache := cache,
                       shs_peers := snd (addOrUpdate C (clk 1) (kc_idPk parsed) (kc_certBytes parsed) [] (Some (clk 1)) (shs_peers s))\<rparr>
                 in Inr (map_option (Learn_Peer (pkt_senderFingerprint packet)) senderTransport, s)))"

definition handle_announce_peer ::
  "crypto \<Rightarrow> local_identity \<Rightarrow> (nat \<Rightarrow> int) \<Rightarrow> decoded_packet \<Rightarrow> shared_state \<Rightarrow> callback option \<times> shared_state" where
  "handle_announce_peer C me clk packet s =
     (case parseAnnouncePeerPayload (pkt_payload packet) of
        None \<Rightarrow> (None, blame (pkt_senderFingerprint packet) s)
      | Some parsed \<Rightarrow>
          (case cache_get (ann_announcedFingerprint parsed) (shs_cache s) of
             None \<Rightarrow> (None, s)
           | Some announcedIdPk \<Rightarrow>
               if \<not> verifyAnnouncePeer C parsed announcedIdPk (clk 0)
                 then (None, blame (pkt_senderFingerprint packet) s)
               else
                 let peers = snd (addOrUpdate C (clk 1) announcedIdPk (ann_certBytes parsed)
                                    (ann_transports parsed) (Some (clk 1)) (shs_peers s));
                     peers = markAnnouncedTo (clk 2) (lid_fingerprint me) (ann_announcedFingerprint parsed)
                               (Some (clk 2)) peers
                 in (None, s\<lparr>shs_peers := peers\<rparr>)))"

definition handle_forward :: "(nat \<Rightarrow> int) \<Rightarrow> decoded_packet \<Rightarrow> shared_state \<Rightarrow> callback option \<times> shared_state" where
  "handle_forward clk packet s =
     (case parseForwardPayload (pkt_payload packet) of
        None \<Rightarrow> (None, blame (pkt_senderFingerprint packet) s)
      | Some parsed \<Rightarrow>
          let (accepted, l) = checkAndCount (shs_limiter s) (clk 0) (pkt_ephPk packet) (fwd_nextHopFingerprint parsed);
              s = s\<lparr>shs_limiter := l\<rparr>
          in if \<not> accepted then (None, s)
             else (Some (Forward_Send (fwd_nextHopFingerprint parsed) (fwd_transports parsed)
                           (fwd_innerPacket parsed)), s))"

definition route ::
  "crypto \<Rightarrow> local_identity \<Rightarrow> (nat \<Rightarrow> int) \<Rightarrow> nat option \<Rightarrow> decoded_packet \<Rightarrow> shared_state \<Rightarrow> (callback option \<times> shared_state) res" where
  "route C me clk senderTransport packet s =
     (if pkt_packetType packet = TYPE_RESERVED then Inr (None, s)
      else if pkt_packetType packet = TYPE_DATA then Inr (handle_data packet s)
      else if pkt_packetType packet = TYPE_KEY_CERTIFICATE
        then handle_key_certificate C clk senderTransport packet s
      else if pkt_packetType packet = TYPE_ANNOUNCE_PEER then Inr (handle_announce_peer C me clk packet s)
      else if pkt_packetType packet = TYPE_FORWARD then Inr (handle_forward clk packet s)
      else Inr (None, s))"

definition onInbound ::
  "crypto \<Rightarrow> local_identity \<Rightarrow> int \<Rightarrow> (nat \<Rightarrow> int) \<Rightarrow> bytes \<Rightarrow> nat option \<Rightarrow> shared_state \<Rightarrow> (callback option \<times> shared_state) res" where
  "onInbound C me ms clk rawBytes senderTransport s =
     (case decodePacket C (lid_idPk me) (lid_onionSk me) (shs_log s) ms rawBytes of
        Inl e \<Rightarrow> Inl e
      | Inr out \<Rightarrow>
          let s = s\<lparr>shs_log := out_log out\<rparr>;
              s = (case out_failure out of None \<Rightarrow> s | Some (senderFingerprint, reason) \<Rightarrow> blame senderFingerprint s)
          in (case out_packet out of
                None \<Rightarrow> Inr (None, s)
              | Some packet \<Rightarrow> route C me clk senderTransport packet s))"

section \<open>What the handler keeps\<close>

definition cache_inv :: "crypto \<Rightarrow> identity_cache \<Rightarrow> bool" where
  "cache_inv C cache \<longleftrightarrow> (\<forall>k idPk. map_get cache k = Some idPk \<longrightarrow> length idPk = 32 \<and> k = toHex (fingerprint C idPk))"

definition shared_inv :: "crypto \<Rightarrow> shared_state \<Rightarrow> bool" where
  "shared_inv C s \<longleftrightarrow> table_inv C (shs_peers s) \<and> cache_inv C (shs_cache s)"

lemma cache_set_inv: "cache_inv C cache \<Longrightarrow> cache_set C idPk cache = Inr cache' \<Longrightarrow> cache_inv C cache'"
  by (auto simp: cache_set_def cache_inv_def jm.get_put split: if_splits)

lemma cache_get_inv: "cache_inv C cache \<Longrightarrow> cache_get fp cache = Some idPk \<Longrightarrow> fingerprint C idPk = fp \<and> length idPk = 32"
  unfolding cache_inv_def cache_get_def by (metis toHex_eq)

lemma blame_inv: "shared_inv C s \<Longrightarrow> shared_inv C (blame fp s)"
  by (simp add: shared_inv_def blame_def evict_inv)

lemma route_inv:
  assumes "shared_inv C s" "route C me clk t packet s = Inr (cb, s')"
  shows "shared_inv C s'"
proof -
  have kc: "shared_inv C s'" if "handle_key_certificate C clk t packet s = Inr (cb, s')"
  proof (cases "parseKeyCertificatePayload (pkt_payload packet)")
    case (Some k)
    then show ?thesis
      using that assms(1) blame_inv [OF assms(1)] cache_set_inv [of C "shs_cache s" "kc_idPk k"]
      by (auto simp: handle_key_certificate_def shared_inv_def addOrUpdate_inv Let_def split: if_splits sum.splits)
  qed (use that blame_inv [OF assms(1)] in \<open>auto simp: handle_key_certificate_def\<close>)
  have "shared_inv C (snd (handle_data packet s))" "shared_inv C (snd (handle_announce_peer C me clk packet s))"
    "shared_inv C (snd (handle_forward clk packet s))"
    using assms(1) blame_inv [OF assms(1)]
    by (auto simp: handle_data_def handle_announce_peer_def handle_forward_def shared_inv_def addOrUpdate_inv
        mark_inv Let_def split: option.splits prod.splits)
  then show ?thesis
    using assms kc by (auto simp: route_def split: if_splits)
qed

lemma onInbound_inv:
  assumes "shared_inv C s" "onInbound C me ms clk raw t s = Inr (cb, s')"
  shows "shared_inv C s'"
proof -
  obtain out where d: "decodePacket C (lid_idPk me) (lid_onionSk me) (shs_log s) ms raw = Inr out"
    using assms(2) by (auto simp: onInbound_def split: sum.splits)
  let ?s = "case out_failure out of None \<Rightarrow> s\<lparr>shs_log := out_log out\<rparr>
      | Some (fp, reason) \<Rightarrow> blame fp (s\<lparr>shs_log := out_log out\<rparr>)"
  have "shared_inv C (s\<lparr>shs_log := out_log out\<rparr>)" using assms(1) by (simp add: shared_inv_def)
  then have inv: "shared_inv C ?s" by (auto simp: blame_inv split: option.split)
  show ?thesis
  proof (cases "out_packet out")
    case None
    then show ?thesis using assms(2) d inv by (simp add: onInbound_def Let_def)
  next
    case (Some packet)
    then have "route C me clk t packet ?s = Inr (cb, s')" using assms(2) d by (simp add: onInbound_def Let_def)
    then show ?thesis by (rule route_inv [OF inv])
  qed
qed

lemma onInbound_total: "\<exists>r. onInbound C me ms clk raw t s = Inr r"
proof -
  obtain out where d: "decodePacket C (lid_idPk me) (lid_onionSk me) (shs_log s) ms raw = Inr out"
    using decode_returns by blast
  have "\<exists>r. route C me clk t p s' = Inr r" for p s'
  proof -
    have "length (kc_idPk k) = 32" if "parseKeyCertificatePayload (pkt_payload p) = Some k" for k
      using kc.parse_ok [OF that] by (simp add: key_certificate_ok_def)
    then have "\<exists>r. handle_key_certificate C clk t p s' = Inr r"
      by (auto simp: handle_key_certificate_def cache_set_def Let_def split: option.split)
    then show ?thesis by (simp add: route_def)
  qed
  then show ?thesis using d by (simp add: onInbound_def Let_def split: option.split)
qed

end
