(* ===== verification/Peer_Seed.thy ===== *)
theory Peer_Seed
  imports Peer_Table_Props Wire_Payloads
begin

text \<open>
  \<open>modules/peer/seed.mjs\<close>, \<open>bootstrap.mjs\<close> and \<open>gossip.mjs\<close>: the canonical list of seed records,
  loading it into the peer table, and the plans that the node turns into dials and packets. The
  cursor loop of \<open>parseSeedList\<close> recurses on what is left of the buffer; each record takes at
  least 138 bytes, so it ends.
\<close>

section \<open>seed.mjs\<close>

record seed_record =
  sed_idPk :: bytes
  sed_certBytes :: bytes
  sed_transports :: "transport list"

definition LEN_ID_PK :: nat where [simp]: "LEN_ID_PK = 32"
definition OFFSET_TRANSPORTS :: nat where [simp]: "OFFSET_TRANSPORTS = 137"
definition MIN_RECORD_LENGTH :: nat where [simp]: "MIN_RECORD_LENGTH = OFFSET_TRANSPORTS + 1"

definition buildSeedRecord :: "seed_record \<Rightarrow> bytes res" where
  "buildSeedRecord r =
     (if length (sed_idPk r) \<noteq> LEN_ID_PK then Inl (Error ''idPk must be 32 bytes'')
      else if length (sed_certBytes r) \<noteq> CERT_BYTES then Inl (Error ''certBytes must be 105 bytes'')
      else case serializeTransports (sed_transports r) of
             Inl e \<Rightarrow> Inl e
           | Inr transportBytes \<Rightarrow>
               let buf = zeros (OFFSET_TRANSPORTS + length transportBytes);
                   buf = set_at buf 0 (sed_idPk r);
                   buf = set_at buf 32 (sed_certBytes r)
               in Inr (set_at buf OFFSET_TRANSPORTS transportBytes))"

definition parseSeedRecord :: "bytes \<Rightarrow> nat \<Rightarrow> (seed_record \<times> nat) option" where
  "parseSeedRecord buf offset =
     (if length buf < offset + MIN_RECORD_LENGTH then None
      else case parseTransports buf (offset + OFFSET_TRANSPORTS) of
             None \<Rightarrow> None
           | Some (transports, consumed) \<Rightarrow>
               Some (\<lparr>sed_idPk = subarray buf offset (offset + 32),
                      sed_certBytes = subarray buf (offset + 32) (offset + OFFSET_TRANSPORTS),
                      sed_transports = transports\<rparr>,
                     OFFSET_TRANSPORTS + consumed))"

function parseSeedList_from :: "bytes \<Rightarrow> nat \<Rightarrow> seed_record list option" where
  "parseSeedList_from buf cursor =
     (if cursor < length buf then
        (case parseSeedRecord buf cursor of
           None \<Rightarrow> None
         | Some (r, consumed) \<Rightarrow>
             (case parseSeedList_from buf (cursor + consumed) of
                None \<Rightarrow> None
              | Some rs \<Rightarrow> Some (r # rs)))
      else Some [])"
  by pat_completeness auto

lemma parseSeedRecord_consumed:
  "parseSeedRecord buf cursor = Some (r, n) \<Longrightarrow> 138 \<le> n \<and> cursor + n \<le> length buf"
  using parseTransports_sound [of buf "cursor + 137"]
  by (force simp: parseSeedRecord_def enc_transports_def split: if_splits option.splits dest: arg_cong [where f = length])

termination parseSeedList_from
  by (relation "measure (\<lambda>(buf, cursor). length buf - cursor)")
    (auto dest: parseSeedRecord_consumed)

declare parseSeedList_from.simps [simp del]

text \<open>\<open>if (!buf) return []\<close>: None is the missing buffer.\<close>

definition parseSeedList :: "bytes option \<Rightarrow> seed_record list option" where
  "parseSeedList buf = (case buf of None \<Rightarrow> Some [] | Some b \<Rightarrow> parseSeedList_from b 0)"

definition verifySeedRecord :: "crypto \<Rightarrow> seed_record \<Rightarrow> int \<Rightarrow> bool" where
  "verifySeedRecord C r nowSeconds =
     (let cert = verifyCertificate C (sed_certBytes r) (sed_idPk r) nowSeconds
      in cert \<noteq> None)"

section \<open>bootstrap.mjs\<close>

definition DEFAULT_BOOTSTRAP_K :: nat where [simp]: "DEFAULT_BOOTSTRAP_K = 8"

fun load_loop :: "crypto \<Rightarrow> int \<Rightarrow> seed_record list \<Rightarrow> int \<Rightarrow> peer_table \<Rightarrow> int \<times> peer_table" where
  "load_loop C nowSeconds [] accepted t = (accepted, t)"
| "load_loop C nowSeconds (r # rs) accepted t =
     (if \<not> verifySeedRecord C r nowSeconds then load_loop C nowSeconds rs accepted t
      else
        let (ok, t) = addOrUpdate C nowSeconds (sed_idPk r) (sed_certBytes r) (sed_transports r)
                        (Some nowSeconds) t
        in load_loop C nowSeconds rs (if ok then accepted + 1 else accepted) t)"

definition loadSeedList :: "crypto \<Rightarrow> bytes option \<Rightarrow> peer_table \<Rightarrow> int \<Rightarrow> int \<times> peer_table" where
  "loadSeedList C seedBytes t nowSeconds =
     (case parseSeedList seedBytes of
        None \<Rightarrow> (- 1, t)
      | Some records \<Rightarrow> load_loop C nowSeconds records 0 t)"

text \<open>\<open>peerTable.list()\<close> includes the record under \<open>'__self__'\<close>, which has neither field: its
  \<open>connected\<close> and its \<open>fingerprint\<close> are undefined (None).\<close>

definition slot_connected :: "slot \<Rightarrow> bool" where
  "slot_connected s = (case s of Peer p \<Rightarrow> per_connected p | Self _ \<Rightarrow> False)"

definition slot_fingerprint :: "slot \<Rightarrow> bytes option" where
  "slot_fingerprint s = (case s of Peer p \<Rightarrow> Some (per_fingerprint p) | Self _ \<Rightarrow> None)"

definition pickBootstrapDials :: "peer_table \<Rightarrow> nat \<Rightarrow> bytes option list" where
  "pickBootstrapDials t K =
     (let candidates = filter (\<lambda>p. \<not> slot_connected p) (list_slots t)
      in map slot_fingerprint (take K candidates))"

definition mustRefuseTraffic :: "peer_table \<Rightarrow> bool" where
  "mustRefuseTraffic t \<longleftrightarrow> length (connectedFingerprints t) = 0"

section \<open>gossip.mjs\<close>

definition DEFAULT_CADENCE_SECONDS :: int where [simp]: "DEFAULT_CADENCE_SECONDS = 30"

fun announce_loop ::
  "(bytes \<Rightarrow> nat \<Rightarrow> nat) \<Rightarrow> peer_table \<Rightarrow> (string, int) jsmap \<Rightarrow> int \<Rightarrow> int \<Rightarrow> bytes list \<Rightarrow> (bytes \<times> bytes) list" where
  "announce_loop rnd t lastAnnounceAt nowSeconds cadenceSeconds [] = []"
| "announce_loop rnd t lastAnnounceAt nowSeconds cadenceSeconds (recipientFp # rest) =
     (let recipientKey = toHex recipientFp;
          more = announce_loop rnd t lastAnnounceAt nowSeconds cadenceSeconds rest
      in if (case map_get lastAnnounceAt recipientKey of
               None \<Rightarrow> False
             | Some lastAt \<Rightarrow> nowSeconds - lastAt < cadenceSeconds) then more
         else case pickAnnouncementSubject (rnd recipientFp) recipientFp t of
                None \<Rightarrow> more
              | Some subjectFp \<Rightarrow> (recipientFp, subjectFp) # more)"

definition planAnnounces ::
  "(bytes \<Rightarrow> nat \<Rightarrow> nat) \<Rightarrow> peer_table \<Rightarrow> (string, int) jsmap \<Rightarrow> int \<Rightarrow> int \<Rightarrow> (bytes \<times> bytes) list" where
  "planAnnounces rnd t lastAnnounceAt nowSeconds cadenceSeconds =
     announce_loop rnd t lastAnnounceAt nowSeconds cadenceSeconds (connectedFingerprints t)"

definition planKeyCertificateSends :: "peer_table \<Rightarrow> bytes list" where
  "planKeyCertificateSends t =
     filter (\<lambda>recipientFp. \<not> hasSentKeyCertTo recipientFp t) (connectedFingerprints t)"

section \<open>The list is canonical\<close>

definition seed_ok :: "seed_record \<Rightarrow> bool" where
  "seed_ok r \<longleftrightarrow> length (sed_idPk r) = 32 \<and> length (sed_certBytes r) = 105 \<and> transports_ok (sed_transports r)"

definition enc_seed :: "seed_record \<Rightarrow> bytes" where
  "enc_seed r = sed_idPk r @ sed_certBytes r @ enc_transports (sed_transports r)"

definition dec_seed :: "bytes \<Rightarrow> nat \<Rightarrow> (seed_record \<times> nat) option" where
  "dec_seed buf off = map_option (\<lambda>(r, n). (r, off + n)) (parseSeedRecord buf off)"

lemma buildSeedRecord_iff: "seed_ok r \<and> bs = enc_seed r \<longleftrightarrow> seed_ok r \<and> buildSeedRecord r = Inr bs"
  by (auto simp: buildSeedRecord_def seed_ok_def enc_seed_def serializeTransports_layout Let_def layout)

interpretation sd: record_codec enc_seed dec_seed seed_ok
proof
  fix r pre post assume ok: "seed_ok r"
  let ?t = "enc_transports (sed_transports r)"
  have "parseTransports ((pre @ sed_idPk r @ sed_certBytes r) @ ?t @ post)
      (length (pre @ sed_idPk r @ sed_certBytes r)) = Some (sed_transports r, length ?t)"
    using ok by (intro parse_enc_transports) (simp add: seed_ok_def)
  then have t: "parseTransports (pre @ enc_seed r @ post) (length pre + 137) = Some (sed_transports r, length ?t)"
    using ok by (simp add: seed_ok_def enc_seed_def)
  obtain k where "length ?t = Suc k" by (simp add: enc_transports_def)
  then have "parseSeedRecord (pre @ enc_seed r @ post) (length pre) = Some (r, 137 + length ?t)"
    using ok t by (simp add: parseSeedRecord_def seed_ok_def enc_seed_def layout)
  then show "dec_seed (pre @ enc_seed r @ post) (length pre) = Some (r, length pre + length (enc_seed r))"
    using ok by (simp add: dec_seed_def seed_ok_def enc_seed_def)
next
  fix buf off r off' assume "dec_seed buf off = Some (r, off')"
  then obtain n where p: "parseSeedRecord buf off = Some (r, n)" and off': "off' = off + n"
    by (auto simp: dec_seed_def)
  then obtain m where len: "off + 138 \<le> length buf" and n: "n = 137 + m"
    and t: "parseTransports buf (off + 137) = Some (sed_transports r, m)"
    and f: "sed_idPk r = subarray buf off (off + 32)" "sed_certBytes r = subarray buf (off + 32) (off + 137)"
    by (auto simp: parseSeedRecord_def split: if_splits option.splits)
  have s: "transports_ok (sed_transports r) \<and> off + 137 + m \<le> length buf
      \<and> subarray buf (off + 137) (off + 137 + m) = enc_transports (sed_transports r)"
    using parseTransports_sound [OF t] by simp
  have "subarray buf off (off + 137) = sed_idPk r @ sed_certBytes r"
    using f by (simp add: subarray_join)
  then have "subarray buf off off' = enc_seed r"
    using s n off' subarray_join [of off "off + 137" "off + 137 + m" buf] by (simp add: enc_seed_def add.assoc)
  then show "seed_ok r \<and> off \<le> off' \<and> off' \<le> length buf \<and> subarray buf off off' = enc_seed r"
    using s n off' f len by (simp add: seed_ok_def)
qed

lemma parseSeedRecord_dec: "parseSeedRecord buf off = Some (r, n) \<Longrightarrow> dec_seed buf off = Some (r, off + n)"
  by (simp add: dec_seed_def)

lemma parseSeedList_from_sound:
  "parseSeedList_from buf off = Some rs \<Longrightarrow> off \<le> length buf \<Longrightarrow>
   list_all seed_ok rs \<and> subarray buf off (length buf) = concat (map enc_seed rs)"
proof (induction buf off arbitrary: rs rule: parseSeedList_from.induct)
  case (1 buf cursor)
  show ?case
  proof (cases "cursor < length buf")
    case False
    then show ?thesis using "1.prems" parseSeedList_from.simps [of buf cursor] by simp
  next
    case True
    then obtain r n rs' where p: "parseSeedRecord buf cursor = Some (r, n)"
      and rest: "parseSeedList_from buf (cursor + n) = Some rs'" and rs: "rs = r # rs'"
      using "1.prems"(1) by (auto simp: parseSeedList_from.simps [of buf cursor] split: option.splits)
    have s: "seed_ok r \<and> cursor \<le> cursor + n \<and> cursor + n \<le> length buf
        \<and> subarray buf cursor (cursor + n) = enc_seed r"
      by (rule sd.dec_sound [OF parseSeedRecord_dec [OF p]])
    have "list_all seed_ok rs' \<and> subarray buf (cursor + n) (length buf) = concat (map enc_seed rs')"
      using "1.IH" [OF True p refl rest] s by simp
    then show ?thesis
      using s rs subarray_join [of cursor "cursor + n" "length buf" buf] by simp
  qed
qed

lemma length_enc_seed: "seed_ok r \<Longrightarrow> 138 \<le> length (enc_seed r)"
  by (simp add: enc_seed_def seed_ok_def enc_transports_def)

lemma parseSeedList_from_enc:
  "list_all seed_ok rs \<Longrightarrow> parseSeedList_from (pre @ concat (map enc_seed rs)) (length pre) = Some rs"
proof (induction rs arbitrary: pre)
  case Nil
  then show ?case by (simp add: parseSeedList_from.simps)
next
  case (Cons r rs)
  let ?buf = "pre @ enc_seed r @ concat (map enc_seed rs)"
  have "dec_seed ?buf (length pre) = Some (r, length pre + length (enc_seed r))"
    using Cons.prems by (intro sd.dec_enc) simp
  then have p: "parseSeedRecord ?buf (length pre) = Some (r, length (enc_seed r))"
    by (auto simp: dec_seed_def)
  have "parseSeedList_from ((pre @ enc_seed r) @ concat (map enc_seed rs)) (length (pre @ enc_seed r)) = Some rs"
    using Cons.prems by (intro Cons.IH) simp
  then show ?case
    using p Cons.prems length_enc_seed [of r]
    by (subst parseSeedList_from.simps) (cases "enc_seed r"; simp)
qed

text \<open>The seed list is canonical: a byte string parses to a list of records exactly when it is the
  concatenation of what the builder writes for each of them, all well-formed. Anything else,
  trailing bytes included, is refused.\<close>

theorem seed_list_canonical:
  "parseSeedList (Some buf) = Some rs
   \<longleftrightarrow> list_all seed_ok rs \<and> (\<exists>bss. map buildSeedRecord rs = map Inr bss \<and> buf = concat bss)"
proof -
  have "parseSeedList (Some buf) = Some rs \<longleftrightarrow> list_all seed_ok rs \<and> buf = concat (map enc_seed rs)"
    using parseSeedList_from_sound [of buf 0 rs] parseSeedList_from_enc [of rs "[]"]
    by (auto simp: parseSeedList_def subarray_all)
  moreover have "list_all seed_ok rs \<Longrightarrow> map buildSeedRecord rs = map Inr (map enc_seed rs)"
    using buildSeedRecord_iff by (fastforce simp: list_all_iff)
  moreover have "map Inr xs = map Inr ys \<Longrightarrow> xs = ys" for xs ys :: "bytes list"
    by (metis inj_Inr inj_map_eq_map)
  ultimately show ?thesis by metis
qed

section \<open>Loading\<close>

lemma table_inv_not_self: "table_inv C t \<Longrightarrow> map_get t (toHex fp) \<noteq> Some (Self s)"
proof
  assume "table_inv C t" and m: "map_get t (toHex fp) = Some (Self s)"
  then have "slot_ok C (toHex fp) (Self s)" unfolding table_inv_def by blast
  then show False using toHex_not_self by (simp add: slot_ok_def SELF_KEY_def)
qed

lemma addOrUpdate_entry:
  "table_inv C t \<Longrightarrow> verifyCertificate C cert idPk ts = Some f \<Longrightarrow>
   fst (addOrUpdate C now idPk cert tr (Some ts) t)
   \<and> (\<exists>p. get (fingerprint C idPk) (snd (addOrUpdate C now idPk cert tr (Some ts) t)) = Some p)"
  using table_inv_not_self [of C t "fingerprint C idPk"]
  by (auto simp: addOrUpdate_def at_time_def Let_def get_def jm.get_put keyOf_def
      split: option.splits slot.splits)

lemma addOrUpdate_new:
  "get g (snd (addOrUpdate C now idPk cert tr ns t)) \<noteq> None \<Longrightarrow> get g t = None \<Longrightarrow> g = fingerprint C idPk"
  by (auto simp: addOrUpdate_def Let_def get_def jm.get_put keyOf_def toHex_eq
      split: option.splits slot.splits if_splits)

lemma load_loop_spec:
  "load_loop C now rs acc t = (n, u) \<Longrightarrow> table_inv C t \<Longrightarrow>
   table_inv C u \<and> n = acc + int (length (filter (\<lambda>r. verifySeedRecord C r now) rs))
   \<and> (\<forall>g. get g u \<noteq> None \<longleftrightarrow> get g t \<noteq> None
        \<or> (\<exists>r\<in>set rs. verifySeedRecord C r now \<and> g = fingerprint C (sed_idPk r)))"
proof (induction rs arbitrary: acc t)
  case Nil
  then show ?case by simp
next
  case (Cons r rs)
  show ?case
  proof (cases "verifySeedRecord C r now")
    case False
    then show ?thesis using Cons by auto
  next
    case True
    obtain b t' where a: "addOrUpdate C now (sed_idPk r) (sed_certBytes r) (sed_transports r) (Some now) t = (b, t')"
      by fastforce
    obtain f where "verifyCertificate C (sed_certBytes r) (sed_idPk r) now = Some f"
      using True by (auto simp: verifySeedRecord_def)
    from addOrUpdate_entry [OF Cons.prems(2) this, of now "sed_transports r"]
    have b: b and new: "get (fingerprint C (sed_idPk r)) t' \<noteq> None" by (auto simp: a)
    have inv: "table_inv C t'"
      using addOrUpdate_inv [OF Cons.prems(2)] a by (metis snd_conv)
    have old: "get g t' \<noteq> None \<longleftrightarrow> get g t \<noteq> None \<or> g = fingerprint C (sed_idPk r)" for g
      using new addOrUpdate_get [of g t C now "sed_idPk r" "sed_certBytes r" "sed_transports r" "Some now"]
        addOrUpdate_new [of g C now "sed_idPk r" "sed_certBytes r" "sed_transports r" "Some now" t] a
      by (metis snd_conv)
    have "load_loop C now rs (acc + 1) t' = (n, u)" using Cons.prems(1) True a b by simp
    from Cons.IH [OF this inv] show ?thesis using True old by auto
  qed
qed

text \<open>Loading a seed list adds exactly the peers of its verified records: it returns -1 and changes
  nothing when the bytes do not parse, and otherwise the number of records whose certificate
  verifies, and the fingerprints known afterwards are those known before and theirs.\<close>

theorem load_seed_list:
  fixes C ops
  defines "t \<equiv> run_calls (table_step C) ops createPeerTable"
  shows "case parseSeedList bytes of
      None \<Rightarrow> loadSeedList C bytes t now = (- 1, t)
    | Some rs \<Rightarrow>
        fst (loadSeedList C bytes t now) = int (length (filter (\<lambda>r. verifySeedRecord C r now) rs))
        \<and> {g. get g (snd (loadSeedList C bytes t now)) \<noteq> None}
          = {g. get g t \<noteq> None} \<union> (\<lambda>r. fingerprint C (sed_idPk r)) ` {r \<in> set rs. verifySeedRecord C r now}"
proof (cases "parseSeedList bytes")
  case None
  then show ?thesis by (simp add: loadSeedList_def)
next
  case (Some rs)
  obtain n u where l: "load_loop C now rs 0 t = (n, u)" by fastforce
  have "table_inv C t" unfolding t_def by (simp add: pt.inv_reachable)
  from load_loop_spec [OF l this] show ?thesis
    using Some l by (auto simp: loadSeedList_def image_iff simp del: not_None_eq)
qed

section \<open>Gossip\<close>

lemma connectedFingerprints_iff:
  "f \<in> set (connectedFingerprints t) \<longleftrightarrow> (\<exists>k p. (k, Peer p) \<in> set t \<and> per_connected p \<and> f = per_fingerprint p)"
  by (induction t rule: connectedFingerprints.induct) auto

lemma announce_loop_sound:
  "(r, s) \<in> set (announce_loop rnd t lastAt now cad fps) \<Longrightarrow>
   r \<in> set fps \<and> pickAnnouncementSubject (rnd r) r t = Some s
   \<and> (\<forall>at. map_get lastAt (toHex r) = Some at \<longrightarrow> cad \<le> now - at)"
  by (induction fps) (auto simp: Let_def split: option.splits if_splits)

lemma candidate_not_receiver:
  "table_inv C t \<Longrightarrow> candidate (keyOf r) t p \<Longrightarrow> per_fingerprint p \<noteq> r"
proof -
  assume inv: "table_inv C t" and "candidate (keyOf r) t p"
  then obtain k where k: "(k, Peer p) \<in> set t" "k \<noteq> keyOf r" by (auto simp: candidate_def)
  then have "map_get t k = Some (Peer p)" using inv by (simp add: table_inv_def map_mem_get)
  then have "slot_ok C k (Peer p)" using inv unfolding table_inv_def by blast
  then show ?thesis using k by (auto simp: slot_ok_def peer_ok_def keyOf_def)
qed

text \<open>Every planned announcement goes to a connected peer, about another peer that is known and not
  connected, and respects the cadence of the receiver.\<close>

theorem plan_announces_sound:
  fixes C ops
  defines "t \<equiv> run_calls (table_step C) ops createPeerTable"
  assumes rnd: "\<And>r n. 0 < n \<Longrightarrow> rnd r n < n"
    and plan: "(r, s) \<in> set (planAnnounces rnd t lastAt now cadence)"
  shows "r \<in> set (connectedFingerprints t) \<and> r \<noteq> s
    \<and> (\<exists>p. candidate (keyOf r) t p \<and> per_fingerprint p = s)
    \<and> (case map_get lastAt (toHex r) of None \<Rightarrow> True | Some at \<Rightarrow> cadence \<le> now - at)"
proof -
  have inv: "table_inv C t" unfolding t_def by (simp add: pt.inv_reachable)
  have l: "r \<in> set (connectedFingerprints t)" "pickAnnouncementSubject (rnd r) r t = Some s"
      "\<forall>at. map_get lastAt (toHex r) = Some at \<longrightarrow> cadence \<le> now - at"
    using announce_loop_sound [OF plan [unfolded planAnnounces_def]] by simp_all
  obtain p where p: "candidate (keyOf r) t p" "s = per_fingerprint p"
    using pick_subject [of "rnd r" r t] rnd l(2) by auto
  have "r \<noteq> s" using candidate_not_receiver [OF inv p(1)] p(2) by simp
  then show ?thesis using l p by (auto split: option.splits)
qed

text \<open>A table with a connected peer and a known one.\<close>

definition toy_cert_of :: "bytes \<Rightarrow> bytes" where
  "toy_cert_of sk = cert_body (zeros 32) 100 @ sign toy_crypto (cert_body (zeros 32) 100) sk"

lemma toy_cert_of_verifies:
  "length sk = 32 \<Longrightarrow> now < 100 \<Longrightarrow> verifyCertificate toy_crypto (toy_cert_of sk) sk now
    = Some \<lparr>cert_onionPk = zeros 32, cert_expirySeconds = 100\<rparr>"
proof -
  assume sk: "length sk = 32" and now: "now < 100"
  have "buildCertificate toy_crypto sk (zeros 32) 100 = Inr (toy_cert_of sk)"
    unfolding toy_cert_of_def
    by (rule buildCertificate_layout) (simp_all add: length_sign [OF toy_sig_correct] sk)
  then show ?thesis
    using verify_built_certificate [OF toy_sig_correct sk, of "zeros 32" 100 "toy_cert_of sk" now] now sk
    by (simp add: toy_crypto_def pad_to_id js_number_small)
qed

definition toy_id :: "byte \<Rightarrow> bytes" where
  "toy_id b = b # zeros 31"

definition toy_ops :: "table_op list" where
  "toy_ops = [AddOrUpdate 7 (toy_id 1) (toy_cert_of (toy_id 1)) [] None,
     AddOrUpdate 7 (toy_id 2) (toy_cert_of (toy_id 2)) [] None, Connected (toy_id 1)]"

definition toy_entry :: "byte \<Rightarrow> bool \<Rightarrow> peer" where
  "toy_entry b c = \<lparr>per_idPk = toy_id b, per_fingerprint = toy_id b, per_certBytes = toy_cert_of (toy_id b),
     per_expirySeconds = 100, per_onionPk = zeros 32, per_transports = [], per_connected = c,
     per_lastReachableAt = None, per_firstUnreachableAt = None, per_keyCertSentTo = [],
     per_lastAnnouncedAt = []\<rparr>"

lemma toy_table:
  "run_calls (table_step toy_crypto) toy_ops createPeerTable
    = [(toHex (toy_id 1), Peer (toy_entry 1 True)), (toHex (toy_id 2), Peer (toy_entry 2 False))]"
proof -
  have fp: "fingerprint toy_crypto (toy_id b) = toy_id b" for b
    by (simp add: fingerprint_def blake2b256_def toy_crypto_def pad_to_id toy_id_def)
  have len: "length (toy_id b) = 32" for b by (simp add: toy_id_def)
  have ne: "toy_id 1 \<noteq> toy_id 2" by (simp add: toy_id_def)
  show ?thesis
    using ne
    by (simp add: toy_ops_def addOrUpdate_def Let_def at_time_def toy_cert_of_verifies len fp keyOf_def
        createPeerTable_def map_get_def map_set_def markConnected_def with_peer_def get_def toHex_eq
        toy_entry_def)
qed

theorem plan_announces_sound_witness:
  "(toy_id 1, toy_id 2) \<in> set (planAnnounces (\<lambda>_ n. n - 1)
      (run_calls (table_step toy_crypto) toy_ops createPeerTable) [(toHex (toy_id 1), 10)] 40 30)
   \<and> toy_id 1 \<noteq> toy_id 2
   \<and> (\<exists>p. candidate (keyOf (toy_id 1)) (run_calls (table_step toy_crypto) toy_ops createPeerTable) p
        \<and> per_fingerprint p = toy_id 2)"
proof -
  have m: "(toy_id 1, toy_id 2) \<in> set (planAnnounces (\<lambda>_ n. n - 1)
      (run_calls (table_step toy_crypto) toy_ops createPeerTable) [(toHex (toy_id 1), 10)] 40 30)"
    using toHex_eq [of "toy_id 1" "toy_id 2"]
    by (simp add: toy_table planAnnounces_def toy_entry_def map_get_def pickAnnouncementSubject_def
        keyOf_def toy_id_def)
  then show ?thesis
    using plan_announces_sound [of "\<lambda>_ n. n - 1" "toy_id 1" "toy_id 2"] by simp
qed

text \<open>The record under \<open>'__self__'\<close> is among the candidates of \<open>pickBootstrapDials\<close>: once a
  certificate has been sent to someone, a fingerprint that is undefined is planned as a dial.\<close>

lemma bootstrap_dials_undefined:
  "pickBootstrapDials (markKeyCertSentTo fp createPeerTable) DEFAULT_BOOTSTRAP_K = [None]"
  by (simp add: pickBootstrapDials_def markKeyCertSentTo_def self_record_def createPeerTable_def
      map_set_def list_slots_def slot_connected_def slot_fingerprint_def)

end
