(* ===== verification/Effects.thy ===== *)
theory Effects
  imports Prelude
begin

text \<open>
  Operations with effects. An operation returns its value or the error it throws, the list of what it
  did to the outside, and the state, which keeps what was done before a throw.
\<close>

type_synonym ('a, 'e, 's) effectful = "'a res \<times> 'e list \<times> 's"

definition ret :: "'a \<Rightarrow> 's \<Rightarrow> ('a, 'e, 's) effectful" where "ret x s = (Inr x, [], s)"

definition throw :: "js_error \<Rightarrow> 's \<Rightarrow> ('a, 'e, 's) effectful" where "throw e s = (Inl e, [], s)"

definition emit :: "'e \<Rightarrow> 's \<Rightarrow> (unit, 'e, 's) effectful" where "emit e s = (Inr (), [e], s)"

definition update :: "('s \<Rightarrow> 's) \<Rightarrow> 's \<Rightarrow> (unit, 'e, 's) effectful" where "update f s = (Inr (), [], f s)"

definition seq :: "('a, 'e, 's) effectful \<Rightarrow> ('a \<Rightarrow> 's \<Rightarrow> ('b, 'e, 's) effectful) \<Rightarrow> ('b, 'e, 's) effectful" where
  "seq a k =
     (case a of
        (Inl e, es, s) \<Rightarrow> (Inl e, es, s)
      | (Inr x, es, s) \<Rightarrow> (case k x s of (y, fs, s) \<Rightarrow> (y, es @ fs, s)))"

text \<open>\<open>try { ... } catch { }\<close>: the error is dropped, what was done stays.\<close>

definition swallow :: "(unit, 'e, 's) effectful \<Rightarrow> (unit, 'e, 's) effectful" where
  "swallow a = (case a of (r, es, s) \<Rightarrow> (Inr (), es, s))"

text \<open>\<open>for (const x of xs) f(x);\<close>\<close>

fun for_each :: "('x \<Rightarrow> 's \<Rightarrow> (unit, 'e, 's) effectful) \<Rightarrow> 'x list \<Rightarrow> 's \<Rightarrow> (unit, 'e, 's) effectful" where
  "for_each f [] s = ret () s"
| "for_each f (x # xs) s = seq (f x s) (\<lambda>_. for_each f xs)"

text \<open>A value or error computed without effects.\<close>

definition lift :: "'a res \<Rightarrow> 's \<Rightarrow> ('a, 'e, 's) effectful" where "lift r s = (r, [], s)"

section \<open>What an operation guarantees\<close>

text \<open>\<open>sound I E a\<close>: the state after it, whether or not it throws, satisfies \<open>I\<close>, and every effect \<open>E\<close>;
  \<open>good I E a\<close>: moreover it does not throw.\<close>

definition sound :: "('s \<Rightarrow> bool) \<Rightarrow> ('e \<Rightarrow> bool) \<Rightarrow> ('a, 'e, 's) effectful \<Rightarrow> bool" where
  "sound I E a \<longleftrightarrow> I (snd (snd a)) \<and> list_all E (fst (snd a))"

definition good :: "('s \<Rightarrow> bool) \<Rightarrow> ('e \<Rightarrow> bool) \<Rightarrow> ('a, 'e, 's) effectful \<Rightarrow> bool" where
  "good I E a \<longleftrightarrow> sound I E a \<and> (\<exists>x. fst a = Inr x)"

lemma good_sound: "good I E a \<Longrightarrow> sound I E a" by (simp add: good_def)

lemma good_ret [intro]: "I s \<Longrightarrow> good I E (ret x s)" by (simp add: good_def sound_def ret_def)

lemma good_emit [intro]: "I s \<Longrightarrow> E e \<Longrightarrow> good I E (emit e s)" by (simp add: good_def sound_def emit_def)

lemma good_update [intro]: "I (f s) \<Longrightarrow> good I E (update f s)" by (simp add: good_def sound_def update_def)

lemma sound_throw [intro]: "I s \<Longrightarrow> sound I E (throw e s)" by (simp add: sound_def throw_def)

lemma good_lift: "I s \<Longrightarrow> good I E (lift (Inr x) s)" by (simp add: good_def sound_def lift_def)

lemma good_mono: "good J F a \<Longrightarrow> (\<And>s. J s \<Longrightarrow> I s) \<Longrightarrow> (\<And>e. F e \<Longrightarrow> E e) \<Longrightarrow> good I E a"
  by (auto simp: good_def sound_def list_all_iff)

lemma sound_mono: "sound J F a \<Longrightarrow> (\<And>s. J s \<Longrightarrow> I s) \<Longrightarrow> (\<And>e. F e \<Longrightarrow> E e) \<Longrightarrow> sound I E a"
  by (auto simp: sound_def list_all_iff)

lemma good_swallow: "sound I E a \<Longrightarrow> good I E (swallow a)"
  by (cases a) (simp add: good_def sound_def swallow_def)

lemma good_seq:
  assumes "good J E a" "\<And>x s. J s \<Longrightarrow> good I E (k x s)"
  shows "good I E (seq a k)"
proof (cases a)
  case (fields r es s)
  then obtain x where "r = Inr x" "J s" "list_all E es" using assms(1) by (auto simp: good_def sound_def)
  then show ?thesis
    using assms(2) [of s x] fields by (auto simp: seq_def good_def sound_def split: prod.splits)
qed

lemma sound_seq:
  assumes "sound J E a" "\<And>x s. J s \<Longrightarrow> sound I E (k x s)" "\<And>s. J s \<Longrightarrow> I s"
  shows "sound I E (seq a k)"
proof (cases a)
  case (fields r es s)
  have "J s" "list_all E es" using assms(1) fields by (simp_all add: sound_def)
  then show ?thesis
    using assms(2) [of s] assms(3) [of s] fields
    by (cases r) (simp_all add: seq_def sound_def split: prod.splits, metis fst_conv snd_conv)
qed

lemma good_for_each:
  "(\<And>x s. x \<in> set xs \<Longrightarrow> I s \<Longrightarrow> good I E (f x s)) \<Longrightarrow> I s \<Longrightarrow> good I E (for_each f xs s)"
proof (induction xs arbitrary: s)
  case (Cons x xs)
  have "good I E (seq (f x s) (\<lambda>_. for_each f xs))" using Cons by (intro good_seq [where J = I]) auto
  then show ?case by simp
qed (simp add: good_ret)

lemma sound_for_each:
  "(\<And>x s. x \<in> set xs \<Longrightarrow> I s \<Longrightarrow> sound I E (f x s)) \<Longrightarrow> I s \<Longrightarrow> sound I E (for_each f xs s)"
proof (induction xs arbitrary: s)
  case (Cons x xs)
  have "sound I E (seq (f x s) (\<lambda>_. for_each f xs))" using Cons by (intro sound_seq [where J = I]) auto
  then show ?case by simp
qed (simp add: good_sound good_ret)

text \<open>Sequencing written out, for evaluation.\<close>

lemma seq_ret [simp]: "seq (ret x s) k = k x s" by (simp add: seq_def ret_def split: prod.splits)

lemma seq_emit: "seq (emit e s) k = (case k () s of (y, fs, s) \<Rightarrow> (y, e # fs, s))"
  by (simp add: seq_def emit_def)

end
