(* ===== verification/Node.thy ===== *)
theory Node
  imports Node_Dispatcher Peer_Seed Effects
begin

text \<open>
  \<open>modules/node/node.mjs\<close>: the node, which ties the identity, the peer table, the identity cache, the
  dispatcher and the live transports together. A transport is a number; \<open>onClose\<close> of a transport
  holds one handler, the last one registered, as in \<open>transport_websocket.mjs\<close>, where also a local
  \<open>close()\<close> does not run it. What the node does to the outside (frames, closes, callbacks) is a
  list of effects. An operation returns its value or the error it throws, its effects and the
  state, which keeps what was done before a throw. Clock readings and random draws are arguments.
\<close>

section \<open>State\<close>

datatype close_handler = Close_Bound bytes | Close_Pending

record node =
  nod_me :: local_identity
  nod_certBytes :: bytes
  nod_shared :: shared_state
  nod_transports :: "(string, nat) jsmap"
  nod_pending :: "nat list"
  nod_verified :: "nat list"
  nod_advertised :: "string list"
  nod_announceCadence :: "(string, int) jsmap"
  nod_closers :: "(nat, close_handler) jsmap"

datatype effect =
    Sent nat bytes
  | Closed_Transport nat
  | Peer_Connected bytes
  | Peer_Disconnected bytes
  | Data_Received bytes data_payload

type_synonym 'a act = "('a, effect, node) effectful"

definition on_peers :: "(peer_table \<Rightarrow> peer_table) \<Rightarrow> node \<Rightarrow> node" where
  "on_peers f n = n\<lparr>nod_shared := (nod_shared n)\<lparr>shs_peers := f (shs_peers (nod_shared n))\<rparr>\<rparr>"

definition peers_of :: "node \<Rightarrow> peer_table" where "peers_of n = shs_peers (nod_shared n)"

text \<open>The map and the empty stores of \<open>createNode\<close>, and its own identity in the cache.\<close>

definition createNode ::
  "crypto \<Rightarrow> local_identity \<Rightarrow> peer_table \<Rightarrow> identity_cache \<Rightarrow> bytes \<Rightarrow> replay_log \<Rightarrow> limiter \<Rightarrow> node res" where
  "createNode C me peers cache certBytes log l =
     (case cache_set C (lid_idPk me) cache of
        Inl e \<Rightarrow> Inl e
      | Inr cache \<Rightarrow> Inr \<lparr>nod_me = me, nod_certBytes = certBytes,
          nod_shared = \<lparr>shs_peers = peers, shs_cache = cache, shs_log = Some log, shs_limiter = l\<rparr>,
          nod_transports = [], nod_pending = [], nod_verified = [], nod_advertised = [],
          nod_announceCadence = [], nod_closers = []\<rparr>)"

section \<open>Connections\<close>

definition emitDisconnect :: "bytes \<Rightarrow> node \<Rightarrow> unit act" where
  "emitDisconnect peerFp n =
     (let key = toHex peerFp
      in if key \<notin> set (nod_advertised n) then ret () n
         else emit (Peer_Disconnected peerFp) (n\<lparr>nod_advertised := removeAll key (nod_advertised n)\<rparr>))"

definition forwardSend :: "bytes \<Rightarrow> bytes \<Rightarrow> node \<Rightarrow> unit act" where
  "forwardSend nextHopFingerprint innerPacket n =
     (case map_get (nod_transports n) (toHex nextHopFingerprint) of
        None \<Rightarrow> ret () n
      | Some t \<Rightarrow> emit (Sent t innerPacket) n)"

definition attach :: "int \<Rightarrow> bytes \<Rightarrow> nat \<Rightarrow> node \<Rightarrow> unit act" where
  "attach now peerFp t n =
     update (on_peers (markReachable now peerFp (Some now)) \<circ> on_peers (markConnected peerFp))
       (n\<lparr>nod_transports := map_set (toHex peerFp) t (nod_transports n),
          nod_closers := map_set t (Close_Bound peerFp) (nod_closers n)\<rparr>)"

definition acceptInbound :: "nat \<Rightarrow> node \<Rightarrow> unit act" where
  "acceptInbound t n =
     update id (n\<lparr>nod_pending := List.insert t (nod_pending n),
                  nod_closers := map_set t Close_Pending (nod_closers n)\<rparr>)"

text \<open>What the close handler does when the transport closes.\<close>

definition transportClosed :: "nat \<Rightarrow> node \<Rightarrow> unit act" where
  "transportClosed t n =
     (case map_get (nod_closers n) t of
        None \<Rightarrow> ret () n
      | Some Close_Pending \<Rightarrow> update id (n\<lparr>nod_pending := removeAll t (nod_pending n)\<rparr>)
      | Some (Close_Bound peerFp) \<Rightarrow>
          if map_get (nod_transports n) (toHex peerFp) = Some t
            then emitDisconnect peerFp (on_peers (markDisconnected peerFp)
                   (n\<lparr>nod_transports := map_delete (toHex peerFp) (nod_transports n)\<rparr>))
          else ret () n)"

definition promotePending :: "int \<Rightarrow> bytes \<Rightarrow> nat \<Rightarrow> node \<Rightarrow> unit act" where
  "promotePending now peerFp t n =
     (if t \<in> set (nod_verified n) then ret () n
      else
        let n = n\<lparr>nod_verified := t # nod_verified n\<rparr>;
            key = toHex peerFp;
            n = (if map_get (nod_transports n) key \<noteq> Some t
                 then n\<lparr>nod_pending := removeAll t (nod_pending n),
                        nod_transports := map_set key t (nod_transports n),
                        nod_closers := map_set t (Close_Bound peerFp) (nod_closers n)\<rparr>
                 else n);
            n = on_peers (markReachable now peerFp (Some now)) (on_peers (markConnected peerFp) n)
        in if key \<in> set (nod_advertised n) then ret () n
           else emit (Peer_Connected peerFp) (n\<lparr>nod_advertised := nod_advertised n @ [key]\<rparr>))"

definition detach :: "bytes \<Rightarrow> node \<Rightarrow> unit act" where
  "detach peerFp n =
     (let key = toHex peerFp
      in case map_get (nod_transports n) key of
           Some t \<Rightarrow>
             seq (emit (Closed_Transport t) (n\<lparr>nod_transports := map_delete key (nod_transports n)\<rparr>))
               (\<lambda>_ n. emitDisconnect peerFp (on_peers (markDisconnected peerFp) n))
         | None \<Rightarrow> emitDisconnect peerFp (on_peers (markDisconnected peerFp) n))"

text \<open>A frame on a transport: the dispatcher, then the callback it ends with.\<close>

definition onMessage :: "crypto \<Rightarrow> int \<Rightarrow> (nat \<Rightarrow> int) \<Rightarrow> nat \<Rightarrow> bytes \<Rightarrow> node \<Rightarrow> unit act" where
  "onMessage C ms clk t raw n =
     (case onInbound C (nod_me n) ms clk raw (Some t) (nod_shared n) of
        Inl e \<Rightarrow> (Inl e, [], n)
      | Inr (cb, s) \<Rightarrow>
          (let n = n\<lparr>nod_shared := s\<rparr>
           in case cb of
                None \<Rightarrow> ret () n
              | Some (On_Data fp d) \<Rightarrow> emit (Data_Received fp d) n
              | Some (Forward_Send fp ts innerPacket) \<Rightarrow> forwardSend fp innerPacket n
              | Some (Learn_Peer fp t) \<Rightarrow> promotePending (clk 2) fp t n))"

section \<open>Sending\<close>

record send_draws =
  sdr_rng :: "nat \<Rightarrow> bytes"
  sdr_nonce :: bytes

definition sendTyped :: "crypto \<Rightarrow> send_draws \<Rightarrow> bytes \<Rightarrow> nat \<Rightarrow> bytes \<Rightarrow> node \<Rightarrow> bool act" where
  "sendTyped C d recipientFp packetType payload n =
     (case get recipientFp (peers_of n) of
        None \<Rightarrow> ret False n
      | Some p \<Rightarrow>
          (case map_get (nod_transports n) (toHex recipientFp) of
             None \<Rightarrow> ret False n
           | Some t \<Rightarrow>
               (case encodePacket C (sdr_rng d) (sdr_nonce d) \<lparr>snd_recipientIdPk = per_idPk p,
                       snd_recipientOnionPk = per_onionPk p, snd_senderFingerprint = lid_fingerprint (nod_me n),
                       snd_packetType = packetType, snd_payload = payload\<rparr> of
                  Inl e \<Rightarrow> (Inl e, [], n)
                | Inr packet \<Rightarrow> seq (emit (Sent t packet) n) (\<lambda>_. ret True))))"

definition send :: "crypto \<Rightarrow> send_draws \<Rightarrow> bytes \<Rightarrow> data_payload \<Rightarrow> node \<Rightarrow> bool act" where
  "send C d recipientFp data n =
     (if mustRefuseTraffic (peers_of n) then ret False n
      else
        (case buildDataPayload data of
           Inl e \<Rightarrow> (Inl e, [], n)
         | Inr payload \<Rightarrow> sendTyped C d recipientFp TYPE_DATA payload n))"

definition sendKeyCertificate :: "crypto \<Rightarrow> send_draws \<Rightarrow> bytes \<Rightarrow> node \<Rightarrow> bool act" where
  "sendKeyCertificate C d recipientFp n =
     (case buildKeyCertificatePayload \<lparr>kc_idPk = lid_idPk (nod_me n), kc_certBytes = nod_certBytes n\<rparr> of
        Inl e \<Rightarrow> (Inl e, [], n)
      | Inr payload \<Rightarrow>
          seq (sendTyped C d recipientFp TYPE_KEY_CERTIFICATE payload n)
            (\<lambda>ok n. if ok then ret ok (on_peers (markKeyCertSentTo recipientFp) n) else ret ok n))"

definition sendAnnouncePeer :: "crypto \<Rightarrow> send_draws \<Rightarrow> int \<Rightarrow> int \<Rightarrow> bytes \<Rightarrow> bytes \<Rightarrow> node \<Rightarrow> bool act" where
  "sendAnnouncePeer C d now1 now2 recipientFp subjectFp n =
     (case get subjectFp (peers_of n) of
        None \<Rightarrow> ret False n
      | Some subject \<Rightarrow>
          (case buildAnnouncePeerPayload \<lparr>ann_announcedFingerprint = per_fingerprint subject,
                  ann_certBytes = per_certBytes subject, ann_transports = per_transports subject\<rparr> of
             Inl e \<Rightarrow> (Inl e, [], n)
           | Inr payload \<Rightarrow>
               seq (sendTyped C d recipientFp TYPE_ANNOUNCE_PEER payload n)
                 (\<lambda>ok n. if ok
                    then ret ok ((on_peers (markAnnouncedTo now1 recipientFp subjectFp (Some now1)) n)
                           \<lparr>nod_announceCadence := map_set (toHex recipientFp) now2 (nod_announceCadence n)\<rparr>)
                    else ret ok n)))"

definition forward :: "crypto \<Rightarrow> send_draws \<Rightarrow> bytes \<Rightarrow> bytes \<Rightarrow> transport list \<Rightarrow> bytes \<Rightarrow> node \<Rightarrow> bool act" where
  "forward C d forwarderFp nextHopFp hopTransports innerPacket n =
     (case buildForwardPayload \<lparr>fwd_nextHopFingerprint = nextHopFp, fwd_transports = hopTransports,
             fwd_innerPacket = innerPacket\<rparr> of
        Inl e \<Rightarrow> (Inl e, [], n)
      | Inr payload \<Rightarrow> sendTyped C d forwarderFp TYPE_FORWARD payload n)"

text \<open>\<open>tick\<close>: the plan of certificates is made and sent, then the plan of announcements; \<open>d i\<close>, \<open>clk i\<close>
  are the draws and readings of the \<open>i\<close>-th send.\<close>

fun send_certificates :: "crypto \<Rightarrow> (nat \<Rightarrow> send_draws) \<Rightarrow> nat \<Rightarrow> bytes list \<Rightarrow> node \<Rightarrow> unit act" where
  "send_certificates C d i [] n = ret () n"
| "send_certificates C d i (fp # fps) n =
     seq (sendKeyCertificate C (d i) fp n) (\<lambda>_. send_certificates C d (i + 1) fps)"

fun send_announces :: "crypto \<Rightarrow> (nat \<Rightarrow> send_draws) \<Rightarrow> (nat \<Rightarrow> int) \<Rightarrow> nat \<Rightarrow> (bytes \<times> bytes) list \<Rightarrow> node \<Rightarrow> unit act" where
  "send_announces C d clk i [] n = ret () n"
| "send_announces C d clk i ((recipientFp, subjectFp) # plan) n =
     seq (sendAnnouncePeer C (d i) (clk (2 * i)) (clk (2 * i + 1)) recipientFp subjectFp n)
       (\<lambda>_. send_announces C d clk (i + 1) plan)"

definition tick ::
  "crypto \<Rightarrow> (nat \<Rightarrow> send_draws) \<Rightarrow> (nat \<Rightarrow> send_draws) \<Rightarrow> (bytes \<Rightarrow> nat \<Rightarrow> nat) \<Rightarrow> int \<Rightarrow> (nat \<Rightarrow> int) \<Rightarrow> node \<Rightarrow> unit act" where
  "tick C d1 d2 rnd now clk n =
     seq (send_certificates C d1 0 (planKeyCertificateSends (peers_of n)) n)
       (\<lambda>_ n. send_announces C d2 clk 0
          (planAnnounces rnd (peers_of n) (nod_announceCadence n) now DEFAULT_CADENCE_SECONDS) n)"

end
