(* ===== verification/Node_Props.thy ===== *)
theory Node_Props
  imports Node
begin

text \<open>
  What the node guarantees over any sequence of its operations: its shared state stays sound, a
  peer is reported connected and disconnected in alternation, and what one node sends another
  receives. Last, two weaknesses: a node promotes a transport on a certificate anybody can send, and
  a peer with a low-order onion key stops the scheduler pass.
\<close>

section \<open>Sessions\<close>

text \<open>Reads the effects for one peer: None when a connect or a disconnect is out of turn, otherwise
  whether the peer is connected at the end.\<close>

fun session :: "bytes \<Rightarrow> bool \<Rightarrow> effect list \<Rightarrow> bool option" where
  "session fp c [] = Some c"
| "session fp c (Peer_Connected f # es) =
     (if f = fp then (if c then None else session fp True es) else session fp c es)"
| "session fp c (Peer_Disconnected f # es) =
     (if f = fp then (if c then session fp False es else None) else session fp c es)"
| "session fp c (Sent t b # es) = session fp c es"
| "session fp c (Closed_Transport t # es) = session fp c es"
| "session fp c (Data_Received f d # es) = session fp c es"

lemma session_append:
  "session fp c (es @ fs) = (case session fp c es of None \<Rightarrow> None | Some c \<Rightarrow> session fp c fs)"
  by (induction fp c es rule: session.induct) simp_all

definition reported :: "bytes \<Rightarrow> node \<Rightarrow> bool" where
  "reported fp n \<longleftrightarrow> toHex fp \<in> set (nod_advertised n)"

definition act_ok :: "crypto \<Rightarrow> node \<Rightarrow> 'a act \<Rightarrow> bool" where
  "act_ok C n a \<longleftrightarrow> (case a of (r, es, n') \<Rightarrow>
     (\<forall>fp. session fp (reported fp n) es = Some (reported fp n'))
     \<and> (shared_inv C (nod_shared n) \<longrightarrow> shared_inv C (nod_shared n')))"

named_theorems acts \<open>every operation of the node is sound\<close>

lemma act_ok_seq: "act_ok C n a \<Longrightarrow> (\<And>x n. act_ok C n (k x n)) \<Longrightarrow> act_ok C n (seq a k)"
  by (cases a) (fastforce simp: act_ok_def seq_def session_append split: sum.splits prod.splits)

text \<open>A state that reports the same peers, with a sound shared state, may be taken for the start.\<close>

lemma act_ok_from:
  "act_ok C m a \<Longrightarrow> nod_advertised m = nod_advertised n \<Longrightarrow>
   (shared_inv C (nod_shared n) \<Longrightarrow> shared_inv C (nod_shared m)) \<Longrightarrow> act_ok C n a"
  by (auto simp: act_ok_def reported_def)

lemma shared_on_peers:
  "shared_inv C (nod_shared n) \<Longrightarrow> (\<And>t. table_inv C t \<Longrightarrow> table_inv C (f t)) \<Longrightarrow> shared_inv C (nod_shared (on_peers f n))"
  by (simp add: shared_inv_def on_peers_def)

lemma on_peers_fields [simp]:
  "nod_advertised (on_peers f n) = nod_advertised n" "nod_transports (on_peers f n) = nod_transports n"
  "nod_me (on_peers f n) = nod_me n" "nod_verified (on_peers f n) = nod_verified n"
  by (simp_all add: on_peers_def)

lemma ret_ok [acts]: "act_ok C n (ret x n)"
  by (simp add: act_ok_def ret_def)

lemma error_ok [acts]: "act_ok C n (Inl e, [], n)"
  by (simp add: act_ok_def)

lemma emit_ok: "(case e of Sent t b \<Rightarrow> True | Closed_Transport t \<Rightarrow> True | Data_Received f d \<Rightarrow> True | _ \<Rightarrow> False) \<Longrightarrow> act_ok C n (emit e n)"
  by (cases e) (simp_all add: act_ok_def emit_def)

lemma emitDisconnect_ok [acts]: "act_ok C n (emitDisconnect fp n)"
  by (auto simp: emitDisconnect_def act_ok_def ret_def emit_def reported_def Let_def toHex_eq)

lemma forwardSend_ok [acts]: "act_ok C n (forwardSend fp b n)"
  by (auto simp: forwardSend_def ret_ok emit_ok split: option.split)

lemma update_ok:
  "nod_advertised (f m) = nod_advertised n \<Longrightarrow>
   (shared_inv C (nod_shared n) \<Longrightarrow> shared_inv C (nod_shared (f m))) \<Longrightarrow> act_ok C n (update f m)"
  by (simp add: act_ok_def update_def reported_def)

lemma attach_ok [acts]: "act_ok C n (attach now fp t n)"
  by (auto simp: attach_def mark_inv intro!: update_ok shared_on_peers)

lemma acceptInbound_ok [acts]: "act_ok C n (acceptInbound t n)"
  by (simp add: acceptInbound_def update_ok)

lemma disconnect_ok: "act_ok C n (emitDisconnect fp (on_peers (markDisconnected fp) (n\<lparr>nod_transports := ts\<rparr>)))"
  by (rule act_ok_from [OF emitDisconnect_ok]) (simp_all add: shared_on_peers mark_inv)

lemma transportClosed_ok [acts]: "act_ok C n (transportClosed t n)"
  by (auto simp: transportClosed_def ret_ok disconnect_ok intro!: update_ok
      split: option.split close_handler.split)

lemma promotePending_ok [acts]: "act_ok C n (promotePending now fp t n)"
  by (auto simp: promotePending_def Let_def act_ok_def ret_def emit_def reported_def toHex_eq
      intro!: shared_on_peers mark_inv)

lemma detach_ok [acts]: "act_ok C n (detach fp n)"
proof (cases "map_get (nod_transports n) (toHex fp)")
  case None
  then show ?thesis using disconnect_ok [of C n fp "nod_transports n"] by (simp add: detach_def)
next
  case (Some t)
  have "act_ok C (n\<lparr>nod_transports := ts\<rparr>) (emit (Closed_Transport t) (n\<lparr>nod_transports := ts\<rparr>))" for ts
    by (rule emit_ok) simp
  then have "act_ok C n (emit (Closed_Transport t) (n\<lparr>nod_transports := ts\<rparr>))" for ts
    by (rule act_ok_from) simp_all
  moreover have "act_ok C m (emitDisconnect fp (on_peers (markDisconnected fp) m))" for m
    using disconnect_ok [of C m fp "nod_transports m"] by simp
  ultimately show ?thesis using Some by (simp add: detach_def act_ok_seq)
qed

lemma onMessage_ok [acts]: "act_ok C n (onMessage C ms clk t raw n)"
proof -
  obtain cb s where r: "onInbound C (nod_me n) ms clk raw (Some t) (nod_shared n) = Inr (cb, s)"
    using onInbound_total [of C "nod_me n" ms clk raw "Some t" "nod_shared n"] by (metis surj_pair)
  let ?n = "n\<lparr>nod_shared := s\<rparr>"
  have inv: "shared_inv C (nod_shared n) \<Longrightarrow> shared_inv C (nod_shared ?n)" using onInbound_inv [OF _ r] by simp
  have "act_ok C ?n (onMessage C ms clk t raw n)"
    using r by (auto simp: onMessage_def Let_def acts emit_ok split: option.split callback.split)
  then show ?thesis using inv by (auto intro: act_ok_from)
qed

lemma sendTyped_ok [acts]: "act_ok C n (sendTyped C d fp ty p n)"
  by (auto simp: sendTyped_def acts emit_ok intro!: act_ok_seq split: option.split sum.split)

lemma send_ok [acts]: "act_ok C n (send C d fp data n)"
  by (auto simp: send_def acts split: sum.split)

lemma mark_ok: "(\<And>t. table_inv C t \<Longrightarrow> table_inv C (f t)) \<Longrightarrow> act_ok C n (ret x ((on_peers f n)\<lparr>nod_announceCadence := c\<rparr>))"
  using shared_on_peers [of C n f] by (auto simp: act_ok_def ret_def reported_def)

lemma sendKeyCertificate_ok [acts]: "act_ok C n (sendKeyCertificate C d fp n)"
proof -
  have "act_ok C n (ret x (on_peers (markKeyCertSentTo fp) n))" for n :: node and x :: bool
    using mark_ok [of C "markKeyCertSentTo fp" n x "nod_announceCadence n"] markKeyCertSentTo_inv
    by (simp add: on_peers_def)
  then show ?thesis by (auto simp: sendKeyCertificate_def acts intro!: act_ok_seq split: sum.split)
qed

lemma sendAnnouncePeer_ok [acts]: "act_ok C n (sendAnnouncePeer C d t1 t2 fp sfp n)"
  by (auto simp: sendAnnouncePeer_def acts mark_inv intro!: act_ok_seq mark_ok split: option.split sum.split)

lemma forward_ok [acts]: "act_ok C n (forward C d fp nfp ts b n)"
  by (auto simp: forward_def acts split: sum.split)

lemma send_certificates_ok [acts]: "act_ok C n (send_certificates C d i fps n)"
  by (induction fps arbitrary: i n) (auto simp: acts intro!: act_ok_seq)

lemma send_announces_ok [acts]: "act_ok C n (send_announces C d clk i plan n)"
  by (induction plan arbitrary: i n) (auto simp: acts intro!: act_ok_seq)

lemma tick_ok [acts]: "act_ok C n (tick C d1 d2 rnd now clk n)"
  by (auto simp: tick_def acts intro!: act_ok_seq)

section \<open>Runs\<close>

datatype node_op =
    Attach int bytes nat
  | Accept_Inbound nat
  | Transport_Closed nat
  | Detach bytes
  | Message int "nat \<Rightarrow> int" nat bytes
  | Send_Data send_draws bytes data_payload
  | Send_Certificate send_draws bytes
  | Send_Announce send_draws int int bytes bytes
  | Send_Forward send_draws bytes bytes "transport list" bytes
  | Tick "nat \<Rightarrow> send_draws" "nat \<Rightarrow> send_draws" "bytes \<Rightarrow> nat \<Rightarrow> nat" int "nat \<Rightarrow> int"

fun node_step :: "crypto \<Rightarrow> node_op \<Rightarrow> node \<Rightarrow> effect list \<times> node" where
  "node_step C (Attach now fp t) n = snd (attach now fp t n)"
| "node_step C (Accept_Inbound t) n = snd (acceptInbound t n)"
| "node_step C (Transport_Closed t) n = snd (transportClosed t n)"
| "node_step C (Detach fp) n = snd (detach fp n)"
| "node_step C (Message ms clk t raw) n = snd (onMessage C ms clk t raw n)"
| "node_step C (Send_Data d fp data) n = snd (send C d fp data n)"
| "node_step C (Send_Certificate d fp) n = snd (sendKeyCertificate C d fp n)"
| "node_step C (Send_Announce d t1 t2 fp sfp) n = snd (sendAnnouncePeer C d t1 t2 fp sfp n)"
| "node_step C (Send_Forward d fp nfp ts b) n = snd (forward C d fp nfp ts b n)"
| "node_step C (Tick d1 d2 rnd now clk) n = snd (tick C d1 d2 rnd now clk n)"

fun run_node :: "crypto \<Rightarrow> node_op list \<Rightarrow> node \<Rightarrow> effect list \<times> node" where
  "run_node C [] n = ([], n)"
| "run_node C (op # ops) n =
     (let (es, n) = node_step C op n; (fs, n) = run_node C ops n in (es @ fs, n))"

lemma act_ok_snd: "act_ok C n a \<Longrightarrow> act_ok C n (r, snd a)"
  by (simp add: act_ok_def split_beta)

lemma node_step_ok: "act_ok C n (r, node_step C op n)"
  by (cases op) (simp_all add: act_ok_snd acts)

lemma run_node_ok: "act_ok C n (r, run_node C ops n)"
proof (induction ops arbitrary: n)
  case Nil
  then show ?case by (simp add: act_ok_def)
next
  case (Cons op ops)
  obtain es m where m: "node_step C op n = (es, m)" by fastforce
  have "act_ok C n (seq (Inr (), node_step C op n) (\<lambda>_ n. (r, run_node C ops n)))"
    using node_step_ok Cons.IH by (intro act_ok_seq)
  then show ?case by (simp add: seq_def m split_beta)
qed

section \<open>Properties\<close>

text \<open>C35. Well-formed state: after any operations on a node made with an empty table and cache, every peer
  record is filed under the fingerprint of its key and certified, and every cached key has 32 bytes
  and is filed under its fingerprint.\<close>

theorem node_state_sound:
  "case createNode C me createPeerTable createIdentityCache certBytes log l of
     Inl e \<Rightarrow> length (lid_idPk me) \<noteq> 32
   | Inr n \<Rightarrow> shared_inv C (nod_shared (snd (run_node C ops n)))"
proof -
  have "shared_inv C (nod_shared (snd (run_node C ops n)))"
    if "createNode C me createPeerTable createIdentityCache certBytes log l = Inr n" for n
  proof -
    have "cache_inv C createIdentityCache" by (simp add: cache_inv_def createIdentityCache_def)
    then have "shared_inv C (nod_shared n)"
      using that cache_set_inv by (auto simp: createNode_def shared_inv_def table_inv_create split: sum.splits)
    then show ?thesis using run_node_ok [of C n undefined ops] by (simp add: act_ok_def split_beta)
  qed
  then show ?thesis by (auto simp: createNode_def cache_set_def split: sum.splits if_splits)
qed

text \<open>C36. Reports are sessions: over any operations of a new node and for every peer, \<open>onPeerConnected\<close> and
  \<open>onPeerDisconnected\<close> alternate, starting with a connect, and the node ends up advertising exactly
  the peers whose last report was a connect.\<close>

theorem connection_reports_alternate:
  "case createNode C me peers cache certBytes log l of
     Inl e \<Rightarrow> True
   | Inr n \<Rightarrow> (case run_node C ops n of (es, n') \<Rightarrow> session fp False es = Some (toHex fp \<in> set (nod_advertised n')))"
proof -
  have "session fp False es = Some (toHex fp \<in> set (nod_advertised n'))"
    if "createNode C me peers cache certBytes log l = Inr n" "run_node C ops n = (es, n')" for n n' es
  proof -
    have "\<not> reported fp n" using that(1) by (auto simp: createNode_def reported_def split: sum.splits)
    moreover have "session fp (reported fp n) es = Some (reported fp n')"
      using run_node_ok [of C n undefined ops] that(2) by (simp add: act_ok_def)
    ultimately show ?thesis by (simp add: reported_def)
  qed
  then show ?thesis by (auto split: sum.split prod.split)
qed

section \<open>From node to node\<close>

lemma send_ok_Sent:
  assumes "send C d fp data n = (Inr True, es, n')" "get fp (peers_of n) = Some p"
  obtains t payload raw where "es = [Sent t raw]" "buildDataPayload data = Inr payload"
    "map_get (nod_transports n) (toHex fp) = Some t"
    "encodePacket C (sdr_rng d) (sdr_nonce d) \<lparr>snd_recipientIdPk = per_idPk p, snd_recipientOnionPk = per_onionPk p,
       snd_senderFingerprint = lid_fingerprint (nod_me n), snd_packetType = 1, snd_payload = payload\<rparr> = Inr raw"
  using assms
  by (auto simp: send_def sendTyped_def seq_def emit_def ret_def split: if_splits option.splits sum.splits)

lemma onMessage_packet:
  assumes "aead_correct C" "hash_ok C" "dh_correct C" "\<And>i. length (rng i) = 32" "length (lid_onionSk (nod_me n)) = 32" "ty < 256"
    and "encodePacket C rng nonce \<lparr>snd_recipientIdPk = lid_idPk (nod_me n), snd_recipientOnionPk = x_public C (lid_onionSk (nod_me n)),
           snd_senderFingerprint = fp, snd_packetType = ty, snd_payload = payload\<rparr> = Inr raw"
    and "shs_log (nod_shared n) = Some l" "replay_inv l" "0 < rpl_minSeconds l" "replay_check l (subarray raw 10 42) nonce = Inr False"
  shows "\<exists>l' pkt. pkt_packetType pkt = ty \<and> pkt_senderFingerprint pkt = fp \<and> pkt_payload pkt = payload
    \<and> onInbound C (nod_me n) ms clk raw t (nod_shared n)
       = route C (nod_me n) clk t pkt ((nod_shared n)\<lparr>shs_log := Some l'\<rparr>)"
proof -
  obtain l' where "decodePacket C (lid_idPk (nod_me n)) (lid_onionSk (nod_me n)) (Some l) ms raw = Inr \<lparr>
      out_packet = Some \<lparr>pkt_bucket = bucketForSize (105 + length payload), pkt_packetType = ty,
        pkt_senderFingerprint = fp, pkt_payload = payload, pkt_ephPk = subarray raw 10 42, pkt_nonce = nonce\<rparr>,
      out_log = Some l', out_failure = None\<rparr>"
    using encoded_packet_decodes [OF assms(1-7,9-11), of ms] by blast
  then show ?thesis
    using assms(8)
    by (intro exI [of _ l'] exI [of _ "\<lparr>pkt_bucket = bucketForSize (105 + length payload), pkt_packetType = ty,
        pkt_senderFingerprint = fp, pkt_payload = payload, pkt_ephPk = subarray raw 10 42, pkt_nonce = nonce\<rparr>"])
      (simp add: onInbound_def)
qed

text \<open>C37. What one node sends another receives: when the sender's record of the receiver has the
  receiver's keys and \<open>send\<close> returns true, it put one frame on the transport of that peer, and the
  receiver, given that frame on any transport, hands the data to \<open>onData\<close> under the sender's
  fingerprint, and does nothing else.\<close>

theorem data_reaches_the_peer:
  assumes "aead_correct C" "hash_ok C" "dh_correct C" "\<And>i. length (sdr_rng d i) = 32" "data_ok data"
    and "get fp (peers_of a) = Some p" "per_idPk p = lid_idPk (nod_me b)" "per_onionPk p = x_public C (lid_onionSk (nod_me b))"
    and "length (lid_onionSk (nod_me b)) = 32" "shs_log (nod_shared b) = Some l" "replay_inv l" "0 < rpl_minSeconds l"
    and "send C d fp data a = (Inr True, es, a')"
  shows "\<exists>t raw. es = [Sent t raw] \<and> map_get (nod_transports a) (toHex fp) = Some t
    \<and> (replay_check l (subarray raw 10 42) (sdr_nonce d) = Inr False \<longrightarrow>
        (\<exists>b'. onMessage C ms clk u raw b = (Inr (), [Data_Received (lid_fingerprint (nod_me a)) data], b')))"
proof -
  obtain t payload raw where s: "es = [Sent t raw]" "buildDataPayload data = Inr payload"
    "map_get (nod_transports a) (toHex fp) = Some t"
    "encodePacket C (sdr_rng d) (sdr_nonce d) \<lparr>snd_recipientIdPk = per_idPk p, snd_recipientOnionPk = per_onionPk p,
       snd_senderFingerprint = lid_fingerprint (nod_me a), snd_packetType = 1, snd_payload = payload\<rparr> = Inr raw"
    using send_ok_Sent [OF assms(13,6)] by blast
  have "parseDataPayload payload = Some data" using dat.roundtrip [OF assms(5) s(2)] .
  then have "\<exists>b'. onMessage C ms clk u raw b = (Inr (), [Data_Received (lid_fingerprint (nod_me a)) data], b')"
    if "replay_check l (subarray raw 10 42) (sdr_nonce d) = Inr False"
    using onMessage_packet [OF assms(1-4,9) _ s(4) [unfolded assms(7,8)] assms(10-12) that, of ms clk "Some u"]
    by (auto simp: onMessage_def route_def handle_data_def emit_def Let_def)
  then show ?thesis using s by blast
qed

section \<open>Two weaknesses\<close>

text \<open>A transport is bound to a peer by a KEY\_CERTIFICATE packet that arrives on it. Such a packet is
  made from public data: the certificate and the key it certifies; nothing in it is signed for
  this connection. So whoever holds them, with no secret of the peer, has its own transport bound
  to the peer's fingerprint and reported as connected.\<close>

lemma promotion_needs_no_secret:
  assumes "aead_correct C" "hash_ok C" "dh_correct C" "\<And>i. length (rng i) = 32" "length (lid_onionSk (nod_me n)) = 32"
    and "buildKeyCertificatePayload \<lparr>kc_idPk = victim, kc_certBytes = cert\<rparr> = Inr payload"
    and "verifyCertificate C cert victim (clk 0) = Some f"
    and "encodePacket C rng nonce \<lparr>snd_recipientIdPk = lid_idPk (nod_me n), snd_recipientOnionPk = x_public C (lid_onionSk (nod_me n)),
           snd_senderFingerprint = fingerprint C victim, snd_packetType = 4, snd_payload = payload\<rparr> = Inr raw"
    and "shs_log (nod_shared n) = Some l" "replay_inv l" "0 < rpl_minSeconds l" "replay_check l (subarray raw 10 42) nonce = Inr False"
    and "t \<notin> set (nod_verified n)" "\<not> reported (fingerprint C victim) n"
  shows "\<exists>n'. onMessage C ms clk t raw n = (Inr (), [Peer_Connected (fingerprint C victim)], n')
    \<and> map_get (nod_transports n') (toHex (fingerprint C victim)) = Some t"
proof -
  have len: "length victim = 32" "length cert = 105" using assms(6) by (auto simp: buildKeyCertificatePayload_def split: if_splits)
  then have "parseKeyCertificatePayload payload = Some \<lparr>kc_idPk = victim, kc_certBytes = cert\<rparr>"
    using assms(6) by (intro kc.roundtrip) (auto simp: key_certificate_ok_def)
  then show ?thesis
    using onMessage_packet [OF assms(1-5) _ assms(8-12), of ms clk "Some t"] assms(7,13,14) len
    by (auto simp: onMessage_def route_def handle_key_certificate_def verifyKeyCertificate_iff cache_set_def
        promotePending_def emit_def reported_def jm.get_put Let_def)
qed

text \<open>A peer may certify an onion key of low order: \<open>encodePacket\<close> then throws for it, \<open>tick\<close> throws at the
  first such peer that has no certificate from us, and sends nothing to the peers after it, now or
  at any later tick.\<close>

lemma low_order_peer_stops_tick:
  assumes "planKeyCertificateSends (peers_of n) = fp # fps" "get fp (peers_of n) = Some p"
    and "map_get (nod_transports n) (toHex fp) = Some t" "\<And>sk. sharedSecret C sk (per_onionPk p) = None"
    and "length (lid_idPk (nod_me n)) = 32" "length (nod_certBytes n) = 105"
  shows "\<exists>e. tick C d1 d2 rnd now clk n = (Inl e, [], n)"
proof -
  have "eph_loop C (per_onionPk p) rng i k = None" for rng i k
    using assms(4) by (induction k arbitrary: i) (simp_all add: split_beta)
  then have "\<exists>e. sendTyped C d fp ty payload n = (Inl e, [], n)" for d ty payload
    using assms(2,3) by (simp add: sendTyped_def encodePacket_def Let_def)
  then obtain e where "sendTyped C (d1 0) fp 4 (set_at (set_at (zeros 137) 0 (lid_idPk (nod_me n))) 32 (nod_certBytes n)) n
      = (Inl e, [], n)" by blast
  then have "sendKeyCertificate C (d1 0) fp n = (Inl e, [], n)"
    using assms(5,6) by (simp add: sendKeyCertificate_def buildKeyCertificatePayload_def seq_def Let_def)
  then show ?thesis by (simp add: tick_def assms(1) seq_def)
qed

section \<open>Two small nodes\<close>

definition toy_node :: "peer_table \<Rightarrow> node" where
  "toy_node peers = \<lparr>nod_me = \<lparr>lid_idPk = zeros 32, lid_onionSk = zeros 32, lid_fingerprint = zeros 32\<rparr>,
     nod_certBytes = zeros 105,
     nod_shared = \<lparr>shs_peers = peers, shs_cache = [], shs_log = Some toy_log, shs_limiter = createForwardRateLimiter 32 64 4096 60\<rparr>,
     nod_transports = [(toHex (zeros 32), 3)], nod_pending = [], nod_verified = [], nod_advertised = [],
     nod_announceCadence = [], nod_closers = []\<rparr>"

definition toy_contact :: peer where
  "toy_contact = (toy_peer 0 [])\<lparr>per_idPk := zeros 32, per_fingerprint := zeros 32,
     per_onionPk := x_public toy_crypto (zeros 32), per_connected := True\<rparr>"

definition toy_draws :: send_draws where "toy_draws = \<lparr>sdr_rng = toy_rng, sdr_nonce = zeros 12\<rparr>"

definition toy_data :: data_payload where
  "toy_data = \<lparr>dat_conversationTag = zeros 16, dat_sequenceNumber = 7, dat_payload = [1, 2, 3]\<rparr>"

lemma toy_send:
  "\<exists>raw. 54 \<le> length raw \<and> send toy_crypto toy_draws (zeros 32) toy_data (toy_node [(toHex (zeros 32), Peer toy_contact)])
     = (Inr True, [Sent 3 raw], toy_node [(toHex (zeros 32), Peer toy_contact)])"
proof -
  obtain payload where p: "buildDataPayload toy_data = Inr payload" "length payload = 27"
    by (simp add: toy_data_def buildData_layout)
  let ?a = "\<lparr>snd_recipientIdPk = zeros 32, snd_recipientOnionPk = x_public toy_crypto (zeros 32),
     snd_senderFingerprint = zeros 32, snd_packetType = 1, snd_payload = payload\<rparr>"
  have "\<exists>raw. encodePacket toy_crypto toy_rng (zeros 12) ?a = Inr raw"
    using toy_shared [of 0] p(2) by (intro encodePacket_succeeds [OF toy_hash_ok]) (simp_all add: toy_rng_def toy_crypto_def)
  then obtain raw where raw: "encodePacket toy_crypto toy_rng (zeros 12) ?a = Inr raw" by blast
  then have "54 \<le> length raw"
    using encodePacket_sealed [OF toy_aead_correct toy_hash_ok raw] length_outer_header
    by (fastforce simp: sealed_packet_def)
  then show ?thesis
    using raw p(1)
    by (simp add: send_def sendTyped_def seq_def emit_def ret_def toy_node_def toy_contact_def toy_draws_def get_def
        peers_of_def keyOf_def map_get_def mustRefuseTraffic_def)
qed

theorem data_reaches_the_peer_witness:
  "\<exists>raw b'. send toy_crypto toy_draws (zeros 32) toy_data (toy_node [(toHex (zeros 32), Peer toy_contact)])
       = (Inr True, [Sent 3 raw], toy_node [(toHex (zeros 32), Peer toy_contact)])
   \<and> onMessage toy_crypto 7 (\<lambda>_. 7) 5 raw (toy_node []) = (Inr (), [Data_Received (zeros 32) toy_data], b')"
proof -
  let ?a = "toy_node [(toHex (zeros 32), Peer toy_contact)]" and ?b = "toy_node []"
  obtain raw where raw: "54 \<le> length raw" "send toy_crypto toy_draws (zeros 32) toy_data ?a = (Inr True, [Sent 3 raw], ?a)"
    using toy_send by blast
  have g: "get (zeros 32) (peers_of ?a) = Some toy_contact"
    by (simp add: get_def peers_of_def toy_node_def keyOf_def map_get_def)
  have c: "\<And>i. length (sdr_rng toy_draws i) = 32" "data_ok toy_data"
    "per_idPk toy_contact = lid_idPk (nod_me ?b)" "per_onionPk toy_contact = x_public toy_crypto (lid_onionSk (nod_me ?b))"
    "length (lid_onionSk (nod_me ?b)) = 32" "shs_log (nod_shared ?b) = Some toy_log" "lid_fingerprint (nod_me ?a) = zeros 32"
    "sdr_nonce toy_draws = zeros 12"
    by (simp_all add: toy_draws_def toy_rng_def data_ok_def toy_data_def toy_contact_def toy_node_def)
  from data_reaches_the_peer [OF toy_aead_correct toy_hash_ok toy_dh_correct c(1,2) g c(3-6) toy_log_facts(1,2) raw(2),
      of 7 "\<lambda>_. 7" 5]
  show ?thesis using raw c(7,8) toy_fresh [OF raw(1)] by (metis effect.inject(1) list.inject)
qed

end
