(* ===== verification/V2_Cells.thy ===== *)
theory V2_Cells
  imports Codec Crypto
begin

text \<open>
  \<open>modules/v2/cells.mjs\<close>: the 514-byte cell and the layer cipher. A layer is the XOR with a
  keystream of the cipher (the field \<open>chacha_stream\<close> of the primitives); \<open>layer_cipher\<close> is what
  the onion construction uses of it, and the model's own \<open>applyLayer\<close> provides it.
\<close>

section \<open>The cell format\<close>

definition CELL_BYTES :: nat where [simp]: "CELL_BYTES = 514"
definition WIRE_VERSION_V2 :: nat where [simp]: "WIRE_VERSION_V2 = 0x02"
definition LEN_VERSION :: nat where [simp]: "LEN_VERSION = 1"
definition LEN_CIRCUIT_ID :: nat where [simp]: "LEN_CIRCUIT_ID = 4"
definition LEN_COMMAND :: nat where [simp]: "LEN_COMMAND = 1"
definition LEN_CELL_PAYLOAD :: nat where [simp]: "LEN_CELL_PAYLOAD = 508"
definition OFFSET_VERSION :: nat where [simp]: "OFFSET_VERSION = 0"
definition OFFSET_CIRCUIT_ID :: nat where [simp]: "OFFSET_CIRCUIT_ID = 1"
definition OFFSET_COMMAND :: nat where [simp]: "OFFSET_COMMAND = 5"
definition OFFSET_CELL_PAYLOAD :: nat where [simp]: "OFFSET_CELL_PAYLOAD = 6"

definition CMD_PADDING :: nat where [simp]: "CMD_PADDING = 0x00"
definition CMD_CREATE :: nat where [simp]: "CMD_CREATE = 0x01"
definition CMD_CREATED :: nat where [simp]: "CMD_CREATED = 0x02"
definition CMD_RELAY :: nat where [simp]: "CMD_RELAY = 0x03"
definition CMD_DESTROY :: nat where [simp]: "CMD_DESTROY = 0x04"
definition CMD_LINK_HELLO :: nat where [simp]: "CMD_LINK_HELLO = 0x05"
definition CMD_LINK_AUTH :: nat where [simp]: "CMD_LINK_AUTH = 0x06"

definition CIRCUIT_ID_DIRECTION_MASK :: nat where [simp]: "CIRCUIT_ID_DIRECTION_MASK = 0x80000000"
definition LAYER_KEY_BYTES :: nat where [simp]: "LAYER_KEY_BYTES = 32"
definition LAYER_IV_BYTES :: nat where [simp]: "LAYER_IV_BYTES = 16"

record cell =
  cel_version :: nat
  cel_circuitId :: nat
  cel_command :: nat
  cel_payload :: bytes

definition buildCell :: "nat \<Rightarrow> int \<Rightarrow> nat \<Rightarrow> bytes \<Rightarrow> bytes res" where
  "buildCell version circuitId command payload =
     (if circuitId < 0 \<or> circuitId > 0xFFFFFFFF
        then Inl (Error ''circuitId must be an integer 0..2^32-1'')
      else if length payload > LEN_CELL_PAYLOAD then Inl (Error ''payload exceeds cell capacity'')
      else
        let c = zeros CELL_BYTES;
            c = c[OFFSET_VERSION := u8 version];
            c = c[OFFSET_COMMAND := u8 command];
            c = set_at c OFFSET_CIRCUIT_ID (be_bytes 4 (nat circuitId));
            c = (if length payload > 0 then set_at c OFFSET_CELL_PAYLOAD payload else c)
        in Inr c)"

definition parseCell :: "bytes \<Rightarrow> cell option" where
  "parseCell raw =
     (if length raw \<noteq> CELL_BYTES then None
      else Some \<lparr>cel_version = unat (raw ! OFFSET_VERSION),
                 cel_circuitId = be_val (subarray raw OFFSET_CIRCUIT_ID (OFFSET_CIRCUIT_ID + 4)),
                 cel_command = unat (raw ! OFFSET_COMMAND),
                 cel_payload = subarray raw OFFSET_CELL_PAYLOAD (OFFSET_CELL_PAYLOAD + LEN_CELL_PAYLOAD)\<rparr>)"

definition isValidTopLevelCommand :: "nat \<Rightarrow> bool" where
  "isValidTopLevelCommand command \<longleftrightarrow>
     command = CMD_PADDING \<or> command = CMD_CREATE \<or> command = CMD_CREATED \<or> command = CMD_RELAY
     \<or> command = CMD_DESTROY \<or> command = CMD_LINK_HELLO \<or> command = CMD_LINK_AUTH"

text \<open>A cell with its padding, laid out.\<close>

definition cell_bytes :: "nat \<Rightarrow> nat \<Rightarrow> nat \<Rightarrow> bytes \<Rightarrow> bytes" where
  "cell_bytes version circuitId command payload =
     u8 version # be_bytes 4 circuitId @ u8 command # payload @ zeros (508 - length payload)"

lemma length_cell_bytes: "length p \<le> 508 \<Longrightarrow> length (cell_bytes v c m p) = 514"
  by (simp add: cell_bytes_def)

lemma list_update_zeros_at: "i < n \<Longrightarrow> (zeros n)[i := v] = zeros i @ v # zeros (n - i - 1)"
proof -
  assume i: "i < n"
  then have "zeros n = zeros i @ zeros (n - i)" by (simp add: zeros_def replicate_add [symmetric])
  then show ?thesis using i by (simp add: list_update_append layout)
qed

lemma set_at_prefix: "length src = length xs \<Longrightarrow> set_at (xs @ ys) 0 src = src @ ys"
  by (simp add: set_at_def)

lemma buildCell_layout:
  assumes "0 \<le> c" "c \<le> 0xFFFFFFFF" "length p \<le> 508"
  shows "buildCell v c m p = Inr (cell_bytes v (nat c) m p)"
proof -
  have "(zeros 514)[0 := u8 v, 5 := u8 m] = u8 v # zeros 4 @ u8 m # zeros 508"
    by (simp add: list_update_zeros_at layout)
  then have "set_at ((zeros 514)[0 := u8 v, 5 := u8 m]) 1 (be_bytes 4 (nat c))
      = u8 v # be_bytes 4 (nat c) @ u8 m # zeros 508"
    by (simp add: set_at_prefix layout)
  then show ?thesis
    using assms by (cases p) (simp_all add: buildCell_def cell_bytes_def Let_def layout)
qed

lemma buildCell_Inr:
  "buildCell v c m p = Inr bs \<Longrightarrow>
   0 \<le> c \<and> c \<le> 0xFFFFFFFF \<and> length p \<le> 508 \<and> bs = cell_bytes v (nat c) m p"
  using buildCell_layout [of c p v m] by (auto simp: buildCell_def split: if_splits)

lemma parse_cell_bytes:
  assumes "v < 256" "c < 2 ^ 32" "m < 256" "length p \<le> 508"
  shows "parseCell (cell_bytes v c m p) = Some \<lparr>cel_version = v, cel_circuitId = c, cel_command = m,
    cel_payload = p @ zeros (508 - length p)\<rparr>"
proof -
  have "c < 256 ^ 4" using assms(2) by simp
  note [simp] = be_val_be_bytes_id [OF this]
  show ?thesis using assms by (simp add: parseCell_def cell_bytes_def layout unat_u8_id)
qed

definition cell_ok :: "cell \<Rightarrow> bool" where
  "cell_ok c \<longleftrightarrow> cel_version c < 256 \<and> cel_circuitId c < 2 ^ 32 \<and> cel_command c < 256
     \<and> length (cel_payload c) = 508"

definition buildCell_of :: "cell \<Rightarrow> bytes res" where
  "buildCell_of c = buildCell (cel_version c) (int (cel_circuitId c)) (cel_command c) (cel_payload c)"

interpretation cl: frame_codec buildCell_of parseCell cell_ok
proof
  fix c assume ok: "cell_ok c"
  then have "int (cel_circuitId c) \<le> 0xFFFFFFFF" by (simp add: cell_ok_def)
  then have "buildCell_of c
      = Inr (cell_bytes (cel_version c) (cel_circuitId c) (cel_command c) (cel_payload c))"
    using ok buildCell_layout [of "int (cel_circuitId c)" "cel_payload c"]
    by (simp add: buildCell_of_def cell_ok_def)
  then show "\<exists>bs. buildCell_of c = Inr bs \<and> parseCell bs = Some c"
    using ok by (cases c) (simp add: cell_ok_def parse_cell_bytes)
next
  fix bs c assume p: "parseCell bs = Some c"
  then have len: "length bs = 514" and c: "c = \<lparr>cel_version = unat (bs ! 0),
      cel_circuitId = be_val (subarray bs 1 5), cel_command = unat (bs ! 5), cel_payload = subarray bs 6 514\<rparr>"
    by (auto simp: parseCell_def split: if_splits)
  have cid: "be_val (subarray bs 1 5) < 2 ^ 32"
    using be_val_bound [of "subarray bs 1 5"] len by simp
  then have ok: "cell_ok c" using len unat_byte_bound by (simp add: c cell_ok_def)
  have "be_bytes 4 (be_val (subarray bs 1 5)) = subarray bs 1 5"
    using len by (intro be_bytes_be_val_n) simp
  then have "cell_bytes (cel_version c) (cel_circuitId c) (cel_command c) (cel_payload c)
      = [bs ! 0] @ subarray bs 1 5 @ [bs ! 5] @ subarray bs 6 514"
    using len by (simp add: c cell_bytes_def)
  also have "\<dots> = subarray bs 0 1 @ subarray bs 1 5 @ subarray bs 5 6 @ subarray bs 6 514"
    using len by (simp add: subarray_byte)
  also have "\<dots> = bs" using len by (simp add: subarray_join subarray_all)
  finally show "cell_ok c \<and> buildCell_of c = Inr bs"
    using ok cid buildCell_layout [of "int (cel_circuitId c)" "cel_payload c"]
    by (simp add: buildCell_of_def cell_ok_def)
qed

section \<open>The layer cipher\<close>

definition buildLayerIV :: "nat \<Rightarrow> bytes" where
  "buildLayerIV counter = set_at (zeros LAYER_IV_BYTES) 0 (be_bytes 8 counter)"

definition keystream :: "crypto \<Rightarrow> bytes \<Rightarrow> bytes \<Rightarrow> nat \<Rightarrow> bytes" where
  "keystream C key iv n = map (chacha_stream C key iv) [0..<n]"

definition xor_stream :: "crypto \<Rightarrow> bytes \<Rightarrow> bytes \<Rightarrow> bytes \<Rightarrow> bytes" where
  "xor_stream C key iv data = map2 (\<lambda>d k. d XOR k) data (keystream C key iv (length data))"

definition applyLayer :: "crypto \<Rightarrow> bytes \<Rightarrow> bytes \<Rightarrow> bytes \<Rightarrow> bytes res" where
  "applyLayer C key iv data =
     (if length key \<noteq> LAYER_KEY_BYTES then Inl (Error ''layer key must be 32 bytes'')
      else if length iv \<noteq> LAYER_IV_BYTES then Inl (Error ''layer IV must be 16 bytes'')
      else Inr (xor_stream C key iv data))"

lemma length_buildLayerIV [simp]: "length (buildLayerIV n) = 16"
  by (simp add: buildLayerIV_def)

lemma buildLayerIV_inj: "m < 2 ^ 64 \<Longrightarrow> n < 2 ^ 64 \<Longrightarrow> buildLayerIV m = buildLayerIV n \<longleftrightarrow> m = n"
proof -
  assume "m < 2 ^ 64" "n < 2 ^ 64"
  then have "m < 256 ^ 8" "n < 256 ^ 8" by simp_all
  note v = be_val_be_bytes_id [OF this(1)] be_val_be_bytes_id [OF this(2)]
  have "buildLayerIV k = be_bytes 8 k @ zeros 8" for k
    by (simp add: buildLayerIV_def layout)
  then show ?thesis using v by (metis append_same_eq)
qed

lemma length_xor_stream [simp]: "length (xor_stream C k iv d) = length d"
  by (simp add: xor_stream_def keystream_def)

lemma byte_xor_twice: "(x XOR y) XOR y = (x :: byte)"
  by (metis xor.assoc xor_self_eq xor.right_neutral)

lemma map2_xor_twice:
  "length d = length ks \<Longrightarrow> map2 (\<lambda>d k :: byte. d XOR k) (map2 (\<lambda>d k. d XOR k) d ks) ks = d"
  by (induction d ks rule: list_induct2) (simp_all add: byte_xor_twice)

lemma xor_stream_involution [simp]: "xor_stream C k iv (xor_stream C k iv d) = d"
proof -
  have "length d = length (keystream C k iv (length d))" by (simp add: keystream_def)
  from map2_xor_twice [OF this] show ?thesis by (simp add: xor_stream_def keystream_def)
qed

text \<open>What the onion construction uses of a cipher: a layer can be undone by applying it again, and
  it keeps the length. Layers under several keys, added from the inside out, are peeled from the
  outside in.\<close>

locale layer_cipher =
  fixes layer :: "'k \<Rightarrow> 'd list \<Rightarrow> 'd list"
  assumes layer_layer: "layer k (layer k d) = d"
    and length_layer: "length (layer k d) = length d"
begin

lemma wrap_peel: "foldl (\<lambda>d k. layer k d) (foldr layer ks d) ks = d"
  by (induction ks arbitrary: d) (simp_all add: layer_layer)

lemma peel_wrap: "foldr layer ks (foldl (\<lambda>d k. layer k d) d ks) = d"
  by (induction ks arbitrary: d) (simp_all add: layer_layer)

lemma wrap_split: "foldr layer (ks @ ls) d = foldr layer ks (foldr layer ls d)"
  by simp

text \<open>After \<open>n\<close> hops have each peeled their layer, the layers of the others are left.\<close>

lemma peel_prefix:
  "foldl (\<lambda>d k. layer k d) (foldr layer ks d) (take n ks) = foldr layer (drop n ks) d"
proof -
  have "foldr layer ks d = foldr layer (take n ks) (foldr layer (drop n ks) d)"
    by (metis append_take_drop_id wrap_split)
  then show ?thesis using wrap_peel [of "take n ks"] by simp
qed

lemma wrap_inj: "foldr layer ks d = foldr layer ks e \<Longrightarrow> d = e"
  by (metis wrap_peel)

lemma length_wrap: "length (foldr layer ks d) = length d"
  by (induction ks arbitrary: d) (simp_all add: length_layer)

end

interpretation chacha: layer_cipher "\<lambda>(key, counter). xor_stream C key (buildLayerIV counter)" for C
  by unfold_locales auto

section \<open>Properties\<close>

text \<open>Cells are canonical: the parser accepts exactly the 514-byte strings, each of them is what the
  builder writes for the cell it parses to, and a built cell parses back, its payload padded
  with zeros to 508 bytes.\<close>

theorem cell_codec:
  "(parseCell bs = Some c \<longleftrightarrow> cell_ok c \<and> buildCell_of c = Inr bs)
   \<and> (parseCell bs = None \<longleftrightarrow> length bs \<noteq> 514)
   \<and> (case buildCell v cid m p of
        Inl e \<Rightarrow> cid < 0 \<or> 2 ^ 32 \<le> cid \<or> 508 < length p
      | Inr raw \<Rightarrow> parseCell raw = Some \<lparr>cel_version = v mod 256, cel_circuitId = nat cid,
          cel_command = m mod 256, cel_payload = p @ zeros (508 - length p)\<rparr>)"
proof -
  have u: "cell_bytes v c m p = cell_bytes (v mod 256) c (m mod 256) p" for c
    by (simp add: cell_bytes_def u8_def and_255)
  have "parseCell raw = Some \<lparr>cel_version = v mod 256, cel_circuitId = nat cid,
          cel_command = m mod 256, cel_payload = p @ zeros (508 - length p)\<rparr>"
    if "buildCell v cid m p = Inr raw" for raw
    using buildCell_Inr [OF that] u [of "nat cid"]
    by (simp add: parse_cell_bytes nat_less_iff)
  moreover have "cid < 0 \<or> 2 ^ 32 \<le> cid \<or> 508 < length p" if "buildCell v cid m p = Inl e" for e
    using that buildCell_layout [of cid p v m] by fastforce
  ultimately show ?thesis
    using cl.parse_iff by (auto simp: parseCell_def split: sum.splits)
qed

end
