(* ===== verification/V2_Relay.thy ===== *)
theory V2_Relay
  imports V2_Cells
begin

text \<open>
  \<open>modules/v2/relay.mjs\<close>: the RELAY payload and its running digest. The incremental BLAKE2b
  state of the library is the list of bytes it has absorbed: \<open>update\<close> appends, \<open>clone\<close> copies,
  \<open>digest\<close> hashes what has been absorbed. A receiver either consumes a cell and moves its state, or
  leaves the state as it was; sender and receiver stay in step.
\<close>

section \<open>The format\<close>

definition LEN_RELAY_COMMAND :: nat where [simp]: "LEN_RELAY_COMMAND = 1"
definition LEN_STREAM_ID :: nat where [simp]: "LEN_STREAM_ID = 2"
definition LEN_DIGEST_FIELD :: nat where [simp]: "LEN_DIGEST_FIELD = 4"
definition LEN_REAL_LENGTH :: nat where [simp]: "LEN_REAL_LENGTH = 2"
definition LEN_RELAY_PREFIX :: nat where [simp]: "LEN_RELAY_PREFIX = 9"
definition OFFSET_RELAY_COMMAND :: nat where [simp]: "OFFSET_RELAY_COMMAND = 0"
definition OFFSET_STREAM_ID :: nat where [simp]: "OFFSET_STREAM_ID = 1"
definition OFFSET_DIGEST :: nat where [simp]: "OFFSET_DIGEST = 3"
definition OFFSET_REAL_LENGTH :: nat where [simp]: "OFFSET_REAL_LENGTH = 7"
definition OFFSET_RELAY_DATA :: nat where [simp]: "OFFSET_RELAY_DATA = 9"
definition MAX_RELAY_DATA :: nat where [simp]: "MAX_RELAY_DATA = LEN_CELL_PAYLOAD - LEN_RELAY_PREFIX"

definition RELAY_BEGIN :: nat where [simp]: "RELAY_BEGIN = 0x00"
definition RELAY_DATA :: nat where [simp]: "RELAY_DATA = 0x01"
definition RELAY_END :: nat where [simp]: "RELAY_END = 0x02"
definition RELAY_CONNECTED :: nat where [simp]: "RELAY_CONNECTED = 0x03"
definition RELAY_EXTEND :: nat where [simp]: "RELAY_EXTEND = 0x04"
definition RELAY_EXTENDED :: nat where [simp]: "RELAY_EXTENDED = 0x05"
definition RELAY_INTRODUCE1 :: nat where [simp]: "RELAY_INTRODUCE1 = 0x06"
definition RELAY_INTRODUCE2 :: nat where [simp]: "RELAY_INTRODUCE2 = 0x07"
definition RELAY_RENDEZVOUS1 :: nat where [simp]: "RELAY_RENDEZVOUS1 = 0x08"
definition RELAY_RENDEZVOUS2 :: nat where [simp]: "RELAY_RENDEZVOUS2 = 0x09"
definition RELAY_RESOLVE :: nat where [simp]: "RELAY_RESOLVE = 0x0A"
definition RELAY_RESOLVED :: nat where [simp]: "RELAY_RESOLVED = 0x0B"
definition RELAY_TRUNCATE :: nat where [simp]: "RELAY_TRUNCATE = 0x0C"
definition RELAY_TRUNCATED :: nat where [simp]: "RELAY_TRUNCATED = 0x0D"
definition RELAY_ESTABLISH_INTRO :: nat where [simp]: "RELAY_ESTABLISH_INTRO = 0x0E"
definition RELAY_INTRO_ESTABLISHED :: nat where [simp]: "RELAY_INTRO_ESTABLISHED = 0x0F"
definition RELAY_ESTABLISH_RENDEZVOUS :: nat where [simp]: "RELAY_ESTABLISH_RENDEZVOUS = 0x10"
definition RELAY_RENDEZVOUS_ESTABLISHED :: nat where [simp]: "RELAY_RENDEZVOUS_ESTABLISHED = 0x11"
definition RELAY_INTRODUCE_ACK :: nat where [simp]: "RELAY_INTRODUCE_ACK = 0x12"
definition RELAY_DESCFETCH :: nat where [simp]: "RELAY_DESCFETCH = 0x13"
definition RELAY_DESCFETCH_REPLY :: nat where [simp]: "RELAY_DESCFETCH_REPLY = 0x14"
definition RELAY_DESCFETCH_END :: nat where [simp]: "RELAY_DESCFETCH_END = 0x15"
definition STREAM_ID_CIRCUIT :: nat where [simp]: "STREAM_ID_CIRCUIT = 0x0000"

section \<open>The running digest\<close>

type_synonym digest_state = bytes

definition createDigestState :: "bytes \<Rightarrow> digest_state res" where
  "createDigestState kDigest =
     (if length kDigest \<noteq> 32 then Inl (Error ''K_digest must be 32 bytes'') else Inr kDigest)"

definition consumeAndDigest :: "crypto \<Rightarrow> digest_state \<Rightarrow> bytes \<Rightarrow> bytes \<times> digest_state" where
  "consumeAndDigest C state zeroedPayload =
     (let state = state @ zeroedPayload
      in (subarray (blake2b_32 C state) 0 LEN_DIGEST_FIELD, state))"

section \<open>Building and consuming\<close>

text \<open>The payload while its digest field is still zero.\<close>

definition relay_plain :: "nat \<Rightarrow> nat \<Rightarrow> bytes \<Rightarrow> bytes" where
  "relay_plain relayCommand streamId data =
     (let payload = zeros LEN_CELL_PAYLOAD;
          payload = payload[OFFSET_RELAY_COMMAND := u8 relayCommand];
          payload = set_at payload OFFSET_STREAM_ID (be_bytes 2 streamId);
          payload = set_at payload OFFSET_REAL_LENGTH (be_bytes 2 (length data))
      in if length data > 0 then set_at payload OFFSET_RELAY_DATA data else payload)"

text \<open>\<open>relayCommand & 0xFF\<close> keeps the low byte; \<open>streamId\<close> outside 16 bits throws.\<close>

definition buildRelayPayload ::
  "crypto \<Rightarrow> nat \<Rightarrow> int \<Rightarrow> bytes \<Rightarrow> digest_state \<Rightarrow> (bytes \<times> digest_state) res" where
  "buildRelayPayload C relayCommand streamId data digestState =
     (if length data > MAX_RELAY_DATA then Inl (Error ''data exceeds RELAY capacity'')
      else if streamId < 0 \<or> streamId > 0xFFFF then Inl (Error ''streamId must be 0..65535'')
      else
        let payload = relay_plain relayCommand (nat streamId) data;
            (digest, digestState) = consumeAndDigest C digestState payload
        in Inr (set_at payload OFFSET_DIGEST digest, digestState))"

record relay_parsed =
  rly_relayCommand :: nat
  rly_streamId :: nat
  rly_data :: bytes

text \<open>The results of \<open>tryConsumeRelayPayload\<close>: null, a mismatch, a match.\<close>

datatype consumed = Malformed | Mismatch | Match relay_parsed

definition zero_digest :: "bytes \<Rightarrow> bytes" where
  "zero_digest payload = payload[OFFSET_DIGEST := 0, OFFSET_DIGEST + 1 := 0,
     OFFSET_DIGEST + 2 := 0, OFFSET_DIGEST + 3 := 0]"

definition relay_parse :: "bytes \<Rightarrow> relay_parsed option" where
  "relay_parse payload =
     (let relayCommand = unat (payload ! OFFSET_RELAY_COMMAND);
          streamId = be_val (subarray payload OFFSET_STREAM_ID (OFFSET_STREAM_ID + 2));
          realLength = be_val (subarray payload OFFSET_REAL_LENGTH (OFFSET_REAL_LENGTH + 2))
      in if realLength > MAX_RELAY_DATA then None
         else if \<exists>b\<in>set (subarray payload (OFFSET_RELAY_DATA + realLength) LEN_CELL_PAYLOAD). b \<noteq> 0 then None
         else Some \<lparr>rly_relayCommand = relayCommand, rly_streamId = streamId,
                    rly_data = subarray payload OFFSET_RELAY_DATA (OFFSET_RELAY_DATA + realLength)\<rparr>)"

definition tryConsumeRelayPayload ::
  "crypto \<Rightarrow> bytes \<Rightarrow> digest_state \<Rightarrow> consumed \<times> digest_state" where
  "tryConsumeRelayPayload C payload digestState =
     (if length payload \<noteq> LEN_CELL_PAYLOAD then (Malformed, digestState)
      else
        let zeroed = zero_digest payload;
            tentative = digestState @ zeroed;
            expected = subarray (blake2b_32 C tentative) 0 LEN_DIGEST_FIELD;
            claimed = subarray payload OFFSET_DIGEST (OFFSET_DIGEST + LEN_DIGEST_FIELD)
        in if xor_diff claimed expected 0 \<noteq> 0 then (Mismatch, digestState)
           else
             let digestState = digestState @ zeroed
             in (case relay_parse payload of
                   None \<Rightarrow> (Malformed, digestState)
                 | Some parsed \<Rightarrow> (Match parsed, digestState)))"

section \<open>DESTROY cells\<close>

definition DESTROY_REASON_NONE :: nat where [simp]: "DESTROY_REASON_NONE = 0x00"
definition DESTROY_REASON_PROTOCOL :: nat where [simp]: "DESTROY_REASON_PROTOCOL = 0x01"
definition DESTROY_REASON_INTERNAL :: nat where [simp]: "DESTROY_REASON_INTERNAL = 0x02"
definition DESTROY_REASON_REQUESTED :: nat where [simp]: "DESTROY_REASON_REQUESTED = 0x03"
definition DESTROY_REASON_HIBERNATING :: nat where [simp]: "DESTROY_REASON_HIBERNATING = 0x04"
definition DESTROY_REASON_RESOURCELIMIT :: nat where [simp]: "DESTROY_REASON_RESOURCELIMIT = 0x05"
definition DESTROY_REASON_CONNECTFAILED :: nat where [simp]: "DESTROY_REASON_CONNECTFAILED = 0x06"
definition DESTROY_REASON_OR_IDENTITY :: nat where [simp]: "DESTROY_REASON_OR_IDENTITY = 0x07"
definition DESTROY_REASON_TIMEOUT :: nat where [simp]: "DESTROY_REASON_TIMEOUT = 0x08"

definition buildDestroyCell :: "int \<Rightarrow> nat \<Rightarrow> bytes res" where
  "buildDestroyCell circuitId reason =
     (let payload = (zeros LEN_CELL_PAYLOAD)[0 := u8 reason]
      in buildCell WIRE_VERSION_V2 circuitId CMD_DESTROY payload)"

record destroy_cell =
  dst_circuitId :: nat
  dst_reason :: nat

definition parseDestroyCell :: "bytes \<Rightarrow> destroy_cell option" where
  "parseDestroyCell raw =
     (case parseCell raw of
        None \<Rightarrow> None
      | Some parsed \<Rightarrow>
          if cel_command parsed \<noteq> CMD_DESTROY then None
          else Some \<lparr>dst_circuitId = cel_circuitId parsed, dst_reason = unat (cel_payload parsed ! 0)\<rparr>)"

section \<open>Layout\<close>

text \<open>A RELAY payload with a given digest field.\<close>

definition relay_bytes :: "nat \<Rightarrow> nat \<Rightarrow> bytes \<Rightarrow> bytes \<Rightarrow> bytes" where
  "relay_bytes command streamId digest data =
     u8 command # be_bytes 2 streamId @ digest @ be_bytes 2 (length data) @ data @ zeros (499 - length data)"

lemma length_relay_bytes: "length g = 4 \<Longrightarrow> length d \<le> 499 \<Longrightarrow> length (relay_bytes c s g d) = 508"
  by (simp add: relay_bytes_def)

lemma set_at_zeros_at:
  "off + length src \<le> n \<Longrightarrow> set_at (zeros n) off src = zeros off @ src @ zeros (n - off - length src)"
  by (simp add: set_at_def add.commute)

lemma relay_plain_layout: "length data \<le> 499 \<Longrightarrow> relay_plain c s data = relay_bytes c s (zeros 4) data"
  by (cases data) (simp_all add: relay_plain_def relay_bytes_def Let_def layout set_at_zeros_at)

lemma buildRelayPayload_layout:
  fixes c s data
  assumes "length data \<le> 499" "0 \<le> s" "s \<le> 0xFFFF" "hash_ok C"
  defines "z \<equiv> relay_bytes c (nat s) (zeros 4) data"
  shows "buildRelayPayload C c s data st
    = Inr (relay_bytes c (nat s) (subarray (blake2b_32 C (st @ z)) 0 4) data, st @ z)"
proof -
  have h: "length (blake2b_32 C x) = 32" for x using assms(4) by (simp add: hash_ok_def)
  have "set_at z 3 (subarray (blake2b_32 C (st @ z)) 0 4)
      = relay_bytes c (nat s) (subarray (blake2b_32 C (st @ z)) 0 4) data"
    by (simp add: z_def relay_bytes_def layout set_at_prefix h)
  then show ?thesis
    using assms(1-3)
    by (simp add: buildRelayPayload_def consumeAndDigest_def Let_def relay_plain_layout z_def [symmetric])
qed

lemma zero_digest_relay:
  "length g = 4 \<Longrightarrow> zero_digest (relay_bytes c s g d) = relay_bytes c s (zeros 4) d"
proof -
  assume "length g = 4"
  then obtain a b e f where g: "g = [a, b, e, f]"
    by (auto simp: length_Suc_conv eval_nat_numeral)
  have "zeros 4 = [0, 0, 0, 0]" by (simp add: zeros_def eval_nat_numeral)
  then show ?thesis by (simp add: g zero_digest_def relay_bytes_def layout)
qed

lemma relay_parse_relay:
  assumes "length g = 4" "length d \<le> 499" "c < 256" "s < 65536"
  shows "relay_parse (relay_bytes c s g d)
    = Some \<lparr>rly_relayCommand = c, rly_streamId = s, rly_data = d\<rparr>"
proof -
  have "s < 256 ^ 2" "length d < 256 ^ 2" using assms by simp_all
  note [simp] = be_val_be_bytes_id [OF this(1)] be_val_be_bytes_id [OF this(2)]
  show ?thesis
    using assms set_zeros [of "499 - length d"]
    by (auto simp: relay_parse_def relay_bytes_def Let_def layout unat_u8_id)
qed

lemma consume_relay:
  fixes c s d
  assumes "length g = 4" "length d \<le> 499" "c < 256" "s < 65536" "hash_ok C"
  defines "z \<equiv> relay_bytes c s (zeros 4) d"
  shows "tryConsumeRelayPayload C (relay_bytes c s g d) st
    = (if g = subarray (blake2b_32 C (st @ z)) 0 4
       then (Match \<lparr>rly_relayCommand = c, rly_streamId = s, rly_data = d\<rparr>, st @ z)
       else (Mismatch, st))"
proof -
  have h: "length (blake2b_32 C x) = 32" for x using assms(5) by (simp add: hash_ok_def)
  have "subarray (relay_bytes c s g d) 3 7 = g"
    using assms(1) by (simp add: relay_bytes_def layout)
  then show ?thesis
    using assms(1-4)
    by (simp add: tryConsumeRelayPayload_def Let_def zero_digest_relay relay_parse_relay xor_diff_zero
        length_relay_bytes h z_def)
qed

text \<open>What parses is laid out as the builder lays it out.\<close>

lemma relay_parse_sound:
  assumes "relay_parse p = Some q" "length p = 508"
  shows "p = relay_bytes (rly_relayCommand q) (rly_streamId q) (subarray p 3 7) (rly_data q)
    \<and> rly_relayCommand q < 256 \<and> rly_streamId q < 65536 \<and> length (rly_data q) \<le> 499"
proof -
  let ?n = "be_val (subarray p 7 9)"
  have n: "?n \<le> 499" and z: "\<forall>b\<in>set (subarray p (9 + ?n) 508). b = 0"
    and q: "q = \<lparr>rly_relayCommand = unat (p ! 0), rly_streamId = be_val (subarray p 1 3),
        rly_data = subarray p 9 (9 + ?n)\<rparr>"
    using assms(1) by (auto simp: relay_parse_def Let_def numeral_3_eq_3 split: if_splits)
  have "be_bytes 2 (be_val (subarray p 1 3)) = subarray p 1 3" "be_bytes 2 ?n = subarray p 7 9"
    using assms(2) by (auto intro!: be_bytes_be_val_n)
  moreover have "subarray p (9 + ?n) 508 = zeros (499 - ?n)"
    using z n assms(2) by (simp add: all_zero_iff_zeros)
  moreover have "be_val (subarray p 1 3) < 65536"
    using be_val_bound [of "subarray p 1 3"] assms(2) by simp
  moreover have "p = subarray p 0 1 @ subarray p 1 3 @ subarray p 3 7 @ subarray p 7 9 @ subarray p 9 (9 + ?n)
      @ subarray p (9 + ?n) 508"
    using n assms(2) by (simp add: subarray_join subarray_all)
  moreover have "subarray p 0 1 = [p ! 0]" using assms(2) by (simp add: subarray_byte)
  moreover have "length (subarray p 9 (9 + ?n)) = ?n" using n assms(2) by simp
  ultimately show ?thesis
    using n unat_byte_bound [of "p ! 0"] by (simp add: q relay_bytes_def)
qed

lemma consume_sound:
  assumes "tryConsumeRelayPayload C p st = (Match q, st')" "hash_ok C"
  shows "buildRelayPayload C (rly_relayCommand q) (int (rly_streamId q)) (rly_data q) st = Inr (p, st')
    \<and> rly_relayCommand q < 256"
proof -
  have len: "length p = 508" and r: "relay_parse p = Some q"
    using assms(1) by (auto simp: tryConsumeRelayPayload_def Let_def split: if_splits option.splits)
  let ?g = "subarray p 3 7"
  have p: "p = relay_bytes (rly_relayCommand q) (rly_streamId q) ?g (rly_data q)"
    and b: "rly_relayCommand q < 256" "rly_streamId q < 65536" "length (rly_data q) \<le> 499"
    using relay_parse_sound [OF r len] by blast+
  have g: "length ?g = 4" using len by simp
  let ?z = "relay_bytes (rly_relayCommand q) (rly_streamId q) (zeros 4) (rly_data q)"
  have "?g = subarray (blake2b_32 C (st @ ?z)) 0 4" "st' = st @ ?z"
    using assms(1) consume_relay [OF g b(3,1,2) assms(2), of st] p by (auto split: if_splits)
  then show ?thesis
    using buildRelayPayload_layout [OF b(3), of "int (rly_streamId q)" C "rly_relayCommand q" st] b p assms(2)
    by simp
qed

lemma buildRelayPayload_ok:
  "buildRelayPayload C c s d st = Inr (p, st') \<Longrightarrow> length d \<le> 499 \<and> 0 \<le> s \<and> s \<le> 0xFFFF"
  by (auto simp: buildRelayPayload_def split: if_splits)

lemma consume_built:
  assumes "buildRelayPayload C c s d st = Inr (p, st')" "hash_ok C" "c < 256"
  shows "tryConsumeRelayPayload C p st
    = (Match \<lparr>rly_relayCommand = c, rly_streamId = nat s, rly_data = d\<rparr>, st')"
proof -
  have ok: "length d \<le> 499" "0 \<le> s" "s \<le> 0xFFFF" using buildRelayPayload_ok [OF assms(1)] by blast+
  let ?z = "relay_bytes c (nat s) (zeros 4) d"
  let ?g = "subarray (blake2b_32 C (st @ ?z)) 0 4"
  have p: "p = relay_bytes c (nat s) ?g d" "st' = st @ ?z"
    using buildRelayPayload_layout [OF ok assms(2), of c st] assms(1) by auto
  have "length ?g = 4" using assms(2) by (simp add: hash_ok_def)
  from consume_relay [OF this ok(1) assms(3) _ assms(2), of "nat s" st] show ?thesis
    using ok p by simp
qed

text \<open>For each digest state the builder and the receiver are a codec of payloads and next states.\<close>

definition relay_ok :: "relay_parsed \<Rightarrow> bool" where
  "relay_ok q \<longleftrightarrow> rly_relayCommand q < 256 \<and> rly_streamId q < 65536 \<and> length (rly_data q) \<le> 499"

definition build_relay_of :: "crypto \<Rightarrow> digest_state \<Rightarrow> relay_parsed \<Rightarrow> (bytes \<times> digest_state) res" where
  "build_relay_of C st q =
     buildRelayPayload C (rly_relayCommand q) (int (rly_streamId q)) (rly_data q) st"

definition consume_of :: "crypto \<Rightarrow> digest_state \<Rightarrow> bytes \<times> digest_state \<Rightarrow> relay_parsed option" where
  "consume_of C st = (\<lambda>(p, st').
     case tryConsumeRelayPayload C p st of (Match q, st2) \<Rightarrow> if st2 = st' then Some q else None | _ \<Rightarrow> None)"

lemma consume_of_iff: "consume_of C st (p, st') = Some q \<longleftrightarrow> tryConsumeRelayPayload C p st = (Match q, st')"
  by (auto simp: consume_of_def split: prod.splits consumed.splits)

definition hashed :: "crypto \<Rightarrow> crypto" where
  "hashed C = (if hash_ok C then C else toy_crypto)"

lemma hash_ok_hashed: "hash_ok (hashed C)" "hash_ok C \<Longrightarrow> hashed C = C"
  by (simp_all add: hashed_def toy_hash_ok)

interpretation rl: frame_codec "build_relay_of (hashed C) st" "consume_of (hashed C) st" relay_ok for C st
proof
  fix q assume ok: "relay_ok q"
  then obtain p st' where "build_relay_of (hashed C) st q = Inr (p, st')"
    using buildRelayPayload_layout [OF _ _ _ hash_ok_hashed(1)]
    by (fastforce simp: build_relay_of_def relay_ok_def)
  moreover from this have "consume_of (hashed C) st (p, st') = Some q"
    using consume_built [OF _ hash_ok_hashed(1)] ok
    by (simp add: consume_of_iff build_relay_of_def relay_ok_def)
  ultimately show "\<exists>bs. build_relay_of (hashed C) st q = Inr bs \<and> consume_of (hashed C) st bs = Some q" by blast
next
  fix bs q assume "consume_of (hashed C) st bs = Some q"
  then have c: "tryConsumeRelayPayload (hashed C) (fst bs) st = (Match q, snd bs)"
    using consume_of_iff by (metis prod.collapse)
  show "relay_ok q \<and> build_relay_of (hashed C) st q = Inr bs"
    using consume_sound [OF c hash_ok_hashed(1)] buildRelayPayload_ok
    by (fastforce simp: relay_ok_def build_relay_of_def)
qed

section \<open>Sender and receiver in step\<close>

fun send_relay :: "crypto \<Rightarrow> digest_state \<Rightarrow> relay_parsed list \<Rightarrow> (bytes list \<times> digest_state) res" where
  "send_relay C st [] = Inr ([], st)"
| "send_relay C st (q # qs) =
     (case build_relay_of C st q of
        Inl e \<Rightarrow> Inl e
      | Inr (p, st') \<Rightarrow>
          (case send_relay C st' qs of Inl e \<Rightarrow> Inl e | Inr (ps, st'') \<Rightarrow> Inr (p # ps, st'')))"

text \<open>The receiver meets its own cells interleaved with cells that are not for it, which it passes on.\<close>

fun recv_relay :: "crypto \<Rightarrow> digest_state \<Rightarrow> bytes list \<Rightarrow> consumed list \<times> digest_state" where
  "recv_relay C st [] = ([], st)"
| "recv_relay C st (p # ps) =
     (let (r, st) = tryConsumeRelayPayload C p st; (rs, st) = recv_relay C st ps in (r # rs, st))"

lemma recv_send:
  "send_relay C st qs = Inr (ps, st') \<Longrightarrow> hash_ok C \<Longrightarrow> list_all (\<lambda>q. rly_relayCommand q < 256) qs \<Longrightarrow>
   recv_relay C st ps = (map Match qs, st')"
proof (induction qs arbitrary: st ps)
  case Nil
  then show ?case by simp
next
  case (Cons q qs)
  obtain p st1 ps' where b: "build_relay_of C st q = Inr (p, st1)"
    and s: "send_relay C st1 qs = Inr (ps', st')" and ps: "ps = p # ps'"
    using Cons.prems(1) by (auto split: sum.splits)
  have "tryConsumeRelayPayload C p st = (Match q, st1)"
    using consume_built [OF b [unfolded build_relay_of_def] Cons.prems(2)] Cons.prems(3) by simp
  then show ?case using Cons.IH [OF s] Cons.prems ps by simp
qed

section \<open>Properties\<close>

text \<open>The RELAY payload codec: whatever bytes and digest state a receiver has, it reports a match with
  a cell exactly when the bytes are what the builder writes for that cell from the same state, and
  it then moves to the builder's next state. In particular a built cell is accepted, and two
  different payloads never match as the same cell.\<close>

theorem relay_codec:
  assumes "hash_ok C"
  shows "tryConsumeRelayPayload C p st = (Match q, st')
    \<longleftrightarrow> relay_ok q \<and> buildRelayPayload C (rly_relayCommand q) (int (rly_streamId q)) (rly_data q) st = Inr (p, st')"
  using rl.parse_iff [of C st "(p, st')" q]
  by (simp add: hash_ok_hashed(2) [OF assms] consume_of_iff build_relay_of_def)

text \<open>A cell for another hop leaves the receiver as it was: on any result but a match of the digest the
  state does not change, and a state that changes has absorbed exactly that payload with its digest
  field zeroed.\<close>

theorem relay_digest_state:
  "case tryConsumeRelayPayload C p st of (r, st') \<Rightarrow>
     (case r of Match q \<Rightarrow> st' = st @ zero_digest p | Mismatch \<Rightarrow> st' = st
      | Malformed \<Rightarrow> st' = st \<or> st' = st @ zero_digest p \<and> relay_parse p = None)"
  by (auto simp: tryConsumeRelayPayload_def Let_def split: option.splits)

text \<open>A stream of RELAY cells: whatever sequence of cells a sender builds, a receiver that starts from the
  same key consumes every one of them, in order, with the contents sent, and ends in the sender's
  state.\<close>

theorem relay_stream_in_step:
  assumes "hash_ok C" "createDigestState k = Inr st"
    and "send_relay C st qs = Inr (ps, st')" "list_all (\<lambda>q. rly_relayCommand q < 256) qs"
  shows "recv_relay C st ps = (map Match qs, st')"
  using assms by (intro recv_send)

definition toy_cells :: "relay_parsed list" where
  "toy_cells = [\<lparr>rly_relayCommand = 0, rly_streamId = 1, rly_data = [104, 105]\<rparr>,
     \<lparr>rly_relayCommand = 2, rly_streamId = 1, rly_data = []\<rparr>]"

lemma build_relay_exists:
  "relay_ok q \<Longrightarrow> hash_ok C \<Longrightarrow> \<exists>p st'. build_relay_of C st q = Inr (p, st')"
  using buildRelayPayload_layout [of "rly_data q" "int (rly_streamId q)" C "rly_relayCommand q" st]
  by (simp add: build_relay_of_def relay_ok_def)

theorem relay_codec_witness:
  "\<exists>p st'. tryConsumeRelayPayload toy_crypto p (zeros 32)
    = (Match \<lparr>rly_relayCommand = 0, rly_streamId = 1, rly_data = [104, 105]\<rparr>, st')"
proof -
  let ?q = "\<lparr>rly_relayCommand = 0, rly_streamId = 1, rly_data = [104, 105]\<rparr>"
  have "relay_ok ?q" by (simp add: relay_ok_def)
  then obtain p st' where "build_relay_of toy_crypto (zeros 32) ?q = Inr (p, st')"
    using build_relay_exists [OF _ toy_hash_ok] by blast
  then show ?thesis
    using relay_codec [OF toy_hash_ok, of p "zeros 32" ?q st'] \<open>relay_ok ?q\<close>
    by (auto simp: build_relay_of_def)
qed

theorem relay_stream_in_step_witness:
  "\<exists>ps st'. send_relay toy_crypto (zeros 32) toy_cells = Inr (ps, st') \<and> length ps = 2
     \<and> recv_relay toy_crypto (zeros 32) ps = (map Match toy_cells, st')"
proof -
  have ok: "list_all relay_ok toy_cells" by (simp add: toy_cells_def relay_ok_def)
  have "\<exists>ps st'. send_relay toy_crypto st qs = Inr (ps, st') \<and> length ps = length qs"
    if "list_all relay_ok qs" for st qs
    using that
  proof (induction qs arbitrary: st)
    case Nil
    then show ?case by simp
  next
    case (Cons q qs)
    then obtain p st1 where "build_relay_of toy_crypto st q = Inr (p, st1)"
      using build_relay_exists [OF _ toy_hash_ok, of q st] by auto
    moreover obtain ps st' where "send_relay toy_crypto st1 qs = Inr (ps, st')" "length ps = length qs"
      using Cons.IH [of st1] Cons.prems by auto
    ultimately show ?case by simp
  qed
  from this [OF ok, of "zeros 32"] obtain ps st' where
    s: "send_relay toy_crypto (zeros 32) toy_cells = Inr (ps, st')" "length ps = length toy_cells" by blast
  have "list_all (\<lambda>q. rly_relayCommand q < 256) toy_cells" by (simp add: toy_cells_def)
  then have "recv_relay toy_crypto (zeros 32) ps = (map Match toy_cells, st')"
    using relay_stream_in_step [OF toy_hash_ok, of "zeros 32"] s by (simp add: createDigestState_def)
  then show ?thesis using s by (auto simp: toy_cells_def)
qed

text \<open>DESTROY cells round trip.\<close>

lemma destroy_roundtrip:
  assumes "0 \<le> cid" "cid \<le> 0xFFFFFFFF" "reason < 256"
  shows "\<exists>raw. buildDestroyCell cid reason = Inr raw
    \<and> parseDestroyCell raw = Some \<lparr>dst_circuitId = nat cid, dst_reason = reason\<rparr>"
proof -
  let ?p = "(zeros 508)[0 := u8 reason]"
  have b: "buildDestroyCell cid reason = Inr (cell_bytes 2 (nat cid) 4 ?p)"
    using assms buildCell_layout [of cid ?p] by (simp add: buildDestroyCell_def)
  have "nat cid < 2 ^ 32" using assms by (simp add: nat_less_iff)
  then have "parseCell (cell_bytes 2 (nat cid) 4 ?p) = Some \<lparr>cel_version = 2, cel_circuitId = nat cid,
      cel_command = 4, cel_payload = ?p\<rparr>"
    using parse_cell_bytes [of 2 "nat cid" 4 ?p] by simp
  then show ?thesis using b assms(3) by (simp add: parseDestroyCell_def unat_u8_id)
qed

end
