(* ===== verification/V2_Fragment.thy ===== *)
theory V2_Fragment
  imports V2_Cells JsMap Machine "HOL-Library.Multiset"
begin

text \<open>
  \<open>modules/v2/fragment.mjs\<close>: a handshake message is cut into fragments of one size and put
  together again by a reassembler that keeps partial messages under their handshake id. The map's
  keys are numbers here. \<open>now\<close> is an argument of \<open>ingest\<close>.
\<close>

section \<open>Fragments\<close>

definition LEN_FRAGMENT_HEADER :: nat where [simp]: "LEN_FRAGMENT_HEADER = 8"
definition FRAGMENT_PAYLOAD_CAPACITY :: nat where [simp]: "FRAGMENT_PAYLOAD_CAPACITY = 500"
definition OFFSET_FRAGMENT_INDEX :: nat where [simp]: "OFFSET_FRAGMENT_INDEX = 0"
definition OFFSET_FRAGMENT_COUNT :: nat where [simp]: "OFFSET_FRAGMENT_COUNT = 1"
definition OFFSET_HANDSHAKE_ID :: nat where [simp]: "OFFSET_HANDSHAKE_ID = 2"
definition OFFSET_PAYLOAD_LEN :: nat where [simp]: "OFFSET_PAYLOAD_LEN = 6"
definition OFFSET_FRAGMENT_DATA :: nat where [simp]: "OFFSET_FRAGMENT_DATA = 8"
definition MAX_FRAGMENT_COUNT :: nat where [simp]: "MAX_FRAGMENT_COUNT = 255"
definition MAX_REASSEMBLED_BYTES :: nat where [simp]: "MAX_REASSEMBLED_BYTES = 65536"

text \<open>\<open>Math.ceil(message.length / payloadCapacity)\<close>\<close>

definition ceil_div :: "nat \<Rightarrow> nat \<Rightarrow> nat" where
  "ceil_div n d = (n + d - 1) div d"

definition make_fragment :: "bytes \<Rightarrow> nat \<Rightarrow> nat \<Rightarrow> nat \<Rightarrow> nat \<Rightarrow> bytes" where
  "make_fragment message handshakeId payloadCapacity cnt i =
     (let start = i * payloadCapacity;
          end = min (start + payloadCapacity) (length message);
          payloadLen = end - start;
          frag = zeros (payloadCapacity + LEN_FRAGMENT_HEADER);
          frag = frag[OFFSET_FRAGMENT_INDEX := u8 i];
          frag = frag[OFFSET_FRAGMENT_COUNT := u8 cnt];
          frag = set_at frag OFFSET_HANDSHAKE_ID (be_bytes 4 handshakeId);
          frag = set_at frag OFFSET_PAYLOAD_LEN (be_bytes 2 payloadLen)
      in set_at frag OFFSET_FRAGMENT_DATA (subarray message start end))"

definition fragmentMessage :: "bytes \<Rightarrow> int \<Rightarrow> int \<Rightarrow> bytes list res" where
  "fragmentMessage message handshakeId payloadCapacity =
     (if handshakeId < 0 \<or> handshakeId > 0xFFFFFFFF then Inl (Error ''handshakeId must be a u32'')
      else if length message = 0 then Inl (Error ''cannot fragment empty message'')
      else if payloadCapacity \<le> 0 \<or> payloadCapacity > 0xFFFF
        then Inl (Error ''payloadCapacity must be a positive u16'')
      else
        let capacity = nat payloadCapacity;
            cnt = ceil_div (length message) capacity
        in if cnt > MAX_FRAGMENT_COUNT then Inl (Error ''message too large to fragment'')
           else Inr (map (make_fragment message (nat handshakeId) capacity cnt) [0..<cnt]))"

record fragment =
  frg_index :: nat
  frg_count :: nat
  frg_handshakeId :: nat
  frg_fragmentSize :: nat
  frg_data :: bytes

definition parseFragmentHeader :: "bytes \<Rightarrow> fragment option" where
  "parseFragmentHeader frag =
     (if length frag < LEN_FRAGMENT_HEADER + 1 then None
      else
        let capacity = length frag - LEN_FRAGMENT_HEADER;
            index = unat (frag ! OFFSET_FRAGMENT_INDEX);
            cnt = unat (frag ! OFFSET_FRAGMENT_COUNT);
            handshakeId = be_val (subarray frag OFFSET_HANDSHAKE_ID (OFFSET_HANDSHAKE_ID + 4));
            payloadLen = be_val (subarray frag OFFSET_PAYLOAD_LEN (OFFSET_PAYLOAD_LEN + 2))
        in if cnt = 0 \<or> cnt > MAX_FRAGMENT_COUNT then None
           else if index \<ge> cnt then None
           else if payloadLen > capacity then None
           else if index < cnt - 1 \<and> payloadLen \<noteq> capacity then None
           else if \<exists>b\<in>set (subarray frag (OFFSET_FRAGMENT_DATA + payloadLen) (length frag)). b \<noteq> 0 then None
           else Some \<lparr>frg_index = index, frg_count = cnt, frg_handshakeId = handshakeId,
                      frg_fragmentSize = length frag,
                      frg_data = subarray frag OFFSET_FRAGMENT_DATA (OFFSET_FRAGMENT_DATA + payloadLen)\<rparr>)"

section \<open>The reassembler\<close>

record partial =
  prt_count :: nat
  prt_fragmentSize :: nat
  prt_fragments :: "bytes option list"
  prt_received :: nat
  prt_createdAt :: int

record reassembler =
  rsm_timeoutMs :: int
  rsm_maxConcurrent :: nat
  rsm_inFlight :: "(nat, partial) jsmap"

definition createReassembler :: "int \<Rightarrow> nat \<Rightarrow> reassembler" where
  "createReassembler timeoutMs maxConcurrent =
     \<lparr>rsm_timeoutMs = timeoutMs, rsm_maxConcurrent = maxConcurrent, rsm_inFlight = []\<rparr>"

text \<open>Null, more fragments expected, or the message.\<close>

datatype ingested = Failed | Waiting | Complete bytes

text \<open>The first key whose time is the least (\<open>oldestAt\<close> starts at Infinity).\<close>

fun oldest_loop :: "(nat \<times> partial) list \<Rightarrow> (nat \<times> int) option \<Rightarrow> nat option" where
  "oldest_loop [] best = map_option fst best"
| "oldest_loop ((k, v) # rest) best =
     (if best = None \<or> prt_createdAt v < snd (the best)
        then oldest_loop rest (Some (k, prt_createdAt v))
      else oldest_loop rest best)"

definition make_room :: "nat \<Rightarrow> (nat, partial) jsmap \<Rightarrow> (nat, partial) jsmap" where
  "make_room maxConcurrent inFlight =
     (if map_size inFlight \<ge> maxConcurrent then
        (case oldest_loop inFlight None of
           None \<Rightarrow> inFlight
         | Some oldestKey \<Rightarrow> map_delete oldestKey inFlight)
      else inFlight)"

definition open_entry :: "nat \<Rightarrow> int \<Rightarrow> fragment \<Rightarrow> (nat, partial) jsmap \<Rightarrow> partial \<times> (nat, partial) jsmap" where
  "open_entry maxConcurrent now f inFlight =
     (case map_get inFlight (frg_handshakeId f) of
        Some entry \<Rightarrow> (entry, inFlight)
      | None \<Rightarrow>
          let inFlight = make_room maxConcurrent inFlight;
              entry = \<lparr>prt_count = frg_count f, prt_fragmentSize = frg_fragmentSize f,
                       prt_fragments = replicate (frg_count f) None, prt_received = 0,
                       prt_createdAt = now\<rparr>
          in (entry, map_set (frg_handshakeId f) entry inFlight))"

definition assemble :: "bytes option list \<Rightarrow> bytes" where
  "assemble parts = concat (map (\<lambda>p. case p of None \<Rightarrow> [] | Some d \<Rightarrow> d) parts)"

text \<open>A fragment that contradicts the entry leaves the entry; a duplicate drops it.\<close>

definition ingest_parsed :: "nat \<Rightarrow> int \<Rightarrow> fragment \<Rightarrow> (nat, partial) jsmap \<Rightarrow> ingested \<times> (nat, partial) jsmap" where
  "ingest_parsed maxConcurrent now f inFlight =
     (let (entry, inFlight) = open_entry maxConcurrent now f inFlight;
          hid = frg_handshakeId f
      in if prt_count entry \<noteq> frg_count f then (Failed, inFlight)
         else if prt_fragmentSize entry \<noteq> frg_fragmentSize f then (Failed, inFlight)
         else if prt_fragments entry ! frg_index f \<noteq> None then (Failed, map_delete hid inFlight)
         else
           let entry = entry\<lparr>prt_fragments := (prt_fragments entry)[frg_index f := Some (frg_data f)],
                             prt_received := prt_received entry + 1\<rparr>
           in if prt_received entry < prt_count entry then (Waiting, map_set hid entry inFlight)
              else
                let message = assemble (prt_fragments entry)
                in if length message > MAX_REASSEMBLED_BYTES then (Failed, map_delete hid inFlight)
                   else (Complete message, map_delete hid inFlight))"

definition ingest :: "int \<Rightarrow> bytes \<Rightarrow> reassembler \<Rightarrow> ingested \<times> reassembler" where
  "ingest now cellPayload r =
     (case parseFragmentHeader cellPayload of
        None \<Rightarrow> (Failed, r)
      | Some f \<Rightarrow>
          let (res, inFlight) = ingest_parsed (rsm_maxConcurrent r) now f (rsm_inFlight r)
          in (res, r\<lparr>rsm_inFlight := inFlight\<rparr>))"

fun sweep_loop :: "int \<Rightarrow> (nat \<times> partial) list \<Rightarrow> (nat, partial) jsmap \<Rightarrow> nat \<Rightarrow> nat \<times> (nat, partial) jsmap" where
  "sweep_loop cutoff [] m dropped = (dropped, m)"
| "sweep_loop cutoff ((k, v) # rest) m dropped =
     (if prt_createdAt v < cutoff then sweep_loop cutoff rest (map_delete k m) (dropped + 1)
      else sweep_loop cutoff rest m dropped)"

definition sweep :: "int \<Rightarrow> reassembler \<Rightarrow> nat \<times> reassembler" where
  "sweep currentMs r =
     (let cutoff = currentMs - rsm_timeoutMs r;
          (dropped, m) = sweep_loop cutoff (rsm_inFlight r) (rsm_inFlight r) 0
      in (dropped, r\<lparr>rsm_inFlight := m\<rparr>))"

definition reassembler_size :: "reassembler \<Rightarrow> nat" where
  "reassembler_size r = map_size (rsm_inFlight r)"

section \<open>Fragments, laid out\<close>

definition fragment_bytes :: "nat \<Rightarrow> nat \<Rightarrow> nat \<Rightarrow> nat \<Rightarrow> bytes \<Rightarrow> bytes" where
  "fragment_bytes i cnt hid capacity data =
     u8 i # u8 cnt # be_bytes 4 hid @ be_bytes 2 (length data) @ data @ zeros (capacity - length data)"

lemma make_fragment_layout:
  "i * cap \<le> length m \<Longrightarrow> make_fragment m hid cap cnt i
    = fragment_bytes i cnt hid cap (subarray m (i * cap) (min (i * cap + cap) (length m)))"
proof -
  assume k: "i * cap \<le> length m"
  define n where "n = min (i * cap + cap) (length m) - i * cap"
  have n: "n \<le> cap" "length (subarray m (i * cap) (min (i * cap + cap) (length m))) = n"
    using k by (auto simp: n_def)
  show ?thesis
    using n n_def by (simp add: make_fragment_def fragment_bytes_def Let_def layout)
qed

lemma parse_fragment_bytes:
  assumes "i < cnt" "cnt \<le> 255" "hid < 2 ^ 32" "0 < cap" "length d \<le> cap" "cap \<le> 0xFFFF"
    and "i < cnt - 1 \<longrightarrow> length d = cap"
  shows "parseFragmentHeader (fragment_bytes i cnt hid cap d) = Some \<lparr>frg_index = i, frg_count = cnt,
    frg_handshakeId = hid, frg_fragmentSize = cap + 8, frg_data = d\<rparr>"
proof -
  have "hid < 256 ^ 4" "length d < 256 ^ 2" using assms by simp_all
  note [simp] = be_val_be_bytes_id [OF this(1)] be_val_be_bytes_id [OF this(2)]
  show ?thesis
    using assms set_zeros [of "cap - length d"]
    by (auto simp: parseFragmentHeader_def fragment_bytes_def Let_def layout unat_u8_id)
qed

lemma parse_ok:
  "parseFragmentHeader c = Some f \<Longrightarrow> 0 < frg_count f \<and> frg_count f \<le> 255 \<and> frg_index f < frg_count f"
  by (auto simp: parseFragmentHeader_def Let_def split: if_splits)

section \<open>One message among others\<close>

text \<open>The parts of a message, and the fragment that carries part \<open>i\<close>.\<close>

definition part :: "bytes \<Rightarrow> nat \<Rightarrow> nat \<Rightarrow> bytes" where
  "part m cap i = subarray m (i * cap) (min (i * cap + cap) (length m))"

definition fragment_of :: "bytes \<Rightarrow> nat \<Rightarrow> nat \<Rightarrow> nat \<Rightarrow> fragment" where
  "fragment_of m hid cap i = \<lparr>frg_index = i, frg_count = ceil_div (length m) cap, frg_handshakeId = hid,
     frg_fragmentSize = cap + 8, frg_data = part m cap i\<rparr>"

text \<open>The reassembler has the parts in \<open>S\<close> of the message and no others.\<close>

definition holds :: "bytes \<Rightarrow> nat \<Rightarrow> nat \<Rightarrow> nat set \<Rightarrow> (nat, partial) jsmap \<Rightarrow> bool" where
  "holds m hid cap S fl \<longleftrightarrow>
     (let n = ceil_div (length m) cap
      in if S = {} then map_get fl hid = None
         else \<exists>t. map_get fl hid = Some \<lparr>prt_count = n, prt_fragmentSize = cap + 8,
           prt_fragments = map (\<lambda>i. if i \<in> S then Some (part m cap i) else None) [0..<n],
           prt_received = card S, prt_createdAt = t\<rparr>)"

lemma ceil_arith:
  "a + d \<le> n + d - 1 \<Longrightarrow> n + d - 1 < a + d + d \<Longrightarrow> 0 < n \<Longrightarrow> 0 < d \<Longrightarrow> a < n \<and> n \<le> a + (d :: nat)"
  by arith

lemma ceil_div_bounds:
  assumes "0 < d" "0 < n"
  shows "(ceil_div n d - 1) * d < n \<and> n \<le> ceil_div n d * d \<and> 0 < ceil_div n d"
proof -
  define q where "q = (n + d - 1) div d"
  have q: "0 < q" using assms by (simp add: q_def div_greater_zero_iff)
  then have qd: "q * d = (q - 1) * d + d" by (cases q) simp_all
  have "q * d \<le> n + d - 1" by (simp add: q_def)
  moreover have "n + d - 1 < q * d + d"
    using assms(1) dividend_less_div_times [of d "n + d - 1"] by (simp add: q_def)
  ultimately have "(q - 1) * d < n \<and> n \<le> (q - 1) * d + d"
    using ceil_arith [of "(q - 1) * d" d n] assms unfolding qd by blast
  then show ?thesis using q qd unfolding ceil_div_def q_def [symmetric] by simp
qed

lemma concat_parts:
  "k * cap \<le> length m + cap \<Longrightarrow> concat (map (part m cap) [0..<k]) = take (k * cap) m"
proof (induction k)
  case 0
  then show ?case by simp
next
  case (Suc k)
  have "part m cap k = take cap (drop (k * cap) m)"
    using Suc.prems by (auto simp: part_def subarray_def min_def)
  then show ?case using Suc take_add [of "k * cap" cap m] by (simp add: add.commute)
qed

lemma concat_all_parts:
  assumes "0 < cap" "m \<noteq> []"
  shows "concat (map (part m cap) [0..<ceil_div (length m) cap]) = m"
proof -
  let ?n = "ceil_div (length m) cap"
  note b = ceil_div_bounds [OF assms(1), of "length m"]
  have "?n * cap = (?n - 1) * cap + cap" using b assms by (cases ?n) simp_all
  then show ?thesis using b assms concat_parts [of ?n cap m] by simp
qed

lemma parse_make_fragment:
  assumes "m \<noteq> []" "0 < cap" "cap \<le> 0xFFFF" "ceil_div (length m) cap \<le> 255" "hid < 2 ^ 32"
    and i: "i < ceil_div (length m) cap"
  shows "parseFragmentHeader (make_fragment m hid cap (ceil_div (length m) cap) i) = Some (fragment_of m hid cap i)"
proof -
  let ?n = "ceil_div (length m) cap"
  note b = ceil_div_bounds [OF assms(2), of "length m"]
  have le: "i * cap \<le> (?n - 1) * cap" using i by (intro mult_le_mono1) simp
  have "(?n - 1) * cap < length m" using b assms(1) by blast
  with le have k: "i * cap \<le> length m" by linarith
  have full: "length (part m cap i) = cap" if "i < ?n - 1"
  proof -
    have "(i + 1) * cap \<le> (?n - 1) * cap" using that by (intro mult_le_mono1) simp
    moreover have "(?n - 1) * cap < length m" using b assms(1) by blast
    ultimately have "i * cap + cap \<le> length m" by (simp only: add_mult_distrib mult_1)
    then show ?thesis by (simp add: part_def)
  qed
  have "parseFragmentHeader (fragment_bytes i ?n hid cap (part m cap i)) = Some (fragment_of m hid cap i)"
    using assms full unfolding fragment_of_def
    by (intro parse_fragment_bytes) (auto simp: part_def)
  then show ?thesis using make_fragment_layout [OF k] by (simp add: part_def)
qed

text \<open>A fragment of the message moves its index into the set; the last one completes the message.\<close>

lemma ingest_own:
  assumes "holds m hid cap S fl" "S \<subseteq> {..<ceil_div (length m) cap}" "i < ceil_div (length m) cap" "i \<notin> S"
    and "0 < cap" "m \<noteq> []"
    and ing: "ingest_parsed mx now (fragment_of m hid cap i) fl = (r, fl')"
  shows "if insert i S = {..<ceil_div (length m) cap}
    then r = (if length m > 65536 then Failed else Complete m) \<and> map_get fl' hid = None
    else r = Waiting \<and> holds m hid cap (insert i S) fl'"
proof -
  let ?n = "ceil_div (length m) cap"
  let ?parts = "\<lambda>S. map (\<lambda>i. if i \<in> S then Some (part m cap i) else None) [0..<?n]"
  have fin: "finite S" using assms(2) finite_subset by blast
  obtain t fl1 where oe: "open_entry mx now (fragment_of m hid cap i) fl = (\<lparr>prt_count = ?n,
      prt_fragmentSize = cap + 8, prt_fragments = ?parts S, prt_received = card S, prt_createdAt = t\<rparr>, fl1)"
  proof (cases "S = {}")
    case True
    have "replicate ?n None = ?parts {}" by (simp add: map_replicate_const)
    then show thesis
      using that True assms(1) by (simp add: holds_def Let_def open_entry_def fragment_of_def)
  next
    case False
    then show thesis
      using that assms(1) by (auto simp: holds_def Let_def open_entry_def fragment_of_def)
  qed
  have upd: "(?parts S)[i := Some (part m cap i)] = ?parts (insert i S)"
    using assms(3) by (intro nth_equalityI) (auto simp: nth_list_update)
  have card: "card (insert i S) = Suc (card S)" using fin assms(4) by simp
  have full: "insert i S = {..<?n} \<longleftrightarrow> \<not> Suc (card S) < ?n"
  proof
    assume "insert i S = {..<?n}"
    then show "\<not> Suc (card S) < ?n" using card by (metis card_lessThan less_irrefl)
  next
    assume "\<not> Suc (card S) < ?n"
    moreover have "insert i S \<subseteq> {..<?n}" using assms(2,3) by simp
    ultimately show "insert i S = {..<?n}"
      using card by (metis card_lessThan card_seteq finite_lessThan not_less)
  qed
  show ?thesis
  proof (cases "Suc (card S) < ?n")
    case True
    then show ?thesis
      using ing oe upd assms(3,4) full card
      by (auto simp: ingest_parsed_def fragment_of_def holds_def Let_def jm.get_put)
  next
    case False
    then have all: "insert i S = {..<?n}" using full by simp
    have "assemble (?parts (insert i S)) = concat (map (part m cap) [0..<?n])"
      unfolding all assemble_def map_map
      by (intro arg_cong [where f = concat] map_cong) (simp_all add: comp_def)
    also have "\<dots> = m" by (rule concat_all_parts [OF assms(5,6)])
    finally have asm: "assemble (?parts (insert i S)) = m" .
    have "ingest_parsed mx now (fragment_of m hid cap i) fl
        = (if length m > 65536 then Failed else Complete m, map_delete hid fl1)"
      using oe upd assms(3,4) False asm by (simp add: ingest_parsed_def fragment_of_def)
    then show ?thesis using ing all by (simp add: jm.get_del)
  qed
qed

section \<open>Other messages\<close>

lemma oldest_loop_mem: "oldest_loop xs best = Some k \<Longrightarrow> k \<in> set (map fst xs) \<or> best \<noteq> None \<and> k = fst (the best)"
  by (induction xs best rule: oldest_loop.induct) (auto split: if_splits)

lemma make_room_keys: "set (map_keys (make_room mx fl)) \<subseteq> set (map_keys fl)"
  by (auto simp: make_room_def jm.keys_del split: option.splits)

lemma make_room_distinct: "distinct (map_keys fl) \<Longrightarrow> distinct (map_keys (make_room mx fl))"
  by (auto simp: make_room_def jm.distinct_del split: option.splits)

lemma make_room_free: "map_size fl < mx \<Longrightarrow> make_room mx fl = fl"
  by (simp add: make_room_def)

lemma ingest_parsed_keys:
  "ingest_parsed mx now f fl = (r, fl') \<Longrightarrow> distinct (map_keys fl) \<Longrightarrow>
   distinct (map_keys fl') \<and> set (map_keys fl') \<subseteq> insert (frg_handshakeId f) (set (map_keys fl))"
  using make_room_keys [of mx fl] make_room_distinct [of fl mx]
  by (auto simp: ingest_parsed_def open_entry_def Let_def jm.keys_put jm.keys_del
      jm.distinct_put jm.distinct_del split: option.splits if_splits)

text \<open>A fragment of another message leaves this one alone, as long as there is room for both.\<close>

lemma ingest_other:
  assumes "ingest_parsed mx now f fl = (r, fl')" "frg_handshakeId f \<noteq> hid"
    and "map_get fl (frg_handshakeId f) \<noteq> None \<or> map_size fl < mx"
  shows "map_get fl' hid = map_get fl hid"
  using assms make_room_free [of fl mx]
  by (auto simp: ingest_parsed_def open_entry_def Let_def jm.get_put jm.get_del split: option.splits if_splits)

fun ingest_run :: "(int \<times> bytes) list \<Rightarrow> reassembler \<Rightarrow> ingested list \<times> reassembler" where
  "ingest_run [] r = ([], r)"
| "ingest_run ((now, c) # cs) r =
     (let (x, r) = ingest now c r; (xs, r) = ingest_run cs r in (x # xs, r))"

text \<open>The ids of all the messages in a sequence of cells, and which cells belong to one message.\<close>

definition cell_ids :: "(int \<times> bytes) list \<Rightarrow> nat set" where
  "cell_ids cs = {frg_handshakeId f |f t c. (t, c) \<in> set cs \<and> parseFragmentHeader c = Some f}"

definition cell_of :: "nat \<Rightarrow> int \<times> bytes \<Rightarrow> bool" where
  "cell_of hid tc = (case parseFragmentHeader (snd tc) of None \<Rightarrow> False | Some f \<Rightarrow> frg_handshakeId f = hid)"

definition cell_index :: "int \<times> bytes \<Rightarrow> nat" where
  "cell_index tc = (case parseFragmentHeader (snd tc) of None \<Rightarrow> 0 | Some f \<Rightarrow> frg_index f)"

lemma size_bound:
  assumes "distinct (map_keys fl)" "set (map_keys fl) \<subseteq> K" "finite K" "card K \<le> mx" "k \<in> K" "map_get fl k = None"
  shows "map_size fl < mx"
proof -
  have "k \<notin> set (map_keys fl)" using assms(6) jm.get_keys by (metis not_None_eq)
  then have "set (map_keys fl) \<subset> K" using assms(2,5) by blast
  then have "card (set (map_keys fl)) < card K" by (rule psubset_card_mono [OF assms(3)])
  then show ?thesis using assms(1,4) by (simp add: map_size_keys distinct_card)
qed

lemma ingest_run_holds:
  assumes "0 < cap" "m \<noteq> []" "finite K" "card K \<le> mx"
  defines "n \<equiv> ceil_div (length m) cap"
  shows "rsm_maxConcurrent r = mx \<Longrightarrow> distinct (map_keys (rsm_inFlight r)) \<Longrightarrow>
    set (map_keys (rsm_inFlight r)) \<subseteq> K \<Longrightarrow> cell_ids cs \<subseteq> K \<Longrightarrow>
    holds m hid cap S (rsm_inFlight r) \<Longrightarrow> S \<union> set (map cell_index (filter (cell_of hid) cs)) \<subset> {..<n} \<Longrightarrow>
    distinct (map cell_index (filter (cell_of hid) cs)) \<Longrightarrow>
    S \<inter> set (map cell_index (filter (cell_of hid) cs)) = {} \<Longrightarrow>
    (\<forall>tc\<in>set cs. cell_of hid tc \<longrightarrow> parseFragmentHeader (snd tc) = Some (fragment_of m hid cap (cell_index tc))) \<Longrightarrow>
    ingest_run cs r = (xs, r') \<Longrightarrow>
    rsm_maxConcurrent r' = mx \<and> distinct (map_keys (rsm_inFlight r')) \<and> set (map_keys (rsm_inFlight r')) \<subseteq> K
    \<and> holds m hid cap (S \<union> set (map cell_index (filter (cell_of hid) cs))) (rsm_inFlight r')
    \<and> list_all2 (\<lambda>tc x. cell_of hid tc \<longrightarrow> x = Waiting) cs xs"
proof (induction cs arbitrary: r S xs)
  case Nil
  then show ?case by simp
next
  case (Cons tc cs)
  obtain now c where tc: "tc = (now, c)" by (cases tc)
  obtain x r1 where one: "ingest now c r = (x, r1)" by fastforce
  obtain ys where rest: "ingest_run cs r1 = (ys, r')"
    using Cons.prems(10) by (auto simp: tc one split: prod.splits)
  have xs: "xs = x # ys" using Cons.prems(10) by (simp add: tc one rest)
  have ids: "cell_ids cs \<subseteq> K" using Cons.prems(4) by (auto simp: cell_ids_def)
  show ?case
  proof (cases "parseFragmentHeader c")
    case None
    then have "r1 = r" "\<not> cell_of hid tc" using one by (simp_all add: ingest_def cell_of_def tc)
    then show ?thesis
      using Cons.IH [OF Cons.prems(1-3) ids Cons.prems(5) _ _ _ _ rest[unfolded \<open>r1 = r\<close>]] Cons.prems(6-9) xs by simp
  next
    case (Some f)
    obtain fl where ip: "ingest_parsed mx now f (rsm_inFlight r) = (x, fl)" and r1: "r1 = r\<lparr>rsm_inFlight := fl\<rparr>"
      using one Some Cons.prems(1) by (auto simp: ingest_def split: prod.splits)
    have fK: "frg_handshakeId f \<in> K" using Cons.prems(4) Some tc by (auto simp: cell_ids_def)
    have keys: "rsm_maxConcurrent r1 = mx" "distinct (map_keys (rsm_inFlight r1))"
        "set (map_keys (rsm_inFlight r1)) \<subseteq> K"
      using ingest_parsed_keys [OF ip Cons.prems(2)] Cons.prems(1,3) fK by (auto simp: r1)
    show ?thesis
    proof (cases "frg_handshakeId f = hid")
      case False
      then have no: "\<not> cell_of hid tc" using Some by (simp add: cell_of_def tc)
      have "map_get (rsm_inFlight r) (frg_handshakeId f) \<noteq> None \<or> map_size (rsm_inFlight r) < mx"
        using size_bound [OF Cons.prems(2,3) assms(3,4) fK] by blast
      then have "map_get fl hid = map_get (rsm_inFlight r) hid" by (rule ingest_other [OF ip False])
      then have "holds m hid cap S (rsm_inFlight r1)" using Cons.prems(5) by (simp add: r1 holds_def Let_def)
      from Cons.IH [OF keys ids this _ _ _ _ rest] show ?thesis using Cons.prems(6-9) no xs by simp
    next
      case True
      then have own: "cell_of hid tc" using Some by (simp add: cell_of_def tc)
      let ?i = "cell_index tc"
      have f: "f = fragment_of m hid cap ?i" using Cons.prems(9) own Some tc by auto
      have i: "?i < n" "?i \<notin> S" using Cons.prems(6,8) own by auto
      have S: "S \<subseteq> {..<n}" using Cons.prems(6) by blast
      have "insert ?i S \<noteq> {..<n}" using Cons.prems(6) own by auto
      then have "holds m hid cap (insert ?i S) (rsm_inFlight r1)" "x = Waiting"
        using ingest_own [OF Cons.prems(5) S [unfolded n_def] i [unfolded n_def] assms(1,2) ip [unfolded f]]
        by (simp_all add: r1 n_def)
      from Cons.IH [OF keys ids this(1) _ _ _ _ rest] this(2) show ?thesis using Cons.prems(6-9) own xs by auto
    qed
  qed
qed

lemma ingest_run_append:
  "ingest_run (xs @ ys) r = (let (as, r1) = ingest_run xs r; (bs, r2) = ingest_run ys r1 in (as @ bs, r2))"
  by (induction xs r rule: ingest_run.induct) (auto split: prod.splits)

lemma fragmentMessage_ok:
  assumes "fragmentMessage m hid cap = Inr fs"
  defines "n \<equiv> ceil_div (length m) (nat cap)"
  shows "0 \<le> hid \<and> nat hid < 2 ^ 32 \<and> m \<noteq> [] \<and> 0 < nat cap \<and> nat cap \<le> 0xFFFF \<and> n \<le> 255
    \<and> fs = map (make_fragment m (nat hid) (nat cap) n) [0..<n]"
  using assms by (auto simp: fragmentMessage_def Let_def split: if_splits)

lemma fragments_parse:
  assumes "fragmentMessage m hid cap = Inr fs"
  shows "map parseFragmentHeader fs
    = map (\<lambda>i. Some (fragment_of m (nat hid) (nat cap) i)) [0..<ceil_div (length m) (nat cap)]"
  using fragmentMessage_ok [OF assms] by (auto simp: parse_make_fragment)

lemma cells_of_message:
  assumes "fragmentMessage m hid cap = Inr fs"
    and "mset (map snd (filter (cell_of (nat hid)) cs)) = mset fs"
  shows "mset (map cell_index (filter (cell_of (nat hid)) cs)) = mset [0..<ceil_div (length m) (nat cap)]"
    and "\<forall>tc\<in>set cs. cell_of (nat hid) tc \<longrightarrow>
      parseFragmentHeader (snd tc) = Some (fragment_of m (nat hid) (nat cap) (cell_index tc))"
proof -
  let ?idx = "\<lambda>c. case parseFragmentHeader c of None \<Rightarrow> 0 | Some f \<Rightarrow> frg_index f"
  let ?n = "ceil_div (length m) (nat cap)"
  note p = fragments_parse [OF assms(1)]
  have "map ?idx fs = map (\<lambda>r. case r of None \<Rightarrow> 0 | Some f \<Rightarrow> frg_index f) (map parseFragmentHeader fs)" by simp
  also have "\<dots> = [0..<?n]" unfolding p by (simp add: comp_def fragment_of_def)
  finally have idx: "map ?idx fs = [0..<?n]" .
  have "map cell_index xs = map ?idx (map snd xs)" for xs :: "(int \<times> bytes) list"
    by (simp add: cell_index_def comp_def)
  then have "mset (map cell_index (filter (cell_of (nat hid)) cs)) = image_mset ?idx (mset fs)"
    using assms(2) by (metis mset_map)
  then show "mset (map cell_index (filter (cell_of (nat hid)) cs)) = mset [0..<?n]"
    using idx by (metis mset_map)
  have sets: "set (map snd (filter (cell_of (nat hid)) cs)) = set fs"
    using arg_cong [OF assms(2), of set_mset] by simp
  show "\<forall>tc\<in>set cs. cell_of (nat hid) tc \<longrightarrow>
      parseFragmentHeader (snd tc) = Some (fragment_of m (nat hid) (nat cap) (cell_index tc))"
  proof (intro ballI impI)
    fix tc assume "tc \<in> set cs" "cell_of (nat hid) tc"
    then have "snd tc \<in> set fs" unfolding sets [symmetric] by auto
    then have "parseFragmentHeader (snd tc) \<in> set (map parseFragmentHeader fs)" by simp
    then obtain i where "parseFragmentHeader (snd tc) = Some (fragment_of m (nat hid) (nat cap) i)"
      unfolding p by auto
    then show "parseFragmentHeader (snd tc) = Some (fragment_of m (nat hid) (nat cap) (cell_index tc))"
      by (simp add: cell_index_def fragment_of_def)
  qed
qed

lemma reassembly:
  assumes "fragmentMessage m hid cap = Inr fs"
    and perm: "mset (map snd (filter (cell_of (nat hid)) (cs @ [(t, c)]))) = mset fs" and c: "c \<in> set fs"
    and "distinct (map_keys (rsm_inFlight r))" "map_get (rsm_inFlight r) (nat hid) = None"
    and room: "card (set (map_keys (rsm_inFlight r)) \<union> cell_ids (cs @ [(t, c)])) \<le> rsm_maxConcurrent r"
  shows "\<exists>xs r'. ingest_run (cs @ [(t, c)]) r = (xs @ [if length m > 65536 then Failed else Complete m], r')
    \<and> map_get (rsm_inFlight r') (nat hid) = None
    \<and> list_all2 (\<lambda>tc x. cell_of (nat hid) tc \<longrightarrow> x = Waiting) cs xs"
proof -
  let ?h = "nat hid" and ?cap = "nat cap" and ?cs = "cs @ [(t, c)]"
  let ?n = "ceil_div (length m) ?cap"
  let ?K = "set (map_keys (rsm_inFlight r)) \<union> cell_ids ?cs"
  have ok: "0 < ?cap" "m \<noteq> []" using fragmentMessage_ok [OF assms(1)] by auto
  note idx = cells_of_message [OF assms(1) perm]
  obtain i where pc: "parseFragmentHeader c = Some (fragment_of m ?h ?cap i)"
    using c fragments_parse [OF assms(1)] by (metis (no_types, lifting) imageE image_eqI set_map)
  then have last: "cell_of ?h (t, c)" "cell_index (t, c) = i"
    by (simp_all add: cell_of_def cell_index_def fragment_of_def)
  let ?own = "map cell_index (filter (cell_of ?h) cs)"
  have perm': "mset (?own @ [i]) = mset [0..<?n]" using idx(1) last by simp
  then have dist: "distinct (?own @ [i])" by (metis distinct_upt mset_eq_imp_distinct_iff)
  have set: "insert i (set ?own) = {..<?n}"
    using arg_cong [OF perm', of set_mset] by (simp add: lessThan_atLeast0)
  obtain xs r1 where run: "ingest_run cs r = (xs, r1)" by fastforce
  have fin: "finite ?K"
  proof -
    have "cell_ids ?cs \<subseteq> (\<lambda>tc. frg_handshakeId (the (parseFragmentHeader (snd tc)))) ` set ?cs"
      unfolding cell_ids_def by (force simp: image_iff)
    then show ?thesis using finite_subset by fastforce
  qed
  have h0: "holds m ?h ?cap {} (rsm_inFlight r)" using assms(5) by (simp add: holds_def)
  have ids: "cell_ids cs \<subseteq> ?K" by (auto simp: cell_ids_def)
  have sub: "{} \<union> set ?own \<subset> {..<?n}" using set dist by auto
  have h1: "holds m ?h ?cap (set ?own) (rsm_inFlight r1)"
      "list_all2 (\<lambda>tc x. cell_of ?h tc \<longrightarrow> x = Waiting) cs xs"
  proof -
    have a: "set (map_keys (rsm_inFlight r)) \<subseteq> ?K" by simp
    have d: "distinct ?own" "{} \<inter> set ?own = {}" using dist by simp_all
    have p: "\<forall>tc\<in>set cs. cell_of ?h tc \<longrightarrow>
        parseFragmentHeader (snd tc) = Some (fragment_of m ?h ?cap (cell_index tc))" using idx(2) by simp
    from ingest_run_holds [OF ok fin room refl assms(4) a ids h0 sub d p run]
    show "holds m ?h ?cap (set ?own) (rsm_inFlight r1)"
      "list_all2 (\<lambda>tc x. cell_of ?h tc \<longrightarrow> x = Waiting) cs xs" unfolding Un_empty_left by blast+
  qed
  obtain x fl where ip: "ingest_parsed (rsm_maxConcurrent r1) t (fragment_of m ?h ?cap i) (rsm_inFlight r1) = (x, fl)"
    by fastforce
  have "x = (if length m > 65536 then Failed else Complete m) \<and> map_get fl ?h = None"
  proof -
    have "set ?own \<subseteq> {..<?n}" "i < ?n" "i \<notin> set ?own" using set dist by auto
    from ingest_own [OF h1(1) this ok ip] show ?thesis using set by simp
  qed
  moreover have "ingest t c r1 = (x, r1\<lparr>rsm_inFlight := fl\<rparr>)" using pc ip by (simp add: ingest_def)
  ultimately show ?thesis using run h1(2) by (auto simp: ingest_run_append)
qed

section \<open>Bounds\<close>

definition partial_ok :: "partial \<Rightarrow> bool" where
  "partial_ok e \<longleftrightarrow> prt_count e \<le> 255 \<and> length (prt_fragments e) = prt_count e
     \<and> prt_received e = length (filter (\<lambda>p. p \<noteq> None) (prt_fragments e))
     \<and> (\<forall>d. Some d \<in> set (prt_fragments e) \<longrightarrow> length d + 8 \<le> prt_fragmentSize e)"

definition reassembler_inv :: "nat \<Rightarrow> reassembler \<Rightarrow> bool" where
  "reassembler_inv mx r \<longleftrightarrow> rsm_maxConcurrent r = mx \<and> distinct (map_keys (rsm_inFlight r))
     \<and> map_size (rsm_inFlight r) \<le> max 1 mx
     \<and> (\<forall>k e. map_get (rsm_inFlight r) k = Some e \<longrightarrow> partial_ok e \<and> prt_received e < prt_count e)"

lemma filter_update_none:
  "i < length xs \<Longrightarrow> xs ! i = None \<Longrightarrow>
   length (filter (\<lambda>p. p \<noteq> None) (xs[i := Some d])) = Suc (length (filter (\<lambda>p. p \<noteq> None) xs))"
  by (induction xs arbitrary: i) (auto split: nat.splits simp: nth_Cons)

lemma parse_data_size: "parseFragmentHeader c = Some f \<Longrightarrow> length (frg_data f) + 8 \<le> frg_fragmentSize f"
  by (auto simp: parseFragmentHeader_def Let_def split: if_splits)

definition fl_inv :: "nat \<Rightarrow> (nat, partial) jsmap \<Rightarrow> bool" where
  "fl_inv mx fl \<longleftrightarrow> distinct (map_keys fl) \<and> map_size fl \<le> max 1 mx
     \<and> (\<forall>k e. map_get fl k = Some e \<longrightarrow> partial_ok e \<and> prt_received e < prt_count e)"

lemma fl_inv_delete: "fl_inv mx fl \<Longrightarrow> fl_inv mx (map_delete k fl)"
  using jm.size_del_le [of k fl]
  by (auto simp: fl_inv_def jm.distinct_del jm.get_del map_size_keys)

lemma oldest_loop_some: "best \<noteq> None \<Longrightarrow> oldest_loop xs best \<noteq> None"
  by (induction xs best rule: oldest_loop.induct) auto

lemma make_room_size:
  assumes "distinct (map_keys fl)" "map_size fl \<le> max 1 mx"
  shows "Suc (map_size (make_room mx fl)) \<le> max 1 mx"
proof (cases "map_size fl < mx")
  case True
  then show ?thesis by (simp add: make_room_free)
next
  case full: False
  show ?thesis
  proof (cases fl)
    case Nil
    then show ?thesis by (simp add: make_room_def map_size_def)
  next
    case (Cons e fl0)
    then obtain k where k: "oldest_loop fl None = Some k"
      using oldest_loop_some [of "Some (fst e, prt_createdAt (snd e))" fl0] by (cases e) auto
    then have "k \<in> set (map_keys fl)" using oldest_loop_mem [OF k] by (simp add: map_keys_def)
    then have "Suc (length (map_keys (map_delete k fl))) = length (map_keys fl)"
      using jm.size_del [OF assms(1)] jm.get_keys by metis
    then show ?thesis using k full assms(2) by (simp add: make_room_def map_size_keys)
  qed
qed

lemma make_room_inv: "fl_inv mx fl \<Longrightarrow> fl_inv mx (make_room mx fl)"
  by (auto simp: make_room_def fl_inv_delete split: option.splits)

lemma ingest_parsed_inv:
  assumes inv: "fl_inv mx fl" and f: "0 < frg_count f" "frg_count f \<le> 255" "frg_index f < frg_count f"
      "length (frg_data f) + 8 \<le> frg_fragmentSize f"
  shows "fl_inv mx (snd (ingest_parsed mx now f fl))"
proof -
  let ?h = "frg_handshakeId f"
  obtain e fl1 where oe: "open_entry mx now f fl = (e, fl1)" by fastforce
  have e: "partial_ok e" "prt_received e < prt_count e" "map_get fl1 ?h = Some e" and fl1: "fl_inv mx fl1"
  proof -
    have "partial_ok e \<and> prt_received e < prt_count e \<and> map_get fl1 ?h = Some e \<and> fl_inv mx fl1"
    proof (cases "map_get fl ?h")
      case (Some e0)
      then show ?thesis using oe inv by (auto simp: open_entry_def fl_inv_def)
    next
      case None
      let ?room = "make_room mx fl"
      have new: "partial_ok e \<and> prt_received e < prt_count e" "fl1 = map_set ?h e ?room"
        using oe None f by (auto simp: open_entry_def partial_ok_def Let_def)
      have r: "fl_inv mx ?room" by (rule make_room_inv [OF inv])
      have "map_size fl1 \<le> max 1 mx"
        using make_room_size [of fl mx] inv jm.size_put_le [of ?h e ?room]
        by (auto simp: fl_inv_def new(2) map_size_keys)
      then show ?thesis using new r by (auto simp: fl_inv_def jm.distinct_put jm.get_put)
    qed
    then show "partial_ok e" "prt_received e < prt_count e" "map_get fl1 ?h = Some e" "fl_inv mx fl1" by auto
  qed
  show ?thesis
  proof (cases "prt_count e \<noteq> frg_count f \<or> prt_fragmentSize e \<noteq> frg_fragmentSize f
      \<or> prt_fragments e ! frg_index f \<noteq> None")
    case True
    then show ?thesis using oe fl1 by (auto simp: ingest_parsed_def fl_inv_delete Let_def)
  next
    case False
    let ?e = "e\<lparr>prt_fragments := (prt_fragments e)[frg_index f := Some (frg_data f)],
      prt_received := prt_received e + 1\<rparr>"
    have ok: "partial_ok ?e"
      using e(1) False f filter_update_none [of "frg_index f" "prt_fragments e" "frg_data f"]
      by (auto simp: partial_ok_def dest: set_update_subset_insert [THEN subsetD])
    have size: "map_size (map_set ?h ?e fl1) = map_size fl1"
      using jm.size_put_old [of fl1 ?h ?e] e(3) by (simp add: map_size_keys)
    have "fl_inv mx (map_set ?h ?e fl1)" if "prt_received ?e < prt_count ?e"
      using fl1 ok that size by (auto simp: fl_inv_def jm.distinct_put jm.get_put)
    then show ?thesis using oe fl1 False by (auto simp: ingest_parsed_def Let_def fl_inv_delete)
  qed
qed

lemma sweep_loop_inv: "fl_inv mx m \<Longrightarrow> fl_inv mx (snd (sweep_loop cutoff xs m d))"
  by (induction cutoff xs m d rule: sweep_loop.induct) (auto simp: fl_inv_delete)

datatype reassembler_op = Ingest int bytes | Sweep int

fun reassembler_step :: "reassembler_op \<Rightarrow> reassembler \<Rightarrow> reassembler" where
  "reassembler_step (Ingest now c) r = snd (ingest now c r)"
| "reassembler_step (Sweep t) r = snd (sweep t r)"

lemma reassembler_inv_fl: "reassembler_inv mx r \<longleftrightarrow> rsm_maxConcurrent r = mx \<and> fl_inv mx (rsm_inFlight r)"
  by (simp add: reassembler_inv_def fl_inv_def)

lemma ingest_inv: "reassembler_inv mx r \<Longrightarrow> reassembler_inv mx (snd (ingest now c r))"
  using ingest_parsed_inv [of mx "rsm_inFlight r"] parse_ok [of c] parse_data_size [of c]
  by (auto simp: reassembler_inv_fl ingest_def split: option.splits prod.splits) (metis snd_conv)

lemma sweep_inv: "reassembler_inv mx r \<Longrightarrow> reassembler_inv mx (snd (sweep t r))"
  using sweep_loop_inv [of mx "rsm_inFlight r" "t - rsm_timeoutMs r" "rsm_inFlight r" 0]
  by (simp add: sweep_def reassembler_inv_fl Let_def split_beta)

interpretation rs: call_machine "\<lambda>r. r = createReassembler timeoutMs mx" reassembler_step "reassembler_inv mx"
  for timeoutMs mx
proof
  fix r assume "r = createReassembler timeoutMs mx"
  then show "reassembler_inv mx r" by (simp add: reassembler_inv_def createReassembler_def map_size_def)
next
  fix r op assume "reassembler_inv mx r"
  then show "reassembler_inv mx (reassembler_step op r)"
    by (cases op) (simp_all add: ingest_inv sweep_inv)
qed

section \<open>Properties\<close>

text \<open>C29. Reassembly: a message that is fragmented is put together again from its fragments in any order,
  with anything else in between (fragments of other handshakes, garbage), as long as no more
  handshakes are open than the reassembler has room for. Every fragment but the last is
  answered with the wait for more, the last completes the message, and exactly the messages above
  65536 bytes are then refused.\<close>

theorem reassembly_any_order:
  assumes "fragmentMessage m hid cap = Inr fs"
    and "mset (map snd (filter (cell_of (nat hid)) (cs @ [(t, c)]))) = mset fs" "c \<in> set fs"
    and "distinct (map_keys (rsm_inFlight r))" "map_get (rsm_inFlight r) (nat hid) = None"
    and "card (set (map_keys (rsm_inFlight r)) \<union> cell_ids (cs @ [(t, c)])) \<le> rsm_maxConcurrent r"
  shows "\<exists>xs r'. ingest_run (cs @ [(t, c)]) r = (xs @ [if length m > 65536 then Failed else Complete m], r')
    \<and> map_get (rsm_inFlight r') (nat hid) = None
    \<and> list_all2 (\<lambda>tc x. cell_of (nat hid) tc \<longrightarrow> x = Waiting) cs xs"
  by (rule reassembly [OF assms])

text \<open>Whatever cells arrive and whenever it is swept, a reassembler keeps at most its configured number of
  partial messages; each has at most 255 parts, none complete, and no part is longer than the
  fragments that carried it.\<close>

theorem reassembler_bounded:
  "reassembler_inv mx (run_calls reassembler_step ops (createReassembler timeoutMs mx))"
  by (simp add: rs.inv_reachable)

lemma cell_ids_Cons:
  "cell_ids ((t, c) # cs)
    = (case parseFragmentHeader c of None \<Rightarrow> cell_ids cs | Some f \<Rightarrow> insert (frg_handshakeId f) (cell_ids cs))"
  by (auto simp: cell_ids_def split: option.splits)

lemma cell_ids_Nil: "cell_ids [] = {}"
  by (simp add: cell_ids_def)

definition toy_frag0 :: bytes where "toy_frag0 = [0, 2, 0, 0, 0, 7, 0, 2, 1, 2]"
definition toy_frag1 :: bytes where "toy_frag1 = [1, 2, 0, 0, 0, 7, 0, 1, 3, 0]"

theorem reassembly_any_order_witness:
  "\<exists>xs r'. ingest_run [(5, toy_frag1), (6, [9, 9]), (7, toy_frag0)] (createReassembler 30000 16)
    = (xs @ [Complete [1, 2, 3]], r') \<and> map_get (rsm_inFlight r') 7 = None"
proof -
  have m: "fragmentMessage [1, 2, 3] 7 2 = Inr [toy_frag0, toy_frag1]" by code_simp
  have p: "map_option frg_handshakeId (parseFragmentHeader toy_frag0) = Some 7"
    "map_option frg_handshakeId (parseFragmentHeader toy_frag1) = Some 7"
    "parseFragmentHeader [9, 9] = None" by code_simp+
  have own: "filter (cell_of 7) [(5, toy_frag1), (6, [9, 9]), (7, toy_frag0)] = [(5, toy_frag1), (7, toy_frag0)]"
    using p by (auto simp: cell_of_def split: option.splits)
  have ids: "cell_ids [(5, toy_frag1), (6, [9, 9]), (7, toy_frag0)] = {7}"
    using p by (auto simp: cell_ids_Cons cell_ids_Nil split: option.splits)
  have cs: "[(5, toy_frag1), (6, [9, 9])] @ [(7, toy_frag0)] = [(5, toy_frag1), (6, [9, 9]), (7, toy_frag0)]"
    by simp
  show ?thesis
    using reassembly_any_order [OF m, of "[(5, toy_frag1), (6, [9, 9])]" 7 toy_frag0 "createReassembler 30000 16"]
    unfolding cs using own ids by (auto simp: createReassembler_def)
qed

end
