(* ===== verification/V2_Ntor.thy ===== *)
theory V2_Ntor
  imports Crypto
begin

text \<open>
  \<open>modules/v2/ntor_hybrid.mjs\<close>: the hybrid ntor handshake. X25519, the KEM and the KDF are
  parameters; what is proved is that both ends compute the same key when their inputs match, what
  the client checks before it returns a key, and how the key is cut into the four hop keys. The
  random draws are arguments.
\<close>

section \<open>The handshake\<close>

definition PROTOID :: bytes where "PROTOID = ascii ''anon-layer-pq-ntor-v1''"
definition KEY_SEED_INFO :: bytes where "KEY_SEED_INFO = ascii ''anon-layer/v2/pq-handshake-extract''"
definition AUTH_INFO :: bytes where "AUTH_INFO = ascii ''anon-layer/v2/pq-handshake-auth''"
definition HOP_KEYS_INFO :: bytes where "HOP_KEYS_INFO = ascii ''anon-layer/v2/hop-keys''"
definition SERVER_TAG :: bytes where "SERVER_TAG = ascii ''Server''"

definition MLKEM_PK_BYTES :: nat where [simp]: "MLKEM_PK_BYTES = 1184"
definition MLKEM_SK_BYTES :: nat where [simp]: "MLKEM_SK_BYTES = 2400"
definition MLKEM_CT_BYTES :: nat where [simp]: "MLKEM_CT_BYTES = 1088"
definition CREATE_MSG_BYTES :: nat where [simp]: "CREATE_MSG_BYTES = 32 + MLKEM_PK_BYTES"
definition CREATED_MSG_BYTES :: nat where [simp]: "CREATED_MSG_BYTES = 32 + MLKEM_CT_BYTES + 32"
definition KEY_SEED_BYTES :: nat where [simp]: "KEY_SEED_BYTES = 32"
definition AUTH_BYTES :: nat where [simp]: "AUTH_BYTES = 32"
definition HOP_KEYS_TOTAL :: nat where [simp]: "HOP_KEYS_TOTAL = 32 * 4"

record ntor_state =
  nts_x :: bytes
  nts_X :: bytes
  nts_kemSk :: bytes
  nts_kemPk :: bytes
  nts_createMsg :: bytes

definition clientInit :: "crypto \<Rightarrow> bytes \<Rightarrow> bytes \<Rightarrow> ntor_state" where
  "clientInit C xSeed kemSeed =
     (let (xSk, xPk) = generateOnion C xSeed;
          (kPk, kSk) = kem_keygen C kemSeed
      in \<lparr>nts_x = xSk, nts_X = xPk, nts_kemSk = kSk, nts_kemPk = kPk, nts_createMsg = xPk @ kPk\<rparr>)"

definition secret_input ::
  "bytes \<Rightarrow> bytes \<Rightarrow> bytes \<Rightarrow> bytes \<Rightarrow> bytes \<Rightarrow> bytes \<Rightarrow> bytes \<Rightarrow> bytes \<Rightarrow> bytes \<Rightarrow> bytes" where
  "secret_input shared_x_y shared_b_x shared_pq ID_R B_pk X K_pk Y ct =
     shared_x_y @ shared_b_x @ shared_pq @ ID_R @ B_pk @ X @ K_pk @ Y @ ct @ PROTOID"

definition auth_input :: "bytes \<Rightarrow> bytes \<Rightarrow> bytes \<Rightarrow> bytes \<Rightarrow> bytes \<Rightarrow> bytes" where
  "auth_input secret ID_R B_pk Y ct = secret @ ID_R @ B_pk @ Y @ ct @ PROTOID @ SERVER_TAG"

definition clientFinish :: "crypto \<Rightarrow> ntor_state \<Rightarrow> bytes \<Rightarrow> bytes \<Rightarrow> bytes \<Rightarrow> bytes option" where
  "clientFinish C ntorState B_pk ID_R createdMsg =
     (if length createdMsg \<noteq> CREATED_MSG_BYTES then None
      else if length B_pk \<noteq> 32 then None
      else if length ID_R \<noteq> 32 then None
      else
        let Y = subarray createdMsg 0 32;
            ct = subarray createdMsg 32 (32 + MLKEM_CT_BYTES);
            AUTH = subarray createdMsg (32 + MLKEM_CT_BYTES) (length createdMsg)
        in case kem_decaps C ct (nts_kemSk ntorState) of
             None \<Rightarrow> None
           | Some shared_pq \<Rightarrow>
               if length shared_pq \<noteq> 32 then None
               else
                 (case (sharedSecret C (nts_x ntorState) Y, sharedSecret C (nts_x ntorState) B_pk) of
                    (Some shared_x_y, Some shared_b_x) \<Rightarrow>
                      let secret = secret_input shared_x_y shared_b_x shared_pq ID_R B_pk
                            (nts_X ntorState) (nts_kemPk ntorState) Y ct;
                          KEY_SEED = kdf C secret KEY_SEED_INFO KEY_SEED_BYTES;
                          AUTH_check = kdf C (auth_input secret ID_R B_pk Y ct) AUTH_INFO AUTH_BYTES
                      in if \<not> constantTimeEqual AUTH AUTH_check then None else Some KEY_SEED
                  | _ \<Rightarrow> None))"

record ntor_response =
  ntr_createdMsg :: bytes
  ntr_KEY_SEED :: bytes

definition relayResponse ::
  "crypto \<Rightarrow> bytes \<Rightarrow> bytes \<Rightarrow> bytes \<Rightarrow> bytes \<Rightarrow> bytes \<Rightarrow> bytes \<Rightarrow> ntor_response option" where
  "relayResponse C encSeed ySeed createMsg B_sk B_pk ID_R =
     (if length createMsg \<noteq> CREATE_MSG_BYTES then None
      else if length B_sk \<noteq> 32 then None
      else if length B_pk \<noteq> 32 then None
      else if length ID_R \<noteq> 32 then None
      else
        let X = subarray createMsg 0 32;
            K_pk = subarray createMsg 32 (length createMsg)
        in case kem_encaps C encSeed K_pk of
             None \<Rightarrow> None
           | Some (ct, shared_pq) \<Rightarrow>
               if length ct \<noteq> MLKEM_CT_BYTES then None
               else if length shared_pq \<noteq> 32 then None
               else
                 let (y, Y) = generateOnion C ySeed
                 in (case (sharedSecret C y X, sharedSecret C B_sk X) of
                       (Some shared_x_y, Some shared_b_x) \<Rightarrow>
                         let secret = secret_input shared_x_y shared_b_x shared_pq ID_R B_pk X K_pk Y ct;
                             KEY_SEED = kdf C secret KEY_SEED_INFO KEY_SEED_BYTES;
                             AUTH = kdf C (auth_input secret ID_R B_pk Y ct) AUTH_INFO AUTH_BYTES
                         in Some \<lparr>ntr_createdMsg = Y @ ct @ AUTH, ntr_KEY_SEED = KEY_SEED\<rparr>
                     | _ \<Rightarrow> None))"

record hop_keys =
  hop_Kf :: bytes
  hop_Kb :: bytes
  hop_Kdf :: bytes
  hop_Kdb :: bytes

definition deriveHopKeys :: "crypto \<Rightarrow> bytes \<Rightarrow> hop_keys res" where
  "deriveHopKeys C KEY_SEED =
     (if length KEY_SEED \<noteq> KEY_SEED_BYTES then Inl (Error ''KEY_SEED must be 32 bytes'')
      else
        let material = kdf C KEY_SEED HOP_KEYS_INFO HOP_KEYS_TOTAL
        in Inr \<lparr>hop_Kf = subarray material 0 32, hop_Kb = subarray material 32 64,
                hop_Kdf = subarray material 64 96, hop_Kdb = subarray material 96 128\<rparr>)"

section \<open>Laws\<close>

text \<open>FIPS 203 sizes, and decapsulation of what was encapsulated to the matching key.\<close>

definition kem_correct :: "crypto \<Rightarrow> bool" where
  "kem_correct C \<longleftrightarrow> (\<forall>seed r. length (fst (kem_keygen C seed)) = 1184
     \<and> (\<exists>ct ss. kem_encaps C r (fst (kem_keygen C seed)) = Some (ct, ss)
          \<and> length ct = 1088 \<and> length ss = 32
          \<and> kem_decaps C ct (snd (kem_keygen C seed)) = Some ss))"

lemma pad_to_pad_to: "n \<le> m \<Longrightarrow> pad_to n (pad_to m x) = pad_to n x"
proof -
  assume nm: "n \<le> m"
  have "zeros m = zeros n @ zeros (m - n)"
    using nm by (simp add: zeros_def replicate_add [symmetric])
  then have "take n (x @ zeros m) = take n (x @ zeros n)" by simp
  then show ?thesis using nm by (simp add: pad_to_def min_def)
qed

lemma toy_kem_correct: "kem_correct toy_crypto"
  unfolding kem_correct_def
proof (intro allI)
  fix seed r
  have "pad_to 16 (pad_to 1088 r) = pad_to 16 r" "pad_to 16 (pad_to 1184 seed) = pad_to 16 (pad_to 2400 seed)"
    by (simp_all add: pad_to_pad_to)
  then show "length (fst (kem_keygen toy_crypto seed)) = 1184
     \<and> (\<exists>ct ss. kem_encaps toy_crypto r (fst (kem_keygen toy_crypto seed)) = Some (ct, ss)
          \<and> length ct = 1088 \<and> length ss = 32
          \<and> kem_decaps toy_crypto ct (snd (kem_keygen toy_crypto seed)) = Some ss)"
    unfolding toy_crypto_def by simp
qed

lemma deriveHopKeys_ok:
  "hash_ok C \<Longrightarrow> length s = 32 \<Longrightarrow> \<exists>k. deriveHopKeys C s = Inr k
    \<and> length (hop_Kf k) = 32 \<and> length (hop_Kb k) = 32 \<and> length (hop_Kdf k) = 32 \<and> length (hop_Kdb k) = 32"
  by (simp add: deriveHopKeys_def kdf_def hash_ok_def Let_def)

lemma length_kdf [simp]: "hash_ok C \<Longrightarrow> length (kdf C i f n) = n"
  by (simp add: kdf_def hash_ok_def)

lemma relayResponse_Some:
  assumes "relayResponse C r y msg B_sk B_pk ID = Some res"
  obtains ct pq sxy sbx where "length msg = 1216" "length B_sk = 32" "length B_pk = 32" "length ID = 32"
    "kem_encaps C r (subarray msg 32 1216) = Some (ct, pq)" "length ct = 1088" "length pq = 32"
    "sharedSecret C y (subarray msg 0 32) = Some sxy" "sharedSecret C B_sk (subarray msg 0 32) = Some sbx"
    "res = (let s = secret_input sxy sbx pq ID B_pk (subarray msg 0 32) (subarray msg 32 1216) (x_public C y) ct
      in \<lparr>ntr_createdMsg = x_public C y @ ct @ kdf C (auth_input s ID B_pk (x_public C y) ct) AUTH_INFO 32,
          ntr_KEY_SEED = kdf C s KEY_SEED_INFO 32\<rparr>)"
  using assms that
  by (auto simp: relayResponse_def generateOnion_def Let_def split: if_splits option.splits prod.splits)

lemma clientFinish_Some:
  assumes "clientFinish C st B_pk ID msg = Some k"
  obtains pq sxy sbx where "length msg = 1152" "length B_pk = 32" "length ID = 32"
    "kem_decaps C (subarray msg 32 1120) (nts_kemSk st) = Some pq" "length pq = 32"
    "sharedSecret C (nts_x st) (subarray msg 0 32) = Some sxy" "sharedSecret C (nts_x st) B_pk = Some sbx"
    "let s = secret_input sxy sbx pq ID B_pk (nts_X st) (nts_kemPk st) (subarray msg 0 32) (subarray msg 32 1120)
     in k = kdf C s KEY_SEED_INFO 32
        \<and> subarray msg 1120 1152 = kdf C (auth_input s ID B_pk (subarray msg 0 32) (subarray msg 32 1120)) AUTH_INFO 32"
  using assms that
  by (auto simp: clientFinish_def Let_def split: if_splits option.splits)

lemma ntor_agree:
  assumes "hash_ok C" "dh_correct C" "kem_correct C" "length xs = 32" "length ys = 32" "length B_sk = 32"
    and resp: "relayResponse C r ys (nts_createMsg (clientInit C xs ks)) B_sk (x_public C B_sk) ID = Some res"
  shows "clientFinish C (clientInit C xs ks) (x_public C B_sk) ID (ntr_createdMsg res) = Some (ntr_KEY_SEED res)"
proof -
  let ?st = "clientInit C xs ks" and ?X = "x_public C xs" and ?Y = "x_public C ys" and ?B = "x_public C B_sk"
  obtain kp kq where k: "kem_keygen C ks = (kp, kq)" by fastforce
  have lens: "length ?X = 32" "length ?Y = 32" "length ?B = 32"
    using assms(2,4-6) by (auto simp: dh_correct_def)
  have kl: "length kp = 1184" using assms(3) k unfolding kem_correct_def by (metis fst_conv)
  have st: "nts_x ?st = xs" "nts_X ?st = ?X" "nts_kemSk ?st = kq" "nts_kemPk ?st = kp"
      "nts_createMsg ?st = ?X @ kp"
    by (simp_all add: clientInit_def generateOnion_def k)
  have parts: "subarray (?X @ kp) 0 32 = ?X" "subarray (?X @ kp) 32 1216 = kp"
    using lens kl by (simp_all add: layout)
  obtain ct pq sxy sbx where e: "kem_encaps C r kp = Some (ct, pq)" "length ct = 1088" "length pq = 32"
    and s: "sharedSecret C ys ?X = Some sxy" "sharedSecret C B_sk ?X = Some sbx" and id: "length ID = 32"
    and res: "res = (let s = secret_input sxy sbx pq ID ?B ?X kp ?Y ct
      in \<lparr>ntr_createdMsg = ?Y @ ct @ kdf C (auth_input s ID ?B ?Y ct) AUTH_INFO 32,
          ntr_KEY_SEED = kdf C s KEY_SEED_INFO 32\<rparr>)"
    using resp unfolding st by (elim relayResponse_Some) (simp add: parts)
  have d: "kem_decaps C ct kq = Some pq"
    using assms(3) e(1) k unfolding kem_correct_def
    by (metis (no_types, lifting) fst_conv option.inject prod.inject snd_conv)
  have sym: "sharedSecret C xs ?Y = Some sxy" "sharedSecret C xs ?B = Some sbx"
    using s sharedSecret_sym [OF assms(2)] assms(4-6) by metis+
  let ?auth = "kdf C (auth_input (secret_input sxy sbx pq ID ?B ?X kp ?Y ct) ID ?B ?Y ct) AUTH_INFO 32"
  have msg: "ntr_createdMsg res = ?Y @ ct @ ?auth" "length ?auth = 32"
    using res assms(1) by (simp_all add: Let_def)
  then have "subarray (ntr_createdMsg res) 0 32 = ?Y" "subarray (ntr_createdMsg res) 32 1120 = ct"
      "subarray (ntr_createdMsg res) 1120 1152 = ?auth" "length (ntr_createdMsg res) = 1152"
    using lens e by (simp_all add: layout)
  then show ?thesis
    using d sym id lens e(3) by (simp add: clientFinish_def st res Let_def)
qed

section \<open>Properties\<close>

text \<open>C28. Handshake agreement: when the client finishes with the answer that the relay gave to its CREATE
  message, under the relay's own key and fingerprint, it returns the relay's key seed, and both
  ends derive the same four hop keys of 32 bytes.\<close>

theorem ntor_agreement:
  assumes "hash_ok C" "dh_correct C" "kem_correct C" "length xs = 32" "length ys = 32" "length B_sk = 32"
    and "relayResponse C r ys (nts_createMsg (clientInit C xs ks)) B_sk (x_public C B_sk) ID = Some res"
  shows "clientFinish C (clientInit C xs ks) (x_public C B_sk) ID (ntr_createdMsg res) = Some (ntr_KEY_SEED res)
    \<and> (\<exists>k. deriveHopKeys C (ntr_KEY_SEED res) = Inr k \<and> length (hop_Kf k) = 32 \<and> length (hop_Kb k) = 32
         \<and> length (hop_Kdf k) = 32 \<and> length (hop_Kdb k) = 32)"
proof -
  have "length (ntr_KEY_SEED res) = 32"
    using assms(7,1) by (auto elim!: relayResponse_Some simp: Let_def)
  then show ?thesis using ntor_agree [OF assms] deriveHopKeys_ok [OF assms(1)] by blast
qed

text \<open>What the client has checked when it returns a key: the 32 bytes that end the answer are the KDF of a
  transcript that contains the relay's fingerprint and onion key, the client's own two public keys
  and the relay's share and ciphertext, together with the three shared secrets; the key it returns
  is derived from the same transcript.\<close>

theorem ntor_authenticates:
  assumes "clientFinish C st B_pk ID msg = Some k"
  shows "\<exists>pq sxy sbx. kem_decaps C (subarray msg 32 1120) (nts_kemSk st) = Some pq
    \<and> sharedSecret C (nts_x st) (subarray msg 0 32) = Some sxy \<and> sharedSecret C (nts_x st) B_pk = Some sbx
    \<and> length msg = 1152
    \<and> (let s = secret_input sxy sbx pq ID B_pk (nts_X st) (nts_kemPk st) (subarray msg 0 32) (subarray msg 32 1120)
       in k = kdf C s KEY_SEED_INFO 32 \<and> subarray msg 1120 1152
          = kdf C (auth_input s ID B_pk (subarray msg 0 32) (subarray msg 32 1120)) AUTH_INFO 32)"
  using assms by (elim clientFinish_Some) blast

lemma toy_response:
  "\<exists>res. relayResponse toy_crypto [5] (2 # zeros 31) (nts_createMsg (clientInit toy_crypto (1 # zeros 31) [9]))
     (3 # zeros 31) (x_public toy_crypto (3 # zeros 31)) (zeros 32) = Some res"
proof -
  let ?p = "x_public toy_crypto" and ?x = "1 # zeros 31 :: bytes" and ?y = "2 # zeros 31 :: bytes"
    and ?b = "3 # zeros 31 :: bytes" and ?kp = "fst (kem_keygen toy_crypto [9])"
  have pub: "length v = 32 \<Longrightarrow> ?p v = v" for v by (simp add: toy_crypto_def pad_to_id)
  have kp: "length ?kp = 1184" using toy_kem_correct unfolding kem_correct_def by blast
  have msg: "nts_createMsg (clientInit toy_crypto ?x [9]) = ?x @ ?kp"
    by (simp add: clientInit_def generateOnion_def split_beta pub)
  obtain ct ss where e: "kem_encaps toy_crypto [5] ?kp = Some (ct, ss)" "length ct = 1088" "length ss = 32"
    using toy_kem_correct unfolding kem_correct_def by blast
  have ss: "\<exists>s. sharedSecret toy_crypto (v # zeros 31) ?x = Some s" if "v \<noteq> 1" for v
  proof -
    have h: "hd (map2 (\<lambda>x y :: byte. x XOR y) (v # zeros 31) ?x) = v XOR 1" by simp
    have "v XOR 1 \<noteq> 0" using that word_xor_zero by blast
    then have "map2 (\<lambda>x y :: byte. x XOR y) (v # zeros 31) ?x \<noteq> zeros 32"
      using h by (metis (no_types) hd_replicate zeros_def zero_neq_numeral)
    then show ?thesis by (simp add: sharedSecret_def toy_crypto_def pad_to_id)
  qed
  obtain s1 s2 where "sharedSecret toy_crypto ?y ?x = Some s1" "sharedSecret toy_crypto ?b ?x = Some s2"
    using ss [of 2] ss [of 3] by auto
  moreover have "subarray (?x @ ?kp) 0 32 = ?x" "subarray (?x @ ?kp) 32 1216 = ?kp"
    using kp by (simp_all add: layout)
  ultimately show ?thesis
    using e kp unfolding msg by (simp add: relayResponse_def generateOnion_def Let_def pub)
qed

theorem ntor_agreement_witness:
  "\<exists>res. relayResponse toy_crypto [5] (2 # zeros 31) (nts_createMsg (clientInit toy_crypto (1 # zeros 31) [9]))
       (3 # zeros 31) (x_public toy_crypto (3 # zeros 31)) (zeros 32) = Some res
     \<and> clientFinish toy_crypto (clientInit toy_crypto (1 # zeros 31) [9]) (x_public toy_crypto (3 # zeros 31))
       (zeros 32) (ntr_createdMsg res) = Some (ntr_KEY_SEED res)"
proof -
  obtain res where r: "relayResponse toy_crypto [5] (2 # zeros 31) (nts_createMsg (clientInit toy_crypto (1 # zeros 31) [9]))
     (3 # zeros 31) (x_public toy_crypto (3 # zeros 31)) (zeros 32) = Some res" using toy_response by blast
  show ?thesis
    using ntor_agreement [OF toy_hash_ok toy_dh_correct toy_kem_correct _ _ _ r] r by auto
qed

theorem ntor_authenticates_witness:
  "\<exists>res pq. relayResponse toy_crypto [5] (2 # zeros 31) (nts_createMsg (clientInit toy_crypto (1 # zeros 31) [9]))
       (3 # zeros 31) (x_public toy_crypto (3 # zeros 31)) (zeros 32) = Some res
     \<and> kem_decaps toy_crypto (subarray (ntr_createdMsg res) 32 1120)
         (nts_kemSk (clientInit toy_crypto (1 # zeros 31) [9])) = Some pq"
proof -
  obtain res where r: "relayResponse toy_crypto [5] (2 # zeros 31) (nts_createMsg (clientInit toy_crypto (1 # zeros 31) [9]))
     (3 # zeros 31) (x_public toy_crypto (3 # zeros 31)) (zeros 32) = Some res" using toy_response by blast
  have "clientFinish toy_crypto (clientInit toy_crypto (1 # zeros 31) [9]) (x_public toy_crypto (3 # zeros 31))
       (zeros 32) (ntr_createdMsg res) = Some (ntr_KEY_SEED res)"
    by (rule ntor_agree [OF toy_hash_ok toy_dh_correct toy_kem_correct _ _ _ r]) simp_all
  from ntor_authenticates [OF this] show ?thesis using r by blast
qed

end
