(* ===== verification/V2_Circuit.thy ===== *)
theory V2_Circuit
  imports V2_Relay V2_Fragment V2_Ntor
begin

text \<open>
  \<open>modules/v2/circuit.mjs\<close>: the client's circuit (a list of hops), the relay's hop, layered
  encryption and the multi-cell handshakes. Counters are unbounded as the code's BigInts are; the
  IV takes them modulo \<open>2 ^ 64\<close>. Random draws and the clock of the reassemblers are arguments. A
  call that throws is a left value; it throws only on keys of the wrong size, which
  \<open>deriveHopKeys\<close> never yields.
\<close>

section \<open>State\<close>

definition RELAY_FRAGMENT_CAPACITY :: nat where [simp]: "RELAY_FRAGMENT_CAPACITY = MAX_RELAY_DATA - LEN_FRAGMENT_HEADER"
definition EXTEND_PAYLOAD_BYTES :: nat where [simp]: "EXTEND_PAYLOAD_BYTES = 32 + 32 + CREATE_MSG_BYTES"

record client_hop =
  chp_Kf :: bytes
  chp_Kb :: bytes
  chp_Kdf :: bytes
  chp_Kdb :: bytes
  chp_forwardCounter :: nat
  chp_backwardCounter :: nat
  chp_forwardDigest :: digest_state
  chp_backwardDigest :: digest_state
  chp_extendedReassembler :: reassembler

record circuit =
  cct_circuitId :: int
  cct_hops :: "client_hop list"

record relay_hop =
  rhp_inboundCircuitId :: nat
  rhp_Kf :: bytes
  rhp_Kb :: bytes
  rhp_Kdf :: bytes
  rhp_Kdb :: bytes
  rhp_forwardCounter :: nat
  rhp_backwardCounter :: nat
  rhp_forwardDigest :: digest_state
  rhp_backwardDigest :: digest_state
  rhp_extendReassembler :: reassembler

definition defaultReassembler :: reassembler where
  "defaultReassembler = createReassembler 30000 16"

definition createClientCircuit :: "int \<Rightarrow> circuit" where
  "createClientCircuit circuitId = \<lparr>cct_circuitId = circuitId, cct_hops = []\<rparr>"

definition new_client_hop :: "hop_keys \<Rightarrow> client_hop res" where
  "new_client_hop hopKeys =
     (case createDigestState (hop_Kdf hopKeys) of
        Inl e \<Rightarrow> Inl e
      | Inr fd \<Rightarrow>
          (case createDigestState (hop_Kdb hopKeys) of
             Inl e \<Rightarrow> Inl e
           | Inr bd \<Rightarrow>
               Inr \<lparr>chp_Kf = hop_Kf hopKeys, chp_Kb = hop_Kb hopKeys, chp_Kdf = hop_Kdf hopKeys,
                 chp_Kdb = hop_Kdb hopKeys, chp_forwardCounter = 0, chp_backwardCounter = 0,
                 chp_forwardDigest = fd, chp_backwardDigest = bd,
                 chp_extendedReassembler = defaultReassembler\<rparr>))"

definition addHop :: "circuit \<Rightarrow> hop_keys \<Rightarrow> circuit res" where
  "addHop circuit hopKeys =
     (case new_client_hop hopKeys of
        Inl e \<Rightarrow> Inl e
      | Inr hop \<Rightarrow> Inr (circuit\<lparr>cct_hops := cct_hops circuit @ [hop]\<rparr>))"

definition createRelayHop :: "nat \<Rightarrow> hop_keys \<Rightarrow> relay_hop res" where
  "createRelayHop inboundCircuitId hopKeys =
     (case createDigestState (hop_Kdf hopKeys) of
        Inl e \<Rightarrow> Inl e
      | Inr fd \<Rightarrow>
          (case createDigestState (hop_Kdb hopKeys) of
             Inl e \<Rightarrow> Inl e
           | Inr bd \<Rightarrow>
               Inr \<lparr>rhp_inboundCircuitId = inboundCircuitId, rhp_Kf = hop_Kf hopKeys,
                 rhp_Kb = hop_Kb hopKeys, rhp_Kdf = hop_Kdf hopKeys, rhp_Kdb = hop_Kdb hopKeys,
                 rhp_forwardCounter = 0, rhp_backwardCounter = 0, rhp_forwardDigest = fd,
                 rhp_backwardDigest = bd, rhp_extendReassembler = defaultReassembler\<rparr>))"

section \<open>Layered encryption\<close>

text \<open>The loops of \<open>encryptOutbound\<close> (last hop first) and \<open>decryptInbound\<close> (first hop first).\<close>

fun encrypt_hops :: "crypto \<Rightarrow> client_hop list \<Rightarrow> bytes \<Rightarrow> (bytes \<times> client_hop list) res" where
  "encrypt_hops C [] payload = Inr (payload, [])"
| "encrypt_hops C (hop # hops) payload =
     (case encrypt_hops C hops payload of
        Inl e \<Rightarrow> Inl e
      | Inr (payload, hops) \<Rightarrow>
          (case applyLayer C (chp_Kf hop) (buildLayerIV (chp_forwardCounter hop)) payload of
             Inl e \<Rightarrow> Inl e
           | Inr payload \<Rightarrow>
               Inr (payload, hop\<lparr>chp_forwardCounter := chp_forwardCounter hop + 1\<rparr> # hops)))"

fun decrypt_hops :: "crypto \<Rightarrow> client_hop list \<Rightarrow> bytes \<Rightarrow> (bytes \<times> client_hop list) res" where
  "decrypt_hops C [] payload = Inr (payload, [])"
| "decrypt_hops C (hop # hops) payload =
     (case applyLayer C (chp_Kb hop) (buildLayerIV (chp_backwardCounter hop)) payload of
        Inl e \<Rightarrow> Inl e
      | Inr payload \<Rightarrow>
          (case decrypt_hops C hops payload of
             Inl e \<Rightarrow> Inl e
           | Inr (payload, hops) \<Rightarrow>
               Inr (payload, hop\<lparr>chp_backwardCounter := chp_backwardCounter hop + 1\<rparr> # hops)))"

definition encryptOutbound :: "crypto \<Rightarrow> circuit \<Rightarrow> bytes \<Rightarrow> (bytes \<times> circuit) res" where
  "encryptOutbound C circuit plaintext =
     (if length plaintext \<noteq> LEN_CELL_PAYLOAD
        then Inl (Error ''layered encryption operates on full 508-byte cell payload'')
      else if length (cct_hops circuit) = 0 then Inl (Error ''cannot encrypt: circuit has no hops'')
      else case encrypt_hops C (cct_hops circuit) plaintext of
             Inl e \<Rightarrow> Inl e
           | Inr (payload, hops) \<Rightarrow> Inr (payload, circuit\<lparr>cct_hops := hops\<rparr>))"

definition decryptInbound :: "crypto \<Rightarrow> circuit \<Rightarrow> bytes \<Rightarrow> (bytes \<times> circuit) res" where
  "decryptInbound C circuit ciphertext =
     (if length ciphertext \<noteq> LEN_CELL_PAYLOAD
        then Inl (Error ''layered decryption operates on full 508-byte cell payload'')
      else if length (cct_hops circuit) = 0 then Inl (Error ''cannot decrypt: circuit has no hops'')
      else case decrypt_hops C (cct_hops circuit) ciphertext of
             Inl e \<Rightarrow> Inl e
           | Inr (payload, hops) \<Rightarrow> Inr (payload, circuit\<lparr>cct_hops := hops\<rparr>))"

definition relayPeelForward :: "crypto \<Rightarrow> relay_hop \<Rightarrow> bytes \<Rightarrow> (bytes \<times> relay_hop) res" where
  "relayPeelForward C relayHop payload =
     (if length payload \<noteq> LEN_CELL_PAYLOAD
        then Inl (Error ''relay layer ops require full 508-byte payload'')
      else case applyLayer C (rhp_Kf relayHop) (buildLayerIV (rhp_forwardCounter relayHop)) payload of
             Inl e \<Rightarrow> Inl e
           | Inr result \<Rightarrow>
               Inr (result, relayHop\<lparr>rhp_forwardCounter := rhp_forwardCounter relayHop + 1\<rparr>))"

definition relayWrapBackward :: "crypto \<Rightarrow> relay_hop \<Rightarrow> bytes \<Rightarrow> (bytes \<times> relay_hop) res" where
  "relayWrapBackward C relayHop payload =
     (if length payload \<noteq> LEN_CELL_PAYLOAD
        then Inl (Error ''relay layer ops require full 508-byte payload'')
      else case applyLayer C (rhp_Kb relayHop) (buildLayerIV (rhp_backwardCounter relayHop)) payload of
             Inl e \<Rightarrow> Inl e
           | Inr result \<Rightarrow>
               Inr (result, relayHop\<lparr>rhp_backwardCounter := rhp_backwardCounter relayHop + 1\<rparr>))"

section \<open>CREATE and CREATED\<close>

text \<open>\<open>array.map(f)\<close> where \<open>f\<close> may throw and changes a state.\<close>

fun map_state :: "('s \<Rightarrow> 'a \<Rightarrow> ('b \<times> 's) res) \<Rightarrow> 's \<Rightarrow> 'a list \<Rightarrow> ('b list \<times> 's) res" where
  "map_state f s [] = Inr ([], s)"
| "map_state f s (x # xs) =
     (case f s x of
        Inl e \<Rightarrow> Inl e
      | Inr (y, s) \<Rightarrow> (case map_state f s xs of Inl e \<Rightarrow> Inl e | Inr (ys, s) \<Rightarrow> Inr (y # ys, s)))"

definition handshake_cells :: "nat \<Rightarrow> int \<Rightarrow> int \<Rightarrow> bytes \<Rightarrow> bytes list res" where
  "handshake_cells command circuitId handshakeId message =
     (case fragmentMessage message handshakeId (int FRAGMENT_PAYLOAD_CAPACITY) of
        Inl e \<Rightarrow> Inl e
      | Inr fragments \<Rightarrow> map_res (buildCell WIRE_VERSION_V2 circuitId command) fragments)"

definition beginCreate :: "crypto \<Rightarrow> bytes \<Rightarrow> bytes \<Rightarrow> int \<Rightarrow> int \<Rightarrow> (bytes list \<times> ntor_state \<times> int) res" where
  "beginCreate C xSeed kemSeed handshakeId circuitId =
     (let ntorState = clientInit C xSeed kemSeed
      in case handshake_cells CMD_CREATE circuitId handshakeId (nts_createMsg ntorState) of
           Inl e \<Rightarrow> Inl e
         | Inr cells \<Rightarrow> Inr (cells, ntorState, handshakeId))"

text \<open>Null, more cells expected, or the handshake's result.\<close>

datatype 'a progress = Refused | More | Done 'a

record relay_identity =
  rid_B_sk :: bytes
  rid_B_pk :: bytes
  rid_ID_R :: bytes

record draws =
  drw_encSeed :: bytes
  drw_ySeed :: bytes
  drw_handshakeId :: int

record created =
  crd_cells :: "bytes list"
  crd_relayHop :: relay_hop
  crd_handshakeId :: int

definition created_reply :: "crypto \<Rightarrow> draws \<Rightarrow> nat \<Rightarrow> ntor_response \<Rightarrow> created res" where
  "created_reply C d circuitId response =
     (case handshake_cells CMD_CREATED (int circuitId) (drw_handshakeId d) (ntr_createdMsg response) of
        Inl e \<Rightarrow> Inl e
      | Inr createdCells \<Rightarrow>
          (case deriveHopKeys C (ntr_KEY_SEED response) of
             Inl e \<Rightarrow> Inl e
           | Inr hopKeys \<Rightarrow>
               (case createRelayHop circuitId hopKeys of
                  Inl e \<Rightarrow> Inl e
                | Inr relayHop \<Rightarrow> Inr \<lparr>crd_cells = createdCells, crd_relayHop = relayHop,
                                       crd_handshakeId = drw_handshakeId d\<rparr>)))"

definition handleCreate ::
  "crypto \<Rightarrow> draws \<Rightarrow> int \<Rightarrow> relay_identity \<Rightarrow> bytes \<Rightarrow> reassembler \<Rightarrow> (created progress \<times> reassembler) res" where
  "handleCreate C d now i raw r =
     (case parseCell raw of
        None \<Rightarrow> Inr (Refused, r)
      | Some parsed \<Rightarrow>
          if cel_command parsed \<noteq> CMD_CREATE then Inr (Refused, r)
          else
            (case ingest now (cel_payload parsed) r of
               (Failed, r) \<Rightarrow> Inr (Refused, r)
             | (Waiting, r) \<Rightarrow> Inr (More, r)
             | (Complete message, r) \<Rightarrow>
                 (case relayResponse C (drw_encSeed d) (drw_ySeed d) message (rid_B_sk i) (rid_B_pk i) (rid_ID_R i) of
                    None \<Rightarrow> Inr (Refused, r)
                  | Some response \<Rightarrow>
                      (case created_reply C d (cel_circuitId parsed) response of
                         Inl e \<Rightarrow> Inl e
                       | Inr reply \<Rightarrow> Inr (Done reply, r)))))"

definition finishCreate ::
  "crypto \<Rightarrow> int \<Rightarrow> ntor_state \<Rightarrow> bytes \<Rightarrow> bytes \<Rightarrow> bytes \<Rightarrow> reassembler \<Rightarrow> (hop_keys progress \<times> reassembler) res" where
  "finishCreate C now ntorState B_pk ID_R raw r =
     (case parseCell raw of
        None \<Rightarrow> Inr (Refused, r)
      | Some parsed \<Rightarrow>
          if cel_command parsed \<noteq> CMD_CREATED then Inr (Refused, r)
          else
            (case ingest now (cel_payload parsed) r of
               (Failed, r) \<Rightarrow> Inr (Refused, r)
             | (Waiting, r) \<Rightarrow> Inr (More, r)
             | (Complete message, r) \<Rightarrow>
                 (case clientFinish C ntorState B_pk ID_R message of
                    None \<Rightarrow> Inr (Refused, r)
                  | Some KEY_SEED \<Rightarrow>
                      (case deriveHopKeys C KEY_SEED of
                         Inl e \<Rightarrow> Inl e
                       | Inr hopKeys \<Rightarrow> Inr (Done hopKeys, r)))))"

section \<open>EXTEND and EXTENDED\<close>

text \<open>One RELAY_EXTEND cell: the digest state of the last hop moves, then every forward counter.\<close>

definition update_last :: "('a \<Rightarrow> 'a) \<Rightarrow> 'a list \<Rightarrow> 'a list" where
  "update_last f xs = (if xs = [] then [] else butlast xs @ [f (last xs)])"

definition extend_cell :: "crypto \<Rightarrow> circuit \<Rightarrow> bytes \<Rightarrow> (bytes \<times> circuit) res" where
  "extend_cell C circuit fragData =
     (case buildRelayPayload C RELAY_EXTEND (int STREAM_ID_CIRCUIT) fragData
             (chp_forwardDigest (last (cct_hops circuit))) of
        Inl e \<Rightarrow> Inl e
      | Inr (relayPayload, digest) \<Rightarrow>
          (case encryptOutbound C (circuit\<lparr>cct_hops :=
                  update_last (\<lambda>h. h\<lparr>chp_forwardDigest := digest\<rparr>) (cct_hops circuit)\<rparr>) relayPayload of
             Inl e \<Rightarrow> Inl e
           | Inr (ciphertext, circuit) \<Rightarrow>
               (case buildCell WIRE_VERSION_V2 (cct_circuitId circuit) CMD_RELAY ciphertext of
                  Inl e \<Rightarrow> Inl e
                | Inr c \<Rightarrow> Inr (c, circuit))))"

definition beginExtend ::
  "crypto \<Rightarrow> bytes \<Rightarrow> bytes \<Rightarrow> int \<Rightarrow> circuit \<Rightarrow> bytes \<Rightarrow> bytes \<Rightarrow> (bytes list \<times> ntor_state \<times> int \<times> circuit) res" where
  "beginExtend C xSeed kemSeed handshakeId circuit nextHopFingerprint nextHopBpk =
     (if length (cct_hops circuit) = 0
        then Inl (Error ''cannot extend empty circuit; use beginCreate for the first hop'')
      else if length nextHopFingerprint \<noteq> 32 then Inl (Error ''nextHopFingerprint must be 32 bytes'')
      else if length nextHopBpk \<noteq> 32 then Inl (Error ''nextHopBpk must be 32 bytes'')
      else
        let ntorState = clientInit C xSeed kemSeed;
            extendPayload = nextHopFingerprint @ nextHopBpk @ nts_createMsg ntorState
        in case fragmentMessage extendPayload handshakeId (int RELAY_FRAGMENT_CAPACITY) of
             Inl e \<Rightarrow> Inl e
           | Inr fragments \<Rightarrow>
               (case map_state (extend_cell C) circuit fragments of
                  Inl e \<Rightarrow> Inl e
                | Inr (cells, circuit) \<Rightarrow> Inr (cells, ntorState, handshakeId, circuit)))"

record extend_payload =
  ext_nextHopFingerprint :: bytes
  ext_nextHopBpk :: bytes
  ext_handshakeMessage :: bytes

datatype hop_event =
    Null_Event
  | Forward bytes
  | Extend_Fragment
  | Extend nat extend_payload
  | Data nat nat bytes

definition handleRelayAtHop :: "crypto \<Rightarrow> int \<Rightarrow> relay_hop \<Rightarrow> bytes \<Rightarrow> (hop_event \<times> relay_hop) res" where
  "handleRelayAtHop C now relayHop cellPayload =
     (case relayPeelForward C relayHop cellPayload of
        Inl e \<Rightarrow> Inl e
      | Inr (peeled, relayHop) \<Rightarrow>
          let (result, digest) = tryConsumeRelayPayload C peeled (rhp_forwardDigest relayHop);
              relayHop = relayHop\<lparr>rhp_forwardDigest := digest\<rparr>
          in (case result of
                Malformed \<Rightarrow> Inr (Null_Event, relayHop)
              | Mismatch \<Rightarrow> Inr (Forward peeled, relayHop)
              | Match parsed \<Rightarrow>
                  if rly_relayCommand parsed = RELAY_EXTEND then
                    let (r, reasm) = ingest now (rly_data parsed) (rhp_extendReassembler relayHop);
                        relayHop = relayHop\<lparr>rhp_extendReassembler := reasm\<rparr>
                    in (case r of
                          Failed \<Rightarrow> Inr (Null_Event, relayHop)
                        | Waiting \<Rightarrow> Inr (Extend_Fragment, relayHop)
                        | Complete message \<Rightarrow>
                            if length message \<noteq> EXTEND_PAYLOAD_BYTES then Inr (Null_Event, relayHop)
                            else Inr (Extend (rly_streamId parsed)
                              \<lparr>ext_nextHopFingerprint = subarray message 0 32,
                               ext_nextHopBpk = subarray message 32 64,
                               ext_handshakeMessage = subarray message 64 (64 + CREATE_MSG_BYTES)\<rparr>, relayHop))
                  else if rly_relayCommand parsed = RELAY_EXTENDED then Inr (Null_Event, relayHop)
                  else Inr (Data (rly_relayCommand parsed) (rly_streamId parsed) (rly_data parsed), relayHop)))"

definition extended_cell :: "crypto \<Rightarrow> relay_hop \<Rightarrow> bytes \<Rightarrow> (bytes \<times> relay_hop) res" where
  "extended_cell C relayHop fragData =
     (case buildRelayPayload C RELAY_EXTENDED (int STREAM_ID_CIRCUIT) fragData (rhp_backwardDigest relayHop) of
        Inl e \<Rightarrow> Inl e
      | Inr (relayPayload, digest) \<Rightarrow>
          relayWrapBackward C (relayHop\<lparr>rhp_backwardDigest := digest\<rparr>) relayPayload)"

definition buildExtendedRelayCells ::
  "crypto \<Rightarrow> int \<Rightarrow> relay_hop \<Rightarrow> bytes \<Rightarrow> (bytes list \<times> relay_hop) res" where
  "buildExtendedRelayCells C handshakeId relayHop handshakeResponse =
     (if length handshakeResponse \<noteq> CREATED_MSG_BYTES
        then Inl (Error ''handshakeResponse must be 1152 bytes'')
      else case fragmentMessage handshakeResponse handshakeId (int RELAY_FRAGMENT_CAPACITY) of
             Inl e \<Rightarrow> Inl e
           | Inr fragments \<Rightarrow> map_state (extended_cell C) relayHop fragments)"

datatype inbound_event =
    No_Match
  | Extended_Fragment nat
  | Extended nat bytes
  | Inbound_Data nat nat nat bytes

text \<open>The loop over the hops; \<open>i\<close> is the index of the first hop of the list.\<close>

fun dispatch_loop :: "crypto \<Rightarrow> int \<Rightarrow> bytes \<Rightarrow> nat \<Rightarrow> client_hop list \<Rightarrow> inbound_event \<times> client_hop list" where
  "dispatch_loop C now peeled i [] = (No_Match, [])"
| "dispatch_loop C now peeled i (hop # hops) =
     (let (r, digest) = tryConsumeRelayPayload C peeled (chp_backwardDigest hop);
          hop = hop\<lparr>chp_backwardDigest := digest\<rparr>
      in case r of
           Malformed \<Rightarrow> (No_Match, hop # hops)
         | Mismatch \<Rightarrow>
             (let (ev, hops) = dispatch_loop C now peeled (i + 1) hops in (ev, hop # hops))
         | Match parsed \<Rightarrow>
             if rly_relayCommand parsed = RELAY_EXTENDED then
               let (f, reasm) = ingest now (rly_data parsed) (chp_extendedReassembler hop);
                   hop = hop\<lparr>chp_extendedReassembler := reasm\<rparr>
               in (case f of
                     Failed \<Rightarrow> (No_Match, hop # hops)
                   | Waiting \<Rightarrow> (Extended_Fragment i, hop # hops)
                   | Complete message \<Rightarrow>
                       if length message \<noteq> CREATED_MSG_BYTES then (No_Match, hop # hops)
                       else (Extended i message, hop # hops))
             else (Inbound_Data i (rly_relayCommand parsed) (rly_streamId parsed) (rly_data parsed), hop # hops))"

definition dispatchInboundRelay :: "crypto \<Rightarrow> int \<Rightarrow> circuit \<Rightarrow> bytes \<Rightarrow> inbound_event \<times> circuit" where
  "dispatchInboundRelay C now circuit peeledPayload =
     (let (ev, hops) = dispatch_loop C now peeledPayload 0 (cct_hops circuit)
      in (ev, circuit\<lparr>cct_hops := hops\<rparr>))"

definition finishExtend ::
  "crypto \<Rightarrow> bytes \<Rightarrow> ntor_state \<Rightarrow> bytes \<Rightarrow> bytes \<Rightarrow> hop_keys option res" where
  "finishExtend C handshakeResponse ntorState nextHopBpk nextHopFingerprint =
     (case clientFinish C ntorState nextHopBpk nextHopFingerprint handshakeResponse of
        None \<Rightarrow> Inr None
      | Some KEY_SEED \<Rightarrow>
          (case deriveHopKeys C KEY_SEED of Inl e \<Rightarrow> Inl e | Inr k \<Rightarrow> Inr (Some k)))"

end
