(* ===== verification/V2_Circuit_Props.thy ===== *)
theory V2_Circuit_Props
  imports V2_Circuit
begin

text \<open>
  What circuits guarantee: layers added by the client are peeled one per hop and the counters stay
  in step, in both directions; a RELAY cell for the last hop is delivered there; and the multi-cell
  handshake leaves client and relay with the same keys.
\<close>

section \<open>Layers as a list of keys\<close>

abbreviation layers :: "crypto \<Rightarrow> bytes \<times> nat \<Rightarrow> bytes \<Rightarrow> bytes" where
  "layers C \<equiv> (\<lambda>(key, counter). xor_stream C key (buildLayerIV counter))"

definition fwd_keys :: "client_hop list \<Rightarrow> (bytes \<times> nat) list" where
  "fwd_keys = map (\<lambda>h. (chp_Kf h, chp_forwardCounter h))"

definition bwd_keys :: "client_hop list \<Rightarrow> (bytes \<times> nat) list" where
  "bwd_keys = map (\<lambda>h. (chp_Kb h, chp_backwardCounter h))"

definition bump_fwd :: "client_hop \<Rightarrow> client_hop" where
  "bump_fwd h = h\<lparr>chp_forwardCounter := chp_forwardCounter h + 1\<rparr>"

definition bump_bwd :: "client_hop \<Rightarrow> client_hop" where
  "bump_bwd h = h\<lparr>chp_backwardCounter := chp_backwardCounter h + 1\<rparr>"

lemma applyLayer_ok: "length k = 32 \<Longrightarrow> applyLayer C k (buildLayerIV n) p = Inr (layers C (k, n) p)"
  by (simp add: applyLayer_def)

lemma encrypt_hops_layers:
  "\<forall>h\<in>set hops. length (chp_Kf h) = 32 \<Longrightarrow>
   encrypt_hops C hops p = Inr (foldr (layers C) (fwd_keys hops) p, map bump_fwd hops)"
  by (induction hops) (simp_all add: fwd_keys_def bump_fwd_def applyLayer_ok)

lemma decrypt_hops_layers:
  "\<forall>h\<in>set hops. length (chp_Kb h) = 32 \<Longrightarrow>
   decrypt_hops C hops p = Inr (foldl (\<lambda>d k. layers C k d) p (bwd_keys hops), map bump_bwd hops)"
  by (induction hops arbitrary: p) (simp_all add: bwd_keys_def bump_bwd_def applyLayer_ok)

section \<open>The path of relays\<close>

text \<open>A cell passes the relays from the first; a reply is wrapped from the last.\<close>

fun peel_path :: "crypto \<Rightarrow> relay_hop list \<Rightarrow> bytes \<Rightarrow> (bytes \<times> relay_hop list) res" where
  "peel_path C [] p = Inr (p, [])"
| "peel_path C (r # rs) p =
     (case relayPeelForward C r p of
        Inl e \<Rightarrow> Inl e
      | Inr (p, r) \<Rightarrow> (case peel_path C rs p of Inl e \<Rightarrow> Inl e | Inr (p, rs) \<Rightarrow> Inr (p, r # rs)))"

fun wrap_path :: "crypto \<Rightarrow> relay_hop list \<Rightarrow> bytes \<Rightarrow> (bytes \<times> relay_hop list) res" where
  "wrap_path C [] p = Inr (p, [])"
| "wrap_path C (r # rs) p =
     (case wrap_path C rs p of
        Inl e \<Rightarrow> Inl e
      | Inr (p, rs) \<Rightarrow> (case relayWrapBackward C r p of Inl e \<Rightarrow> Inl e | Inr (p, r) \<Rightarrow> Inr (p, r # rs)))"

definition in_step :: "client_hop \<Rightarrow> relay_hop \<Rightarrow> bool" where
  "in_step h r \<longleftrightarrow> rhp_Kf r = chp_Kf h \<and> rhp_Kb r = chp_Kb h \<and> length (chp_Kf h) = 32 \<and> length (chp_Kb h) = 32
     \<and> rhp_forwardCounter r = chp_forwardCounter h \<and> rhp_backwardCounter r = chp_backwardCounter h
     \<and> rhp_forwardDigest r = chp_forwardDigest h \<and> rhp_backwardDigest r = chp_backwardDigest h"

definition bump_peel :: "relay_hop \<Rightarrow> relay_hop" where
  "bump_peel r = r\<lparr>rhp_forwardCounter := rhp_forwardCounter r + 1\<rparr>"

definition bump_wrap :: "relay_hop \<Rightarrow> relay_hop" where
  "bump_wrap r = r\<lparr>rhp_backwardCounter := rhp_backwardCounter r + 1\<rparr>"

lemma in_step_bump:
  "in_step h r \<Longrightarrow> in_step (bump_fwd h) (bump_peel r)" "in_step h r \<Longrightarrow> in_step (bump_bwd h) (bump_wrap r)"
  by (simp_all add: in_step_def bump_fwd_def bump_bwd_def bump_peel_def bump_wrap_def)

lemma relayPeel_layer:
  "in_step h r \<Longrightarrow> length p = 508 \<Longrightarrow>
   relayPeelForward C r p = Inr (layers C (chp_Kf h, chp_forwardCounter h) p, bump_peel r)"
  by (simp add: relayPeelForward_def in_step_def applyLayer_ok bump_peel_def)

lemma relayWrap_layer:
  "in_step h r \<Longrightarrow> length p = 508 \<Longrightarrow>
   relayWrapBackward C r p = Inr (layers C (chp_Kb h, chp_backwardCounter h) p, bump_wrap r)"
  by (simp add: relayWrapBackward_def in_step_def applyLayer_ok bump_wrap_def)

lemma peel_path_layers:
  "list_all2 in_step hops rs \<Longrightarrow> length p = 508 \<Longrightarrow>
   peel_path C rs p = Inr (foldl (\<lambda>d k. layers C k d) p (fwd_keys hops), map bump_peel rs)"
proof (induction hops rs arbitrary: p rule: list_all2_induct)
  case Nil
  then show ?case by (simp add: fwd_keys_def)
next
  case (Cons h hops r rs)
  then show ?case using relayPeel_layer [of h r p C] by (simp add: fwd_keys_def)
qed

lemma wrap_path_layers:
  "list_all2 in_step hops rs \<Longrightarrow> length p = 508 \<Longrightarrow>
   wrap_path C rs p = Inr (foldr (layers C) (bwd_keys hops) p, map bump_wrap rs)"
proof (induction hops rs arbitrary: p rule: list_all2_induct)
  case Nil
  then show ?case by (simp add: bwd_keys_def)
next
  case (Cons h hops r rs)
  have "length (foldr (layers C) (bwd_keys hops) p) = 508"
    using Cons.prems chacha.length_wrap [of C "bwd_keys hops" p] by simp
  from relayWrap_layer [OF Cons.hyps(1) this, of C] show ?case
    using Cons by (simp add: bwd_keys_def)
qed

lemma in_step_keys: "list_all2 in_step hops rs \<Longrightarrow> \<forall>h\<in>set hops. length (chp_Kf h) = 32 \<and> length (chp_Kb h) = 32"
  by (induction hops rs rule: list_all2_induct) (auto simp: in_step_def)

lemma list_all2_bump:
  "list_all2 in_step hops rs \<Longrightarrow> list_all2 in_step (map bump_fwd hops) (map bump_peel rs)"
  "list_all2 in_step hops rs \<Longrightarrow> list_all2 in_step (map bump_bwd hops) (map bump_wrap rs)"
  by (auto simp: list_all2_conv_all_nth in_step_bump)

lemma encryptOutbound_layers:
  assumes "list_all2 in_step (cct_hops c) rs" "cct_hops c \<noteq> []" "length p = 508"
  shows "encryptOutbound C c p = Inr (foldr (layers C) (fwd_keys (cct_hops c)) p,
    c\<lparr>cct_hops := map bump_fwd (cct_hops c)\<rparr>)"
  using assms encrypt_hops_layers [of "cct_hops c" C p] in_step_keys [OF assms(1)]
  by (simp add: encryptOutbound_def)

lemma decryptInbound_layers:
  assumes "list_all2 in_step (cct_hops c) rs" "cct_hops c \<noteq> []" "length p = 508"
  shows "decryptInbound C c p = Inr (foldl (\<lambda>d k. layers C k d) p (bwd_keys (cct_hops c)),
    c\<lparr>cct_hops := map bump_bwd (cct_hops c)\<rparr>)"
  using assms decrypt_hops_layers [of "cct_hops c" C p] in_step_keys [OF assms(1)]
  by (simp add: decryptInbound_def)

section \<open>Delivery\<close>

text \<open>The cell is handled at each relay in turn and goes on while the relay forwards it.\<close>

fun deliver :: "crypto \<Rightarrow> int \<Rightarrow> relay_hop list \<Rightarrow> bytes \<Rightarrow> (hop_event list \<times> relay_hop list) res" where
  "deliver C now [] p = Inr ([], [])"
| "deliver C now (r # rs) p =
     (case handleRelayAtHop C now r p of
        Inl e \<Rightarrow> Inl e
      | Inr (Forward q, r) \<Rightarrow>
          (case deliver C now rs q of Inl e \<Rightarrow> Inl e | Inr (evs, rs) \<Rightarrow> Inr (Forward q # evs, r # rs))
      | Inr (ev, r) \<Rightarrow> Inr ([ev], r # rs))"

text \<open>No relay before the last takes the cell for its own (its four digest bytes differ).\<close>

fun no_early_match :: "crypto \<Rightarrow> client_hop list \<Rightarrow> relay_hop list \<Rightarrow> bytes \<Rightarrow> bool" where
  "no_early_match C (h # h2 # hops) (r # rs) p =
     (fst (tryConsumeRelayPayload C (foldr (layers C) (fwd_keys (h2 # hops)) p) (rhp_forwardDigest r)) = Mismatch
      \<and> no_early_match C (h2 # hops) rs p)"
| "no_early_match C hops rs p = True"

lemma length_layers: "length (foldr (layers C) ks p) = length p"
  using chacha.length_wrap [of C ks p] by simp

lemma handle_forward:
  assumes "in_step h r" "length q = 508" "fst (tryConsumeRelayPayload C (layers C (chp_Kf h, chp_forwardCounter h) q)
      (rhp_forwardDigest r)) = Mismatch"
  shows "handleRelayAtHop C now r q = Inr (Forward (layers C (chp_Kf h, chp_forwardCounter h) q), bump_peel r)"
proof -
  obtain d where c: "tryConsumeRelayPayload C (layers C (chp_Kf h, chp_forwardCounter h) q) (rhp_forwardDigest r) = (Mismatch, d)"
    using assms(3) by (metis prod.collapse)
  then have "d = rhp_forwardDigest r"
    by (auto simp: tryConsumeRelayPayload_def Let_def split: if_splits option.splits)
  then show ?thesis
    using c relayPeel_layer [OF assms(1,2), of C] by (simp add: handleRelayAtHop_def bump_peel_def)
qed

lemma layers_twice: "layers C k (layers C k p) = p"
  by (cases k) simp

lemma deliver_to_last:
  assumes "list_all2 in_step hops rs" "hops \<noteq> []" "length p = 508" "no_early_match C hops rs p"
    and "tryConsumeRelayPayload C p (chp_forwardDigest (last hops)) = (Match q, d)"
    and "rly_relayCommand q \<noteq> 4" "rly_relayCommand q \<noteq> 5"
  shows "\<exists>evs rs'. deliver C now rs (foldr (layers C) (fwd_keys hops) p)
    = Inr (evs @ [Data (rly_relayCommand q) (rly_streamId q) (rly_data q)], rs')
    \<and> length evs = length hops - 1 \<and> (\<forall>ev\<in>set evs. \<exists>x. ev = Forward x)
    \<and> rs' = update_last (\<lambda>r. r\<lparr>rhp_forwardDigest := d\<rparr>) (map bump_peel rs)"
  using assms
proof (induction hops arbitrary: rs)
  case Nil
  then show ?case by simp
next
  case (Cons h hops)
  obtain r rs0 where rs: "rs = r # rs0" and hr: "in_step h r" and rest: "list_all2 in_step hops rs0"
    using Cons.prems(1) by (auto simp: list_all2_Cons1)
  let ?q = "foldr (layers C) (fwd_keys hops) p"
  let ?w = "foldr (layers C) (fwd_keys (h # hops)) p"
  have w: "?w = layers C (chp_Kf h, chp_forwardCounter h) ?q" by (simp add: fwd_keys_def)
  have len: "length ?w = 508" "length ?q = 508" using Cons.prems(3) by (simp_all add: length_layers)
  show ?case
  proof (cases hops)
    case Nil
    then have "rs0 = []" "?q = p" "chp_forwardDigest h = rhp_forwardDigest r"
      using rest hr by (auto simp: fwd_keys_def in_step_def)
    moreover have "handleRelayAtHop C now r ?w = Inr (Data (rly_relayCommand q) (rly_streamId q) (rly_data q),
        (bump_peel r)\<lparr>rhp_forwardDigest := d\<rparr>)"
      using relayPeel_layer [OF hr len(1), of C] Cons.prems(5-7) w calculation Nil layers_twice [of C _ p]
      by (simp add: handleRelayAtHop_def bump_peel_def)
    ultimately show ?thesis by (simp add: rs Nil update_last_def)
  next
    case (Cons h2 hops2)
    have nm: "fst (tryConsumeRelayPayload C ?q (rhp_forwardDigest r)) = Mismatch" "no_early_match C hops rs0 p"
      using Cons.prems(4) rs Cons by simp_all
    have "handleRelayAtHop C now r ?w = Inr (Forward ?q, bump_peel r)"
      using handle_forward [OF hr len(1), of C now] nm(1) by (simp add: w layers_twice)
    moreover obtain evs rs' where "deliver C now rs0 ?q
        = Inr (evs @ [Data (rly_relayCommand q) (rly_streamId q) (rly_data q)], rs')"
      "length evs = length hops - 1" "\<forall>ev\<in>set evs. \<exists>x. ev = Forward x"
      "rs' = update_last (\<lambda>r. r\<lparr>rhp_forwardDigest := d\<rparr>) (map bump_peel rs0)"
      using Cons.IH [OF rest _ Cons.prems(3) nm(2)] Cons.prems(5-7) Cons by auto
    moreover have "rs0 \<noteq> []" using rest Cons by auto
    ultimately show ?thesis
      by (intro exI [of _ "Forward ?q # evs"] exI [of _ "bump_peel r # rs'"])
        (auto simp: rs Cons update_last_def)
  qed
qed

section \<open>Properties\<close>

text \<open>C7. Onion encryption: what the client encrypts for the circuit, the relays peel off one layer each,
  to the plaintext; what the relays wrap from the last to the first, the client decrypts to the
  plaintext. In both directions every counter of the client stays equal to the counter of its
  relay, so the next cell works too.\<close>

theorem onion_roundtrip:
  assumes "list_all2 in_step (cct_hops c) rs" "cct_hops c \<noteq> []" "length p = 508"
  shows "(\<exists>ct c' rs'. encryptOutbound C c p = Inr (ct, c') \<and> peel_path C rs ct = Inr (p, rs')
      \<and> list_all2 in_step (cct_hops c') rs')
    \<and> (\<exists>ct c' rs'. wrap_path C rs p = Inr (ct, rs') \<and> decryptInbound C c ct = Inr (p, c')
      \<and> list_all2 in_step (cct_hops c') rs')"
  using encryptOutbound_layers [OF assms, of C] wrap_path_layers [OF assms(1,3), of C]
    peel_path_layers [OF assms(1), of "foldr (layers C) (fwd_keys (cct_hops c)) p" C]
    decryptInbound_layers [OF assms(1,2), of "foldr (layers C) (bwd_keys (cct_hops c)) p" C]
    list_all2_bump [OF assms(1)] assms(3) chacha.wrap_peel [of C]
  by (simp add: length_layers)

text \<open>Delivery: a RELAY cell that the client builds for the last hop and encrypts goes through the
  circuit, each relay before the last passes on what it peeled, and the last relay reads the
  command, the stream and the data the client wrote. (No relay before the last may see its own four digest
  bytes in the cell by chance; the code has that exception too.)\<close>

theorem relay_cell_delivered:
  assumes "hash_ok C" "list_all2 in_step (cct_hops c) rs" "cct_hops c \<noteq> []"
    and "relay_ok q" "rly_relayCommand q \<notin> {4, 5}"
    and "build_relay_of C (chp_forwardDigest (last (cct_hops c))) q = Inr (p, d)"
    and "encryptOutbound C c p = Inr (ct, c')" "no_early_match C (cct_hops c) rs p"
  shows "\<exists>evs rs'. deliver C now rs ct
    = Inr (evs @ [Data (rly_relayCommand q) (rly_streamId q) (rly_data q)], rs')
    \<and> length evs = length (cct_hops c) - 1 \<and> (\<forall>ev\<in>set evs. \<exists>x. ev = Forward x)"
proof -
  have p: "length p = 508" using assms(7) by (simp add: encryptOutbound_def split: if_splits)
  have "tryConsumeRelayPayload C p (chp_forwardDigest (last (cct_hops c))) = (Match q, d)"
    using consume_built [OF _ assms(1)] assms(4,6) by (simp add: build_relay_of_def relay_ok_def)
  moreover have "ct = foldr (layers C) (fwd_keys (cct_hops c)) p"
    using assms(7) encryptOutbound_layers [OF assms(2,3) p, of C] by simp
  ultimately show ?thesis
    using deliver_to_last [OF assms(2,3) p assms(8)] assms(5) by blast
qed

lemma toy_hop:
  "\<exists>h r. in_step h r \<and> chp_forwardDigest h = zeros 32"
proof -
  let ?k = "zeros 32"
  have "in_step \<lparr>chp_Kf = ?k, chp_Kb = ?k, chp_Kdf = ?k, chp_Kdb = ?k, chp_forwardCounter = 0, chp_backwardCounter = 0,
      chp_forwardDigest = ?k, chp_backwardDigest = ?k, chp_extendedReassembler = defaultReassembler\<rparr>
    \<lparr>rhp_inboundCircuitId = 7, rhp_Kf = ?k, rhp_Kb = ?k, rhp_Kdf = ?k, rhp_Kdb = ?k, rhp_forwardCounter = 0,
      rhp_backwardCounter = 0, rhp_forwardDigest = ?k, rhp_backwardDigest = ?k, rhp_extendReassembler = defaultReassembler\<rparr>"
    by (simp add: in_step_def)
  then show ?thesis by (metis client_hop.select_convs(7))
qed

theorem onion_roundtrip_witness:
  "\<exists>h r ct c' rs'. encryptOutbound toy_crypto \<lparr>cct_circuitId = 1, cct_hops = [h, h, h]\<rparr> (zeros 508) = Inr (ct, c')
    \<and> peel_path toy_crypto [r, r, r] ct = Inr (zeros 508, rs')"
proof -
  obtain h r where "in_step h r" using toy_hop by blast
  then show ?thesis
    using onion_roundtrip [of "\<lparr>cct_circuitId = 1, cct_hops = [h, h, h]\<rparr>" "[r, r, r]" "zeros 508" toy_crypto] by auto
qed

theorem relay_cell_delivered_witness:
  "\<exists>h r p d ct c' rs'. build_relay_of toy_crypto (chp_forwardDigest h)
        \<lparr>rly_relayCommand = 2, rly_streamId = 1, rly_data = [104, 105]\<rparr> = Inr (p, d)
    \<and> encryptOutbound toy_crypto \<lparr>cct_circuitId = 1, cct_hops = [h]\<rparr> p = Inr (ct, c')
    \<and> deliver toy_crypto 0 [r] ct = Inr ([Data 2 1 [104, 105]], rs')"
proof -
  let ?q = "\<lparr>rly_relayCommand = 2, rly_streamId = 1, rly_data = [104, 105]\<rparr>"
  obtain h r where h: "in_step h r" using toy_hop by blast
  have q: "relay_ok ?q" by (simp add: relay_ok_def)
  obtain p d where p: "build_relay_of toy_crypto (chp_forwardDigest h) ?q = Inr (p, d)"
    using build_relay_exists [OF q toy_hash_ok] by blast
  let ?c = "\<lparr>cct_circuitId = 1, cct_hops = [h]\<rparr>"
  have hr: "list_all2 in_step (cct_hops ?c) [r]" using h by simp
  have "length p = 508"
    using consume_built [OF p [unfolded build_relay_of_def] toy_hash_ok]
    by (simp add: tryConsumeRelayPayload_def split: if_splits)
  then obtain ct c' where e: "encryptOutbound toy_crypto ?c p = Inr (ct, c')"
    using encryptOutbound_layers [OF hr] by fastforce
  show ?thesis
    using relay_cell_delivered [OF toy_hash_ok hr _ q _ _ e, of d 0] p e by fastforce
qed

end
