(* ===== verification/V2_Handshake.thy ===== *)
theory V2_Handshake
  imports V2_Circuit_Props
begin

text \<open>
  The multi-cell CREATE handshake end to end: the client's cells, ingested one by one by the relay,
  give the relay a hop and a reply; the reply's cells, ingested one by one by the client, give it
  the keys of that hop.
\<close>

section \<open>Cells in order\<close>

fun progress_run :: "(int \<Rightarrow> bytes \<Rightarrow> reassembler \<Rightarrow> ('a progress \<times> reassembler) res) \<Rightarrow>
    (int \<times> bytes) list \<Rightarrow> reassembler \<Rightarrow> ('a progress list \<times> reassembler) res" where
  "progress_run step [] r = Inr ([], r)"
| "progress_run step ((now, c) # cs) r =
     (case step now c r of
        Inl e \<Rightarrow> Inl e
      | Inr (x, r) \<Rightarrow> (case progress_run step cs r of Inl e \<Rightarrow> Inl e | Inr (xs, r) \<Rightarrow> Inr (x # xs, r)))"

lemma fragments_of_cell:
  assumes "fragmentMessage m hid cap = Inr fs" "f \<in> set fs"
  shows "length f = nat cap + 8 \<and> (\<forall>t. cell_of (nat hid) (t, f))"
proof -
  note ok = fragmentMessage_ok [OF assms(1)]
  have "parseFragmentHeader f \<in> set (map parseFragmentHeader fs)" using assms(2) by simp
  then obtain i where "parseFragmentHeader f = Some (fragment_of m (nat hid) (nat cap) i)"
    unfolding fragments_parse [OF assms(1)] by auto
  then have "cell_of (nat hid) (t, f)" for t by (simp add: cell_of_def fragment_of_def)
  moreover have "length f = nat cap + 8"
  proof -
    let ?n = "ceil_div (length m) (nat cap)"
    obtain i where i: "i < ?n" "f = make_fragment m (nat hid) (nat cap) ?n i" using ok assms(2) by auto
    have "i * nat cap \<le> (?n - 1) * nat cap" using i(1) by (intro mult_le_mono1) simp
    moreover have "(?n - 1) * nat cap < length m" using ceil_div_bounds [of "nat cap" "length m"] ok by simp
    ultimately have "i * nat cap \<le> length m" by linarith
    from make_fragment_layout [OF this] show ?thesis by (simp add: i(2) fragment_bytes_def)
  qed
  ultimately show ?thesis by blast
qed

lemma fragments_nonempty: "fragmentMessage m hid cap = Inr fs \<Longrightarrow> fs \<noteq> []"
  using fragmentMessage_ok [of m hid cap fs] ceil_div_bounds [of "nat cap" "length m"] by auto

lemma ingest_in_order:
  assumes "fragmentMessage m hid cap = Inr fs" "length m \<le> 65536" "length ts = length fs"
  shows "\<exists>r'. ingest_run (zip ts fs) defaultReassembler
    = (replicate (length fs - 1) Waiting @ [Complete m], r')"
proof -
  have "zip ts fs \<noteq> []" using fragments_nonempty [OF assms(1)] assms(3) by (cases ts; cases fs) auto
  then obtain cs t c where z: "zip ts fs = cs @ [(t, c)]"
    by (metis append_butlast_last_id surj_pair)
  have own: "\<forall>tc\<in>set (zip ts fs). cell_of (nat hid) tc"
    using fragments_of_cell [OF assms(1)] by (auto dest: set_zip_rightD)
  have "map snd (filter (cell_of (nat hid)) (zip ts fs)) = fs"
    using own assms(3) by (simp add: filter_id_conv)
  then have perm: "mset (map snd (filter (cell_of (nat hid)) (cs @ [(t, c)]))) = mset fs" using z by simp
  have c: "c \<in> set fs" using z by (metis in_set_conv_decomp set_zip_rightD)
  have "cell_ids (cs @ [(t, c)]) \<subseteq> {nat hid}"
    using own unfolding z by (force simp: cell_ids_def cell_of_def split: option.splits)
  then have "card (set (map_keys (rsm_inFlight defaultReassembler)) \<union> cell_ids (cs @ [(t, c)])) \<le> card {nat hid}"
    by (intro card_mono) (auto simp: defaultReassembler_def createReassembler_def)
  then have room: "card (set (map_keys (rsm_inFlight defaultReassembler)) \<union> cell_ids (cs @ [(t, c)]))
      \<le> rsm_maxConcurrent defaultReassembler"
    by (simp add: defaultReassembler_def createReassembler_def)
  obtain xs r' where run: "ingest_run (cs @ [(t, c)]) defaultReassembler
      = (xs @ [if length m > 65536 then Failed else Complete m], r')"
    and w: "list_all2 (\<lambda>tc x. cell_of (nat hid) tc \<longrightarrow> x = Waiting) cs xs"
    using reassembly [OF assms(1) perm c _ _ room] by (auto simp: defaultReassembler_def createReassembler_def)
  have "length cs = length fs - 1" using arg_cong [OF z, of length] assms(3) by simp
  moreover have "length xs = length cs" using w by (simp add: list_all2_lengthD)
  moreover have "\<forall>x\<in>set xs. x = Waiting"
  proof
    fix x assume "x \<in> set xs"
    then obtain i where i: "i < length xs" "x = xs ! i" by (metis in_set_conv_nth)
    then have "cs ! i \<in> set (zip ts fs)" using w z by (auto dest: list_all2_lengthD)
    then show "x = Waiting" using i w own by (simp add: list_all2_conv_all_nth)
  qed
  ultimately have "xs = replicate (length fs - 1) Waiting" by (metis replicate_eqI)
  then show ?thesis using run assms(2) z by simp
qed

text \<open>A step that waits where the reassembler waits and is done where it completes, on the cells that
  carry the fragments.\<close>

definition follows :: "bytes \<Rightarrow> 'a \<Rightarrow> (int \<Rightarrow> bytes \<Rightarrow> reassembler \<Rightarrow> ('a progress \<times> reassembler) res) \<Rightarrow>
    bytes \<Rightarrow> bytes \<Rightarrow> bool" where
  "follows m x step f c \<longleftrightarrow>
     (\<forall>now r r1. (ingest now f r = (Waiting, r1) \<longrightarrow> step now c r = Inr (More, r1))
        \<and> (ingest now f r = (Complete m, r1) \<longrightarrow> step now c r = Inr (Done x, r1)))"

lemma ingest_run_length: "ingest_run cs r = (xs, r') \<Longrightarrow> length xs = length cs"
  by (induction cs r arbitrary: xs rule: ingest_run.induct) (auto split: prod.splits)

lemma progress_in_order:
  "list_all2 (follows m x step) fs cs \<Longrightarrow> length ts = length cs \<Longrightarrow>
   ingest_run (zip ts fs) r = (replicate n Waiting @ [Complete m], r') \<Longrightarrow>
   progress_run step (zip ts cs) r = Inr (replicate n More @ [Done x], r')"
proof (induction fs cs arbitrary: ts r n rule: list_all2_induct)
  case Nil
  then show ?case by simp
next
  case (Cons f fs c cs)
  obtain t ts' where ts: "ts = t # ts'" "length ts' = length cs" using Cons.prems(1) by (cases ts) auto
  obtain y r1 where one: "ingest t f r = (y, r1)" by fastforce
  obtain ys r2 where rest: "ingest_run (zip ts' fs) r1 = (ys, r2)" by fastforce
  have split: "y # ys = replicate n Waiting @ [Complete m]" "r2 = r'"
    using Cons.prems(2) ts one rest by auto
  show ?case
  proof (cases n)
    case 0
    then have "y = Complete m" "ys = []" using split by simp_all
    moreover from this have "zip ts' fs = []"
      using ingest_run_length [OF rest] by (cases ts'; cases fs) simp_all
    then have "fs = []" "ts' = []" "cs = []"
      using ts(2) Cons.hyps(2) by (auto dest: list_all2_lengthD)
    ultimately show ?thesis
      using Cons.hyps(1) one rest split(2) by (simp add: ts 0 follows_def)
  next
    case (Suc k)
    then have "y = Waiting" "ys = replicate k Waiting @ [Complete m]" using split by simp_all
    then show ?thesis
      using Cons.hyps(1) one rest split(2) Cons.IH [OF ts(2), of r1 k] by (simp add: ts Suc follows_def)
  qed
qed

section \<open>The cells of a handshake message\<close>

lemma handshake_cells_ok:
  assumes "0 \<le> cid" "cid \<le> 0xFFFFFFFF" "cmd < 256" "0 \<le> hid" "hid \<le> 0xFFFFFFFF" "m \<noteq> []" "length m \<le> 65536"
  shows "\<exists>fs. fragmentMessage m hid 500 = Inr fs
    \<and> handshake_cells cmd cid hid m = Inr (map (cell_bytes 2 (nat cid) cmd) fs)
    \<and> (\<forall>f\<in>set fs. parseCell (cell_bytes 2 (nat cid) cmd f) = Some \<lparr>cel_version = 2, cel_circuitId = nat cid,
       cel_command = cmd, cel_payload = f\<rparr>)"
proof -
  have "(ceil_div (length m) 500 - 1) * 500 < length m"
    using ceil_div_bounds [of 500 "length m"] assms(6) by simp
  then have "ceil_div (length m) 500 \<le> 255" using assms(7) by linarith
  then obtain fs where fs: "fragmentMessage m hid 500 = Inr fs"
    using assms(4-6) by (simp add: fragmentMessage_def Let_def)
  have len: "length f = 508" if "f \<in> set fs" for f using fragments_of_cell [OF fs that] by simp
  have c: "buildCell 2 cid cmd f = Inr (cell_bytes 2 (nat cid) cmd f)" if "f \<in> set fs" for f
    using buildCell_layout [OF assms(1,2), of f 2 cmd] len [OF that] by simp
  have "nat cid < 2 ^ 32" using assms(1,2) by (simp add: nat_less_iff)
  then have p: "parseCell (cell_bytes 2 (nat cid) cmd f) = Some \<lparr>cel_version = 2, cel_circuitId = nat cid,
       cel_command = cmd, cel_payload = f\<rparr>" if "f \<in> set fs" for f
    using parse_cell_bytes [of 2 "nat cid" cmd f] assms(3) len [OF that] by simp
  show ?thesis
    using p fs map_res_ok [of fs "buildCell 2 cid cmd" "cell_bytes 2 (nat cid) cmd"] c
    by (simp add: handshake_cells_def)
qed

lemma run_handshake:
  assumes "handshake_cells cmd cid hid m = Inr cells" "0 \<le> cid" "cid \<le> 0xFFFFFFFF" "cmd < 256"
    and "0 \<le> hid" "hid \<le> 0xFFFFFFFF" "m \<noteq> []" "length m \<le> 65536" "length ts = length cells"
    and step: "\<And>now f r r1 raw. parseCell raw = Some \<lparr>cel_version = 2, cel_circuitId = nat cid,
       cel_command = cmd, cel_payload = f\<rparr> \<Longrightarrow> (ingest now f r = (Waiting, r1) \<longrightarrow> step now raw r = Inr (More, r1))
        \<and> (ingest now f r = (Complete m, r1) \<longrightarrow> step now raw r = Inr (Done x, r1))"
  shows "\<exists>n r'. progress_run step (zip ts cells) defaultReassembler = Inr (replicate n More @ [Done x], r')"
proof -
  obtain fs where fs: "fragmentMessage m hid 500 = Inr fs"
    and cells: "handshake_cells cmd cid hid m = Inr (map (cell_bytes 2 (nat cid) cmd) fs)"
    and p: "\<forall>f\<in>set fs. parseCell (cell_bytes 2 (nat cid) cmd f) = Some \<lparr>cel_version = 2, cel_circuitId = nat cid,
       cel_command = cmd, cel_payload = f\<rparr>"
    using handshake_cells_ok [OF assms(2-8)] by blast
  have c: "cells = map (cell_bytes 2 (nat cid) cmd) fs" using assms(1) cells by simp
  have "list_all2 (follows m x step) fs cells"
    unfolding c list.rel_map by (rule list.rel_refl_strong) (use p step in \<open>auto simp: follows_def\<close>)
  moreover have "length ts = length fs" using assms(9) c by simp
  moreover obtain r' where "ingest_run (zip ts fs) defaultReassembler
      = (replicate (length fs - 1) Waiting @ [Complete m], r')"
    using ingest_in_order [OF fs assms(8) calculation(2)] by blast
  ultimately show ?thesis
    using progress_in_order [of m x step fs cells ts defaultReassembler "length fs - 1" r'] assms(9) by blast
qed

section \<open>The handshake\<close>

text \<open>The relay's hop and the client's hop for the same keys start in step.\<close>

lemma new_hops_in_step:
  assumes "hash_ok C" "length s = 32"
  obtains k h where "deriveHopKeys C s = Inr k" "new_client_hop k = Inr h"
    "\<And>cid. \<exists>r. createRelayHop cid k = Inr r \<and> in_step h r \<and> rhp_inboundCircuitId r = cid"
proof -
  obtain k where k: "deriveHopKeys C s = Inr k" "length (hop_Kf k) = 32" "length (hop_Kb k) = 32"
      "length (hop_Kdf k) = 32" "length (hop_Kdb k) = 32"
    using deriveHopKeys_ok [OF assms] by blast
  then show thesis
    using that by (simp add: new_client_hop_def createRelayHop_def createDigestState_def in_step_def)
qed

lemma handleCreate_follows:
  assumes "relayResponse C (drw_encSeed d) (drw_ySeed d) m (rid_B_sk i) (rid_B_pk i) (rid_ID_R i) = Some resp"
    and "created_reply C d cid resp = Inr reply"
    and "parseCell raw = Some \<lparr>cel_version = 2, cel_circuitId = cid, cel_command = 1, cel_payload = f\<rparr>"
  shows "(ingest now f r = (Waiting, r1) \<longrightarrow> handleCreate C d now i raw r = Inr (More, r1))
    \<and> (ingest now f r = (Complete m, r1) \<longrightarrow> handleCreate C d now i raw r = Inr (Done reply, r1))"
  using assms by (simp add: handleCreate_def)

lemma finishCreate_follows:
  assumes "clientFinish C st B_pk ID m = Some s" "deriveHopKeys C s = Inr k"
    and "parseCell raw = Some \<lparr>cel_version = 2, cel_circuitId = cid, cel_command = 2, cel_payload = f\<rparr>"
  shows "(ingest now f r = (Waiting, r1) \<longrightarrow> finishCreate C now st B_pk ID raw r = Inr (More, r1))
    \<and> (ingest now f r = (Complete m, r1) \<longrightarrow> finishCreate C now st B_pk ID raw r = Inr (Done k, r1))"
  using assms by (simp add: finishCreate_def)

lemma create_handshake_run:
  assumes "hash_ok C" "dh_correct C" "kem_correct C" "length xs = 32" "length (drw_ySeed d) = 32"
    and id: "i = \<lparr>rid_B_sk = bsk, rid_B_pk = x_public C bsk, rid_ID_R = ID\<rparr>" "length bsk = 32"
    and resp: "relayResponse C (drw_encSeed d) (drw_ySeed d) (nts_createMsg (clientInit C xs ks)) bsk
      (x_public C bsk) ID = Some resp"
    and start: "beginCreate C xs ks hid cid = Inr (cells, st, hid)"
    and ids: "0 \<le> cid" "cid \<le> 0xFFFFFFFF" "0 \<le> drw_handshakeId d" "drw_handshakeId d \<le> 0xFFFFFFFF"
    and ts: "length ts = length cells"
  shows "\<exists>n r reply. progress_run (\<lambda>now. handleCreate C d now i) (zip ts cells) defaultReassembler
      = Inr (replicate n More @ [Done reply], r)
    \<and> (length us = length (crd_cells reply) \<longrightarrow>
        (\<exists>n' r' keys h. progress_run (\<lambda>now. finishCreate C now st (x_public C bsk) ID) (zip us (crd_cells reply)) defaultReassembler
            = Inr (replicate n' More @ [Done keys], r')
          \<and> new_client_hop keys = Inr h \<and> in_step h (crd_relayHop reply)
          \<and> rhp_inboundCircuitId (crd_relayHop reply) = nat cid))"
proof -
  let ?st = "clientInit C xs ks"
  have hid: "0 \<le> hid" "hid \<le> 0xFFFFFFFF" and st: "st = ?st"
    and cells: "handshake_cells 1 cid hid (nts_createMsg ?st) = Inr cells"
    using start by (auto simp: beginCreate_def handshake_cells_def fragmentMessage_def Let_def
        split: sum.splits if_splits)
  have lm: "length (nts_createMsg ?st) = 1216" using resp by (elim relayResponse_Some)
  have seed: "length (ntr_KEY_SEED resp) = 32" and lc: "length (ntr_createdMsg resp) = 1152"
    using resp assms(1,2,5) by (auto elim!: relayResponse_Some simp: Let_def dh_correct_def)
  obtain k h where k: "deriveHopKeys C (ntr_KEY_SEED resp) = Inr k" "new_client_hop k = Inr h"
    and hop: "\<And>cid. \<exists>r. createRelayHop cid k = Inr r \<and> in_step h r \<and> rhp_inboundCircuitId r = cid"
    using new_hops_in_step [OF assms(1) seed] by blast
  obtain r where r: "createRelayHop (nat cid) k = Inr r" "in_step h r" "rhp_inboundCircuitId r = nat cid"
    using hop by blast
  have cmsg: "ntr_createdMsg resp \<noteq> []" "length (ntr_createdMsg resp) \<le> 65536" using lc by auto
  obtain ccells where cc: "handshake_cells 2 cid (drw_handshakeId d) (ntr_createdMsg resp) = Inr ccells"
    using handshake_cells_ok [OF ids(1,2) _ ids(3,4) cmsg, of 2] by auto
  let ?reply = "\<lparr>crd_cells = ccells, crd_relayHop = r, crd_handshakeId = drw_handshakeId d\<rparr>"
  have reply: "created_reply C d (nat cid) resp = Inr ?reply"
    using cc k r ids(1) by (simp add: created_reply_def)
  have msg: "nts_createMsg ?st \<noteq> []" "length (nts_createMsg ?st) \<le> 65536" using lm by auto
  obtain n r1 where run1: "progress_run (\<lambda>now. handleCreate C d now i) (zip ts cells) defaultReassembler
      = Inr (replicate n More @ [Done ?reply], r1)"
    using run_handshake [OF cells ids(1,2) _ hid msg ts, of "\<lambda>now. handleCreate C d now i" ?reply]
      handleCreate_follows [of C d "nts_createMsg ?st" i resp "nat cid" ?reply] resp reply id by auto
  have fin: "clientFinish C ?st (x_public C bsk) ID (ntr_createdMsg resp) = Some (ntr_KEY_SEED resp)"
    by (rule ntor_agree [OF assms(1-5) id(2) resp])
  have "\<exists>n' r'. progress_run (\<lambda>now. finishCreate C now st (x_public C bsk) ID) (zip us ccells) defaultReassembler
      = Inr (replicate n' More @ [Done k], r')" if "length us = length ccells"
    using run_handshake [OF cc ids(1,2) _ ids(3,4) cmsg that, of "\<lambda>now. finishCreate C now st (x_public C bsk) ID" k]
      finishCreate_follows [OF fin k(1)] st by auto
  then show ?thesis using run1 k r by (intro exI [of _ n] exI [of _ r1] exI [of _ ?reply]) auto
qed

section \<open>Properties\<close>

text \<open>C27. The CREATE handshake across its cells: the relay ingests the client's CREATE cells in order, asks
  for more until the last, and then answers; the client ingests the CREATED cells of the answer in
  order and, at the last, has keys. The hop it builds from them and the relay's hop have the same
  keys, counters and digests, and the relay files its hop under the client's circuit id.\<close>

theorem create_handshake:
  assumes "hash_ok C" "dh_correct C" "kem_correct C" "length xs = 32" "length (drw_ySeed d) = 32"
    and "i = \<lparr>rid_B_sk = bsk, rid_B_pk = x_public C bsk, rid_ID_R = ID\<rparr>" "length bsk = 32"
    and "relayResponse C (drw_encSeed d) (drw_ySeed d) (nts_createMsg (clientInit C xs ks)) bsk
      (x_public C bsk) ID = Some resp"
    and "beginCreate C xs ks hid cid = Inr (cells, st, hid)"
    and "0 \<le> cid" "cid \<le> 0xFFFFFFFF" "0 \<le> drw_handshakeId d" "drw_handshakeId d \<le> 0xFFFFFFFF"
    and "length ts = length cells"
  shows "\<exists>n r reply. progress_run (\<lambda>now. handleCreate C d now i) (zip ts cells) defaultReassembler
      = Inr (replicate n More @ [Done reply], r)
    \<and> (length us = length (crd_cells reply) \<longrightarrow>
        (\<exists>n' r' keys h. progress_run (\<lambda>now. finishCreate C now st (x_public C bsk) ID) (zip us (crd_cells reply)) defaultReassembler
            = Inr (replicate n' More @ [Done keys], r')
          \<and> new_client_hop keys = Inr h \<and> in_step h (crd_relayHop reply)
          \<and> rhp_inboundCircuitId (crd_relayHop reply) = nat cid))"
  using assms by (rule create_handshake_run)

theorem create_handshake_witness:
  "\<exists>cells st n r reply.
     beginCreate toy_crypto (1 # zeros 31) [9] 77 5 = Inr (cells, st, 77)
   \<and> progress_run (\<lambda>now. handleCreate toy_crypto \<lparr>drw_encSeed = [5], drw_ySeed = 2 # zeros 31, drw_handshakeId = 8\<rparr> now
       \<lparr>rid_B_sk = 3 # zeros 31, rid_B_pk = x_public toy_crypto (3 # zeros 31), rid_ID_R = zeros 32\<rparr>)
       (zip (replicate (length cells) 0) cells) defaultReassembler = Inr (replicate n More @ [Done reply], r)"
proof -
  let ?d = "\<lparr>drw_encSeed = [5], drw_ySeed = 2 # zeros 31, drw_handshakeId = 8\<rparr>"
  obtain res where r: "relayResponse toy_crypto [5] (2 # zeros 31) (nts_createMsg (clientInit toy_crypto (1 # zeros 31) [9]))
     (3 # zeros 31) (x_public toy_crypto (3 # zeros 31)) (zeros 32) = Some res" using toy_response by blast
  have m: "length (nts_createMsg (clientInit toy_crypto (1 # zeros 31) [9])) = 1216" using r by (elim relayResponse_Some)
  then have m': "nts_createMsg (clientInit toy_crypto (1 # zeros 31) [9]) \<noteq> []" by auto
  obtain cells where c: "handshake_cells 1 5 77 (nts_createMsg (clientInit toy_crypto (1 # zeros 31) [9])) = Inr cells"
    using handshake_cells_ok [of 5 1 77, OF _ _ _ _ _ m'] m by auto
  then have b: "beginCreate toy_crypto (1 # zeros 31) [9] 77 5
      = Inr (cells, clientInit toy_crypto (1 # zeros 31) [9], 77)"
    by (simp add: beginCreate_def)
  have l: "length (1 # zeros 31 :: bytes) = 32" "length (drw_ySeed ?d) = 32" "length (3 # zeros 31 :: bytes) = 32"
    "length (replicate (length cells) (0 :: int)) = length cells" by simp_all
  have n: "(0 :: int) \<le> 5" "(5 :: int) \<le> 0xFFFFFFFF" "0 \<le> drw_handshakeId ?d" "drw_handshakeId ?d \<le> 0xFFFFFFFF"
    by simp_all
  have r': "relayResponse toy_crypto (drw_encSeed ?d) (drw_ySeed ?d)
     (nts_createMsg (clientInit toy_crypto (1 # zeros 31) [9])) (3 # zeros 31) (x_public toy_crypto (3 # zeros 31))
     (zeros 32) = Some res" using r by simp
  from create_handshake [OF toy_hash_ok toy_dh_correct toy_kem_correct l(1,2) refl l(3) r' b n l(4)]
  show ?thesis using b by blast
qed

end
