(* ===== verification/V2_Exit_Policy.thy ===== *)
theory V2_Exit_Policy
  imports Codec
begin

text \<open>
  \<open>modules/v2/exit_policy.mjs\<close>: exit policies, their wire format and their evaluation. The triple
  \<open>addrType\<close>, \<open>net\<close>, \<open>maskLen\<close> of a rule is a tagged union here: the code's constructors and its
  parser make no other combination. Numbers of a caller are \<open>int\<close>; \<open>Number.isInteger\<close> is the type.
\<close>

section \<open>Rules\<close>

definition ACTION_ACCEPT :: nat where [simp]: "ACTION_ACCEPT = 0x01"
definition ACTION_REJECT :: nat where [simp]: "ACTION_REJECT = 0x02"
definition ADDR_TYPE_IPV4 :: nat where [simp]: "ADDR_TYPE_IPV4 = 0x01"
definition ADDR_TYPE_IPV6 :: nat where [simp]: "ADDR_TYPE_IPV6 = 0x02"
definition ADDR_TYPE_ANY :: nat where [simp]: "ADDR_TYPE_ANY = 0xFF"
definition NET_LEN_IPV4 :: nat where [simp]: "NET_LEN_IPV4 = 4"
definition NET_LEN_IPV6 :: nat where [simp]: "NET_LEN_IPV6 = 16"
definition LEN_ACTION :: nat where [simp]: "LEN_ACTION = 1"
definition LEN_ADDR_TYPE :: nat where [simp]: "LEN_ADDR_TYPE = 1"
definition LEN_MASK_LEN :: nat where [simp]: "LEN_MASK_LEN = 1"
definition LEN_PORT :: nat where [simp]: "LEN_PORT = 2"

datatype addr_prefix = IPv4 bytes nat | IPv6 bytes nat | Any_Address

record rule =
  rul_action :: nat
  rul_prefix :: addr_prefix
  rul_portMin :: nat
  rul_portMax :: nat

definition rul_addrType :: "rule \<Rightarrow> nat" where
  "rul_addrType r =
     (case rul_prefix r of
        IPv4 net maskLen \<Rightarrow> ADDR_TYPE_IPV4 | IPv6 net maskLen \<Rightarrow> ADDR_TYPE_IPV6 | Any_Address \<Rightarrow> ADDR_TYPE_ANY)"

text \<open>The validators return the error they throw.\<close>

definition validatePortRange :: "int \<Rightarrow> int \<Rightarrow> js_error option" where
  "validatePortRange portMin portMax =
     (if portMin < 0 \<or> portMin > 0xFFFF then Some (Error ''portMin must be a u16'')
      else if portMax < 0 \<or> portMax > 0xFFFF then Some (Error ''portMax must be a u16'')
      else if portMax < portMin then Some (Error ''portMax must be at least portMin'')
      else None)"

definition validateAction :: "nat \<Rightarrow> js_error option" where
  "validateAction action =
     (if action \<noteq> ACTION_ACCEPT \<and> action \<noteq> ACTION_REJECT
        then Some (Error ''action must be ACCEPT or REJECT'') else None)"

definition makeIPv4Rule :: "nat \<Rightarrow> bytes \<Rightarrow> int \<Rightarrow> int \<Rightarrow> int \<Rightarrow> rule res" where
  "makeIPv4Rule action net maskLen portMin portMax =
     (case validateAction action of
        Some e \<Rightarrow> Inl e
      | None \<Rightarrow>
          if length net \<noteq> NET_LEN_IPV4 then Inl (Error ''IPv4 net must be a 4-byte Uint8Array'')
          else if maskLen < 0 \<or> maskLen > 32 then Inl (Error ''IPv4 maskLen must be 0..32'')
          else
            (case validatePortRange portMin portMax of
               Some e \<Rightarrow> Inl e
             | None \<Rightarrow> Inr \<lparr>rul_action = action, rul_prefix = IPv4 net (nat maskLen),
                            rul_portMin = nat portMin, rul_portMax = nat portMax\<rparr>))"

definition makeIPv6Rule :: "nat \<Rightarrow> bytes \<Rightarrow> int \<Rightarrow> int \<Rightarrow> int \<Rightarrow> rule res" where
  "makeIPv6Rule action net maskLen portMin portMax =
     (case validateAction action of
        Some e \<Rightarrow> Inl e
      | None \<Rightarrow>
          if length net \<noteq> NET_LEN_IPV6 then Inl (Error ''IPv6 net must be a 16-byte Uint8Array'')
          else if maskLen < 0 \<or> maskLen > 128 then Inl (Error ''IPv6 maskLen must be 0..128'')
          else
            (case validatePortRange portMin portMax of
               Some e \<Rightarrow> Inl e
             | None \<Rightarrow> Inr \<lparr>rul_action = action, rul_prefix = IPv6 net (nat maskLen),
                            rul_portMin = nat portMin, rul_portMax = nat portMax\<rparr>))"

definition makeAnyRule :: "nat \<Rightarrow> int \<Rightarrow> int \<Rightarrow> rule res" where
  "makeAnyRule action portMin portMax =
     (case validateAction action of
        Some e \<Rightarrow> Inl e
      | None \<Rightarrow>
          (case validatePortRange portMin portMax of
             Some e \<Rightarrow> Inl e
           | None \<Rightarrow> Inr \<lparr>rul_action = action, rul_prefix = Any_Address,
                          rul_portMin = nat portMin, rul_portMax = nat portMax\<rparr>))"

section \<open>The wire format\<close>

definition ruleByteLength :: "rule \<Rightarrow> nat" where
  "ruleByteLength r =
     (let n = LEN_ACTION + LEN_ADDR_TYPE + LEN_PORT * 2
      in if rul_addrType r = ADDR_TYPE_IPV4 then n + (NET_LEN_IPV4 + LEN_MASK_LEN)
         else if rul_addrType r = ADDR_TYPE_IPV6 then n + (NET_LEN_IPV6 + LEN_MASK_LEN)
         else n)"

definition write_net :: "bytes \<Rightarrow> nat \<Rightarrow> bytes \<Rightarrow> nat \<Rightarrow> bytes \<times> nat" where
  "write_net buf off net maskLen =
     (let buf = set_at buf off net; off = off + length net
      in (buf[off := u8 maskLen], off + 1))"

fun write_rules :: "rule list \<Rightarrow> bytes \<Rightarrow> nat \<Rightarrow> bytes" where
  "write_rules [] buf off = buf"
| "write_rules (r # rs) buf off =
     (let buf = buf[off := u8 (rul_action r)];
          buf = buf[off + 1 := u8 (rul_addrType r)];
          off = off + 2;
          (buf, off) = (case rul_prefix r of
                          IPv4 net maskLen \<Rightarrow> write_net buf off net maskLen
                        | IPv6 net maskLen \<Rightarrow> write_net buf off net maskLen
                        | Any_Address \<Rightarrow> (buf, off));
          buf = set_at buf off (be_bytes 2 (rul_portMin r));
          buf = set_at buf (off + 2) (be_bytes 2 (rul_portMax r))
      in write_rules rs buf (off + 4))"

definition buildPolicy :: "rule list \<Rightarrow> bytes res" where
  "buildPolicy rules =
     (if length rules > 0xFFFF then Inl (Error ''policy exceeds rule_count limit'')
      else
        let total = foldl (\<lambda>n r. n + ruleByteLength r) 2 rules;
            buf = set_at (zeros total) 0 (be_bytes 2 (length rules))
        in Inr (write_rules rules buf 2))"

text \<open>The body of the parser's loop: the address prefix, then the rule around it.\<close>

definition parse_net :: "bytes \<Rightarrow> nat \<Rightarrow> nat \<Rightarrow> nat \<Rightarrow> (bytes \<times> nat \<times> nat) option" where
  "parse_net buf off netLen maxMask =
     (if length buf < off + netLen + LEN_MASK_LEN then None
      else
        let net = subarray buf off (off + netLen);
            off = off + netLen;
            maskLen = unat (buf ! off);
            off = off + 1
        in if maskLen > maxMask then None else Some (net, maskLen, off))"

definition parse_prefix :: "bytes \<Rightarrow> nat \<Rightarrow> nat \<Rightarrow> (addr_prefix \<times> nat) option" where
  "parse_prefix buf off addrType =
     (if addrType = ADDR_TYPE_IPV4 then
        (case parse_net buf off NET_LEN_IPV4 32 of None \<Rightarrow> None | Some (net, m, off) \<Rightarrow> Some (IPv4 net m, off))
      else if addrType = ADDR_TYPE_IPV6 then
        (case parse_net buf off NET_LEN_IPV6 128 of None \<Rightarrow> None | Some (net, m, off) \<Rightarrow> Some (IPv6 net m, off))
      else if addrType = ADDR_TYPE_ANY then Some (Any_Address, off)
      else None)"

definition parse_rule :: "bytes \<Rightarrow> nat \<Rightarrow> (rule \<times> nat) option" where
  "parse_rule buf off =
     (if length buf < off + 2 then None
      else
        let action = unat (buf ! off); addrType = unat (buf ! (off + 1))
        in if action \<noteq> ACTION_ACCEPT \<and> action \<noteq> ACTION_REJECT then None
           else
             (case parse_prefix buf (off + 2) addrType of
                None \<Rightarrow> None
              | Some (prefix, off) \<Rightarrow>
                  if length buf < off + 4 then None
                  else
                    let portMin = be_val (subarray buf off (off + 2));
                        portMax = be_val (subarray buf (off + 2) (off + 4))
                    in if portMax < portMin then None
                       else Some (\<lparr>rul_action = action, rul_prefix = prefix, rul_portMin = portMin,
                                   rul_portMax = portMax\<rparr>, off + 4)))"

definition parsePolicy :: "bytes \<Rightarrow> rule list option" where
  "parsePolicy buf =
     (if length buf < 2 then None
      else
        let count = be_val (subarray buf 0 2)
        in (case read_n (parse_rule buf) count 2 of
              None \<Rightarrow> None
            | Some (rules, off) \<Rightarrow> if off \<noteq> length buf then None else Some rules))"

section \<open>Evaluation\<close>

text \<open>A comparison of bytes in order, then of the bits of the byte that the mask splits.\<close>

definition bytes_match :: "bytes \<Rightarrow> nat \<Rightarrow> bytes \<Rightarrow> bool" where
  "bytes_match net maskLen addr =
     (let fullBytes = maskLen div 8;
          tailBits = maskLen - fullBytes * 8;
          mask = (push_bit (8 - tailBits) 0xFF :: byte)
      in list_all (\<lambda>i. net ! i = addr ! i) [0..<fullBytes]
         \<and> (tailBits = 0 \<or> (net ! fullBytes) AND mask = (addr ! fullBytes) AND mask))"

definition prefixMatches :: "rule \<Rightarrow> nat \<Rightarrow> bytes \<Rightarrow> bool" where
  "prefixMatches r addrType addr =
     (case rul_prefix r of
        Any_Address \<Rightarrow> True
      | IPv4 net maskLen \<Rightarrow>
          if ADDR_TYPE_IPV4 \<noteq> addrType then False
          else if length addr \<noteq> length net then False else bytes_match net maskLen addr
      | IPv6 net maskLen \<Rightarrow>
          if ADDR_TYPE_IPV6 \<noteq> addrType then False
          else if length addr \<noteq> length net then False else bytes_match net maskLen addr)"

datatype verdict = Accept | Reject

fun evaluate_rules :: "rule list \<Rightarrow> nat \<Rightarrow> bytes \<Rightarrow> nat \<Rightarrow> verdict" where
  "evaluate_rules [] addrType addr port = Reject"
| "evaluate_rules (r # rs) addrType addr port =
     (if \<not> prefixMatches r addrType addr then evaluate_rules rs addrType addr port
      else if port < rul_portMin r \<or> port > rul_portMax r then evaluate_rules rs addrType addr port
      else if rul_action r = ACTION_ACCEPT then Accept else Reject)"

definition evaluate :: "rule list \<Rightarrow> nat \<Rightarrow> bytes \<Rightarrow> int \<Rightarrow> verdict res" where
  "evaluate policy addrType addr port =
     (if port < 0 \<or> port > 0xFFFF then Inl (Error ''port must be a u16'')
      else if addrType \<noteq> ADDR_TYPE_IPV4 \<and> addrType \<noteq> ADDR_TYPE_IPV6
        then Inl (Error ''evaluate requires a resolved IPv4 or IPv6 address'')
      else Inr (evaluate_rules policy addrType addr (nat port)))"

section \<open>The default policies\<close>

text \<open>Each is built by \<open>makeAnyRule\<close> while the module loads.\<close>

definition accept_ports :: "(int \<times> int) list \<Rightarrow> rule list res" where
  "accept_ports = map_res (\<lambda>(portMin, portMax). makeAnyRule ACTION_ACCEPT portMin portMax)"

definition POLICY_REJECT_ALL :: "rule list" where "POLICY_REJECT_ALL = []"

definition POLICY_REDUCED_EXIT :: "rule list res" where
  "POLICY_REDUCED_EXIT = accept_ports [(80, 80), (443, 443), (53, 53)]"

definition STANDARD_PORTS :: "(int \<times> int) list" where
  "STANDARD_PORTS =
     [(20, 23), (53, 53), (80, 80), (88, 88), (110, 110), (143, 143), (220, 220), (443, 443),
      (465, 465), (587, 587), (706, 706), (749, 749), (873, 873), (902, 904), (981, 981), (989, 995),
      (1194, 1194), (1220, 1220), (1293, 1293), (1500, 1500), (1533, 1533), (1677, 1677),
      (1723, 1723), (1755, 1755), (1863, 1863), (2082, 2083), (2086, 2087), (2095, 2096),
      (2102, 2104), (3690, 3690), (4321, 4321), (4643, 4643), (5050, 5050), (5190, 5190),
      (5222, 5223), (5228, 5228), (5900, 5900), (6660, 6669), (6679, 6679), (6697, 6697),
      (8000, 8000), (8008, 8008), (8074, 8074), (8080, 8080), (8082, 8082), (8087, 8088),
      (8232, 8233), (8332, 8333), (8443, 8443), (8888, 8888), (9418, 9418), (9999, 9999),
      (10000, 10000), (11371, 11371), (19294, 19294), (19638, 19638), (50002, 50002),
      (64738, 64738)]"

definition POLICY_STANDARD_EXIT :: "rule list res" where
  "POLICY_STANDARD_EXIT = accept_ports STANDARD_PORTS"

end
