(* ===== verification/V2_Exit_Policy_Props.thy ===== *)
theory V2_Exit_Policy_Props
  imports V2_Exit_Policy
begin

text \<open>
  What exit policies guarantee: their wire format is canonical, and the byte-wise evaluation is the
  first rule whose network, read as a number, contains the address.
\<close>

section \<open>Well-formed rules and their bytes\<close>

fun prefix_ok :: "addr_prefix \<Rightarrow> bool" where
  "prefix_ok (IPv4 net m) = (length net = 4 \<and> m \<le> 32)"
| "prefix_ok (IPv6 net m) = (length net = 16 \<and> m \<le> 128)"
| "prefix_ok Any_Address = True"

definition rule_ok :: "rule \<Rightarrow> bool" where
  "rule_ok r \<longleftrightarrow> rul_action r \<in> {1, 2} \<and> prefix_ok (rul_prefix r)
     \<and> rul_portMin r \<le> rul_portMax r \<and> rul_portMax r \<le> 0xFFFF"

fun enc_prefix :: "addr_prefix \<Rightarrow> bytes" where
  "enc_prefix (IPv4 net m) = net @ [u8 m]"
| "enc_prefix (IPv6 net m) = net @ [u8 m]"
| "enc_prefix Any_Address = []"

definition enc_rule :: "rule \<Rightarrow> bytes" where
  "enc_rule r = u8 (rul_action r) # u8 (rul_addrType r) # enc_prefix (rul_prefix r)
     @ be_bytes 2 (rul_portMin r) @ be_bytes 2 (rul_portMax r)"

lemma constructors_ok:
  "makeIPv4Rule a net m lo hi = Inr r \<Longrightarrow> rule_ok r"
  "makeIPv6Rule a net m lo hi = Inr r \<Longrightarrow> rule_ok r"
  "makeAnyRule a lo hi = Inr r \<Longrightarrow> rule_ok r"
  by (auto simp: makeIPv4Rule_def makeIPv6Rule_def makeAnyRule_def validateAction_def validatePortRange_def
      rule_ok_def split: if_splits option.splits)

lemma length_enc_rule: "rule_ok r \<Longrightarrow> length (enc_rule r) = ruleByteLength r"
  by (cases "rul_prefix r") (auto simp: enc_rule_def rule_ok_def ruleByteLength_def rul_addrType_def)

lemma parse_prefix_enc:
  "prefix_ok (rul_prefix r) \<Longrightarrow>
   parse_prefix (pre @ enc_prefix (rul_prefix r) @ post) (length pre) (rul_addrType r)
     = Some (rul_prefix r, length pre + length (enc_prefix (rul_prefix r)))"
  by (cases "rul_prefix r") (auto simp: parse_prefix_def parse_net_def rul_addrType_def unat_u8 layout)

lemma parse_prefix_sound:
  assumes "parse_prefix buf off t = Some (p, off')" "off \<le> length buf"
  shows "prefix_ok p \<and> off \<le> off' \<and> off' \<le> length buf \<and> subarray buf off off' = enc_prefix p
    \<and> rul_addrType \<lparr>rul_action = a, rul_prefix = p, rul_portMin = lo, rul_portMax = hi\<rparr> = t"
proof -
  have net: "length n = k \<and> m \<le> mx \<and> off \<le> o' \<and> o' \<le> length buf \<and> subarray buf off o' = n @ [u8 m]"
    if "parse_net buf off k mx = Some (n, m, o')" for n m k mx o'
  proof -
    have "length buf \<ge> off + k + 1" "n = subarray buf off (off + k)" "m = unat (buf ! (off + k))" "o' = off + k + 1" "m \<le> mx"
      using that by (auto simp: parse_net_def Let_def split: if_splits)
    then show ?thesis
      using subarray_join [of off "off + k" "off + k + 1" buf] subarray_byte [of "off + k" buf "off + k + 1"] by simp
  qed
  show ?thesis
    using assms by (auto simp: parse_prefix_def rul_addrType_def dest!: net split: if_splits option.splits)
qed

lemma u16_be: "length bs = 2 \<Longrightarrow> be_bytes 2 (be_val bs) = bs" "length bs = 2 \<Longrightarrow> be_val bs < 65536"
  using be_bytes_be_val [of bs] be_val_bound [of bs] by auto

interpretation ru: record_codec enc_rule parse_rule rule_ok
proof
  fix r and pre post :: bytes
  assume ok: "rule_ok r"
  let ?p = "enc_prefix (rul_prefix r)" and ?ports = "be_bytes 2 (rul_portMin r) @ be_bytes 2 (rul_portMax r)"
  let ?buf = "pre @ enc_rule r @ post"
  have b: "?buf = (pre @ [u8 (rul_action r), u8 (rul_addrType r)]) @ ?p @ ?ports @ post"
    by (simp add: enc_rule_def)
  have t: "rul_addrType r < 256" by (simp add: rul_addrType_def split: addr_prefix.split)
  have pp: "parse_prefix ?buf (length pre + 2) (rul_addrType r) = Some (rul_prefix r, length pre + 2 + length ?p)"
    using parse_prefix_enc [of r "pre @ [u8 (rul_action r), u8 (rul_addrType r)]" "?ports @ post"] ok
    unfolding b by (simp add: rule_ok_def)
  have "be_val (subarray ?buf (length pre + 2 + length ?p) (length pre + 2 + length ?p + 2)) = rul_portMin r"
    "be_val (subarray ?buf (length pre + 2 + length ?p + 2) (length pre + 2 + length ?p + 4)) = rul_portMax r"
    using ok by (simp_all add: enc_rule_def rule_ok_def layout codec)
  moreover have "unat (?buf ! length pre) = rul_action r" "unat (?buf ! (length pre + 1)) = rul_addrType r"
    using ok t by (auto simp: enc_rule_def rule_ok_def unat_u8 layout)
  ultimately show "parse_rule ?buf (length pre) = Some (r, length pre + length (enc_rule r))"
    using ok pp by (auto simp: parse_rule_def rule_ok_def Let_def enc_rule_def)
next
  fix buf off r off'
  assume p: "parse_rule buf off = Some (r, off')"
  obtain prefix o' where len: "off + 2 \<le> length buf" "o' + 4 \<le> length buf" and off': "off' = o' + 4"
    and pp: "parse_prefix buf (off + 2) (unat (buf ! (off + 1))) = Some (prefix, o')"
    and act: "unat (buf ! off) \<in> {1, 2}" and ports: "be_val (subarray buf o' (o' + 2)) \<le> be_val (subarray buf (o' + 2) (o' + 4))"
    and r: "r = \<lparr>rul_action = unat (buf ! off), rul_prefix = prefix, rul_portMin = be_val (subarray buf o' (o' + 2)),
      rul_portMax = be_val (subarray buf (o' + 2) (o' + 4))\<rparr>"
    using p by (auto simp: parse_rule_def Let_def not_less split: if_splits option.splits)
  have s: "prefix_ok prefix \<and> off + 2 \<le> o' \<and> o' \<le> length buf \<and> subarray buf (off + 2) o' = enc_prefix prefix
      \<and> rul_addrType r = unat (buf ! (off + 1))"
    using parse_prefix_sound [OF pp len(1)] r by blast
  then have le: "off + 2 \<le> o'" by simp
  have "subarray buf off off' = subarray buf off (off + 1) @ subarray buf (off + 1) (off + 2) @ subarray buf (off + 2) o'
      @ subarray buf o' (o' + 2) @ subarray buf (o' + 2) off'"
    using le by (simp add: off' subarray_join)
  moreover have "subarray buf off (off + 1) = [buf ! off]" "subarray buf (off + 1) (off + 2) = [buf ! (off + 1)]"
    using len by (intro subarray_byte; linarith)+
  moreover have l2: "length (subarray buf o' (o' + 2)) = 2" "length (subarray buf (o' + 2) (o' + 4)) = 2" using len by simp_all
  ultimately have "subarray buf off off' = enc_rule r"
    using s u16_be(1) [OF l2(1)] u16_be(1) [OF l2(2)] by (simp add: enc_rule_def r off')
  then show "rule_ok r \<and> off \<le> off' \<and> off' \<le> length buf \<and> subarray buf off off' = enc_rule r"
    using s act ports len u16_be(2) [OF l2(2)] by (simp add: rule_ok_def r off')
qed

section \<open>The policy\<close>

lemma total_bytes: "list_all rule_ok rs \<Longrightarrow> foldl (\<lambda>n r. n + ruleByteLength r) n rs = n + length (concat (map enc_rule rs))"
  by (induction rs arbitrary: n) (simp_all add: length_enc_rule)

lemma write_rules_fill:
  "list_all rule_ok rs \<Longrightarrow>
   write_rules rs (pre @ zeros (length (concat (map enc_rule rs)))) (length pre) = pre @ concat (map enc_rule rs)"
proof (induction rs arbitrary: pre)
  case Nil
  then show ?case by simp
next
  case (Cons r rs)
  let ?n = "length (concat (map enc_rule rs))"
  have "write_rules (r # rs) (pre @ zeros (length (concat (map enc_rule (r # rs))))) (length pre)
      = write_rules rs ((pre @ enc_rule r) @ zeros ?n) (length (pre @ enc_rule r))"
    by (cases "rul_prefix r")
      (simp_all add: Let_def enc_rule_def write_net_def layout add.commute add.left_commute)
  also have "\<dots> = (pre @ enc_rule r) @ concat (map enc_rule rs)" using Cons by (intro Cons.IH) simp
  finally show ?case by simp
qed

definition policy_ok :: "rule list \<Rightarrow> bool" where
  "policy_ok rs \<longleftrightarrow> length rs \<le> 65535 \<and> list_all rule_ok rs"

lemma buildPolicy_layout:
  "policy_ok rs \<Longrightarrow> buildPolicy rs = Inr (be_bytes 2 (length rs) @ concat (map enc_rule rs))"
  using write_rules_fill [of rs "be_bytes 2 (length rs)"]
  by (simp add: buildPolicy_def policy_ok_def Let_def total_bytes layout)

interpretation po: frame_codec buildPolicy parsePolicy policy_ok
proof
  fix rs assume ok: "policy_ok rs"
  have "read_n (parse_rule (be_bytes 2 (length rs) @ concat (map enc_rule rs))) (length rs) 2
      = Some (rs, 2 + length (concat (map enc_rule rs)))"
    using ru.read_n_enc [of rs "be_bytes 2 (length rs)" "[]"] ok by (simp add: policy_ok_def)
  then have "parsePolicy (be_bytes 2 (length rs) @ concat (map enc_rule rs)) = Some rs"
    using ok by (simp add: parsePolicy_def policy_ok_def codec layout)
  then show "\<exists>bs. buildPolicy rs = Inr bs \<and> parsePolicy bs = Some rs" using buildPolicy_layout [OF ok] by blast
next
  fix buf rs assume p: "parsePolicy buf = Some rs"
  let ?n = "be_val (subarray buf 0 2)"
  have len: "2 \<le> length buf" and r: "read_n (parse_rule buf) ?n 2 = Some (rs, length buf)"
    using p by (auto simp: parsePolicy_def Let_def not_less split: if_splits option.splits)
  have s: "length rs = ?n" "list_all rule_ok rs" "drop 2 buf = concat (map enc_rule rs)"
    using ru.read_n_iff [OF len] r by blast+
  have l2: "length (subarray buf 0 2) = 2" using len by simp
  have "buf = be_bytes 2 (length rs) @ concat (map enc_rule rs)"
    using s u16_be(1) [OF l2] by (metis append_take_drop_id take_subarray)
  moreover have "policy_ok rs" using s u16_be(2) [OF l2] by (simp add: policy_ok_def)
  ultimately show "policy_ok rs \<and> buildPolicy rs = Inr buf" using buildPolicy_layout by simp
qed

section \<open>Evaluation against numeric networks\<close>

text \<open>The reference: an address is in \<open>net/m\<close> when the two numbers agree above the low bits; the
  verdict is that of the first rule that covers the address and the port.\<close>

definition in_cidr :: "bytes \<Rightarrow> nat \<Rightarrow> bytes \<Rightarrow> bool" where
  "in_cidr net m addr \<longleftrightarrow> be_val net div 2 ^ (8 * length net - m) = be_val addr div 2 ^ (8 * length net - m)"

fun covers :: "rule \<Rightarrow> nat \<Rightarrow> bytes \<Rightarrow> nat \<Rightarrow> bool" where
  "covers r addrType addr port =
     (rul_portMin r \<le> port \<and> port \<le> rul_portMax r
      \<and> (case rul_prefix r of
           IPv4 net m \<Rightarrow> addrType = 1 \<and> in_cidr net m addr
         | IPv6 net m \<Rightarrow> addrType = 2 \<and> in_cidr net m addr
         | Any_Address \<Rightarrow> True))"

definition first_match :: "rule list \<Rightarrow> nat \<Rightarrow> bytes \<Rightarrow> nat \<Rightarrow> verdict" where
  "first_match rs addrType addr port =
     (case find (\<lambda>r. covers r addrType addr port) rs of
        None \<Rightarrow> Reject
      | Some r \<Rightarrow> if rul_action r = 1 then Accept else Reject)"

lemma be_val_div_tail: "be_val bs div 256 ^ (length bs - k) = be_val (take k bs)"
proof -
  have "be_val bs = be_val (take k bs) * 256 ^ (length bs - k) + be_val (drop k bs)"
    using be_val_append [of "take k bs" "drop k bs"] by simp
  moreover have "be_val (drop k bs) < 256 ^ (length bs - k)" using be_val_bound [of "drop k bs"] by simp
  ultimately show ?thesis by simp
qed

lemma masked_byte:
  fixes a b :: byte
  assumes "s \<le> 8"
  shows "a AND push_bit s 0xFF = b AND push_bit s 0xFF \<longleftrightarrow> unat a div 2 ^ s = unat b div 2 ^ s"
proof -
  have lt: "bit w k \<Longrightarrow> k < 8" for k and w :: byte using bit_imp_le_length [of w k] by simp
  have m: "w AND push_bit s 0xFF = push_bit s (drop_bit s w)" for w :: byte
  proof (rule bit_eqI)
    fix n assume "possible_bit TYPE(byte) n"
    then have n: "n < 8" by simp
    have ff: "(0xFF :: byte) = mask 8" by (simp add: mask_eq_exp_minus_1)
    show "bit (w AND push_bit s 0xFF) n = bit (push_bit s (drop_bit s w)) n"
      using n unfolding ff by (auto simp: bit_simps)
  qed
  have d: "unat (drop_bit s w) = unat w div 2 ^ s" for w :: byte
  proof -
    have "unat (drop_bit s w) = drop_bit s (unat w)"
      by (rule bit_eqI) (auto simp: bit_simps intro: lt)
    then show ?thesis by (simp only: drop_bit_eq_div)
  qed
  show ?thesis
  proof
    assume "a AND push_bit s 0xFF = b AND push_bit s 0xFF"
    then have "drop_bit s (push_bit s (drop_bit s a)) = drop_bit s (push_bit s (drop_bit s b))" by (simp add: m)
    moreover have "drop_bit s (push_bit s (drop_bit s w)) = drop_bit s w" for w :: byte
      by (rule bit_eqI) (auto simp: bit_simps intro: lt)
    ultimately show "unat a div 2 ^ s = unat b div 2 ^ s" by (metis d)
  next
    assume "unat a div 2 ^ s = unat b div 2 ^ s"
    then have "drop_bit s a = drop_bit s b" by (metis d word_eq_iff_unsigned)
    then show "a AND push_bit s 0xFF = b AND push_bit s 0xFF" by (simp add: m)
  qed
qed

lemma same_prefix:
  "length a = length b \<Longrightarrow> k \<le> length a \<Longrightarrow> list_all (\<lambda>i. a ! i = b ! i) [0..<k] \<longleftrightarrow> take k a = take k b"
  by (simp add: list_eq_iff_nth_eq list_all_iff Ball_def)

lemma split_div:
  fixes p q x y s :: nat
  assumes "x < 256" "y < 256" "s \<le> 8"
  shows "(p * 256 + x) div 2 ^ s = (q * 256 + y) div 2 ^ s \<longleftrightarrow> p = q \<and> x div 2 ^ s = y div 2 ^ s"
proof -
  have e: "(256 :: nat) = 2 ^ s * 2 ^ (8 - s)" using assms(3) by (simp flip: power_add)
  have f: "(p * 256 + x) div 2 ^ s = p * 2 ^ (8 - s) + x div 2 ^ s" for p x :: nat
  proof -
    have "p * 256 = (p * 2 ^ (8 - s)) * 2 ^ s" unfolding e by (simp only: mult_ac)
    moreover have "(q * 2 ^ s + x) div 2 ^ s = q + x div 2 ^ s" for q :: nat by simp
    ultimately show ?thesis by metis
  qed
  have b: "x div 2 ^ s < 2 ^ (8 - s)" if "x < 256" for x :: nat
    using that unfolding e by (intro less_mult_imp_div_less) (simp add: mult.commute)
  show ?thesis
  proof
    assume "(p * 256 + x) div 2 ^ s = (q * 256 + y) div 2 ^ s"
    then have g: "p * 2 ^ (8 - s) + x div 2 ^ s = q * 2 ^ (8 - s) + y div 2 ^ s" by (simp only: f)
    then have "(p * 2 ^ (8 - s) + x div 2 ^ s) div 2 ^ (8 - s) = (q * 2 ^ (8 - s) + y div 2 ^ s) div 2 ^ (8 - s)" by simp
    then have "p = q" using b [OF assms(1)] b [OF assms(2)] by simp
    then show "p = q \<and> x div 2 ^ s = y div 2 ^ s" using g by simp
  qed (simp only: f)
qed

lemma bytes_match_cidr:
  assumes "length net = length addr" "m \<le> 8 * length net"
  shows "bytes_match net m addr \<longleftrightarrow> in_cidr net m addr"
proof -
  let ?k = "m div 8" and ?n = "length net" and ?t = "m mod 8"
  have t: "m - ?k * 8 = ?t" by (simp add: minus_div_mult_eq_mod)
  have k: "?k \<le> ?n" using assms(2) by linarith
  show ?thesis
  proof (cases "?t = 0")
    case True
    then have "8 * ?n - m = 8 * (?n - ?k)" by (simp add: right_diff_distrib') (metis True mult.commute mult_div_mod_eq add_0_right)
    then have pow: "(2 :: nat) ^ (8 * ?n - m) = 256 ^ (?n - ?k)" by (simp add: power_mult)
    have "in_cidr net m addr \<longleftrightarrow> be_val (take ?k net) = be_val (take ?k addr)"
      unfolding in_cidr_def pow using be_val_div_tail [of net ?k] be_val_div_tail [of addr ?k] assms(1) by simp
    then show ?thesis
      using True t k assms(1) by (simp add: bytes_match_def Let_def same_prefix be_val_inj)
  next
    case False
    then have k1: "?k < ?n" using assms(2) by presburger
    let ?s = "8 - ?t"
    have "8 * ?n - m = 8 * (?n - Suc ?k) + ?s"
      using k1 mod_less_divisor [of 8 m] mult_div_mod_eq [of 8 m] by (simp add: right_diff_distrib')
    then have pow: "(2 :: nat) ^ (8 * ?n - m) = 256 ^ (?n - Suc ?k) * 2 ^ ?s"
      by (simp only: power_add power_mult) simp
    have d: "be_val bs div 2 ^ (8 * ?n - m) = (be_val (take ?k bs) * 256 + unat (bs ! ?k)) div 2 ^ ?s"
      if "length bs = ?n" for bs
      unfolding pow using k1 that be_val_div_tail [of bs "Suc ?k"] by (simp add: div_mult2_eq take_Suc_conv_app_nth)
    have "in_cidr net m addr \<longleftrightarrow> be_val (take ?k net) = be_val (take ?k addr)
        \<and> unat (net ! ?k) div 2 ^ ?s = unat (addr ! ?k) div 2 ^ ?s"
      unfolding in_cidr_def using d [of net] d [of addr] assms(1) split_div [OF unat_byte_bound unat_byte_bound, of ?s]
      by simp
    moreover have "\<not> m \<le> m div 8 * 8" using False by presburger
    ultimately show ?thesis
      using False t k assms(1) masked_byte [of ?s "net ! ?k" "addr ! ?k"]
      by (simp add: bytes_match_def Let_def same_prefix be_val_inj)
  qed
qed

lemma covers_iff:
  assumes "rule_ok r" "addrType = 1 \<and> length addr = 4 \<or> addrType = 2 \<and> length addr = 16"
  shows "prefixMatches r addrType addr \<and> rul_portMin r \<le> port \<and> port \<le> rul_portMax r \<longleftrightarrow> covers r addrType addr port"
  using assms bytes_match_cidr by (cases "rul_prefix r") (auto simp: prefixMatches_def rule_ok_def)

lemma evaluate_first_match:
  assumes "list_all rule_ok rs" "addrType = 1 \<and> length addr = 4 \<or> addrType = 2 \<and> length addr = 16"
  shows "evaluate_rules rs addrType addr port = first_match rs addrType addr port"
  using assms(1)
proof (induction rs)
  case Nil
  then show ?case by (simp add: first_match_def)
next
  case (Cons r rs)
  then show ?case
    using covers_iff [OF _ assms(2), of r port] by (auto simp: first_match_def not_less simp del: covers.simps)
qed

section \<open>The default policies\<close>

text \<open>They load, and a port is accepted exactly when one of their ranges holds it.\<close>

lemma accept_ports_ok:
  "list_all (\<lambda>(lo, hi). 0 \<le> lo \<and> lo \<le> hi \<and> hi \<le> 0xFFFF) ps \<Longrightarrow>
   \<exists>rs. accept_ports ps = Inr rs \<and> list_all rule_ok rs
     \<and> (\<forall>t addr port. (evaluate_rules rs t addr port = Accept)
          = list_ex (\<lambda>(lo, hi). nat lo \<le> port \<and> port \<le> nat hi) ps)"
proof (induction ps)
  case Nil
  then show ?case by (simp add: accept_ports_def)
next
  case (Cons p ps)
  obtain lo hi where p: "p = (lo, hi)" by fastforce
  obtain rs where rs: "accept_ports ps = Inr rs" "list_all rule_ok rs"
    "\<And>t addr port. (evaluate_rules rs t addr port = Accept) = list_ex (\<lambda>(lo, hi). nat lo \<le> port \<and> port \<le> nat hi) ps"
    using Cons by auto
  let ?r = "\<lparr>rul_action = 1, rul_prefix = Any_Address, rul_portMin = nat lo, rul_portMax = nat hi\<rparr>"
  have r: "makeAnyRule 1 lo hi = Inr ?r"
    using Cons.prems p by (simp add: makeAnyRule_def validateAction_def validatePortRange_def)
  then have "accept_ports (p # ps) = Inr (?r # rs)" using rs(1) p by (simp add: accept_ports_def)
  moreover have "list_all rule_ok (?r # rs)" using constructors_ok(3) [OF r] rs(2) by simp
  moreover have "(evaluate_rules (?r # rs) t addr port = Accept)
      = list_ex (\<lambda>(lo, hi). nat lo \<le> port \<and> port \<le> nat hi) (p # ps)" for t addr port
    using rs(3) [of t addr port] p by (auto simp: prefixMatches_def)
  ultimately show ?case by blast
qed

lemma default_policies:
  "evaluate POLICY_REJECT_ALL 1 addr 80 = Inr Reject"
  "\<exists>rs. POLICY_REDUCED_EXIT = Inr rs \<and> list_all rule_ok rs
     \<and> (\<forall>t addr port. (evaluate_rules rs t addr port = Accept) = (port = 80 \<or> port = 443 \<or> port = 53))"
  "\<exists>rs. POLICY_STANDARD_EXIT = Inr rs \<and> list_all rule_ok rs
     \<and> (\<forall>t addr. evaluate_rules rs t addr 443 = Accept \<and> evaluate_rules rs t addr 25 \<noteq> Accept)"
proof -
  have standard: "list_all (\<lambda>(lo, hi). 0 \<le> lo \<and> lo \<le> hi \<and> hi \<le> 0xFFFF) STANDARD_PORTS"
    "list_ex (\<lambda>(lo, hi). nat lo \<le> 443 \<and> 443 \<le> nat hi) STANDARD_PORTS"
    "\<not> list_ex (\<lambda>(lo, hi). nat lo \<le> 25 \<and> 25 \<le> nat hi) STANDARD_PORTS"
    by (simp_all add: STANDARD_PORTS_def)
  show "evaluate POLICY_REJECT_ALL 1 addr 80 = Inr Reject" by (simp add: evaluate_def POLICY_REJECT_ALL_def)
  show "\<exists>rs. POLICY_REDUCED_EXIT = Inr rs \<and> list_all rule_ok rs
     \<and> (\<forall>t addr port. (evaluate_rules rs t addr port = Accept) = (port = 80 \<or> port = 443 \<or> port = 53))"
    using accept_ports_ok [of "[(80, 80), (443, 443), (53, 53)]"] unfolding POLICY_REDUCED_EXIT_def by fastforce
  show "\<exists>rs. POLICY_STANDARD_EXIT = Inr rs \<and> list_all rule_ok rs
     \<and> (\<forall>t addr. evaluate_rules rs t addr 443 = Accept \<and> evaluate_rules rs t addr 25 \<noteq> Accept)"
    using accept_ports_ok [of STANDARD_PORTS] standard unfolding POLICY_STANDARD_EXIT_def by metis
qed

section \<open>Properties\<close>

text \<open>The wire format of policies is canonical: the parser accepts exactly what the builder writes for a
  list of at most 65535 well-formed rules; the constructors make only well-formed rules.\<close>

theorem policy_codec:
  "(parsePolicy buf = Some rs \<longleftrightarrow> policy_ok rs \<and> buildPolicy rs = Inr buf)
   \<and> (case makeIPv4Rule a net m lo hi of Inl e \<Rightarrow> True | Inr r \<Rightarrow> rule_ok r)
   \<and> (case makeIPv6Rule a net m lo hi of Inl e \<Rightarrow> True | Inr r \<Rightarrow> rule_ok r)
   \<and> (case makeAnyRule a lo hi of Inl e \<Rightarrow> True | Inr r \<Rightarrow> rule_ok r)"
  using constructors_ok by (auto simp: po.parse_iff split: sum.split)

text \<open>C30. The evaluator is the reference: on a resolved address and a port, the verdict is that of the first
  rule whose network contains the address, both read as numbers and compared above the low bits,
  and whose port range holds the port; no such rule means reject.\<close>

theorem evaluate_is_first_match:
  assumes "list_all rule_ok rs" "0 \<le> port" "port \<le> 0xFFFF"
    and "addrType = 1 \<and> length addr = 4 \<or> addrType = 2 \<and> length addr = 16"
  shows "evaluate rs addrType addr port = Inr (first_match rs addrType addr (nat port))"
  using evaluate_first_match [OF assms(1,4)] assms(2-4) by (auto simp: evaluate_def)

theorem evaluate_is_first_match_witness:
  "first_match [\<lparr>rul_action = 2, rul_prefix = IPv4 [10, 32, 0, 0] 11, rul_portMin = 0, rul_portMax = 65535\<rparr>,
     \<lparr>rul_action = 1, rul_prefix = Any_Address, rul_portMin = 443, rul_portMax = 443\<rparr>] 1 [10, 63, 1, 2] 443 = Reject
   \<and> first_match [\<lparr>rul_action = 2, rul_prefix = IPv4 [10, 32, 0, 0] 11, rul_portMin = 0, rul_portMax = 65535\<rparr>,
     \<lparr>rul_action = 1, rul_prefix = Any_Address, rul_portMin = 443, rul_portMax = 443\<rparr>] 1 [10, 64, 1, 2] 443 = Accept"
proof -
  let ?rs = "[\<lparr>rul_action = 2, rul_prefix = IPv4 [10, 32, 0, 0] 11, rul_portMin = 0, rul_portMax = 65535\<rparr>,
     \<lparr>rul_action = 1, rul_prefix = Any_Address, rul_portMin = 443, rul_portMax = 443\<rparr>]"
  have e: "evaluate ?rs 1 addr 443 = Inr (first_match ?rs 1 addr 443)" if "length addr = 4" for addr
    using evaluate_is_first_match [of ?rs 443 1 addr] that by (simp add: rule_ok_def)
  have "evaluate ?rs 1 [10, 63, 1, 2] 443 = Inr Reject" "evaluate ?rs 1 [10, 64, 1, 2] 443 = Inr Accept"
    by (simp_all add: evaluate_def prefixMatches_def bytes_match_def upt_rec)
  then show ?thesis using e [of "[10, 63, 1, 2]"] e [of "[10, 64, 1, 2]"] by simp
qed

end
