(* ===== verification/V2_Link.thy ===== *)
theory V2_Link
  imports V2_Cells Machine
begin

text \<open>
  \<open>modules/v2/link.mjs\<close>: the LINK\_HELLO / LINK\_AUTH handshake of a link. The closure variables of
  \<open>createLinkHandshake\<close> are a record; \<open>ingestCell\<close> returns its result, or the error it throws,
  with the state after it. The nonce that \<open>rng\<close> draws is an argument.
\<close>

section \<open>Payloads\<close>

definition LINK_PROTOCOL_VERSION :: nat where [simp]: "LINK_PROTOCOL_VERSION = 0x02"
definition LINK_FLAG_IS_DIALER :: nat where [simp]: "LINK_FLAG_IS_DIALER = 0x01"
definition LEN_LINK_HELLO_PAYLOAD :: nat where [simp]: "LEN_LINK_HELLO_PAYLOAD = 68"
definition LEN_LINK_AUTH_PAYLOAD :: nat where [simp]: "LEN_LINK_AUTH_PAYLOAD = 64"
definition OFFSET_LINK_VERSION :: nat where [simp]: "OFFSET_LINK_VERSION = 0"
definition OFFSET_LINK_FLAGS :: nat where [simp]: "OFFSET_LINK_FLAGS = 1"
definition OFFSET_LINK_NONCE :: nat where [simp]: "OFFSET_LINK_NONCE = 4"
definition OFFSET_LINK_IDPK :: nat where [simp]: "OFFSET_LINK_IDPK = 36"
definition LINK_AUTH_CONTEXT :: bytes where "LINK_AUTH_CONTEXT = ascii ''anon-layer/v2/link-auth''"

definition buildLinkHelloPayload :: "bytes \<Rightarrow> bytes \<Rightarrow> nat \<Rightarrow> bytes res" where
  "buildLinkHelloPayload idPk nonce flags =
     (if length idPk \<noteq> 32 then Inl (Error ''idPk must be 32 bytes'')
      else if length nonce \<noteq> 32 then Inl (Error ''nonce must be 32 bytes'')
      else
        let buf = zeros LEN_LINK_HELLO_PAYLOAD;
            buf = buf[OFFSET_LINK_VERSION := u8 LINK_PROTOCOL_VERSION];
            buf = buf[OFFSET_LINK_FLAGS := u8 flags];
            buf = set_at buf OFFSET_LINK_NONCE nonce;
            buf = set_at buf OFFSET_LINK_IDPK idPk
        in Inr buf)"

record link_hello =
  lkh_version :: nat
  lkh_flags :: nat
  lkh_nonce :: bytes
  lkh_idPk :: bytes

definition parseLinkHelloPayload :: "bytes \<Rightarrow> link_hello option" where
  "parseLinkHelloPayload payload =
     (if length payload < LEN_LINK_HELLO_PAYLOAD then None
      else Some \<lparr>lkh_version = unat (payload ! OFFSET_LINK_VERSION),
                 lkh_flags = unat (payload ! OFFSET_LINK_FLAGS),
                 lkh_nonce = subarray payload OFFSET_LINK_NONCE (OFFSET_LINK_NONCE + 32),
                 lkh_idPk = subarray payload OFFSET_LINK_IDPK (OFFSET_LINK_IDPK + 32)\<rparr>)"

definition buildAuthTranscript :: "bytes \<Rightarrow> bytes \<Rightarrow> bytes \<Rightarrow> bytes \<Rightarrow> bytes" where
  "buildAuthTranscript nonceSelf idPkSelf noncePeer idPkPeer =
     LINK_AUTH_CONTEXT @ nonceSelf @ idPkSelf @ noncePeer @ idPkPeer"

definition buildLinkAuthPayload :: "crypto \<Rightarrow> bytes \<Rightarrow> bytes \<Rightarrow> bytes \<Rightarrow> bytes \<Rightarrow> bytes \<Rightarrow> bytes res" where
  "buildLinkAuthPayload C idSk idPk myNonce peerNonce peerIdPk =
     (if length idSk \<noteq> 32 then Inl (Error ''idSk must be 32 bytes'')
      else if length idPk \<noteq> 32 then Inl (Error ''idPk must be 32 bytes'')
      else if length myNonce \<noteq> 32 then Inl (Error ''myNonce must be 32 bytes'')
      else if length peerNonce \<noteq> 32 then Inl (Error ''peerNonce must be 32 bytes'')
      else if length peerIdPk \<noteq> 32 then Inl (Error ''peerIdPk must be 32 bytes'')
      else Inr (sign C (buildAuthTranscript myNonce idPk peerNonce peerIdPk) idSk))"

definition verifyLinkAuthSignature :: "crypto \<Rightarrow> bytes \<Rightarrow> bytes \<Rightarrow> bytes \<Rightarrow> bytes \<Rightarrow> bytes \<Rightarrow> bool" where
  "verifyLinkAuthSignature C signature peerIdPk peerNonce myIdPk myNonce =
     (if length signature \<noteq> LEN_LINK_AUTH_PAYLOAD then False
      else if length peerIdPk \<noteq> 32 then False
      else if length peerNonce \<noteq> 32 then False
      else if length myIdPk \<noteq> 32 then False
      else if length myNonce \<noteq> 32 then False
      else verify C signature (buildAuthTranscript peerNonce peerIdPk myNonce myIdPk) peerIdPk)"

section \<open>The state machine\<close>

datatype link_state = Awaiting_Hello | Awaiting_Auth | Established | Failed_Link

record link_handshake =
  lks_idPk :: bytes
  lks_idSk :: bytes
  lks_expectedPeerIdPk :: "bytes option"
  lks_isDialer :: bool
  lks_myNonce :: bytes
  lks_state :: link_state
  lks_peerHello :: "link_hello option"
  lks_myAuthSent :: bool
  lks_failureReason :: "string option"

definition createLinkHandshake :: "bytes \<Rightarrow> bytes \<Rightarrow> bytes option \<Rightarrow> bool \<Rightarrow> bytes \<Rightarrow> link_handshake" where
  "createLinkHandshake idPk idSk expectedPeerIdPk isDialer myNonce =
     \<lparr>lks_idPk = idPk, lks_idSk = idSk, lks_expectedPeerIdPk = expectedPeerIdPk, lks_isDialer = isDialer,
      lks_myNonce = myNonce, lks_state = Awaiting_Hello, lks_peerHello = None, lks_myAuthSent = False,
      lks_failureReason = None\<rparr>"

definition buildHelloCell :: "link_handshake \<Rightarrow> bytes res" where
  "buildHelloCell s =
     (case buildLinkHelloPayload (lks_idPk s) (lks_myNonce s) (if lks_isDialer s then LINK_FLAG_IS_DIALER else 0) of
        Inl e \<Rightarrow> Inl e
      | Inr payload \<Rightarrow> buildCell WIRE_VERSION_V2 0 CMD_LINK_HELLO payload)"

datatype link_event = Link_Null | Link_Send bytes | Link_Established bytes

definition fail :: "string \<Rightarrow> link_handshake \<Rightarrow> link_event res \<times> link_handshake" where
  "fail reason s = (Inr Link_Null, s\<lparr>lks_state := Failed_Link, lks_failureReason := Some reason\<rparr>)"

definition unexpected_peer :: "link_handshake \<Rightarrow> link_hello \<Rightarrow> bool" where
  "unexpected_peer s hello =
     (case lks_expectedPeerIdPk s of None \<Rightarrow> False | Some pk \<Rightarrow> \<not> constantTimeEqual (lkh_idPk hello) pk)"

definition ingest_hello :: "crypto \<Rightarrow> bytes \<Rightarrow> link_handshake \<Rightarrow> link_event res \<times> link_handshake" where
  "ingest_hello C payload s =
     (if lks_peerHello s \<noteq> None then fail ''duplicate LINK_HELLO'' s
      else
        (case parseLinkHelloPayload payload of
           None \<Rightarrow> fail ''malformed LINK_HELLO'' s
         | Some hello \<Rightarrow>
             if lkh_version hello \<noteq> LINK_PROTOCOL_VERSION then fail ''version mismatch'' s
             else if unexpected_peer s hello then fail ''peer idPk does not match expected'' s
             else
               let s = s\<lparr>lks_peerHello := Some hello\<rparr>
               in (case buildLinkAuthPayload C (lks_idSk s) (lks_idPk s) (lks_myNonce s) (lkh_nonce hello) (lkh_idPk hello) of
                     Inl e \<Rightarrow> (Inl e, s)
                   | Inr authPayload \<Rightarrow>
                       (case buildCell WIRE_VERSION_V2 0 CMD_LINK_AUTH authPayload of
                          Inl e \<Rightarrow> (Inl e, s)
                        | Inr authCell \<Rightarrow>
                            (Inr (Link_Send authCell), s\<lparr>lks_myAuthSent := True, lks_state := Awaiting_Auth\<rparr>)))))"

definition ingest_auth :: "crypto \<Rightarrow> bytes \<Rightarrow> link_handshake \<Rightarrow> link_event res \<times> link_handshake" where
  "ingest_auth C payload s =
     (case lks_peerHello s of
        None \<Rightarrow> fail ''LINK_AUTH before LINK_HELLO'' s
      | Some hello \<Rightarrow>
          if \<not> lks_myAuthSent s then fail ''peer sent AUTH before we did'' s
          else if \<not> verifyLinkAuthSignature C (subarray payload 0 LEN_LINK_AUTH_PAYLOAD) (lkh_idPk hello)
                      (lkh_nonce hello) (lks_idPk s) (lks_myNonce s)
            then fail ''LINK_AUTH signature did not verify'' s
          else (Inr (Link_Established (lkh_idPk hello)), s\<lparr>lks_state := Established\<rparr>))"

definition ingestCell :: "crypto \<Rightarrow> bytes \<Rightarrow> link_handshake \<Rightarrow> link_event res \<times> link_handshake" where
  "ingestCell C cellBytes s =
     (if lks_state s = Failed_Link then (Inr Link_Null, s)
      else
        (case parseCell cellBytes of
           None \<Rightarrow> fail ''malformed cell'' s
         | Some parsed \<Rightarrow>
             if cel_circuitId parsed \<noteq> 0 then fail ''link cell has non-zero circuit_id'' s
             else if cel_command parsed = CMD_LINK_HELLO then ingest_hello C (cel_payload parsed) s
             else if cel_command parsed = CMD_LINK_AUTH then ingest_auth C (cel_payload parsed) s
             else fail ''unexpected cell command during handshake'' s))"

definition getPeerIdPk :: "link_handshake \<Rightarrow> bytes option" where
  "getPeerIdPk s = map_option lkh_idPk (lks_peerHello s)"

section \<open>The order of the states\<close>

instantiation link_state :: linorder
begin

fun rank :: "link_state \<Rightarrow> nat" where
  "rank Awaiting_Hello = 0" | "rank Awaiting_Auth = 1" | "rank Established = 2" | "rank Failed_Link = 3"

definition less_eq_link_state :: "link_state \<Rightarrow> link_state \<Rightarrow> bool" where "x \<le> y \<longleftrightarrow> rank x \<le> rank y"

definition less_link_state :: "link_state \<Rightarrow> link_state \<Rightarrow> bool" where "x < y \<longleftrightarrow> rank x < rank y"

instance
proof
  fix x y z :: link_state
  show "x < y \<longleftrightarrow> x \<le> y \<and> \<not> y \<le> x" by (auto simp: less_eq_link_state_def less_link_state_def)
  show "x \<le> x" "x \<le> y \<Longrightarrow> y \<le> z \<Longrightarrow> x \<le> z" "x \<le> y \<or> y \<le> x" by (auto simp: less_eq_link_state_def)
  show "x \<le> y \<Longrightarrow> y \<le> x \<Longrightarrow> x = y" by (cases x; cases y) (auto simp: less_eq_link_state_def)
qed

end

section \<open>The abstract handshake\<close>

text \<open>What a link is, whatever the cells are: nothing heard, a claimed peer, a peer that signed this
  handshake, or closed.\<close>

datatype link_view = Idle | Claimed bytes bytes | Trusted bytes bytes | Closed

inductive link_step :: "(bytes \<Rightarrow> bool) \<Rightarrow> (bytes \<Rightarrow> bytes \<Rightarrow> bool) \<Rightarrow> link_view \<Rightarrow> link_view \<Rightarrow> bool"
  for wanted and vouched where
  Claim: "wanted pk \<Longrightarrow> link_step wanted vouched Idle (Claimed pk n)"
| Trust: "vouched pk n \<Longrightarrow> link_step wanted vouched (Claimed pk n) (Trusted pk n)"
| Close: "link_step wanted vouched v Closed"

inductive_cases link_step_to_claimed: "link_step wanted vouched v (Claimed pk n)"
inductive_cases link_step_to_trusted: "link_step wanted vouched v (Trusted pk n)"
inductive_simps link_step_from_closed: "link_step wanted vouched Closed v"

lemma reachable_claimed:
  "(link_step wanted vouched)\<^sup>*\<^sup>* Idle v \<Longrightarrow>
   case v of Claimed pk n \<Rightarrow> wanted pk | Trusted pk n \<Rightarrow> wanted pk \<and> vouched pk n | _ \<Rightarrow> True"
  by (induction rule: rtranclp_induct) (auto elim: link_step.cases split: link_view.splits)

section \<open>The code's handshake as the abstract one\<close>

definition view_of :: "link_handshake \<Rightarrow> link_view" where
  "view_of s =
     (case lks_state s of
        Awaiting_Hello \<Rightarrow> Idle
      | Awaiting_Auth \<Rightarrow> (case lks_peerHello s of None \<Rightarrow> Closed | Some h \<Rightarrow> Claimed (lkh_idPk h) (lkh_nonce h))
      | Established \<Rightarrow> (case lks_peerHello s of None \<Rightarrow> Closed | Some h \<Rightarrow> Trusted (lkh_idPk h) (lkh_nonce h))
      | Failed_Link \<Rightarrow> Closed)"

definition wanted_of :: "bytes option \<Rightarrow> bytes \<Rightarrow> bool" where
  "wanted_of expected pk = (case expected of None \<Rightarrow> True | Some e \<Rightarrow> pk = e)"

text \<open>Some signature of the peer's key covers both nonces and both keys of this handshake.\<close>

definition signed_for :: "crypto \<Rightarrow> bytes \<Rightarrow> bytes \<Rightarrow> bytes \<Rightarrow> bytes \<Rightarrow> bool" where
  "signed_for C myIdPk myNonce pk n \<longleftrightarrow>
     (\<exists>sig. length sig = 64 \<and> verify C sig (LINK_AUTH_CONTEXT @ n @ pk @ myNonce @ myIdPk) pk)"

definition link_inv :: "link_handshake \<Rightarrow> bool" where
  "link_inv s \<longleftrightarrow> (case lks_state s of
     Awaiting_Hello \<Rightarrow> \<not> lks_myAuthSent s
   | Failed_Link \<Rightarrow> True
   | _ \<Rightarrow> lks_myAuthSent s \<and> lks_peerHello s \<noteq> None)"

definition same_link :: "link_handshake \<Rightarrow> link_handshake \<Rightarrow> bool" where
  "same_link s t \<longleftrightarrow> lks_idPk t = lks_idPk s \<and> lks_myNonce t = lks_myNonce s
     \<and> lks_expectedPeerIdPk t = lks_expectedPeerIdPk s \<and> lks_state s \<le> lks_state t"

definition link_rel :: "crypto \<Rightarrow> link_handshake \<Rightarrow> link_handshake \<Rightarrow> bool" where
  "link_rel C s t \<longleftrightarrow> same_link s t
     \<and> (link_step (wanted_of (lks_expectedPeerIdPk s)) (signed_for C (lks_idPk s) (lks_myNonce s)))\<^sup>*\<^sup>* (view_of s) (view_of t)"

lemma ingestCell_cases:
  assumes "link_inv s" "ingestCell C c s = (r, t)"
  obtains (unchanged) "t = s"
  | (failed) why where "t = s\<lparr>lks_state := Failed_Link, lks_failureReason := why\<rparr>"
  | (heard) h where "lks_peerHello s = None" "\<not> unexpected_peer s h" "lks_state s = Awaiting_Hello"
      "t = s\<lparr>lks_peerHello := Some h\<rparr>
       \<or> t = s\<lparr>lks_peerHello := Some h, lks_myAuthSent := True, lks_state := Awaiting_Auth\<rparr>"
  | (verified) h sig where "lks_peerHello s = Some h" "lks_state s = Awaiting_Auth \<or> lks_state s = Established"
      "verifyLinkAuthSignature C sig (lkh_idPk h) (lkh_nonce h) (lks_idPk s) (lks_myNonce s)"
      "t = s\<lparr>lks_state := Established\<rparr>"
proof -
  have "t = s \<or> (\<exists>why. t = s\<lparr>lks_state := Failed_Link, lks_failureReason := why\<rparr>)
    \<or> (\<exists>h. lks_peerHello s = None \<and> \<not> unexpected_peer s h \<and> lks_state s = Awaiting_Hello
        \<and> (t = s\<lparr>lks_peerHello := Some h\<rparr>
          \<or> t = s\<lparr>lks_peerHello := Some h, lks_myAuthSent := True, lks_state := Awaiting_Auth\<rparr>))
    \<or> (\<exists>h sig. lks_peerHello s = Some h \<and> (lks_state s = Awaiting_Auth \<or> lks_state s = Established)
        \<and> verifyLinkAuthSignature C sig (lkh_idPk h) (lkh_nonce h) (lks_idPk s) (lks_myNonce s)
        \<and> t = s\<lparr>lks_state := Established\<rparr>)"
    using assms
    by (cases "lks_state s")
      (auto simp: ingestCell_def ingest_hello_def ingest_auth_def fail_def link_inv_def Let_def
        split: if_splits option.splits sum.splits)
  then show thesis using that by blast
qed

lemma link_rel_refl: "link_rel C s s"
  by (simp add: link_rel_def same_link_def)

lemma link_rel_trans: "link_rel C s t \<Longrightarrow> link_rel C t u \<Longrightarrow> link_rel C s u"
  by (auto simp: link_rel_def same_link_def intro: rtranclp_trans)

lemma link_rel_step:
  assumes inv: "link_inv s"
  shows "link_rel C s (snd (ingestCell C c s)) \<and> link_inv (snd (ingestCell C c s))"
proof -
  obtain r t where i: "ingestCell C c s = (r, t)" by fastforce
  let ?step = "link_step (wanted_of (lks_expectedPeerIdPk s)) (signed_for C (lks_idPk s) (lks_myNonce s))"
  from inv i have "link_rel C s t \<and> link_inv t"
  proof (cases rule: ingestCell_cases)
    case unchanged
    then show ?thesis using inv by (simp add: link_rel_refl)
  next
    case (failed why)
    then have "lks_state s \<le> lks_state t" by (cases "lks_state s") (simp_all add: less_eq_link_state_def)
    moreover have "?step\<^sup>*\<^sup>* (view_of s) Closed" by (intro r_into_rtranclp link_step.Close)
    ultimately show ?thesis using failed by (simp add: link_rel_def same_link_def link_inv_def view_of_def)
  next
    case (heard h)
    have w: "wanted_of (lks_expectedPeerIdPk s) (lkh_idPk h)"
      using heard(2) by (auto simp: unexpected_peer_def wanted_of_def split: option.splits)
    then have "?step\<^sup>*\<^sup>* Idle (Claimed (lkh_idPk h) (lkh_nonce h))" by (intro r_into_rtranclp link_step.Claim)
    then show ?thesis
      using heard inv
      by (auto simp: link_rel_def same_link_def link_inv_def view_of_def less_eq_link_state_def)
  next
    case (verified h sig)
    have "signed_for C (lks_idPk s) (lks_myNonce s) (lkh_idPk h) (lkh_nonce h)"
      using verified(3)
      by (auto simp: verifyLinkAuthSignature_def signed_for_def buildAuthTranscript_def split: if_splits)
    then have "?step\<^sup>*\<^sup>* (view_of s) (view_of t)"
      using verified by (cases "lks_state s = Established") (auto simp: view_of_def intro!: r_into_rtranclp link_step.Trust)
    then show ?thesis
      using verified inv by (auto simp: link_rel_def same_link_def link_inv_def less_eq_link_state_def)
  qed
  then show ?thesis using i by simp
qed

definition link_run :: "crypto \<Rightarrow> bytes list \<Rightarrow> link_handshake \<Rightarrow> link_handshake" where
  "link_run C = run_calls (\<lambda>c s. snd (ingestCell C c s))"

lemma fresh_link_inv: "link_inv (createLinkHandshake pk sk e d n)"
  by (simp add: link_inv_def createLinkHandshake_def)

interpretation lk: call_machine "\<lambda>s. \<exists>pk sk e d n. s = createLinkHandshake pk sk e d n"
  "\<lambda>c s. snd (ingestCell C c s)" link_inv for C
  by unfold_locales (auto simp: fresh_link_inv link_rel_step)

lemma link_run_rel: "link_inv s \<Longrightarrow> link_rel C s (link_run C cells s)"
  unfolding link_run_def
  by (rule lk.run_relates [where P = "\<lambda>_. True"])
    (auto simp: link_rel_refl link_rel_step list_all_iff intro: link_rel_trans)

section \<open>Honest parties\<close>

lemma hello_payload:
  assumes "length idPk = 32" "length nonce = 32"
  shows "buildLinkHelloPayload idPk nonce f = Inr (2 # u8 f # zeros 2 @ nonce @ idPk)"
proof -
  have "set_at (2 # u8 f # zeros 66) 4 nonce = 2 # u8 f # zeros 2 @ nonce @ zeros 32"
  proof -
    have "zeros 66 = zeros 2 @ zeros 64" by (simp add: zeros_def flip: replicate_add)
    then show ?thesis using assms by (simp add: layout)
  qed
  then show ?thesis
    using assms by (simp add: buildLinkHelloPayload_def Let_def layout) (simp add: u8_def)
qed

lemma parse_hello_payload:
  assumes "length idPk = 32" "length nonce = 32" "f < 256"
  shows "parseLinkHelloPayload ((2 # u8 f # zeros 2 @ nonce @ idPk) @ zeros 440)
    = Some \<lparr>lkh_version = 2, lkh_flags = f, lkh_nonce = nonce, lkh_idPk = idPk\<rparr>"
  using assms by (simp add: parseLinkHelloPayload_def layout codec)

lemma cell_roundtrip:
  assumes "m < 256" "length p \<le> 508"
  shows "\<exists>c. buildCell 2 0 m p = Inr c \<and> parseCell c = Some \<lparr>cel_version = 2, cel_circuitId = 0,
    cel_command = m, cel_payload = p @ zeros (508 - length p)\<rparr>"
  using buildCell_layout [of 0 p 2 m] parse_cell_bytes [of 2 0 m p] assms by simp

text \<open>What an honest party sends first, and what it answers to the hello of another.\<close>

lemma hello_cell:
  assumes "length (lks_idPk s) = 32" "length (lks_myNonce s) = 32"
  shows "\<exists>c f. buildHelloCell s = Inr c \<and> parseCell c = Some \<lparr>cel_version = 2, cel_circuitId = 0, cel_command = 5,
      cel_payload = (2 # u8 f # zeros 2 @ lks_myNonce s @ lks_idPk s) @ zeros 440\<rparr> \<and> f < 256"
  using cell_roundtrip [of 5 "2 # u8 (if lks_isDialer s then 1 else 0) # zeros 2 @ lks_myNonce s @ lks_idPk s"] assms
  by (auto simp: buildHelloCell_def hello_payload intro!: exI [of _ "if lks_isDialer s then 1 else 0"])

lemma answer_hello:
  assumes "sig_correct C" "length (lks_idPk s) = 32" "length (lks_idSk s) = 32" "length (lks_myNonce s) = 32"
    and "length pk = 32" "length n = 32" "wanted_of (lks_expectedPeerIdPk s) pk"
    and "lks_state s = Awaiting_Hello" "lks_peerHello s = None"
    and "parseCell c = Some \<lparr>cel_version = 2, cel_circuitId = 0, cel_command = 5,
      cel_payload = (2 # u8 f # zeros 2 @ n @ pk) @ zeros 440\<rparr>" "f < 256"
  shows "\<exists>a. ingestCell C c s = (Inr (Link_Send a), s\<lparr>lks_peerHello := Some \<lparr>lkh_version = 2, lkh_flags = f,
        lkh_nonce = n, lkh_idPk = pk\<rparr>, lks_myAuthSent := True, lks_state := Awaiting_Auth\<rparr>)
    \<and> parseCell a = Some \<lparr>cel_version = 2, cel_circuitId = 0, cel_command = 6,
        cel_payload = sign C (LINK_AUTH_CONTEXT @ lks_myNonce s @ lks_idPk s @ n @ pk) (lks_idSk s) @ zeros 444\<rparr>"
proof -
  let ?t = "LINK_AUTH_CONTEXT @ lks_myNonce s @ lks_idPk s @ n @ pk"
  have "length (sign C ?t (lks_idSk s)) = 64" using assms(1,3) by (rule length_sign)
  then obtain a where "buildCell 2 0 6 (sign C ?t (lks_idSk s)) = Inr a"
    "parseCell a = Some \<lparr>cel_version = 2, cel_circuitId = 0, cel_command = 6, cel_payload = sign C ?t (lks_idSk s) @ zeros 444\<rparr>"
    using cell_roundtrip [of 6 "sign C ?t (lks_idSk s)"] by auto
  moreover have "\<not> unexpected_peer s \<lparr>lkh_version = 2, lkh_flags = f, lkh_nonce = n, lkh_idPk = pk\<rparr>"
    using assms(7) by (auto simp: unexpected_peer_def wanted_of_def split: option.splits)
  ultimately show ?thesis
    using assms parse_hello_payload [of pk n f]
    by (simp add: ingestCell_def ingest_hello_def buildLinkAuthPayload_def buildAuthTranscript_def)
qed

lemma accept_auth:
  assumes "sig_correct C" "length sk = 32" "length (lks_idPk s) = 32" "length (lks_myNonce s) = 32" "length n = 32"
    and "lks_state s = Awaiting_Auth" "lks_myAuthSent s"
    and "lks_peerHello s = Some \<lparr>lkh_version = 2, lkh_flags = f, lkh_nonce = n, lkh_idPk = ed_public C sk\<rparr>"
    and "parseCell c = Some \<lparr>cel_version = 2, cel_circuitId = 0, cel_command = 6,
        cel_payload = sign C (LINK_AUTH_CONTEXT @ n @ ed_public C sk @ lks_myNonce s @ lks_idPk s) sk @ zeros 444\<rparr>"
  shows "ingestCell C c s = (Inr (Link_Established (ed_public C sk)), s\<lparr>lks_state := Established\<rparr>)"
proof -
  have "length (ed_public C sk) = 32" using assms(1,2) unfolding sig_correct_def by blast
  then show ?thesis
    using assms length_sign [OF assms(1,2)] verify_sign [OF assms(1,2)]
    by (simp add: ingestCell_def ingest_auth_def verifyLinkAuthSignature_def buildAuthTranscript_def layout)
qed

section \<open>Properties\<close>

text \<open>C32. The handshake refines the abstract one: over any sequence of cells, what a link knows moves only by
  claiming a wanted peer, by trusting the claimed peer once a signature of its key over both nonces
  and both keys was checked, or by closing.\<close>

theorem link_refines:
  "(link_step (wanted_of expected) (signed_for C idPk nonce))\<^sup>*\<^sup>* Idle
     (view_of (link_run C cells (createLinkHandshake idPk idSk expected dialer nonce)))"
  using link_run_rel [OF fresh_link_inv [of idPk idSk expected dialer nonce], of C cells]
  by (simp add: link_rel_def createLinkHandshake_def view_of_def)

text \<open>C33. An established link is authentic: whatever cells arrived, a link that is established has a peer
  key, the expected one when one was expected, and some signature of that key covers the peer's
  nonce and key and this side's nonce and key.\<close>

theorem link_established_authentic:
  fixes C cells idPk idSk expected dialer nonce
  defines "s \<equiv> link_run C cells (createLinkHandshake idPk idSk expected dialer nonce)"
  shows "case lks_state s of
     Established \<Rightarrow> (\<exists>pk n. getPeerIdPk s = Some pk \<and> wanted_of expected pk \<and> signed_for C idPk nonce pk n)
   | _ \<Rightarrow> True"
proof (cases "lks_state s = Established")
  case True
  have i: "link_inv s" and r: "link_rel C (createLinkHandshake idPk idSk expected dialer nonce) s"
    unfolding s_def using lk.inv_run [OF fresh_link_inv] link_run_rel [OF fresh_link_inv]
    by (auto simp: link_run_def)
  obtain h where h: "lks_peerHello s = Some h" using i True by (auto simp: link_inv_def)
  have "(link_step (wanted_of expected) (signed_for C idPk nonce))\<^sup>*\<^sup>* Idle (Trusted (lkh_idPk h) (lkh_nonce h))"
    using r True h by (simp add: link_rel_def createLinkHandshake_def view_of_def)
  from reachable_claimed [OF this] show ?thesis
    using True h by (auto simp: getPeerIdPk_def)
qed (cases "lks_state s"; simp)

text \<open>The state only advances, from waiting for the hello to waiting for the signature to established to
  failed, never back, over any cells after any cells.\<close>

theorem link_advances:
  "lks_state (link_run C cells (createLinkHandshake idPk idSk expected dialer nonce))
     \<le> lks_state (link_run C (cells @ later) (createLinkHandshake idPk idSk expected dialer nonce))"
  using link_run_rel [OF lk.inv_run [OF fresh_link_inv]]
  by (simp add: link_rel_def same_link_def link_run_def run_calls_append)

text \<open>C34. Two honest ends establish: when each expects the other or nobody in particular, the two hellos and
  the two answers exchanged leave both ends established with the key of the other.\<close>

theorem link_establishes:
  fixes dA dB :: bool
  assumes "sig_correct C" "length skA = 32" "length skB = 32" "length nA = 32" "length nB = 32"
    and "wanted_of eA (ed_public C skB)" "wanted_of eB (ed_public C skA)"
  defines "a \<equiv> createLinkHandshake (ed_public C skA) skA eA dA nA"
    and "b \<equiv> createLinkHandshake (ed_public C skB) skB eB dB nB"
  shows "\<exists>helloA helloB authA authB a1 b1 a2 b2.
     buildHelloCell a = Inr helloA \<and> buildHelloCell b = Inr helloB
   \<and> ingestCell C helloB a = (Inr (Link_Send authA), a1) \<and> ingestCell C helloA b = (Inr (Link_Send authB), b1)
   \<and> ingestCell C authB a1 = (Inr (Link_Established (ed_public C skB)), a2)
   \<and> ingestCell C authA b1 = (Inr (Link_Established (ed_public C skA)), b2)
   \<and> lks_state a2 = Established \<and> lks_state b2 = Established"
proof -
  let ?A = "ed_public C skA" and ?B = "ed_public C skB"
  have pk: "length ?A = 32" "length ?B = 32" using assms(1-3) unfolding sig_correct_def by blast+
  obtain hA fA where hA: "buildHelloCell a = Inr hA" "fA < 256" "parseCell hA = Some \<lparr>cel_version = 2,
      cel_circuitId = 0, cel_command = 5, cel_payload = (2 # u8 fA # zeros 2 @ nA @ ?A) @ zeros 440\<rparr>"
    using hello_cell [of a] pk assms(4) by (auto simp: a_def createLinkHandshake_def)
  obtain hB fB where hB: "buildHelloCell b = Inr hB" "fB < 256" "parseCell hB = Some \<lparr>cel_version = 2,
      cel_circuitId = 0, cel_command = 5, cel_payload = (2 # u8 fB # zeros 2 @ nB @ ?B) @ zeros 440\<rparr>"
    using hello_cell [of b] pk assms(5) by (auto simp: b_def createLinkHandshake_def)
  obtain xA where xA: "ingestCell C hB a = (Inr (Link_Send xA), a\<lparr>lks_peerHello := Some \<lparr>lkh_version = 2,
        lkh_flags = fB, lkh_nonce = nB, lkh_idPk = ?B\<rparr>, lks_myAuthSent := True, lks_state := Awaiting_Auth\<rparr>)"
    "parseCell xA = Some \<lparr>cel_version = 2, cel_circuitId = 0, cel_command = 6,
        cel_payload = sign C (LINK_AUTH_CONTEXT @ nA @ ?A @ nB @ ?B) skA @ zeros 444\<rparr>"
    using answer_hello [OF assms(1), of a ?B nB hB fB] pk assms(2,4,5,6) hB
    by (auto simp: a_def createLinkHandshake_def)
  obtain xB where xB: "ingestCell C hA b = (Inr (Link_Send xB), b\<lparr>lks_peerHello := Some \<lparr>lkh_version = 2,
        lkh_flags = fA, lkh_nonce = nA, lkh_idPk = ?A\<rparr>, lks_myAuthSent := True, lks_state := Awaiting_Auth\<rparr>)"
    "parseCell xB = Some \<lparr>cel_version = 2, cel_circuitId = 0, cel_command = 6,
        cel_payload = sign C (LINK_AUTH_CONTEXT @ nB @ ?B @ nA @ ?A) skB @ zeros 444\<rparr>"
    using answer_hello [OF assms(1), of b ?A nA hA fA] pk assms(3,4,5,7) hA
    by (auto simp: b_def createLinkHandshake_def)
  have "ingestCell C xB (snd (ingestCell C hB a)) = (Inr (Link_Established ?B), (snd (ingestCell C hB a))\<lparr>lks_state := Established\<rparr>)"
    by (rule accept_auth [OF assms(1,3)]) (use xA xB pk assms(4,5) in \<open>simp_all add: a_def createLinkHandshake_def\<close>)
  moreover have "ingestCell C xA (snd (ingestCell C hA b)) = (Inr (Link_Established ?A), (snd (ingestCell C hA b))\<lparr>lks_state := Established\<rparr>)"
    by (rule accept_auth [OF assms(1,2)]) (use xA xB pk assms(4,5) in \<open>simp_all add: b_def createLinkHandshake_def\<close>)
  ultimately show ?thesis using hA(1) hB(1) xA(1) xB(1) by fastforce
qed

theorem link_establishes_witness:
  "\<exists>hello auth a1 b a2. buildHelloCell (createLinkHandshake (ed_public toy_crypto (zeros 32)) (zeros 32) None False (zeros 32)) = Inr hello
   \<and> ingestCell toy_crypto hello (createLinkHandshake (ed_public toy_crypto (zeros 32)) (zeros 32)
        (Some (ed_public toy_crypto (zeros 32))) True (zeros 32)) = (Inr (Link_Send auth), a1)
   \<and> ingestCell toy_crypto b a1 = (Inr (Link_Established (ed_public toy_crypto (zeros 32))), a2) \<and> lks_state a2 = Established"
  using link_establishes [OF toy_sig_correct, of "zeros 32" "zeros 32" "zeros 32" "zeros 32"
      "Some (ed_public toy_crypto (zeros 32))" None True False] by (simp add: wanted_of_def) blast

text \<open>The acceptor, which expects nobody, is established by its own cells sent back to it: it takes its own
  key for the peer's. Nothing in the code compares the peer's key or nonce with its own.\<close>

lemma link_reflection:
  assumes "sig_correct C" "length sk = 32" "length n = 32"
  defines "a \<equiv> createLinkHandshake (ed_public C sk) sk None False n"
  shows "\<exists>hello auth a1 a2. buildHelloCell a = Inr hello \<and> ingestCell C hello a = (Inr (Link_Send auth), a1)
    \<and> ingestCell C auth a1 = (Inr (Link_Established (ed_public C sk)), a2)"
proof -
  let ?A = "ed_public C sk"
  have pk: "length ?A = 32" using assms(1,2) unfolding sig_correct_def by blast
  obtain h f where h: "buildHelloCell a = Inr h" "f < 256" "parseCell h = Some \<lparr>cel_version = 2,
      cel_circuitId = 0, cel_command = 5, cel_payload = (2 # u8 f # zeros 2 @ n @ ?A) @ zeros 440\<rparr>"
    using hello_cell [of a] pk assms(3) by (auto simp: a_def createLinkHandshake_def)
  obtain x where x: "ingestCell C h a = (Inr (Link_Send x), a\<lparr>lks_peerHello := Some \<lparr>lkh_version = 2,
        lkh_flags = f, lkh_nonce = n, lkh_idPk = ?A\<rparr>, lks_myAuthSent := True, lks_state := Awaiting_Auth\<rparr>)"
    "parseCell x = Some \<lparr>cel_version = 2, cel_circuitId = 0, cel_command = 6,
        cel_payload = sign C (LINK_AUTH_CONTEXT @ n @ ?A @ n @ ?A) sk @ zeros 444\<rparr>"
    using answer_hello [OF assms(1), of a ?A n h f] pk assms(2,3) h
    by (auto simp: a_def createLinkHandshake_def wanted_of_def)
  have "ingestCell C x (snd (ingestCell C h a)) = (Inr (Link_Established ?A), (snd (ingestCell C h a))\<lparr>lks_state := Established\<rparr>)"
    by (rule accept_auth [OF assms(1,2)]) (use x pk assms(3) in \<open>simp_all add: a_def createLinkHandshake_def\<close>)
  then show ?thesis using h(1) x(1) by fastforce
qed

end
