(* ===== verification/V2_Onion_Address.thy ===== *)
theory V2_Onion_Address
  imports Crypto "HOL-Library.Char_ord"
begin

text \<open>
  \<open>modules/v2/onion_address.mjs\<close>: .anon addresses. The bit buffers of the two base32 loops are the
  32-bit integers that JavaScript's shifts make of them. A string is a list of 8-bit characters;
  \<open>toLowerCase\<close> acts on the ASCII letters, and the other 8-bit characters are refused with or without it. Characters beyond
  8 bits are outside this theory; one of them, the Kelvin sign, has an ASCII lower case (\<open>k\<close>) and is accepted in its place, which
  \<open>is\_onion\_host\<close> of \<open>V2\_Site\<close> models.
\<close>

section \<open>Constants and the alphabet\<close>

definition ONION_VERSION :: nat where [simp]: "ONION_VERSION = 0x02"
definition ONION_VERSION_PQ :: nat where [simp]: "ONION_VERSION_PQ = 0x03"
definition ONION_ADDR_BYTES :: nat where [simp]: "ONION_ADDR_BYTES = 35"
definition ONION_ADDR_CHARS :: nat where [simp]: "ONION_ADDR_CHARS = 56"
definition ONION_ADDR_SUFFIX :: string where [simp]: "ONION_ADDR_SUFFIX = ''.anon''"
definition CHECKSUM_PREFIX :: bytes where "CHECKSUM_PREFIX = ascii ''.anon-checksum''"
definition ALPHABET :: string where "ALPHABET = ''abcdefghijklmnopqrstuvwxyz234567''"

text \<open>The reverse table, filled by the loop of the module: each character, and the character with the
  bit 0x20 cleared.\<close>

definition char_code :: "char \<Rightarrow> nat" where "char_code c = of_char c"

definition ALPHABET_INDEX :: "int list" where
  "ALPHABET_INDEX = fold (\<lambda>i t.
       let t = t[char_code (ALPHABET ! i) := int i]
       in t[nat (int (char_code (ALPHABET ! i)) AND NOT 0x20) := int i])
     [0..<length ALPHABET] (replicate 128 (- 1))"

section \<open>Base32\<close>

text \<open>The inner loop: while five bits are there, a symbol is written.\<close>

function emit_symbols :: "32 word \<Rightarrow> nat \<Rightarrow> string \<Rightarrow> nat \<times> string" where
  "emit_symbols buffer bitsInBuffer out =
     (if bitsInBuffer \<ge> 5 then
        let bitsInBuffer = bitsInBuffer - 5
        in emit_symbols buffer bitsInBuffer (out @ [ALPHABET ! unat (drop_bit bitsInBuffer buffer AND 0x1F)])
      else (bitsInBuffer, out))"
  by pat_completeness auto
termination by (relation "measure (\<lambda>(buffer, bitsInBuffer, out). bitsInBuffer)") auto

declare emit_symbols.simps [simp del]

fun encode_loop :: "bytes \<Rightarrow> 32 word \<Rightarrow> nat \<Rightarrow> string \<Rightarrow> 32 word \<times> nat \<times> string" where
  "encode_loop [] buffer bitsInBuffer out = (buffer, bitsInBuffer, out)"
| "encode_loop (b # bs) buffer bitsInBuffer out =
     (let buffer = push_bit 8 buffer OR ucast b;
          (bitsInBuffer, out) = emit_symbols buffer (bitsInBuffer + 8) out
      in encode_loop bs buffer bitsInBuffer out)"

definition base32encode :: "bytes \<Rightarrow> string" where
  "base32encode bytes =
     (let (buffer, bitsInBuffer, out) = encode_loop bytes 0 0 []
      in if bitsInBuffer > 0 then out @ [ALPHABET ! unat (push_bit (5 - bitsInBuffer) buffer AND 0x1F)]
         else out)"

definition symbol_index :: "char \<Rightarrow> int" where
  "symbol_index c = (let code = char_code c in if code < 128 then ALPHABET_INDEX ! code else - 1)"

fun decode_loop :: "string \<Rightarrow> 32 word \<Rightarrow> nat \<Rightarrow> bytes \<Rightarrow> (32 word \<times> nat \<times> bytes) option" where
  "decode_loop [] buffer bitsInBuffer out = Some (buffer, bitsInBuffer, out)"
| "decode_loop (c # s) buffer bitsInBuffer out =
     (let idx = symbol_index c
      in if idx < 0 then None
         else
           let buffer = push_bit 5 buffer OR word_of_int idx;
               bitsInBuffer = bitsInBuffer + 5
           in if bitsInBuffer \<ge> 8 then
                let bitsInBuffer = bitsInBuffer - 8
                in decode_loop s buffer bitsInBuffer (out @ [ucast (drop_bit bitsInBuffer buffer AND 0xFF)])
              else decode_loop s buffer bitsInBuffer out)"

definition base32decode :: "string \<Rightarrow> bytes option" where
  "base32decode s =
     (case decode_loop s 0 0 [] of
        None \<Rightarrow> None
      | Some (buffer, bitsInBuffer, out) \<Rightarrow>
          if bitsInBuffer > 0 \<and> buffer AND (push_bit bitsInBuffer 1 - 1) \<noteq> 0 then None else Some out)"

section \<open>Addresses\<close>

definition computeChecksum :: "crypto \<Rightarrow> bytes \<Rightarrow> nat \<Rightarrow> bytes" where
  "computeChecksum C body32 version =
     (let input = zeros (length CHECKSUM_PREFIX + 32 + 1);
          input = set_at input 0 CHECKSUM_PREFIX;
          input = set_at input (length CHECKSUM_PREFIX) body32;
          input = input[length input - 1 := u8 version]
      in subarray (blake2b_32 C input) 0 2)"

definition computeIdentityHash :: "crypto \<Rightarrow> bytes \<Rightarrow> bytes \<Rightarrow> bytes" where
  "computeIdentityHash C svcPkEd svcPkMldsa =
     (let input = set_at (zeros (length svcPkEd + length svcPkMldsa)) 0 svcPkEd
      in blake2b_32 C (set_at input (length svcPkEd) svcPkMldsa))"

definition address_of :: "crypto \<Rightarrow> bytes \<Rightarrow> nat \<Rightarrow> string" where
  "address_of C body32 version =
     (let payload = set_at (zeros ONION_ADDR_BYTES) 0 body32;
          payload = set_at payload 32 (computeChecksum C body32 version);
          payload = payload[34 := u8 version]
      in base32encode payload @ ONION_ADDR_SUFFIX)"

definition encodeOnionAddress :: "crypto \<Rightarrow> bytes \<Rightarrow> string res" where
  "encodeOnionAddress C svcPk =
     (if length svcPk \<noteq> 32 then Inl (Error ''SVC_pk must be a 32-byte Uint8Array'')
      else Inr (address_of C svcPk ONION_VERSION))"

definition encodeOnionAddressV3 :: "crypto \<Rightarrow> bytes \<Rightarrow> bytes \<Rightarrow> string res" where
  "encodeOnionAddressV3 C svcPkEd svcPkMldsa =
     (if length svcPkEd \<noteq> 32 then Inl (Error ''SVC_pk_ed must be a 32-byte Uint8Array'')
      else if length svcPkMldsa \<noteq> 1952 then Inl (Error ''SVC_pk_mldsa must be a 1952-byte Uint8Array'')
      else Inr (address_of C (computeIdentityHash C svcPkEd svcPkMldsa) ONION_VERSION_PQ))"

datatype onion_id = Svc_Pk bytes | Identity_Hash bytes

definition lower_char :: "char \<Rightarrow> char" where
  "lower_char c = (if 65 \<le> char_code c \<and> char_code c \<le> 90 then char_of (char_code c + 32) else c)"

definition toLowerCase :: "string \<Rightarrow> string" where "toLowerCase = map lower_char"

definition decodeOnionAddress :: "crypto \<Rightarrow> string \<Rightarrow> onion_id option" where
  "decodeOnionAddress C addr =
     (let lower = toLowerCase addr
      in if length lower < 5 \<or> drop (length lower - 5) lower \<noteq> ONION_ADDR_SUFFIX then None
         else
           let body = take (length lower - 5) lower
           in if length body \<noteq> ONION_ADDR_CHARS then None
              else
                (case base32decode body of
                   None \<Rightarrow> None
                 | Some bytes \<Rightarrow>
                     if length bytes \<noteq> ONION_ADDR_BYTES then None
                     else
                       let version = unat (bytes ! 34)
                       in if version \<noteq> ONION_VERSION \<and> version \<noteq> ONION_VERSION_PQ then None
                          else
                            let body32 = subarray bytes 0 32;
                                claimed = subarray bytes 32 34;
                                computed = computeChecksum C body32 version
                            in if claimed ! 0 \<noteq> computed ! 0 \<or> claimed ! 1 \<noteq> computed ! 1 then None
                               else if version = ONION_VERSION then Some (Svc_Pk body32)
                               else Some (Identity_Hash body32)))"

definition isOnionAddress :: "crypto \<Rightarrow> string \<Rightarrow> bool" where
  "isOnionAddress C addr \<longleftrightarrow> decodeOnionAddress C addr \<noteq> None"

definition verifyAddressBindsPubkeys :: "crypto \<Rightarrow> string \<Rightarrow> bytes \<Rightarrow> bytes \<Rightarrow> bool" where
  "verifyAddressBindsPubkeys C addr svcPkEd svcPkMldsa =
     (case decodeOnionAddress C addr of
        Some (Identity_Hash identityHash) \<Rightarrow>
          (let computed = computeIdentityHash C svcPkEd svcPkMldsa
           in if length computed \<noteq> length identityHash then False
              else list_all (\<lambda>i. computed ! i = identityHash ! i) [0..<length computed])
      | _ \<Rightarrow> False)"

section \<open>The table\<close>

lemma ALPHABET_INDEX_updates:
  "ALPHABET_INDEX = (replicate 128 (- 1))[97 := 0, 65 := 0, 98 := 1, 66 := 1, 99 := 2, 67 := 2, 100 := 3, 68 := 3,
     101 := 4, 69 := 4, 102 := 5, 70 := 5, 103 := 6, 71 := 6, 104 := 7, 72 := 7,
     105 := 8, 73 := 8, 106 := 9, 74 := 9, 107 := 10, 75 := 10, 108 := 11, 76 := 11,
     109 := 12, 77 := 12, 110 := 13, 78 := 13, 111 := 14, 79 := 14, 112 := 15, 80 := 15,
     113 := 16, 81 := 16, 114 := 17, 82 := 17, 115 := 18, 83 := 18, 116 := 19, 84 := 19,
     117 := 20, 85 := 20, 118 := 21, 86 := 21, 119 := 22, 87 := 22, 120 := 23, 88 := 23,
     121 := 24, 89 := 24, 122 := 25, 90 := 25, 50 := 26, 18 := 26, 51 := 27, 19 := 27,
     52 := 28, 20 := 28, 53 := 29, 21 := 29, 54 := 30, 22 := 30, 55 := 31, 23 := 31]"
  by (simp add: ALPHABET_INDEX_def ALPHABET_def char_code_def upt_rec)

lemma length_ALPHABET [simp]: "length ALPHABET = 32"
  by (simp add: ALPHABET_def)

lemma length_ALPHABET_INDEX: "length ALPHABET_INDEX = 128"
  by (simp add: ALPHABET_INDEX_updates)

lemma index_of_alphabet: "i < 32 \<Longrightarrow> symbol_index (ALPHABET ! i) = int i"
proof -
  have "list_all (\<lambda>i. symbol_index (ALPHABET ! i) = int i) [0..<32]"
    by (simp add: symbol_index_def ALPHABET_def ALPHABET_INDEX_updates char_code_def upt_rec)
  then show "i < 32 \<Longrightarrow> symbol_index (ALPHABET ! i) = int i" by (simp add: list_all_iff)
qed

lemma symbol_index_range: "symbol_index c < 32"
proof -
  have "\<forall>x\<in>set (fold (\<lambda>i t. let t = t[f i := int i] in t[g i := int i]) is t). x < 32"
    if "\<forall>x\<in>set t. x < 32" "\<forall>i\<in>set is. i < 32" for f g :: "nat \<Rightarrow> nat" and "is" t
    using that
  proof (induction "is" arbitrary: t)
    case (Cons i js)
    have "\<forall>x\<in>set (t[f i := int i, g i := int i]). x < 32"
      using Cons.prems set_update_subset_insert [of t "f i" "int i"] set_update_subset_insert [of "t[f i := int i]" "g i" "int i"]
      by fastforce
    then show ?case using Cons by (simp add: Let_def)
  qed simp
  from this [of "replicate 128 (- 1)" "[0..<length ALPHABET]" "\<lambda>i. char_code (ALPHABET ! i)"
      "\<lambda>i. nat (int (char_code (ALPHABET ! i)) AND NOT 0x20)"]
  have "\<forall>x\<in>set ALPHABET_INDEX. x < 32" by (simp add: ALPHABET_INDEX_def)
  then show ?thesis using length_ALPHABET_INDEX by (simp add: symbol_index_def Let_def)
qed

end
