(* ===== verification/V2_Onion_Address_Props.thy ===== *)
theory V2_Onion_Address_Props
  imports V2_Onion_Address
begin

text \<open>
  What .anon addresses guarantee. Base32 is read as arithmetic: a string is a number to the base 32,
  a byte string a number to the base 256, and the two loops keep the number while its low bits wait
  in the buffer. So decoding inverts encoding, and an address decodes only to what it encodes.
\<close>

section \<open>The bit buffer\<close>

lemma unat_shift_in:
  fixes w y :: "32 word"
  assumes "k \<le> 32" "unat y < 2 ^ k"
  shows "unat (push_bit k w OR y) = (unat w mod 2 ^ (32 - k)) * 2 ^ k + unat y"
proof -
  have lt: "bit y n \<Longrightarrow> n < k" for n
  proof (rule ccontr)
    assume b: "bit y n" and "\<not> n < k"
    then have "unat y div 2 ^ n = 0" using assms(2)
      by (metis div_less less_le_trans linorder_not_less one_le_numeral power_increasing)
    moreover have "odd (unat y div 2 ^ n)" using b by (simp add: bit_unsigned_iff bit_iff_odd [symmetric] possible_bit_word bit_imp_le_length)
    ultimately show False by simp
  qed
  have e: "(2 :: nat) ^ 32 = 2 ^ (32 - k) * 2 ^ k" using assms(1) by (simp flip: power_add)
  have "push_bit k w AND y = 0"
    by (rule bit_eqI) (auto simp: bit_simps dest: lt)
  then have "push_bit k w OR y = push_bit k w + y" by (simp add: disjunctive_add_eq_or)
  moreover have p: "unat (push_bit k w) = (unat w mod 2 ^ (32 - k)) * 2 ^ k"
  proof -
    have "unat (push_bit k w) = take_bit 32 (push_bit k (unat w))"
      by (rule bit_eqI) (auto simp: bit_simps dest: bit_imp_le_length)
    then have "unat (push_bit k w) = unat w * 2 ^ k mod 2 ^ 32" by (simp only: take_bit_eq_mod push_bit_eq_mult)
    then show ?thesis unfolding e by (simp only: mult_mod_left)
  qed
  moreover have "(unat w mod 2 ^ (32 - k)) * 2 ^ k + unat y < 2 ^ 32"
  proof -
    have "(unat w mod 2 ^ (32 - k)) * 2 ^ k + unat y < (unat w mod 2 ^ (32 - k) + 1) * 2 ^ k" using assms(2) by simp
    also have "\<dots> \<le> 2 ^ (32 - k) * 2 ^ k" by (intro mult_le_mono1) (simp add: Suc_leI)
    finally show ?thesis unfolding e .
  qed
  ultimately show ?thesis by (simp add: unat_word_ariths)
qed

text \<open>What the buffer holds in its low \<open>b\<close> bits.\<close>

definition pending :: "32 word \<Rightarrow> nat \<Rightarrow> nat" where
  "pending buffer b = unat buffer mod 2 ^ b"

lemma pending_0 [simp]: "pending buffer 0 = 0"
  by (simp add: pending_def)

lemma pending_less: "pending buffer b < 2 ^ b"
  by (simp add: pending_def)

lemma pending_shift:
  assumes "b + k \<le> 32" "unat y < 2 ^ k"
  shows "pending (push_bit k w OR y) (b + k) = pending w b * 2 ^ k + unat y"
proof -
  let ?u = "unat w mod 2 ^ (32 - k)"
  have "(?u * 2 ^ k + unat y) mod (2 ^ k * 2 ^ b)
      = 2 ^ k * ((?u * 2 ^ k + unat y) div 2 ^ k mod 2 ^ b) + (?u * 2 ^ k + unat y) mod 2 ^ k"
    by (rule mod_mult2_eq)
  also have "\<dots> = 2 ^ k * (?u mod 2 ^ b) + unat y" using assms(2) by simp
  also have "?u mod 2 ^ b = unat w mod 2 ^ b"
    using assms(1) by (intro mod_mod_cancel) (simp add: le_imp_power_dvd)
  finally show ?thesis
    using unat_shift_in [of k y w] assms by (simp add: pending_def power_add mult.commute)
qed

lemma unat_and_mask: "unat ((w :: 32 word) AND mask k) = unat w mod 2 ^ k"
proof -
  have "unat (w AND mask k) = take_bit k (unat w)" by (rule bit_eqI) (auto simp: bit_simps dest: bit_imp_le_length)
  then show ?thesis by (simp only: take_bit_eq_mod)
qed

lemma pending_split:
  "pending w (b + k) = (unat (drop_bit b w) mod 2 ^ k) * 2 ^ b + pending w b"
proof -
  have lt: "bit w n \<Longrightarrow> n < 32" for n using bit_imp_le_length [of w n] by simp
  have "unat (drop_bit b w) = drop_bit b (unat w)" by (rule bit_eqI) (auto simp: bit_simps intro: lt)
  then have "unat (drop_bit b w) = unat w div 2 ^ b" by (simp only: drop_bit_eq_div)
  then show ?thesis
    using mod_mult2_eq [of "unat w" "2 ^ b" "2 ^ k"] by (simp add: pending_def power_add mult.commute)
qed

section \<open>The loops keep the number\<close>

definition sym_val :: "string \<Rightarrow> nat" where
  "sym_val s = foldl (\<lambda>n c. n * 32 + nat (symbol_index c)) 0 s"

lemma sym_val_Nil [simp]: "sym_val [] = 0"
  by (simp add: sym_val_def)

lemma sym_val_snoc [simp]: "sym_val (s @ [c]) = sym_val s * 32 + nat (symbol_index c)"
  by (simp add: sym_val_def)

lemma sym_val_alphabet: "i < 32 \<Longrightarrow> sym_val (s @ [ALPHABET ! i]) = sym_val s * 32 + i"
  by (simp add: index_of_alphabet)

lemma sym_val_Cons: "sym_val (c # s) = nat (symbol_index c) * 32 ^ length s + sym_val s"
proof (induction s rule: rev_induct)
  case Nil
  then show ?case by (simp add: sym_val_def)
next
  case (snoc d s)
  have "sym_val (c # s @ [d]) = sym_val (c # s) * 32 + nat (symbol_index d)" using sym_val_snoc [of "c # s" d] by simp
  then show ?case using snoc by simp
qed

lemma mask_31: "(0x1F :: 32 word) = mask 5"
  by (simp add: mask_eq_exp_minus_1)

lemma mask_255: "(0xFF :: 32 word) = mask 8"
  by (simp add: mask_eq_exp_minus_1)

lemma emit_symbols_inv:
  "emit_symbols w b out = (b', out') \<Longrightarrow>
   b' < 5 \<and> 5 * length out' + b' = 5 * length out + b \<and> set out' \<subseteq> set out \<union> set ALPHABET
   \<and> sym_val out' * 2 ^ b' + pending w b' = sym_val out * 2 ^ b + pending w b"
proof (induction w b out rule: emit_symbols.induct)
  case (1 w b out)
  show ?case
  proof (cases "b \<ge> 5")
    case False
    then show ?thesis using "1.prems" by (simp add: emit_symbols.simps)
  next
    case True
    let ?s = "unat (drop_bit (b - 5) w AND 0x1F)"
    have s: "?s = unat (drop_bit (b - 5) w) mod 2 ^ 5" unfolding mask_31 by (rule unat_and_mask)
    have s32: "?s < 32" using s by simp
    have e: "emit_symbols w (b - 5) (out @ [ALPHABET ! ?s]) = (b', out')"
      using "1.prems" True by (simp add: emit_symbols.simps [of w b] Let_def)
    have ih: "b' < 5 \<and> 5 * length out' + b' = 5 * length (out @ [ALPHABET ! ?s]) + (b - 5)
      \<and> set out' \<subseteq> set (out @ [ALPHABET ! ?s]) \<union> set ALPHABET
      \<and> sym_val out' * 2 ^ b' + pending w b' = sym_val (out @ [ALPHABET ! ?s]) * 2 ^ (b - 5) + pending w (b - 5)"
      using "1.IH" [OF True refl e] .
    have p: "pending w b = ?s * 2 ^ (b - 5) + pending w (b - 5)"
      using pending_split [of w "b - 5" 5] True s by simp
    have "(2 :: nat) ^ b = 32 * 2 ^ (b - 5)" using True power_add [of "2 :: nat" 5 "b - 5"] by simp
    then have "sym_val (out @ [ALPHABET ! ?s]) * 2 ^ (b - 5) + pending w (b - 5) = sym_val out * 2 ^ b + pending w b"
      using s32 by (simp only: sym_val_alphabet p) (simp add: algebra_simps)
    moreover have "ALPHABET ! ?s \<in> set ALPHABET" using s32 by simp
    ultimately show ?thesis using ih True by auto
  qed
qed

lemma unat_ucast_byte: "unat (ucast (b :: byte) :: 32 word) = unat b"
  using unat_byte_bound [of b] by (simp add: unsigned_ucast_eq take_bit_eq_mod)

lemma encode_loop_inv:
  "encode_loop bs w b out = (w', b', out') \<Longrightarrow> b < 5 \<Longrightarrow>
   b' < 5 \<and> 5 * length out' + b' = 5 * length out + b + 8 * length bs \<and> set out' \<subseteq> set out \<union> set ALPHABET
   \<and> sym_val out' * 2 ^ b' + pending w' b' = (sym_val out * 2 ^ b + pending w b) * 256 ^ length bs + be_val bs"
proof (induction bs arbitrary: w b out)
  case Nil
  then show ?case by simp
next
  case (Cons x bs)
  let ?w = "push_bit 8 w OR ucast x"
  obtain b1 out1 where e: "emit_symbols ?w (b + 8) out = (b1, out1)" by fastforce
  have l: "encode_loop bs ?w b1 out1 = (w', b', out')" using Cons.prems(1) e by simp
  note i = emit_symbols_inv [OF e]
  have ih: "b' < 5 \<and> 5 * length out' + b' = 5 * length out1 + b1 + 8 * length bs \<and> set out' \<subseteq> set out1 \<union> set ALPHABET
   \<and> sym_val out' * 2 ^ b' + pending w' b' = (sym_val out1 * 2 ^ b1 + pending ?w b1) * 256 ^ length bs + be_val bs"
    using Cons.IH [OF l] i by simp
  have "pending ?w (b + 8) = pending w b * 256 + unat x"
    using pending_shift [of b 8 "ucast x :: 32 word" w] Cons.prems(2) unat_byte_bound [of x] by (simp add: unat_ucast_byte)
  then have "sym_val out1 * 2 ^ b1 + pending ?w b1 = (sym_val out * 2 ^ b + pending w b) * 256 + unat x"
    using i by (simp add: power_add algebra_simps)
  then show ?case using ih i by (auto simp: be_val_Cons algebra_simps)
qed

lemma decode_loop_inv:
  "decode_loop s w b out = Some (w', b', out') \<Longrightarrow> b < 8 \<Longrightarrow>
   b' < 8 \<and> 8 * length out' + b' = 8 * length out + b + 5 * length s
   \<and> be_val out' * 2 ^ b' + pending w' b'
      = (be_val out * 2 ^ b + pending w b) * 32 ^ length s + sym_val s
   \<and> list_all (\<lambda>c. 0 \<le> symbol_index c) s"
proof (induction s arbitrary: w b out)
  case Nil
  then show ?case by simp
next
  case (Cons c s)
  let ?i = "symbol_index c"
  let ?w = "push_bit 5 w OR word_of_int ?i :: 32 word"
  have i: "0 \<le> ?i" "?i < 32" using Cons.prems(1) symbol_index_range [of c] by (auto simp: Let_def split: if_splits)
  have u: "unat (word_of_int ?i :: 32 word) = nat ?i"
  proof -
    have "(word_of_int ?i :: 32 word) = word_of_nat (nat ?i)" using i by simp
    then show ?thesis using i by (simp only: unat_of_nat) simp
  qed
  have p: "pending ?w (b + 5) = pending w b * 32 + nat ?i"
    using pending_shift [of b 5 "word_of_int ?i :: 32 word" w] Cons.prems(2) i u by simp
  note sv = sym_val_Cons [of c s]
  show ?case
  proof (cases "b + 5 \<ge> 8")
    case False
    then have "decode_loop s ?w (b + 5) out = Some (w', b', out')" using Cons.prems(1) i by (simp add: Let_def)
    then show ?thesis using Cons.IH [of ?w "b + 5" out] False i p by (auto simp: sv power_add algebra_simps)
  next
    case True
    let ?b = "b + 5 - 8"
    let ?o = "ucast (drop_bit ?b ?w AND 0xFF) :: byte"
    have l: "decode_loop s ?w ?b (out @ [?o]) = Some (w', b', out')" using Cons.prems(1) i True by (simp add: Let_def)
    have o: "unat ?o = unat (drop_bit ?b ?w) mod 2 ^ 8"
      unfolding mask_255 by (simp add: unsigned_ucast_eq take_bit_eq_mod unat_and_mask)
    have b8: "?b + 8 = b + 5" and b3: "?b < 8" using True Cons.prems(2) by simp_all
    have "pending ?w (b + 5) = unat ?o * 2 ^ ?b + pending ?w ?b" using pending_split [of ?w ?b 8] o unfolding b8 by simp
    moreover have "(2 :: nat) ^ (b + 5) = 256 * 2 ^ ?b" using power_add [of "2 :: nat" ?b 8] unfolding b8 by simp
    ultimately have step: "be_val (out @ [?o]) * 2 ^ ?b + pending ?w ?b = be_val out * 2 ^ (b + 5) + (pending w b * 32 + nat ?i)"
      using p by (simp only: be_val_snoc add_mult_distrib mult.assoc add.assoc)
    have "be_val out' * 2 ^ b' + pending w' b' = (be_val out * 2 ^ (b + 5) + (pending w b * 32 + nat ?i)) * 32 ^ length s + sym_val s"
      using Cons.IH [OF l] b3 unfolding step by simp
    then have "be_val out' * 2 ^ b' + pending w' b' = (be_val out * 2 ^ b + pending w b) * 32 ^ length (c # s) + sym_val (c # s)"
      by (simp add: sv power_add algebra_simps)
    then show ?thesis using Cons.IH [OF l] b3 b8 i by simp
  qed
qed

section \<open>Base32\<close>

lemma digits:
  fixes a b x y :: nat
  shows "8 * a + x = 8 * b + y \<Longrightarrow> x < 8 \<Longrightarrow> y < 8 \<Longrightarrow> a = b \<and> x = y"
    and "a * 32 + x = b * 32 + y \<Longrightarrow> x < 32 \<Longrightarrow> y < 32 \<Longrightarrow> a = b \<and> x = y"
    and "5 * a = c + x \<Longrightarrow> 5 * b = c + y \<Longrightarrow> x < 5 \<Longrightarrow> y < 5 \<Longrightarrow> a = b \<and> x = y"
  by presburger+

lemma base32encode_spec:
  "5 * length (base32encode bs) = 8 * length bs + (5 * length (base32encode bs) - 8 * length bs)
   \<and> 5 * length (base32encode bs) - 8 * length bs < 5
   \<and> sym_val (base32encode bs) = be_val bs * 2 ^ (5 * length (base32encode bs) - 8 * length bs)
   \<and> set (base32encode bs) \<subseteq> set ALPHABET"
proof -
  obtain w b out where e: "encode_loop bs 0 0 [] = (w, b, out)" by (metis prod_cases3)
  have i: "b < 5" "5 * length out + b = 8 * length bs" "set out \<subseteq> set ALPHABET"
    "sym_val out * 2 ^ b + pending w b = be_val bs"
    using encode_loop_inv [OF e] by simp_all
  show ?thesis
  proof (cases "b = 0")
    case True
    then show ?thesis using e i by (simp add: base32encode_def)
  next
    case False
    let ?s = "unat (push_bit (5 - b) w AND 0x1F)"
    have "push_bit (5 - b) w OR 0 = push_bit (5 - b) w" by simp
    then have "pending (push_bit (5 - b) w) 5 = pending w b * 2 ^ (5 - b)"
      using pending_shift [of b "5 - b" 0 w] i(1) by simp
    then have s: "?s = pending w b * 2 ^ (5 - b)" unfolding mask_31 by (simp add: unat_and_mask pending_def)
    have lt: "?s < 32" unfolding mask_31 by (simp add: unat_and_mask)
    have r: "base32encode bs = out @ [ALPHABET ! ?s]" using e False by (simp add: base32encode_def)
    have p: "5 * length (base32encode bs) - 8 * length bs = 5 - b" using i(1,2) r by simp
    have "sym_val (base32encode bs) = sym_val out * 32 + pending w b * 2 ^ (5 - b)"
      unfolding r sym_val_alphabet [OF lt] by (simp only: s)
    also have "(32 :: nat) = 2 ^ b * 2 ^ (5 - b)" using i(1) power_add [of "2 :: nat" b "5 - b"] by simp
    finally have "sym_val (base32encode bs) = be_val bs * 2 ^ (5 - b)"
      unfolding i(4) [symmetric] by (simp add: algebra_simps)
    moreover have "ALPHABET ! ?s \<in> set ALPHABET" using lt by simp
    ultimately show ?thesis using i False p r by auto
  qed
qed

lemma base32decode_spec:
  assumes "base32decode s = Some bs"
  shows "length bs = 5 * length s div 8 \<and> sym_val s = be_val bs * 2 ^ (5 * length s mod 8)
    \<and> list_all (\<lambda>c. 0 \<le> symbol_index c) s"
proof -
  obtain w b where d: "decode_loop s 0 0 [] = Some (w, b, bs)" and z: "b = 0 \<or> w AND (push_bit b 1 - 1) = 0"
    using assms by (auto simp: base32decode_def split: option.splits if_splits)
  have i: "b < 8" "8 * length bs + b = 5 * length s" "be_val bs * 2 ^ b + pending w b = sym_val s"
    "list_all (\<lambda>c. 0 \<le> symbol_index c) s"
    using decode_loop_inv [OF d] by simp_all
  have "w AND (push_bit b 1 - 1) = w AND mask b" by (simp add: mask_eq_exp_minus_1 push_bit_eq_mult)
  then have "pending w b = 0" using z unat_and_mask [of w b] by (auto simp: pending_def)
  moreover have "5 * length s = b + length bs * 8" using i(2) by simp
  then have "length bs = 5 * length s div 8 \<and> b = 5 * length s mod 8" using i(1) by simp
  ultimately show ?thesis using i by simp
qed

lemma decode_loop_total:
  "list_all (\<lambda>c. 0 \<le> symbol_index c) s \<Longrightarrow> \<exists>r. decode_loop s w b out = Some r"
  by (induction s arbitrary: w b out) (simp_all add: Let_def not_less)

lemma alphabet_index: "c \<in> set ALPHABET \<Longrightarrow> 0 \<le> symbol_index c \<and> ALPHABET ! nat (symbol_index c) = c"
  by (metis in_set_conv_nth index_of_alphabet length_ALPHABET nat_int of_nat_0_le_iff)

text \<open>Over the alphabet a string of a given length is its number.\<close>

lemma sym_val_inj:
  "length s = length t \<Longrightarrow> set s \<subseteq> set ALPHABET \<Longrightarrow> set t \<subseteq> set ALPHABET \<Longrightarrow> sym_val s = sym_val t \<Longrightarrow> s = t"
proof (induction s t rule: rev_induct2)
  case (4 x xs y ys)
  have "nat (symbol_index x) < 32" "nat (symbol_index y) < 32"
    using symbol_index_range [of x] symbol_index_range [of y] by auto
  then have e: "nat (symbol_index x) = nat (symbol_index y)" "sym_val xs = sym_val ys"
    using digits(2) [of "sym_val xs" "nat (symbol_index x)" "sym_val ys" "nat (symbol_index y)"] "4.prems"(4) by simp_all
  have "x \<in> set ALPHABET" "y \<in> set ALPHABET" using "4.prems"(2,3) by simp_all
  then have "x = y" using alphabet_index e(1) by metis
  moreover have "xs = ys" using "4.prems"(1-3) e(2) by (intro "4.IH") simp_all
  ultimately show ?case by simp
qed simp_all

lemma base32_roundtrip: "base32decode (base32encode bs) = Some bs"
proof -
  let ?s = "base32encode bs"
  let ?p = "5 * length ?s - 8 * length bs"
  note e = base32encode_spec [of bs]
  have ok: "list_all (\<lambda>c. 0 \<le> symbol_index c) ?s" using e alphabet_index by (auto simp: list_all_iff)
  obtain w b out where d: "decode_loop ?s 0 0 [] = Some (w, b, out)"
    using decode_loop_total [OF ok] by (metis prod_cases3)
  have i: "b < 8" "8 * length out + b = 5 * length ?s" "be_val out * 2 ^ b + pending w b = sym_val ?s"
    using decode_loop_inv [OF d] by simp_all
  have "8 * length out + b = 8 * length bs + ?p" "?p < 5" using e i(2) by simp_all
  then have l: "length out = length bs" "b = ?p" using i(1) digits(1) [of "length out" b "length bs" ?p] by auto
  have n: "be_val out * 2 ^ b + pending w b = be_val bs * 2 ^ b" using i(3) e l(2) by simp
  have "(be_val out * 2 ^ b + pending w b) div 2 ^ b = be_val out" using pending_less [of w b] by simp
  then have "be_val out = be_val bs" using n by simp
  then have out: "out = bs" "pending w b = 0" using l(1) be_val_inj n by auto
  have "w AND (push_bit b 1 - 1) = w AND mask b" by (simp add: mask_eq_exp_minus_1 push_bit_eq_mult)
  moreover have "w AND mask b = 0"
    using out(2) unat_and_mask [of w b] by (simp add: pending_def unat_eq_0)
  ultimately show ?thesis using d out by (simp add: base32decode_def)
qed

lemma base32_canonical:
  assumes "base32decode s = Some bs" "set s \<subseteq> set ALPHABET" "5 * length s mod 8 < 5"
  shows "s = base32encode bs"
proof (rule sym_val_inj)
  note d = base32decode_spec [OF assms(1)] and e = base32encode_spec [of bs]
  have "5 * length s = 8 * length bs + 5 * length s mod 8" using d by (simp add: mult_div_mod_eq)
  then show "length s = length (base32encode bs)" using e assms(3) digits(3) [of "length s" "8 * length bs"] by blast
  then have "5 * length (base32encode bs) - 8 * length bs = 5 * length s mod 8"
    using \<open>5 * length s = 8 * length bs + _\<close> by simp
  then show "sym_val s = sym_val (base32encode bs)" using d e by metis
qed (use assms(2) base32encode_spec in auto)

section \<open>Addresses\<close>

lemma length_computeChecksum: "hash_ok C \<Longrightarrow> length (computeChecksum C b v) = 2"
  by (simp add: computeChecksum_def hash_ok_def Let_def)

lemma address_layout:
  assumes "hash_ok C" "length b = 32"
  shows "address_of C b v = base32encode (b @ computeChecksum C b v @ [u8 v]) @ ''.anon''"
  using assms length_computeChecksum [of C b v] by (simp add: address_of_def Let_def layout)

lemma lower_alphabet: "c \<in> set ALPHABET \<Longrightarrow> lower_char c = c"
  by (auto simp: ALPHABET_def lower_char_def char_code_def)

lemma length_base32_address: "length bs = 35 \<Longrightarrow> length (base32encode bs) = 56"
  using base32encode_spec [of bs] by simp

lemma lower_address:
  "length bs = 35 \<Longrightarrow> toLowerCase (base32encode bs @ ''.anon'') = base32encode bs @ ''.anon''"
  using base32encode_spec [of bs] lower_alphabet
  by (auto simp: toLowerCase_def lower_char_def char_code_def intro!: map_idI)

definition id_of :: "nat \<Rightarrow> bytes \<Rightarrow> onion_id" where
  "id_of v b = (if v = 2 then Svc_Pk b else Identity_Hash b)"

lemma decode_address:
  assumes "hash_ok C" "length b = 32" "v = 2 \<or> v = 3"
  shows "decodeOnionAddress C (address_of C b v) = Some (id_of v b)"
proof -
  let ?bs = "b @ computeChecksum C b v @ [u8 v]"
  have lc: "length (computeChecksum C b v) = 2" using length_computeChecksum [OF assms(1)] .
  have l: "length ?bs = 35" using assms(2) lc by simp
  have f: "subarray ?bs 0 32 = b" "subarray ?bs 32 34 = computeChecksum C b v" "unat (?bs ! 34) = v"
    using assms(2,3) lc by (auto simp: layout unat_u8)
  show ?thesis
    unfolding address_layout [OF assms(1,2)]
    using lower_address [OF l] length_base32_address [OF l] base32_roundtrip [of ?bs] l f assms(3)
    by (auto simp: decodeOnionAddress_def Let_def id_of_def)
qed

lemma two_bytes: "length xs = 2 \<Longrightarrow> length ys = 2 \<Longrightarrow> xs ! 0 = ys ! 0 \<Longrightarrow> xs ! 1 = ys ! 1 \<Longrightarrow> xs = ys"
  by (rule nth_equalityI) (auto simp: less_2_cases_iff)

lemma decode_steps:
  assumes "decodeOnionAddress C addr = Some d"
  obtains bs where "5 \<le> length (toLowerCase addr)"
    "drop (length (toLowerCase addr) - 5) (toLowerCase addr) = ''.anon''"
    "length (take (length (toLowerCase addr) - 5) (toLowerCase addr)) = 56"
    "base32decode (take (length (toLowerCase addr) - 5) (toLowerCase addr)) = Some bs" "length bs = 35"
    "unat (bs ! 34) = 2 \<or> unat (bs ! 34) = 3"
    "subarray bs 32 34 ! 0 = computeChecksum C (subarray bs 0 32) (unat (bs ! 34)) ! 0"
    "subarray bs 32 34 ! 1 = computeChecksum C (subarray bs 0 32) (unat (bs ! 34)) ! 1"
    "d = id_of (unat (bs ! 34)) (subarray bs 0 32)"
proof -
  define l where "l = toLowerCase addr"
  define body where "body = take (length l - 5) l"
  have n: "5 \<le> length l" "drop (length l - 5) l = ''.anon''" "length body = 56"
    using assms unfolding decodeOnionAddress_def Let_def l_def [symmetric] body_def [symmetric]
    by (simp_all only: ONION_ADDR_SUFFIX_def ONION_ADDR_CHARS_def not_less [symmetric] split: if_splits) simp_all
  obtain bs where bs: "base32decode body = Some bs"
    using assms n unfolding decodeOnionAddress_def Let_def l_def [symmetric] body_def [symmetric]
    by (cases "base32decode body") simp_all
  have "(if length bs \<noteq> 35 then None
      else if unat (bs ! 34) \<noteq> 2 \<and> unat (bs ! 34) \<noteq> 3 then None
      else if subarray bs 32 34 ! 0 \<noteq> computeChecksum C (subarray bs 0 32) (unat (bs ! 34)) ! 0
        \<or> subarray bs 32 34 ! 1 \<noteq> computeChecksum C (subarray bs 0 32) (unat (bs ! 34)) ! 1 then None
      else if unat (bs ! 34) = 2 then Some (Svc_Pk (subarray bs 0 32)) else Some (Identity_Hash (subarray bs 0 32))) = Some d"
    using assms n bs unfolding decodeOnionAddress_def Let_def l_def [symmetric] body_def [symmetric]
    by (simp only: ONION_ADDR_SUFFIX_def ONION_ADDR_CHARS_def ONION_ADDR_BYTES_def ONION_VERSION_def ONION_VERSION_PQ_def
        option.case not_less [symmetric] if_False simp_thms)
  then have "length bs = 35" "unat (bs ! 34) = 2 \<or> unat (bs ! 34) = 3"
    "subarray bs 32 34 ! 0 = computeChecksum C (subarray bs 0 32) (unat (bs ! 34)) ! 0"
    "subarray bs 32 34 ! 1 = computeChecksum C (subarray bs 0 32) (unat (bs ! 34)) ! 1"
    "d = id_of (unat (bs ! 34)) (subarray bs 0 32)"
    by (simp_all add: id_of_def split: if_splits)
  with n bs that [of bs] show ?thesis unfolding l_def body_def by blast
qed

lemma decode_canonical:
  assumes "hash_ok C" "decodeOnionAddress C addr = Some d" "set (take 56 (toLowerCase addr)) \<subseteq> set ALPHABET"
  shows "\<exists>v b. (v = 2 \<or> v = 3) \<and> length b = 32 \<and> d = id_of v b \<and> toLowerCase addr = address_of C b v"
proof -
  let ?l = "toLowerCase addr"
  let ?body = "take (length ?l - 5) ?l"
  obtain bs where n: "5 \<le> length ?l" "drop (length ?l - 5) ?l = ''.anon''" "length ?body = 56"
    and bs: "base32decode ?body = Some bs" "length bs = 35"
    and v: "unat (bs ! 34) = 2 \<or> unat (bs ! 34) = 3"
    and c: "subarray bs 32 34 ! 0 = computeChecksum C (subarray bs 0 32) (unat (bs ! 34)) ! 0"
      "subarray bs 32 34 ! 1 = computeChecksum C (subarray bs 0 32) (unat (bs ! 34)) ! 1"
    and d: "d = id_of (unat (bs ! 34)) (subarray bs 0 32)"
    by (rule decode_steps [OF assms(2)])
  have b: "length (subarray bs 0 32) = 32" using bs(2) by simp
  have k: "computeChecksum C (subarray bs 0 32) (unat (bs ! 34)) = subarray bs 32 34"
    by (rule two_bytes) (use c bs(2) length_computeChecksum [OF assms(1)] in simp_all)
  have j: "subarray bs 0 32 @ subarray bs 32 34 @ subarray bs 34 35 = bs"
    using bs(2) by (simp add: subarray_join subarray_all)
  have z: "[u8 (unat (bs ! 34))] = subarray bs 34 35" by (simp add: subarray_byte bs(2))
  have e: "subarray bs 0 32 @ computeChecksum C (subarray bs 0 32) (unat (bs ! 34)) @ [u8 (unat (bs ! 34))] = bs"
    by (simp only: k z j)
  have "length ?l - 5 = 56" using n by simp
  then have "?body = base32encode bs" using base32_canonical [OF bs(1)] assms(3) n(3) by simp
  moreover have "?l = ?body @ ''.anon''" using n(2) by (metis append_take_drop_id)
  ultimately have "?l = address_of C (subarray bs 0 32) (unat (bs ! 34))"
    by (simp only: address_layout [OF assms(1) b] e)
  then show ?thesis using v b d by blast
qed

section \<open>Properties\<close>

text \<open>Addresses round trip: a version-2 address decodes to the service key, a version-3 address to the hash
  of the two keys, which the address is then verified to bind; both have 61 characters.\<close>

theorem onion_address_roundtrip:
  assumes "hash_ok C"
  shows "(case encodeOnionAddress C pk of
       Inl e \<Rightarrow> length pk \<noteq> 32
     | Inr a \<Rightarrow> length a = 61 \<and> decodeOnionAddress C a = Some (Svc_Pk pk))
   \<and> (case encodeOnionAddressV3 C ed ml of
       Inl e \<Rightarrow> length ed \<noteq> 32 \<or> length ml \<noteq> 1952
     | Inr a \<Rightarrow> length a = 61 \<and> decodeOnionAddress C a = Some (Identity_Hash (computeIdentityHash C ed ml))
         \<and> verifyAddressBindsPubkeys C a ed ml)"
proof -
  have l: "length (address_of C b v) = 61" if "length b = 32" for b v
    using address_layout [OF assms that] length_base32_address [of "b @ computeChecksum C b v @ [u8 v]"] that
      length_computeChecksum [OF assms] by simp
  have h: "length (computeIdentityHash C ed ml) = 32" using assms by (simp add: computeIdentityHash_def hash_ok_def Let_def)
  show ?thesis
    using decode_address [OF assms, of pk 2] decode_address [OF assms h, of 3] l h
    by (auto simp: encodeOnionAddress_def encodeOnionAddressV3_def id_of_def verifyAddressBindsPubkeys_def list_all_iff)
qed

text \<open>C31. Addresses are canonical: a string over the alphabet (after lower-casing) that decodes is, lower-cased,
  the address that the encoder makes of what it decodes to. So no two addresses name one service.\<close>

theorem onion_address_canonical:
  assumes "hash_ok C" "decodeOnionAddress C addr = Some d" "set (take 56 (toLowerCase addr)) \<subseteq> set ALPHABET"
  shows "\<exists>v b. (v = 2 \<or> v = 3) \<and> length b = 32 \<and> d = id_of v b \<and> toLowerCase addr = address_of C b v"
  using assms by (rule decode_canonical)

theorem onion_address_roundtrip_witness:
  "\<exists>a. encodeOnionAddress toy_crypto (zeros 32) = Inr a \<and> decodeOnionAddress toy_crypto a = Some (Svc_Pk (zeros 32))"
  using onion_address_roundtrip [OF toy_hash_ok, of "zeros 32" "[]" "[]"] by (auto simp: encodeOnionAddress_def)

theorem onion_address_canonical_witness:
  "\<exists>v b. (v = 2 \<or> v = 3) \<and> Svc_Pk (zeros 32) = id_of v b \<and> address_of toy_crypto (zeros 32) 2 = address_of toy_crypto b v"
proof -
  let ?bs = "zeros 32 @ computeChecksum toy_crypto (zeros 32) 2 @ [u8 2]"
  have l: "length ?bs = 35" using length_computeChecksum [OF toy_hash_ok] by simp
  have a: "address_of toy_crypto (zeros 32) 2 = base32encode ?bs @ ''.anon''"
    using address_layout [OF toy_hash_ok] by simp
  have d: "decodeOnionAddress toy_crypto (address_of toy_crypto (zeros 32) 2) = Some (Svc_Pk (zeros 32))"
    using decode_address [OF toy_hash_ok, of "zeros 32" 2] by (simp add: id_of_def)
  have "set (take 56 (toLowerCase (address_of toy_crypto (zeros 32) 2))) \<subseteq> set ALPHABET"
    using lower_address [OF l] length_base32_address [OF l] base32encode_spec [of ?bs] unfolding a by simp
  from onion_address_canonical [OF toy_hash_ok d this]
  have "\<exists>v b. (v = 2 \<or> v = 3) \<and> length b = 32 \<and> Svc_Pk (zeros 32) = id_of v b
      \<and> toLowerCase (address_of toy_crypto (zeros 32) 2) = address_of toy_crypto b v" .
  moreover have "toLowerCase (address_of toy_crypto (zeros 32) 2) = address_of toy_crypto (zeros 32) 2"
    unfolding a by (rule lower_address [OF l])
  ultimately show ?thesis by (simp only:) iprover
qed

text \<open>The reverse table has the digits a second time, under the control characters 0x12 to 0x17, where the
  clearing of the case bit sends them: the decoder takes them for \<open>2\<close> to \<open>7\<close>.\<close>

definition garble :: "char \<Rightarrow> char" where
  "garble c = (if c \<in> set ''234567'' then char_of (char_code c - 0x20) else c)"

lemma control_characters_decode: "base32decode (map garble s) = base32decode s"
proof -
  have "list_all (\<lambda>c. symbol_index (garble c) = symbol_index c) ''234567''"
    by (simp add: garble_def symbol_index_def char_code_def ALPHABET_INDEX_updates)
  then have "c \<in> set ''234567'' \<Longrightarrow> symbol_index (garble c) = symbol_index c" for c
    unfolding list_all_iff by (rule bspec)
  moreover have "c \<notin> set ''234567'' \<Longrightarrow> garble c = c" for c
    unfolding garble_def by (rule if_not_P)
  ultimately have "symbol_index (garble c) = symbol_index c" for c by metis
  then have "decode_loop (map garble s) w b out = decode_loop s w b out" for w b out
    by (induction s arbitrary: w b out) (simp_all add: Let_def)
  then show ?thesis by (simp add: base32decode_def)
qed

end
