(* ===== verification/V2_Dispatcher.thy ===== *)
theory V2_Dispatcher
  imports V2_Circuit Effects JsMap
begin

text \<open>
  \<open>modules/v2-runtime/circuit\_dispatcher.mjs\<close>: the circuits of a relay. A circuit object is shared (under
  its inbound and its outbound key, by pending dials, by splice partners), so objects live in a store
  and are referred to by their index. A link is its object identity with its \<open>peerFingerprintHex\<close>;
  the key \<open>fp:circuitId\<close> is the pair. The fields of an object are those of the code;
  \<open>extendNtorState\<close> and \<open>pendingExtend\<close> are never used there. Messages to the logger are left out.
  \<open>beginExtend\<close> awaits \<open>ensureLink\<close>: the part before it runs with the cell, the part after it is the
  operation \<open>extendDialled\<close>, and other cells may come in between. \<open>onExitData\<close> and \<open>peerResolver\<close> are
  arguments, as in the code.
\<close>

section \<open>State\<close>

record link =
  lnk_id :: nat
  lnk_peerFingerprintHex :: string

datatype role = Role_Pending | Role_Established | Role_Extending | Role_Destroyed

record circuit_obj =
  cir_inbound :: "link \<times> nat"
  cir_outbound :: "(link \<times> nat) option"
  cir_relayHop :: "relay_hop option"
  cir_role :: role
  cir_createReassembler :: "reassembler option"
  cir_createdReassembler :: "reassembler option"
  cir_spliceHandler :: "nat option"

record relay_state =
  rst_objs :: "circuit_obj list"
  rst_circuits :: "(string \<times> nat, nat) jsmap"
  rst_dials :: "(nat \<times> extend_payload) list"

record peer_info =
  pin_idPk :: bytes
  pin_host :: string
  pin_port :: nat

text \<open>What a relay does to the outside: cells, dials of links, TCP sockets of its exit streams, HTTP requests.\<close>

datatype relay_effect =
    Cell_To link bytes
  | Ensure_Link peer_info
  | Tcp_Connect nat string nat
  | Tcp_Write nat bytes
  | Tcp_End nat
  | Tcp_Destroy nat
  | Http_Get string

type_synonym ('a, 'x) relay_act = "('a, relay_effect, 'x relay_state_scheme) effectful"

definition keyOf :: "link \<Rightarrow> nat \<Rightarrow> string \<times> nat" where
  "keyOf l circuitId = (lnk_peerFingerprintHex l, circuitId)"

definition obj :: "'x relay_state_scheme \<Rightarrow> nat \<Rightarrow> circuit_obj" where
  "obj s ref = rst_objs s ! ref"

definition on_obj :: "nat \<Rightarrow> (circuit_obj \<Rightarrow> circuit_obj) \<Rightarrow> 'x relay_state_scheme \<Rightarrow> 'x relay_state_scheme" where
  "on_obj ref f s = s\<lparr>rst_objs := (rst_objs s)[ref := f (obj s ref)]\<rparr>"

definition unregister :: "link \<times> nat \<Rightarrow> 'x relay_state_scheme \<Rightarrow> 'x relay_state_scheme" where
  "unregister lc s = s\<lparr>rst_circuits := map_delete (keyOf (fst lc) (snd lc)) (rst_circuits s)\<rparr>"

text \<open>\<open>link.sendCell(buildCell({ ... }))\<close>.\<close>

definition sendCell :: "link \<times> nat \<Rightarrow> nat \<Rightarrow> bytes \<Rightarrow> 'x relay_state_scheme \<Rightarrow> (unit, 'x) relay_act" where
  "sendCell lc command payload s =
     (case buildCell WIRE_VERSION_V2 (int (snd lc)) command payload of
        Inl e \<Rightarrow> throw e s
      | Inr c \<Rightarrow> emit (Cell_To (fst lc) c) s)"

definition sendDestroy :: "link \<times> nat \<Rightarrow> 'x relay_state_scheme \<Rightarrow> (unit, 'x) relay_act" where
  "sendDestroy lc s = swallow (sendCell lc CMD_DESTROY (zeros LEN_CELL_PAYLOAD) s)"

text \<open>Reading a property of \<open>null\<close>.\<close>

definition null_error :: js_error where "null_error = TypeError ''Cannot read properties of null''"

section \<open>Teardown\<close>

definition destroyCircuit :: "nat \<Rightarrow> 'x relay_state_scheme \<Rightarrow> (unit, 'x) relay_act" where
  "destroyCircuit ref s =
     (let c = obj s ref
      in if cir_role c = Role_Destroyed then ret () s
         else
           let s = on_obj ref (\<lambda>c. c\<lparr>cir_role := Role_Destroyed\<rparr>) s
           in seq (sendDestroy (cir_inbound c) s) (\<lambda>_ s.
              let s = unregister (cir_inbound c) s
              in case cir_outbound c of
                   None \<Rightarrow> ret () s
                 | Some out \<Rightarrow> seq (sendDestroy out s) (\<lambda>_. update (unregister out))))"

definition onDestroy :: "link \<Rightarrow> cell \<Rightarrow> 'x relay_state_scheme \<Rightarrow> (unit, 'x) relay_act" where
  "onDestroy l parsed s =
     (case map_get (rst_circuits s) (keyOf l (cel_circuitId parsed)) of
        None \<Rightarrow> ret () s
      | Some ref \<Rightarrow>
          let c = obj s ref;
              otherSide = (if cir_inbound c = (l, cel_circuitId parsed) then cir_outbound c
                           else Some (cir_inbound c))
          in seq (case otherSide of None \<Rightarrow> ret () s | Some side \<Rightarrow> sendDestroy side s) (\<lambda>_ s.
             let s = on_obj ref (\<lambda>c. c\<lparr>cir_role := Role_Destroyed\<rparr>) s;
                 s = unregister (cir_inbound c) s
             in case cir_outbound c of None \<Rightarrow> ret () s | Some out \<Rightarrow> update (unregister out) s))"

section \<open>CREATE\<close>

definition new_circuit :: "link \<Rightarrow> nat \<Rightarrow> circuit_obj" where
  "new_circuit l circuitId =
     \<lparr>cir_inbound = (l, circuitId), cir_outbound = None, cir_relayHop = None, cir_role = Role_Pending,
      cir_createReassembler = Some defaultReassembler, cir_createdReassembler = None, cir_spliceHandler = None\<rparr>"

text \<open>The handshake of one cell, once the circuit of the cell is known.\<close>

definition create_step ::
  "crypto \<Rightarrow> draws \<Rightarrow> int \<Rightarrow> relay_identity \<Rightarrow> link \<Rightarrow> bytes \<Rightarrow> nat \<Rightarrow> 'x relay_state_scheme \<Rightarrow> (unit, 'x) relay_act" where
  "create_step C d now i l cellBytes ref s =
     (case cir_createReassembler (obj s ref) of
        None \<Rightarrow> throw null_error s
      | Some reasm \<Rightarrow>
          (case handleCreate C d now i cellBytes reasm of
             Inl e \<Rightarrow> throw e s
           | Inr (result, reasm) \<Rightarrow>
               let s = on_obj ref (\<lambda>c. c\<lparr>cir_createReassembler := Some reasm\<rparr>) s
               in case result of
                    Refused \<Rightarrow> destroyCircuit ref s
                  | More \<Rightarrow> ret () s
                  | Done reply \<Rightarrow>
                      let s = on_obj ref (\<lambda>c. c\<lparr>cir_relayHop := Some (crd_relayHop reply),
                            cir_createReassembler := None, cir_role := Role_Established\<rparr>) s
                      in for_each (\<lambda>respCell. emit (Cell_To l respCell)) (crd_cells reply) s))"

definition onInboundCreate ::
  "crypto \<Rightarrow> draws \<Rightarrow> int \<Rightarrow> relay_identity \<Rightarrow> link \<Rightarrow> bytes \<Rightarrow> cell \<Rightarrow> 'x relay_state_scheme \<Rightarrow> (unit, 'x) relay_act" where
  "onInboundCreate C d now i l cellBytes parsed s =
     (let key = keyOf l (cel_circuitId parsed)
      in case map_get (rst_circuits s) key of
           Some ref \<Rightarrow>
             if cir_role (obj s ref) \<noteq> Role_Pending then destroyCircuit ref s
             else create_step C d now i l cellBytes ref s
         | None \<Rightarrow>
             let ref = length (rst_objs s);
                 s = s\<lparr>rst_objs := rst_objs s @ [new_circuit l (cel_circuitId parsed)],
                       rst_circuits := map_set key ref (rst_circuits s)\<rparr>
             in create_step C d now i l cellBytes ref s)"

section \<open>EXTEND\<close>

definition relayBeginExtend ::
  "(bytes \<Rightarrow> peer_info option) \<Rightarrow> nat \<Rightarrow> extend_payload \<Rightarrow> 'x relay_state_scheme \<Rightarrow> (unit, 'x) relay_act" where
  "relayBeginExtend peerResolver ref extendPayload s =
     (if cir_outbound (obj s ref) \<noteq> None then destroyCircuit ref s
      else
        (case peerResolver (ext_nextHopFingerprint extendPayload) of
           None \<Rightarrow> destroyCircuit ref s
         | Some peer \<Rightarrow>
             if pin_host peer = '''' \<or> pin_port peer = 0 then destroyCircuit ref s
             else emit (Ensure_Link peer) (s\<lparr>rst_dials := (ref, extendPayload) # rst_dials s\<rparr>)))"

definition allocateOutboundCircuitId ::
  "(nat \<Rightarrow> nat) \<Rightarrow> (string \<times> nat, nat) jsmap \<Rightarrow> link \<Rightarrow> nat res" where
  "allocateOutboundCircuitId rnd circuits l =
     (case find (\<lambda>candidate. \<not> map_has circuits (keyOf l candidate)) (map rnd [0..<16]) of
        Some candidate \<Rightarrow> Inr candidate
      | None \<Rightarrow> Inl (Error ''failed to allocate outbound circuit_id after 16 attempts''))"

text \<open>After the dial: None is a rejected dial. The pending entry is consumed.\<close>

definition extendDialled ::
  "(nat \<Rightarrow> nat) \<Rightarrow> int \<Rightarrow> nat \<times> extend_payload \<Rightarrow> link option \<Rightarrow> 'x relay_state_scheme \<Rightarrow> (unit, 'x) relay_act" where
  "extendDialled rnd handshakeId pending dialled s =
     (let (ref, extendPayload) = pending;
          s = s\<lparr>rst_dials := remove1 pending (rst_dials s)\<rparr>
      in case dialled of
           None \<Rightarrow> destroyCircuit ref s
         | Some outboundLink \<Rightarrow>
             if cir_role (obj s ref) = Role_Destroyed then ret () s
             else
               (case allocateOutboundCircuitId rnd (rst_circuits s) outboundLink of
                  Inl e \<Rightarrow> throw e s
                | Inr outboundCircuitId \<Rightarrow>
                    let out = (outboundLink, outboundCircuitId);
                        s = on_obj ref (\<lambda>c. c\<lparr>cir_outbound := Some out,
                              cir_createdReassembler := Some defaultReassembler,
                              cir_role := Role_Extending\<rparr>) s;
                        s = s\<lparr>rst_circuits := map_set (keyOf outboundLink outboundCircuitId) ref (rst_circuits s)\<rparr>
                    in seq (lift (fragmentMessage (ext_handshakeMessage extendPayload) handshakeId
                              (int FRAGMENT_PAYLOAD_CAPACITY)) s)
                         (for_each (sendCell out CMD_CREATE))))"

definition onOutboundCreated ::
  "crypto \<Rightarrow> int \<Rightarrow> int \<Rightarrow> link \<Rightarrow> cell \<Rightarrow> 'x relay_state_scheme \<Rightarrow> (unit, 'x) relay_act" where
  "onOutboundCreated C handshakeId now l parsed s =
     (case map_get (rst_circuits s) (keyOf l (cel_circuitId parsed)) of
        None \<Rightarrow> ret () s
      | Some ref \<Rightarrow>
          if cir_role (obj s ref) \<noteq> Role_Extending then ret () s
          else
            (case cir_createdReassembler (obj s ref) of
               None \<Rightarrow> throw null_error s
             | Some reasm \<Rightarrow>
                 let (r, reasm) = ingest now (cel_payload parsed) reasm;
                     s = on_obj ref (\<lambda>c. c\<lparr>cir_createdReassembler := Some reasm\<rparr>) s
                 in case r of
                      Failed \<Rightarrow> destroyCircuit ref s
                    | Waiting \<Rightarrow> ret () s
                    | Complete message \<Rightarrow>
                        if length message \<noteq> CREATED_MSG_BYTES then destroyCircuit ref s
                        else
                          (case cir_relayHop (obj s ref) of
                             None \<Rightarrow> throw null_error s
                           | Some hop \<Rightarrow>
                               (case buildExtendedRelayCells C handshakeId hop message of
                                  Inl e \<Rightarrow> throw e s
                                | Inr (payloads, hop) \<Rightarrow>
                                    let s = on_obj ref (\<lambda>c. c\<lparr>cir_relayHop := Some hop\<rparr>) s
                                    in seq (for_each (sendCell (cir_inbound (obj s ref)) CMD_RELAY) payloads s)
                                         (\<lambda>_. update (on_obj ref (\<lambda>c. c\<lparr>cir_createdReassembler := None,
                                            cir_role := Role_Established\<rparr>)))))))"

section \<open>RELAY\<close>

text \<open>The handler that \<open>rp\_role.mjs\<close> puts on a spliced circuit: wrap at the partner's hop, send to the
  partner's client. It is the identity of the partner that the circuit keeps.\<close>

definition spliceHandler :: "crypto \<Rightarrow> nat \<Rightarrow> bytes \<Rightarrow> 'x relay_state_scheme \<Rightarrow> (unit, 'x) relay_act" where
  "spliceHandler C partner peeledPayload s =
     (case cir_relayHop (obj s partner) of
        None \<Rightarrow> throw null_error s
      | Some hop \<Rightarrow>
          (case relayWrapBackward C hop peeledPayload of
             Inl e \<Rightarrow> throw e s
           | Inr (wrapped, hop) \<Rightarrow>
               let s = on_obj partner (\<lambda>c. c\<lparr>cir_relayHop := Some hop\<rparr>) s
               in sendCell (cir_inbound (obj s partner)) CMD_RELAY wrapped s))"

record exit_data =
  xd_circuit :: nat
  xd_link :: link
  xd_circuitId :: nat
  xd_relayCommand :: nat
  xd_streamId :: nat
  xd_data :: bytes

definition onInboundRelay ::
  "crypto \<Rightarrow> int \<Rightarrow> (bytes \<Rightarrow> peer_info option) \<Rightarrow> (exit_data \<Rightarrow> 'x relay_state_scheme \<Rightarrow> (unit, 'x) relay_act) \<Rightarrow>
   link \<Rightarrow> cell \<Rightarrow> 'x relay_state_scheme \<Rightarrow> (unit, 'x) relay_act" where
  "onInboundRelay C now peerResolver onExitData l parsed s =
     (case map_get (rst_circuits s) (keyOf l (cel_circuitId parsed)) of
        None \<Rightarrow> ret () s
      | Some ref \<Rightarrow>
          if cir_role (obj s ref) = Role_Destroyed then ret () s
          else if cir_role (obj s ref) = Role_Pending then destroyCircuit ref s
          else
            (case cir_relayHop (obj s ref) of
               None \<Rightarrow> throw null_error s
             | Some hop \<Rightarrow>
                 (case handleRelayAtHop C now hop (cel_payload parsed) of
                    Inl e \<Rightarrow> throw e s
                  | Inr (result, hop) \<Rightarrow>
                      let s = on_obj ref (\<lambda>c. c\<lparr>cir_relayHop := Some hop\<rparr>) s
                      in case result of
                           Null_Event \<Rightarrow> destroyCircuit ref s
                         | Forward payload \<Rightarrow>
                             (case cir_outbound (obj s ref) of
                                None \<Rightarrow>
                                  (case cir_spliceHandler (obj s ref) of
                                     Some partner \<Rightarrow> swallow (spliceHandler C partner payload s)
                                   | None \<Rightarrow> ret () s)
                              | Some out \<Rightarrow> sendCell out CMD_RELAY payload s)
                         | Extend_Fragment \<Rightarrow> ret () s
                         | Extend _ payload \<Rightarrow> swallow (relayBeginExtend peerResolver ref payload s)
                         | Data relayCommand streamId data \<Rightarrow>
                             swallow (onExitData \<lparr>xd_circuit = ref, xd_link = l,
                               xd_circuitId = cel_circuitId parsed, xd_relayCommand = relayCommand,
                               xd_streamId = streamId, xd_data = data\<rparr> s))))"

definition onOutboundRelay :: "crypto \<Rightarrow> link \<Rightarrow> cell \<Rightarrow> 'x relay_state_scheme \<Rightarrow> (unit, 'x) relay_act" where
  "onOutboundRelay C l parsed s =
     (case map_get (rst_circuits s) (keyOf l (cel_circuitId parsed)) of
        None \<Rightarrow> ret () s
      | Some ref \<Rightarrow>
          if cir_role (obj s ref) = Role_Destroyed then ret () s
          else
            (case cir_outbound (obj s ref) of
               None \<Rightarrow> ret () s
             | Some out \<Rightarrow>
                 if fst out \<noteq> l then ret () s
                 else
                   (case cir_relayHop (obj s ref) of
                      None \<Rightarrow> throw null_error s
                    | Some hop \<Rightarrow>
                        (case relayWrapBackward C hop (cel_payload parsed) of
                           Inl e \<Rightarrow> throw e s
                         | Inr (wrapped, hop) \<Rightarrow>
                             let s = on_obj ref (\<lambda>c. c\<lparr>cir_relayHop := Some hop\<rparr>) s
                             in sendCell (cir_inbound (obj s ref)) CMD_RELAY wrapped s))))"

section \<open>Dispatch\<close>

text \<open>The random draws of one cell: those of a handshake answered with it, and a handshake identifier.\<close>

definition onCell ::
  "crypto \<Rightarrow> draws \<Rightarrow> int \<Rightarrow> relay_identity \<Rightarrow> (bytes \<Rightarrow> peer_info option) \<Rightarrow>
   (exit_data \<Rightarrow> 'x relay_state_scheme \<Rightarrow> (unit, 'x) relay_act) \<Rightarrow> link \<Rightarrow> bytes \<Rightarrow>
   'x relay_state_scheme \<Rightarrow> (unit, 'x) relay_act" where
  "onCell C d now i peerResolver onExitData l cellBytes s =
     (if length cellBytes \<noteq> CELL_BYTES then ret () s
      else
        (case parseCell cellBytes of
           None \<Rightarrow> ret () s
         | Some parsed \<Rightarrow>
             let circuit = map_get (rst_circuits s) (keyOf l (cel_circuitId parsed));
                 isInboundSide = (case circuit of None \<Rightarrow> False
                   | Some ref \<Rightarrow> cir_inbound (obj s ref) = (l, cel_circuitId parsed));
                 isOutboundSide = (case circuit of None \<Rightarrow> False
                   | Some ref \<Rightarrow> cir_outbound (obj s ref) = Some (l, cel_circuitId parsed))
             in if cel_command parsed = CMD_CREATE then
                  (case circuit of
                     Some ref \<Rightarrow> if \<not> isInboundSide then destroyCircuit ref s
                       else onInboundCreate C d now i l cellBytes parsed s
                   | None \<Rightarrow> onInboundCreate C d now i l cellBytes parsed s)
                else if cel_command parsed = CMD_CREATED then
                  if isOutboundSide then onOutboundCreated C (drw_handshakeId d) now l parsed s else ret () s
                else if cel_command parsed = CMD_RELAY then
                  if isOutboundSide then onOutboundRelay C l parsed s
                  else if isInboundSide then onInboundRelay C now peerResolver onExitData l parsed s
                  else ret () s
                else if cel_command parsed = CMD_DESTROY then
                  (case circuit of Some ref \<Rightarrow> onDestroy l parsed s | None \<Rightarrow> ret () s)
                else ret () s))"

definition getCircuitCount :: "'x relay_state_scheme \<Rightarrow> nat" where
  "getCircuitCount s = map_size (rst_circuits s)"

text \<open>The loop runs over the map while circuits are deleted; a circuit met again is destroyed by then.\<close>

definition closeAll :: "'x relay_state_scheme \<Rightarrow> (unit, 'x) relay_act" where
  "closeAll s =
     seq (for_each (\<lambda>ref s. if cir_role (obj s ref) \<noteq> Role_Destroyed then destroyCircuit ref s else ret () s)
            (map snd (rst_circuits s)) s)
       (\<lambda>_. update (\<lambda>s. s\<lparr>rst_circuits := []\<rparr>))"

section \<open>Sending backward\<close>

text \<open>The helper that the exit, the introduction point and the rendezvous point share: a RELAY cell of
  this hop toward the client of a circuit.\<close>

definition sendBackwardOnCircuit ::
  "crypto \<Rightarrow> nat \<Rightarrow> nat \<Rightarrow> nat \<Rightarrow> bytes \<Rightarrow> 'x relay_state_scheme \<Rightarrow> (unit, 'x) relay_act" where
  "sendBackwardOnCircuit C ref relayCommand streamId data s =
     (case cir_relayHop (obj s ref) of
        None \<Rightarrow> throw null_error s
      | Some hop \<Rightarrow>
          (case buildRelayPayload C relayCommand (int streamId) data (rhp_backwardDigest hop) of
             Inl e \<Rightarrow> throw e s
           | Inr (relayPayload, digest) \<Rightarrow>
               let hop = hop\<lparr>rhp_backwardDigest := digest\<rparr>;
                   s = on_obj ref (\<lambda>c. c\<lparr>cir_relayHop := Some hop\<rparr>) s
               in case relayWrapBackward C hop relayPayload of
                    Inl e \<Rightarrow> throw e s
                  | Inr (wrapped, hop) \<Rightarrow>
                      let s = on_obj ref (\<lambda>c. c\<lparr>cir_relayHop := Some hop\<rparr>) s
                      in sendCell (cir_inbound (obj s ref)) CMD_RELAY wrapped s))"

end
