(* ===== verification/V2_Dispatcher_Props.thy ===== *)
theory V2_Dispatcher_Props
  imports V2_Dispatcher V2_Handshake Machine
begin

text \<open>
  What the circuit dispatcher guarantees: no cell makes it throw, its table stays tidy, circuits are
  built and cells pass through.
\<close>

section \<open>Well-formed states\<close>

definition hop_ok :: "relay_hop \<Rightarrow> bool" where
  "hop_ok h \<longleftrightarrow> length (rhp_Kf h) = 32 \<and> length (rhp_Kb h) = 32"

text \<open>The fields that each role has.\<close>

definition circuit_ok :: "circuit_obj \<Rightarrow> bool" where
  "circuit_ok c \<longleftrightarrow>
     (cir_role c = Role_Pending \<longrightarrow> cir_createReassembler c \<noteq> None \<and> cir_outbound c = None)
   \<and> (cir_role c = Role_Established \<longrightarrow> cir_relayHop c \<noteq> None)
   \<and> (cir_role c = Role_Extending \<longrightarrow> cir_relayHop c \<noteq> None \<and> cir_outbound c \<noteq> None \<and> cir_createdReassembler c \<noteq> None)
   \<and> pred_option hop_ok (cir_relayHop c)
   \<and> snd (cir_inbound c) < 2 ^ 32 \<and> pred_option (\<lambda>out. snd out < 2 ^ 32) (cir_outbound c)"

text \<open>References point to objects; whoever waits for a dial or is a splice partner has its keys.\<close>

definition has_hop :: "'x relay_state_scheme \<Rightarrow> nat \<Rightarrow> bool" where
  "has_hop s ref \<longleftrightarrow> ref < length (rst_objs s) \<and> cir_relayHop (obj s ref) \<noteq> None"

definition relay_inv :: "'x relay_state_scheme \<Rightarrow> bool" where
  "relay_inv s \<longleftrightarrow>
     (\<forall>k ref. map_get (rst_circuits s) k = Some ref \<longrightarrow> ref < length (rst_objs s))
   \<and> (\<forall>c\<in>set (rst_objs s). circuit_ok c)
   \<and> (\<forall>c\<in>set (rst_objs s). pred_option (has_hop s) (cir_spliceHandler c))
   \<and> (\<forall>(ref, p)\<in>set (rst_dials s). has_hop s ref \<and> length (ext_handshakeMessage p) = 1216)"

definition inv_at :: "nat \<Rightarrow> 'x relay_state_scheme \<Rightarrow> bool" where
  "inv_at ref s \<longleftrightarrow> relay_inv s \<and> ref < length (rst_objs s)"

definition whole_cell :: "relay_effect \<Rightarrow> bool" where
  "whole_cell e = (case e of Cell_To l c \<Rightarrow> length c = 514 | _ \<Rightarrow> True)"

lemma whole_cell_simps [simp]: "whole_cell (Cell_To l c) \<longleftrightarrow> length c = 514" "whole_cell (Ensure_Link p)"
  "whole_cell (Tcp_Connect n h q)" "whole_cell (Tcp_Write n b)" "whole_cell (Tcp_End n)" "whole_cell (Tcp_Destroy n)"
  "whole_cell (Http_Get u)"
  by (simp_all add: whole_cell_def)

lemma obj_ok: "inv_at ref s \<Longrightarrow> circuit_ok (obj s ref)"
  by (simp add: inv_at_def relay_inv_def obj_def)

lemma splice_hop:
  assumes "relay_inv s" "ref < length (rst_objs s)" "cir_spliceHandler (obj s ref) = Some p"
  shows "has_hop s p"
proof -
  have "obj s ref \<in> set (rst_objs s)" using assms(2) by (simp add: obj_def)
  then have "pred_option (has_hop s) (cir_spliceHandler (obj s ref))" using assms(1) unfolding relay_inv_def by blast
  then show ?thesis using assms(3) by simp
qed

lemma inv_lookup: "relay_inv s \<Longrightarrow> map_get (rst_circuits s) k = Some ref \<Longrightarrow> inv_at ref s"
  unfolding inv_at_def relay_inv_def by blast

lemma length_on_obj [simp]: "length (rst_objs (on_obj ref f s)) = length (rst_objs s)"
  by (simp add: on_obj_def)

lemma on_obj_simps [simp]:
  "rst_circuits (on_obj ref f s) = rst_circuits s" "rst_dials (on_obj ref f s) = rst_dials s"
  "ref < length (rst_objs s) \<Longrightarrow> obj (on_obj ref f s) ref = f (obj s ref)"
  by (simp_all add: on_obj_def obj_def)

lemma obj_on_obj: "ref < length (rst_objs s) \<Longrightarrow> obj (on_obj ref f s) r = (if r = ref then f (obj s ref) else obj s r)"
  by (simp add: on_obj_def obj_def)

text \<open>The update of a circuit that keeps its hop, if it has one, and its splice partner.\<close>

lemma inv_on_obj:
  assumes "inv_at ref s" "circuit_ok (f (obj s ref))"
    and "cir_relayHop (obj s ref) \<noteq> None \<Longrightarrow> cir_relayHop (f (obj s ref)) \<noteq> None"
    and "cir_spliceHandler (f (obj s ref)) = cir_spliceHandler (obj s ref)"
  shows "inv_at ref (on_obj ref f s)"
proof -
  have ref: "ref < length (rst_objs s)" and s: "relay_inv s" using assms(1) by (simp_all add: inv_at_def)
  have hop: "has_hop s r \<Longrightarrow> has_hop (on_obj ref f s) r" for r
    using assms(3) by (auto simp: has_hop_def obj_on_obj [OF ref])
  have old: "obj s ref \<in> set (rst_objs s)" using ref by (simp add: obj_def)
  have sub: "set (rst_objs (on_obj ref f s)) \<subseteq> insert (f (obj s ref)) (set (rst_objs s))"
    by (simp add: on_obj_def set_update_subset_insert)
  have "pred_option (has_hop s) (cir_spliceHandler c)" if "c \<in> set (rst_objs (on_obj ref f s))" for c
    using that sub s old assms(4) by (auto simp: relay_inv_def)
  then have "\<forall>c\<in>set (rst_objs (on_obj ref f s)). pred_option (has_hop (on_obj ref f s)) (cir_spliceHandler c)"
    using hop by (metis option.pred_mono_strong)
  moreover have "\<forall>c\<in>set (rst_objs (on_obj ref f s)). circuit_ok c"
    using sub s assms(2) by (auto simp: relay_inv_def)
  ultimately show ?thesis
    using s hop ref by (fastforce simp: relay_inv_def inv_at_def)
qed

lemma inv_same_objs:
  assumes "inv_at ref s" "rst_objs t = rst_objs s"
    and "\<And>k r. map_get (rst_circuits t) k = Some r \<Longrightarrow> r < length (rst_objs s)"
    and "\<forall>(r, p)\<in>set (rst_dials t). has_hop s r \<and> length (ext_handshakeMessage p) = 1216"
  shows "inv_at ref t"
proof -
  have "has_hop t = has_hop s" by (rule ext) (simp add: has_hop_def obj_def assms(2))
  then show ?thesis using assms by (simp add: inv_at_def relay_inv_def)
qed

lemma inv_bounds: "inv_at ref s \<Longrightarrow> map_get (rst_circuits s) k = Some r \<Longrightarrow> r < length (rst_objs s)"
  unfolding inv_at_def relay_inv_def by blast

lemma inv_dials: "inv_at ref s \<Longrightarrow> \<forall>(r, p)\<in>set (rst_dials s). has_hop s r \<and> length (ext_handshakeMessage p) = 1216"
  by (simp add: inv_at_def relay_inv_def)

lemma inv_register:
  "inv_at ref s \<Longrightarrow> r < length (rst_objs s) \<Longrightarrow> inv_at ref (s\<lparr>rst_circuits := map_set k r (rst_circuits s)\<rparr>)"
  by (rule inv_same_objs) (simp_all add: jm.get_put split: if_splits, (blast dest: inv_bounds inv_dials)+)

lemma inv_unregister: "inv_at ref s \<Longrightarrow> inv_at ref (unregister lc s)"
  by (rule inv_same_objs [where s = s])
    (simp_all add: unregister_def jm.get_del split: if_splits, (blast dest: inv_bounds inv_dials)+)

lemma unregister_simps [simp]: "rst_objs (unregister lc s) = rst_objs s" "obj (unregister lc s) = obj s"
  "rst_dials (unregister lc s) = rst_dials s"
  by (simp_all add: unregister_def obj_def fun_eq_iff)

section \<open>No operation throws\<close>

lemma sendCell_good: "I s \<Longrightarrow> snd lc < 2 ^ 32 \<Longrightarrow> length p \<le> 508 \<Longrightarrow> good I whole_cell (sendCell lc cmd p s)"
  using buildCell_layout [of "int (snd lc)" p 2 cmd]
  by (simp add: sendCell_def good_emit length_cell_bytes)

lemma sendCell_sound: "I s \<Longrightarrow> sound I whole_cell (sendCell lc cmd p s)"
  by (auto simp: sendCell_def length_cell_bytes intro!: good_sound [OF good_emit] sound_throw
      dest!: buildCell_Inr split: sum.splits)

lemma sendDestroy_good: "I s \<Longrightarrow> good I whole_cell (sendDestroy lc s)"
  unfolding sendDestroy_def by (intro good_swallow sendCell_sound)

lemma circuit_ok_destroyed: "circuit_ok c \<Longrightarrow> circuit_ok (c\<lparr>cir_role := Role_Destroyed\<rparr>)"
  by (simp add: circuit_ok_def)

lemma destroyCircuit_good: "inv_at ref s \<Longrightarrow> good (inv_at ref) whole_cell (destroyCircuit ref s)"
  unfolding destroyCircuit_def Let_def
  by (auto simp: obj_ok circuit_ok_destroyed intro!: good_ret good_update good_seq [where J = "inv_at ref"]
      sendDestroy_good inv_on_obj inv_unregister split: option.splits)

lemma good_for_each_emit:
  "I s \<Longrightarrow> \<forall>x\<in>set xs. E (f x) \<Longrightarrow> good I E (for_each (\<lambda>x. emit (f x)) xs s)"
  by (rule good_for_each) auto

lemma good_inv: "good (inv_at ref) E a \<Longrightarrow> good relay_inv E a"
  by (erule good_mono) (simp_all add: inv_at_def)

lemma mark_destroyed: "inv_at ref s \<Longrightarrow> inv_at ref (on_obj ref (\<lambda>c. c\<lparr>cir_role := Role_Destroyed\<rparr>) s)"
  by (rule inv_on_obj) (simp_all add: obj_ok circuit_ok_destroyed)

lemma onDestroy_good: "relay_inv s \<Longrightarrow> good relay_inv whole_cell (onDestroy l parsed s)"
proof (cases "map_get (rst_circuits s) (keyOf l (cel_circuitId parsed))")
  case None
  then show "relay_inv s \<Longrightarrow> ?thesis" by (simp add: onDestroy_def good_ret)
next
  case (Some ref)
  assume "relay_inv s"
  from inv_lookup [OF this Some] have "inv_at ref s" .
  then have "good (inv_at ref) whole_cell (onDestroy l parsed s)"
    unfolding onDestroy_def Some option.case Let_def
    by (intro good_seq [where J = "inv_at ref"])
      (auto intro!: good_ret good_update sendDestroy_good inv_unregister mark_destroyed split: option.splits)
  then show ?thesis by (rule good_inv)
qed

section \<open>Handshakes\<close>

lemma relayHop_ok: "inv_at ref s \<Longrightarrow> cir_relayHop (obj s ref) = Some h \<Longrightarrow> hop_ok h"
  using obj_ok [of ref s] by (simp add: circuit_ok_def)

lemma parseCell_ok: "parseCell raw = Some c \<Longrightarrow> cel_circuitId c < 2 ^ 32 \<and> length (cel_payload c) = 508"
  using be_val_bound [of "subarray raw 1 5"] by (auto simp: parseCell_def split: if_splits)

text \<open>The draws that the code makes are of these sizes.\<close>

definition draws_ok :: "draws \<Rightarrow> bool" where
  "draws_ok d \<longleftrightarrow> length (drw_ySeed d) = 32 \<and> 0 \<le> drw_handshakeId d \<and> drw_handshakeId d \<le> 0xFFFFFFFF"

lemma created_reply_good:
  assumes "hash_ok C" "dh_correct C" "draws_ok d" "cid < 2 ^ 32"
    and "relayResponse C e (drw_ySeed d) m bsk bpk ID = Some resp"
  shows "\<exists>reply. created_reply C d cid resp = Inr reply \<and> hop_ok (crd_relayHop reply)
    \<and> (\<forall>c\<in>set (crd_cells reply). length c = 514)"
proof -
  have seed: "length (ntr_KEY_SEED resp) = 32" and lc: "length (ntr_createdMsg resp) = 1152"
    using assms by (auto elim!: relayResponse_Some simp: Let_def dh_correct_def draws_ok_def)
  obtain k h where k: "deriveHopKeys C (ntr_KEY_SEED resp) = Inr k" "new_client_hop k = Inr h"
    and hop: "\<And>cid. \<exists>r. createRelayHop cid k = Inr r \<and> in_step h r \<and> rhp_inboundCircuitId r = cid"
    using new_hops_in_step [OF assms(1) seed] by blast
  obtain r where r: "createRelayHop cid k = Inr r" "in_step h r" using hop by blast
  have m: "ntr_createdMsg resp \<noteq> []" "length (ntr_createdMsg resp) \<le> 65536" using lc by auto
  have ids: "0 \<le> int cid" "int cid \<le> 0xFFFFFFFF" "(2 :: nat) < 256" using assms(4) by simp_all
  obtain fs where fs: "fragmentMessage (ntr_createdMsg resp) (drw_handshakeId d) 500 = Inr fs"
    "handshake_cells 2 (int cid) (drw_handshakeId d) (ntr_createdMsg resp) = Inr (map (cell_bytes 2 cid 2) fs)"
    using handshake_cells_ok [OF ids _ _ m, of "drw_handshakeId d"] assms(3) by (auto simp: draws_ok_def)
  have "length f = 508" if "f \<in> set fs" for f using fragments_of_cell [OF fs(1) that] by simp
  moreover have "hop_ok r" using r(2) by (simp add: hop_ok_def in_step_def)
  ultimately show ?thesis
    using fs k(1) r(1) by (simp add: created_reply_def length_cell_bytes)
qed

lemma handleCreate_good:
  assumes "hash_ok C" "dh_correct C" "draws_ok d"
  shows "\<exists>x r'. handleCreate C d now i raw r = Inr (x, r')
    \<and> (\<forall>reply. x = Done reply \<longrightarrow> hop_ok (crd_relayHop reply) \<and> (\<forall>c\<in>set (crd_cells reply). length c = 514))"
proof (cases "parseCell raw")
  case (Some c)
  note good = created_reply_good [OF assms, of "cel_circuitId c"]
  show ?thesis
    using Some parseCell_ok [OF Some] good
    by (fastforce simp: handleCreate_def split: prod.splits ingested.splits option.splits sum.splits)
qed (simp add: handleCreate_def)

lemma create_step_good:
  assumes "hash_ok C" "dh_correct C" "draws_ok d" "inv_at ref s" "cir_role (obj s ref) = Role_Pending"
  shows "good (inv_at ref) whole_cell (create_step C d now i l raw ref s)"
proof -
  have c: "circuit_ok (obj s ref)" by (rule obj_ok) (rule assms(4))
  then obtain r where r: "cir_createReassembler (obj s ref) = Some r" using assms(5) by (auto simp: circuit_ok_def)
  obtain x r' where h: "handleCreate C d now i raw r = Inr (x, r')"
    and x: "\<And>reply. x = Done reply \<Longrightarrow> hop_ok (crd_relayHop reply) \<and> (\<forall>c\<in>set (crd_cells reply). length c = 514)"
    using handleCreate_good [OF assms(1-3)] by blast
  let ?s = "on_obj ref (\<lambda>c. c\<lparr>cir_createReassembler := Some r'\<rparr>) s"
  have s: "inv_at ref ?s" by (rule inv_on_obj [OF assms(4)]) (use c in \<open>auto simp: circuit_ok_def\<close>)
  have ref: "ref < length (rst_objs s)" using assms(4) by (simp add: inv_at_def)
  show ?thesis
  proof (cases x)
    case (Done reply)
    have "inv_at ref (on_obj ref (\<lambda>c. c\<lparr>cir_relayHop := Some (crd_relayHop reply), cir_createReassembler := None,
        cir_role := Role_Established\<rparr>) ?s)"
      by (rule inv_on_obj [OF s]) (use c x [OF Done] assms(5) ref in \<open>auto simp: circuit_ok_def\<close>)
    then show ?thesis
      using r h Done x [OF Done] by (auto simp: create_step_def intro!: good_for_each_emit)
  qed (use r h s in \<open>auto simp: create_step_def intro: destroyCircuit_good good_ret\<close>)
qed

lemma inv_new_circuit:
  assumes "relay_inv s" "cid < 2 ^ 32"
  shows "inv_at (length (rst_objs s)) (s\<lparr>rst_objs := rst_objs s @ [new_circuit l cid],
    rst_circuits := map_set k (length (rst_objs s)) (rst_circuits s)\<rparr>)" (is "inv_at _ ?t")
proof -
  have hop: "has_hop s r \<Longrightarrow> has_hop ?t r" for r
    by (auto simp: has_hop_def obj_def nth_append)
  have n: "circuit_ok (new_circuit l cid)" "cir_spliceHandler (new_circuit l cid) = None"
    using assms(2) by (simp_all add: new_circuit_def circuit_ok_def)
  have "\<forall>c\<in>set (rst_objs s). pred_option (has_hop ?t) (cir_spliceHandler c)"
    using assms(1) hop unfolding relay_inv_def by (metis option.pred_mono_strong)
  moreover have "\<forall>(r, p)\<in>set (rst_dials s). has_hop ?t r \<and> length (ext_handshakeMessage p) = 1216"
    using assms(1) hop unfolding relay_inv_def by fast
  moreover have "\<forall>j r. map_get (rst_circuits ?t) j = Some r \<longrightarrow> r < length (rst_objs ?t)"
    using assms(1) unfolding relay_inv_def by (simp add: jm.get_put less_Suc_eq)
  ultimately show ?thesis
    using assms(1) n unfolding inv_at_def relay_inv_def by simp
qed

lemma onInboundCreate_good:
  assumes "hash_ok C" "dh_correct C" "draws_ok d" "relay_inv s" "cel_circuitId parsed < 2 ^ 32"
  shows "good relay_inv whole_cell (onInboundCreate C d now i l raw parsed s)"
proof (cases "map_get (rst_circuits s) (keyOf l (cel_circuitId parsed))")
  case None
  show ?thesis
    unfolding onInboundCreate_def Let_def None option.case
    by (rule good_inv, rule create_step_good [OF assms(1-3)], rule inv_new_circuit [OF assms(4,5)])
      (simp add: obj_def new_circuit_def)
next
  case (Some ref)
  from inv_lookup [OF assms(4) Some] have "inv_at ref s" .
  then show ?thesis
    using create_step_good [OF assms(1-3)] by (auto simp: onInboundCreate_def Some intro!: good_inv destroyCircuit_good)
qed

section \<open>Relaying\<close>

lemma peel_ok: "hop_ok h \<Longrightarrow> length p = 508 \<Longrightarrow>
  relayPeelForward C h p = Inr (layers C (rhp_Kf h, rhp_forwardCounter h) p, bump_peel h)"
  by (simp add: relayPeelForward_def hop_ok_def applyLayer_ok bump_peel_def)

lemma wrap_ok: "hop_ok h \<Longrightarrow> length p = 508 \<Longrightarrow>
  relayWrapBackward C h p = Inr (layers C (rhp_Kb h, rhp_backwardCounter h) p, bump_wrap h)"
  by (simp add: relayWrapBackward_def hop_ok_def applyLayer_ok bump_wrap_def)

lemma bump_ok [simp]: "hop_ok (bump_wrap h) = hop_ok h" "hop_ok (bump_peel h) = hop_ok h"
  "hop_ok (h\<lparr>rhp_forwardDigest := d\<rparr>) = hop_ok h" "hop_ok (h\<lparr>rhp_backwardDigest := d\<rparr>) = hop_ok h"
  "hop_ok (h\<lparr>rhp_extendReassembler := r\<rparr>) = hop_ok h"
  by (simp_all add: hop_ok_def bump_wrap_def bump_peel_def)

definition event_ok :: "hop_event \<Rightarrow> bool" where
  "event_ok ev = (case ev of Forward p \<Rightarrow> length p = 508 | Extend _ p \<Rightarrow> length (ext_handshakeMessage p) = 1216 | _ \<Rightarrow> True)"

lemma handleRelayAtHop_good:
  assumes "hop_ok h" "length p = 508"
  shows "\<exists>ev h'. handleRelayAtHop C now h p = Inr (ev, h') \<and> hop_ok h' \<and> event_ok ev"
proof -
  let ?q = "layers C (rhp_Kf h, rhp_forwardCounter h) p"
  obtain r d where c: "tryConsumeRelayPayload C ?q (rhp_forwardDigest h) = (r, d)" by fastforce
  have c': "tryConsumeRelayPayload C ?q (rhp_forwardDigest (bump_peel h)) = (r, d)"
    using c by (simp add: bump_peel_def)
  have q: "length ?q = 508" using assms(2) by simp
  show ?thesis
  proof (cases r)
    case (Match parsed)
    obtain f reasm where "ingest now (rly_data parsed) (rhp_extendReassembler h) = (f, reasm)" by fastforce
    moreover have "rhp_extendReassembler (bump_peel h) = rhp_extendReassembler h" by (simp add: bump_peel_def)
    ultimately show ?thesis
      using c' Match assms by (cases f) (simp_all add: handleRelayAtHop_def peel_ok event_ok_def Let_def)
  qed (use c' q assms in \<open>simp_all add: handleRelayAtHop_def peel_ok event_ok_def\<close>)
qed

text \<open>What a hop hands to the exit callback has a 16-bit stream number.\<close>

lemma handleRelayAtHop_stream:
  assumes "handleRelayAtHop C now h p = Inr (Data cmd sid data, h')"
  shows "sid < 65536"
proof -
  have "be_val (subarray p 1 3) < 65536" for p
    using less_le_trans [OF be_val_bound [of "subarray p 1 3"] power_increasing [of _ 2 "256 :: nat"]]
    by (simp add: subarray_def)
  then have "rly_streamId q < 65536" if "relay_parse p = Some q" for p q
    using that by (auto simp: relay_parse_def Let_def numeral_3_eq_3 split: if_splits)
  then have "rly_streamId q < 65536" if "tryConsumeRelayPayload C p st = (Match q, st')" for p q st st'
    using that by (auto simp: tryConsumeRelayPayload_def Let_def split: if_splits option.splits)
  then show ?thesis
    using assms by (auto simp: handleRelayAtHop_def Let_def split: sum.splits prod.splits consumed.splits if_splits ingested.splits)
qed

lemma buildRelayPayload_total:
  assumes "length data \<le> 499" "sid < 65536"
  shows "\<exists>p d. buildRelayPayload C cmd (int sid) data st = Inr (p, d) \<and> length p = 508"
proof -
  have "length (relay_plain cmd sid data) = 508"
    using assms(1) by (simp add: relay_plain_layout length_relay_bytes)
  then show ?thesis
    using assms by (simp add: buildRelayPayload_def Let_def consumeAndDigest_def)
qed

lemma map_state_good:
  assumes "\<And>x s. x \<in> set xs \<Longrightarrow> P s \<Longrightarrow> \<exists>y s'. f s x = Inr (y, s') \<and> P s' \<and> Q y" "P s"
  shows "\<exists>ys s'. map_state f s xs = Inr (ys, s') \<and> P s' \<and> (\<forall>y\<in>set ys. Q y)"
  using assms
proof (induction xs arbitrary: s)
  case (Cons x xs)
  obtain y s1 where "f s x = Inr (y, s1)" "P s1" "Q y" using Cons.prems by force
  then show ?case using Cons.IH [of s1] Cons.prems(1) by fastforce
qed simp

lemma buildExtended_good:
  assumes "hop_ok h" "length m = 1152" "0 \<le> hid" "hid \<le> 0xFFFFFFFF"
  shows "\<exists>ps h'. buildExtendedRelayCells C hid h m = Inr (ps, h') \<and> hop_ok h' \<and> (\<forall>p\<in>set ps. length p = 508)"
proof -
  have "ceil_div 1152 491 \<le> 255" by (simp add: ceil_div_def)
  then obtain fs where fs: "fragmentMessage m hid 491 = Inr fs"
    using assms(2-4) by (auto simp: fragmentMessage_def Let_def)
  have "\<exists>y s'. extended_cell C s f = Inr (y, s') \<and> hop_ok s' \<and> length y = 508"
    if f: "f \<in> set fs" and s: "hop_ok s" for f s
  proof -
    have "length f = 499" using fragments_of_cell [OF fs f] by simp
    then obtain p d where "buildRelayPayload C 5 0 f (rhp_backwardDigest s) = Inr (p, d)" "length p = 508"
      using buildRelayPayload_total [of f 0 C 5 "rhp_backwardDigest s"] by auto
    then show ?thesis
      using wrap_ok [of "s\<lparr>rhp_backwardDigest := d\<rparr>" p C] s by (simp add: extended_cell_def)
  qed
  from map_state_good [OF this assms(1)] show ?thesis
    using fs assms(2) by (simp add: buildExtendedRelayCells_def)
qed

lemma keep_hop:
  assumes "inv_at ref s" "hop_ok h" "cir_role (obj s ref) \<noteq> Role_Pending"
  shows "inv_at ref (on_obj ref (\<lambda>c. c\<lparr>cir_relayHop := Some h\<rparr>) s)"
  by (rule inv_on_obj [OF assms(1)]) (use obj_ok [OF assms(1)] assms(2,3) in \<open>auto simp: circuit_ok_def\<close>)

text \<open>A hop that the relay writes back is still the circuit's.\<close>

lemma onOutboundRelay_good:
  assumes "relay_inv s" "length (cel_payload parsed) = 508"
  shows "good relay_inv whole_cell (onOutboundRelay C l parsed s)"
proof (cases "map_get (rst_circuits s) (keyOf l (cel_circuitId parsed))")
  case (Some ref)
  from inv_lookup [OF assms(1) Some] have i: "inv_at ref s" .
  then have ref: "ref < length (rst_objs s)" by (simp add: inv_at_def)
  note ok = obj_ok [OF i]
  show ?thesis
  proof (cases "cir_role (obj s ref) = Role_Destroyed \<or> cir_outbound (obj s ref) = None
      \<or> (\<exists>out. cir_outbound (obj s ref) = Some out \<and> fst out \<noteq> l)")
    case True
    then show ?thesis using assms(1) by (auto simp: onOutboundRelay_def Some intro: good_ret split: option.splits)
  next
    case False
    then obtain out where out: "cir_outbound (obj s ref) = Some out" "fst out = l" by auto
    then have np: "cir_role (obj s ref) \<noteq> Role_Pending" using ok by (auto simp: circuit_ok_def)
    then obtain h where h: "cir_relayHop (obj s ref) = Some h"
      using False ok by (cases "cir_role (obj s ref)") (auto simp: circuit_ok_def)
    note hk = relayHop_ok [OF i h]
    let ?s = "on_obj ref (\<lambda>c. c\<lparr>cir_relayHop := Some (bump_wrap h)\<rparr>) s"
    have s: "inv_at ref ?s" by (rule keep_hop [OF i _ np]) (simp add: hk)
    have "snd (cir_inbound (obj ?s ref)) < 2 ^ 32" using obj_ok [OF s] by (simp add: circuit_ok_def)
    then have "good (inv_at ref) whole_cell (sendCell (cir_inbound (obj ?s ref)) 3
        (layers C (rhp_Kb h, rhp_backwardCounter h) (cel_payload parsed)) ?s)"
      using assms(2) by (intro sendCell_good s) simp_all
    then have "good (inv_at ref) whole_cell (onOutboundRelay C l parsed s)"
      using False out h wrap_ok [OF hk assms(2), of C] by (simp add: onOutboundRelay_def Some Let_def)
    then show ?thesis by (rule good_inv)
  qed
qed (use assms in \<open>simp add: onOutboundRelay_def good_ret\<close>)

lemma spliceHandler_sound:
  assumes "relay_inv s" "has_hop s partner" "length p = 508"
  shows "sound relay_inv whole_cell (spliceHandler C partner p s)"
proof -
  have i: "inv_at partner s" using assms(1,2) by (simp add: inv_at_def has_hop_def)
  obtain h where h: "cir_relayHop (obj s partner) = Some h" using assms(2) by (auto simp: has_hop_def)
  note hk = relayHop_ok [OF i h]
  let ?s = "on_obj partner (\<lambda>c. c\<lparr>cir_relayHop := Some (bump_wrap h)\<rparr>) s"
  have "inv_at partner ?s" by (rule inv_on_obj [OF i]) (use obj_ok [OF i] hk h in \<open>auto simp: circuit_ok_def\<close>)
  then have "relay_inv ?s" by (simp add: inv_at_def)
  then show ?thesis
    using h wrap_ok [OF hk assms(3), of C] by (simp add: spliceHandler_def Let_def sendCell_sound)
qed

lemma relayBeginExtend_good:
  assumes "inv_at ref s" "cir_relayHop (obj s ref) \<noteq> None" "length (ext_handshakeMessage p) = 1216"
  shows "good (inv_at ref) whole_cell (relayBeginExtend peerResolver ref p s)"
proof -
  have "has_hop s ref" using assms(1,2) by (simp add: has_hop_def inv_at_def)
  then have "inv_at ref (s\<lparr>rst_dials := (ref, p) # rst_dials s\<rparr>)"
    using assms(3) inv_dials [OF assms(1)] by (intro inv_same_objs [OF assms(1)]) (simp_all, blast dest: inv_bounds [OF assms(1)])
  then show ?thesis
    using assms(1) by (auto simp: relayBeginExtend_def intro!: destroyCircuit_good good_emit split: option.splits)
qed

text \<open>What \<open>onExitData\<close> has to keep.\<close>

definition exit_ok :: "(exit_data \<Rightarrow> 'x relay_state_scheme \<Rightarrow> (unit, 'x) relay_act) \<Rightarrow> bool" where
  "exit_ok onExitData \<longleftrightarrow> (\<forall>d s. relay_inv s \<longrightarrow> has_hop s (xd_circuit d) \<longrightarrow> sound relay_inv whole_cell (onExitData d s))"

text \<open>A RELAY cell on the inbound side of a circuit that has its keys.\<close>

lemma onInboundRelay_live:
  assumes "map_get (rst_circuits s) (keyOf l (cel_circuitId parsed)) = Some ref"
    and "cir_role (obj s ref) \<noteq> Role_Destroyed" "cir_role (obj s ref) \<noteq> Role_Pending"
    and "cir_relayHop (obj s ref) = Some h" "handleRelayAtHop C now h (cel_payload parsed) = Inr (ev, h')"
  defines "t \<equiv> on_obj ref (\<lambda>c. c\<lparr>cir_relayHop := Some h'\<rparr>) s"
  shows "onInboundRelay C now peerResolver onExitData l parsed s = (case ev of
        Null_Event \<Rightarrow> destroyCircuit ref t
      | Forward payload \<Rightarrow> (case cir_outbound (obj t ref) of
            None \<Rightarrow> (case cir_spliceHandler (obj t ref) of
                Some partner \<Rightarrow> swallow (spliceHandler C partner payload t) | None \<Rightarrow> ret () t)
          | Some out \<Rightarrow> sendCell out CMD_RELAY payload t)
      | Extend_Fragment \<Rightarrow> ret () t
      | Extend _ payload \<Rightarrow> swallow (relayBeginExtend peerResolver ref payload t)
      | Data relayCommand streamId data \<Rightarrow> swallow (onExitData \<lparr>xd_circuit = ref, xd_link = l,
          xd_circuitId = cel_circuitId parsed, xd_relayCommand = relayCommand, xd_streamId = streamId, xd_data = data\<rparr> t))"
  using assms(1-5) unfolding t_def by (simp add: onInboundRelay_def Let_def)

lemma onInboundRelay_good:
  assumes "relay_inv s" "length (cel_payload parsed) = 508" "exit_ok onExitData"
  shows "good relay_inv whole_cell (onInboundRelay C now peerResolver onExitData l parsed s)"
proof (cases "map_get (rst_circuits s) (keyOf l (cel_circuitId parsed))")
  case (Some ref)
  from inv_lookup [OF assms(1) Some] have i: "inv_at ref s" .
  note ok = obj_ok [OF i]
  show ?thesis
  proof (cases "cir_role (obj s ref) = Role_Destroyed \<or> cir_role (obj s ref) = Role_Pending")
    case True
    then show ?thesis
      using i assms(1) by (auto simp: onInboundRelay_def Some intro: good_ret good_inv destroyCircuit_good)
  next
    case False
    obtain h where h: "cir_relayHop (obj s ref) = Some h"
      using False ok by (cases "cir_role (obj s ref)") (auto simp: circuit_ok_def)
    obtain ev h' where ev: "handleRelayAtHop C now h (cel_payload parsed) = Inr (ev, h')" "hop_ok h'" "event_ok ev"
      using handleRelayAtHop_good [OF relayHop_ok [OF i h] assms(2)] by blast
    let ?s = "on_obj ref (\<lambda>c. c\<lparr>cir_relayHop := Some h'\<rparr>) s"
    have np: "cir_role (obj s ref) \<noteq> Role_Destroyed \<and> cir_role (obj s ref) \<noteq> Role_Pending" using False by simp
    have s: "inv_at ref ?s" using keep_hop [OF i ev(2)] False by simp
    then have rs: "relay_inv ?s" and hh: "has_hop ?s ref" "cir_relayHop (obj ?s ref) = Some h'"
      using i by (auto simp: inv_at_def has_hop_def)
    note unf = onInboundRelay_live [OF Some _ _ h ev(1), of peerResolver onExitData]
    note unf = unf [OF conjunct1 [OF np] conjunct2 [OF np]]
    show ?thesis
    proof (cases ev)
      case (Forward p)
      have p: "length p = 508" using ev(3) Forward by (simp add: event_ok_def)
      have out: "snd out < 2 ^ 32" if "cir_outbound (obj ?s ref) = Some out" for out
        using that obj_ok [OF s] by (simp add: circuit_ok_def)
      have part: "has_hop ?s partner" if "cir_spliceHandler (obj ?s ref) = Some partner" for partner
        using splice_hop [OF rs _ that] s by (simp add: inv_at_def)
      show ?thesis
        unfolding unf Forward
        by (auto simp: p intro!: good_ret rs good_swallow spliceHandler_sound part sendCell_good out split: option.splits)
    next
      case (Extend sid p)
      have "good relay_inv whole_cell (relayBeginExtend peerResolver ref p ?s)"
        by (rule good_inv [OF relayBeginExtend_good [OF s]]) (use ev(3) Extend hh in \<open>simp_all add: event_ok_def\<close>)
      then show ?thesis unfolding unf Extend by (simp add: good_swallow good_sound)
    next
      case (Data cmd sid data)
      then show ?thesis
        unfolding unf Data using assms(3) rs hh(1) by (simp add: exit_ok_def good_swallow)
    qed (use unf rs s in \<open>auto intro: good_ret good_inv destroyCircuit_good\<close>)
  qed
qed (use assms in \<open>simp add: onInboundRelay_def good_ret\<close>)

lemma onOutboundCreated_good:
  assumes "relay_inv s" "0 \<le> hid" "hid \<le> 0xFFFFFFFF"
  shows "good relay_inv whole_cell (onOutboundCreated C hid now l parsed s)"
proof (cases "map_get (rst_circuits s) (keyOf l (cel_circuitId parsed))")
  case (Some ref)
  from inv_lookup [OF assms(1) Some] have i: "inv_at ref s" .
  note ok = obj_ok [OF i]
  show ?thesis
  proof (cases "cir_role (obj s ref) = Role_Extending")
    case True
    then obtain h r0 where h: "cir_relayHop (obj s ref) = Some h" "cir_createdReassembler (obj s ref) = Some r0"
      using ok by (auto simp: circuit_ok_def)
    obtain r reasm where r: "ingest now (cel_payload parsed) r0 = (r, reasm)" by fastforce
    let ?s = "on_obj ref (\<lambda>c. c\<lparr>cir_createdReassembler := Some reasm\<rparr>) s"
    have ref: "ref < length (rst_objs s)" using i by (simp add: inv_at_def)
    have s: "inv_at ref ?s" by (rule inv_on_obj [OF i]) (use ok in \<open>auto simp: circuit_ok_def\<close>)
    have "good (inv_at ref) whole_cell (onOutboundCreated C hid now l parsed s)"
    proof (cases "\<exists>m. r = Complete m \<and> length m = 1152")
      case True': True
      then obtain m where m: "r = Complete m" "length m = 1152" by blast
      obtain ps h' where b: "buildExtendedRelayCells C hid h m = Inr (ps, h')" "hop_ok h'" "\<forall>p\<in>set ps. length p = 508"
        using buildExtended_good [OF relayHop_ok [OF i h(1)] m(2) assms(2,3)] by blast
      let ?t = "on_obj ref (\<lambda>c. c\<lparr>cir_relayHop := Some h'\<rparr>) ?s"
      have t: "inv_at ref ?t" by (rule keep_hop [OF s b(2)]) (use True ref in simp)
      have sent: "good (\<lambda>u. u = ?t) whole_cell (for_each (sendCell (cir_inbound (obj ?t ref)) 3) ps ?t)"
        using obj_ok [OF t] b(3) by (intro good_for_each sendCell_good) (auto simp: circuit_ok_def)
      have "inv_at ref (on_obj ref (\<lambda>c. c\<lparr>cir_createdReassembler := None, cir_role := Role_Established\<rparr>) ?t)"
        by (rule inv_on_obj [OF t]) (use obj_ok [OF t] ref in \<open>auto simp: circuit_ok_def\<close>)
      then have "good (inv_at ref) whole_cell (seq (for_each (sendCell (cir_inbound (obj ?t ref)) 3) ps ?t)
          (\<lambda>_. update (on_obj ref (\<lambda>c. c\<lparr>cir_createdReassembler := None, cir_role := Role_Established\<rparr>))))"
        by (intro good_seq [OF sent]) (auto intro: good_update)
      then show ?thesis
        using True h r m b(1) ref by (simp add: onOutboundCreated_def Some Let_def)
    next
      case False
      then show ?thesis
        using True h r s
        by (cases r) (auto simp: onOutboundCreated_def Some Let_def intro!: destroyCircuit_good good_ret)
    qed
    then show ?thesis by (rule good_inv)
  qed (use assms in \<open>simp add: onOutboundCreated_def Some good_ret\<close>)
qed (use assms in \<open>simp add: onOutboundCreated_def good_ret\<close>)

lemma onCell_good:
  assumes "hash_ok C" "dh_correct C" "draws_ok d" "exit_ok onExitData" "relay_inv s"
  shows "good relay_inv whole_cell (onCell C d now i peerResolver onExitData l raw s)"
proof (cases "parseCell raw")
  case (Some parsed)
  note p = parseCell_ok [OF Some]
  have hid: "0 \<le> drw_handshakeId d" "drw_handshakeId d \<le> 0xFFFFFFFF" using assms(3) by (simp_all add: draws_ok_def)
  note intros = good_ret [of relay_inv, OF assms(5)] onDestroy_good [OF assms(5)] onOutboundCreated_good [OF assms(5) hid]
    onOutboundRelay_good [OF assms(5) conjunct2 [OF p]] onInboundRelay_good [OF assms(5) conjunct2 [OF p] assms(4)]
    onInboundCreate_good [OF assms(1-3,5) conjunct1 [OF p]]
    good_inv [OF destroyCircuit_good [OF inv_lookup [OF assms(5)]]]
  show ?thesis
    unfolding onCell_def Some option.case Let_def
    by (cases "map_get (rst_circuits s) (keyOf l (cel_circuitId parsed))") (auto intro: intros)
qed (use assms in \<open>simp add: onCell_def good_ret\<close>)

lemma extendDialled_sound:
  assumes "relay_inv s" "pending \<in> set (rst_dials s)" "range rnd \<subseteq> {1..<0x80000000}"
  shows "sound relay_inv whole_cell (extendDialled rnd hid pending dialled s)"
proof -
  obtain ref p where pd: "pending = (ref, p)" by fastforce
  have hop: "has_hop s ref" "length (ext_handshakeMessage p) = 1216"
    using assms(1,2) unfolding relay_inv_def pd by blast+
  let ?s = "s\<lparr>rst_dials := remove1 pending (rst_dials s)\<rparr>"
  have i0: "inv_at ref s" using assms(1) hop(1) by (simp add: inv_at_def has_hop_def)
  have i: "inv_at ref ?s"
  proof (rule inv_same_objs [OF i0])
    show "\<forall>(r, p)\<in>set (rst_dials ?s). has_hop s r \<and> length (ext_handshakeMessage p) = 1216"
      using inv_dials [OF i0] set_remove1_subset [of pending "rst_dials s"] by auto
  qed (simp_all, blast dest: inv_bounds [OF i0])
  have ref: "ref < length (rst_objs ?s)" using i by (simp add: inv_at_def)
  have o: "obj ?s ref = obj s ref" by (simp add: obj_def)
  show ?thesis
  proof (cases dialled)
    case None
    then show ?thesis
      using good_sound [OF good_inv [OF destroyCircuit_good [OF i]]] by (simp add: extendDialled_def pd)
  next
    case (Some l)
    show ?thesis
    proof (cases "cir_role (obj ?s ref) = Role_Destroyed")
      case True
      then show ?thesis using i by (simp add: extendDialled_def pd Some good_sound good_ret inv_at_def)
    next
      case False
      show ?thesis
      proof (cases "allocateOutboundCircuitId rnd (rst_circuits ?s) l")
        case (Inl e)
        then show ?thesis using False i by (simp add: extendDialled_def pd Some Let_def sound_throw inv_at_def)
      next
        case (Inr cid)
        have cid: "cid < 2 ^ 32"
          using Inr assms(3)
          by (fastforce simp: allocateOutboundCircuitId_def find_Some_iff image_subset_iff split: option.splits)
        let ?f = "\<lambda>c. c\<lparr>cir_outbound := Some (l, cid), cir_createdReassembler := Some defaultReassembler,
          cir_role := Role_Extending\<rparr>"
        have "inv_at ref (on_obj ref ?f ?s)"
          by (rule inv_on_obj [OF i]) (use obj_ok [OF i] hop(1) cid o in \<open>auto simp: circuit_ok_def has_hop_def\<close>)
        then have "inv_at ref ((on_obj ref ?f ?s)\<lparr>rst_circuits := map_set (keyOf l cid) ref (rst_circuits ?s)\<rparr>)" (is "inv_at ref ?t")
          using inv_register [of ref "on_obj ref ?f ?s" ref] ref by simp
        then have t: "relay_inv ?t" by (simp add: inv_at_def)
        have "sound relay_inv whole_cell (seq (lift r ?t) (for_each (sendCell (l, cid) 1)))" for r
          using t by (intro sound_seq [where J = relay_inv] sound_for_each sendCell_sound)
            (auto simp: lift_def sound_def)
        then show ?thesis using False Inr by (simp add: extendDialled_def pd Some Let_def)
      qed
    qed
  qed
qed

lemma exit_ok_none: "exit_ok (\<lambda>d. ret ())"
  by (simp add: exit_ok_def good_sound good_ret)

section \<open>The state after an operation\<close>

definition after :: "('a, 'e, 's) effectful \<Rightarrow> 's" where "after a = snd (snd a)"

lemma after_simps [simp]: "after (ret x s) = s" "after (throw e s) = s" "after (emit ev s) = s" "after (update f s) = f s"
  "after (lift r s) = s" "after (swallow a) = after a"
  by (simp_all add: after_def ret_def throw_def emit_def update_def lift_def swallow_def split: prod.splits)

lemma after_seq: "after (seq a k) = (case fst a of Inl e \<Rightarrow> after a | Inr x \<Rightarrow> after (k x (after a)))"
  by (cases a) (simp add: after_def seq_def split: sum.splits prod.splits)

lemma fst_simps [simp]: "fst (ret x s) = Inr x" "fst (emit ev s) = Inr ()" "fst (update f s) = Inr ()" "fst (swallow a) = Inr ()"
  by (simp_all add: ret_def emit_def update_def swallow_def split: prod.splits)

lemma after_sendCell [simp]: "after (sendCell lc cmd p s) = s"
  by (simp add: sendCell_def split: sum.splits)

lemma after_sendDestroy [simp]: "after (sendDestroy lc s) = s" "fst (sendDestroy lc s) = Inr ()"
  by (simp_all add: sendDestroy_def)

lemma after_for_each: "(\<And>x s. after (f x s) = s) \<Longrightarrow> after (for_each f xs s) = s"
  by (induction xs arbitrary: s) (simp_all add: after_seq split: sum.splits)

definition destroyed :: "nat \<Rightarrow> 'x relay_state_scheme \<Rightarrow> 'x relay_state_scheme" where
  "destroyed ref s =
     (let c = obj s ref; s = unregister (cir_inbound c) (on_obj ref (\<lambda>c. c\<lparr>cir_role := Role_Destroyed\<rparr>) s)
      in case cir_outbound c of None \<Rightarrow> s | Some out \<Rightarrow> unregister out s)"

lemma after_destroyCircuit:
  "after (destroyCircuit ref s) = (if cir_role (obj s ref) = Role_Destroyed then s else destroyed ref s)"
  by (simp add: destroyCircuit_def destroyed_def Let_def after_seq split: option.splits)

lemma after_onDestroy:
  "after (onDestroy l parsed s) = (case map_get (rst_circuits s) (keyOf l (cel_circuitId parsed)) of
     None \<Rightarrow> s | Some ref \<Rightarrow> destroyed ref s)"
  by (simp add: onDestroy_def destroyed_def Let_def after_seq split: option.splits)

section \<open>A tidy table\<close>

text \<open>The keys a live circuit is filed under; the table has these keys and no other.\<close>

definition keys_of :: "circuit_obj \<Rightarrow> (string \<times> nat) set" where
  "keys_of c = (if cir_role c = Role_Destroyed then {}
     else insert (keyOf (fst (cir_inbound c)) (snd (cir_inbound c)))
       (case cir_outbound c of None \<Rightarrow> {} | Some out \<Rightarrow> {keyOf (fst out) (snd out)}))"

definition tidy :: "'x relay_state_scheme \<Rightarrow> bool" where
  "tidy s \<longleftrightarrow>
     (\<forall>k ref. map_get (rst_circuits s) k = Some ref \<longleftrightarrow> ref < length (rst_objs s) \<and> k \<in> keys_of (obj s ref))
   \<and> (\<forall>(ref, p)\<in>set (rst_dials s). ref < length (rst_objs s)
        \<and> (cir_role (obj s ref) \<noteq> Role_Destroyed \<longrightarrow> cir_outbound (obj s ref) = None))"

lemma tidy_lookup: "tidy s \<Longrightarrow> map_get (rst_circuits s) k = Some ref \<longleftrightarrow> ref < length (rst_objs s) \<and> k \<in> keys_of (obj s ref)"
  unfolding tidy_def by blast

lemma tidy_dials: "tidy s \<Longrightarrow> (ref, p) \<in> set (rst_dials s) \<Longrightarrow> ref < length (rst_objs s)
    \<and> (cir_role (obj s ref) \<noteq> Role_Destroyed \<longrightarrow> cir_outbound (obj s ref) = None)"
  unfolding tidy_def by blast

lemma tidyI:
  assumes "\<And>k ref. map_get (rst_circuits s) k = Some ref \<longleftrightarrow> ref < length (rst_objs s) \<and> k \<in> keys_of (obj s ref)"
    and "\<And>ref p. (ref, p) \<in> set (rst_dials s) \<Longrightarrow> ref < length (rst_objs s)
        \<and> (cir_role (obj s ref) \<noteq> Role_Destroyed \<longrightarrow> cir_outbound (obj s ref) = None)"
  shows "tidy s"
  using assms unfolding tidy_def by blast

text \<open>No two circuits share a key.\<close>

lemma keys_disjoint: "tidy s \<Longrightarrow> r < length (rst_objs s) \<Longrightarrow> r' < length (rst_objs s) \<Longrightarrow>
  k \<in> keys_of (obj s r) \<Longrightarrow> k \<in> keys_of (obj s r') \<Longrightarrow> r = r'"
  using tidy_lookup [of s k r] tidy_lookup [of s k r'] by simp

lemma destroyed_simps:
  "rst_objs (destroyed ref s) = rst_objs (on_obj ref (\<lambda>c. c\<lparr>cir_role := Role_Destroyed\<rparr>) s)"
  "rst_dials (destroyed ref s) = rst_dials s"
  "cir_role (obj s ref) \<noteq> Role_Destroyed \<Longrightarrow> map_get (rst_circuits (destroyed ref s)) k
     = (if k \<in> keys_of (obj s ref) then None else map_get (rst_circuits s) k)"
  by (auto simp: destroyed_def Let_def unregister_def keys_of_def jm.get_del split: option.splits)

lemma tidy_destroyed:
  assumes t: "tidy s" and ref: "ref < length (rst_objs s)" and live: "cir_role (obj s ref) \<noteq> Role_Destroyed"
  shows "tidy (destroyed ref s)"
proof (rule tidyI)
  have o: "obj (destroyed ref s) r = (if r = ref then (obj s ref)\<lparr>cir_role := Role_Destroyed\<rparr> else obj s r)" for r
    using obj_on_obj [OF ref, of "\<lambda>c. c\<lparr>cir_role := Role_Destroyed\<rparr>" r] by (simp add: obj_def destroyed_simps(1))
  have n: "length (rst_objs (destroyed ref s)) = length (rst_objs s)" by (simp add: destroyed_simps(1))
  show "map_get (rst_circuits (destroyed ref s)) k = Some r
      \<longleftrightarrow> r < length (rst_objs (destroyed ref s)) \<and> k \<in> keys_of (obj (destroyed ref s) r)" for k r
    using keys_disjoint [OF t ref, of r k]
    by (auto simp: o n destroyed_simps(3) [OF live] tidy_lookup [OF t] keys_of_def)
  show "r < length (rst_objs (destroyed ref s))
      \<and> (cir_role (obj (destroyed ref s) r) \<noteq> Role_Destroyed \<longrightarrow> cir_outbound (obj (destroyed ref s) r) = None)"
    if "(r, p) \<in> set (rst_dials (destroyed ref s))" for r p
    using that tidy_dials [OF t, of r p] by (simp add: o n destroyed_simps(2))
qed

text \<open>An update that leaves the two ends alone, and the circuit live or destroyed as it was.\<close>

lemma tidy_on_obj:
  assumes t: "tidy s" and ref: "ref < length (rst_objs s)"
    and f: "keys_of (f (obj s ref)) = keys_of (obj s ref)" "cir_outbound (f (obj s ref)) = cir_outbound (obj s ref)"
      "cir_role (f (obj s ref)) = Role_Destroyed \<longleftrightarrow> cir_role (obj s ref) = Role_Destroyed"
  shows "tidy (on_obj ref f s)"
proof (rule tidyI)
  show "map_get (rst_circuits (on_obj ref f s)) k = Some r
      \<longleftrightarrow> r < length (rst_objs (on_obj ref f s)) \<and> k \<in> keys_of (obj (on_obj ref f s) r)" for k r
    using f(1) by (simp add: tidy_lookup [OF t] obj_on_obj [OF ref])
  show "r < length (rst_objs (on_obj ref f s))
      \<and> (cir_role (obj (on_obj ref f s) r) \<noteq> Role_Destroyed \<longrightarrow> cir_outbound (obj (on_obj ref f s) r) = None)"
    if "(r, p) \<in> set (rst_dials (on_obj ref f s))" for r p
    using that f(2,3) tidy_dials [OF t, of r p] by (auto simp: obj_on_obj [OF ref])
qed

lemma tidy_destroyCircuit: "tidy s \<Longrightarrow> ref < length (rst_objs s) \<Longrightarrow> tidy (after (destroyCircuit ref s))"
  by (simp add: after_destroyCircuit tidy_destroyed)

lemma tidy_onDestroy: "tidy s \<Longrightarrow> tidy (after (onDestroy l parsed s))"
  by (auto simp: after_onDestroy tidy_lookup keys_of_def intro!: tidy_destroyed split: option.splits if_splits)

lemma tidy_new_circuit:
  assumes t: "tidy s" and k: "map_get (rst_circuits s) (keyOf l cid) = None"
  shows "tidy (s\<lparr>rst_objs := rst_objs s @ [new_circuit l cid],
    rst_circuits := map_set (keyOf l cid) (length (rst_objs s)) (rst_circuits s)\<rparr>)" (is "tidy ?t")
proof (rule tidyI)
  have o: "obj ?t r = (if r < length (rst_objs s) then obj s r else new_circuit l cid)"
    if "r < length (rst_objs ?t)" for r
    using that by (auto simp: obj_def nth_append less_Suc_eq)
  have n: "keys_of (new_circuit l cid) = {keyOf l cid}" by (simp add: keys_of_def new_circuit_def)
  show "map_get (rst_circuits ?t) j = Some r \<longleftrightarrow> r < length (rst_objs ?t) \<and> j \<in> keys_of (obj ?t r)" for j r
  proof (cases "r < length (rst_objs s)")
    case True
    then have "obj ?t r = obj s r" "keyOf l cid \<notin> keys_of (obj s r)"
      using o [of r] tidy_lookup [OF t, of "keyOf l cid" r] k by simp_all
    then show ?thesis using True tidy_lookup [OF t, of j r] by (auto simp: jm.get_put)
  next
    case False
    then have "map_get (rst_circuits s) j \<noteq> Some r" using tidy_lookup [OF t, of j r] by simp
    then show ?thesis using False o [of r] n by (auto simp: jm.get_put less_Suc_eq)
  qed
  show "r < length (rst_objs ?t) \<and> (cir_role (obj ?t r) \<noteq> Role_Destroyed \<longrightarrow> cir_outbound (obj ?t r) = None)"
    if "(r, p) \<in> set (rst_dials ?t)" for r p
    using that tidy_dials [OF t, of r p] o [of r] by auto
qed

lemma tidy_create_step:
  assumes t: "tidy s" and ref: "ref < length (rst_objs s)" and role: "cir_role (obj s ref) = Role_Pending"
  shows "tidy (after (create_step C d now i l raw ref s))"
proof -
  have *: "tidy (on_obj ref (\<lambda>c. c\<lparr>cir_createReassembler := r\<rparr>) s)" for r
    by (rule tidy_on_obj [OF t ref]) (simp_all add: keys_of_def)
  have **: "tidy (on_obj ref (\<lambda>c. c\<lparr>cir_relayHop := Some h, cir_createReassembler := None,
      cir_role := Role_Established\<rparr>) (on_obj ref (\<lambda>c. c\<lparr>cir_createReassembler := r\<rparr>) s))" for h r
    by (rule tidy_on_obj [OF *]) (use ref role in \<open>simp_all add: keys_of_def\<close>)
  show ?thesis
    using t * ** ref by (auto simp: create_step_def Let_def tidy_destroyCircuit after_for_each
        split: option.splits sum.splits progress.splits)
qed

lemma tidy_onInboundCreate: "tidy s \<Longrightarrow> tidy (after (onInboundCreate C d now i l raw parsed s))"
proof (cases "map_get (rst_circuits s) (keyOf l (cel_circuitId parsed))")
  case None
  assume t: "tidy s"
  show ?thesis
    unfolding onInboundCreate_def Let_def None option.case
    by (rule tidy_create_step [OF tidy_new_circuit [OF t None]]) (simp_all add: obj_def new_circuit_def)
next
  case (Some ref)
  assume t: "tidy s"
  then have "ref < length (rst_objs s)" using Some tidy_lookup by blast
  then show ?thesis
    using t by (simp add: onInboundCreate_def Some tidy_create_step tidy_destroyCircuit)
qed

text \<open>Hops, reassemblers and splice partners are not part of the table.\<close>

lemma tidy_hop: "tidy s \<Longrightarrow> ref < length (rst_objs s) \<Longrightarrow> tidy (on_obj ref (\<lambda>c. c\<lparr>cir_relayHop := h\<rparr>) s)"
  by (rule tidy_on_obj) (simp_all add: keys_of_def)

lemma tidy_onOutboundRelay: "tidy s \<Longrightarrow> tidy (after (onOutboundRelay C l parsed s))"
  by (auto simp: onOutboundRelay_def Let_def tidy_lookup intro!: tidy_hop split: option.splits sum.splits)

lemma tidy_onOutboundCreated: "tidy s \<Longrightarrow> tidy (after (onOutboundCreated C hid now l parsed s))"
proof (cases "map_get (rst_circuits s) (keyOf l (cel_circuitId parsed))")
  case (Some ref)
  assume t: "tidy s"
  then have ref: "ref < length (rst_objs s)" using Some tidy_lookup by blast
  have *: "tidy (on_obj ref (\<lambda>c. c\<lparr>cir_createdReassembler := r\<rparr>) s)" for r
    by (rule tidy_on_obj [OF t ref]) (simp_all add: keys_of_def)
  have **: "tidy (on_obj ref (\<lambda>c. c\<lparr>cir_createdReassembler := None, cir_role := Role_Established\<rparr>) u)"
    if "tidy u" "ref < length (rst_objs u)" "cir_role (obj u ref) = Role_Extending" for u :: "'a relay_state_scheme"
    by (rule tidy_on_obj [OF that(1,2)]) (use that(3) in \<open>simp_all add: keys_of_def\<close>)
  show ?thesis
    using t ref by (auto simp: onOutboundCreated_def Some Let_def after_seq after_for_each
        intro!: tidy_destroyCircuit tidy_hop * ** split: option.splits sum.splits ingested.splits prod.splits)
qed (simp add: onOutboundCreated_def)

lemma tidy_relayBeginExtend: "tidy s \<Longrightarrow> ref < length (rst_objs s) \<Longrightarrow> tidy (after (relayBeginExtend pr ref p s))"
proof -
  assume t: "tidy s" and ref: "ref < length (rst_objs s)"
  have "tidy (s\<lparr>rst_dials := (ref, p) # rst_dials s\<rparr>)" (is "tidy ?t") if "cir_outbound (obj s ref) = None"
  proof (rule tidyI)
    show "map_get (rst_circuits ?t) k = Some r \<longleftrightarrow> r < length (rst_objs ?t) \<and> k \<in> keys_of (obj ?t r)" for k r
      using tidy_lookup [OF t, of k r] by (simp add: obj_def)
    show "r < length (rst_objs ?t) \<and> (cir_role (obj ?t r) \<noteq> Role_Destroyed \<longrightarrow> cir_outbound (obj ?t r) = None)"
      if "(r, q) \<in> set (rst_dials ?t)" for r q
      using that \<open>cir_outbound (obj s ref) = None\<close> ref tidy_dials [OF t, of r q] by (auto simp: obj_def)
  qed
  then show ?thesis
    using t ref by (cases "cir_outbound (obj s ref)") (simp_all add: relayBeginExtend_def tidy_destroyCircuit split: option.splits)
qed

definition exit_tidy :: "(exit_data \<Rightarrow> 'x relay_state_scheme \<Rightarrow> (unit, 'x) relay_act) \<Rightarrow> bool" where
  "exit_tidy onExitData \<longleftrightarrow> (\<forall>d s. tidy s \<longrightarrow> xd_circuit d < length (rst_objs s) \<longrightarrow> tidy (after (onExitData d s)))"

lemma exit_tidy_none: "exit_tidy (\<lambda>d. ret ())"
  by (simp add: exit_tidy_def)

lemma tidy_splice: "tidy s \<Longrightarrow> partner < length (rst_objs s) \<Longrightarrow> tidy (after (spliceHandler C partner p s))"
  by (auto simp: spliceHandler_def Let_def intro!: tidy_hop split: option.splits sum.splits)

lemma tidy_onInboundRelay:
  assumes t: "tidy s" and inv: "relay_inv s" and ex: "exit_tidy ex"
  shows "tidy (after (onInboundRelay C now pr ex l parsed s))"
proof (cases "map_get (rst_circuits s) (keyOf l (cel_circuitId parsed))")
  case (Some ref)
  then have ref: "ref < length (rst_objs s)" using t tidy_lookup by blast
  have h: "tidy (on_obj ref (\<lambda>c. c\<lparr>cir_relayHop := Some hop\<rparr>) s)" for hop by (rule tidy_hop [OF t ref])
  have part: "partner < length (rst_objs s)" if "cir_spliceHandler (obj s ref) = Some partner" for partner
    using splice_hop [OF inv ref that] by (simp add: has_hop_def)
  show ?thesis
  proof (cases "cir_role (obj s ref) = Role_Destroyed \<or> cir_role (obj s ref) = Role_Pending \<or> cir_relayHop (obj s ref) = None
      \<or> (\<exists>hop e. cir_relayHop (obj s ref) = Some hop \<and> handleRelayAtHop C now hop (cel_payload parsed) = Inl e)")
    case True
    then show ?thesis
      by (elim disjE exE conjE) (simp_all add: onInboundRelay_def Some tidy_destroyCircuit t ref)
  next
    case False
    then obtain hop ev h' where live: "cir_role (obj s ref) \<noteq> Role_Destroyed" "cir_role (obj s ref) \<noteq> Role_Pending"
      "cir_relayHop (obj s ref) = Some hop" "handleRelayAtHop C now hop (cel_payload parsed) = Inr (ev, h')"
      by (cases "cir_relayHop (obj s ref)"; cases "handleRelayAtHop C now (the (cir_relayHop (obj s ref))) (cel_payload parsed)") auto
    show ?thesis
      unfolding onInboundRelay_live [OF Some live]
      using h [of h'] ref part ex by (cases ev)
        (auto simp: exit_tidy_def intro!: tidy_destroyCircuit tidy_splice tidy_relayBeginExtend split: option.splits)
  qed
qed (simp add: onInboundRelay_def t)

lemma tidy_onCell:
  assumes "tidy s" "relay_inv s" "exit_tidy ex"
  shows "tidy (after (onCell C d now i pr ex l raw s))"
proof (cases "parseCell raw")
  case (Some parsed)
  have "tidy (after (destroyCircuit ref s))" if "map_get (rst_circuits s) k = Some ref" for k ref
    using tidy_destroyCircuit [OF assms(1)] that tidy_lookup [OF assms(1)] by blast
  then show ?thesis
    using assms(1) tidy_onInboundRelay [OF assms] unfolding onCell_def Some option.case Let_def
    by (cases "map_get (rst_circuits s) (keyOf l (cel_circuitId parsed))")
      (auto intro: tidy_onDestroy tidy_onOutboundCreated tidy_onOutboundRelay tidy_onInboundCreate)
qed (simp add: onCell_def assms)

text \<open>The dial of an extension files the circuit under a free key. No other dial may be pending for the circuit.\<close>

lemma tidy_extendDialled:
  assumes t: "tidy s" and pd: "(ref, p) \<in> set (rst_dials s)" and one: "distinct (map fst (rst_dials s))"
  shows "tidy (after (extendDialled rnd hid (ref, p) dialled s))"
proof -
  let ?s = "s\<lparr>rst_dials := remove1 (ref, p) (rst_dials s)\<rparr>"
  have s: "tidy ?s"
  proof (rule tidyI)
    show "map_get (rst_circuits ?s) k = Some r \<longleftrightarrow> r < length (rst_objs ?s) \<and> k \<in> keys_of (obj ?s r)" for k r
      using tidy_lookup [OF t, of k r] by (simp add: obj_def)
    show "r < length (rst_objs ?s) \<and> (cir_role (obj ?s r) \<noteq> Role_Destroyed \<longrightarrow> cir_outbound (obj ?s r) = None)"
      if "(r, q) \<in> set (rst_dials ?s)" for r q
      using that tidy_dials [OF t, of r q] set_remove1_subset by (fastforce simp: obj_def)
  qed
  have other: "r \<noteq> ref" if "(r, q) \<in> set (remove1 (ref, p) (rst_dials s))" for r q
  proof
    assume "r = ref"
    have "(r, q) \<in> set (rst_dials s)" using that set_remove1_subset by fast
    then have "(r, q) = (ref, p)" using one pd \<open>r = ref\<close> by (intro inj_onD [of fst "set (rst_dials s)"]) (simp_all add: distinct_map)
    then show False using that one by (simp add: distinct_map)
  qed
  have ref: "ref < length (rst_objs ?s)" using tidy_dials [OF t pd] by simp
  show ?thesis
  proof (cases dialled)
    case None
    then show ?thesis using s ref by (simp add: extendDialled_def tidy_destroyCircuit)
  next
    case (Some l)
    show ?thesis
    proof (cases "cir_role (obj ?s ref) = Role_Destroyed \<or> (\<exists>e. allocateOutboundCircuitId rnd (rst_circuits s) l = Inl e)")
      case True
      then show ?thesis using s by (auto simp: extendDialled_def Some Let_def)
    next
      case False
      then obtain cid where cid: "allocateOutboundCircuitId rnd (rst_circuits s) l = Inr cid"
        by (cases "allocateOutboundCircuitId rnd (rst_circuits s) l") auto
      then have free: "map_get (rst_circuits s) (keyOf l cid) = None"
        by (auto simp: allocateOutboundCircuitId_def find_Some_iff map_has_get split: option.splits)
      have live: "cir_role (obj s ref) \<noteq> Role_Destroyed" using False by (simp add: obj_def)
      have no: "cir_outbound (obj s ref) = None" using tidy_dials [OF t pd] live by simp
      let ?f = "\<lambda>c. c\<lparr>cir_outbound := Some (l, cid), cir_createdReassembler := Some defaultReassembler,
          cir_role := Role_Extending\<rparr>"
      let ?t = "(on_obj ref ?f ?s)\<lparr>rst_circuits := map_set (keyOf l cid) ref (rst_circuits s)\<rparr>"
      have o: "obj ?t r = (if r = ref then ?f (obj s ref) else obj s r)" for r
        using obj_on_obj [OF ref, of ?f r] by (simp add: obj_def on_obj_def)
      have k: "keys_of (?f (obj s ref)) = insert (keyOf l cid) (keys_of (obj s ref))"
        using live no by (auto simp: keys_of_def)
      have "tidy ?t"
      proof (rule tidyI)
        show "map_get (rst_circuits ?t) j = Some r \<longleftrightarrow> r < length (rst_objs ?t) \<and> j \<in> keys_of (obj ?t r)" for j r
          using tidy_lookup [OF t, of j r] tidy_lookup [OF t, of "keyOf l cid" r] free ref k
          by (cases "r = ref"; cases "j = keyOf l cid") (simp_all add: o jm.get_put)
        show "r < length (rst_objs ?t) \<and> (cir_role (obj ?t r) \<noteq> Role_Destroyed \<longrightarrow> cir_outbound (obj ?t r) = None)"
          if "(r, q) \<in> set (rst_dials ?t)" for r q
        proof -
          have d: "(r, q) \<in> set (remove1 (ref, p) (rst_dials s))" using that by simp
          then have "(r, q) \<in> set (rst_dials s)" using set_remove1_subset by fast
          note d0 = tidy_dials [OF t this]
          have e1: "obj ?t r = obj s r" using o [of r] other [OF d] by (simp only: if_False)
          have e2: "length (rst_objs ?t) = length (rst_objs s)" by simp
          show ?thesis unfolding e1 e2 by (rule d0)
        qed
      qed
      moreover have "after (extendDialled rnd hid (ref, p) (Some l) s) = ?t"
        using False cid by (simp add: extendDialled_def Let_def after_seq after_for_each split: sum.splits)
      ultimately show ?thesis by (simp add: Some)
    qed
  qed
qed

section \<open>What an operation leaves alone\<close>

text \<open>A circuit that has its hop keeps it, and what extends the state is not touched.\<close>

definition keeps :: "'x relay_state_scheme \<Rightarrow> 'x relay_state_scheme \<Rightarrow> bool" where
  "keeps s t \<longleftrightarrow> (\<forall>ref. has_hop s ref \<longrightarrow> has_hop t ref) \<and> relay_state.more t = relay_state.more s"

lemma keeps_refl [simp]: "keeps s s" by (simp add: keeps_def)

lemma keeps_trans: "keeps s t \<Longrightarrow> keeps t u \<Longrightarrow> keeps s u" by (auto simp: keeps_def)

lemma keeps_on_obj:
  "(cir_relayHop (obj s ref) \<noteq> None \<Longrightarrow> cir_relayHop (f (obj s ref)) \<noteq> None) \<Longrightarrow> keeps s (on_obj ref f s)"
proof -
  assume f: "cir_relayHop (obj s ref) \<noteq> None \<Longrightarrow> cir_relayHop (f (obj s ref)) \<noteq> None"
  have "relay_state.more (on_obj ref f s) = relay_state.more s" by (simp add: on_obj_def)
  moreover have "has_hop s r \<Longrightarrow> has_hop (on_obj ref f s) r" for r
    using f obj_on_obj [of ref s f r]
    by (cases "ref < length (rst_objs s)") (auto simp: has_hop_def, auto simp: on_obj_def obj_def)
  ultimately show ?thesis by (simp add: keeps_def)
qed

lemma keeps_unregister: "keeps s (unregister lc s)"
  by (simp add: keeps_def has_hop_def obj_def unregister_def)

lemma keeps_destroyCircuit: "keeps s (after (destroyCircuit ref s))"
  unfolding after_destroyCircuit destroyed_def Let_def
  by (auto intro!: keeps_refl keeps_trans [OF _ keeps_unregister] keeps_on_obj split: option.splits)

lemma keeps_onDestroy: "keeps s (after (onDestroy l parsed s))"
  unfolding after_onDestroy destroyed_def Let_def
  by (auto intro!: keeps_refl keeps_trans [OF _ keeps_unregister] keeps_on_obj split: option.splits)

lemma keeps_create_step: "keeps s (after (create_step C d now i l raw ref s))"
  by (auto simp: create_step_def Let_def after_for_each intro!: keeps_on_obj keeps_trans [OF _ keeps_destroyCircuit]
      keeps_trans [OF keeps_on_obj keeps_on_obj] split: option.splits sum.splits progress.splits)

lemma keeps_onInboundCreate: "keeps s (after (onInboundCreate C d now i l raw parsed s))"
proof -
  have "keeps s (s\<lparr>rst_objs := rst_objs s @ [c], rst_circuits := m\<rparr>)" for c m
    by (auto simp: keeps_def has_hop_def obj_def nth_append)
  then show ?thesis
    by (auto simp: onInboundCreate_def Let_def intro: keeps_destroyCircuit keeps_create_step
        keeps_trans [OF _ keeps_create_step] split: option.splits)
qed

lemma keeps_onOutboundRelay: "keeps s (after (onOutboundRelay C l parsed s))"
  by (auto simp: onOutboundRelay_def Let_def intro!: keeps_on_obj split: option.splits sum.splits)

lemma keeps_onOutboundCreated: "keeps s (after (onOutboundCreated C hid now l parsed s))"
  by (auto simp: onOutboundCreated_def Let_def after_seq after_for_each intro!: keeps_on_obj
      keeps_trans [OF _ keeps_destroyCircuit] keeps_trans [OF keeps_on_obj keeps_on_obj]
      keeps_trans [OF keeps_on_obj keeps_trans [OF keeps_on_obj keeps_on_obj]]
      split: option.splits sum.splits ingested.splits prod.splits)

lemma keeps_splice: "keeps s (after (spliceHandler C partner p s))"
  by (auto simp: spliceHandler_def Let_def intro!: keeps_on_obj split: option.splits sum.splits)

lemma keeps_dials: "keeps s (s\<lparr>rst_dials := ds\<rparr>)"
  by (simp add: keeps_def has_hop_def obj_def)

lemma keeps_relayBeginExtend: "keeps s (after (relayBeginExtend pr ref p s))"
  by (auto simp: relayBeginExtend_def intro: keeps_destroyCircuit keeps_dials split: option.splits)

lemma keeps_onInboundRelay: "keeps s (after (onInboundRelay C now pr (\<lambda>d. ret ()) l parsed s))"
proof (cases "map_get (rst_circuits s) (keyOf l (cel_circuitId parsed))")
  case (Some ref)
  show ?thesis
  proof (cases "cir_role (obj s ref) = Role_Destroyed \<or> cir_role (obj s ref) = Role_Pending \<or> cir_relayHop (obj s ref) = None
      \<or> (\<exists>hop e. cir_relayHop (obj s ref) = Some hop \<and> handleRelayAtHop C now hop (cel_payload parsed) = Inl e)")
    case True
    then show ?thesis
      by (elim disjE exE conjE) (simp_all add: onInboundRelay_def Some keeps_destroyCircuit)
  next
    case False
    then obtain hop ev h' where live: "cir_role (obj s ref) \<noteq> Role_Destroyed" "cir_role (obj s ref) \<noteq> Role_Pending"
      "cir_relayHop (obj s ref) = Some hop" "handleRelayAtHop C now hop (cel_payload parsed) = Inr (ev, h')"
      by (cases "cir_relayHop (obj s ref)"; cases "handleRelayAtHop C now (the (cir_relayHop (obj s ref))) (cel_payload parsed)") auto
    have h: "keeps s (on_obj ref (\<lambda>c. c\<lparr>cir_relayHop := Some h'\<rparr>) s)" by (rule keeps_on_obj) simp
    show ?thesis
      unfolding onInboundRelay_live [OF Some live]
      by (cases ev) (auto simp: h intro!: keeps_trans [OF h keeps_destroyCircuit] keeps_trans [OF h keeps_splice]
          keeps_trans [OF h keeps_relayBeginExtend] split: option.splits)
  qed
qed (simp add: onInboundRelay_def)

lemma keeps_onCell: "keeps s (after (onCell C d now i pr (\<lambda>d. ret ()) l raw s))"
proof (cases "parseCell raw")
  case (Some parsed)
  show ?thesis
    unfolding onCell_def Some option.case Let_def
    by (cases "map_get (rst_circuits s) (keyOf l (cel_circuitId parsed))")
      (auto intro: keeps_onDestroy keeps_onOutboundCreated keeps_onOutboundRelay keeps_onInboundCreate
        keeps_onInboundRelay keeps_destroyCircuit)
qed (simp add: onCell_def)

lemma keeps_extendDialled: "keeps s (after (extendDialled rnd hid (ref, p) dialled s))"
proof -
  have reg: "keeps u (u\<lparr>rst_circuits := m\<rparr>)" for u :: "'a relay_state_scheme" and m
    by (simp add: keeps_def has_hop_def obj_def)
  show ?thesis
    by (auto simp: extendDialled_def Let_def after_seq after_for_each
        intro!: keeps_dials keeps_trans [OF keeps_dials keeps_destroyCircuit]
          keeps_trans [OF keeps_dials keeps_trans [OF keeps_on_obj reg]] split: option.splits sum.splits)
qed

text \<open>A cell is handled by the dispatcher alone, or ends in the exit callback on a live circuit.\<close>

lemma onInboundRelay_factor:
  assumes "relay_inv s"
  shows "(\<forall>ex. onInboundRelay C now pr ex l parsed s = onInboundRelay C now pr (\<lambda>d. ret ()) l parsed s)
   \<or> (\<exists>d t. has_hop t (xd_circuit d) \<and> xd_streamId d < 65536 \<and> (\<forall>ex. onInboundRelay C now pr ex l parsed s = swallow (ex d t)))"
proof (cases "map_get (rst_circuits s) (keyOf l (cel_circuitId parsed))")
  case (Some ref)
  have ref: "ref < length (rst_objs s)" using inv_lookup [OF assms Some] by (simp add: inv_at_def)
  show ?thesis
  proof (cases "cir_role (obj s ref) = Role_Destroyed \<or> cir_role (obj s ref) = Role_Pending \<or> cir_relayHop (obj s ref) = None
      \<or> (\<exists>hop e. cir_relayHop (obj s ref) = Some hop \<and> handleRelayAtHop C now hop (cel_payload parsed) = Inl e)")
    case True
    then show ?thesis by (elim disjE exE conjE) (simp_all add: onInboundRelay_def Some)
  next
    case False
    then obtain hop ev h' where live: "cir_role (obj s ref) \<noteq> Role_Destroyed" "cir_role (obj s ref) \<noteq> Role_Pending"
      "cir_relayHop (obj s ref) = Some hop" "handleRelayAtHop C now hop (cel_payload parsed) = Inr (ev, h')"
      by (cases "cir_relayHop (obj s ref)"; cases "handleRelayAtHop C now (the (cir_relayHop (obj s ref))) (cel_payload parsed)") auto
    show ?thesis
    proof (cases ev)
      case (Data cmd sid data)
      let ?d = "\<lparr>xd_circuit = ref, xd_link = l, xd_circuitId = cel_circuitId parsed, xd_relayCommand = cmd,
        xd_streamId = sid, xd_data = data\<rparr>" and ?t = "on_obj ref (\<lambda>c. c\<lparr>cir_relayHop := Some h'\<rparr>) s"
      have "has_hop ?t (xd_circuit ?d)" using ref by (simp add: has_hop_def)
      moreover have "xd_streamId ?d < 65536" using handleRelayAtHop_stream live(4) Data by simp
      moreover have "\<forall>ex. onInboundRelay C now pr ex l parsed s = swallow (ex ?d ?t)"
        by (simp add: onInboundRelay_live [OF Some live] Data)
      ultimately show ?thesis by blast
    qed (simp_all add: onInboundRelay_live [OF Some live])
  qed
qed (simp add: onInboundRelay_def)

lemma onCell_factor:
  assumes "relay_inv s"
  shows "(\<forall>ex. onCell C d now i pr ex l raw s = onCell C d now i pr (\<lambda>d. ret ()) l raw s)
   \<or> (\<exists>x t. has_hop t (xd_circuit x) \<and> xd_streamId x < 65536 \<and> (\<forall>ex. onCell C d now i pr ex l raw s = swallow (ex x t)))"
proof (cases "parseCell raw")
  case (Some parsed)
  show ?thesis
  proof (cases "length raw = 514 \<and> cel_command parsed = 3 \<and> (\<exists>ref. map_get (rst_circuits s) (keyOf l (cel_circuitId parsed)) = Some ref
      \<and> cir_inbound (obj s ref) = (l, cel_circuitId parsed) \<and> cir_outbound (obj s ref) \<noteq> Some (l, cel_circuitId parsed))")
    case True
    then have "onCell C d now i pr ex l raw s = onInboundRelay C now pr ex l parsed s" for ex
      using Some by (auto simp: onCell_def)
    then show ?thesis using onInboundRelay_factor [OF assms, of C now pr l parsed] by simp
  next
    case False
    have "onCell C d now i pr ex l raw s = onCell C d now i pr (\<lambda>d. ret ()) l raw s" for ex
      using Some False unfolding onCell_def Some option.case Let_def
      by (cases "map_get (rst_circuits s) (keyOf l (cel_circuitId parsed))") auto
    then show ?thesis by simp
  qed
qed (simp add: onCell_def)

section \<open>Runs\<close>

text \<open>What happens to a relay: a cell comes on a link, a dial ends, or something outside the dispatcher (an event
  of a socket) runs one of its roles. \<open>p\<close> are the draws and readings of the exit callback for this cell.\<close>

inductive relay_step :: "crypto \<Rightarrow> relay_identity \<Rightarrow> (bytes \<Rightarrow> peer_info option) \<Rightarrow>
    ('p \<Rightarrow> exit_data \<Rightarrow> 'x relay_state_scheme \<Rightarrow> (unit, 'x) relay_act) \<Rightarrow>
    ('q \<Rightarrow> 'x relay_state_scheme \<Rightarrow> (unit, 'x) relay_act) \<Rightarrow>
    'x relay_state_scheme \<Rightarrow> 'x relay_state_scheme \<Rightarrow> bool" for C and i and pr and ex and env where
  cell: "draws_ok d \<Longrightarrow> relay_step C i pr ex env s (after (onCell C d now i pr (ex p) l raw s))"
| dialled: "pending \<in> set (rst_dials s) \<Longrightarrow> range rnd \<subseteq> {1..<0x80000000} \<Longrightarrow>
    relay_step C i pr ex env s (after (extendDialled rnd hid pending dialled s))"
| outside: "relay_step C i pr ex env s (after (env q s))"

definition relay_idle :: "'x relay_state_scheme \<Rightarrow> bool" where
  "relay_idle s \<longleftrightarrow> rst_objs s = [] \<and> rst_circuits s = [] \<and> rst_dials s = []"

definition one_dial_each :: "'x relay_state_scheme \<Rightarrow> bool" where
  "one_dial_each s \<longleftrightarrow> distinct (map fst (rst_dials s))"

inductive relay_reach :: "('x relay_state_scheme \<Rightarrow> 'x relay_state_scheme \<Rightarrow> bool) \<Rightarrow> ('x relay_state_scheme \<Rightarrow> bool) \<Rightarrow>
    ('x relay_state_scheme \<Rightarrow> bool) \<Rightarrow> 'x relay_state_scheme \<Rightarrow> bool" for step and start and P where
  start: "start s \<Longrightarrow> relay_reach step start P s"
| step: "relay_reach step start P s \<Longrightarrow> P s \<Longrightarrow> step s t \<Longrightarrow> relay_reach step start P t"

inductive_cases relay_stepE: "relay_step C i pr ex env s t"

lemma idle_inv: "relay_idle s \<Longrightarrow> relay_inv s" "relay_idle s \<Longrightarrow> tidy s"
  by (auto simp: relay_idle_def relay_inv_def tidy_def)

text \<open>The contract between the dispatcher and the roles that its exit callback runs. \<open>X\<close> is what the roles need of
  their own part of the state and of the circuits they refer to: it survives what the dispatcher does, and
  the roles keep it, the circuits' well-formedness and the table.\<close>

locale exit_roles =
  fixes X :: "'x relay_state_scheme \<Rightarrow> bool"
    and start :: "'x relay_state_scheme \<Rightarrow> bool"
    and ex :: "'p \<Rightarrow> exit_data \<Rightarrow> 'x relay_state_scheme \<Rightarrow> (unit, 'x) relay_act"
    and env :: "'q \<Rightarrow> 'x relay_state_scheme \<Rightarrow> (unit, 'x) relay_act"
  assumes start_idle: "start s \<Longrightarrow> relay_idle s \<and> X s"
    and X_stable: "X s \<Longrightarrow> keeps s t \<Longrightarrow> X t"
    and ex_sound: "relay_inv s \<Longrightarrow> X s \<Longrightarrow> has_hop s (xd_circuit d) \<Longrightarrow> xd_streamId d < 65536 \<Longrightarrow> sound (\<lambda>s. relay_inv s \<and> X s) whole_cell (ex p d s)"
    and env_sound: "relay_inv s \<Longrightarrow> X s \<Longrightarrow> sound (\<lambda>s. relay_inv s \<and> X s) whole_cell (env q s)"
    and ex_tidy: "relay_inv s \<Longrightarrow> X s \<Longrightarrow> tidy s \<Longrightarrow> has_hop s (xd_circuit d) \<Longrightarrow> xd_streamId d < 65536 \<Longrightarrow> tidy (after (ex p d s))"
    and env_tidy: "relay_inv s \<Longrightarrow> X s \<Longrightarrow> tidy s \<Longrightarrow> tidy (after (env q s))"
begin

lemma onCell_roles:
  assumes "hash_ok C" "dh_correct C" "draws_ok d" "relay_inv s" "X s"
  shows "good (\<lambda>s. relay_inv s \<and> X s) whole_cell (onCell C d now i pr (ex p) l raw s)"
    and "tidy s \<Longrightarrow> tidy (after (onCell C d now i pr (ex p) l raw s))"
proof -
  let ?a = "onCell C d now i pr (\<lambda>d. ret ()) l raw s"
  have none: "good relay_inv whole_cell ?a" by (rule onCell_good [OF assms(1-3) exit_ok_none assms(4)])
  have k: "X (after ?a)" by (rule X_stable [OF assms(5) keeps_onCell])
  have t: "tidy s \<Longrightarrow> tidy (after ?a)" by (rule tidy_onCell [OF _ assms(4) exit_tidy_none])
  consider (alone) "\<forall>e. onCell C d now i pr e l raw s = ?a"
    | (exit) x u where "has_hop u (xd_circuit x)" "xd_streamId x < 65536" "\<And>e. onCell C d now i pr e l raw s = swallow (e x u)"
    using onCell_factor [OF assms(4), of C d now i pr l raw] by blast
  then show "good (\<lambda>s. relay_inv s \<and> X s) whole_cell (onCell C d now i pr (ex p) l raw s)"
  proof cases
    case alone
    have "onCell C d now i pr (ex p) l raw s = ?a" using alone by blast
    then show ?thesis using none k by (simp add: good_def sound_def after_def)
  next
    case exit
    have "after ?a = u" by (simp add: exit(3))
    then have "relay_inv u" "X u" using none k by (simp_all add: good_def sound_def after_def)
    then show ?thesis unfolding exit(3) by (intro good_swallow ex_sound exit(1,2))
  qed
  show "tidy s \<Longrightarrow> tidy (after (onCell C d now i pr (ex p) l raw s))"
    using onCell_factor [OF assms(4), of C d now i pr l raw]
  proof (elim disjE exE conjE)
    assume "\<forall>e. onCell C d now i pr e l raw s = ?a" "tidy s"
    then have "onCell C d now i pr (ex p) l raw s = ?a" by blast
    then show ?thesis using t \<open>tidy s\<close> by simp
  next
    fix x u
    assume u: "has_hop u (xd_circuit x)" "xd_streamId x < 65536" "\<forall>e. onCell C d now i pr e l raw s = swallow (e x u)" "tidy s"
    have e: "onCell C d now i pr e l raw s = swallow (e x u)" for e using u(3) by blast
    have "after ?a = u" by (simp add: e)
    then have "relay_inv u" "X u" "tidy u" using none k t u(4) by (simp_all add: good_def sound_def after_def)
    then show ?thesis using u(1,2) by (simp add: e ex_tidy)
  qed
qed

lemma reach_inv:
  "relay_reach (relay_step C i pr ex env) start P s \<Longrightarrow> hash_ok C \<Longrightarrow> dh_correct C \<Longrightarrow> relay_inv s \<and> X s"
proof (induction rule: relay_reach.induct)
  case (step s t)
  have s: "relay_inv s" "X s" using step.IH [OF step.prems] by simp_all
  from step.hyps(3) show ?case
  proof cases
    case (cell d now p l raw)
    then show ?thesis
      using onCell_roles(1) [OF step.prems cell(2) s] by (simp add: good_def sound_def after_def)
  next
    case (dialled pending rnd hid d)
    have "X t" unfolding dialled(1) by (cases pending) (auto intro: X_stable [OF s(2)] keeps_extendDialled)
    then show ?thesis using extendDialled_sound [OF s(1) dialled(2,3)] dialled(1) by (simp add: sound_def after_def)
  next
    case (outside q)
    then show ?thesis using env_sound [OF s] by (simp add: sound_def after_def)
  qed
qed (use start_idle idle_inv in blast)

lemma reach_tidy:
  "relay_reach (relay_step C i pr ex env) start one_dial_each s \<Longrightarrow> hash_ok C \<Longrightarrow> dh_correct C \<Longrightarrow> tidy s"
proof (induction rule: relay_reach.induct)
  case (step s t)
  have s: "relay_inv s" "X s" using reach_inv [OF step.hyps(1) step.prems] by simp_all
  note ts = step.IH [OF step.prems]
  from step.hyps(3) show ?case
  proof cases
    case (cell d now p l raw)
    then show ?thesis using onCell_roles(2) [OF step.prems cell(2) s ts] by simp
  next
    case (dialled pending rnd hid d)
    then show ?thesis
      using tidy_extendDialled [OF ts, of "fst pending" "snd pending"] step.hyps(2) by (simp add: one_dial_each_def)
  next
    case (outside q)
    then show ?thesis using env_tidy [OF s ts] by simp
  qed
qed (use start_idle idle_inv in blast)

end

section \<open>Along a path of relays\<close>

text \<open>A RELAY cell on the inbound side of a live circuit is for \<open>onInboundRelay\<close>.\<close>

definition live_at :: "link \<Rightarrow> nat \<Rightarrow> nat \<Rightarrow> relay_hop \<Rightarrow> 'x relay_state_scheme \<Rightarrow> bool" where
  "live_at l cid ref r s \<longleftrightarrow> tidy s \<and> ref < length (rst_objs s) \<and> cir_inbound (obj s ref) = (l, cid) \<and> cid < 2 ^ 32
     \<and> cir_role (obj s ref) \<noteq> Role_Destroyed \<and> cir_role (obj s ref) \<noteq> Role_Pending
     \<and> cir_relayHop (obj s ref) = Some r \<and> cir_outbound (obj s ref) \<noteq> Some (l, cid)"

lemma live_lookup: "live_at l cid ref r s \<Longrightarrow> map_get (rst_circuits s) (keyOf l cid) = Some ref"
  by (simp add: live_at_def tidy_lookup keys_of_def)

lemma onCell_relay:
  assumes "live_at l cid ref r s" "length p = 508"
  shows "onCell C d now i pr ex l (cell_bytes 2 cid 3 p) s
    = onInboundRelay C now pr ex l \<lparr>cel_version = 2, cel_circuitId = cid, cel_command = 3, cel_payload = p\<rparr> s"
proof -
  have "parseCell (cell_bytes 2 cid 3 p) = Some \<lparr>cel_version = 2, cel_circuitId = cid, cel_command = 3, cel_payload = p\<rparr>"
    using parse_cell_bytes [of 2 cid 3 p] assms by (simp add: live_at_def)
  then show ?thesis
    using assms live_lookup [OF assms(1)] by (simp add: onCell_def length_cell_bytes live_at_def)
qed

lemma onCell_at_hop:
  assumes live: "live_at l cid ref r s" and p: "length p = 508" and h: "handleRelayAtHop C now r p = Inr (ev, r')"
  defines "t \<equiv> on_obj ref (\<lambda>c. c\<lparr>cir_relayHop := Some r'\<rparr>) s"
  shows "ev = Forward q \<Longrightarrow> cir_outbound (obj s ref) = Some (l2, cid2) \<Longrightarrow> cid2 < 2 ^ 32 \<Longrightarrow> length q = 508 \<Longrightarrow>
      onCell C d now i pr ex l (cell_bytes 2 cid 3 p) s = emit (Cell_To l2 (cell_bytes 2 cid2 3 q)) t"
    and "ev = Data cmd sid data \<Longrightarrow>
      onCell C d now i pr ex l (cell_bytes 2 cid 3 p) s = swallow (ex \<lparr>xd_circuit = ref, xd_link = l, xd_circuitId = cid,
        xd_relayCommand = cmd, xd_streamId = sid, xd_data = data\<rparr> t)"
proof -
  let ?c = "\<lparr>cel_version = 2, cel_circuitId = cid, cel_command = 3, cel_payload = p\<rparr>"
  have g: "map_get (rst_circuits s) (keyOf l (cel_circuitId ?c)) = Some ref" "cir_role (obj s ref) \<noteq> Role_Destroyed"
    "cir_role (obj s ref) \<noteq> Role_Pending" "cir_relayHop (obj s ref) = Some r" "ref < length (rst_objs s)"
    using live live_lookup [OF live] by (simp_all add: live_at_def)
  have h': "handleRelayAtHop C now r (cel_payload ?c) = Inr (ev, r')" using h by simp
  note eq = onCell_relay [OF live p, of C d now i pr ex, unfolded onInboundRelay_live [OF g(1-4) h']]
  show "ev = Forward q \<Longrightarrow> cir_outbound (obj s ref) = Some (l2, cid2) \<Longrightarrow> cid2 < 2 ^ 32 \<Longrightarrow> length q = 508 \<Longrightarrow>
      onCell C d now i pr ex l (cell_bytes 2 cid 3 p) s = emit (Cell_To l2 (cell_bytes 2 cid2 3 q)) t"
    using buildCell_layout [of "int cid2" q 2 3] g(5) by (simp add: eq t_def sendCell_def)
  show "ev = Data cmd sid data \<Longrightarrow>
      onCell C d now i pr ex l (cell_bytes 2 cid 3 p) s = swallow (ex \<lparr>xd_circuit = ref, xd_link = l, xd_circuitId = cid,
        xd_relayCommand = cmd, xd_streamId = sid, xd_data = data\<rparr> t)"
    by (simp add: eq t_def)
qed

text \<open>A circuit through the dispatchers of several relays: each has the link its cells come in on, the
  circuit's reference there, and its state; the outbound circuit id of each is the inbound one of the next.\<close>

fun wired :: "client_hop list \<Rightarrow> nat \<Rightarrow> (link \<times> nat \<times> 'x relay_state_scheme) list \<Rightarrow> bool" where
  "wired [] cid [] \<longleftrightarrow> True"
| "wired (h # hs) cid ((l, ref, s) # rest) \<longleftrightarrow>
     (\<exists>r. live_at l cid ref r s \<and> in_step h r)
     \<and> (rest \<noteq> [] \<longrightarrow> (\<exists>l2 cid2. cir_outbound (obj s ref) = Some (l2, cid2) \<and> cid2 < 2 ^ 32 \<and> wired hs cid2 rest))
     \<and> (rest = [] \<longrightarrow> hs = [])"
| "wired _ cid _ \<longleftrightarrow> False"

text \<open>A cell handed from dispatcher to dispatcher while each sends exactly one cell on.\<close>

fun travel :: "crypto \<Rightarrow> draws \<Rightarrow> int \<Rightarrow> relay_identity \<Rightarrow> (bytes \<Rightarrow> peer_info option) \<Rightarrow>
    (exit_data \<Rightarrow> 'x relay_state_scheme \<Rightarrow> (unit, 'x) relay_act) \<Rightarrow>
    (link \<times> nat \<times> 'x relay_state_scheme) list \<Rightarrow> bytes \<Rightarrow> (unit, 'x) relay_act list" where
  "travel C d now i pr ex [] raw = []"
| "travel C d now i pr ex ((l, ref, s) # rest) raw =
     (let a = onCell C d now i pr ex l raw s
      in a # (case fst (snd a) of [Cell_To l2 c] \<Rightarrow> travel C d now i pr ex rest c | _ \<Rightarrow> []))"

text \<open>No relay before the last takes the cell for its own, as in \<open>no_early_match\<close>.\<close>

fun passes_on :: "crypto \<Rightarrow> client_hop list \<Rightarrow> bytes \<Rightarrow> bool" where
  "passes_on C (h # h2 # hs) p \<longleftrightarrow>
     fst (tryConsumeRelayPayload C (foldr (layers C) (fwd_keys (h2 # hs)) p) (chp_forwardDigest h)) = Mismatch
     \<and> passes_on C (h2 # hs) p"
| "passes_on C hs p \<longleftrightarrow> True"

lemma travel_delivers:
  assumes "wired hops cid path" "hops \<noteq> []" "length p = 508" "passes_on C hops p"
    and "tryConsumeRelayPayload C p (chp_forwardDigest (last hops)) = (Match q, d)"
    and "rly_relayCommand q \<noteq> 4" "rly_relayCommand q \<noteq> 5"
  shows "\<exists>l ref s cid' r. last path = (l, ref, s)
    \<and> length (travel C dr now i pr ex path (cell_bytes 2 cid 3 (foldr (layers C) (fwd_keys hops) p))) = length path
    \<and> last (travel C dr now i pr ex path (cell_bytes 2 cid 3 (foldr (layers C) (fwd_keys hops) p)))
      = swallow (ex \<lparr>xd_circuit = ref, xd_link = l, xd_circuitId = cid', xd_relayCommand = rly_relayCommand q,
          xd_streamId = rly_streamId q, xd_data = rly_data q\<rparr> (on_obj ref (\<lambda>c. c\<lparr>cir_relayHop := Some r\<rparr>) s))"
  using assms
proof (induction hops arbitrary: cid path)
  case (Cons h hops)
  obtain l ref s rest where path: "path = (l, ref, s) # rest" using Cons.prems(1) by (cases path) auto
  obtain r where r: "live_at l cid ref r s" "in_step h r" using Cons.prems(1) path by auto
  let ?q = "foldr (layers C) (fwd_keys hops) p" and ?w = "foldr (layers C) (fwd_keys (h # hops)) p"
  have w: "?w = layers C (chp_Kf h, chp_forwardCounter h) ?q" by (simp add: fwd_keys_def)
  have len: "length ?w = 508" "length ?q = 508" using Cons.prems(3) by (simp_all add: length_layers)
  have dig: "rhp_forwardDigest r = chp_forwardDigest h" using r(2) by (simp add: in_step_def)
  show ?case
  proof (cases rest)
    case Nil
    then have hops: "hops = []" using Cons.prems(1) path by simp
    have "handleRelayAtHop C now r ?w = Inr (Data (rly_relayCommand q) (rly_streamId q) (rly_data q),
        (bump_peel r)\<lparr>rhp_forwardDigest := d\<rparr>)"
      using relayPeel_layer [OF r(2) len(1), of C] Cons.prems(5-7) w dig hops layers_twice [of C _ p]
      by (simp add: handleRelayAtHop_def bump_peel_def fwd_keys_def)
    from onCell_at_hop(2) [OF r(1) len(1) this refl] show ?thesis
      by (auto simp: path Nil Let_def split: list.splits relay_effect.splits)
  next
    case (Cons y ys)
    then obtain l2 cid2 where out: "cir_outbound (obj s ref) = Some (l2, cid2)" "cid2 < 2 ^ 32" "wired hops cid2 rest"
      using Cons.prems(1) path by auto
    then have ne: "hops \<noteq> []" using Cons by (cases hops) auto
    then obtain h2 hs where hs: "hops = h2 # hs" by (cases hops) auto
    have nm: "fst (tryConsumeRelayPayload C ?q (rhp_forwardDigest r)) = Mismatch" "passes_on C hops p"
      using Cons.prems(4) hs dig by simp_all
    have "handleRelayAtHop C now r ?w = Inr (Forward ?q, bump_peel r)"
      using handle_forward [OF r(2) len(1), of C now] nm(1) by (simp add: w layers_twice)
    from onCell_at_hop(1) [OF r(1) len(1) this refl out(1,2) len(2)]
    have "onCell C dr now i pr ex l (cell_bytes 2 cid 3 ?w) s
        = emit (Cell_To l2 (cell_bytes 2 cid2 3 ?q)) (on_obj ref (\<lambda>c. c\<lparr>cir_relayHop := Some (bump_peel r)\<rparr>) s)" .
    then have t: "travel C dr now i pr ex path (cell_bytes 2 cid 3 ?w)
        = emit (Cell_To l2 (cell_bytes 2 cid2 3 ?q)) (on_obj ref (\<lambda>c. c\<lparr>cir_relayHop := Some (bump_peel r)\<rparr>) s)
          # travel C dr now i pr ex rest (cell_bytes 2 cid2 3 ?q)"
      by (simp add: path Let_def emit_def)
    have l: "last (h # hops) = last hops" using ne by simp
    from Cons.IH [OF out(3) ne Cons.prems(3) nm(2) Cons.prems(5) [unfolded l] Cons.prems(6,7)] obtain l' ref' s' cid' r'
      where ih: "last rest = (l', ref', s')" "length (travel C dr now i pr ex rest (cell_bytes 2 cid2 3 ?q)) = length rest"
      "last (travel C dr now i pr ex rest (cell_bytes 2 cid2 3 ?q))
        = swallow (ex \<lparr>xd_circuit = ref', xd_link = l', xd_circuitId = cid', xd_relayCommand = rly_relayCommand q,
          xd_streamId = rly_streamId q, xd_data = rly_data q\<rparr> (on_obj ref' (\<lambda>c. c\<lparr>cir_relayHop := Some r'\<rparr>) s'))" by blast
    have "rest \<noteq> []" using Cons by simp
    then have "travel C dr now i pr ex rest (cell_bytes 2 cid2 3 ?q) \<noteq> []" using ih(2) by auto
    then show ?thesis unfolding t using ih \<open>rest \<noteq> []\<close> by (auto simp: path)
  qed
qed simp

lemma wired_in_step: "wired hops cid path \<Longrightarrow> \<exists>rs. list_all2 in_step hops rs"
proof (induction hops cid path rule: wired.induct)
  case (2 h hs cid l ref s rest)
  then obtain r where "in_step h r" by auto
  moreover have "\<exists>rs. list_all2 in_step hs rs" using 2 by (cases rest) auto
  ultimately show ?case by (meson list_all2_Cons1)
qed auto

text \<open>Two extensions of one circuit while the first dial is pending: both dials succeed, the second one's
  outbound end replaces the first one's, and when the circuit is destroyed the first key stays in the table.\<close>

lemma second_dial_leaks:
  fixes s :: "'x relay_state_scheme" and ref p pr rnd hid rnd' hid' l c1 c2 peer
  assumes t: "tidy s" and ref: "ref < length (rst_objs s)" and role: "cir_role (obj s ref) = Role_Established"
    and out: "cir_outbound (obj s ref) = None" and pr: "pr (ext_nextHopFingerprint p) = Some peer"
      "pin_host peer \<noteq> ''''" "pin_port peer \<noteq> 0"
    and rnd: "rnd 0 = c1" "rnd' 0 = c2" "c1 \<noteq> c2"
      "map_get (rst_circuits s) (keyOf l c1) = None" "map_get (rst_circuits s) (keyOf l c2) = None"
  defines "s2 \<equiv> after (relayBeginExtend pr ref p (after (relayBeginExtend pr ref p s)))"
  defines "s3 \<equiv> after (extendDialled rnd hid (ref, p) (Some l) s2)"
  defines "s4 \<equiv> after (extendDialled rnd' hid' (ref, p) (Some l) s3)"
  defines "s5 \<equiv> after (destroyCircuit ref s4)"
  shows "map_get (rst_circuits s5) (keyOf l c1) = Some ref \<and> cir_role (obj s5 ref) = Role_Destroyed"
proof -
  have o [simp]: "obj (u\<lparr>rst_dials := ds\<rparr>) = obj u" "obj (u\<lparr>rst_circuits := cs\<rparr>) = obj u"
    for u :: "'x relay_state_scheme" and ds cs by (simp_all add: obj_def fun_eq_iff)
  have s2: "s2 = s\<lparr>rst_dials := (ref, p) # (ref, p) # rst_dials s\<rparr>"
    using out pr by (simp add: s2_def relayBeginExtend_def)
  have up: "[0..<16] = 0 # [1..<16]" by (simp add: upt_rec)
  have k: "keyOf l c1 \<noteq> keyOf l c2" using rnd(3) by (simp add: keyOf_def)
  have i: "keyOf l c1 \<noteq> keyOf (fst (cir_inbound (obj s ref))) (snd (cir_inbound (obj s ref)))"
    using tidy_lookup [OF t, of "keyOf l c1" ref] ref role rnd(4) by (auto simp: keys_of_def)
  let ?f = "\<lambda>c x. x\<lparr>cir_outbound := Some (l, c), cir_createdReassembler := Some defaultReassembler, cir_role := Role_Extending\<rparr>"
  have s3: "s3 = (on_obj ref (?f c1) (s\<lparr>rst_dials := (ref, p) # rst_dials s\<rparr>))
      \<lparr>rst_circuits := map_set (keyOf l c1) ref (rst_circuits s)\<rparr>"
    using rnd role by (simp add: s3_def s2 extendDialled_def allocateOutboundCircuitId_def up map_has_get Let_def
        after_seq after_for_each del: upt_conv_Cons split: sum.splits)
  have r3: "cir_role (obj s3 ref) = Role_Extending" "cir_inbound (obj s3 ref) = cir_inbound (obj s ref)"
    using ref by (simp_all add: s3)
  have c3: "rst_circuits s3 = map_set (keyOf l c1) ref (rst_circuits s)" by (simp add: s3)
  have s4: "s4 = (on_obj ref (?f c2) (s3\<lparr>rst_dials := rst_dials s\<rparr>))
      \<lparr>rst_circuits := map_set (keyOf l c2) ref (rst_circuits s3)\<rparr>"
    using rnd r3 k ref by (simp add: s4_def extendDialled_def allocateOutboundCircuitId_def up map_has_get Let_def
        after_seq after_for_each c3 jm.get_put del: upt_conv_Cons split: sum.splits) (simp add: s3)
  have n: "ref < length (rst_objs s3)" using ref by (simp add: s3)
  have r4: "cir_role (obj s4 ref) = Role_Extending" "cir_inbound (obj s4 ref) = cir_inbound (obj s ref)"
    "cir_outbound (obj s4 ref) = Some (l, c2)" "ref < length (rst_objs s4)"
    using n r3 by (simp_all add: s4)
  have c4: "map_get (rst_circuits s4) (keyOf l c1) = Some ref" using k by (simp add: s4 c3 jm.get_put)
  have "obj s5 ref = (obj s4 ref)\<lparr>cir_role := Role_Destroyed\<rparr>"
    using r4 obj_on_obj [OF r4(4)] by (simp add: s5_def after_destroyCircuit destroyed_def Let_def)
  moreover have "map_get (rst_circuits s5) (keyOf l c1) = Some ref"
    using r4 c4 k i destroyed_simps(3) [of s4 ref "keyOf l c1"]
    by (auto simp: s5_def after_destroyCircuit keys_of_def)
  ultimately show ?thesis by simp
qed

text \<open>A key left over that way does harm: a DESTROY with it, from the relay that was dialled first, takes the entry of whatever circuit
  uses the inbound key of the destroyed one by then.\<close>

lemma stale_key_unregisters:
  assumes "map_get (rst_circuits s) (keyOf m (cel_circuitId parsed)) = Some a" "cir_role (obj s a) = Role_Destroyed"
    and "cir_inbound (obj s a) = (l, cid)" "map_get (rst_circuits s) (keyOf l cid) = Some b" "b \<noteq> a"
  shows "map_get (rst_circuits (after (onDestroy m parsed s))) (keyOf l cid) = None"
  using assms by (auto simp: after_onDestroy destroyed_def unregister_def Let_def jm.get_del on_obj_def split: option.splits)

section \<open>Properties\<close>

text \<open>C8. A RELAY cell that the client builds for the last hop, encrypted for the circuit, passes through the
  dispatchers of all its relays, each of which sends one cell on to the next link, and the dispatcher of the last
  relay hands the command, the stream and the data the client wrote to the exit callback.\<close>

theorem relay_path_delivers:
  assumes "hash_ok C" "wired (cct_hops c) (nat (cct_circuitId c)) path" "cct_hops c \<noteq> []"
    and "relay_ok q" "rly_relayCommand q \<notin> {4, 5}"
    and "build_relay_of C (chp_forwardDigest (last (cct_hops c))) q = Inr (p, d)"
    and "encryptOutbound C c p = Inr (ct, c')" "passes_on C (cct_hops c) p"
  shows "\<exists>l ref s cid r. last path = (l, ref, s)
    \<and> length (travel C dr now i pr ex path (cell_bytes 2 (nat (cct_circuitId c)) 3 ct)) = length path
    \<and> last (travel C dr now i pr ex path (cell_bytes 2 (nat (cct_circuitId c)) 3 ct))
      = swallow (ex \<lparr>xd_circuit = ref, xd_link = l, xd_circuitId = cid, xd_relayCommand = rly_relayCommand q,
          xd_streamId = rly_streamId q, xd_data = rly_data q\<rparr> (on_obj ref (\<lambda>c. c\<lparr>cir_relayHop := Some r\<rparr>) s))"
proof -
  have p: "length p = 508" using assms(7) by (simp add: encryptOutbound_def split: if_splits)
  obtain rs where rs: "list_all2 in_step (cct_hops c) rs" using wired_in_step [OF assms(2)] by blast
  have "tryConsumeRelayPayload C p (chp_forwardDigest (last (cct_hops c))) = (Match q, d)"
    using consume_built [OF _ assms(1)] assms(4,6) by (simp add: build_relay_of_def relay_ok_def)
  moreover have "ct = foldr (layers C) (fwd_keys (cct_hops c)) p"
    using assms(7) encryptOutbound_layers [OF rs assms(3) p, of C] by simp
  ultimately show ?thesis
    using travel_delivers [OF assms(2,3) p assms(8), of q d dr now i pr ex] assms(5) by auto
qed

definition toy_link :: link where
  "toy_link = \<lparr>lnk_id = 1, lnk_peerFingerprintHex = ''aa''\<rparr>"

definition toy_draws :: draws where
  "toy_draws = \<lparr>drw_encSeed = [5], drw_ySeed = 2 # zeros 31, drw_handshakeId = 8\<rparr>"

definition toy_relay :: relay_identity where
  "toy_relay = \<lparr>rid_B_sk = 3 # zeros 31, rid_B_pk = x_public toy_crypto (3 # zeros 31), rid_ID_R = zeros 32\<rparr>"

lemma toy_wired:
  assumes "in_step h r"
  shows "\<exists>s :: relay_state. wired [h] 7 [(toy_link, 0, s)]"
proof -
  let ?c = "\<lparr>cir_inbound = (toy_link, 7), cir_outbound = None, cir_relayHop = Some r, cir_role = Role_Established,
    cir_createReassembler = None, cir_createdReassembler = None, cir_spliceHandler = None\<rparr>"
  let ?s = "\<lparr>rst_objs = [?c], rst_circuits = [(keyOf toy_link 7, 0)], rst_dials = []\<rparr> :: relay_state"
  have o: "obj ?s 0 = ?c" by (simp add: obj_def)
  have "tidy ?s"
  proof (rule tidyI)
    show "map_get (rst_circuits ?s) k = Some ref \<longleftrightarrow> ref < length (rst_objs ?s) \<and> k \<in> keys_of (obj ?s ref)" for k ref
      using o by (cases ref) (auto simp: map_get_def keys_of_def)
  qed simp
  then have "live_at toy_link 7 0 r ?s" by (simp add: live_at_def o)
  then have "wired [h] 7 [(toy_link, 0, ?s)]" using assms by auto
  then show ?thesis by blast
qed

theorem relay_path_delivers_witness:
  "\<exists>h (s :: relay_state) p d ct c' r. build_relay_of toy_crypto (chp_forwardDigest h)
        \<lparr>rly_relayCommand = 1, rly_streamId = 1, rly_data = [104, 105]\<rparr> = Inr (p, d)
    \<and> encryptOutbound toy_crypto \<lparr>cct_circuitId = 7, cct_hops = [h]\<rparr> p = Inr (ct, c')
    \<and> travel toy_crypto toy_draws 0 toy_relay (\<lambda>_. None) (\<lambda>d. emit (Tcp_Write 0 (xd_data d))) [(toy_link, 0, s)]
        (cell_bytes 2 7 3 ct) = [swallow (emit (Tcp_Write 0 [104, 105]) (on_obj 0 (\<lambda>c. c\<lparr>cir_relayHop := Some r\<rparr>) s))]"
proof -
  let ?q = "\<lparr>rly_relayCommand = 1, rly_streamId = 1, rly_data = [104, 105]\<rparr>"
  obtain h r where h: "in_step h r" using toy_hop by blast
  obtain s :: relay_state where s: "wired [h] 7 [(toy_link, 0, s)]" using toy_wired [OF h] by blast
  have q: "relay_ok ?q" by (simp add: relay_ok_def)
  obtain p d where p: "build_relay_of toy_crypto (chp_forwardDigest h) ?q = Inr (p, d)"
    using build_relay_exists [OF q toy_hash_ok] by blast
  let ?c = "\<lparr>cct_circuitId = 7, cct_hops = [h]\<rparr>"
  have "length p = 508"
    using consume_built [OF p [unfolded build_relay_of_def] toy_hash_ok]
    by (simp add: tryConsumeRelayPayload_def split: if_splits)
  then obtain ct c' where e: "encryptOutbound toy_crypto ?c p = Inr (ct, c')"
    using encryptOutbound_layers [of ?c "[r]"] h by fastforce
  have w: "wired (cct_hops ?c) (nat (cct_circuitId ?c)) [(toy_link, 0, s)]" using s by simp
  let ?ex = "\<lambda>d. emit (Tcp_Write 0 (xd_data d))" and ?path = "[(toy_link, 0 :: nat, s)]"
  have n: "nat (cct_circuitId ?c) = 7" "chp_forwardDigest (last (cct_hops ?c)) = chp_forwardDigest h" by simp_all
  from relay_path_delivers [OF toy_hash_ok w _ q _ _ e, of d toy_draws 0 toy_relay "\<lambda>_. None" ?ex] p
  obtain l ref s' cid r' where t: "last ?path = (l, ref, s')"
    "length (travel toy_crypto toy_draws 0 toy_relay (\<lambda>_. None) ?ex ?path (cell_bytes 2 7 3 ct)) = length ?path"
    "last (travel toy_crypto toy_draws 0 toy_relay (\<lambda>_. None) ?ex ?path (cell_bytes 2 7 3 ct))
      = swallow (emit (Tcp_Write 0 [104, 105]) (on_obj ref (\<lambda>c. c\<lparr>cir_relayHop := Some r'\<rparr>) s'))"
    by auto
  have "xs = [last xs]" if "length xs = length ?path" for xs :: "(unit, unit) relay_act list"
    using that by (cases xs) auto
  from this [OF t(2)] have "travel toy_crypto toy_draws 0 toy_relay (\<lambda>_. None) ?ex ?path (cell_bytes 2 7 3 ct)
      = [swallow (emit (Tcp_Write 0 [104, 105]) (on_obj 0 (\<lambda>c. c\<lparr>cir_relayHop := Some r'\<rparr>) s))]"
    unfolding t(3) using t(1) by (simp del: travel.simps)
  then show ?thesis using p e by blast
qed

end
