(* ===== verification/V2_Rendezvous.thy ===== *)
theory V2_Rendezvous
  imports V2_Ntor
begin

text \<open>
  \<open>modules/v2/sealed\_box.mjs\<close> and \<open>modules/v2/rendezvous.mjs\<close>: the hybrid sealed box and the payloads of the
  rendezvous flow. The wiping of secrets is left out: no wiped buffer is used again. Random draws (the two
  ephemeral seeds and the nonce) are arguments.
\<close>

section \<open>The sealed box\<close>

definition SEALED_BOX_INFO :: bytes where "SEALED_BOX_INFO = ascii ''anon-layer/v2/sealed-box''"
definition LEN_SEAL_X25519_PK :: nat where [simp]: "LEN_SEAL_X25519_PK = 32"
definition LEN_SEAL_MLKEM_CT :: nat where [simp]: "LEN_SEAL_MLKEM_CT = 1088"
definition LEN_SEAL_NONCE :: nat where [simp]: "LEN_SEAL_NONCE = 12"
definition LEN_SEAL_TAG :: nat where [simp]: "LEN_SEAL_TAG = 16"
definition LEN_SEAL_ENVELOPE_OVERHEAD :: nat where [simp]:
  "LEN_SEAL_ENVELOPE_OVERHEAD = LEN_SEAL_X25519_PK + LEN_SEAL_MLKEM_CT + LEN_SEAL_NONCE + LEN_SEAL_TAG"
definition OFFSET_EPHEMERAL_X :: nat where [simp]: "OFFSET_EPHEMERAL_X = 0"
definition OFFSET_MLKEM_CT :: nat where [simp]: "OFFSET_MLKEM_CT = LEN_SEAL_X25519_PK"
definition OFFSET_NONCE :: nat where [simp]: "OFFSET_NONCE = OFFSET_MLKEM_CT + LEN_SEAL_MLKEM_CT"
definition OFFSET_CIPHERTEXT :: nat where [simp]: "OFFSET_CIPHERTEXT = OFFSET_NONCE + LEN_SEAL_NONCE"

record seal_draws =
  sld_ephemeral :: bytes
  sld_encaps :: bytes
  sld_nonce :: bytes

definition seal :: "crypto \<Rightarrow> seal_draws \<Rightarrow> bytes \<Rightarrow> bytes \<Rightarrow> bytes \<Rightarrow> bytes res" where
  "seal C d plaintext recipientX25519Pk recipientMlkemPk =
     (if length recipientX25519Pk \<noteq> LEN_SEAL_X25519_PK then Inl (Error ''recipientX25519Pk must be 32 bytes'')
      else if length recipientMlkemPk \<noteq> 1184 then Inl (Error ''recipientMlkemPk must be 1184 bytes'')
      else
        let (eSk, E) = generateOnion C (sld_ephemeral d)
        in case sharedSecret C eSk recipientX25519Pk of
             None \<Rightarrow> Inl (Error ''recipientX25519Pk is a low-order point'')
           | Some shared_x \<Rightarrow>
               (case kem_encaps C (sld_encaps d) recipientMlkemPk of
                  None \<Rightarrow> Inl (Error ''encapsulation failed'')
                | Some (ct, shared_pq) \<Rightarrow>
                    let ikm = shared_x @ shared_pq;
                        K = kdf C ikm SEALED_BOX_INFO 32;
                        nonce = sld_nonce d
                    in case aeadEncrypt C K nonce [] plaintext of
                         Inl e \<Rightarrow> Inl e
                       | Inr (ciphertext, tag) \<Rightarrow>
                           let envelope = zeros (LEN_SEAL_ENVELOPE_OVERHEAD + length ciphertext);
                               envelope = set_at envelope OFFSET_EPHEMERAL_X E;
                               envelope = set_at envelope OFFSET_MLKEM_CT ct;
                               envelope = set_at envelope OFFSET_NONCE nonce;
                               envelope = set_at envelope OFFSET_CIPHERTEXT ciphertext
                           in Inr (set_at envelope (OFFSET_CIPHERTEXT + length ciphertext) tag)))"

definition unseal :: "crypto \<Rightarrow> bytes \<Rightarrow> bytes \<Rightarrow> bytes \<Rightarrow> bytes option" where
  "unseal C envelope recipientX25519Sk recipientMlkemSk =
     (if length envelope < LEN_SEAL_ENVELOPE_OVERHEAD then None
      else if length recipientX25519Sk \<noteq> 32 then None
      else
        let E = subarray envelope OFFSET_EPHEMERAL_X OFFSET_MLKEM_CT;
            ct = subarray envelope OFFSET_MLKEM_CT OFFSET_NONCE;
            nonce = subarray envelope OFFSET_NONCE OFFSET_CIPHERTEXT;
            ctxAndTag = subarray envelope OFFSET_CIPHERTEXT (length envelope)
        in if length ctxAndTag < LEN_SEAL_TAG then None
           else
             let ciphertext = subarray ctxAndTag 0 (length ctxAndTag - LEN_SEAL_TAG);
                 tag = subarray ctxAndTag (length ctxAndTag - LEN_SEAL_TAG) (length ctxAndTag)
             in case sharedSecret C recipientX25519Sk E of
                  None \<Rightarrow> None
                | Some shared_x \<Rightarrow>
                    (case kem_decaps C ct recipientMlkemSk of
                       None \<Rightarrow> None
                     | Some shared_pq \<Rightarrow>
                         if length shared_pq \<noteq> 32 then None
                         else
                           let ikm = shared_x @ shared_pq;
                               K = kdf C ikm SEALED_BOX_INFO 32
                           in aeadDecrypt C K nonce [] ciphertext tag))"

section \<open>ESTABLISH\_INTRO\<close>

definition ESTABLISH_INTRO_SIG_CONTEXT :: bytes where
  "ESTABLISH_INTRO_SIG_CONTEXT = ascii ''anon-layer/v2/establish-intro''"
definition LEN_ESTABLISH_INTRO :: nat where [simp]: "LEN_ESTABLISH_INTRO = 32 + 8 + 64"

definition buildEstablishIntro :: "crypto \<Rightarrow> bytes \<Rightarrow> bytes \<Rightarrow> bytes \<Rightarrow> int \<Rightarrow> bytes res" where
  "buildEstablishIntro C serviceIntroPk serviceIntroSk ipFingerprint publishEpoch =
     (if length serviceIntroPk \<noteq> 32 then Inl (Error ''serviceIntroPk must be 32 bytes'')
      else if length serviceIntroSk \<noteq> 32 then Inl (Error ''serviceIntroSk must be 32 bytes'')
      else if length ipFingerprint \<noteq> 32 then Inl (Error ''ipFingerprint must be 32 bytes'')
      else
        let epochBytes = writeBigUint64BE (zeros 8) 0 publishEpoch;
            signed = ESTABLISH_INTRO_SIG_CONTEXT @ ipFingerprint @ epochBytes;
            signature = sign C signed serviceIntroSk
        in Inr (serviceIntroPk @ epochBytes @ signature))"

definition parseAndVerifyEstablishIntro :: "crypto \<Rightarrow> bytes \<Rightarrow> bytes \<Rightarrow> int option \<Rightarrow> int \<Rightarrow> (bytes \<times> nat) option" where
  "parseAndVerifyEstablishIntro C payload ipFingerprint nowEpoch maxAgeSeconds =
     (if length payload \<noteq> LEN_ESTABLISH_INTRO then None
      else if length ipFingerprint \<noteq> 32 then None
      else
        let serviceIntroPk = subarray payload 0 32;
            epochBytes = subarray payload 32 40;
            signature = subarray payload 40 104;
            publishEpoch = readBigUint64BE payload 32
        in if (case nowEpoch of None \<Rightarrow> False
               | Some now \<Rightarrow> int publishEpoch > now + 60 \<or> int publishEpoch < now - maxAgeSeconds) then None
           else
             let signed = ESTABLISH_INTRO_SIG_CONTEXT @ ipFingerprint @ epochBytes
             in if \<not> verify C signature signed serviceIntroPk then None
                else Some (serviceIntroPk, publishEpoch))"

section \<open>One-byte replies\<close>

definition INTRO_ESTABLISHED_STATUS_OK :: nat where [simp]: "INTRO_ESTABLISHED_STATUS_OK = 0x00"
definition INTRO_ESTABLISHED_STATUS_BAD_SIGNATURE :: nat where [simp]: "INTRO_ESTABLISHED_STATUS_BAD_SIGNATURE = 0x01"
definition INTRO_ESTABLISHED_STATUS_RATE_LIMITED :: nat where [simp]: "INTRO_ESTABLISHED_STATUS_RATE_LIMITED = 0x02"
definition INTRO_ESTABLISHED_STATUS_DUPLICATE :: nat where [simp]: "INTRO_ESTABLISHED_STATUS_DUPLICATE = 0x03"
definition RENDEZVOUS_ESTABLISHED_STATUS_OK :: nat where [simp]: "RENDEZVOUS_ESTABLISHED_STATUS_OK = 0x00"
definition RENDEZVOUS_ESTABLISHED_STATUS_COLLISION :: nat where [simp]: "RENDEZVOUS_ESTABLISHED_STATUS_COLLISION = 0x01"
definition RENDEZVOUS_ESTABLISHED_STATUS_RATE_LIMITED :: nat where [simp]: "RENDEZVOUS_ESTABLISHED_STATUS_RATE_LIMITED = 0x02"
definition INTRODUCE_ACK_STATUS_FORWARDED :: nat where [simp]: "INTRODUCE_ACK_STATUS_FORWARDED = 0x00"
definition INTRODUCE_ACK_STATUS_UNKNOWN_SVC :: nat where [simp]: "INTRODUCE_ACK_STATUS_UNKNOWN_SVC = 0x01"
definition INTRODUCE_ACK_STATUS_RATE_LIMITED :: nat where [simp]: "INTRODUCE_ACK_STATUS_RATE_LIMITED = 0x02"
definition INTRODUCE_ACK_STATUS_CIRCUIT_CLOSED :: nat where [simp]: "INTRODUCE_ACK_STATUS_CIRCUIT_CLOSED = 0x03"

definition buildIntroEstablished :: "nat \<Rightarrow> bytes" where "buildIntroEstablished status = [u8 status]"

definition parseIntroEstablished :: "bytes \<Rightarrow> nat option" where
  "parseIntroEstablished payload = (if length payload \<noteq> 1 then None else Some (unat (payload ! 0)))"

definition buildRendezvousEstablished :: "nat \<Rightarrow> bytes" where "buildRendezvousEstablished status = [u8 status]"

definition parseRendezvousEstablished :: "bytes \<Rightarrow> nat option" where
  "parseRendezvousEstablished payload = (if length payload \<noteq> 1 then None else Some (unat (payload ! 0)))"

definition buildIntroduceAck :: "nat \<Rightarrow> bytes" where "buildIntroduceAck status = [u8 status]"

definition parseIntroduceAck :: "bytes \<Rightarrow> nat option" where
  "parseIntroduceAck payload = (if length payload \<noteq> 1 then None else Some (unat (payload ! 0)))"

section \<open>Rendezvous payloads\<close>

definition LEN_RENDEZVOUS_COOKIE :: nat where [simp]: "LEN_RENDEZVOUS_COOKIE = 20"

definition buildEstablishRendezvous :: "bytes \<Rightarrow> bytes res" where
  "buildEstablishRendezvous cookie =
     (if length cookie \<noteq> LEN_RENDEZVOUS_COOKIE then Inl (Error ''cookie must be 20 bytes'') else Inr cookie)"

definition parseEstablishRendezvous :: "bytes \<Rightarrow> bytes option" where
  "parseEstablishRendezvous payload = (if length payload \<noteq> LEN_RENDEZVOUS_COOKIE then None else Some payload)"

definition LEN_RENDEZVOUS1 :: nat where [simp]: "LEN_RENDEZVOUS1 = LEN_RENDEZVOUS_COOKIE + CREATED_MSG_BYTES"

definition buildRendezvous1 :: "bytes \<Rightarrow> bytes \<Rightarrow> bytes res" where
  "buildRendezvous1 cookie handshakeResponse =
     (if length cookie \<noteq> LEN_RENDEZVOUS_COOKIE then Inl (Error ''cookie must be 20 bytes'')
      else if length handshakeResponse \<noteq> CREATED_MSG_BYTES then Inl (Error ''handshakeResponse must be 1152 bytes'')
      else Inr (cookie @ handshakeResponse))"

definition parseRendezvous1 :: "bytes \<Rightarrow> (bytes \<times> bytes) option" where
  "parseRendezvous1 payload =
     (if length payload \<noteq> LEN_RENDEZVOUS1 then None
      else Some (subarray payload 0 LEN_RENDEZVOUS_COOKIE, subarray payload LEN_RENDEZVOUS_COOKIE (length payload)))"

definition LEN_RENDEZVOUS2 :: nat where [simp]: "LEN_RENDEZVOUS2 = CREATED_MSG_BYTES"

definition buildRendezvous2 :: "bytes \<Rightarrow> bytes res" where
  "buildRendezvous2 handshakeResponse =
     (if length handshakeResponse \<noteq> CREATED_MSG_BYTES then Inl (Error ''handshakeResponse must be 1152 bytes'')
      else Inr handshakeResponse)"

definition parseRendezvous2 :: "bytes \<Rightarrow> bytes option" where
  "parseRendezvous2 payload = (if length payload \<noteq> LEN_RENDEZVOUS2 then None else Some payload)"

section \<open>INTRODUCE1 and INTRODUCE2\<close>

definition LEN_INTRODUCE_INNER :: nat where [simp]: "LEN_INTRODUCE_INNER = 20 + 32 + 32 + CREATE_MSG_BYTES"

record introduce_inner =
  iin_cookie :: bytes
  iin_rpFingerprint :: bytes
  iin_rpOnionPk :: bytes
  iin_handshakeMessage :: bytes

definition buildIntroduceInner :: "introduce_inner \<Rightarrow> bytes res" where
  "buildIntroduceInner i =
     (if length (iin_cookie i) \<noteq> LEN_RENDEZVOUS_COOKIE then Inl (Error ''cookie must be 20 bytes'')
      else if length (iin_rpFingerprint i) \<noteq> 32 then Inl (Error ''rpFingerprint must be 32 bytes'')
      else if length (iin_rpOnionPk i) \<noteq> 32 then Inl (Error ''rpOnionPk must be 32 bytes'')
      else if length (iin_handshakeMessage i) \<noteq> CREATE_MSG_BYTES then Inl (Error ''handshakeMessage must be 1216 bytes'')
      else Inr (iin_cookie i @ iin_rpFingerprint i @ iin_rpOnionPk i @ iin_handshakeMessage i))"

definition parseIntroduceInner :: "bytes \<Rightarrow> introduce_inner option" where
  "parseIntroduceInner buf =
     (if length buf \<noteq> LEN_INTRODUCE_INNER then None
      else Some \<lparr>iin_cookie = subarray buf 0 20, iin_rpFingerprint = subarray buf 20 52,
                 iin_rpOnionPk = subarray buf 52 84, iin_handshakeMessage = subarray buf 84 (84 + CREATE_MSG_BYTES)\<rparr>)"

definition buildIntroducePayload ::
  "crypto \<Rightarrow> seal_draws \<Rightarrow> bytes \<Rightarrow> bytes \<Rightarrow> bytes \<Rightarrow> introduce_inner \<Rightarrow> bytes res" where
  "buildIntroducePayload C d serviceIntroPk serviceEncX25519Pk serviceEncMlkemPk i =
     (if length serviceIntroPk \<noteq> 32 then Inl (Error ''serviceIntroPk must be 32 bytes'')
      else
        (case buildIntroduceInner i of
           Inl e \<Rightarrow> Inl e
         | Inr inner \<Rightarrow>
             (case seal C d inner serviceEncX25519Pk serviceEncMlkemPk of
                Inl e \<Rightarrow> Inl e
              | Inr envelope \<Rightarrow> Inr (serviceIntroPk @ envelope))))"

definition parseIntroduceEnvelope :: "bytes \<Rightarrow> (bytes \<times> bytes) option" where
  "parseIntroduceEnvelope payload =
     (if length payload < 32 + LEN_SEAL_ENVELOPE_OVERHEAD then None
      else Some (subarray payload 0 32, subarray payload 32 (length payload)))"

definition unsealIntroduceInner :: "crypto \<Rightarrow> bytes \<Rightarrow> bytes \<Rightarrow> bytes \<Rightarrow> introduce_inner option" where
  "unsealIntroduceInner C sealedEnvelope serviceEncX25519Sk serviceEncMlkemSk =
     (case unseal C sealedEnvelope serviceEncX25519Sk serviceEncMlkemSk of
        None \<Rightarrow> None
      | Some inner \<Rightarrow> parseIntroduceInner inner)"

end
