(* ===== verification/V2_Roles.thy ===== *)
theory V2_Roles
  imports V2_Dispatcher V2_Rendezvous
begin

text \<open>
  Two roles of a relay that act on the circuits of its dispatcher: the introduction point
  (\<open>v2-runtime/ip\_role.mjs\<close>) and the rendezvous point (\<open>rp\_role.mjs\<close>). Each role's maps extend the
  state of the dispatcher; circuits are referred to as there. Clock readings and draws are arguments.
\<close>

section \<open>State\<close>

text \<open>The key \<open>linkFp:circuitId:streamId\<close>.\<close>

type_synonym stream_key = "(string \<times> nat) \<times> nat"

record ip_relay = relay_state +
  ipr_services :: "(string, nat \<times> int) jsmap"
  ipr_introduceReassemblers :: "(stream_key, reassembler) jsmap"

record rp_relay = ip_relay +
  rpr_cookies :: "(string, nat \<times> nat) jsmap"
  rpr_spliceCount :: nat
  rpr_rendezvous1Reassemblers :: "(stream_key, reassembler) jsmap"

type_synonym ('a, 'x) ip_act = "('a, relay_effect, 'x ip_relay_scheme) effectful"
type_synonym ('a, 'x) rp_act = "('a, relay_effect, 'x rp_relay_scheme) effectful"

definition reasmKey :: "circuit_obj \<Rightarrow> nat \<Rightarrow> stream_key" where
  "reasmKey c streamId = (keyOf (fst (cir_inbound c)) (snd (cir_inbound c)), streamId)"

section \<open>The introduction point\<close>

definition introKey :: "bytes \<Rightarrow> string" where "introKey = toHex"

definition forwardIntroduce2 :: "crypto \<Rightarrow> int \<Rightarrow> nat \<Rightarrow> bytes \<Rightarrow> 'x relay_state_scheme \<Rightarrow> (unit, 'x) relay_act" where
  "forwardIntroduce2 C handshakeId serviceCircuit payload s =
     seq (lift (fragmentMessage payload handshakeId (int RELAY_FRAGMENT_CAPACITY)) s)
       (for_each (sendBackwardOnCircuit C serviceCircuit RELAY_INTRODUCE2 0))"

text \<open>Two readings of the clock: for the check and for the entry.\<close>

definition handleEstablishIntro ::
  "crypto \<Rightarrow> relay_identity \<Rightarrow> int \<Rightarrow> int \<Rightarrow> exit_data \<Rightarrow> 'x ip_relay_scheme \<Rightarrow> (unit, 'x) ip_act" where
  "handleEstablishIntro C i now1 now2 d s =
     (case parseAndVerifyEstablishIntro C (xd_data d) (rid_ID_R i) (Some now1) 3600 of
        None \<Rightarrow> sendBackwardOnCircuit C (xd_circuit d) RELAY_INTRO_ESTABLISHED (xd_streamId d)
                  (buildIntroEstablished INTRO_ESTABLISHED_STATUS_BAD_SIGNATURE) s
      | Some (serviceIntroPk, publishEpoch) \<Rightarrow>
          sendBackwardOnCircuit C (xd_circuit d) RELAY_INTRO_ESTABLISHED (xd_streamId d)
            (buildIntroEstablished INTRO_ESTABLISHED_STATUS_OK)
            (s\<lparr>ipr_services := map_set (introKey serviceIntroPk) (xd_circuit d, now2) (ipr_services s)\<rparr>))"

definition handleIntroduce1 :: "crypto \<Rightarrow> int \<Rightarrow> int \<Rightarrow> exit_data \<Rightarrow> 'x ip_relay_scheme \<Rightarrow> (unit, 'x) ip_act" where
  "handleIntroduce1 C now handshakeId d s =
     (let key = reasmKey (obj s (xd_circuit d)) (xd_streamId d);
          reasm = (case map_get (ipr_introduceReassemblers s) key of None \<Rightarrow> defaultReassembler | Some r \<Rightarrow> r);
          (result, reasm) = ingest now (xd_data d) reasm;
          s = s\<lparr>ipr_introduceReassemblers := map_set key reasm (ipr_introduceReassemblers s)\<rparr>;
          dropped = s\<lparr>ipr_introduceReassemblers := map_delete key (ipr_introduceReassemblers s)\<rparr>
      in case result of
           Failed \<Rightarrow> ret () dropped
         | Waiting \<Rightarrow> ret () s
         | Complete message \<Rightarrow>
             (case parseIntroduceEnvelope message of
                None \<Rightarrow> sendBackwardOnCircuit C (xd_circuit d) RELAY_INTRODUCE_ACK (xd_streamId d) (buildIntroduceAck 0x01) dropped
              | Some (serviceIntroPk, sealedEnvelope) \<Rightarrow>
                  (case map_get (ipr_services dropped) (introKey serviceIntroPk) of
                     None \<Rightarrow> sendBackwardOnCircuit C (xd_circuit d) RELAY_INTRODUCE_ACK (xd_streamId d)
                               (buildIntroduceAck INTRODUCE_ACK_STATUS_UNKNOWN_SVC) dropped
                   | Some (serviceCircuit, registeredAt) \<Rightarrow>
                       seq (forwardIntroduce2 C handshakeId serviceCircuit message dropped) (\<lambda>_.
                         sendBackwardOnCircuit C (xd_circuit d) RELAY_INTRODUCE_ACK (xd_streamId d)
                           (buildIntroduceAck INTRODUCE_ACK_STATUS_FORWARDED)))))"

record role_draws =
  rdr_now :: int
  rdr_now2 :: int
  rdr_ms :: int
  rdr_handshakeId :: int

definition ip_handleData ::
  "crypto \<Rightarrow> relay_identity \<Rightarrow> role_draws \<Rightarrow> exit_data \<Rightarrow> 'x ip_relay_scheme \<Rightarrow> (unit, 'x) ip_act" where
  "ip_handleData C i w d s =
     (if xd_relayCommand d = 0x0E then handleEstablishIntro C i (rdr_now w) (rdr_now2 w) d s
      else if xd_relayCommand d = 0x06 then handleIntroduce1 C (rdr_ms w) (rdr_handshakeId w) d s
      else ret () s)"

definition ip_clear :: "'x ip_relay_scheme \<Rightarrow> 'x ip_relay_scheme" where
  "ip_clear s = s\<lparr>ipr_services := [], ipr_introduceReassemblers := []\<rparr>"

section \<open>The rendezvous point\<close>

definition cookieKey :: "bytes \<Rightarrow> string" where "cookieKey = toHex"

definition spliceCircuits :: "nat \<Rightarrow> nat \<Rightarrow> 'x relay_state_scheme \<Rightarrow> 'x relay_state_scheme" where
  "spliceCircuits clientCircuit serviceCircuit s =
     on_obj serviceCircuit (\<lambda>c. c\<lparr>cir_spliceHandler := Some clientCircuit\<rparr>)
       (on_obj clientCircuit (\<lambda>c. c\<lparr>cir_spliceHandler := Some serviceCircuit\<rparr>) s)"

definition handleEstablishRendezvous :: "crypto \<Rightarrow> exit_data \<Rightarrow> 'x rp_relay_scheme \<Rightarrow> (unit, 'x) rp_act" where
  "handleEstablishRendezvous C d s =
     (case parseEstablishRendezvous (xd_data d) of
        None \<Rightarrow> ret () s
      | Some cookie \<Rightarrow>
          let key = cookieKey cookie
          in if map_has (rpr_cookies s) key
               then sendBackwardOnCircuit C (xd_circuit d) RELAY_RENDEZVOUS_ESTABLISHED (xd_streamId d)
                      (buildRendezvousEstablished RENDEZVOUS_ESTABLISHED_STATUS_COLLISION) s
             else sendBackwardOnCircuit C (xd_circuit d) RELAY_RENDEZVOUS_ESTABLISHED (xd_streamId d)
                    (buildRendezvousEstablished RENDEZVOUS_ESTABLISHED_STATUS_OK)
                    (s\<lparr>rpr_cookies := map_set key (xd_circuit d, xd_streamId d) (rpr_cookies s)\<rparr>))"

definition handleRendezvous1 :: "crypto \<Rightarrow> int \<Rightarrow> int \<Rightarrow> exit_data \<Rightarrow> 'x rp_relay_scheme \<Rightarrow> (unit, 'x) rp_act" where
  "handleRendezvous1 C now handshakeId d s =
     (let key = reasmKey (obj s (xd_circuit d)) (xd_streamId d);
          reasm = (case map_get (rpr_rendezvous1Reassemblers s) key of None \<Rightarrow> defaultReassembler | Some r \<Rightarrow> r);
          (result, reasm) = ingest now (xd_data d) reasm;
          s = s\<lparr>rpr_rendezvous1Reassemblers := map_set key reasm (rpr_rendezvous1Reassemblers s)\<rparr>;
          dropped = s\<lparr>rpr_rendezvous1Reassemblers := map_delete key (rpr_rendezvous1Reassemblers s)\<rparr>
      in case result of
           Failed \<Rightarrow> ret () dropped
         | Waiting \<Rightarrow> ret () s
         | Complete message \<Rightarrow>
             (case parseRendezvous1 message of
                None \<Rightarrow> ret () dropped
              | Some (cookie, handshakeResponse) \<Rightarrow>
                  (case map_get (rpr_cookies dropped) (cookieKey cookie) of
                     None \<Rightarrow> ret () dropped
                   | Some (clientCircuit, clientStreamId) \<Rightarrow>
                       let s = dropped\<lparr>rpr_cookies := map_delete (cookieKey cookie) (rpr_cookies dropped)\<rparr>;
                           s = spliceCircuits clientCircuit (xd_circuit d) s;
                           s = s\<lparr>rpr_spliceCount := rpr_spliceCount s + 1\<rparr>
                       in seq (lift (buildRendezvous2 handshakeResponse) s) (\<lambda>respPayload s.
                          seq (lift (fragmentMessage respPayload handshakeId (int RELAY_FRAGMENT_CAPACITY)) s)
                            (for_each (sendBackwardOnCircuit C clientCircuit RELAY_RENDEZVOUS2 clientStreamId))))))"

definition rp_handleData :: "crypto \<Rightarrow> role_draws \<Rightarrow> exit_data \<Rightarrow> 'x rp_relay_scheme \<Rightarrow> (unit, 'x) rp_act" where
  "rp_handleData C w d s =
     (if xd_relayCommand d = 0x10 then handleEstablishRendezvous C d s
      else if xd_relayCommand d = 0x08 then handleRendezvous1 C (rdr_ms w) (rdr_handshakeId w) d s
      else ret () s)"

definition rp_clear :: "'x rp_relay_scheme \<Rightarrow> 'x rp_relay_scheme" where
  "rp_clear s = s\<lparr>rpr_cookies := []\<rparr>"

end
