(* ===== verification/V2_Streams.thy ===== *)
theory V2_Streams
  imports V2_Roles V2_Exit_Policy "HOL-Library.Char_ord"
begin

text \<open>
  \<open>v2-runtime/stream\_payloads.mjs\<close> and the exit side of \<open>v2-runtime/streams.mjs\<close>. A socket of \<open>node:net\<close> is its
  number in the order of creation; what its handlers close over is kept beside it; the events that the library
  delivers (connect, data, end, error, and the timer of the connection attempt) are operations. Whether a socket
  still is in the map does not matter to its handlers, as in the code. Messages to the logger are left out.
\<close>

section \<open>Payloads\<close>

definition BEGIN_ADDR_TYPE_IPV4 :: nat where [simp]: "BEGIN_ADDR_TYPE_IPV4 = 0x01"
definition BEGIN_ADDR_TYPE_IPV6 :: nat where [simp]: "BEGIN_ADDR_TYPE_IPV6 = 0x02"
definition BEGIN_ADDR_TYPE_HOSTNAME :: nat where [simp]: "BEGIN_ADDR_TYPE_HOSTNAME = 0x03"
definition END_REASON_MISC :: nat where [simp]: "END_REASON_MISC = 0x01"
definition END_REASON_EXIT_POLICY :: nat where [simp]: "END_REASON_EXIT_POLICY = 0x02"
definition END_REASON_RESOLVE_FAIL :: nat where [simp]: "END_REASON_RESOLVE_FAIL = 0x03"
definition END_REASON_REFUSED :: nat where [simp]: "END_REASON_REFUSED = 0x04"
definition END_REASON_TIMEOUT :: nat where [simp]: "END_REASON_TIMEOUT = 0x05"
definition END_REASON_REMOTE_CLOSED :: nat where [simp]: "END_REASON_REMOTE_CLOSED = 0x06"
definition END_REASON_CLIENT_CLOSED :: nat where [simp]: "END_REASON_CLIENT_CLOSED = 0x07"
definition CONNECTED_STATUS_OK :: nat where [simp]: "CONNECTED_STATUS_OK = 0x00"
definition HOSTNAME_MAX_LEN :: nat where [simp]: "HOSTNAME_MAX_LEN = 255"

record destination =
  dst_addrType :: nat
  dst_addr :: bytes
  dst_port :: int
  dst_flags :: nat

text \<open>The address field: a host name is prefixed by its length.\<close>

definition addr_field :: "nat \<Rightarrow> bytes \<Rightarrow> bytes res" where
  "addr_field addrType addr =
     (if addrType = BEGIN_ADDR_TYPE_IPV4 then
        if length addr \<noteq> 4 then Inl (Error ''IPv4 addr must be 4 bytes'') else Inr addr
      else if addrType = BEGIN_ADDR_TYPE_IPV6 then
        if length addr \<noteq> 16 then Inl (Error ''IPv6 addr must be 16 bytes'') else Inr addr
      else if addrType = BEGIN_ADDR_TYPE_HOSTNAME then
        if length addr = 0 \<or> length addr > HOSTNAME_MAX_LEN then Inl (Error ''hostname must be 1..255 bytes'')
        else Inr (set_at ((zeros (1 + length addr))[0 := u8 (length addr)]) 1 addr)
      else Inl (Error ''unknown addr_type''))"

definition buildBeginPayload :: "destination \<Rightarrow> bytes res" where
  "buildBeginPayload d =
     (if dst_port d < 0 \<or> dst_port d > 0xFFFF then Inl (Error ''port must be a u16'')
      else
        (case addr_field (dst_addrType d) (dst_addr d) of
           Inl e \<Rightarrow> Inl e
         | Inr addrField \<Rightarrow>
             let buf = zeros (1 + length addrField + 2 + 1);
                 off = 0;
                 buf = buf[off := u8 (dst_addrType d)]; off = off + 1;
                 buf = set_at buf off addrField; off = off + length addrField;
                 buf = buf[off := u8 (nat (dst_port d) div 256)]; off = off + 1;
                 buf = buf[off := u8 (nat (dst_port d))]; off = off + 1
             in Inr (buf[off := u8 (dst_flags d)])))"

text \<open>Where the address is, and how long.\<close>

definition addr_place :: "bytes \<Rightarrow> (nat \<times> nat) option" where
  "addr_place payload =
     (let addrType = unat (payload ! 0)
      in if addrType = BEGIN_ADDR_TYPE_IPV4 then Some (1, 4)
         else if addrType = BEGIN_ADDR_TYPE_IPV6 then Some (1, 16)
         else if addrType = BEGIN_ADDR_TYPE_HOSTNAME then
           if length payload < 2 then None
           else
             let hnLen = unat (payload ! 1)
             in if hnLen = 0 \<or> hnLen > HOSTNAME_MAX_LEN then None else Some (2, hnLen)
         else None)"

definition parseBeginPayload :: "bytes \<Rightarrow> destination option" where
  "parseBeginPayload payload =
     (if length payload < 4 then None
      else
        (case addr_place payload of
           None \<Rightarrow> None
         | Some (addrStart, addrLen) \<Rightarrow>
             let minLen = addrStart + addrLen + 2 + 1
             in if length payload < minLen then None
                else Some \<lparr>dst_addrType = unat (payload ! 0),
                  dst_addr = subarray payload addrStart (addrStart + addrLen),
                  dst_port = int (push_bit 8 (unat (payload ! (addrStart + addrLen))) OR unat (payload ! (addrStart + addrLen + 1))),
                  dst_flags = unat (payload ! (addrStart + addrLen + 2))\<rparr>))"

fun decimal :: "nat \<Rightarrow> string" where
  "decimal n = (if n < 10 then [char_of (48 + n)] else decimal (n div 10) @ [char_of (48 + n mod 10)])"

declare decimal.simps [simp del]

definition ipv4ToString :: "bytes \<Rightarrow> string" where
  "ipv4ToString addr = decimal (unat (addr ! 0)) @ ''.'' @ decimal (unat (addr ! 1)) @ ''.''
     @ decimal (unat (addr ! 2)) @ ''.'' @ decimal (unat (addr ! 3))"

definition buildConnectedPayload :: "nat \<Rightarrow> bytes" where "buildConnectedPayload status = [u8 status]"

definition parseConnectedPayload :: "bytes \<Rightarrow> nat option" where
  "parseConnectedPayload payload = (if length payload < 1 then None else Some (unat (payload ! 0)))"

definition buildEndPayload :: "nat \<Rightarrow> bytes" where "buildEndPayload reason = [u8 reason]"

definition parseEndPayload :: "bytes \<Rightarrow> nat option" where
  "parseEndPayload payload = (if length payload < 1 then None else Some (unat (payload ! 0)))"

section \<open>Chunks\<close>

text \<open>The loop that cuts data into RELAY cells, on both sides of a stream: \<open>send\<close> is called with each chunk.\<close>

function send_chunks :: "(bytes \<Rightarrow> 's \<Rightarrow> (unit, 'e, 's) effectful) \<Rightarrow> bytes \<Rightarrow> nat \<Rightarrow> 's \<Rightarrow> (unit, 'e, 's) effectful" where
  "send_chunks send data off s =
     (if off < length data then
        let chunkLen = min MAX_RELAY_DATA (length data - off);
            chunk = subarray data off (off + chunkLen)
        in seq (send chunk s) (\<lambda>_. send_chunks send data (off + chunkLen))
      else ret () s)"
  by pat_completeness auto
termination by (relation "measure (\<lambda>(send, data, off, s). length data - off)") auto

declare send_chunks.simps [simp del]

section \<open>The exit\<close>

record exit_socket =
  xsk_circuit :: nat
  xsk_streamId :: nat
  xsk_key :: stream_key
  xsk_connected :: bool
  xsk_timer :: bool

record exit_relay = rp_relay +
  exr_sockets :: "(stream_key, nat) jsmap"
  exr_socks :: "exit_socket list"

type_synonym ('a, 'x) exit_act = "('a, relay_effect, 'x exit_relay_scheme) effectful"

definition sendBackwardFromExit :: "crypto \<Rightarrow> nat \<Rightarrow> nat \<Rightarrow> nat \<Rightarrow> bytes \<Rightarrow> 'x relay_state_scheme \<Rightarrow> (unit, 'x) relay_act" where
  "sendBackwardFromExit C circuit relayCommand streamId data = sendBackwardOnCircuit C circuit relayCommand streamId data"

definition on_sock :: "nat \<Rightarrow> (exit_socket \<Rightarrow> exit_socket) \<Rightarrow> 'x exit_relay_scheme \<Rightarrow> 'x exit_relay_scheme" where
  "on_sock k f s = s\<lparr>exr_socks := (exr_socks s)[k := f (exr_socks s ! k)]\<rparr>"

definition refuse :: "crypto \<Rightarrow> exit_data \<Rightarrow> nat \<Rightarrow> 'x exit_relay_scheme \<Rightarrow> (unit, 'x) exit_act" where
  "refuse C d reason s = sendBackwardFromExit C (xd_circuit d) RELAY_END (xd_streamId d) (buildEndPayload reason) s"

definition handleBegin :: "crypto \<Rightarrow> rule list \<Rightarrow> exit_data \<Rightarrow> 'x exit_relay_scheme \<Rightarrow> (unit, 'x) exit_act" where
  "handleBegin C exitPolicy d s =
     (case parseBeginPayload (xd_data d) of
        None \<Rightarrow> refuse C d END_REASON_MISC s
      | Some dest \<Rightarrow>
          if dst_addrType dest \<noteq> BEGIN_ADDR_TYPE_IPV4 then refuse C d END_REASON_RESOLVE_FAIL s
          else
            seq (lift (evaluate exitPolicy ADDR_TYPE_IPV4 (dst_addr dest) (dst_port dest)) s) (\<lambda>v s.
              if v \<noteq> Accept then refuse C d END_REASON_EXIT_POLICY s
              else
                let key = reasmKey (obj s (xd_circuit d)) (xd_streamId d);
                    sock = length (exr_socks s)
                in emit (Tcp_Connect sock (ipv4ToString (dst_addr dest)) (nat (dst_port dest)))
                     (s\<lparr>exr_sockets := map_set key sock (exr_sockets s),
                        exr_socks := exr_socks s @ [\<lparr>xsk_circuit = xd_circuit d, xsk_streamId = xd_streamId d,
                          xsk_key = key, xsk_connected = False, xsk_timer = True\<rparr>]\<rparr>)))"

definition handleStreamData :: "exit_data \<Rightarrow> 'x exit_relay_scheme \<Rightarrow> (unit, 'x) exit_act" where
  "handleStreamData d s =
     (case map_get (exr_sockets s) (reasmKey (obj s (xd_circuit d)) (xd_streamId d)) of
        None \<Rightarrow> ret () s
      | Some sock \<Rightarrow> emit (Tcp_Write sock (xd_data d)) s)"

definition handleStreamEnd :: "exit_data \<Rightarrow> 'x exit_relay_scheme \<Rightarrow> (unit, 'x) exit_act" where
  "handleStreamEnd d s =
     (let key = reasmKey (obj s (xd_circuit d)) (xd_streamId d)
      in case map_get (exr_sockets s) key of
           None \<Rightarrow> ret () s
         | Some sock \<Rightarrow> emit (Tcp_End sock) (s\<lparr>exr_sockets := map_delete key (exr_sockets s)\<rparr>))"

definition exit_handleData :: "crypto \<Rightarrow> rule list \<Rightarrow> exit_data \<Rightarrow> 'x exit_relay_scheme \<Rightarrow> (unit, 'x) exit_act" where
  "exit_handleData C exitPolicy d s =
     (if xd_relayCommand d = RELAY_BEGIN then handleBegin C exitPolicy d s
      else if xd_relayCommand d = RELAY_DATA then handleStreamData d s
      else if xd_relayCommand d = RELAY_END then handleStreamEnd d s
      else ret () s)"

text \<open>The handlers of a socket and of its timer; a handler exists only for a socket that was created.\<close>

datatype socket_event = On_Connect | On_Data bytes | On_End | On_Error | On_Timer

definition drop_socket :: "stream_key \<Rightarrow> 'x exit_relay_scheme \<Rightarrow> 'x exit_relay_scheme" where
  "drop_socket key s = s\<lparr>exr_sockets := map_delete key (exr_sockets s)\<rparr>"

definition on_socket :: "crypto \<Rightarrow> nat \<Rightarrow> socket_event \<Rightarrow> 'x exit_relay_scheme \<Rightarrow> (unit, 'x) exit_act" where
  "on_socket C k ev s =
     (if k \<ge> length (exr_socks s) then ret () s
      else
        let x = exr_socks s ! k
        in case ev of
             On_Timer \<Rightarrow>
               if \<not> xsk_timer x then ret () s
               else
                 let s = on_sock k (\<lambda>x. x\<lparr>xsk_timer := False\<rparr>) s
                 in if xsk_connected x then ret () s else emit (Tcp_Destroy k) s
           | On_Connect \<Rightarrow>
               sendBackwardFromExit C (xsk_circuit x) RELAY_CONNECTED (xsk_streamId x)
                 (buildConnectedPayload CONNECTED_STATUS_OK)
                 (on_sock k (\<lambda>x. x\<lparr>xsk_connected := True, xsk_timer := False\<rparr>) s)
           | On_Data chunk \<Rightarrow> send_chunks (sendBackwardFromExit C (xsk_circuit x) RELAY_DATA (xsk_streamId x)) chunk 0 s
           | On_End \<Rightarrow>
               seq (sendBackwardFromExit C (xsk_circuit x) RELAY_END (xsk_streamId x) (buildEndPayload END_REASON_REMOTE_CLOSED) s)
                 (\<lambda>_. update (drop_socket (xsk_key x)))
           | On_Error \<Rightarrow>
               let s = on_sock k (\<lambda>x. x\<lparr>xsk_timer := False\<rparr>) s
               in seq (sendBackwardFromExit C (xsk_circuit x) RELAY_END (xsk_streamId x)
                         (buildEndPayload (if xsk_connected x then END_REASON_REMOTE_CLOSED else END_REASON_REFUSED)) s)
                    (\<lambda>_. update (drop_socket (xsk_key x))))"

definition exit_closeAll :: "'x exit_relay_scheme \<Rightarrow> (unit, 'x) exit_act" where
  "exit_closeAll s =
     seq (for_each (\<lambda>sock. emit (Tcp_Destroy sock)) (map snd (exr_sockets s)) s)
       (\<lambda>_. update (\<lambda>s. s\<lparr>exr_sockets := []\<rparr>))"

end
