(* ===== verification/V2_Streams_Props.thy ===== *)
theory V2_Streams_Props
  imports V2_Streams
begin

text \<open>
  The cutting of a stream's data into cells, and the BEGIN payload.
\<close>

section \<open>Chunks\<close>

function chunks :: "bytes \<Rightarrow> bytes list" where
  "chunks data = (if data = [] then [] else take 499 data # chunks (drop 499 data))"
  by pat_completeness auto
termination by (relation "measure length") auto

declare chunks.simps [simp del]

lemma chunks_simps [simp]: "chunks [] = []" "data \<noteq> [] \<Longrightarrow> chunks data = take 499 data # chunks (drop 499 data)"
  by (simp_all add: chunks.simps [of data] chunks.simps [of "[]"])

lemma concat_chunks: "concat (chunks data) = data"
proof (induction data rule: chunks.induct)
  case (1 data)
  then show ?case by (cases "data = []") simp_all
qed

lemma chunk_sizes: "list_all (\<lambda>c. 0 < length c \<and> length c \<le> 499) (chunks data)"
proof (induction data rule: chunks.induct)
  case (1 data)
  then show ?case by (cases "data = []") simp_all
qed

lemma chunk_small: "c \<in> set (chunks data) \<Longrightarrow> length c \<le> 499"
  using chunk_sizes [of data] by (simp add: list_all_iff)

lemma chunk_number: "length (chunks data) = (length data + 498) div 499"
proof (induction data rule: chunks.induct)
  case (1 data)
  show ?case
  proof (cases "data = []")
    case False
    have "0 < length data" using False by simp
    then have "(length data + 498) div 499 = Suc ((length data - 499 + 498) div 499)"
    proof (cases "length data \<le> 499")
      case True
      then have "(length data + 498) div 499 = 1" using \<open>0 < length data\<close> by (intro div_nat_eqI) (simp_all add: Suc_leI)
      then show ?thesis using True by simp
    qed (simp add: le_div_geq)
    then show ?thesis using 1 False by simp
  qed simp
qed

lemma send_chunks_from: "off \<le> length data \<Longrightarrow> send_chunks f data off s = for_each f (chunks (drop off data)) s"
proof (induction f data off s rule: send_chunks.induct)
  case (1 f data off s)
  show ?case
  proof (cases "off < length data")
    case True
    let ?n = "min 499 (length data - off)"
    have chunk: "subarray data off (off + ?n) = take 499 (drop off data)"
      by (simp add: subarray_def min_def)
    have rest: "drop (off + ?n) data = drop 499 (drop off data)"
      by (simp add: min_def add.commute)
    have step: "send_chunks f data (off + ?n) t = for_each f (chunks (drop 499 (drop off data))) t" for t
      using 1(1) [OF True refl refl] True rest by simp
    have "send_chunks f data off s = seq (f (take 499 (drop off data)) s) (\<lambda>_. send_chunks f data (off + ?n))"
      using True chunk by (subst send_chunks.simps) (simp add: Let_def)
    also have "(\<lambda>_. send_chunks f data (off + ?n)) = (\<lambda>_. for_each f (chunks (drop 499 (drop off data))))"
      by (rule ext)+ (rule step)
    finally show ?thesis using True by simp
  qed (subst send_chunks.simps, use 1 in simp)
qed

lemma send_chunks_each: "send_chunks f data 0 s = for_each f (chunks data) s"
  using send_chunks_from [of 0 data f s] by simp

text \<open>The loop that sends data on a stream ends, whatever sending a cell does: it sends the data in order, in
  ceil(n / 499) cells, none of them empty and each within the capacity of a RELAY cell.\<close>

theorem stream_chunks:
  "send_chunks send data 0 s = for_each send (chunks data) s \<and> concat (chunks data) = data
   \<and> length (chunks data) = (length data + 498) div 499
   \<and> list_all (\<lambda>c. 0 < length c \<and> length c \<le> MAX_RELAY_DATA) (chunks data)"
  using send_chunks_each concat_chunks chunk_sizes chunk_number by simp

section \<open>BEGIN\<close>

lemma addr_field_cases:
  assumes "addr_field t a = Inr f"
  shows "t = 1 \<and> f = a \<and> length a = 4 \<or> t = 2 \<and> f = a \<and> length a = 16
    \<or> t = 3 \<and> f = u8 (length a) # a \<and> 0 < length a \<and> length a \<le> 255"
  using assms by (auto simp: addr_field_def zeros_def layout set_at_def split: if_splits)

lemma buildBeginPayload_layout:
  assumes "buildBeginPayload d = Inr p"
  shows "\<exists>f. addr_field (dst_addrType d) (dst_addr d) = Inr f \<and> 0 \<le> dst_port d \<and> dst_port d < 65536
    \<and> p = u8 (dst_addrType d) # f @ [u8 (nat (dst_port d) div 256), u8 (nat (dst_port d)), u8 (dst_flags d)]"
proof -
  have z: "zeros (1 + n + 2 + 1) = 0 # zeros n @ [0, 0, 0]" for n
    using replicate_add [of "1 + n" 3 "0 :: 8 word"] by (simp add: zeros_def numeral_3_eq_3)
  obtain f where f: "addr_field (dst_addrType d) (dst_addr d) = Inr f" "0 \<le> dst_port d" "dst_port d < 65536"
    using assms by (auto simp: buildBeginPayload_def split: if_splits sum.splits)
  then have "p = u8 (dst_addrType d) # f @ [u8 (nat (dst_port d) div 256), u8 (nat (dst_port d)), u8 (dst_flags d)]"
    using assms unfolding buildBeginPayload_def z Let_def
    by (simp add: layout list_update_append set_at_def split: sum.splits)
  then show ?thesis using f by blast
qed

text \<open>A BEGIN payload that the client builds is read back by the exit: address type, address, port and flags.\<close>

theorem begin_roundtrip:
  assumes "buildBeginPayload d = Inr payload" "dst_flags d < 256"
  shows "parseBeginPayload payload = Some d"
proof -
  obtain f where f: "addr_field (dst_addrType d) (dst_addr d) = Inr f" "0 \<le> dst_port d" "dst_port d < 65536"
    and p: "payload = u8 (dst_addrType d) # f @ [u8 (nat (dst_port d) div 256), u8 (nat (dst_port d)), u8 (dst_flags d)]"
    using buildBeginPayload_layout [OF assms(1)] by blast
  have port: "int (push_bit 8 (unat (u8 (nat (dst_port d) div 256))) OR unat (u8 (nat (dst_port d)))) = dst_port d"
    using be_val_two [of "nat (dst_port d)"] f(2,3) by (simp add: be_val_pair shift_or_nat)
  from addr_field_cases [OF f(1)] show ?thesis
    by (elim disjE conjE)
      (simp_all add: p parseBeginPayload_def addr_place_def Let_def unat_u8_id nth_append subarray_def assms(2) port)
qed

theorem begin_roundtrip_witness:
  "\<exists>payload. buildBeginPayload \<lparr>dst_addrType = 3, dst_addr = [0x61, 0x2E, 0x62], dst_port = 8080, dst_flags = 1\<rparr> = Inr payload
     \<and> parseBeginPayload payload = Some \<lparr>dst_addrType = 3, dst_addr = [0x61, 0x2E, 0x62], dst_port = 8080, dst_flags = 1\<rparr>"
proof -
  obtain p where "buildBeginPayload \<lparr>dst_addrType = 3, dst_addr = [0x61, 0x2E, 0x62], dst_port = 8080, dst_flags = 1\<rparr> = Inr p"
    by (simp add: buildBeginPayload_def addr_field_def)
  with begin_roundtrip [OF this] show ?thesis by simp
qed

end
