(* ===== verification/V2_Hsdir_Role.thy ===== *)
theory V2_Hsdir_Role
  imports V2_Streams
begin

text \<open>
  \<open>v2-runtime/hsdir\_exit\_role.mjs\<close>: the role of an exit relay that fetches descriptors for others, and the exit callback of
  \<open>bin/anon-node-v2.mjs\<close>, which runs all the roles of a relay. The HTTP request is an effect; its answer is an event.
\<close>

section \<open>Requests\<close>

definition strip_slashes :: "string \<Rightarrow> string" where
  "strip_slashes url = rev (dropWhile (\<lambda>c. c = CHR ''/'') (rev url))"

definition hsdir_url :: "string \<Rightarrow> string \<Rightarrow> string" where
  "hsdir_url daBaseUrl key = strip_slashes daBaseUrl @ ''/hsdir/'' @ key"

record http_reply =
  htr_status :: nat
  htr_body :: bytes

section \<open>The cells of a reply\<close>

definition REPLY_HEADER_BYTES :: nat where [simp]: "REPLY_HEADER_BYTES = 8"

function reply_chunks :: "bytes \<Rightarrow> nat \<Rightarrow> (nat \<times> bytes) list" where
  "reply_chunks body off =
     (if off < length body then
        let takeLen = min (length body - off) MAX_RELAY_DATA
        in (RELAY_DESCFETCH_REPLY, subarray body off (off + takeLen)) # reply_chunks body (off + takeLen)
      else [])"
  by pat_completeness auto
termination by (relation "measure (\<lambda>(body, off). length body - off)") auto

declare reply_chunks.simps [simp del]

definition buildReplyCells :: "nat \<Rightarrow> bytes option \<Rightarrow> (nat \<times> bytes) list res" where
  "buildReplyCells httpStatus body =
     (let b = (case body of None \<Rightarrow> [] | Some b \<Rightarrow> b);
          totalLen = length b;
          room = MAX_RELAY_DATA - REPLY_HEADER_BYTES
      in if httpStatus > 0xFFFFFFFF \<or> totalLen > 0xFFFFFFFF then Inl (RangeError ''value out of range'')
         else
           let first = zeros (REPLY_HEADER_BYTES + min totalLen room);
               first = set_at first 0 (be_bytes 4 httpStatus);
               first = set_at first 4 (be_bytes 4 totalLen);
               takeLen = min totalLen room;
               first = (if totalLen > 0 then set_at first REPLY_HEADER_BYTES (subarray b 0 takeLen) else first);
               off = (if totalLen > 0 then takeLen else 0)
           in Inr ((RELAY_DESCFETCH_REPLY, first) # reply_chunks b off @ [(RELAY_DESCFETCH_END, [])]))"

section \<open>The role of the exit\<close>

text \<open>Requests whose fetch is under way are kept with their circuit and stream; \<open>catch_failed\<close> is the \<open>catch\<close> of \<open>handleData\<close>.\<close>

record hsdir_relay = exit_relay +
  hsr_fetched :: nat
  hsr_failed :: nat
  hsr_lastError :: "string option"
  hsr_requests :: "(nat \<times> nat \<times> string) list"

type_synonym ('a, 'x) hsdir_act = "('a, relay_effect, 'x hsdir_relay_scheme) effectful"

definition is_key_char :: "char \<Rightarrow> bool" where
  "is_key_char c \<longleftrightarrow> c \<in> set ''ABCDEFGHIJKLMNOPQRSTUVWXYZabcdefghijklmnopqrstuvwxyz0123456789_-''"

definition KEY_RE :: "string \<Rightarrow> bool" where
  "KEY_RE key \<longleftrightarrow> 16 \<le> length key \<and> length key \<le> 64 \<and> list_all is_key_char key"

fun error_message :: "js_error \<Rightarrow> string" where
  "error_message (Error m) = m"
| "error_message (TypeError m) = m"
| "error_message (RangeError m) = m"

definition count_failure :: "string \<Rightarrow> 'x hsdir_relay_scheme \<Rightarrow> 'x hsdir_relay_scheme" where
  "count_failure msg s = s\<lparr>hsr_failed := hsr_failed s + 1, hsr_lastError := Some msg\<rparr>"

definition catch_failed :: "(unit, 'x) hsdir_act \<Rightarrow> (unit, 'x) hsdir_act" where
  "catch_failed a = (case a of (Inl e, es, s) \<Rightarrow> (Inr (), es, count_failure (error_message e) s) | (Inr u, es, s) \<Rightarrow> (Inr u, es, s))"

definition send_reply :: "crypto \<Rightarrow> nat \<Rightarrow> nat \<Rightarrow> nat \<Rightarrow> bytes option \<Rightarrow> 'x hsdir_relay_scheme \<Rightarrow> (unit, 'x) hsdir_act" where
  "send_reply C circuit streamId httpStatus body s =
     seq (lift (buildReplyCells httpStatus body) s)
       (for_each (\<lambda>(cmd, data). sendBackwardOnCircuit C circuit cmd streamId data))"

text \<open>Up to the fetch. Bytes that are not ASCII decode to characters that no key has.\<close>

definition handleDescfetch :: "crypto \<Rightarrow> string \<Rightarrow> exit_data \<Rightarrow> 'x hsdir_relay_scheme \<Rightarrow> (unit, 'x) hsdir_act" where
  "handleDescfetch C daBaseUrl d s =
     (let key = map (\<lambda>b. char_of (unat b)) (xd_data d)
      in if \<not> KEY_RE key then
           send_reply C (xd_circuit d) (xd_streamId d) 0 None (count_failure (''malformed key: '' @ take 32 key) s)
         else
           let url = hsdir_url daBaseUrl key
           in emit (Http_Get url) (s\<lparr>hsr_requests := hsr_requests s @ [(xd_circuit d, xd_streamId d, url)]\<rparr>))"

definition hsdir_handleData :: "crypto \<Rightarrow> string \<Rightarrow> exit_data \<Rightarrow> 'x hsdir_relay_scheme \<Rightarrow> (unit, 'x) hsdir_act" where
  "hsdir_handleData C daBaseUrl d s =
     (if xd_relayCommand d \<noteq> RELAY_DESCFETCH then ret () s else catch_failed (handleDescfetch C daBaseUrl d s))"

text \<open>After the fetch: the answer, or the message of what it threw.\<close>

definition descfetch_done :: "crypto \<Rightarrow> nat \<Rightarrow> string + http_reply \<Rightarrow> 'x hsdir_relay_scheme \<Rightarrow> (unit, 'x) hsdir_act" where
  "descfetch_done C i reply s =
     (if i \<ge> length (hsr_requests s) then ret () s
      else
        let (circuit, streamId, url) = hsr_requests s ! i;
            s = s\<lparr>hsr_requests := take i (hsr_requests s) @ drop (Suc i) (hsr_requests s)\<rparr>
        in catch_failed
             (case reply of
                Inl msg \<Rightarrow> send_reply C circuit streamId 0 (Some []) (count_failure msg s)
              | Inr resp \<Rightarrow>
                  let body = (if 200 \<le> htr_status resp \<and> htr_status resp \<le> 299 then htr_body resp else [])
                  in send_reply C circuit streamId (htr_status resp) (Some body) (s\<lparr>hsr_fetched := hsr_fetched s + 1\<rparr>)))"

section \<open>The exit callback\<close>

text \<open>The callback that \<open>bin/anon-node-v2.mjs\<close> gives the dispatcher: every role sees the data and filters by command. The last
  role is there when the relay was started with \<open>--hsdir-url\<close>, whose value is the argument.\<close>

definition onExitData ::
  "crypto \<Rightarrow> relay_identity \<Rightarrow> rule list \<Rightarrow> string option \<Rightarrow> role_draws \<Rightarrow> exit_data \<Rightarrow> 'x hsdir_relay_scheme \<Rightarrow> (unit, 'x) hsdir_act" where
  "onExitData C i exitPolicy hsdirUrl w d s =
     seq (exit_handleData C exitPolicy d s) (\<lambda>_ s.
     seq (ip_handleData C i w d s) (\<lambda>_ s.
     seq (rp_handleData C w d s) (\<lambda>_ s.
     (case hsdirUrl of None \<Rightarrow> ret () s | Some daBaseUrl \<Rightarrow> hsdir_handleData C daBaseUrl d s))))"

end
