(* ===== verification/V2_Relay_Node.thy ===== *)
theory V2_Relay_Node
  imports V2_Dispatcher_Props V2_Streams_Props V2_Hsdir_Role
begin

text \<open>
  A whole relay: the dispatcher with the roles that \<open>anon-node-v2.mjs\<close> runs from its exit callback (exit streams,
  introduction point, rendezvous point, descriptor fetches), the events of the exit's sockets and the ends of its fetches. The contract \<open>exit\_roles\<close> of
  the dispatcher is discharged for them, and the properties of the composed relay follow.
\<close>

section \<open>What the roles need\<close>

text \<open>Circuits that a role remembers have their keys, and the stream numbers it remembers are 16-bit.\<close>

definition refs_ok :: "'x hsdir_relay_scheme \<Rightarrow> bool" where
  "refs_ok s \<longleftrightarrow>
     (\<forall>k r t. map_get (ipr_services s) k = Some (r, t) \<longrightarrow> has_hop s r)
   \<and> (\<forall>k r sid. map_get (rpr_cookies s) k = Some (r, sid) \<longrightarrow> has_hop s r \<and> sid < 65536)
   \<and> (\<forall>x\<in>set (exr_socks s). has_hop s (xsk_circuit x) \<and> xsk_streamId x < 65536)
   \<and> (\<forall>(r, sid, url)\<in>set (hsr_requests s). has_hop s r)"

text \<open>The invariant of the composed relay; \<open>P\<close> says whether the table is known to be tidy, \<open>R\<close> are the circuits at hand.\<close>

definition node_ok :: "bool \<Rightarrow> nat set \<Rightarrow> 'x hsdir_relay_scheme \<Rightarrow> bool" where
  "node_ok P R s \<longleftrightarrow> relay_inv s \<and> refs_ok s \<and> (P \<longrightarrow> tidy s) \<and> (\<forall>r\<in>R. has_hop s r)"

lemma more_fields:
  "relay_state.more (t :: 'x hsdir_relay_scheme) = relay_state.more s \<Longrightarrow>
   ipr_services t = ipr_services s \<and> rpr_cookies t = rpr_cookies s \<and> exr_socks t = exr_socks s \<and> hsr_requests t = hsr_requests s"
  by (cases s, cases t) simp

lemma refs_keeps:
  assumes "refs_ok s" "keeps s t"
  shows "refs_ok t"
proof -
  have f: "ipr_services t = ipr_services s" "rpr_cookies t = rpr_cookies s" "exr_socks t = exr_socks s" "hsr_requests t = hsr_requests s"
    and h: "\<And>r. has_hop s r \<Longrightarrow> has_hop t r"
    using more_fields [of t s] assms(2) by (simp_all add: keeps_def)
  show ?thesis using assms(1) h unfolding refs_ok_def f by (simp add: split_beta)
qed

text \<open>An update of a role's own maps.\<close>

lemma same_core:
  assumes "rst_objs t = rst_objs s" "rst_circuits t = rst_circuits s" "rst_dials t = rst_dials s"
  shows "relay_inv t = relay_inv s" "tidy t = tidy s" "has_hop t = has_hop s" "obj t = obj s"
proof -
  show o: "obj t = obj s" by (rule ext) (simp add: obj_def assms)
  then show h: "has_hop t = has_hop s" by (auto simp: has_hop_def assms)
  show "relay_inv t = relay_inv s" unfolding relay_inv_def h assms ..
  show "tidy t = tidy s" unfolding tidy_def o assms ..
qed

lemma node_own:
  "node_ok P R s \<Longrightarrow> rst_objs t = rst_objs s \<Longrightarrow> rst_circuits t = rst_circuits s \<Longrightarrow> rst_dials t = rst_dials s \<Longrightarrow>
   refs_ok t \<Longrightarrow> node_ok P R t"
  using same_core [of t s] by (simp add: node_ok_def)

text \<open>Writing back a hop of any circuit that has one.\<close>

lemma node_hop:
  assumes "node_ok P R s" "has_hop s q" "hop_ok h"
  shows "node_ok P R (on_obj q (\<lambda>c. c\<lparr>cir_relayHop := Some h\<rparr>) s)" (is "node_ok P R ?t")
proof -
  have i: "inv_at q s" using assms by (simp add: node_ok_def has_hop_def inv_at_def)
  have "inv_at q ?t" by (rule inv_on_obj [OF i]) (use obj_ok [OF i] assms(2,3) in \<open>auto simp: circuit_ok_def has_hop_def\<close>)
  moreover have k: "keeps s ?t" by (rule keeps_on_obj) simp
  moreover have "P \<longrightarrow> tidy ?t" using assms(1,2) tidy_hop by (auto simp: node_ok_def has_hop_def)
  ultimately show ?thesis
    using assms(1) refs_keeps [OF _ k] by (simp add: node_ok_def inv_at_def keeps_def)
qed

section \<open>Sending backward\<close>

lemma backward_hop:
  assumes "node_ok P R s" "has_hop s q"
  obtains h where "cir_relayHop (obj s q) = Some h" "hop_ok h" "snd (cir_inbound (obj s q)) < 2 ^ 32"
proof -
  have i: "inv_at q s" using assms by (simp add: node_ok_def has_hop_def inv_at_def)
  obtain h where "cir_relayHop (obj s q) = Some h" using assms(2) by (auto simp: has_hop_def)
  with relayHop_ok [OF i] obj_ok [OF i] that show ?thesis by (auto simp: circuit_ok_def)
qed

lemma relayWrapBackward_hop: "relayWrapBackward C h p = Inr (w, h') \<Longrightarrow> hop_ok h' = hop_ok h \<and> length w = 508"
  by (auto simp: relayWrapBackward_def hop_ok_def applyLayer_def split: if_splits sum.splits)

lemma sendBackward_sound:
  assumes "node_ok P R s" "has_hop s q"
  shows "sound (node_ok P R) whole_cell (sendBackwardOnCircuit C q cmd sid data s)"
proof -
  obtain h where h: "cir_relayHop (obj s q) = Some h" "hop_ok h" by (rule backward_hop [OF assms]) blast
  show ?thesis
  proof (cases "buildRelayPayload C cmd (int sid) data (rhp_backwardDigest h)")
    case (Inl e)
    then show ?thesis using assms(1) h(1) by (simp add: sendBackwardOnCircuit_def sound_throw)
  next
    case (Inr b)
    obtain p d where b: "b = (p, d)" by (cases b)
    let ?h = "h\<lparr>rhp_backwardDigest := d\<rparr>"
    let ?s = "on_obj q (\<lambda>c. c\<lparr>cir_relayHop := Some ?h\<rparr>) s"
    have s: "node_ok P R ?s" by (rule node_hop [OF assms]) (simp add: h)
    have q: "has_hop ?s q" using assms(2) by (simp add: has_hop_def)
    show ?thesis
    proof (cases "relayWrapBackward C ?h p")
      case (Inr w)
      obtain wrapped h' where w: "w = (wrapped, h')" by (cases w)
      have "hop_ok h'" using relayWrapBackward_hop [OF Inr [unfolded w]] h(2) by simp
      then have "node_ok P R (on_obj q (\<lambda>c. c\<lparr>cir_relayHop := Some h'\<rparr>) ?s)" by (rule node_hop [OF s q])
      then show ?thesis
        using h(1) \<open>buildRelayPayload C cmd (int sid) data (rhp_backwardDigest h) = Inr b\<close> Inr b w
        by (simp add: sendBackwardOnCircuit_def Let_def sendCell_sound)
    qed (use h(1) Inr b s in \<open>simp add: sendBackwardOnCircuit_def Let_def sound_throw\<close>)
  qed
qed

lemma sendBackward_good:
  assumes "node_ok P R s" "has_hop s q" "length data \<le> 499" "sid < 65536"
  shows "good (node_ok P R) whole_cell (sendBackwardOnCircuit C q cmd sid data s)"
proof -
  obtain h where h: "cir_relayHop (obj s q) = Some h" "hop_ok h" "snd (cir_inbound (obj s q)) < 2 ^ 32"
    by (rule backward_hop [OF assms(1,2)]) blast
  obtain p d where p: "buildRelayPayload C cmd (int sid) data (rhp_backwardDigest h) = Inr (p, d)" "length p = 508"
    using buildRelayPayload_total [OF assms(3,4)] by blast
  let ?h = "h\<lparr>rhp_backwardDigest := d\<rparr>"
  have w: "relayWrapBackward C ?h p = Inr (layers C (rhp_Kb ?h, rhp_backwardCounter ?h) p, bump_wrap ?h)"
    using wrap_ok [of ?h p C] h(2) p(2) by simp
  let ?s = "on_obj q (\<lambda>c. c\<lparr>cir_relayHop := Some ?h\<rparr>) s"
  have s: "node_ok P R ?s" by (rule node_hop [OF assms(1,2)]) (simp add: h)
  have q: "has_hop ?s q" using assms(2) by (simp add: has_hop_def)
  let ?t = "on_obj q (\<lambda>c. c\<lparr>cir_relayHop := Some (bump_wrap ?h)\<rparr>) ?s"
  have t: "node_ok P R ?t" by (rule node_hop [OF s q]) (simp add: h)
  have "q < length (rst_objs s)" using assms(2) by (simp add: has_hop_def)
  then have inb: "cir_inbound (obj ?t q) = cir_inbound (obj s q)" by simp
  have "good (node_ok P R) whole_cell (sendCell (cir_inbound (obj ?t q)) CMD_RELAY (layers C (rhp_Kb ?h, rhp_backwardCounter ?h) p) ?t)"
    by (rule sendCell_good [where I = "node_ok P R", OF t]) (use h(3) p(2) in \<open>simp_all add: inb\<close>)
  then show ?thesis using h(1) p(1) w by (simp add: sendBackwardOnCircuit_def Let_def)
qed

text \<open>Sending a list of pieces backward.\<close>

lemma backward_each_sound:
  "node_ok P R s \<Longrightarrow> q \<in> R \<Longrightarrow> sound (node_ok P R) whole_cell (for_each (sendBackwardOnCircuit C q cmd sid) ps s)"
  by (rule sound_for_each, rule sendBackward_sound) (simp_all add: node_ok_def)

lemma backward_fragments_sound:
  "node_ok P R s \<Longrightarrow> q \<in> R \<Longrightarrow>
   sound (node_ok P R) whole_cell (seq (lift r s) (for_each (sendBackwardOnCircuit C q cmd sid)))"
  by (rule sound_seq [where J = "node_ok P R"]) (simp_all add: backward_each_sound, simp add: sound_def lift_def)

section \<open>The roles keep the invariant\<close>

text \<open>Updates of the roles' own maps.\<close>

lemma own_simps [simp]:
  "has_hop (s\<lparr>ipr_services := a\<rparr>) = has_hop s" "has_hop (s\<lparr>ipr_introduceReassemblers := b\<rparr>) = has_hop s"
  "has_hop (s\<lparr>rpr_cookies := c\<rparr>) = has_hop s" "has_hop (s\<lparr>rpr_spliceCount := n\<rparr>) = has_hop s"
  "has_hop (s\<lparr>rpr_rendezvous1Reassemblers := e\<rparr>) = has_hop s"
  "has_hop (s\<lparr>exr_sockets := f\<rparr>) = has_hop s" "has_hop (s\<lparr>exr_socks := g\<rparr>) = has_hop s"
  "has_hop (s\<lparr>hsr_requests := rs\<rparr>) = has_hop s" "has_hop (s\<lparr>hsr_fetched := n\<rparr>) = has_hop s" "has_hop (count_failure msg s) = has_hop s"
  by (rule same_core; simp add: count_failure_def)+

lemma own_ok [simp]:
  "node_ok P R (s\<lparr>ipr_introduceReassemblers := b\<rparr>) = node_ok P R s" "node_ok P R (s\<lparr>rpr_spliceCount := n\<rparr>) = node_ok P R s"
  "node_ok P R (s\<lparr>rpr_rendezvous1Reassemblers := e\<rparr>) = node_ok P R s" "node_ok P R (s\<lparr>exr_sockets := f\<rparr>) = node_ok P R s"
  by (simp_all add: node_ok_def refs_ok_def same_core(1,2) [of "_\<lparr>ipr_introduceReassemblers := b\<rparr>" s]
      same_core(1,2) [of "_\<lparr>rpr_spliceCount := n\<rparr>" s] same_core(1,2) [of "_\<lparr>rpr_rendezvous1Reassemblers := e\<rparr>" s]
      same_core(1,2) [of "_\<lparr>exr_sockets := f\<rparr>" s])

lemma own_services:
  "node_ok P R s \<Longrightarrow> has_hop s q \<Longrightarrow> node_ok P R (s\<lparr>ipr_services := map_set k (q, t) (ipr_services s)\<rparr>)"
  by (rule node_own) (auto simp: node_ok_def refs_ok_def jm.get_put)

lemma own_cookies:
  "node_ok P R s \<Longrightarrow> has_hop s q \<Longrightarrow> sid < 65536 \<Longrightarrow> node_ok P R (s\<lparr>rpr_cookies := map_set k (q, sid) (rpr_cookies s)\<rparr>)"
  by (rule node_own) (auto simp: node_ok_def refs_ok_def jm.get_put)

lemma own_cookies_delete: "node_ok P R s \<Longrightarrow> node_ok P R (s\<lparr>rpr_cookies := map_delete k (rpr_cookies s)\<rparr>)"
  by (rule node_own) (auto simp: node_ok_def refs_ok_def jm.get_del split: if_splits)

lemma node_in: "node_ok P R s \<Longrightarrow> q \<in> R \<Longrightarrow> has_hop s q"
  by (simp add: node_ok_def)

lemma node_add: "node_ok P R s \<Longrightarrow> has_hop s q \<Longrightarrow> node_ok P (insert q R) s"
  by (simp add: node_ok_def)

lemma node_drop: "sound (node_ok P (insert q R)) E a \<Longrightarrow> sound (node_ok P R) E a"
  by (erule sound_mono) (auto simp: node_ok_def)

text \<open>To the circuit at hand.\<close>

lemma reply_sound: "node_ok P R s \<Longrightarrow> q \<in> R \<Longrightarrow> sound (node_ok P R) whole_cell (sendBackwardOnCircuit C q cmd sid data s)"
  using node_in sendBackward_sound by blast

lemma establishIntro_sound:
  assumes "node_ok P R s" "xd_circuit d \<in> R"
  shows "sound (node_ok P R) whole_cell (handleEstablishIntro C i n1 n2 d s)"
proof (cases "parseAndVerifyEstablishIntro C (xd_data d) (rid_ID_R i) (Some n1) 3600")
  case None
  then show ?thesis using reply_sound [OF assms] by (simp add: handleEstablishIntro_def)
next
  case (Some v)
  then show ?thesis
    using reply_sound [OF own_services [OF assms(1) node_in [OF assms]] assms(2)]
    by (cases v) (simp add: handleEstablishIntro_def)
qed

lemma introduce1_sound:
  assumes "node_ok P R s" "xd_circuit d \<in> R"
  shows "sound (node_ok P R) whole_cell (handleIntroduce1 C now hid d s)"
proof -
  let ?key = "reasmKey (obj s (xd_circuit d)) (xd_streamId d)"
  obtain r reasm where r: "ingest now (xd_data d) (case map_get (ipr_introduceReassemblers s) ?key of
      None \<Rightarrow> defaultReassembler | Some r \<Rightarrow> r) = (r, reasm)" by fastforce
  let ?t = "\<lambda>m. s\<lparr>ipr_introduceReassemblers := m\<rparr>"
  have ok: "node_ok P R (?t m)" for m using assms(1) by simp
  note reply = reply_sound [OF ok assms(2)]
  have forward: "sound (node_ok P R) whole_cell (seq (forwardIntroduce2 C hid q msg (?t m)) (\<lambda>_.
      sendBackwardOnCircuit C (xd_circuit d) cmd sid data))" if "has_hop s q" for q msg m cmd sid data
  proof (rule node_drop, rule sound_seq [where J = "node_ok P (insert q R)"])
    have "node_ok P (insert q R) (?t m)" using node_add [OF assms(1) that] by simp
    then show "sound (node_ok P (insert q R)) whole_cell (forwardIntroduce2 C hid q msg (?t m))"
      unfolding forwardIntroduce2_def by (rule backward_fragments_sound) simp
  qed (use assms(2) in \<open>simp_all add: reply_sound\<close>)
  have q: "has_hop s q" if "map_get (ipr_services s) k = Some (q, n)" for k q n
    using that assms(1) by (auto simp: node_ok_def refs_ok_def)
  show ?thesis
  proof (cases r)
    case (Complete msg)
    then show ?thesis
      using reply forward q by (auto simp: handleIntroduce1_def Let_def r split: option.splits prod.splits)
  qed (use ok in \<open>simp_all add: handleIntroduce1_def Let_def r good_sound good_ret\<close>)
qed

lemma ip_sound: "node_ok P R s \<Longrightarrow> xd_circuit d \<in> R \<Longrightarrow> sound (node_ok P R) whole_cell (ip_handleData C i w d s)"
  by (simp add: ip_handleData_def establishIntro_sound introduce1_sound good_sound good_ret)

lemma inv_splice:
  assumes "relay_inv s" "has_hop s a" "has_hop s b"
  shows "relay_inv (on_obj a (\<lambda>c. c\<lparr>cir_spliceHandler := Some b\<rparr>) s)" (is "relay_inv ?t")
proof -
  have a: "a < length (rst_objs s)" using assms(2) by (simp add: has_hop_def)
  have hop: "has_hop ?t = has_hop s" by (rule ext) (simp add: has_hop_def obj_on_obj [OF a])
  have old: "obj s a \<in> set (rst_objs s)" using a by (simp add: obj_def)
  have sub: "set (rst_objs ?t) \<subseteq> insert ((obj s a)\<lparr>cir_spliceHandler := Some b\<rparr>) (set (rst_objs s))"
    by (simp add: on_obj_def set_update_subset_insert)
  have ok: "circuit_ok ((obj s a)\<lparr>cir_spliceHandler := Some b\<rparr>)"
    using assms(1) old by (simp add: relay_inv_def circuit_ok_def)
  have "circuit_ok c \<and> pred_option (has_hop s) (cir_spliceHandler c)" if c: "c \<in> set (rst_objs ?t)" for c
  proof -
    from c sub consider "c = (obj s a)\<lparr>cir_spliceHandler := Some b\<rparr>" | "c \<in> set (rst_objs s)" by blast
    then show ?thesis using ok assms(1,3) by cases (simp_all add: relay_inv_def)
  qed
  then have "\<forall>c\<in>set (rst_objs ?t). circuit_ok c" "\<forall>c\<in>set (rst_objs ?t). pred_option (has_hop s) (cir_spliceHandler c)"
    by blast+
  then show ?thesis using assms(1) unfolding relay_inv_def hop by simp
qed

lemma node_splice:
  assumes "node_ok P R s" "has_hop s a" "has_hop s b"
  shows "node_ok P R (spliceCircuits a b s)"
proof -
  have one: "node_ok P R (on_obj a (\<lambda>c. c\<lparr>cir_spliceHandler := Some b\<rparr>) s)" (is "node_ok P R ?t")
    if "node_ok P R s" "has_hop s a" "has_hop s b" for a b s
  proof -
    have k: "keeps s ?t" by (rule keeps_on_obj) simp
    have "P \<longrightarrow> tidy ?t"
      using that by (auto simp: node_ok_def has_hop_def keys_of_def intro!: tidy_on_obj)
    then show ?thesis
      using that inv_splice [of s a b] refs_keeps [OF _ k] k by (simp add: node_ok_def keeps_def)
  qed
  have "keeps s (on_obj a (\<lambda>c. c\<lparr>cir_spliceHandler := Some b\<rparr>) s)" by (rule keeps_on_obj) simp
  then show ?thesis
    unfolding spliceCircuits_def using one [OF one [OF assms]] assms(2,3) by (simp add: keeps_def)
qed

lemma splice_hops:
  fixes s :: "'x relay_state_scheme"
  shows "has_hop (spliceCircuits a b s) q = has_hop s q"
proof -
  have "has_hop (on_obj a (\<lambda>c. c\<lparr>cir_spliceHandler := p\<rparr>) s) q = has_hop s q" for a p and s :: "'x relay_state_scheme"
    using obj_on_obj [of a s "\<lambda>c. c\<lparr>cir_spliceHandler := p\<rparr>" q]
    by (cases "a < length (rst_objs s)") (auto simp: has_hop_def, auto simp: on_obj_def obj_def)
  then show ?thesis by (simp add: spliceCircuits_def)
qed

lemma establishRendezvous_sound:
  assumes "node_ok P R s" "xd_circuit d \<in> R" "xd_streamId d < 65536"
  shows "sound (node_ok P R) whole_cell (handleEstablishRendezvous C d s)"
  using reply_sound [OF assms(1,2)] reply_sound [OF own_cookies [OF assms(1) node_in [OF assms(1,2)] assms(3)] assms(2)]
    good_sound [OF good_ret, of "node_ok P R"] assms(1)
  by (auto simp: handleEstablishRendezvous_def Let_def split: option.splits)

lemma rendezvous1_sound:
  assumes "node_ok P R s" "xd_circuit d \<in> R"
  shows "sound (node_ok P R) whole_cell (handleRendezvous1 C now hid d s)"
proof -
  let ?key = "reasmKey (obj s (xd_circuit d)) (xd_streamId d)"
  obtain r reasm where r: "ingest now (xd_data d) (case map_get (rpr_rendezvous1Reassemblers s) ?key of
      None \<Rightarrow> defaultReassembler | Some r \<Rightarrow> r) = (r, reasm)" by fastforce
  let ?t = "\<lambda>m. s\<lparr>rpr_rendezvous1Reassemblers := m\<rparr>"
  have ok: "node_ok P R (?t m)" for m using assms(1) by simp
  have q: "has_hop s q" if "map_get (rpr_cookies s) k = Some (q, n)" for k q n
    using that assms(1) by (auto simp: node_ok_def refs_ok_def)
  have spliced: "sound (node_ok P R) whole_cell (seq (lift x (u\<lparr>rpr_spliceCount := n\<rparr>)) (\<lambda>resp s.
      seq (lift (f resp) s) (for_each (sendBackwardOnCircuit C q cmd sid))))"
    if "has_hop s q" "u = spliceCircuits q (xd_circuit d) ((?t m)\<lparr>rpr_cookies := map_delete k (rpr_cookies (?t m))\<rparr>)"
    for q u n m k cmd sid x f
  proof (rule node_drop, rule sound_seq [where J = "node_ok P (insert q R)"])
    have "node_ok P R u"
      unfolding that(2) by (rule node_splice [OF own_cookies_delete [OF ok]]) (use that(1) node_in [OF assms] in simp_all)
    then have "node_ok P (insert q R) u" using that by (simp add: node_add splice_hops)
    then show "sound (node_ok P (insert q R)) whole_cell (lift x (u\<lparr>rpr_spliceCount := n\<rparr>))" by (simp add: sound_def lift_def)
  qed (simp_all add: backward_fragments_sound)
  show ?thesis
  proof (cases r)
    case (Complete msg)
    show ?thesis
    proof (cases "parseRendezvous1 msg")
      case None
      then show ?thesis using ok Complete by (simp add: handleRendezvous1_def Let_def r good_sound good_ret)
    next
      case (Some ch)
      obtain cookie resp where ch: "ch = (cookie, resp)" by (cases ch)
      show ?thesis
      proof (cases "map_get (rpr_cookies s) (cookieKey cookie)")
        case None
        then show ?thesis using ok Complete Some ch by (simp add: handleRendezvous1_def Let_def r good_sound good_ret)
      next
        case (Some e)
        then obtain q sid where e: "e = (q, sid)" by (cases e)
        show ?thesis
          unfolding handleRendezvous1_def Let_def r prod.case
          using spliced [OF q [OF Some [unfolded e]] refl] Complete \<open>parseRendezvous1 msg = Some ch\<close> ch Some e by simp
      qed
    qed
  qed (use ok in \<open>simp_all add: handleRendezvous1_def Let_def r good_sound good_ret\<close>)
qed

lemma rp_sound: "node_ok P R s \<Longrightarrow> xd_circuit d \<in> R \<Longrightarrow> xd_streamId d < 65536 \<Longrightarrow>
    sound (node_ok P R) whole_cell (rp_handleData C w d s)"
  by (simp add: rp_handleData_def establishRendezvous_sound rendezvous1_sound good_sound good_ret)

text \<open>The exit.\<close>

lemma own_new_sock:
  assumes "node_ok P R s" "has_hop s (xsk_circuit x)" "xsk_streamId x < 65536"
  shows "node_ok P R (s\<lparr>exr_sockets := m, exr_socks := exr_socks s @ [x]\<rparr>)"
proof -
  have "refs_ok (s\<lparr>exr_sockets := m, exr_socks := exr_socks s @ [x]\<rparr>)"
    using assms by (auto simp: node_ok_def refs_ok_def)
  then show ?thesis by (intro node_own [OF assms(1)]) simp_all
qed

lemma handleBegin_sound:
  assumes "node_ok P R s" "xd_circuit d \<in> R" "xd_streamId d < 65536"
  shows "sound (node_ok P R) whole_cell (handleBegin C pol d s)"
proof (cases "parseBeginPayload (xd_data d)")
  case None
  then show ?thesis by (simp add: handleBegin_def refuse_def sendBackwardFromExit_def reply_sound assms)
next
  case (Some dest)
  have refused: "sound (node_ok P R) whole_cell (refuse C d reason s)" if "node_ok P R s" for reason s
    using that assms(2) by (simp add: refuse_def sendBackwardFromExit_def reply_sound)
  have opened: "sound (node_ok P R) whole_cell (emit ev (s\<lparr>exr_sockets := m,
      exr_socks := exr_socks s @ [\<lparr>xsk_circuit = xd_circuit d, xsk_streamId = xd_streamId d, xsk_key = k,
        xsk_connected = False, xsk_timer = True\<rparr>]\<rparr>))" if "node_ok P R s" "whole_cell ev" for ev s m k
  proof -
    have "node_ok P R (s\<lparr>exr_sockets := m, exr_socks := exr_socks s @ [\<lparr>xsk_circuit = xd_circuit d,
        xsk_streamId = xd_streamId d, xsk_key = k, xsk_connected = False, xsk_timer = True\<rparr>]\<rparr>)"
      using node_in [OF that(1) assms(2)] assms(3) by (intro own_new_sock [OF that(1)]) simp_all
    then show ?thesis using that(2) good_sound good_emit by blast
  qed
  have checked: "sound (node_ok P R) whole_cell (seq (lift r s) k)"
    if "\<And>v s. node_ok P R s \<Longrightarrow> sound (node_ok P R) whole_cell (k v s)"
    for r :: "verdict res" and k
    by (rule sound_seq [where J = "node_ok P R"]) (use assms(1) that in \<open>simp_all add: sound_def lift_def\<close>)
  show ?thesis
    unfolding handleBegin_def Some option.case Let_def
    by (simp del: ADDR_TYPE_IPV4_def BEGIN_ADDR_TYPE_IPV4_def add: refused [OF assms(1)])
      (intro impI checked, simp add: refused opened)
qed

lemma exit_sound:
  assumes "node_ok P R s" "xd_circuit d \<in> R" "xd_streamId d < 65536"
  shows "sound (node_ok P R) whole_cell (exit_handleData C pol d s)"
proof -
  have "sound (node_ok P R) whole_cell (handleStreamData d s)" "sound (node_ok P R) whole_cell (handleStreamEnd d s)"
    using assms(1) by (auto simp: handleStreamData_def handleStreamEnd_def Let_def intro!: good_sound good_emit good_ret split: option.splits)
  then show ?thesis using handleBegin_sound [OF assms] assms(1) by (simp add: exit_handleData_def good_sound good_ret)
qed

text \<open>The fetches.\<close>

lemma failure_fields [simp]:
  "ipr_services (count_failure msg s) = ipr_services s" "rpr_cookies (count_failure msg s) = rpr_cookies s"
  "exr_socks (count_failure msg s) = exr_socks s" "hsr_requests (count_failure msg s) = hsr_requests s"
  by (simp_all add: count_failure_def)

lemma failure_core [simp]: "relay_inv (count_failure msg s) = relay_inv s" "tidy (count_failure msg s) = tidy s"
  by (rule same_core; simp add: count_failure_def)+

lemma own_failure [simp]: "node_ok P R (count_failure msg s) = node_ok P R s" "node_ok P R (s\<lparr>hsr_fetched := n\<rparr>) = node_ok P R s"
  by (simp_all add: node_ok_def refs_ok_def same_core(1,2) [of "_\<lparr>hsr_fetched := n\<rparr>" s])

lemma own_requests:
  assumes "node_ok P R s" "\<forall>(r, sid, url)\<in>set rs. has_hop s r"
  shows "node_ok P R (s\<lparr>hsr_requests := rs\<rparr>)"
  by (rule node_own [OF assms(1)]) (use assms in \<open>auto simp: node_ok_def refs_ok_def\<close>)

lemma catch_failed_good: "sound (node_ok P R) whole_cell a \<Longrightarrow> good (node_ok P R) whole_cell (catch_failed a)"
  by (cases a; cases "fst a") (auto simp: catch_failed_def good_def sound_def)

lemma send_reply_sound:
  "node_ok P R s \<Longrightarrow> q \<in> R \<Longrightarrow> sound (node_ok P R) whole_cell (send_reply C q sid status body s)"
  unfolding send_reply_def
proof (rule sound_seq [where J = "node_ok P R"])
  fix cells and s :: "'x hsdir_relay_scheme"
  assume "q \<in> R" "node_ok P R s"
  then show "sound (node_ok P R) whole_cell (for_each (\<lambda>(cmd, data). sendBackwardOnCircuit C q cmd sid data) cells s)"
    using reply_sound [of P R _ q C _ sid] by (intro sound_for_each) (auto split: prod.split)
qed (simp_all add: sound_def lift_def)

lemma hsdir_sound:
  assumes "node_ok P R s" "xd_circuit d \<in> R"
  shows "sound (node_ok P R) whole_cell (hsdir_handleData C base d s)"
proof -
  have "node_ok P R (s\<lparr>hsr_requests := hsr_requests s @ [(xd_circuit d, xd_streamId d, url)]\<rparr>)" for url
    by (rule own_requests [OF assms(1)]) (use assms node_in [OF assms] in \<open>auto simp: node_ok_def refs_ok_def\<close>)
  then have "sound (node_ok P R) whole_cell (handleDescfetch C base d s)"
    using assms by (simp add: handleDescfetch_def Let_def send_reply_sound good_sound good_emit)
  then show ?thesis using assms by (simp add: hsdir_handleData_def good_sound good_ret catch_failed_good)
qed

lemma descfetch_done_good:
  assumes "node_ok P R s"
  shows "good (node_ok P R) whole_cell (descfetch_done C i reply s)"
proof (cases "i < length (hsr_requests s)")
  case True
  obtain q sid url where r: "hsr_requests s ! i = (q, sid, url)" by (cases "hsr_requests s ! i")
  let ?t = "s\<lparr>hsr_requests := take i (hsr_requests s) @ drop (Suc i) (hsr_requests s)\<rparr>"
  have q: "has_hop s q" using assms nth_mem [OF True] r by (fastforce simp: node_ok_def refs_ok_def)
  have "node_ok P R ?t"
    by (rule own_requests [OF assms]) (use assms in \<open>auto simp: node_ok_def refs_ok_def dest: in_set_takeD in_set_dropD\<close>)
  then have t: "node_ok P (insert q R) ?t" by (rule node_add) (simp add: q)
  note reply = catch_failed_good [OF send_reply_sound, of P "insert q R" _ q C sid]
  have "good (node_ok P (insert q R)) whole_cell (descfetch_done C i reply s)"
    using True r t by (cases reply) (auto simp: descfetch_done_def Let_def intro!: reply)
  then show ?thesis by (rule good_mono) (auto simp: node_ok_def)
qed (simp add: descfetch_done_def good_ret assms)

lemma onExitData_sound:
  assumes "node_ok P R s" "xd_circuit d \<in> R" "xd_streamId d < 65536"
  shows "sound (node_ok P R) whole_cell (onExitData C i pol hs w d s)"
proof -
  have h: "sound (node_ok P R) whole_cell (case hs of None \<Rightarrow> ret () t | Some base \<Rightarrow> hsdir_handleData C base d t)" if "node_ok P R t" for t
    using that assms(2) by (cases hs) (simp_all add: hsdir_sound good_sound good_ret)
  show ?thesis unfolding onExitData_def
    by (rule sound_seq [where J = "node_ok P R"], rule exit_sound [OF assms], rule sound_seq [where J = "node_ok P R"], rule ip_sound,
        assumption, rule assms, rule sound_seq [where J = "node_ok P R"]) (simp_all add: rp_sound h assms)
qed

section \<open>The sockets of the exit\<close>

lemma own_sock:
  assumes "node_ok P R s" "\<And>x. xsk_circuit (f x) = xsk_circuit x \<and> xsk_streamId (f x) = xsk_streamId x"
  shows "node_ok P R (on_sock k f s)"
proof (cases "k < length (exr_socks s)")
  case True
  have "set (exr_socks (on_sock k f s)) \<subseteq> insert (f (exr_socks s ! k)) (set (exr_socks s))"
    by (simp add: on_sock_def set_update_subset_insert)
  moreover have "exr_socks s ! k \<in> set (exr_socks s)" using True by simp
  moreover have "has_hop (on_sock k f s) = has_hop s" by (simp add: on_sock_def)
  moreover have "has_hop s (xsk_circuit x) \<and> xsk_streamId x < 65536" if "x \<in> set (exr_socks s)" for x
    using assms(1) that by (simp add: node_ok_def refs_ok_def)
  ultimately have "has_hop (on_sock k f s) (xsk_circuit x) \<and> xsk_streamId x < 65536" if "x \<in> set (exr_socks (on_sock k f s))" for x
    using that assms(2) by (metis insertE subsetD)
  moreover have "ipr_services (on_sock k f s) = ipr_services s" "rpr_cookies (on_sock k f s) = rpr_cookies s"
    "hsr_requests (on_sock k f s) = hsr_requests s"
    by (simp_all add: on_sock_def)
  ultimately have "refs_ok (on_sock k f s)"
    using assms(1) \<open>has_hop (on_sock k f s) = has_hop s\<close> by (simp add: node_ok_def refs_ok_def)
  then show ?thesis by (intro node_own [OF assms(1)]) (simp_all add: on_sock_def)
next
  case False
  then have "on_sock k f s = s" by (cases s) (simp add: on_sock_def list_update_beyond)
  then show ?thesis using assms(1) by simp
qed

lemma sock_ok:
  "node_ok P R s \<Longrightarrow> k < length (exr_socks s) \<Longrightarrow> has_hop s (xsk_circuit (exr_socks s ! k)) \<and> xsk_streamId (exr_socks s ! k) < 65536"
  by (simp add: node_ok_def refs_ok_def)

text \<open>No handler of a socket throws: an exception there would end the process.\<close>

lemma on_socket_good:
  assumes "node_ok P R s"
  shows "good (node_ok P R) whole_cell (on_socket C k ev s)"
proof (cases "k < length (exr_socks s)")
  case True
  let ?x = "exr_socks s ! k"
  have x: "has_hop s (xsk_circuit ?x)" "xsk_streamId ?x < 65536" using sock_ok [OF assms True] by simp_all
  let ?I = "node_ok P (insert (xsk_circuit ?x) R)"
  have s: "?I s" by (rule node_add [OF assms x(1)])
  note drop = good_mono [where J = ?I and F = whole_cell and E = whole_cell and I = "node_ok P R"]
  have send: "good ?I whole_cell (sendBackwardFromExit C (xsk_circuit ?x) cmd (xsk_streamId ?x) data t)"
    if "?I t" "length data \<le> 499" for cmd data t
    unfolding sendBackwardFromExit_def by (rule sendBackward_good [OF that(1) _ that(2) x(2)]) (rule node_in [OF that(1)], simp)
  have last_words: "good ?I whole_cell (seq (sendBackwardFromExit C (xsk_circuit ?x) cmd (xsk_streamId ?x) (buildEndPayload reason) t)
      (\<lambda>_. update (drop_socket key)))" if "?I t" for cmd reason t key
    by (rule good_seq [where J = ?I, OF send [OF that]]) (auto simp: buildEndPayload_def drop_socket_def intro!: good_update)
  have "good ?I whole_cell (on_socket C k ev s)"
  proof (cases ev)
    case On_Connect
    have "?I (on_sock k (\<lambda>x. x\<lparr>xsk_connected := True, xsk_timer := False\<rparr>) s)" by (rule own_sock [OF s]) simp
    then have "good ?I whole_cell (sendBackwardFromExit C (xsk_circuit ?x) RELAY_CONNECTED (xsk_streamId ?x)
        (buildConnectedPayload CONNECTED_STATUS_OK) (on_sock k (\<lambda>x. x\<lparr>xsk_connected := True, xsk_timer := False\<rparr>) s))"
      by (rule send) (simp add: buildConnectedPayload_def)
    then show ?thesis using True On_Connect by (simp add: on_socket_def Let_def)
  next
    case (On_Data chunk)
    have "good ?I whole_cell (for_each (sendBackwardFromExit C (xsk_circuit ?x) RELAY_DATA (xsk_streamId ?x)) (chunks chunk) s)"
      by (rule good_for_each [OF send s]) (simp_all add: chunk_small)
    then show ?thesis using True On_Data by (simp add: on_socket_def Let_def send_chunks_each)
  next
    case On_End
    then show ?thesis using True last_words [OF s] by (simp add: on_socket_def Let_def)
  next
    case On_Error
    have "?I (on_sock k (\<lambda>x. x\<lparr>xsk_timer := False\<rparr>) s)" by (rule own_sock [OF s]) simp
    from last_words [OF this] show ?thesis using True On_Error by (simp add: on_socket_def Let_def)
  next
    case On_Timer
    have "?I (on_sock k (\<lambda>x. x\<lparr>xsk_timer := False\<rparr>) s)" by (rule own_sock [OF s]) simp
    then show ?thesis using True On_Timer s by (simp add: on_socket_def Let_def good_ret good_emit)
  qed
  then show ?thesis by (rule drop) (simp_all add: node_ok_def)
qed (simp add: on_socket_def good_ret assms)

section \<open>The composed relay\<close>

definition relay_start :: "'x hsdir_relay_scheme \<Rightarrow> bool" where
  "relay_start s \<longleftrightarrow> relay_idle s \<and> ipr_services s = [] \<and> rpr_cookies s = [] \<and> exr_socks s = [] \<and> hsr_requests s = []"

text \<open>What comes from outside the dispatcher: an event of a socket, or the end of a fetch.\<close>

datatype outside_event = Socket_Event nat socket_event | Fetch_End nat "string + http_reply"

definition outside_env :: "crypto \<Rightarrow> outside_event \<Rightarrow> 'x hsdir_relay_scheme \<Rightarrow> (unit, 'x) hsdir_act" where
  "outside_env C q s = (case q of Socket_Event k ev \<Rightarrow> on_socket C k ev s | Fetch_End k reply \<Rightarrow> descfetch_done C k reply s)"

lemma outside_good: "node_ok P R s \<Longrightarrow> good (node_ok P R) whole_cell (outside_env C q s)"
  by (cases q) (simp_all add: outside_env_def on_socket_good descfetch_done_good)

lemma node_ok_start: "relay_start s \<Longrightarrow> relay_idle s \<and> refs_ok s"
  by (simp add: relay_start_def refs_ok_def)

lemma node_okD:
  "node_ok P R s \<Longrightarrow> relay_inv s \<and> refs_ok s" "node_ok True R s \<Longrightarrow> tidy s"
  "relay_inv s \<Longrightarrow> refs_ok s \<Longrightarrow> has_hop s r \<Longrightarrow> node_ok False {r} s"
  "relay_inv s \<Longrightarrow> refs_ok s \<Longrightarrow> tidy s \<Longrightarrow> has_hop s r \<Longrightarrow> node_ok True {r} s"
  "relay_inv s \<Longrightarrow> refs_ok s \<Longrightarrow> node_ok False {} s" "relay_inv s \<Longrightarrow> refs_ok s \<Longrightarrow> tidy s \<Longrightarrow> node_ok True {} s"
  by (simp_all add: node_ok_def)

interpretation relay: exit_roles refs_ok relay_start "onExitData C i pol hs" "outside_env C"
proof
  fix s t :: "'x hsdir_relay_scheme" and d :: exit_data and p and q
  show "relay_start s \<Longrightarrow> relay_idle s \<and> refs_ok s" by (rule node_ok_start)
  show "refs_ok s \<Longrightarrow> keeps s t \<Longrightarrow> refs_ok t" by (rule refs_keeps)
  assume inv: "relay_inv s" "refs_ok s"
  show "sound (\<lambda>s. relay_inv s \<and> refs_ok s) whole_cell (onExitData C i pol hs p d s)"
    if "has_hop s (xd_circuit d)" "xd_streamId d < 65536"
    by (rule sound_mono [OF onExitData_sound [OF node_okD(3) [OF inv that(1)]]]) (use that(2) node_okD(1) in auto)
  show "sound (\<lambda>s. relay_inv s \<and> refs_ok s) whole_cell (outside_env C q s)"
    by (rule sound_mono [OF good_sound [OF outside_good [OF node_okD(5) [OF inv]]]]) (use node_okD(1) in auto)
  assume tidy: "tidy s"
  show "tidy (after (onExitData C i pol hs p d s))" if "has_hop s (xd_circuit d)" "xd_streamId d < 65536"
    using onExitData_sound [OF node_okD(4) [OF inv tidy that(1)] _ that(2), of C i pol hs p]
      node_okD(2) [of "{xd_circuit d}" "after (onExitData C i pol hs p d s)"] by (simp add: sound_def after_def)
  show "tidy (after (outside_env C q s))"
    using good_sound [OF outside_good [OF node_okD(6) [OF inv tidy]]] by (auto simp: sound_def after_def intro: node_okD(2))
qed

text \<open>The states of a relay, from its start: cells on its links, dials that end, events of its sockets, fetches that end.\<close>

abbreviation relay_runs :: "crypto \<Rightarrow> relay_identity \<Rightarrow> (bytes \<Rightarrow> peer_info option) \<Rightarrow> rule list \<Rightarrow> string option \<Rightarrow>
    ('x hsdir_relay_scheme \<Rightarrow> bool) \<Rightarrow> 'x hsdir_relay_scheme \<Rightarrow> bool" where
  "relay_runs C i pr pol hs \<equiv> relay_reach (relay_step C i pr (onExitData C i pol hs) (outside_env C)) relay_start"

text \<open>C9. Whatever cells come on whatever links, however the dials end and whatever the sockets of the exit do, no cell
  makes the dispatcher of a relay throw: it never reads a field that the circuit's role does not have, each cell is
  handled to the end, and what goes out on links are whole cells.\<close>

theorem no_cell_throws:
  assumes "hash_ok C" "dh_correct C" "relay_runs C i pr pol hs P s" "draws_ok d"
  shows "\<exists>es t. onCell C d now i pr (onExitData C i pol hs w) l raw s = (Inr (), es, t)
    \<and> relay_inv t \<and> refs_ok t \<and> list_all whole_cell es"
proof -
  have s: "relay_inv s" "refs_ok s" using relay.reach_inv [OF assms(3,1,2)] by simp_all
  show ?thesis
    using relay.onCell_roles(1) [OF assms(1,2,4) s, of now i pr C i pol hs w l raw]
    by (cases "onCell C d now i pr (onExitData C i pol hs w) l raw s") (auto simp: good_def sound_def)
qed

text \<open>No handler of an exit socket throws (outside the dispatcher an exception ends the process): in any state a relay
  reaches, a connect, an error, an end, a timeout or data of any length is handled to the end, with whole cells.\<close>

theorem no_socket_event_throws:
  assumes "hash_ok C" "dh_correct C" "relay_runs C i pr pol hs P s"
  shows "\<exists>es t. on_socket C k ev s = (Inr (), es, t) \<and> relay_inv t \<and> refs_ok t \<and> list_all whole_cell es"
proof -
  have "relay_inv s" "refs_ok s" using relay.reach_inv [OF assms(3,1,2)] by simp_all
  from on_socket_good [OF node_okD(5) [OF this], of C k ev] show ?thesis
    by (cases "on_socket C k ev s") (auto simp: good_def sound_def node_ok_def)
qed

lemma tidy_empty:
  assumes "tidy s" "list_all (\<lambda>c. cir_role c = Role_Destroyed) (rst_objs s)"
  shows "rst_circuits s = []"
proof -
  have "map_get (rst_circuits s) j = None" for j
  proof (rule ccontr)
    assume "map_get (rst_circuits s) j \<noteq> None"
    then obtain r where "map_get (rst_circuits s) j = Some r" by blast
    then have "r < length (rst_objs s)" "j \<in> keys_of (obj s r)" using tidy_lookup [OF assms(1)] by blast+
    then show False using assms(2) by (simp add: keys_of_def obj_def list_all_length)
  qed
  then have "map_keys (rst_circuits s) = []" using jm.get_keys [of "rst_circuits s"] by (metis list.set_sel(1))
  then show ?thesis by (simp add: map_keys_def)
qed

text \<open>C10. The circuit table is exact in every run in which no circuit ever awaits two dials at once: it has the inbound and
  the outbound key of every live circuit and nothing else; so no two circuits share a key, and a relay whose
  circuits are all destroyed has an empty table. The condition is one on the clients: one that sends two EXTENDs without waiting
  for the first dial breaks it, and the relay does not prevent that (\<open>second\_dial\_leaks\<close>, \<open>stale\_key\_unregisters\<close>).\<close>

theorem circuit_table_exact:
  assumes "hash_ok C" "dh_correct C" "relay_runs C i pr pol hs one_dial_each s"
  shows "(map_get (rst_circuits s) k = Some ref \<longleftrightarrow> ref < length (rst_objs s) \<and> k \<in> keys_of (obj s ref))
    \<and> (list_all (\<lambda>c. cir_role c = Role_Destroyed) (rst_objs s) \<longrightarrow> rst_circuits s = [])"
  using tidy_lookup tidy_empty relay.reach_tidy [OF assms(3,1,2)] by blast

section \<open>What a relay connects to\<close>

text \<open>The effects that open a connection.\<close>

fun connects :: "relay_effect \<Rightarrow> bool" where
  "connects (Tcp_Connect k h p) = True"
| "connects (Http_Get url) = True"
| "connects (Ensure_Link peer) = True"
| "connects _ = False"

abbreviation no_connection :: "(unit, relay_effect, 's) effectful \<Rightarrow> bool" where
  "no_connection \<equiv> sound (\<lambda>_. True) (\<lambda>e. \<not> connects e)"

lemma quiet_simps [simp]: "no_connection (ret x s)" "no_connection (throw e s)"
  "\<not> connects ev \<Longrightarrow> no_connection (emit ev s)" "no_connection (update f s)"
  by (simp_all add: sound_def ret_def throw_def emit_def update_def)

lemma quiet_seq: "sound (\<lambda>_. True) (\<lambda>e. \<not> connects e) a \<Longrightarrow> (\<And>x s. no_connection (k x s)) \<Longrightarrow> no_connection (seq a k)"
  by (rule sound_seq) simp_all

lemma quiet_lift: "sound (\<lambda>_. True) (\<lambda>e. \<not> connects e) (lift r s)"
  by (simp add: sound_def lift_def)

lemma quiet_each: "(\<And>x s. no_connection (f x s)) \<Longrightarrow> no_connection (for_each f xs s)"
  by (rule sound_for_each) simp_all

lemma quiet_sendCell: "no_connection (sendCell lc cmd p s)"
  by (simp add: sendCell_def split: sum.splits)

lemma quiet_backward [simp]: "no_connection (sendBackwardOnCircuit C q cmd sid data s)"
  by (auto simp: sendBackwardOnCircuit_def Let_def quiet_sendCell split: option.splits sum.splits)

lemma quiet_roles: "no_connection (ip_handleData C i w d s)" "no_connection (rp_handleData C w d s)"
  by (auto simp: ip_handleData_def rp_handleData_def handleEstablishIntro_def handleIntroduce1_def forwardIntroduce2_def
      handleEstablishRendezvous_def handleRendezvous1_def Let_def
      intro!: quiet_seq quiet_lift quiet_each split: option.splits prod.splits ingested.splits)

lemma quiet_none: "no_connection a \<Longrightarrow> connects e \<Longrightarrow> e \<notin> set (fst (snd a))"
  by (auto simp: sound_def list_all_iff)

lemma effect_of_seqE:
  assumes "e \<in> set (fst (snd (seq a f)))"
  obtains "e \<in> set (fst (snd a))" | x t where "e \<in> set (fst (snd (f x t)))"
proof (cases a)
  case (fields r es s)
  then show ?thesis using assms that by (cases r) (auto simp: seq_def split: prod.splits, metis fst_conv snd_conv)
qed

lemma exit_connects:
  assumes "e \<in> set (fst (snd (exit_handleData C pol d s)))" "connects e"
  shows "xd_relayCommand d = RELAY_BEGIN
    \<and> (\<exists>dest. parseBeginPayload (xd_data d) = Some dest \<and> dst_addrType dest = BEGIN_ADDR_TYPE_IPV4
        \<and> evaluate pol ADDR_TYPE_IPV4 (dst_addr dest) (dst_port dest) = Inr Accept
        \<and> e = Tcp_Connect (length (exr_socks s)) (ipv4ToString (dst_addr dest)) (nat (dst_port dest)))"
proof -
  have rest: "no_connection (handleStreamData d s)" "no_connection (handleStreamEnd d s)" "no_connection (refuse C d r s)" for r
    by (auto simp: handleStreamData_def handleStreamEnd_def refuse_def sendBackwardFromExit_def Let_def split: option.splits)
  have b: "xd_relayCommand d = RELAY_BEGIN" and h: "e \<in> set (fst (snd (handleBegin C pol d s)))"
    using assms quiet_none [OF rest(1) assms(2)] quiet_none [OF rest(2) assms(2)] by (auto simp: exit_handleData_def ret_def split: if_splits)
  have r: "e \<notin> set (fst (snd (refuse C d r s)))" for r by (rule quiet_none [OF rest(3) assms(2)])
  show ?thesis
  proof (cases "parseBeginPayload (xd_data d)")
    case None
    then show ?thesis using h r by (simp add: handleBegin_def)
  next
    case (Some dest)
    show ?thesis
    proof (cases "evaluate pol 1 (dst_addr dest) (dst_port dest)")
      case (Inl x)
      then show ?thesis using h r Some by (auto simp: handleBegin_def seq_def lift_def split: if_splits)
    next
      case (Inr v)
      then show ?thesis using h r Some b
        by (auto simp: handleBegin_def seq_def lift_def emit_def Let_def split: if_splits prod.splits)
    qed
  qed
qed

lemma hsdir_connects:
  assumes "e \<in> set (fst (snd (hsdir_handleData C base d s)))" "connects e"
  shows "xd_relayCommand d = RELAY_DESCFETCH
    \<and> (\<exists>key. xd_data d = ascii key \<and> KEY_RE key \<and> e = Http_Get (hsdir_url base key))"
proof -
  let ?key = "map (\<lambda>b. char_of (unat b)) (xd_data d) :: string"
  have q: "no_connection (send_reply C q sid status body t)" for q sid status body and t :: "'a hsdir_relay_scheme"
    by (auto simp: send_reply_def intro!: quiet_seq quiet_lift quiet_each split: prod.split)
  have c: "fst (snd (catch_failed a)) = fst (snd a)" for a :: "(unit, 'a) hsdir_act"
    by (cases a; cases "fst a") (auto simp: catch_failed_def)
  have b: "of_char (char_of (unat x) :: char) = x" for x :: byte
  proof -
    have "of_char (char_of (unat x) :: char) = (of_nat (of_char (char_of (unat x) :: char)) :: byte)" by (simp only: of_nat_of_char)
    then show ?thesis using unat_byte_bound [of x] by (simp only: of_char_of) simp
  qed
  have k: "e \<in> set (fst (snd (handleDescfetch C base d s)))" "xd_relayCommand d = RELAY_DESCFETCH"
    using assms c by (auto simp: hsdir_handleData_def ret_def split: if_splits)
  moreover have "KEY_RE ?key"
    using k(1) quiet_none [OF q assms(2)] by (auto simp: handleDescfetch_def Let_def split: if_splits)
  moreover have "ascii ?key = xd_data d"
    by (simp add: ascii_def comp_def b map_idI)
  ultimately show ?thesis by (auto simp: handleDescfetch_def Let_def emit_def intro!: exI [of _ ?key])
qed

text \<open>C11. A relay connects only where its operator lets it: whatever data a client puts in whatever cell, and whatever the state, the
  roles behind the dispatcher open a connection in two cases only. One is a BEGIN that parses as an IPv4 destination which the exit
  policy accepts, and the TCP connection goes to that address and port. The other is a DESCFETCH at a relay started with a
  directory, whose data is a well-formed key (16 to 64 letters, digits, hyphens and underscores), and the HTTP request goes to
  that directory, under its path for descriptors.\<close>

theorem exit_dials_accepted:
  assumes "e \<in> set (fst (snd (onExitData C i pol hs w d s)))" "connects e"
  shows "xd_relayCommand d = RELAY_BEGIN
      \<and> (\<exists>dest. parseBeginPayload (xd_data d) = Some dest \<and> dst_addrType dest = BEGIN_ADDR_TYPE_IPV4
          \<and> evaluate pol ADDR_TYPE_IPV4 (dst_addr dest) (dst_port dest) = Inr Accept
          \<and> e = Tcp_Connect (length (exr_socks s)) (ipv4ToString (dst_addr dest)) (nat (dst_port dest)))
    \<or> xd_relayCommand d = RELAY_DESCFETCH
      \<and> (\<exists>base key. hs = Some base \<and> xd_data d = ascii key \<and> KEY_RE key \<and> e = Http_Get (strip_slashes base @ ''/hsdir/'' @ key))"
proof -
  let ?h = "\<lambda>t :: 'a hsdir_relay_scheme. case hs of None \<Rightarrow> ret () t | Some daBaseUrl \<Rightarrow> hsdir_handleData C daBaseUrl d t"
  have i: "e \<notin> set (fst (snd (ip_handleData C i w d t)))" "e \<notin> set (fst (snd (rp_handleData C w d t)))" for t :: "'a hsdir_relay_scheme"
    by (rule quiet_none [OF quiet_roles(1) assms(2)], rule quiet_none [OF quiet_roles(2) assms(2)])
  have r: "\<exists>u. e \<in> set (fst (snd (?h u)))" if "e \<in> set (fst (snd (seq (rp_handleData C w d t) (\<lambda>_. ?h))))" for t
    using that by (rule effect_of_seqE) (use i in blast)+
  have q: "\<exists>u. e \<in> set (fst (snd (?h u)))" if "e \<in> set (fst (snd (seq (ip_handleData C i w d t) (\<lambda>_ s. seq (rp_handleData C w d s) (\<lambda>_. ?h)))))" for t
    using that by (rule effect_of_seqE) (use i r in blast)+
  show ?thesis using assms(1) unfolding onExitData_def
  proof (rule effect_of_seqE)
    assume "e \<in> set (fst (snd (exit_handleData C pol d s)))"
    from exit_connects [OF this assms(2)] show ?thesis by blast
  next
    fix x t
    assume "e \<in> set (fst (snd (seq (ip_handleData C i w d t) (\<lambda>_ s. seq (rp_handleData C w d s) (\<lambda>_. ?h)))))"
    from q [OF this] obtain t where "e \<in> set (fst (snd (?h t)))" by blast
    then obtain base where "hs = Some base" "e \<in> set (fst (snd (hsdir_handleData C base d t)))"
      by (cases hs) (auto simp: ret_def)
    then show ?thesis using hsdir_connects [OF _ assms(2)] by (fastforce simp: hsdir_url_def)
  qed
qed

section \<open>The splice\<close>

text \<open>What sending backward leaves alone.\<close>

definition same_splices :: "'x relay_state_scheme \<Rightarrow> 'x relay_state_scheme \<Rightarrow> bool" where
  "same_splices s t \<longleftrightarrow> relay_state.more t = relay_state.more s
     \<and> (\<forall>r. cir_spliceHandler (obj t r) = cir_spliceHandler (obj s r))"

lemma same_refl [simp]: "same_splices s s" by (simp add: same_splices_def)

lemma same_trans: "same_splices s t \<Longrightarrow> same_splices t u \<Longrightarrow> same_splices s u" by (simp add: same_splices_def)

lemma same_on_obj:
  assumes "\<And>c. cir_spliceHandler (f c) = cir_spliceHandler c"
  shows "same_splices s (on_obj q f s)"
proof -
  have "cir_spliceHandler (obj (on_obj q f s) r) = cir_spliceHandler (obj s r)" for r
  proof (cases "q < length (rst_objs s)")
    case False
    then have "rst_objs (on_obj q f s) = rst_objs s" by (simp add: on_obj_def list_update_beyond)
    then show ?thesis by (simp add: obj_def)
  qed (simp add: obj_on_obj assms)
  moreover have "relay_state.more (on_obj q f s) = relay_state.more s" by (simp add: on_obj_def)
  ultimately show ?thesis by (simp add: same_splices_def)
qed

lemma same_backward: "same_splices s (after (sendBackwardOnCircuit C q cmd sid data s))"
  by (auto simp: sendBackwardOnCircuit_def Let_def intro!: same_on_obj same_trans [OF same_on_obj same_on_obj]
      split: option.splits sum.splits)

lemma same_each: "(\<And>x s. same_splices s (after (f x s))) \<Longrightarrow> same_splices s (after (for_each f xs s))"
proof (induction xs arbitrary: s)
  case (Cons x xs)
  then show ?case
    by (auto simp: after_seq split: sum.splits intro: same_trans)
qed simp

lemma fst_lift [simp]: "fst (lift r s) = r" by (simp add: lift_def)

lemma same_fragments: "same_splices s (after (seq (lift r s) (for_each (sendBackwardOnCircuit C q cmd sid))))"
  by (cases r) (simp_all add: after_seq same_each same_backward)

text \<open>C12. A rendezvous is completed at most once per cookie, between the right circuits: when the last fragment of a
  RENDEZVOUS1 with a known cookie comes on a service's circuit, that circuit and the one that left the cookie
  become each other's splice partners, whatever happens to the cells sent then, and the cookie is forgotten.\<close>

theorem rendezvous_splices:
  assumes "ingest now (xd_data d) (case map_get (rpr_rendezvous1Reassemblers s) (reasmKey (obj s (xd_circuit d)) (xd_streamId d)) of
      None \<Rightarrow> defaultReassembler | Some r \<Rightarrow> r) = (Complete msg, reasm)"
    and "parseRendezvous1 msg = Some (cookie, resp)" "map_get (rpr_cookies s) (cookieKey cookie) = Some (client, sid)"
    and "client < length (rst_objs s)" "xd_circuit d < length (rst_objs s)" "client \<noteq> xd_circuit d"
  shows "let t = after (handleRendezvous1 C now hid d s)
    in cir_spliceHandler (obj t client) = Some (xd_circuit d) \<and> cir_spliceHandler (obj t (xd_circuit d)) = Some client
     \<and> map_get (rpr_cookies t) (cookieKey cookie) = None \<and> rpr_spliceCount t = rpr_spliceCount s + 1"
proof -
  let ?key = "reasmKey (obj s (xd_circuit d)) (xd_streamId d)"
  let ?d = "s\<lparr>rpr_rendezvous1Reassemblers := map_delete ?key (map_set ?key reasm (rpr_rendezvous1Reassemblers s))\<rparr>"
  let ?c = "?d\<lparr>rpr_cookies := map_delete (cookieKey cookie) (rpr_cookies s)\<rparr>"
  let ?u = "(spliceCircuits client (xd_circuit d) ?c)\<lparr>rpr_spliceCount := rpr_spliceCount s + 1\<rparr>"
  have keep: "rpr_spliceCount (spliceCircuits a b v) = rpr_spliceCount v" "rpr_cookies (spliceCircuits a b v) = rpr_cookies v"
    for a b and v :: "'a rp_relay_scheme"
    by (simp_all add: spliceCircuits_def on_obj_def)
  let ?t = "after (handleRendezvous1 C now hid d s)"
  have "same_splices ?u ?t"
    using assms(1-3) keep(1) [of client "xd_circuit d" ?c]
    by (simp add: handleRendezvous1_def Let_def after_seq same_each same_backward split: sum.split)
  then have more: "relay_state.more ?t = relay_state.more ?u"
    and handlers: "\<And>r. cir_spliceHandler (obj ?t r) = cir_spliceHandler (obj ?u r)" by (simp_all add: same_splices_def)
  have "rpr_cookies ?t = rpr_cookies ?u \<and> rpr_spliceCount ?t = rpr_spliceCount ?u"
    using more by (cases ?t, cases ?u) simp
  moreover have "obj ?u = obj (spliceCircuits client (xd_circuit d) ?c)" by (rule same_core) simp_all
  moreover have "cir_spliceHandler (obj (spliceCircuits client (xd_circuit d) ?c) client) = Some (xd_circuit d)"
    "cir_spliceHandler (obj (spliceCircuits client (xd_circuit d) ?c) (xd_circuit d)) = Some client"
    using assms(4-6) by (simp_all add: spliceCircuits_def obj_on_obj)
  ultimately show ?thesis using handlers by (simp add: Let_def keep jm.get_del)
qed

section \<open>Instances\<close>

definition idle_relay :: hsdir_relay where
  "idle_relay = \<lparr>rst_objs = [], rst_circuits = [], rst_dials = [], ipr_services = [], ipr_introduceReassemblers = [],
     rpr_cookies = [], rpr_spliceCount = 0, rpr_rendezvous1Reassemblers = [], exr_sockets = [], exr_socks = [],
     hsr_fetched = 0, hsr_failed = 0, hsr_lastError = None, hsr_requests = []\<rparr>"

definition toy_role_draws :: role_draws where
  "toy_role_draws = \<lparr>rdr_now = 0, rdr_now2 = 0, rdr_ms = 0, rdr_handshakeId = 0\<rparr>"

definition toy_begin :: exit_data where
  "toy_begin = \<lparr>xd_circuit = 0, xd_link = toy_link, xd_circuitId = 7, xd_relayCommand = RELAY_BEGIN, xd_streamId = 1,
     xd_data = [1, 127, 0, 0, 1, 0, 80, 0]\<rparr>"

lemma seq_lift [simp]: "seq (lift (Inr v) s) k = k v s"
  by (simp add: seq_def lift_def split: prod.splits)

lemma toy_draws_ok: "draws_ok toy_draws"
  by (simp add: draws_ok_def toy_draws_def)

lemma idle_runs: "relay_runs C i pr pol hs P idle_relay"
  by (rule relay_reach.start) (simp add: relay_start_def relay_idle_def idle_relay_def)

theorem no_cell_throws_witness:
  "\<exists>es t. onCell toy_crypto toy_draws 0 toy_relay (\<lambda>_. None) (onExitData toy_crypto toy_relay [] None toy_role_draws) toy_link
      (cell_bytes 2 7 1 (zeros 508)) idle_relay = (Inr (), es, t) \<and> relay_inv t \<and> refs_ok t \<and> list_all whole_cell es"
  by (rule no_cell_throws [OF toy_hash_ok toy_dh_correct idle_runs [where P = "\<lambda>_. True"] toy_draws_ok])

theorem no_socket_event_throws_witness:
  "\<exists>es t. on_socket toy_crypto 0 On_End idle_relay = (Inr (), es, t) \<and> relay_inv t \<and> refs_ok t \<and> list_all whole_cell es"
  by (rule no_socket_event_throws [OF toy_hash_ok toy_dh_correct
        idle_runs [where P = "\<lambda>_. True" and i = toy_relay and pr = "\<lambda>_. None" and pol = "[]" and hs = None]])

theorem circuit_table_exact_witness:
  "\<exists>s. s = after (onCell toy_crypto toy_draws 0 toy_relay (\<lambda>_. None) (onExitData toy_crypto toy_relay [] None toy_role_draws) toy_link
      (cell_bytes 2 7 1 (zeros 508)) idle_relay)
     \<and> relay_runs toy_crypto toy_relay (\<lambda>_. None) [] None one_dial_each s
     \<and> (map_get (rst_circuits s) (keyOf toy_link 7) = Some 0 \<longleftrightarrow> 0 < length (rst_objs s) \<and> keyOf toy_link 7 \<in> keys_of (obj s 0))"
proof -
  let ?s = "after (onCell toy_crypto toy_draws 0 toy_relay (\<lambda>_. None) (onExitData toy_crypto toy_relay [] None toy_role_draws) toy_link
      (cell_bytes 2 7 1 (zeros 508)) idle_relay)"
  have "one_dial_each idle_relay" by (simp add: one_dial_each_def idle_relay_def)
  then have r: "relay_runs toy_crypto toy_relay (\<lambda>_. None) [] None one_dial_each ?s"
    by (rule relay_reach.step [OF idle_runs _ relay_step.cell [OF toy_draws_ok]])
  have "map_get (rst_circuits ?s) (keyOf toy_link 7) = Some 0 \<longleftrightarrow> 0 < length (rst_objs ?s) \<and> keyOf toy_link 7 \<in> keys_of (obj ?s 0)"
    by (rule conjunct1 [OF circuit_table_exact [OF toy_hash_ok toy_dh_correct r]])
  then show ?thesis by (intro exI [of _ ?s] conjI refl r)
qed

theorem exit_dials_accepted_witness:
  "\<exists>e. e \<in> set (fst (snd (onExitData toy_crypto toy_relay
      [\<lparr>rul_action = 1, rul_prefix = Any_Address, rul_portMin = 80, rul_portMax = 80\<rparr>] None toy_role_draws toy_begin idle_relay)))
    \<and> connects e \<and> xd_relayCommand toy_begin = RELAY_BEGIN \<and> e = Tcp_Connect 0 (ipv4ToString [127, 0, 0, 1]) 80"
proof -
  let ?pol = "[\<lparr>rul_action = 1, rul_prefix = Any_Address, rul_portMin = 80, rul_portMax = 80\<rparr>]"
  let ?e = "Tcp_Connect 0 (ipv4ToString [127, 0, 0, 1]) 80"
  have p: "parseBeginPayload (xd_data toy_begin) = Some \<lparr>dst_addrType = 1, dst_addr = [127, 0, 0, 1], dst_port = 80, dst_flags = 0\<rparr>"
    by (simp add: parseBeginPayload_def addr_place_def toy_begin_def subarray_def)
  have "\<exists>t. exit_handleData toy_crypto ?pol toy_begin idle_relay = emit ?e t"
    using p by (simp add: exit_handleData_def handleBegin_def Let_def evaluate_def prefixMatches_def idle_relay_def)
      (auto simp: toy_begin_def)
  then have e: "?e \<in> set (fst (snd (onExitData toy_crypto toy_relay ?pol None toy_role_draws toy_begin idle_relay)))"
    by (auto simp: onExitData_def seq_emit split: prod.splits)
  from exit_dials_accepted [OF e] e show ?thesis using p by (intro exI [of _ ?e]) (simp add: idle_relay_def toy_begin_def)
qed

definition toy_meeting :: rp_relay where
  "toy_meeting = \<lparr>rst_objs = [new_circuit toy_link 7, new_circuit toy_link 8], rst_circuits = [], rst_dials = [],
     ipr_services = [], ipr_introduceReassemblers = [], rpr_cookies = [(cookieKey (zeros 20), (0, 3))], rpr_spliceCount = 0,
     rpr_rendezvous1Reassemblers = []\<rparr>"

theorem rendezvous_splices_witness:
  "\<exists>c. let d = toy_begin\<lparr>xd_circuit := 1, xd_data := c\<rparr>; t = after (handleRendezvous1 toy_crypto 5 9 d toy_meeting)
    in cir_spliceHandler (obj t 0) = Some 1 \<and> cir_spliceHandler (obj t 1) = Some 0
     \<and> map_get (rpr_cookies t) (cookieKey (zeros 20)) = None \<and> rpr_spliceCount t = 1"
proof -
  have "fragmentMessage (zeros 1172) 0 1172 = Inr [make_fragment (zeros 1172) 0 1172 1 0]"
    by (simp add: fragmentMessage_def Let_def ceil_div_def)
  then obtain c where m: "fragmentMessage (zeros 1172) 0 1172 = Inr [c]" by blast
  have "\<exists>f. parseFragmentHeader c = Some f \<and> frg_handshakeId f = 0"
    using fragments_parse [OF m] by (auto simp: fragment_of_def)
  then have own: "cell_of 0 (5, c)" by (auto simp: cell_of_def)
  then have ids: "cell_ids [(5, c)] = {0}" by (auto simp: cell_of_def cell_ids_def split: option.splits)
  have "\<exists>xs r'. ingest_run ([] @ [(5, c)]) defaultReassembler = (xs @ [if length (zeros 1172) > 65536 then Failed else Complete (zeros 1172)], r')
      \<and> map_get (rsm_inFlight r') (nat 0) = None \<and> list_all2 (\<lambda>tc x. cell_of (nat 0) tc \<longrightarrow> x = Waiting) [] xs"
    by (rule reassembly [OF m]) (use own ids in \<open>simp_all add: defaultReassembler_def createReassembler_def\<close>)
  then obtain r where r: "ingest 5 c defaultReassembler = (Complete (zeros 1172), r)"
    by (auto split: prod.splits)
  let ?d = "toy_begin\<lparr>xd_circuit := 1, xd_data := c\<rparr>"
  have p: "parseRendezvous1 (zeros 1172) = Some (zeros 20, zeros 1152)"
    by (simp add: parseRendezvous1_def subarray_def)
  have g: "map_get (rpr_cookies toy_meeting) (cookieKey (zeros 20)) = Some (0, 3)"
    by (simp add: toy_meeting_def map_get_def)
  have i: "ingest 5 (xd_data ?d) (case map_get (rpr_rendezvous1Reassemblers toy_meeting) (reasmKey (obj toy_meeting (xd_circuit ?d))
      (xd_streamId ?d)) of None \<Rightarrow> defaultReassembler | Some r \<Rightarrow> r) = (Complete (zeros 1172), r)"
    using r by (simp add: toy_meeting_def map_get_def)
  show ?thesis
    using rendezvous_splices [OF i p g, of toy_crypto 9] by (intro exI [of _ c]) (simp add: Let_def toy_meeting_def)
qed

end
