(* ===== verification/V2_Rendezvous_Props.thy ===== *)
theory V2_Rendezvous_Props
  imports V2_Rendezvous Codec
begin

text \<open>
  What the payloads of the rendezvous flow guarantee: an introduction built by the client is read by the
  service, unchanged by the introduction point; a registration verifies at the introduction point it was made for.
\<close>

section \<open>The sealed box\<close>

lemma seal_layout:
  assumes "length E = 32" "length ct = 1088" "length n = 12" "length tag = 16"
  shows "set_at (set_at (set_at (set_at (set_at (zeros (1148 + length c)) 0 E) 32 ct) 1120 n) 1132 c) (1132 + length c) tag
    = E @ ct @ n @ c @ tag"
  using assms by (simp add: set_at_def zeros_def min_def)

lemma seal_Inr:
  assumes "seal C d p xpk kpk = Inr env" "aead_correct C" "dh_correct C" "length (sld_ephemeral d) = 32"
    and "\<And>ct ss. kem_encaps C (sld_encaps d) kpk = Some (ct, ss) \<Longrightarrow> length ct = 1088"
  obtains sx ct ss c tag where "sharedSecret C (sld_ephemeral d) xpk = Some sx"
    "kem_encaps C (sld_encaps d) kpk = Some (ct, ss)" "length (sld_nonce d) = 12"
    "aeadEncrypt C (kdf C (sx @ ss) SEALED_BOX_INFO 32) (sld_nonce d) [] p = Inr (c, tag)"
    "length c = length p" "length tag = 16" "length ct = 1088"
    "env = x_public C (sld_ephemeral d) @ ct @ sld_nonce d @ c @ tag"
proof -
  obtain sx ct ss c tag where s: "sharedSecret C (sld_ephemeral d) xpk = Some sx"
    "kem_encaps C (sld_encaps d) kpk = Some (ct, ss)"
    "aeadEncrypt C (kdf C (sx @ ss) SEALED_BOX_INFO 32) (sld_nonce d) [] p = Inr (c, tag)"
    "env = set_at (set_at (set_at (set_at (set_at (zeros (1148 + length c)) 0 (x_public C (sld_ephemeral d))) 32 ct)
       1120 (sld_nonce d)) 1132 c) (1132 + length c) tag"
    using assms(1) by (auto simp: seal_def generateOnion_def Let_def split: if_splits option.splits sum.splits)
  have n: "length (sld_nonce d) = 12" using s(3) by (simp add: aeadEncrypt_def split: if_splits)
  note e = aeadEncrypt_ok [OF assms(2) s(3)]
  have "length (x_public C (sld_ephemeral d)) = 32" using assms(3,4) by (auto simp: dh_correct_def)
  from seal_layout [OF this assms(5) [OF s(2)] n conjunct1 [OF conjunct2 [OF e]]]
  have "env = x_public C (sld_ephemeral d) @ ct @ sld_nonce d @ c @ tag" unfolding s(4) .
  then show thesis
    by (rule that [OF s(1,2) n s(3) conjunct1 [OF e] conjunct1 [OF conjunct2 [OF e]] assms(5) [OF s(2)]])
qed

lemma kem_agree:
  assumes "kem_correct C" "kem_encaps C r (fst (kem_keygen C ks)) = Some (ct, ss)"
  shows "length ct = 1088 \<and> length ss = 32 \<and> kem_decaps C ct (snd (kem_keygen C ks)) = Some ss"
proof -
  obtain ct' ss' where "kem_encaps C r (fst (kem_keygen C ks)) = Some (ct', ss')" "length ct' = 1088" "length ss' = 32"
    "kem_decaps C ct' (snd (kem_keygen C ks)) = Some ss'"
    using assms(1) unfolding kem_correct_def by blast
  then show ?thesis using assms(2) by simp
qed

lemma unseal_seal:
  assumes "hash_ok C" "aead_correct C" "dh_correct C" "kem_correct C"
    and "length (sld_ephemeral d) = 32" "length xsk = 32" "kpk = fst (kem_keygen C ks)" "ksk = snd (kem_keygen C ks)"
    and "seal C d p (x_public C xsk) kpk = Inr env"
  shows "unseal C env xsk ksk = Some p \<and> length env = 1148 + length p"
proof -
  have kem: "kem_encaps C (sld_encaps d) kpk = Some (ct, ss) \<Longrightarrow> length ct = 1088 \<and> length ss = 32 \<and> kem_decaps C ct ksk = Some ss"
    for ct ss using kem_agree [OF assms(4)] assms(7,8) by simp
  obtain sx ct ss c tag where s: "sharedSecret C (sld_ephemeral d) (x_public C xsk) = Some sx"
    "kem_encaps C (sld_encaps d) kpk = Some (ct, ss)" "length (sld_nonce d) = 12"
    "aeadEncrypt C (kdf C (sx @ ss) SEALED_BOX_INFO 32) (sld_nonce d) [] p = Inr (c, tag)"
    "length c = length p" "length tag = 16" "length ct = 1088"
    "env = x_public C (sld_ephemeral d) @ ct @ sld_nonce d @ c @ tag"
    using seal_Inr [OF assms(9,2,3,5)] kem by metis
  have E: "length (x_public C (sld_ephemeral d)) = 32" using assms(3,5) by (auto simp: dh_correct_def)
  have parts: "subarray env 0 32 = x_public C (sld_ephemeral d)" "subarray env 32 1120 = ct"
    "subarray env 1120 1132 = sld_nonce d" "subarray env 1132 (length env) = c @ tag" "length env = 1148 + length p"
    using E s(3,5-7) by (simp_all add: s(8) layout)
  have "sharedSecret C xsk (x_public C (sld_ephemeral d)) = Some sx"
    using sharedSecret_sym [OF assms(3,6,5)] s(1) by simp
  moreover have "subarray (c @ tag) 0 (length p) = c" "subarray (c @ tag) (length p) (length p + 16) = tag"
    using s(5,6) by (simp_all add: layout)
  ultimately show ?thesis
    using parts kem [OF s(2)] aeadEncrypt_ok [OF assms(2) s(4)] assms(6) s(5,6) by (simp add: unseal_def Let_def)
qed

section \<open>INTRODUCE\<close>

definition inner_sizes :: "introduce_inner \<Rightarrow> bool" where
  "inner_sizes i \<longleftrightarrow> length (iin_cookie i) = 20 \<and> length (iin_rpFingerprint i) = 32 \<and> length (iin_rpOnionPk i) = 32
     \<and> length (iin_handshakeMessage i) = 1216"

interpretation inner: frame_codec buildIntroduceInner parseIntroduceInner inner_sizes
proof
  show "\<exists>bs. buildIntroduceInner i = Inr bs \<and> parseIntroduceInner bs = Some i" if "inner_sizes i" for i
    using that by (simp add: buildIntroduceInner_def parseIntroduceInner_def inner_sizes_def layout)
  show "inner_sizes i \<and> buildIntroduceInner i = Inr bs" if p: "parseIntroduceInner bs = Some i" for bs i
  proof -
    have n: "length bs = 1300" using p by (simp add: parseIntroduceInner_def split: if_splits)
    then have "subarray bs 0 20 @ subarray bs 20 52 @ subarray bs 52 84 @ subarray bs 84 1300 = bs"
      by (simp add: subarray_join subarray_all)
    then show ?thesis
      using p n by (auto simp: buildIntroduceInner_def parseIntroduceInner_def inner_sizes_def split: if_splits)
  qed
qed

lemma buildIntroduceInner_Inr: "buildIntroduceInner i = Inr bs \<Longrightarrow> inner_sizes i \<and> length bs = 1300"
  by (auto simp: buildIntroduceInner_def inner_sizes_def split: if_splits)

section \<open>Properties\<close>

lemma introduction_opens:
  assumes "hash_ok C" "aead_correct C" "dh_correct C" "kem_correct C" "length (sld_ephemeral d) = 32" "length xsk = 32"
    and "buildIntroducePayload C d serviceIntroPk (x_public C xsk) (fst (kem_keygen C ks)) i = Inr payload"
  shows "length payload = 2480 \<and> (\<exists>env. parseIntroduceEnvelope payload = Some (serviceIntroPk, env)
    \<and> unsealIntroduceInner C env xsk (snd (kem_keygen C ks)) = Some i)"
proof -
  obtain inner env where b: "length serviceIntroPk = 32" "buildIntroduceInner i = Inr inner"
    "seal C d inner (x_public C xsk) (fst (kem_keygen C ks)) = Inr env" "payload = serviceIntroPk @ env"
    using assms(7) by (auto simp: buildIntroducePayload_def split: if_splits sum.splits)
  note in_ok = buildIntroduceInner_Inr [OF b(2)]
  have u: "unseal C env xsk (snd (kem_keygen C ks)) = Some inner \<and> length env = 1148 + length inner"
    by (rule unseal_seal [OF assms(1-6) refl refl b(3)])
  moreover have "parseIntroduceInner inner = Some i" using in_ok b(2) by (intro inner.roundtrip) simp_all
  moreover have "subarray payload 0 32 = serviceIntroPk" "subarray payload 32 (length payload) = env"
    using b(1) u by (simp_all add: b(4) layout)
  ultimately show ?thesis
    using in_ok b(1) by (simp add: parseIntroduceEnvelope_def unsealIntroduceInner_def b(4))
qed

text \<open>An introduction reaches the service: what the client builds names the service to the introduction point,
  which reads the name and the sealed envelope off it without opening it, and the service opens that envelope to
  the cookie, the rendezvous point and the handshake message that the client put in.\<close>

theorem introduction_reaches_service:
  assumes "hash_ok C" "aead_correct C" "dh_correct C" "kem_correct C" "length (sld_ephemeral d) = 32" "length xsk = 32"
    and "buildIntroducePayload C d serviceIntroPk (x_public C xsk) (fst (kem_keygen C ks)) i = Inr payload"
  shows "length payload = 2480 \<and> (\<exists>env. parseIntroduceEnvelope payload = Some (serviceIntroPk, env)
    \<and> unsealIntroduceInner C env xsk (snd (kem_keygen C ks)) = Some i)"
  by (rule introduction_opens [OF assms])

text \<open>A registration is bound to the introduction point and the time: what the service builds is accepted by the
  introduction point it names, from a minute before the epoch it carries until the age limit after it, and yields the
  service's key and the epoch; outside that window it is refused; and whatever is accepted carries a signature
  of the key that it registers over this introduction point's fingerprint and the epoch.\<close>

theorem registration_bound:
  assumes "sig_correct C" "buildEstablishIntro C (ed_public C sk) sk fp epoch = Inr payload" "0 \<le> epoch" "epoch < 2 ^ 53"
  shows "parseAndVerifyEstablishIntro C payload fp (Some now) age
      = (if now - age \<le> epoch \<and> epoch \<le> now + 60 then Some (ed_public C sk, nat epoch) else None)
    \<and> (parseAndVerifyEstablishIntro C raw fp t age = Some (pk, e) \<longrightarrow>
        pk = subarray raw 0 32 \<and> verify C (subarray raw 40 104) (ESTABLISH_INTRO_SIG_CONTEXT @ fp @ subarray raw 32 40) pk)"
proof -
  let ?e = "be_bytes 8 (nat epoch)"
  have l: "length (ed_public C sk) = 32" "length sk = 32" "length fp = 32"
    using assms(2) by (auto simp: buildEstablishIntro_def split: if_splits)
  have w: "writeBigUint64BE (zeros 8) 0 epoch = ?e"
    using assms(3,4) by (simp add: writeBigUint64BE_def set_at_def zeros_def)
  let ?sig = "sign C (ESTABLISH_INTRO_SIG_CONTEXT @ fp @ ?e) sk"
  have p: "payload = ed_public C sk @ ?e @ ?sig"
    using assms(2) w l by (simp add: buildEstablishIntro_def Let_def)
  have ls: "length ?sig = 64" by (rule length_sign [OF assms(1) l(2)])
  have parts: "subarray payload 0 32 = ed_public C sk" "subarray payload 32 40 = ?e" "subarray payload 40 104 = ?sig" "length payload = 104"
    using l ls by (simp_all add: p layout)
  have n: "nat epoch < 2 ^ 53" using assms(3,4) by (simp add: nat_less_iff)
  then have "nat epoch < 256 ^ 8" by simp
  then have r: "readBigUint64BE payload 32 = nat epoch"
    using parts(2) js_number_small [OF n] be_val_be_bytes_id [of "nat epoch" 8] by (simp add: readBigUint64BE_def)
  show ?thesis
    using parts r l verify_sign [OF assms(1) l(2)] assms(3)
    by (auto simp: parseAndVerifyEstablishIntro_def Let_def split: if_splits option.splits)
qed

definition toy_inner :: introduce_inner where
  "toy_inner = \<lparr>iin_cookie = zeros 20, iin_rpFingerprint = zeros 32, iin_rpOnionPk = zeros 32, iin_handshakeMessage = zeros 1216\<rparr>"

theorem introduction_reaches_service_witness:
  "\<exists>payload env. buildIntroducePayload toy_crypto \<lparr>sld_ephemeral = 1 # zeros 31, sld_encaps = [5], sld_nonce = zeros 12\<rparr>
      (zeros 32) (x_public toy_crypto (zeros 32)) (fst (kem_keygen toy_crypto [9])) toy_inner = Inr payload
    \<and> parseIntroduceEnvelope payload = Some (zeros 32, env)
    \<and> unsealIntroduceInner toy_crypto env (zeros 32) (snd (kem_keygen toy_crypto [9])) = Some toy_inner"
proof -
  let ?d = "\<lparr>sld_ephemeral = 1 # zeros 31, sld_encaps = [5], sld_nonce = zeros 12\<rparr>"
  have x: "length (x_public toy_crypto (zeros 32)) = 32" by (simp add: toy_crypto_def)
  have s: "sharedSecret toy_crypto (1 # zeros 31) (x_public toy_crypto (zeros 32)) = Some (1 # zeros 31)"
  proof (rule toy_sharedSecret)
    have "hd (1 # zeros 31 :: bytes) \<noteq> hd (zeros 32)" by (simp add: zeros_def)
    then show "(1 # zeros 31 :: bytes) \<noteq> zeros 32" by metis
  qed simp
  obtain ct ss where k: "length (fst (kem_keygen toy_crypto [9])) = 1184"
    "kem_encaps toy_crypto [5] (fst (kem_keygen toy_crypto [9])) = Some (ct, ss)"
    using toy_kem_correct unfolding kem_correct_def by blast
  obtain bs where bs: "buildIntroduceInner toy_inner = Inr bs" by (simp add: buildIntroduceInner_def toy_inner_def)
  have "length (kdf toy_crypto ((1 # zeros 31) @ ss) SEALED_BOX_INFO 32) = 32" using toy_hash_ok by simp
  then obtain c t where "aeadEncrypt toy_crypto (kdf toy_crypto ((1 # zeros 31) @ ss) SEALED_BOX_INFO 32) (zeros 12) [] bs = Inr (c, t)"
    using aeadEncrypt_Inr [of _ "zeros 12"] by fastforce
  then obtain payload where b: "buildIntroducePayload toy_crypto ?d (zeros 32) (x_public toy_crypto (zeros 32))
      (fst (kem_keygen toy_crypto [9])) toy_inner = Inr payload"
    using x s k bs by (simp add: buildIntroducePayload_def seal_def generateOnion_def Let_def)
  have "length (sld_ephemeral ?d) = 32" "length (zeros 32) = 32" by simp_all
  from introduction_reaches_service [OF toy_hash_ok toy_aead_correct toy_dh_correct toy_kem_correct this b] b
  show ?thesis by blast
qed

theorem registration_bound_witness:
  "\<exists>payload. buildEstablishIntro toy_crypto (ed_public toy_crypto (zeros 32)) (zeros 32) (zeros 32) 1000 = Inr payload
    \<and> parseAndVerifyEstablishIntro toy_crypto payload (zeros 32) (Some 2000) 3600 = Some (ed_public toy_crypto (zeros 32), 1000)
    \<and> parseAndVerifyEstablishIntro toy_crypto payload (zeros 32) (Some 5000) 3600 = None"
proof -
  have "length (ed_public toy_crypto (zeros 32)) = 32" by (simp add: toy_crypto_def)
  then obtain payload where b: "buildEstablishIntro toy_crypto (ed_public toy_crypto (zeros 32)) (zeros 32) (zeros 32) 1000 = Inr payload"
    by (simp add: buildEstablishIntro_def Let_def)
  show ?thesis
    using registration_bound [OF toy_sig_correct b, of 2000 3600] registration_bound [OF toy_sig_correct b, of 5000 3600] b by simp
qed

end
