(* ===== verification/V2_Consensus.thy ===== *)
theory V2_Consensus
  imports V2_Exit_Policy JsMap Crypto Codec
begin

text \<open>
  \<open>modules/v2/consensus.mjs\<close>: the relay entries (RSE) and the consensus document with its signatures, and the selection
  of a path. \<open>Math.random\<close> is an argument: it maps the length of an array to the index picked. A trust set is a map from
  hexadecimal fingerprints to keys. Writing past the end of a buffer with \<open>set\<close> throws, as in JavaScript.
\<close>

section \<open>Flags\<close>

definition FLAG_EXIT :: nat where [simp]: "FLAG_EXIT = 0x0001"
definition FLAG_GUARD :: nat where [simp]: "FLAG_GUARD = 0x0002"
definition FLAG_RUNNING :: nat where [simp]: "FLAG_RUNNING = 0x0004"
definition FLAG_STABLE :: nat where [simp]: "FLAG_STABLE = 0x0008"
definition FLAG_FAST :: nat where [simp]: "FLAG_FAST = 0x0010"
definition FLAG_HSDIR :: nat where [simp]: "FLAG_HSDIR = 0x0020"
definition FLAG_VALID :: nat where [simp]: "FLAG_VALID = 0x0040"
definition FLAG_AUTHORITY :: nat where [simp]: "FLAG_AUTHORITY = 0x0080"
definition FLAG_BAD_EXIT :: nat where [simp]: "FLAG_BAD_EXIT = 0x0100"

definition CONSENSUS_VERSION :: byte where [simp]: "CONSENSUS_VERSION = 0x02"
definition LEN_TIMESTAMP :: nat where [simp]: "LEN_TIMESTAMP = 8"
definition LEN_DA_SIG_ENTRY :: nat where [simp]: "LEN_DA_SIG_ENTRY = 96"
definition LEN_RSE_COUNT :: nat where [simp]: "LEN_RSE_COUNT = 4"
definition LEN_IPV4_ADDR :: nat where [simp]: "LEN_IPV4_ADDR = 6"
definition LEN_IPV6_ADDR :: nat where [simp]: "LEN_IPV6_ADDR = 18"
definition LEN_RSE_FIXED_PREFIX :: nat where [simp]: "LEN_RSE_FIXED_PREFIX = 32 + 32 + 32 + LEN_IPV4_ADDR + LEN_IPV6_ADDR + 2 + 2"
definition LEN_HEADER_BEFORE_DA :: nat where [simp]: "LEN_HEADER_BEFORE_DA = 1 + LEN_TIMESTAMP * 3 + 1"

section \<open>Relay entries\<close>

record rse =
  rse_fingerprint :: bytes
  rse_idPk :: bytes
  rse_onionPk :: bytes
  rse_ipv4 :: "bytes option"
  rse_ipv6 :: "bytes option"
  rse_flags :: nat
  rse_exitPolicy :: "rule list"
  rse_exitPolicyBytes :: bytes

definition isZeroAddr :: "bytes \<Rightarrow> bool" where
  "isZeroAddr buf = list_all (\<lambda>b. b = 0) buf"

text \<open>\<open>buf.set(src, off)\<close> with its range check.\<close>

definition set_checked :: "bytes \<Rightarrow> nat \<Rightarrow> bytes \<Rightarrow> bytes res" where
  "set_checked buf off src =
     (if off + length src > length buf then Inl (RangeError ''offset is out of bounds'') else Inr (set_at buf off src))"

text \<open>A sequence of \<open>set\<close> calls at given offsets.\<close>

fun set_all :: "bytes \<Rightarrow> (nat \<times> bytes) list \<Rightarrow> bytes res" where
  "set_all buf [] = Inr buf"
| "set_all buf ((off, src) # rest) =
     (case set_checked buf off src of Inl e \<Rightarrow> Inl e | Inr buf \<Rightarrow> set_all buf rest)"

definition buildRse :: "rse \<Rightarrow> bytes res" where
  "buildRse r =
     (let policyLen = length (rse_exitPolicyBytes r);
          buf = zeros (LEN_RSE_FIXED_PREFIX + policyLen)
      in set_all buf
           ([(0, rse_fingerprint r), (32, rse_idPk r), (64, rse_onionPk r)]
            @ (case rse_ipv4 r of None \<Rightarrow> [] | Some a \<Rightarrow> [(96, a)])
            @ (case rse_ipv6 r of None \<Rightarrow> [] | Some a \<Rightarrow> [(102, a)])
            @ [(120, be_bytes 2 (rse_flags r)), (122, be_bytes 2 policyLen)]
            @ (if policyLen > 0 then [(124, rse_exitPolicyBytes r)] else [])))"

text \<open>The entry at an offset and the offset after it.\<close>

definition parseRse :: "bytes \<Rightarrow> nat \<Rightarrow> (rse \<times> nat) option" where
  "parseRse buf off =
     (if length buf < off + LEN_RSE_FIXED_PREFIX then None
      else
        let ipv4Raw = subarray buf (off + 96) (off + 102);
            ipv6Raw = subarray buf (off + 102) (off + 120);
            flags = be_val (subarray buf (off + 120) (off + 122));
            policyLen = be_val (subarray buf (off + 122) (off + 124));
            p = off + 124
        in if length buf < p + policyLen then None
           else
             let exitPolicyBytes = subarray buf p (p + policyLen)
             in (case if policyLen > 0 then parsePolicy exitPolicyBytes else Some [] of
                   None \<Rightarrow> None
                 | Some exitPolicy \<Rightarrow>
                     Some (\<lparr>rse_fingerprint = subarray buf off (off + 32), rse_idPk = subarray buf (off + 32) (off + 64),
                       rse_onionPk = subarray buf (off + 64) (off + 96),
                       rse_ipv4 = (if isZeroAddr ipv4Raw then None else Some ipv4Raw),
                       rse_ipv6 = (if isZeroAddr ipv6Raw then None else Some ipv6Raw),
                       rse_flags = flags, rse_exitPolicy = exitPolicy, rse_exitPolicyBytes = exitPolicyBytes\<rparr>,
                       p + policyLen)))"

section \<open>The document\<close>

record da_signer =
  das_idSk :: bytes
  das_fingerprint :: bytes

definition buildSignedBytes :: "int \<Rightarrow> int \<Rightarrow> int \<Rightarrow> nat \<Rightarrow> nat \<Rightarrow> bytes \<Rightarrow> bytes" where
  "buildSignedBytes validAfter freshUntil validUntil daSignerCount rseCount rsesBytes =
     (let out = zeros (1 + LEN_TIMESTAMP * 3 + 1 + LEN_RSE_COUNT + length rsesBytes);
          off = 0;
          out = out[off := CONSENSUS_VERSION]; off = off + 1;
          out = writeBigUint64BE out off validAfter; off = off + LEN_TIMESTAMP;
          out = writeBigUint64BE out off freshUntil; off = off + LEN_TIMESTAMP;
          out = writeBigUint64BE out off validUntil; off = off + LEN_TIMESTAMP;
          out = out[off := u8 daSignerCount]; off = off + 1;
          out = set_at out off (be_bytes 4 rseCount); off = off + LEN_RSE_COUNT
      in set_at out off rsesBytes)"

text \<open>The block of signatures, entry by entry.\<close>

fun write_sigs :: "crypto \<Rightarrow> bytes \<Rightarrow> da_signer list \<Rightarrow> nat \<Rightarrow> bytes \<Rightarrow> bytes res" where
  "write_sigs C signedBytes [] i sigBlock = Inr sigBlock"
| "write_sigs C signedBytes (da # das) i sigBlock =
     (case set_all sigBlock [(i * LEN_DA_SIG_ENTRY, das_fingerprint da),
             (i * LEN_DA_SIG_ENTRY + 32, sign C signedBytes (das_idSk da))] of
        Inl e \<Rightarrow> Inl e
      | Inr sigBlock \<Rightarrow> write_sigs C signedBytes das (i + 1) sigBlock)"

definition buildConsensus :: "crypto \<Rightarrow> int \<Rightarrow> int \<Rightarrow> int \<Rightarrow> rse list \<Rightarrow> da_signer list \<Rightarrow> bytes res" where
  "buildConsensus C validAfter freshUntil validUntil rses daSigners =
     (case map_res buildRse rses of
        Inl e \<Rightarrow> Inl e
      | Inr rseParts \<Rightarrow>
          let rsesBytes = concat rseParts;
              signedBytes = buildSignedBytes validAfter freshUntil validUntil (length daSigners) (length rses) rsesBytes
          in (case write_sigs C signedBytes daSigners 0 (zeros (length daSigners * LEN_DA_SIG_ENTRY)) of
                Inl e \<Rightarrow> Inl e
              | Inr sigBlock \<Rightarrow>
                  let out = zeros (1 + LEN_TIMESTAMP * 3 + 1 + length sigBlock + LEN_RSE_COUNT + length rsesBytes);
                      off = 0;
                      out = out[off := CONSENSUS_VERSION]; off = off + 1;
                      out = writeBigUint64BE out off validAfter; off = off + LEN_TIMESTAMP;
                      out = writeBigUint64BE out off freshUntil; off = off + LEN_TIMESTAMP;
                      out = writeBigUint64BE out off validUntil; off = off + LEN_TIMESTAMP;
                      out = out[off := u8 (length daSigners)]; off = off + 1;
                      out = set_at out off sigBlock; off = off + length sigBlock;
                      out = set_at out off (be_bytes 4 (length rses)); off = off + LEN_RSE_COUNT
                  in Inr (set_at out off rsesBytes)))"

text \<open>The loop over the signature entries: the fingerprints seen and the signatures verified so far.\<close>

fun count_sigs :: "crypto \<Rightarrow> bytes \<Rightarrow> bytes \<Rightarrow> (string, bytes) jsmap \<Rightarrow> nat list \<Rightarrow> string list \<Rightarrow> nat \<Rightarrow> nat" where
  "count_sigs C buf signedBytes daTrustSet [] seenFps verifiedCount = verifiedCount"
| "count_sigs C buf signedBytes daTrustSet (i # is) seenFps verifiedCount =
     (let base = LEN_HEADER_BEFORE_DA + i * LEN_DA_SIG_ENTRY;
          sig = subarray buf (base + 32) (base + LEN_DA_SIG_ENTRY);
          fpKey = toHex (subarray buf base (base + 32))
      in if fpKey \<in> set seenFps then count_sigs C buf signedBytes daTrustSet is seenFps verifiedCount
         else
           (case map_get daTrustSet fpKey of
              None \<Rightarrow> count_sigs C buf signedBytes daTrustSet is (fpKey # seenFps) verifiedCount
            | Some trustedIdPk \<Rightarrow>
                count_sigs C buf signedBytes daTrustSet is (fpKey # seenFps)
                  (if verify C sig signedBytes trustedIdPk then verifiedCount + 1 else verifiedCount)))"

record consensus =
  cns_validAfter :: nat
  cns_freshUntil :: nat
  cns_validUntil :: nat
  cns_rses :: "rse list"

definition parseConsensus :: "crypto \<Rightarrow> bytes \<Rightarrow> (string, bytes) jsmap \<Rightarrow> int \<Rightarrow> consensus option" where
  "parseConsensus C buf daTrustSet nowSeconds =
     (if length buf < LEN_HEADER_BEFORE_DA then None
      else if buf ! 0 \<noteq> CONSENSUS_VERSION then None
      else
        let validAfter = readBigUint64BE buf 1;
            freshUntil = readBigUint64BE buf 9;
            validUntil = readBigUint64BE buf 17;
            daCount = unat (buf ! 25)
        in if nowSeconds < int validAfter \<or> nowSeconds > int validUntil then None
           else
             let sigBlockEnd = LEN_HEADER_BEFORE_DA + daCount * LEN_DA_SIG_ENTRY
             in if length buf < sigBlockEnd + LEN_RSE_COUNT then None
                else
                  let rseCount = be_val (subarray buf sigBlockEnd (sigBlockEnd + 4));
                      rsesStart = sigBlockEnd + LEN_RSE_COUNT;
                      rsesLen = length buf - rsesStart;
                      signedBytes = set_at (set_at (zeros (LEN_HEADER_BEFORE_DA + LEN_RSE_COUNT + rsesLen)) 0
                          (subarray buf 0 LEN_HEADER_BEFORE_DA))
                        LEN_HEADER_BEFORE_DA (subarray buf sigBlockEnd (sigBlockEnd + LEN_RSE_COUNT + rsesLen));
                      verifiedCount = count_sigs C buf signedBytes daTrustSet [0..<daCount] [] 0;
                      required = map_size daTrustSet div 2 + 1
                  in if verifiedCount < required then None
                     else
                       (case read_n (parseRse buf) rseCount rsesStart of
                          None \<Rightarrow> None
                        | Some (rses, p) \<Rightarrow>
                            if p \<noteq> length buf then None
                            else Some \<lparr>cns_validAfter = validAfter, cns_freshUntil = freshUntil,
                              cns_validUntil = validUntil, cns_rses = rses\<rparr>))"

section \<open>Path selection\<close>

definition hasAllFlags :: "rse \<Rightarrow> nat \<Rightarrow> bool" where "hasAllFlags r flags \<longleftrightarrow> (rse_flags r) AND flags = flags"

definition hasAnyFlag :: "rse \<Rightarrow> nat \<Rightarrow> bool" where "hasAnyFlag r flags \<longleftrightarrow> (rse_flags r) AND flags \<noteq> 0"

text \<open>What \<open>coLocated\<close> returns: a boolean, or an object (which is truthy, whatever is in it).\<close>

datatype js_value = Boolean bool | Object_Same bool

fun truthy :: "js_value \<Rightarrow> bool" where
  "truthy (Boolean b) = b"
| "truthy (Object_Same b) = True"

definition coLocated :: "rse \<Rightarrow> rse \<Rightarrow> js_value" where
  "coLocated a b =
     (if (case (rse_ipv4 a, rse_ipv4 b) of (Some x, Some y) \<Rightarrow> x ! 0 = y ! 0 \<and> x ! 1 = y ! 1 | _ \<Rightarrow> False) then Boolean True
      else
        (case (rse_ipv6 a, rse_ipv6 b) of
           (Some x, Some y) \<Rightarrow> if \<exists>i\<in>set [0..<6]. x ! i \<noteq> y ! i then Object_Same False else Boolean True
         | _ \<Rightarrow> Boolean False))"

definition pickRandom :: "(nat \<Rightarrow> nat) \<Rightarrow> 'a list \<Rightarrow> 'a option" where
  "pickRandom random arr = (if length arr = 0 then None else Some (arr ! random (length arr)))"

definition usableRelay :: "rse \<Rightarrow> bool" where
  "usableRelay r = hasAllFlags r (FLAG_RUNNING OR FLAG_VALID)"

definition filterCandidates :: "rse list \<Rightarrow> nat \<Rightarrow> bytes list \<Rightarrow> rse list \<Rightarrow> rse list" where
  "filterCandidates rses extraFlags exclude coLocateAvoid =
     filter (\<lambda>r. if \<not> usableRelay r then False
                 else if extraFlags \<noteq> 0 \<and> \<not> hasAllFlags r extraFlags then False
                 else if hasAnyFlag r FLAG_BAD_EXIT then False
                 else if toHex (rse_fingerprint r) \<in> set (map toHex exclude) then False
                 else \<not> (\<exists>other\<in>set coLocateAvoid. truthy (coLocated r other))) rses"

definition selectGuard :: "(nat \<Rightarrow> nat) \<Rightarrow> rse list \<Rightarrow> bytes list \<Rightarrow> rse option" where
  "selectGuard random rses existingGuards =
     (let stillValid = filter (\<lambda>fp. find (\<lambda>r. rse_fingerprint r = fp \<and> usableRelay r) rses \<noteq> None) existingGuards
      in if length stillValid > 0 then find (\<lambda>r. rse_fingerprint r = stillValid ! 0) rses
         else pickRandom random (filterCandidates rses FLAG_GUARD [] []))"

definition selectMiddle :: "(nat \<Rightarrow> nat) \<Rightarrow> rse list \<Rightarrow> bytes list \<Rightarrow> rse list \<Rightarrow> rse option" where
  "selectMiddle random rses excludeFps coLocateAvoid =
     pickRandom random (filterCandidates rses 0 excludeFps coLocateAvoid)"

text \<open>\<open>.filter((r) => evaluate(...) === 'accept')\<close>, which may throw.\<close>

fun filter_accept :: "nat \<Rightarrow> bytes \<Rightarrow> int \<Rightarrow> rse list \<Rightarrow> rse list res" where
  "filter_accept addrType addr port [] = Inr []"
| "filter_accept addrType addr port (r # rs) =
     (case evaluate (rse_exitPolicy r) addrType addr port of
        Inl e \<Rightarrow> Inl e
      | Inr v \<Rightarrow>
          (case filter_accept addrType addr port rs of
             Inl e \<Rightarrow> Inl e
           | Inr rs \<Rightarrow> Inr (if v = Accept then r # rs else rs)))"

definition selectExit :: "(nat \<Rightarrow> nat) \<Rightarrow> rse list \<Rightarrow> nat \<Rightarrow> bytes \<Rightarrow> int \<Rightarrow> bytes list \<Rightarrow> rse list \<Rightarrow> rse option res" where
  "selectExit random rses addrType addr port excludeFps coLocateAvoid =
     (case filter_accept addrType addr port (filterCandidates rses FLAG_EXIT excludeFps coLocateAvoid) of
        Inl e \<Rightarrow> Inl e
      | Inr candidates \<Rightarrow> Inr (pickRandom random candidates))"

text \<open>Three draws, one for each role.\<close>

definition pickPath ::
  "(nat \<Rightarrow> nat) \<Rightarrow> (nat \<Rightarrow> nat) \<Rightarrow> (nat \<Rightarrow> nat) \<Rightarrow> rse list \<Rightarrow> nat \<Rightarrow> bytes \<Rightarrow> int \<Rightarrow> bytes list \<Rightarrow> bool \<Rightarrow>
   (rse \<times> rse \<times> rse) option res" where
  "pickPath rndG rndE rndM rses addrType addr port existingGuards skipAntiCorrelation =
     (case selectGuard rndG rses existingGuards of
        None \<Rightarrow> Inr None
      | Some guard \<Rightarrow>
          (case selectExit rndE rses addrType addr port [rse_fingerprint guard] (if skipAntiCorrelation then [] else [guard]) of
             Inl e \<Rightarrow> Inl e
           | Inr None \<Rightarrow> Inr None
           | Inr (Some exit) \<Rightarrow>
               (case selectMiddle rndM rses [rse_fingerprint guard, rse_fingerprint exit]
                       (if skipAntiCorrelation then [] else [guard, exit]) of
                  None \<Rightarrow> Inr None
                | Some middle \<Rightarrow> Inr (Some (guard, middle, exit)))))"

end
