(* ===== verification/V2_Consensus_Props.thy ===== *)
theory V2_Consensus_Props
  imports V2_Consensus
begin

text \<open>
  What an accepted consensus is worth, its round trip, and what a selected path satisfies.
\<close>

section \<open>Relay entries\<close>

definition addr_ok :: "nat \<Rightarrow> bytes option \<Rightarrow> bool" where
  "addr_ok n a = pred_option (\<lambda>a. length a = n \<and> \<not> isZeroAddr a) a"

definition rse_ok :: "rse \<Rightarrow> bool" where
  "rse_ok r \<longleftrightarrow> length (rse_fingerprint r) = 32 \<and> length (rse_idPk r) = 32 \<and> length (rse_onionPk r) = 32
     \<and> addr_ok 6 (rse_ipv4 r) \<and> addr_ok 18 (rse_ipv6 r) \<and> rse_flags r < 65536
     \<and> length (rse_exitPolicyBytes r) < 65536
     \<and> (if rse_exitPolicyBytes r = [] then rse_exitPolicy r = []
        else parsePolicy (rse_exitPolicyBytes r) = Some (rse_exitPolicy r))"

definition addr_bytes :: "nat \<Rightarrow> bytes option \<Rightarrow> bytes" where
  "addr_bytes n a = (case a of None \<Rightarrow> zeros n | Some a \<Rightarrow> a)"

definition rse_bytes :: "rse \<Rightarrow> bytes" where
  "rse_bytes r = rse_fingerprint r @ rse_idPk r @ rse_onionPk r @ addr_bytes 6 (rse_ipv4 r) @ addr_bytes 18 (rse_ipv6 r)
     @ be_bytes 2 (rse_flags r) @ be_bytes 2 (length (rse_exitPolicyBytes r)) @ rse_exitPolicyBytes r"

lemma length_addr_bytes: "addr_ok n a \<Longrightarrow> length (addr_bytes n a) = n"
  by (cases a) (simp_all add: addr_ok_def addr_bytes_def)

lemma isZeroAddr_zeros: "isZeroAddr xs \<longleftrightarrow> xs = zeros (length xs)"
  using all_zero_iff_zeros [of xs] by (simp add: isZeroAddr_def list_all_iff)

lemma read_addr: "addr_ok n a \<Longrightarrow> (if isZeroAddr (addr_bytes n a) then None else Some (addr_bytes n a)) = a"
  by (cases a) (auto simp: addr_ok_def addr_bytes_def isZeroAddr_zeros)

lemma addr_of_raw:
  "length xs = n \<Longrightarrow> addr_ok n (if isZeroAddr xs then None else Some xs) \<and> addr_bytes n (if isZeroAddr xs then None else Some xs) = xs"
  by (auto simp: addr_ok_def addr_bytes_def isZeroAddr_zeros)

text \<open>A field written into the zeroed rest of a buffer.\<close>

lemma set_checked_next:
  "off = length pre \<Longrightarrow> length src \<le> n \<Longrightarrow> set_checked (pre @ zeros n) off src = Inr (pre @ src @ zeros (n - length src))"
  by (simp add: set_checked_def set_at_def)

lemma set_checked_addr:
  assumes "addr_ok k a" "off = length pre" "k \<le> n"
  shows "set_all (pre @ zeros n) ((case a of None \<Rightarrow> [] | Some a \<Rightarrow> [(off, a)]) @ rest)
    = set_all ((pre @ addr_bytes k a) @ zeros (n - k)) rest"
proof (cases a)
  case None
  have "zeros n = zeros k @ zeros (n - k)" using assms(3) by (simp add: zeros_def flip: replicate_add)
  then show ?thesis using None by (simp add: addr_bytes_def)
next
  case (Some x)
  then show ?thesis using assms by (simp add: set_checked_next addr_ok_def addr_bytes_def)
qed

lemma set_checked_field:
  "length src = k \<Longrightarrow> off = length pre \<Longrightarrow> k \<le> n \<Longrightarrow>
   set_all (pre @ zeros n) ((off, src) # rest) = set_all ((pre @ src) @ zeros (n - k)) rest"
  by (simp add: set_checked_next)

lemma buildRse_layout:
  assumes "rse_ok r"
  shows "buildRse r = Inr (rse_bytes r)"
proof -
  let ?p = "rse_exitPolicyBytes r"
  have l: "length (rse_fingerprint r) = 32" "length (rse_idPk r) = 32" "length (rse_onionPk r) = 32"
    "addr_ok 6 (rse_ipv4 r)" "addr_ok 18 (rse_ipv6 r)" using assms by (simp_all add: rse_ok_def)
  note a = length_addr_bytes [OF l(4)] length_addr_bytes [OF l(5)]
  let ?tail = "[(120, be_bytes 2 (rse_flags r)), (122, be_bytes 2 (length ?p))] @ (if length ?p > 0 then [(124, ?p)] else [])"
  let ?A = "(([] @ rse_fingerprint r) @ rse_idPk r) @ rse_onionPk r"
  let ?B = "(?A @ addr_bytes 6 (rse_ipv4 r)) @ addr_bytes 18 (rse_ipv6 r)"
  let ?v4 = "case rse_ipv4 r of None \<Rightarrow> [] | Some a \<Rightarrow> [(96, a)]" and ?v6 = "case rse_ipv6 r of None \<Rightarrow> [] | Some a \<Rightarrow> [(102, a)]"
  have n: "124 + k - 32 - 32 - 32 - 6 - 18 = 4 + k" for k :: nat by simp
  have "buildRse r = set_all ([] @ zeros (124 + length ?p)) ((0, rse_fingerprint r) # (32, rse_idPk r) # (64, rse_onionPk r)
      # ?v4 @ ?v6 @ ?tail)" by (simp add: buildRse_def Let_def)
  also have "\<dots> = set_all (([] @ rse_fingerprint r) @ zeros (124 + length ?p - 32)) ((32, rse_idPk r) # (64, rse_onionPk r) # ?v4 @ ?v6 @ ?tail)"
    by (rule set_checked_field) (simp_all add: l)
  also have "\<dots> = set_all ((([] @ rse_fingerprint r) @ rse_idPk r) @ zeros (124 + length ?p - 32 - 32)) ((64, rse_onionPk r) # ?v4 @ ?v6 @ ?tail)"
    by (rule set_checked_field) (simp_all add: l)
  also have "\<dots> = set_all (?A @ zeros (124 + length ?p - 32 - 32 - 32)) (?v4 @ ?v6 @ ?tail)"
    by (rule set_checked_field) (simp_all add: l)
  also have "\<dots> = set_all ((?A @ addr_bytes 6 (rse_ipv4 r)) @ zeros (124 + length ?p - 32 - 32 - 32 - 6)) (?v6 @ ?tail)"
    by (rule set_checked_addr [OF l(4)]) (simp_all add: l)
  also have "\<dots> = set_all (?B @ zeros (124 + length ?p - 32 - 32 - 32 - 6 - 18)) ?tail"
    by (rule set_checked_addr [OF l(5)]) (simp_all add: l a)
  also have "\<dots> = Inr (rse_bytes r)"
    unfolding n by (simp add: set_checked_def set_at_def l a rse_bytes_def)
  finally show ?thesis .
qed

lemma length_rse_bytes: "rse_ok r \<Longrightarrow> length (rse_bytes r) = 124 + length (rse_exitPolicyBytes r)"
  by (simp add: rse_ok_def rse_bytes_def length_addr_bytes)

lemma subarray_inside:
  "b + j \<le> b + length xs \<Longrightarrow> b = length pre \<Longrightarrow> subarray (pre @ xs @ post) (b + i) (b + j) = subarray xs i j"
  by (simp add: subarray_def)

lemma parse_rse_bytes:
  assumes "rse_ok r"
  shows "parseRse (pre @ rse_bytes r @ post) (length pre) = Some (r, length pre + length (rse_bytes r))"
proof -
  let ?b = "pre @ rse_bytes r @ post" and ?o = "length pre" and ?p = "rse_exitPolicyBytes r"
  have l: "length (rse_fingerprint r) = 32" "length (rse_idPk r) = 32" "length (rse_onionPk r) = 32"
    "addr_ok 6 (rse_ipv4 r)" "addr_ok 18 (rse_ipv6 r)" "rse_flags r < 65536" "length ?p < 65536"
    using assms by (simp_all add: rse_ok_def)
  note a = length_addr_bytes [OF l(4)] length_addr_bytes [OF l(5)]
  have f: "subarray ?b (?o + i) (?o + j) = subarray (rse_bytes r) i j" if "j \<le> 124 + length ?p" for i j
    by (rule subarray_inside) (use that length_rse_bytes [OF assms] in simp_all)
  have fields: "subarray (rse_bytes r) 0 32 = rse_fingerprint r" "subarray (rse_bytes r) 32 64 = rse_idPk r"
    "subarray (rse_bytes r) 64 96 = rse_onionPk r" "subarray (rse_bytes r) 96 102 = addr_bytes 6 (rse_ipv4 r)"
    "subarray (rse_bytes r) 102 120 = addr_bytes 18 (rse_ipv6 r)" "subarray (rse_bytes r) 120 122 = be_bytes 2 (rse_flags r)"
    "subarray (rse_bytes r) 122 124 = be_bytes 2 (length ?p)" "subarray (rse_bytes r) 124 (124 + length ?p) = ?p"
    by (simp_all add: rse_bytes_def subarray_def l a)
  have n: "be_val (be_bytes 2 (rse_flags r)) = rse_flags r" "be_val (be_bytes 2 (length ?p)) = length ?p"
    using l(6,7) by (simp_all add: be_val_be_bytes_id)
  have pol: "(if 0 < length ?p then parsePolicy ?p else Some []) = Some (rse_exitPolicy r)"
    using assms by (auto simp: rse_ok_def split: if_splits)
  have o: "subarray ?b ?o (?o + 32) = rse_fingerprint r" using f [of 32 0] fields(1) by simp
  have rest: "subarray ?b (?o + 32) (?o + 64) = rse_idPk r" "subarray ?b (?o + 64) (?o + 96) = rse_onionPk r"
    "subarray ?b (?o + 96) (?o + 102) = addr_bytes 6 (rse_ipv4 r)" "subarray ?b (?o + 102) (?o + 120) = addr_bytes 18 (rse_ipv6 r)"
    "be_val (subarray ?b (?o + 120) (?o + 122)) = rse_flags r" "be_val (subarray ?b (?o + 122) (?o + 124)) = length ?p"
    "subarray ?b (?o + 124) (?o + 124 + length ?p) = ?p"
    using f [of _ 32] f [of _ 64] f [of _ 96] f [of _ 102] f [of _ 120] f [of _ 122] f [of "124 + length ?p" 124] fields n
    by (simp_all add: add.assoc)
  have "\<not> length ?b < ?o + 124" "\<not> length ?b < ?o + 124 + length ?p" using length_rse_bytes [OF assms] by simp_all
  then show ?thesis
    unfolding parseRse_def Let_def
    using pol read_addr [OF l(4)] read_addr [OF l(5)] length_rse_bytes [OF assms] by (simp add: o rest cong: if_cong option.case_cong split del: if_split)
qed

lemma parse_rse_sound:
  assumes "parseRse buf off = Some (x, off')"
  shows "rse_ok x \<and> off \<le> off' \<and> off' \<le> length buf \<and> subarray buf off off' = rse_bytes x"
proof -
  let ?n = "be_val (subarray buf (off + 122) (off + 124))"
  have len: "off + 124 + ?n \<le> length buf" and off': "off' = off + 124 + ?n"
    using assms by (auto simp: parseRse_def Let_def split: if_splits option.splits)
  let ?p = "subarray buf (off + 124) (off + 124 + ?n)"
  obtain pol where pol: "(if 0 < ?n then parsePolicy ?p else Some []) = Some pol"
    and x: "x = \<lparr>rse_fingerprint = subarray buf off (off + 32), rse_idPk = subarray buf (off + 32) (off + 64),
      rse_onionPk = subarray buf (off + 64) (off + 96),
      rse_ipv4 = (if isZeroAddr (subarray buf (off + 96) (off + 102)) then None else Some (subarray buf (off + 96) (off + 102))),
      rse_ipv6 = (if isZeroAddr (subarray buf (off + 102) (off + 120)) then None else Some (subarray buf (off + 102) (off + 120))),
      rse_flags = be_val (subarray buf (off + 120) (off + 122)), rse_exitPolicy = pol, rse_exitPolicyBytes = ?p\<rparr>"
    using assms by (auto simp: parseRse_def Let_def split: if_splits option.splits)
  have l6: "length (subarray buf (off + 96) (off + 102)) = 6" and l18: "length (subarray buf (off + 102) (off + 120)) = 18"
    and ln: "length ?p = ?n" using len by simp_all
  have two: "length (subarray buf (off + 120) (off + 122)) = 2" "length (subarray buf (off + 122) (off + 124)) = 2"
    using len by simp_all
  have small: "be_val (subarray buf (off + 120) (off + 122)) < 65536" "?n < 65536"
    using be_val_bound [of "subarray buf (off + 120) (off + 122)"] be_val_bound [of "subarray buf (off + 122) (off + 124)"]
    unfolding two by simp_all
  have ok: "rse_ok x"
    using pol len small addr_of_raw [OF l6] addr_of_raw [OF l18] unfolding x rse_ok_def
    by (auto split: if_splits simp flip: length_0_conv)
  have "rse_bytes x = subarray buf off (off + 32) @ subarray buf (off + 32) (off + 64) @ subarray buf (off + 64) (off + 96)
      @ subarray buf (off + 96) (off + 102) @ subarray buf (off + 102) (off + 120) @ subarray buf (off + 120) (off + 122)
      @ subarray buf (off + 122) (off + 124) @ ?p"
    using addr_of_raw [OF l6] addr_of_raw [OF l18] be_bytes_be_val_n [OF two(1)] be_bytes_be_val_n [OF two(2)] ln
    unfolding x rse_bytes_def by simp
  also have "\<dots> = subarray buf off off'"
    unfolding off' by (simp add: subarray_join)
  finally show ?thesis using ok len off' by simp
qed

interpretation rse: record_codec rse_bytes parseRse rse_ok
  by unfold_locales (simp_all add: parse_rse_bytes parse_rse_sound)

section \<open>A quorum of authorities\<close>

text \<open>The authorities of a trust set that have a verifying signature at one of the given entries.\<close>

definition signers :: "crypto \<Rightarrow> bytes \<Rightarrow> bytes \<Rightarrow> (string, bytes) jsmap \<Rightarrow> nat list \<Rightarrow> string set" where
  "signers C buf sb trust is =
     {toHex (subarray buf (26 + i * 96) (26 + i * 96 + 32)) | i pk. i \<in> set is
        \<and> map_get trust (toHex (subarray buf (26 + i * 96) (26 + i * 96 + 32))) = Some pk
        \<and> verify C (subarray buf (26 + i * 96 + 32) (26 + i * 96 + 96)) sb pk}"

lemma finite_signers: "finite (signers C buf sb trust is)"
  by (rule finite_subset [of _ "(\<lambda>i. toHex (subarray buf (26 + i * 96) (26 + i * 96 + 32))) ` set is"]) (auto simp: signers_def)

lemma signers_Cons: "signers C buf sb trust is \<subseteq> signers C buf sb trust (i # is)"
  by (auto simp: signers_def)

lemma count_sigs_le: "count_sigs C buf sb trust is seen n \<le> n + card (signers C buf sb trust is - set seen)"
proof (induction "is" arbitrary: seen n)
  case (Cons i "is")
  let ?fp = "toHex (subarray buf (26 + i * 96) (26 + i * 96 + 32))"
  let ?sig = "subarray buf (26 + i * 96 + 32) (26 + i * 96 + 96)"
  let ?S = "signers C buf sb trust is" and ?T = "signers C buf sb trust (i # is)"
  have sub: "?S - set seen \<subseteq> ?T - set seen" using signers_Cons by blast
  have le: "card (?S - set seen) \<le> card (?T - set seen)" by (rule card_mono [OF _ sub]) (simp add: finite_signers)
  have skip: "card (?S - insert ?fp (set seen)) \<le> card (?T - set seen)"
    by (rule card_mono) (use sub in \<open>auto simp: finite_signers\<close>)
  show ?case
  proof (cases "?fp \<notin> set seen \<and> (\<exists>pk. map_get trust ?fp = Some pk \<and> verify C ?sig sb pk)")
    case True
    then have "?fp \<in> ?T - set seen" by (auto simp: signers_def)
    then have "card (insert ?fp (?S - insert ?fp (set seen))) \<le> card (?T - set seen)"
      using sub by (intro card_mono) (auto simp: finite_signers)
    then have "Suc (card (?S - insert ?fp (set seen))) \<le> card (?T - set seen)" by (simp add: finite_signers)
    moreover have "count_sigs C buf sb trust (i # is) seen n = count_sigs C buf sb trust is (?fp # seen) (n + 1)"
      using True by (auto simp: Let_def add.assoc)
    ultimately show ?thesis using Cons.IH [of "?fp # seen" "n + 1"] by simp
  next
    case False
    have "count_sigs C buf sb trust (i # is) seen n = count_sigs C buf sb trust is seen n
      \<or> count_sigs C buf sb trust (i # is) seen n = count_sigs C buf sb trust is (?fp # seen) n"
      using False by (auto simp: Let_def add.assoc split: option.splits)
    then show ?thesis using Cons.IH [of seen n] Cons.IH [of "?fp # seen" n] le skip by auto
  qed
qed simp

text \<open>What the authorities sign: the document without the block of signatures.\<close>

definition signed_view :: "bytes \<Rightarrow> bytes" where
  "signed_view buf = take 26 buf @ drop (26 + unat (buf ! 25) * 96) buf"

lemma parse_signed_view:
  assumes "26 + k + 4 \<le> length buf"
  shows "set_at (set_at (zeros (26 + 4 + (length buf - (26 + k + 4)))) 0 (subarray buf 0 26)) 26
      (subarray buf (26 + k) (26 + k + 4 + (length buf - (26 + k + 4)))) = take 26 buf @ drop (26 + k) buf"
  using assms by (simp add: subarray_def set_at_def)

lemma accepted_quorum:
  assumes "parseConsensus C buf trust now = Some c"
  shows "int (cns_validAfter c) \<le> now \<and> now \<le> int (cns_validUntil c)
    \<and> map_size trust < 2 * card (signers C buf (signed_view buf) trust [0..<unat (buf ! 25)])"
proof -
  let ?k = "unat (buf ! 25) * 96" and ?n = "unat (buf ! 25)"
  have len: "26 + ?k + 4 \<le> length buf"
    and count: "map_size trust div 2 + 1 \<le> count_sigs C buf (set_at (set_at (zeros (26 + 4 + (length buf - (26 + ?k + 4)))) 0
        (subarray buf 0 26)) 26 (subarray buf (26 + ?k) (26 + ?k + 4 + (length buf - (26 + ?k + 4))))) trust [0..<?n] [] 0"
    and times: "int (cns_validAfter c) \<le> now" "now \<le> int (cns_validUntil c)"
    using assms by (auto simp: parseConsensus_def Let_def split: if_splits option.splits)
  from count have "map_size trust div 2 + 1 \<le> card (signers C buf (signed_view buf) trust [0..<?n])"
    unfolding parse_signed_view [OF len] signed_view_def
    using count_sigs_le [of C buf "take 26 buf @ drop (26 + ?k) buf" trust "[0..<?n]" "[]" 0] by simp
  then show ?thesis using times by simp
qed

lemma signers_trusted: "signers C buf sb trust is \<subseteq> set (map_keys trust)"
proof
  fix fp assume "fp \<in> signers C buf sb trust is"
  then obtain pk where "map_get trust fp = Some pk" by (auto simp: signers_def)
  then show "fp \<in> set (map_keys trust)" using map_get_mem [of trust fp pk] by (force simp: map_keys_def)
qed

lemma majorities_meet:
  assumes "S \<subseteq> set (map_keys m)" "T \<subseteq> set (map_keys m)" "map_size m < 2 * card S" "map_size m < 2 * card T"
  shows "S \<inter> T \<noteq> {}"
proof
  assume e: "S \<inter> T = {}"
  have fin: "finite S" "finite T" using assms(1,2) finite_subset by blast+
  have "card S + card T = card (S \<union> T)" using card_Un_disjoint [OF fin e] by simp
  also have "\<dots> \<le> card (set (map_keys m))" using assms(1,2) by (intro card_mono) simp_all
  also have "\<dots> \<le> map_size m" by (simp add: map_size_keys card_length)
  finally show False using assms(3,4) by simp
qed

text \<open>C13. A consensus is accepted only inside its validity window, and any two that are accepted under the same trust set
  agree: some trusted authority has signed both, since each has verifying signatures, over the whole document but the
  signature block, of more than half of the authorities, however often a signer is repeated.\<close>

theorem consensus_agreement:
  assumes "parseConsensus C buf trust now = Some c" "parseConsensus C buf' trust now' = Some c'"
  shows "int (cns_validAfter c) \<le> now \<and> now \<le> int (cns_validUntil c)
    \<and> map_size trust < 2 * card (signers C buf (signed_view buf) trust [0..<unat (buf ! 25)])
    \<and> (\<exists>fp pk sig sig'. map_get trust fp = Some pk \<and> verify C sig (signed_view buf) pk \<and> verify C sig' (signed_view buf') pk)"
proof -
  note q = accepted_quorum [OF assms(1)] accepted_quorum [OF assms(2)]
  have "signers C buf (signed_view buf) trust [0..<unat (buf ! 25)] \<inter> signers C buf' (signed_view buf') trust [0..<unat (buf' ! 25)] \<noteq> {}"
    by (rule majorities_meet [OF signers_trusted signers_trusted]) (use q in simp_all)
  then show ?thesis using q(1) by (fastforce simp: signers_def)
qed

section \<open>Path selection\<close>

definition picks :: "(nat \<Rightarrow> nat) \<Rightarrow> bool" where
  "picks random \<longleftrightarrow> (\<forall>n. 0 < n \<longrightarrow> random n < n)"

text \<open>What co-location means (SPEC section 6.1): the same /16 of IPv4 or the same /48 of IPv6.\<close>

definition same_subnet :: "rse \<Rightarrow> rse \<Rightarrow> bool" where
  "same_subnet a b \<longleftrightarrow>
     (\<exists>x y. rse_ipv4 a = Some x \<and> rse_ipv4 b = Some y \<and> x ! 0 = y ! 0 \<and> x ! 1 = y ! 1)
   \<or> (\<exists>x y. rse_ipv6 a = Some x \<and> rse_ipv6 b = Some y \<and> (\<forall>i<6. x ! i = y ! i))"

lemma coLocated_sound: "same_subnet a b \<Longrightarrow> truthy (coLocated a b)"
  by (auto simp: same_subnet_def coLocated_def)

text \<open>Two relays with IPv6 addresses always count as co-located: on different prefixes the function returns an object.\<close>

lemma coLocated_ipv6: "rse_ipv6 a \<noteq> None \<Longrightarrow> rse_ipv6 b \<noteq> None \<Longrightarrow> truthy (coLocated a b)"
  by (auto simp: coLocated_def)

lemma pickRandom_mem: "picks rnd \<Longrightarrow> pickRandom rnd xs = Some x \<Longrightarrow> x \<in> set xs"
  by (auto simp: pickRandom_def picks_def split: if_splits)

lemma filterCandidates_mem:
  "r \<in> set (filterCandidates rses fl ex av) \<longleftrightarrow> r \<in> set rses \<and> usableRelay r \<and> (fl = 0 \<or> hasAllFlags r fl)
    \<and> \<not> hasAnyFlag r FLAG_BAD_EXIT \<and> rse_fingerprint r \<notin> set ex \<and> (\<forall>other\<in>set av. \<not> truthy (coLocated r other))"
  by (auto simp: filterCandidates_def toHex_eq)

lemma filter_accept_mem:
  "filter_accept t a p rs = Inr xs \<Longrightarrow> r \<in> set xs \<Longrightarrow> r \<in> set rs \<and> evaluate (rse_exitPolicy r) t a p = Inr Accept"
  by (induction rs arbitrary: xs) (auto split: sum.splits if_splits)

lemma find_mem: "find P xs = Some x \<Longrightarrow> x \<in> set xs \<and> P x"
  by (induction xs) (auto split: if_splits)

text \<open>A relay that runs and is valid has the fingerprint.\<close>

definition in_consensus :: "rse list \<Rightarrow> bytes \<Rightarrow> bool" where
  "in_consensus rses fp \<longleftrightarrow> list_ex (\<lambda>r. rse_fingerprint r = fp \<and> usableRelay r) rses"

lemma selectGuard_spec:
  assumes "picks rnd" "selectGuard rnd rses eg = Some g"
  shows "g \<in> set rses
    \<and> (case filter (in_consensus rses) eg of
         fp # fps \<Rightarrow> rse_fingerprint g = fp \<and> in_consensus rses fp
       | [] \<Rightarrow> usableRelay g \<and> hasAllFlags g FLAG_GUARD \<and> \<not> hasAnyFlag g FLAG_BAD_EXIT)"
proof -
  have v: "filter (\<lambda>fp. find (\<lambda>r. rse_fingerprint r = fp \<and> usableRelay r) rses \<noteq> None) eg = filter (in_consensus rses) eg"
    by (rule filter_cong) (auto simp: in_consensus_def list_ex_iff find_None_iff)
  show ?thesis
  proof (cases "filter (in_consensus rses) eg")
    case (Cons fp fps)
    then have "find (\<lambda>r. rse_fingerprint r = fp) rses = Some g" using assms(2) unfolding selectGuard_def Let_def v by simp
    from find_mem [OF this] show ?thesis using filter_eq_ConsD [OF Cons] Cons by auto
  next
    case Nil
    then have "pickRandom rnd (filterCandidates rses FLAG_GUARD [] []) = Some g" using assms(2) unfolding selectGuard_def Let_def v by simp
    from pickRandom_mem [OF assms(1) this] show ?thesis using Nil by (simp add: filterCandidates_mem)
  qed
qed

lemma selectGuard_mem: "picks rnd \<Longrightarrow> selectGuard rnd rses eg = Some g \<Longrightarrow> g \<in> set rses"
  using selectGuard_spec by blast

text \<open>C14. A selected path is sound. Its three relays are of the consensus and have distinct fingerprints. Middle and exit are running,
  valid and not marked bad, the exit has its flag and its policy accepts the destination. The guard is pinned: when one of the
  client's guards is running and valid in the consensus, it is the first of these, and otherwise a running and valid relay with the
  guard flag that is not marked bad; in both cases a running and valid entry of the consensus has its fingerprint, so where
  fingerprints are unique the guard itself is running and valid. And unless the caller switches the check off, no two of the three
  share a /16 or a /48.\<close>

theorem path_sound:
  assumes "picks rndG" "picks rndE" "picks rndM"
    and "pickPath rndG rndE rndM rses addrType addr port eg skip = Inr (Some (guard, middle, exit))"
  shows "{guard, middle, exit} \<subseteq> set rses \<and> distinct (map rse_fingerprint [guard, middle, exit])
    \<and> usableRelay middle \<and> usableRelay exit \<and> \<not> hasAnyFlag middle FLAG_BAD_EXIT \<and> \<not> hasAnyFlag exit FLAG_BAD_EXIT
    \<and> hasAllFlags exit FLAG_EXIT \<and> evaluate (rse_exitPolicy exit) addrType addr port = Inr Accept
    \<and> (case filter (in_consensus rses) eg of
         fp # fps \<Rightarrow> rse_fingerprint guard = fp
       | [] \<Rightarrow> hasAllFlags guard FLAG_GUARD \<and> \<not> hasAnyFlag guard FLAG_BAD_EXIT)
    \<and> in_consensus rses (rse_fingerprint guard) \<and> (distinct (map rse_fingerprint rses) \<longrightarrow> usableRelay guard)
    \<and> (skip \<or> \<not> same_subnet exit guard \<and> \<not> same_subnet middle guard \<and> \<not> same_subnet middle exit)"
proof -
  let ?av = "if skip then [] else [guard]" and ?av2 = "if skip then [] else [guard, exit]"
  have g: "selectGuard rndG rses eg = Some guard"
    and e: "selectExit rndE rses addrType addr port [rse_fingerprint guard] ?av = Inr (Some exit)"
    and m: "selectMiddle rndM rses [rse_fingerprint guard, rse_fingerprint exit] ?av2 = Some middle"
    using assms(4) by (auto simp: pickPath_def split: option.splits sum.splits)
  obtain cs where cs: "filter_accept addrType addr port (filterCandidates rses FLAG_EXIT [rse_fingerprint guard] ?av) = Inr cs"
    "pickRandom rndE cs = Some exit"
    using e by (auto simp: selectExit_def split: sum.splits)
  have ex: "exit \<in> set (filterCandidates rses FLAG_EXIT [rse_fingerprint guard] ?av)"
    "evaluate (rse_exitPolicy exit) addrType addr port = Inr Accept"
    using filter_accept_mem [OF cs(1) pickRandom_mem [OF assms(2) cs(2)]] by simp_all
  have mi: "middle \<in> set (filterCandidates rses 0 [rse_fingerprint guard, rse_fingerprint exit] ?av2)"
    by (rule pickRandom_mem [OF assms(3) m [unfolded selectMiddle_def]])
  note gs = selectGuard_spec [OF assms(1) g]
  have one: "in_consensus rses (rse_fingerprint guard)"
    using gs by (auto simp: in_consensus_def list_ex_iff split: list.splits)
  have "usableRelay guard" if d: "distinct (map rse_fingerprint rses)"
  proof -
    obtain r where r: "r \<in> set rses" "rse_fingerprint r = rse_fingerprint guard" "usableRelay r"
      using one by (auto simp: in_consensus_def list_ex_iff)
    then have "r = guard" using gs d by (auto simp: distinct_map dest: inj_onD)
    then show ?thesis using r(3) by simp
  qed
  then show ?thesis
    using ex mi one gs coLocated_sound unfolding filterCandidates_mem
    by (cases skip; cases "filter (in_consensus rses) eg") auto
qed

text \<open>When every relay of the consensus has an IPv6 address no path is ever found, unless the anti-correlation check is
  switched off: whatever the prefixes are, any two of the relays count as co-located.\<close>

theorem ipv6_relays_no_path:
  assumes "list_all (\<lambda>r. rse_ipv6 r \<noteq> None) rses" "picks rndG"
  shows "pickPath rndG rndE rndM rses addrType addr port eg False = Inr None"
proof (cases "selectGuard rndG rses eg")
  case (Some g)
  have "g \<in> set rses" by (rule selectGuard_mem [OF assms(2) Some])
  then have none: "r \<notin> set (filterCandidates rses fl ex [g])" for r fl ex
    using assms(1) coLocated_ipv6 [of r g] by (auto simp: filterCandidates_mem list_all_iff)
  have "filterCandidates rses fl ex [g] = []" for fl ex
    using none [of "hd (filterCandidates rses fl ex [g])"] by (meson hd_in_set)
  then show ?thesis using Some by (simp add: pickPath_def selectExit_def pickRandom_def)
qed (simp add: pickPath_def)

section \<open>The round trip\<close>

definition con_header :: "int \<Rightarrow> int \<Rightarrow> int \<Rightarrow> nat \<Rightarrow> bytes" where
  "con_header va fu vu n = 2 # be_bytes 8 (nat (va mod 2 ^ 64)) @ be_bytes 8 (nat (fu mod 2 ^ 64)) @ be_bytes 8 (nat (vu mod 2 ^ 64)) @ [u8 n]"

lemma length_con_header [simp]: "length (con_header va fu vu n) = 26" by (simp add: con_header_def)

lemma buildSignedBytes_layout: "buildSignedBytes va fu vu n k rb = con_header va fu vu n @ be_bytes 4 k @ rb"
proof -
  have "zeros (1 + 8 * 3 + 1 + 4 + length rb) = 0 # zeros 8 @ zeros 8 @ zeros 8 @ [0] @ zeros 4 @ zeros (length rb)"
    by (simp add: zeros_def flip: replicate_add replicate_Suc)
  then show ?thesis
    by (simp add: buildSignedBytes_def Let_def writeBigUint64BE_def con_header_def layout set_at_front)
qed

definition sig_entry :: "crypto \<Rightarrow> bytes \<Rightarrow> da_signer \<Rightarrow> bytes" where
  "sig_entry C sb da = das_fingerprint da @ sign C sb (das_idSk da)"

lemma write_sigs_layout:
  "list_all (\<lambda>da. length (sig_entry C sb da) = 96 \<and> length (das_fingerprint da) = 32) das \<Longrightarrow> length pre = i * 96 \<Longrightarrow>
   write_sigs C sb das i (pre @ zeros (length das * 96)) = Inr (pre @ concat (map (sig_entry C sb) das))"
proof (induction das arbitrary: i pre)
  case (Cons da das)
  let ?e = "sig_entry C sb da"
  have l: "length (das_fingerprint da) = 32" "length (sign C sb (das_idSk da)) = 64" "length ?e = 96"
    using Cons.prems(1) by (simp_all add: sig_entry_def)
  have "set_all (pre @ zeros (96 + length das * 96)) [(i * 96, das_fingerprint da), (i * 96 + 32, sign C sb (das_idSk da))]
      = set_all ((pre @ das_fingerprint da) @ zeros (96 + length das * 96 - 32)) [(i * 96 + 32, sign C sb (das_idSk da))]"
    by (rule set_checked_field) (use l Cons.prems(2) in simp_all)
  also have "\<dots> = set_all (((pre @ das_fingerprint da) @ sign C sb (das_idSk da)) @ zeros (96 + length das * 96 - 32 - 64)) []"
    by (rule set_checked_field) (use l Cons.prems(2) in simp_all)
  finally have "set_all (pre @ zeros (96 + length das * 96)) [(i * 96, das_fingerprint da), (i * 96 + 32, sign C sb (das_idSk da))]
      = Inr ((pre @ ?e) @ zeros (length das * 96))" by (simp add: sig_entry_def)
  moreover have "write_sigs C sb das (i + 1) ((pre @ ?e) @ zeros (length das * 96)) = Inr ((pre @ ?e) @ concat (map (sig_entry C sb) das))"
    by (rule Cons.IH) (use Cons.prems l in simp_all)
  ultimately show ?case by (simp add: add.commute)
qed simp

lemma count_all:
  assumes "\<And>j. k \<le> j \<Longrightarrow> j < n \<Longrightarrow> toHex (subarray buf (26 + j * 96) (26 + j * 96 + 32)) = F j
      \<and> (\<exists>pk. map_get trust (F j) = Some pk \<and> verify C (subarray buf (26 + j * 96 + 32) (26 + j * 96 + 96)) sb pk)"
    and "inj_on F {k..<n}" "set seen \<inter> F ` {k..<n} = {}" "k \<le> n"
  shows "count_sigs C buf sb trust [k..<n] seen m = m + (n - k)"
  using assms(4,1-3)
proof (induction k arbitrary: seen m rule: inc_induct)
  case (step k)
  have up: "[k..<n] = k # [Suc k..<n]" using step.hyps(2) by (simp add: upt_rec)
  have k: "toHex (subarray buf (26 + k * 96) (26 + k * 96 + 32)) = F k"
    "\<exists>pk. map_get trust (F k) = Some pk \<and> verify C (subarray buf (26 + k * 96 + 32) (26 + k * 96 + 96)) sb pk"
    using step.prems(1) [of k] step.hyps(2) by simp_all
  have new: "F k \<notin> set seen" using step.prems(3) step.hyps(2) by auto
  have F: "F k \<notin> F ` {Suc k..<n}"
  proof
    assume "F k \<in> F ` {Suc k..<n}"
    then obtain j where j: "F k = F j" "Suc k \<le> j" "j < n" by auto
    then have "k = j" using inj_onD [OF step.prems(2) j(1)] step.hyps(2) by simp
    then show False using j(2) by simp
  qed
  have "count_sigs C buf sb trust [Suc k..<n] (F k # seen) (m + 1) = m + 1 + (n - Suc k)"
  proof (rule step.IH)
    show "inj_on F {Suc k..<n}" using step.prems(2) by (rule inj_on_subset) auto
    show "set (F k # seen) \<inter> F ` {Suc k..<n} = {}" using step.prems(3) F by auto
  qed (use step.prems(1) in auto)
  then show ?case unfolding up using k new step.hyps(2) by (auto simp: Let_def add.assoc)
qed simp

lemma length_concat_map: "(\<And>x. x \<in> set xs \<Longrightarrow> length (f x) = k) \<Longrightarrow> length (concat (map f xs)) = length xs * k"
  by (induction xs) simp_all

lemma entry_at:
  assumes "\<And>x. x \<in> set xs \<Longrightarrow> length (f x) = k" "j < length xs" "length pre = b"
  shows "subarray (pre @ concat (map f xs) @ post) (b + j * k) (b + j * k + i) = take i (f (xs ! j) @ concat (map f (drop (Suc j) xs)) @ post)"
proof -
  have "concat (map f xs) = concat (map f (take j xs)) @ f (xs ! j) @ concat (map f (drop (Suc j) xs))"
    using id_take_nth_drop [OF assms(2)] by (metis concat_append list.simps(9) concat.simps(2) map_append)
  moreover have "length (concat (map f (take j xs))) = j * k"
    using assms(1,2) length_concat_map [of "take j xs" f k] by (auto dest: in_set_takeD)
  ultimately show ?thesis using assms(3) by (simp add: subarray_def)
qed

definition trusted_signer :: "crypto \<Rightarrow> (string, bytes) jsmap \<Rightarrow> da_signer \<Rightarrow> bool" where
  "trusted_signer C trust da \<longleftrightarrow> length (das_fingerprint da) = 32 \<and> length (das_idSk da) = 32
     \<and> map_get trust (toHex (das_fingerprint da)) = Some (ed_public C (das_idSk da))"

lemma consensus_layout:
  fixes va fu vu :: int
  assumes "sig_correct C" "list_all rse_ok rses" "list_all (trusted_signer C trust) das"
  defines "rb \<equiv> concat (map rse_bytes rses)"
  defines "sb \<equiv> con_header va fu vu (length das) @ be_bytes 4 (length rses) @ rb"
  shows "buildConsensus C va fu vu rses das = Inr (con_header va fu vu (length das) @ concat (map (sig_entry C sb) das)
    @ be_bytes 4 (length rses) @ rb)"
proof -
  have parts: "map_res buildRse rses = Inr (map rse_bytes rses)"
    using assms(2) by (intro map_res_ok buildRse_layout) (simp add: list_all_iff)
  have e: "list_all (\<lambda>da. length (sig_entry C sb da) = 96 \<and> length (das_fingerprint da) = 32) das"
    using assms(1,3) by (auto simp: list_all_iff trusted_signer_def sig_entry_def length_sign)
  have sigs: "write_sigs C sb das 0 (zeros (length das * 96)) = Inr (concat (map (sig_entry C sb) das))"
    using write_sigs_layout [OF e, of "[]" 0] by simp
  let ?B = "concat (map (sig_entry C sb) das)"
  have l: "length ?B = length das * 96" by (rule length_concat_map) (use e in \<open>simp add: list_all_iff\<close>)
  have z: "zeros (1 + 8 * 3 + 1 + length ?B + 4 + length rb)
      = 0 # zeros 8 @ zeros 8 @ zeros 8 @ [0] @ zeros (length ?B) @ zeros 4 @ zeros (length rb)"
    by (simp add: zeros_def flip: replicate_add replicate_Suc)
  show ?thesis
    unfolding buildConsensus_def parts sum.case Let_def buildSignedBytes_layout
    using sigs z unfolding sb_def [symmetric] rb_def [symmetric]
    by (simp add: writeBigUint64BE_def con_header_def layout set_at_front l)
qed

lemma header_field:
  "0 \<le> v \<Longrightarrow> v < 2 ^ 53 \<Longrightarrow> js_number (be_val (be_bytes 8 (nat (v mod 2 ^ 64)))) = nat v"
proof -
  assume v: "0 \<le> v" "v < 2 ^ 53"
  then have "v mod 2 ^ 64 = v" by (intro mod_pos_pos_trivial) simp_all
  moreover have n: "nat v < 2 ^ 53" using v by (simp add: nat_less_iff)
  ultimately show ?thesis using js_number_small [OF n] by (simp add: be_val_be_bytes)
qed

lemma accepted_roundtrip:
  assumes "sig_correct C" "list_all rse_ok rses" "length rses < 2 ^ 32"
    and "list_all (trusted_signer C trust) das" "distinct (map das_fingerprint das)" "length das \<le> 255"
    and "map_size trust < 2 * length das" "0 \<le> va" "va \<le> now" "now \<le> vu" "vu < 2 ^ 53" "0 \<le> fu" "fu < 2 ^ 53"
  shows "\<exists>buf. buildConsensus C va fu vu rses das = Inr buf \<and> parseConsensus C buf trust now
    = Some \<lparr>cns_validAfter = nat va, cns_freshUntil = nat fu, cns_validUntil = nat vu, cns_rses = rses\<rparr>"
proof -
  let ?n = "length das" and ?rb = "concat (map rse_bytes rses)" and ?h = "con_header va fu vu (length das)"
  let ?k = "be_bytes 4 (length rses)"
  let ?sb = "?h @ ?k @ ?rb"
  let ?sigs = "concat (map (sig_entry C ?sb) das)"
  let ?buf = "?h @ ?sigs @ ?k @ ?rb"
  have e: "length (sig_entry C ?sb da) = 96" "length (das_fingerprint da) = 32" if "da \<in> set das" for da
    using that assms(1,4) by (auto simp: list_all_iff trusted_signer_def sig_entry_def length_sign)
  have l: "length ?sigs = ?n * 96" by (rule length_concat_map) (rule e)
  have b0: "?buf ! 0 = 2" "?buf ! 25 = u8 ?n" by (simp_all add: con_header_def nth_append)
  have n: "unat (?buf ! 25) = ?n" unfolding b0 using assms(6) by (simp add: unat_u8_id)
  have t: "readBigUint64BE ?buf 1 = nat va" "readBigUint64BE ?buf 9 = nat fu" "readBigUint64BE ?buf 17 = nat vu"
    using header_field [of va] header_field [of fu] header_field [of vu] assms(8-13)
    by (simp_all add: readBigUint64BE_def con_header_def subarray_def)
  have entry: "subarray ?buf (26 + j * 96) (26 + j * 96 + 32) = das_fingerprint (das ! j)"
    "subarray ?buf (26 + j * 96 + 32) (26 + j * 96 + 96) = sign C ?sb (das_idSk (das ! j))" if j: "j < ?n" for j
  proof -
    have d: "das ! j \<in> set das" using j by simp
    have a: "subarray ?buf (26 + j * 96) (26 + j * 96 + 96) = sig_entry C ?sb (das ! j)"
      using entry_at [where f = "sig_entry C ?sb" and k = 96 and pre = ?h and b = 26 and i = 96 and post = "?k @ ?rb", OF e(1) j] e(1) [OF d] by simp
    have "subarray ?buf (26 + j * 96) (26 + j * 96 + 32) = subarray (subarray ?buf (26 + j * 96) (26 + j * 96 + 96)) 0 32"
      using subarray_subarray [of "26 + j * 96" 32 "26 + j * 96 + 96" ?buf 0] by simp
    then show "subarray ?buf (26 + j * 96) (26 + j * 96 + 32) = das_fingerprint (das ! j)"
      unfolding a using e(2) [OF d] by (simp add: sig_entry_def subarray_def)
    have "subarray ?buf (26 + j * 96 + 32) (26 + j * 96 + 96) = subarray (subarray ?buf (26 + j * 96) (26 + j * 96 + 96)) 32 96"
      using subarray_subarray [of "26 + j * 96" 96 "26 + j * 96 + 96" ?buf 32] by simp
    then show "subarray ?buf (26 + j * 96 + 32) (26 + j * 96 + 96) = sign C ?sb (das_idSk (das ! j))"
      unfolding a using e [OF d] by (simp add: sig_entry_def subarray_def)
  qed
  have v: "\<exists>pk. map_get trust (toHex (das_fingerprint (das ! j))) = Some pk \<and> verify C (sign C ?sb (das_idSk (das ! j))) ?sb pk"
    if "j < ?n" for j
    using that assms(1,4) by (auto simp: list_all_length trusted_signer_def verify_sign)
  have inj: "inj_on (\<lambda>j. toHex (das_fingerprint (das ! j))) {0..<?n}"
  proof (rule inj_onI)
    fix x y assume "x \<in> {0..<?n}" "y \<in> {0..<?n}" "toHex (das_fingerprint (das ! x)) = toHex (das_fingerprint (das ! y))"
    then show "x = y" using nth_eq_iff_index_eq [OF assms(5), of x y] by (simp add: toHex_eq)
  qed
  have count: "count_sigs C ?buf ?sb trust [0..<?n] [] 0 = ?n"
    using count_all [of 0 ?n ?buf "\<lambda>j. toHex (das_fingerprint (das ! j))" trust C ?sb "[]" 0] entry v inj by simp
  have len: "26 + ?n * 96 + 4 \<le> length ?buf" using l by simp
  have view: "take 26 ?buf @ drop (26 + ?n * 96) ?buf = ?sb" using l by simp
  have k: "be_val (subarray ?buf (26 + ?n * 96) (26 + ?n * 96 + 4)) = length rses"
    using l assms(3) by (simp add: subarray_def be_val_be_bytes)
  have r: "read_n (parseRse ?buf) (length rses) (26 + ?n * 96 + 4) = Some (rses, length ?buf)"
    using rse.read_n_enc [OF assms(2), of "?h @ ?sigs @ ?k" "[]"] l by simp
  have "int (nat va) \<le> now" "now \<le> int (nat vu)" using assms(8-10) by simp_all
  then have "parseConsensus C ?buf trust now
    = Some \<lparr>cns_validAfter = nat va, cns_freshUntil = nat fu, cns_validUntil = nat vu, cns_rses = rses\<rparr>"
    using len parse_signed_view [OF len] view count k r n t b0(1) assms(7)
    unfolding parseConsensus_def Let_def by (simp del: append_assoc)
  then show ?thesis using consensus_layout [OF assms(1,2,4), of va fu vu] by blast
qed

text \<open>A document that a majority of the authorities signs is accepted through its validity window, with the times and the
  relay entries that went in.\<close>

theorem consensus_roundtrip:
  assumes "sig_correct C" "list_all rse_ok rses" "length rses < 2 ^ 32"
    and "list_all (trusted_signer C trust) das" "distinct (map das_fingerprint das)" "length das \<le> 255"
    and "map_size trust < 2 * length das" "0 \<le> va" "va \<le> now" "now \<le> vu" "vu < 2 ^ 53" "0 \<le> fu" "fu < 2 ^ 53"
  shows "\<exists>buf. buildConsensus C va fu vu rses das = Inr buf \<and> parseConsensus C buf trust now
    = Some \<lparr>cns_validAfter = nat va, cns_freshUntil = nat fu, cns_validUntil = nat vu, cns_rses = rses\<rparr>"
  by (rule accepted_roundtrip [OF assms])

section \<open>Instances\<close>

definition toy_da :: da_signer where "toy_da = \<lparr>das_idSk = zeros 32, das_fingerprint = zeros 32\<rparr>"

definition toy_trust :: "(string, bytes) jsmap" where
  "toy_trust = [(toHex (zeros 32), ed_public toy_crypto (zeros 32))]"

definition toy_rse :: "byte \<Rightarrow> bytes option \<Rightarrow> rse" where
  "toy_rse k ip6 = \<lparr>rse_fingerprint = [k], rse_idPk = [], rse_onionPk = [], rse_ipv4 = Some [k, 0, 0, 1, 0, 80], rse_ipv6 = ip6,
     rse_flags = 71, rse_exitPolicy = [\<lparr>rul_action = 1, rul_prefix = Any_Address, rul_portMin = 1, rul_portMax = 65535\<rparr>],
     rse_exitPolicyBytes = []\<rparr>"

lemma toy_signer: "list_all (trusted_signer toy_crypto toy_trust) [toy_da]" "map_size toy_trust < 2 * length [toy_da]"
  by (simp_all add: trusted_signer_def toy_da_def toy_trust_def map_get_def map_size_def)

theorem consensus_roundtrip_witness:
  "\<exists>buf. buildConsensus toy_crypto 100 150 200 [] [toy_da] = Inr buf \<and> parseConsensus toy_crypto buf toy_trust 120
    = Some \<lparr>cns_validAfter = 100, cns_freshUntil = 150, cns_validUntil = 200, cns_rses = []\<rparr>"
  using consensus_roundtrip [OF toy_sig_correct _ _ toy_signer(1) _ _ toy_signer(2), of "[]" 100 120 200 150] by simp

theorem consensus_agreement_witness:
  "\<exists>buf buf' c c' pk sig sig'. parseConsensus toy_crypto buf toy_trust 120 = Some c \<and> parseConsensus toy_crypto buf' toy_trust 220 = Some c'
    \<and> verify toy_crypto sig (signed_view buf) pk \<and> verify toy_crypto sig' (signed_view buf') pk"
proof -
  obtain b c where b: "parseConsensus toy_crypto b toy_trust 120 = Some c"
    using accepted_roundtrip [OF toy_sig_correct _ _ toy_signer(1) _ _ toy_signer(2), of "[]" 100 120 200 150] by auto
  obtain b' c' where b': "parseConsensus toy_crypto b' toy_trust 220 = Some c'"
    using accepted_roundtrip [OF toy_sig_correct _ _ toy_signer(1) _ _ toy_signer(2), of "[]" 200 220 300 250] by auto
  from consensus_agreement [OF b b'] b b' show ?thesis by blast
qed

lemma picks_first: "picks (\<lambda>_. 0)" by (simp add: picks_def)

theorem path_sound_witness:
  "\<exists>g m e. pickPath (\<lambda>_. 0) (\<lambda>_. 0) (\<lambda>_. 0) [toy_rse 1 None, toy_rse 2 None, toy_rse 3 None] 1 [127, 0, 0, 1] 80 [[9], [2], [1]] False
      = Inr (Some (g, m, e)) \<and> rse_fingerprint g = [2] \<and> usableRelay g
      \<and> \<not> same_subnet e g \<and> \<not> same_subnet m g \<and> \<not> same_subnet m e"
proof -
  have p: "pickPath (\<lambda>_. 0) (\<lambda>_. 0) (\<lambda>_. 0) [toy_rse 1 None, toy_rse 2 None, toy_rse 3 None] 1 [127, 0, 0, 1] 80 [[9], [2], [1]] False
      = Inr (Some (toy_rse 2 None, toy_rse 3 None, toy_rse 1 None))"
    by (simp add: pickPath_def selectGuard_def selectExit_def selectMiddle_def filterCandidates_def pickRandom_def usableRelay_def
        hasAllFlags_def hasAnyFlag_def coLocated_def toy_rse_def toHex_eq evaluate_def prefixMatches_def)
  have d: "distinct (map rse_fingerprint [toy_rse 1 None, toy_rse 2 None, toy_rse 3 None])" by (simp add: toy_rse_def)
  have f: "rse_fingerprint (toy_rse 2 None) = [2]" by (simp add: toy_rse_def)
  from path_sound [OF picks_first picks_first picks_first p] p d f show ?thesis by blast
qed

theorem ipv6_relays_no_path_witness:
  "pickPath (\<lambda>_. 0) (\<lambda>_. 0) (\<lambda>_. 0) (map (\<lambda>k. toy_rse k (Some (k # zeros 17))) [1, 2, 3]) 1 [127, 0, 0, 1] 80 [] False = Inr None"
  by (rule ipv6_relays_no_path) (simp_all add: picks_def toy_rse_def)

end
