(* ===== verification/V2_Descriptor.thy ===== *)
theory V2_Descriptor
  imports V2_Onion_Address Codec JsMap
begin

text \<open>
  \<open>modules/v2/descriptor.mjs\<close>: the two formats of service descriptors, Ed25519 only (version 2) and Ed25519 with ML-DSA
  (version 3), their builders, parsers and verifiers; \<open>modules/v2/service.mjs\<close>: the identity of a service; and
  \<open>modules/v2-runtime/descriptor_index.mjs\<close>: the index of descriptors by address. The file system is an argument of the
  index. A clock is an integer number of seconds.
\<close>

section \<open>Constants\<close>

definition DESCRIPTOR_VERSION :: byte where [simp]: "DESCRIPTOR_VERSION = 0x02"
definition DESCRIPTOR_VERSION_PQ :: byte where [simp]: "DESCRIPTOR_VERSION_PQ = 0x03"
definition LEN_ENC_MLKEM :: nat where [simp]: "LEN_ENC_MLKEM = 1184"
definition LEN_INTRO_POINT :: nat where [simp]: "LEN_INTRO_POINT = 32 + 32 + 32 + 32 + LEN_ENC_MLKEM"
definition LEN_DESCRIPTOR_HEADER :: nat where [simp]: "LEN_DESCRIPTOR_HEADER = 1 + 32 + 8 + 4 + 1"
definition LEN_SIGNATURE :: nat where [simp]: "LEN_SIGNATURE = 64"
definition MAX_INTRO_POINTS :: nat where [simp]: "MAX_INTRO_POINTS = 255"
definition LEN_HYBRID_SIG :: nat where [simp]: "LEN_HYBRID_SIG = ED25519_SIG_BYTES + MLDSA_SIG_BYTES"
definition LEN_DESCRIPTOR_HEADER_V3 :: nat where [simp]:
  "LEN_DESCRIPTOR_HEADER_V3 = 1 + ED25519_PK_BYTES + MLDSA_PK_BYTES + 8 + 4 + 1"

section \<open>Introduction points\<close>

record intro_point =
  ip_fingerprint :: bytes
  ip_ipOnionPk :: bytes
  ip_serviceIntroKey :: bytes
  ip_serviceEncX25519Pk :: bytes
  ip_serviceEncMlkemPk :: bytes

definition validateIntroPoint :: "intro_point \<Rightarrow> unit res" where
  "validateIntroPoint ip =
     (if length (ip_fingerprint ip) \<noteq> 32 then Inl (Error ''intro-point fingerprint must be a 32-byte Uint8Array'')
      else if length (ip_ipOnionPk ip) \<noteq> 32 then Inl (Error ''intro-point ipOnionPk must be a 32-byte Uint8Array'')
      else if length (ip_serviceIntroKey ip) \<noteq> 32
      then Inl (Error ''intro-point serviceIntroKey must be a 32-byte Ed25519 public key'')
      else if length (ip_serviceEncX25519Pk ip) \<noteq> 32
      then Inl (Error ''intro-point serviceEncX25519Pk must be a 32-byte X25519 public key'')
      else if length (ip_serviceEncMlkemPk ip) \<noteq> LEN_ENC_MLKEM
      then Inl (Error ''intro-point serviceEncMlkemPk must be a 1184-byte ML-KEM-768 public key'')
      else Inr ())"

definition writeIntroPoint :: "bytes \<Rightarrow> nat \<Rightarrow> intro_point \<Rightarrow> bytes" where
  "writeIntroPoint buf off ip =
     (let buf = set_at buf off (ip_fingerprint ip);
          buf = set_at buf (off + 32) (ip_ipOnionPk ip);
          buf = set_at buf (off + 64) (ip_serviceIntroKey ip);
          buf = set_at buf (off + 96) (ip_serviceEncX25519Pk ip)
      in set_at buf (off + 128) (ip_serviceEncMlkemPk ip))"

definition readIntroPoint :: "bytes \<Rightarrow> nat \<Rightarrow> intro_point" where
  "readIntroPoint buf off =
     \<lparr>ip_fingerprint = subarray buf off (off + 32), ip_ipOnionPk = subarray buf (off + 32) (off + 64),
      ip_serviceIntroKey = subarray buf (off + 64) (off + 96), ip_serviceEncX25519Pk = subarray buf (off + 96) (off + 128),
      ip_serviceEncMlkemPk = subarray buf (off + 128) (off + LEN_INTRO_POINT)\<rparr>"

text \<open>The two loops over the introduction points.\<close>

fun write_intro_points :: "bytes \<Rightarrow> nat \<Rightarrow> intro_point list \<Rightarrow> bytes" where
  "write_intro_points buf off [] = buf"
| "write_intro_points buf off (ip # ips) = write_intro_points (writeIntroPoint buf off ip) (off + LEN_INTRO_POINT) ips"

fun read_intro_points :: "bytes \<Rightarrow> nat \<Rightarrow> nat \<Rightarrow> intro_point list \<times> nat" where
  "read_intro_points buf off 0 = ([], off)"
| "read_intro_points buf off (Suc n) =
     (let ip = readIntroPoint buf off; (ips, off') = read_intro_points buf (off + LEN_INTRO_POINT) n in (ip # ips, off'))"

section \<open>Building\<close>

definition buildServiceDescriptor :: "crypto \<Rightarrow> bytes \<Rightarrow> bytes \<Rightarrow> int \<Rightarrow> int \<Rightarrow> intro_point list \<Rightarrow> bytes res" where
  "buildServiceDescriptor C SVC_sk SVC_pk publishEpoch lifetimeSeconds introPoints =
     (if length SVC_sk \<noteq> 32 then Inl (Error ''SVC_sk must be a 32-byte Uint8Array'')
      else if length SVC_pk \<noteq> 32 then Inl (Error ''SVC_pk must be a 32-byte Uint8Array'')
      else if lifetimeSeconds < 0 \<or> lifetimeSeconds > 0xFFFFFFFF then Inl (Error ''lifetimeSeconds must be a u32'')
      else if length introPoints > MAX_INTRO_POINTS then Inl (Error ''intro-point count exceeds 255'')
      else
        (case map_res validateIntroPoint introPoints of
           Inl e \<Rightarrow> Inl e
         | Inr _ \<Rightarrow>
             let headerLen = LEN_DESCRIPTOR_HEADER + length introPoints * LEN_INTRO_POINT;
                 buf = zeros headerLen; off = 0;
                 buf = buf[off := DESCRIPTOR_VERSION]; off = off + 1;
                 buf = set_at buf off SVC_pk; off = off + 32;
                 buf = writeBigUint64BE buf off publishEpoch; off = off + 8;
                 buf = set_at buf off (be_bytes 4 (nat lifetimeSeconds)); off = off + 4;
                 buf = buf[off := u8 (length introPoints)]; off = off + 1;
                 signedRegion = write_intro_points buf off introPoints;
                 signature = sign C signedRegion SVC_sk;
                 out = set_at (zeros (headerLen + LEN_SIGNATURE)) 0 signedRegion
             in Inr (set_at out headerLen signature)))"

definition buildServiceDescriptorV3 ::
  "crypto \<Rightarrow> bytes \<Rightarrow> bytes \<Rightarrow> bytes \<Rightarrow> bytes \<Rightarrow> int \<Rightarrow> int \<Rightarrow> intro_point list \<Rightarrow> bytes res" where
  "buildServiceDescriptorV3 C SVC_sk_ed SVC_pk_ed SVC_sk_mldsa SVC_pk_mldsa publishEpoch lifetimeSeconds introPoints =
     (if length SVC_sk_ed \<noteq> 32 then Inl (Error ''SVC_sk_ed must be a 32-byte Uint8Array'')
      else if length SVC_pk_ed \<noteq> ED25519_PK_BYTES then Inl (Error ''SVC_pk_ed must be a 32-byte Uint8Array'')
      else if length SVC_pk_mldsa \<noteq> MLDSA_PK_BYTES then Inl (Error ''SVC_pk_mldsa must be a 1952-byte Uint8Array'')
      else if lifetimeSeconds < 0 \<or> lifetimeSeconds > 0xFFFFFFFF then Inl (Error ''lifetimeSeconds must be a u32'')
      else if length introPoints > MAX_INTRO_POINTS then Inl (Error ''intro-point count exceeds 255'')
      else
        (case map_res validateIntroPoint introPoints of
           Inl e \<Rightarrow> Inl e
         | Inr _ \<Rightarrow>
             let headerLen = LEN_DESCRIPTOR_HEADER_V3 + length introPoints * LEN_INTRO_POINT;
                 buf = zeros headerLen; off = 0;
                 buf = buf[off := DESCRIPTOR_VERSION_PQ]; off = off + 1;
                 buf = set_at buf off SVC_pk_ed; off = off + ED25519_PK_BYTES;
                 buf = set_at buf off SVC_pk_mldsa; off = off + MLDSA_PK_BYTES;
                 buf = writeBigUint64BE buf off publishEpoch; off = off + 8;
                 buf = set_at buf off (be_bytes 4 (nat lifetimeSeconds)); off = off + 4;
                 buf = buf[off := u8 (length introPoints)]; off = off + 1;
                 signedRegion = write_intro_points buf off introPoints;
                 (edSig, mldsaSig) = hybridSign C signedRegion SVC_sk_ed SVC_sk_mldsa;
                 out = set_at (zeros (headerLen + ED25519_SIG_BYTES + MLDSA_SIG_BYTES)) 0 signedRegion;
                 out = set_at out headerLen edSig
             in Inr (set_at out (headerLen + ED25519_SIG_BYTES) mldsaSig)))"

section \<open>Parsing\<close>

record descriptor_v2 =
  d2_SVC_pk :: bytes
  d2_publishEpoch :: nat
  d2_lifetimeSeconds :: nat
  d2_introPoints :: "intro_point list"
  d2_signature :: bytes
  d2_signedRegion :: bytes

record descriptor_v3 =
  d3_SVC_pk_ed :: bytes
  d3_SVC_pk_mldsa :: bytes
  d3_publishEpoch :: nat
  d3_lifetimeSeconds :: nat
  d3_introPoints :: "intro_point list"
  d3_edSig :: bytes
  d3_mldsaSig :: bytes
  d3_signedRegion :: bytes

text \<open>A parsed descriptor, by its field \<open>version\<close>.\<close>

datatype descriptor = Version_2 descriptor_v2 | Version_3 descriptor_v3

definition parseServiceDescriptor :: "bytes \<Rightarrow> descriptor option" where
  "parseServiceDescriptor buf =
     (if length buf < LEN_DESCRIPTOR_HEADER + LEN_SIGNATURE then None
      else if buf ! 0 \<noteq> DESCRIPTOR_VERSION then None
      else
        let off = 1;
            SVC_pk = subarray buf off (off + 32); off = off + 32;
            publishEpoch = readBigUint64BE buf off; off = off + 8;
            lifetimeSeconds = be_val (subarray buf off (off + 4)); off = off + 4;
            introCount = unat (buf ! off); off = off + 1;
            expectedLen = LEN_DESCRIPTOR_HEADER + introCount * LEN_INTRO_POINT + LEN_SIGNATURE
        in if length buf \<noteq> expectedLen then None
           else
             let (introPoints, off) = read_intro_points buf off introCount
             in Some (Version_2 \<lparr>d2_SVC_pk = SVC_pk, d2_publishEpoch = publishEpoch, d2_lifetimeSeconds = lifetimeSeconds,
                  d2_introPoints = introPoints, d2_signature = subarray buf off (off + LEN_SIGNATURE),
                  d2_signedRegion = subarray buf 0 off\<rparr>))"

definition parseServiceDescriptorV3 :: "bytes \<Rightarrow> descriptor option" where
  "parseServiceDescriptorV3 buf =
     (if length buf < LEN_DESCRIPTOR_HEADER_V3 + LEN_HYBRID_SIG then None
      else if buf ! 0 \<noteq> DESCRIPTOR_VERSION_PQ then None
      else
        let off = 1;
            SVC_pk_ed = subarray buf off (off + ED25519_PK_BYTES); off = off + ED25519_PK_BYTES;
            SVC_pk_mldsa = subarray buf off (off + MLDSA_PK_BYTES); off = off + MLDSA_PK_BYTES;
            publishEpoch = readBigUint64BE buf off; off = off + 8;
            lifetimeSeconds = be_val (subarray buf off (off + 4)); off = off + 4;
            introCount = unat (buf ! off); off = off + 1;
            expectedLen = LEN_DESCRIPTOR_HEADER_V3 + introCount * LEN_INTRO_POINT + LEN_HYBRID_SIG
        in if length buf \<noteq> expectedLen then None
           else
             let (introPoints, off) = read_intro_points buf off introCount;
                 edSig = subarray buf off (off + ED25519_SIG_BYTES); off = off + ED25519_SIG_BYTES;
                 mldsaSig = subarray buf off (off + MLDSA_SIG_BYTES)
             in Some (Version_3 \<lparr>d3_SVC_pk_ed = SVC_pk_ed, d3_SVC_pk_mldsa = SVC_pk_mldsa, d3_publishEpoch = publishEpoch,
                  d3_lifetimeSeconds = lifetimeSeconds, d3_introPoints = introPoints, d3_edSig = edSig, d3_mldsaSig = mldsaSig,
                  d3_signedRegion = subarray buf 0 (length buf - LEN_HYBRID_SIG)\<rparr>))"

definition parseServiceDescriptorAny :: "bytes \<Rightarrow> descriptor option" where
  "parseServiceDescriptorAny buf =
     (if length buf < 1 then None
      else if buf ! 0 = DESCRIPTOR_VERSION then parseServiceDescriptor buf
      else if buf ! 0 = DESCRIPTOR_VERSION_PQ then parseServiceDescriptorV3 buf
      else None)"

section \<open>Verifying\<close>

text \<open>The sum of the two times is a double: exact below \<open>2 ^ 53\<close> and rounded above.\<close>

definition verifyServiceDescriptorV2 :: "crypto \<Rightarrow> descriptor option \<Rightarrow> int \<Rightarrow> bytes option \<Rightarrow> bool" where
  "verifyServiceDescriptorV2 C parsed nowEpoch expectedSvcPk =
     (case parsed of
        Some (Version_2 d) \<Rightarrow>
          if (case expectedSvcPk of None \<Rightarrow> False | Some pk \<Rightarrow> length pk \<noteq> 32 \<or> xor_diff pk (d2_SVC_pk d) 0 \<noteq> 0) then False
          else if nowEpoch < int (d2_publishEpoch d) then False
          else if nowEpoch > int (js_number (d2_publishEpoch d + d2_lifetimeSeconds d)) then False
          else verify C (d2_signature d) (d2_signedRegion d) (d2_SVC_pk d)
      | _ \<Rightarrow> False)"

definition verifyServiceDescriptorV3 :: "crypto \<Rightarrow> descriptor option \<Rightarrow> int \<Rightarrow> string option \<Rightarrow> bool" where
  "verifyServiceDescriptorV3 C parsed nowEpoch expectedAddress =
     (case parsed of
        Some (Version_3 d) \<Rightarrow>
          if (case expectedAddress of None \<Rightarrow> False
              | Some a \<Rightarrow> \<not> verifyAddressBindsPubkeys C a (d3_SVC_pk_ed d) (d3_SVC_pk_mldsa d)) then False
          else if nowEpoch < int (d3_publishEpoch d) then False
          else if nowEpoch > int (js_number (d3_publishEpoch d + d3_lifetimeSeconds d)) then False
          else hybridVerify C (d3_signedRegion d) (d3_SVC_pk_ed d) (d3_SVC_pk_mldsa d) (d3_edSig d) (d3_mldsaSig d)
      | _ \<Rightarrow> False)"

definition verifyServiceDescriptor :: "crypto \<Rightarrow> descriptor option \<Rightarrow> int \<Rightarrow> bytes option \<Rightarrow> string option \<Rightarrow> bool" where
  "verifyServiceDescriptor C parsed nowEpoch expectedSvcPk expectedAddress =
     (case parsed of
        None \<Rightarrow> False
      | Some (Version_2 d) \<Rightarrow> verifyServiceDescriptorV2 C parsed nowEpoch expectedSvcPk
      | Some (Version_3 d) \<Rightarrow> verifyServiceDescriptorV3 C parsed nowEpoch expectedAddress)"

section \<open>The identity of a service\<close>

record service_identity =
  svc_SVC_sk :: bytes
  svc_SVC_pk :: bytes
  svc_onionAddress :: string
  svc_descriptorLookupKey :: bytes

text \<open>The argument is the random secret key.\<close>

definition createServiceIdentity :: "crypto \<Rightarrow> bytes \<Rightarrow> service_identity res" where
  "createServiceIdentity C SVC_sk =
     (let SVC_pk = ed_public C SVC_sk
      in (case encodeOnionAddress C SVC_pk of
            Inl e \<Rightarrow> Inl e
          | Inr a \<Rightarrow> Inr \<lparr>svc_SVC_sk = SVC_sk, svc_SVC_pk = SVC_pk, svc_onionAddress = a,
              svc_descriptorLookupKey = fingerprint C SVC_pk\<rparr>))"

definition loadServiceIdentity :: "crypto \<Rightarrow> bytes \<Rightarrow> service_identity res" where
  "loadServiceIdentity C SVC_sk =
     (if length SVC_sk \<noteq> 32 then Inl (Error ''SVC_sk must be a 32-byte Uint8Array'')
      else
        let SVC_pk = ed_public C SVC_sk
        in (case encodeOnionAddress C SVC_pk of
              Inl e \<Rightarrow> Inl e
            | Inr a \<Rightarrow> Inr \<lparr>svc_SVC_sk = SVC_sk, svc_SVC_pk = SVC_pk, svc_onionAddress = a,
                svc_descriptorLookupKey = fingerprint C SVC_pk\<rparr>))"

section \<open>The index of descriptors\<close>

definition addressForDescriptor :: "crypto \<Rightarrow> descriptor option \<Rightarrow> string option res" where
  "addressForDescriptor C d =
     (case d of
        None \<Rightarrow> Inr None
      | Some (Version_2 d) \<Rightarrow> (case encodeOnionAddress C (d2_SVC_pk d) of Inl e \<Rightarrow> Inl e | Inr a \<Rightarrow> Inr (Some a))
      | Some (Version_3 d) \<Rightarrow>
          (case encodeOnionAddressV3 C (d3_SVC_pk_ed d) (d3_SVC_pk_mldsa d) of Inl e \<Rightarrow> Inl e | Inr a \<Rightarrow> Inr (Some a)))"

text \<open>\<open>String.prototype.trim\<close> on 8-bit characters.\<close>

definition is_space :: "char \<Rightarrow> bool" where
  "is_space c \<longleftrightarrow> char_code c \<in> {9, 10, 11, 12, 13, 32, 160}"

definition js_trim :: "string \<Rightarrow> string" where
  "js_trim s = rev (dropWhile is_space (rev (dropWhile is_space s)))"

definition normaliseHost :: "string \<Rightarrow> string" where
  "normaliseHost host = toLowerCase (js_trim host)"

text \<open>What the file system answers: the entries of a directory, whether a path is a regular file, the content of a file
  (None where the call throws), and \<open>join\<close>.\<close>

record file_system =
  fs_readdir :: "string \<Rightarrow> string list option"
  fs_isFile :: "string \<Rightarrow> bool option"
  fs_readFile :: "string \<Rightarrow> bytes option"
  fs_join :: "string \<Rightarrow> string \<Rightarrow> string"

text \<open>The descriptor and its address, or None for \<open>{ok: false}\<close>.\<close>

definition tryLoadDescriptor :: "crypto \<Rightarrow> file_system \<Rightarrow> string \<Rightarrow> (descriptor \<times> string) option res" where
  "tryLoadDescriptor C fs path =
     (case fs_readFile fs path of
        None \<Rightarrow> Inr None
      | Some bytes \<Rightarrow>
          (case parseServiceDescriptorAny bytes of
             None \<Rightarrow> Inr None
           | Some descriptor \<Rightarrow>
               (case addressForDescriptor C (Some descriptor) of
                  Inl e \<Rightarrow> Inl e
                | Inr None \<Rightarrow> Inr None
                | Inr (Some address) \<Rightarrow> Inr (Some (descriptor, address)))))"

definition index_add :: "descriptor \<Rightarrow> string \<Rightarrow> (string, descriptor) jsmap \<Rightarrow> (string, descriptor) jsmap" where
  "index_add descriptor address byAddress =
     (let norm = normaliseHost address
      in if map_has byAddress norm then byAddress else map_set norm descriptor byAddress)"

text \<open>The files of the directory that are indexed.\<close>

definition bin_files :: "file_system \<Rightarrow> string \<Rightarrow> string list \<Rightarrow> string list" where
  "bin_files fs dir entries =
     map (fs_join fs dir) (filter (\<lambda>name. (4 \<le> length name \<and> drop (length name - 4) name = ''.bin'')
       \<and> fs_isFile fs (fs_join fs dir name) = Some True) entries)"

fun index_load :: "crypto \<Rightarrow> file_system \<Rightarrow> string list \<Rightarrow> (string, descriptor) jsmap \<Rightarrow> (string, descriptor) jsmap res" where
  "index_load C fs [] byAddress = Inr byAddress"
| "index_load C fs (path # paths) byAddress =
     (case tryLoadDescriptor C fs path of
        Inl e \<Rightarrow> Inl e
      | Inr None \<Rightarrow> index_load C fs paths byAddress
      | Inr (Some (descriptor, address)) \<Rightarrow> index_load C fs paths (index_add descriptor address byAddress))"

definition createDescriptorIndex :: "crypto \<Rightarrow> file_system \<Rightarrow> string list \<Rightarrow> string option \<Rightarrow> (string, descriptor) jsmap res" where
  "createDescriptorIndex C fs paths dir =
     (case (case dir of
              None \<Rightarrow> Inr paths
            | Some d \<Rightarrow>
                (case fs_readdir fs d of
                   None \<Rightarrow> Inl (Error ''descriptor dir not readable'')
                 | Some entries \<Rightarrow> Inr (paths @ bin_files fs d entries))) of
        Inl e \<Rightarrow> Inl e
      | Inr allPaths \<Rightarrow>
          (case index_load C fs allPaths [] of
             Inl e \<Rightarrow> Inl e
           | Inr byAddress \<Rightarrow>
               if map_size byAddress = 0 then Inl (Error ''descriptor index is empty'') else Inr byAddress))"

definition stripSuffix :: "string \<Rightarrow> string" where
  "stripSuffix host =
     (let h = normaliseHost host
      in if 5 \<le> length h \<and> drop (length h - 5) h = ONION_ADDR_SUFFIX then take (length h - 5) h else h)"

definition index_lookup :: "(string, descriptor) jsmap \<Rightarrow> string \<Rightarrow> descriptor option" where
  "index_lookup byAddress host =
     (let full = normaliseHost host
      in if map_has byAddress full then map_get byAddress full
         else
           let reAdded = stripSuffix full @ ONION_ADDR_SUFFIX
           in if map_has byAddress reAdded then map_get byAddress reAdded else None)"

end
