(* ===== verification/V2_Descriptor_Props.thy ===== *)
theory V2_Descriptor_Props
  imports V2_Descriptor V2_Onion_Address_Props
begin

text \<open>
  What a parsed and verified descriptor says, the round trip of the post-quantum format, and what the index of descriptors
  answers.
\<close>

section \<open>Introduction points\<close>

definition ip_ok :: "intro_point \<Rightarrow> bool" where
  "ip_ok ip \<longleftrightarrow> length (ip_fingerprint ip) = 32 \<and> length (ip_ipOnionPk ip) = 32 \<and> length (ip_serviceIntroKey ip) = 32
     \<and> length (ip_serviceEncX25519Pk ip) = 32 \<and> length (ip_serviceEncMlkemPk ip) = 1184"

definition ip_bytes :: "intro_point \<Rightarrow> bytes" where
  "ip_bytes ip = ip_fingerprint ip @ ip_ipOnionPk ip @ ip_serviceIntroKey ip @ ip_serviceEncX25519Pk ip @ ip_serviceEncMlkemPk ip"

lemma length_ip_bytes: "ip_ok ip \<Longrightarrow> length (ip_bytes ip) = 1312"
  by (simp add: ip_ok_def ip_bytes_def)

lemma validate_ok: "validateIntroPoint ip = (if ip_ok ip then Inr () else validateIntroPoint ip)"
  by (simp add: validateIntroPoint_def ip_ok_def)

lemma validate_Inr: "validateIntroPoint ip = Inr u \<longleftrightarrow> ip_ok ip"
  by (auto simp: validateIntroPoint_def ip_ok_def)

lemma validate_all: "(\<exists>us. map_res validateIntroPoint ips = Inr us) \<longleftrightarrow> list_all ip_ok ips"
proof (induction ips)
  case (Cons ip ips)
  show ?case
    using Cons by (cases "validateIntroPoint ip") (auto simp: validate_Inr split: sum.splits dest: validate_Inr [THEN iffD2])
qed simp

lemma write_intro_point:
  "ip_ok ip \<Longrightarrow> off = length pre \<Longrightarrow> 1312 \<le> n \<Longrightarrow> writeIntroPoint (pre @ zeros n) off ip = pre @ ip_bytes ip @ zeros (n - 1312)"
  by (simp add: writeIntroPoint_def Let_def ip_ok_def ip_bytes_def layout)

lemma write_all:
  "list_all ip_ok ips \<Longrightarrow> off = length pre \<Longrightarrow>
   write_intro_points (pre @ zeros (length ips * 1312)) off ips = pre @ concat (map ip_bytes ips)"
proof (induction ips arbitrary: pre off)
  case (Cons ip ips)
  have w: "writeIntroPoint (pre @ zeros (1312 + length ips * 1312)) (length pre) ip = (pre @ ip_bytes ip) @ zeros (length ips * 1312)"
    using Cons.prems by (simp add: write_intro_point)
  show ?case using Cons.prems Cons.IH [of "off + 1312" "pre @ ip_bytes ip"] by (simp add: w [simplified] length_ip_bytes)
qed simp

text \<open>The reading loop, as a cursor over records.\<close>

definition ip_at :: "bytes \<Rightarrow> nat \<Rightarrow> (intro_point \<times> nat) option" where
  "ip_at buf off = (if off + 1312 \<le> length buf then Some (readIntroPoint buf off, off + 1312) else None)"

lemma read_loop: "off + n * 1312 \<le> length buf \<Longrightarrow> read_n (ip_at buf) n off = Some (read_intro_points buf off n)"
  by (induction n arbitrary: off) (simp_all add: ip_at_def Let_def split: prod.splits)

lemma ip_at_bytes:
  assumes "ip_ok ip"
  shows "ip_at (pre @ ip_bytes ip @ post) (length pre) = Some (ip, length pre + length (ip_bytes ip))"
  using assms by (simp add: ip_at_def readIntroPoint_def ip_ok_def ip_bytes_def subarray_def)

lemma ip_at_sound:
  assumes "ip_at buf off = Some (ip, off')"
  shows "ip_ok ip \<and> off \<le> off' \<and> off' \<le> length buf \<and> subarray buf off off' = ip_bytes ip"
proof -
  have l: "off + 1312 \<le> length buf" and ip: "ip = readIntroPoint buf off" and o: "off' = off + 1312"
    using assms by (auto simp: ip_at_def split: if_splits)
  have "ip_bytes ip = subarray buf off (off + 1312)" by (simp add: ip readIntroPoint_def ip_bytes_def subarray_join)
  then show ?thesis using l by (simp add: o ip readIntroPoint_def ip_ok_def)
qed

interpretation ip: record_codec ip_bytes ip_at ip_ok
  by unfold_locales (simp_all add: ip_at_bytes ip_at_sound)

lemma read_loop_end: "snd (read_intro_points buf off n) = off + n * 1312"
  by (induction n arbitrary: off) (simp_all add: Let_def case_prod_unfold)

lemma read_loop_sound:
  assumes "off + n * 1312 \<le> length buf" "read_intro_points buf off n = (ips, off')"
  shows "list_all ip_ok ips \<and> length ips = n \<and> off' = off + n * 1312 \<and> subarray buf off off' = concat (map ip_bytes ips)"
proof -
  have r: "read_n (ip_at buf) n off = Some (ips, off')" using read_loop [OF assms(1)] assms(2) by simp
  show ?thesis using ip.read_n_sound [OF r] read_n_length [OF r] read_loop_end [of buf off n] assms by simp
qed

lemma read_loop_bytes:
  assumes "list_all ip_ok ips" "off = length pre" "n = length ips"
  shows "read_intro_points (pre @ concat (map ip_bytes ips) @ post) off n = (ips, off + n * 1312)"
proof -
  have l: "length (concat (map ip_bytes ips)) = length ips * 1312"
    using assms(1) by (induction ips) (simp_all add: length_ip_bytes)
  have "read_n (ip_at (pre @ concat (map ip_bytes ips) @ post)) n off = Some (ips, off + length (concat (map ip_bytes ips)))"
    using ip.read_n_enc [OF assms(1), of pre post] assms by simp
  moreover have "off + n * 1312 \<le> length (pre @ concat (map ip_bytes ips) @ post)" using assms l by simp
  ultimately show ?thesis using read_loop [of off n "pre @ concat (map ip_bytes ips) @ post"] l assms(3) by simp
qed

section \<open>The signed region\<close>

definition region :: "byte \<Rightarrow> bytes \<Rightarrow> nat \<Rightarrow> nat \<Rightarrow> intro_point list \<Rightarrow> bytes" where
  "region v keys epoch lifetime ips =
     v # keys @ be_bytes 8 epoch @ be_bytes 4 lifetime @ [u8 (length ips)] @ concat (map ip_bytes ips)"

lemma length_ips: "list_all ip_ok ips \<Longrightarrow> length (concat (map ip_bytes ips)) = length ips * 1312"
  by (induction ips) (simp_all add: length_ip_bytes)

text \<open>A buffer of the right length, cut where the parser cuts it.\<close>

lemma region_of_buffer:
  assumes "length buf = k + 14 + unat (buf ! (k + 13)) * 1312 + s" "read_intro_points buf (k + 14) (unat (buf ! (k + 13))) = (ips, off)"
  shows "off = k + 14 + unat (buf ! (k + 13)) * 1312 \<and> list_all ip_ok ips
    \<and> subarray buf 0 off = region (buf ! 0) (subarray buf 1 (k + 1)) (be_val (subarray buf (k + 1) (k + 9)))
        (be_val (subarray buf (k + 9) (k + 13))) ips"
proof -
  let ?n = "unat (buf ! (k + 13))"
  have r: "list_all ip_ok ips" "length ips = ?n" "off = k + 14 + ?n * 1312" "subarray buf (k + 14) off = concat (map ip_bytes ips)"
  proof -
    have "k + 14 + ?n * 1312 \<le> length buf" using assms(1) by simp
    from read_loop_sound [OF this assms(2)]
    show "list_all ip_ok ips" "length ips = ?n" "off = k + 14 + ?n * 1312" "subarray buf (k + 14) off = concat (map ip_bytes ips)"
      by blast+
  qed
  have f: "be_bytes 8 (be_val (subarray buf (k + 1) (k + 9))) = subarray buf (k + 1) (k + 9)"
    "be_bytes 4 (be_val (subarray buf (k + 9) (k + 13))) = subarray buf (k + 9) (k + 13)"
    by (rule be_bytes_be_val_n, use assms(1) in simp)+
  have n: "[u8 (length ips)] = subarray buf (k + 13) (k + 14)" "[buf ! 0] = subarray buf 0 1"
    using assms(1) r(2) subarray_byte [of "k + 13" buf "k + 14"] subarray_byte [of 0 buf 1] by simp_all
  have "region (buf ! 0) (subarray buf 1 (k + 1)) (be_val (subarray buf (k + 1) (k + 9))) (be_val (subarray buf (k + 9) (k + 13))) ips
      = [buf ! 0] @ subarray buf 1 (k + 1) @ subarray buf (k + 1) (k + 9) @ subarray buf (k + 9) (k + 13) @ [u8 (length ips)]
        @ subarray buf (k + 14) off"
    using r(4) by (simp only: region_def f append_Cons append_Nil)
  also have "\<dots> = subarray buf 0 off"
    unfolding n using r(3) by (simp add: subarray_join)
  finally show ?thesis using r by simp
qed

text \<open>A descriptor that parses is its signed region followed by its signatures, and the region is the encoding of the fields.\<close>

lemma parse_v2_sound:
  assumes "parseServiceDescriptor buf = Some p"
  obtains d raw where "p = Version_2 d" "buf = d2_signedRegion d @ d2_signature d" "list_all ip_ok (d2_introPoints d)"
    "d2_publishEpoch d = js_number raw" "d2_signedRegion d = region 2 (d2_SVC_pk d) raw (d2_lifetimeSeconds d) (d2_introPoints d)"
    "length (d2_SVC_pk d) = 32" "d2_lifetimeSeconds d < 2 ^ 32"
proof -
  let ?n = "unat (buf ! 45)"
  have len: "length buf = 46 + ?n * 1312 + 64" and v: "buf ! 0 = 2"
    using assms by (auto simp: parseServiceDescriptor_def Let_def split: if_splits prod.splits)
  obtain ips off where r: "read_intro_points buf 46 ?n = (ips, off)" by (cases "read_intro_points buf 46 ?n")
  let ?d = "\<lparr>d2_SVC_pk = subarray buf 1 33, d2_publishEpoch = readBigUint64BE buf 33, d2_lifetimeSeconds = be_val (subarray buf 41 45),
    d2_introPoints = ips, d2_signature = subarray buf off (off + 64), d2_signedRegion = subarray buf 0 off\<rparr>"
  have p: "p = Version_2 ?d" using assms r by (auto simp: parseServiceDescriptor_def Let_def split: if_splits prod.splits)
  have reg: "off = 46 + ?n * 1312" "list_all ip_ok ips"
    "subarray buf 0 off = region (buf ! 0) (subarray buf 1 33) (be_val (subarray buf 33 41)) (be_val (subarray buf 41 45)) ips"
    using region_of_buffer [of buf 32 64 ips off, simplified] len r by auto
  have l: "length (subarray buf 41 45) = 4" using len by simp
  have "be_val (subarray buf 41 45) < 2 ^ 32" using be_val_bound [of "subarray buf 41 45"] unfolding l by simp
  moreover have "buf = subarray buf 0 off @ subarray buf off (off + 64)"
    using len reg(1) by (simp add: subarray_join subarray_all)
  ultimately show ?thesis
    using that [of ?d "be_val (subarray buf 33 41)"] p reg v len by (simp add: readBigUint64BE_def)
qed

lemma parse_v3_sound:
  assumes "parseServiceDescriptorV3 buf = Some p"
  obtains d raw where "p = Version_3 d" "buf = d3_signedRegion d @ d3_edSig d @ d3_mldsaSig d" "list_all ip_ok (d3_introPoints d)"
    "d3_publishEpoch d = js_number raw"
    "d3_signedRegion d = region 3 (d3_SVC_pk_ed d @ d3_SVC_pk_mldsa d) raw (d3_lifetimeSeconds d) (d3_introPoints d)"
    "length (d3_SVC_pk_ed d) = 32" "length (d3_SVC_pk_mldsa d) = 1952" "d3_lifetimeSeconds d < 2 ^ 32"
proof -
  let ?n = "unat (buf ! 1997)"
  have len: "length buf = 1998 + ?n * 1312 + 3373" and v: "buf ! 0 = 3"
    using assms by (auto simp: parseServiceDescriptorV3_def Let_def split: if_splits prod.splits)
  obtain ips off where r: "read_intro_points buf 1998 ?n = (ips, off)" by (cases "read_intro_points buf 1998 ?n")
  let ?d = "\<lparr>d3_SVC_pk_ed = subarray buf 1 33, d3_SVC_pk_mldsa = subarray buf 33 1985, d3_publishEpoch = readBigUint64BE buf 1985,
    d3_lifetimeSeconds = be_val (subarray buf 1993 1997), d3_introPoints = ips, d3_edSig = subarray buf off (off + 64),
    d3_mldsaSig = subarray buf (off + 64) (off + 64 + 3309), d3_signedRegion = subarray buf 0 (length buf - 3373)\<rparr>"
  have p: "p = Version_3 ?d" using assms r by (auto simp: parseServiceDescriptorV3_def Let_def split: if_splits prod.splits)
  have reg: "off = 1998 + ?n * 1312" "list_all ip_ok ips"
    "subarray buf 0 off = region (buf ! 0) (subarray buf 1 1985) (be_val (subarray buf 1985 1993)) (be_val (subarray buf 1993 1997)) ips"
    using region_of_buffer [of buf 1984 3373 ips off, simplified] len r by auto
  have o: "length buf - 3373 = off" using len reg(1) by simp
  have l: "length (subarray buf 1993 1997) = 4" using len by simp
  have "be_val (subarray buf 1993 1997) < 2 ^ 32" using be_val_bound [of "subarray buf 1993 1997"] unfolding l by simp
  moreover have "buf = subarray buf 0 off @ subarray buf off (off + 64) @ subarray buf (off + 64) (off + 64 + 3309)"
    using len reg(1) by (simp add: subarray_join subarray_all)
  moreover have "subarray buf 1 1985 = subarray buf 1 33 @ subarray buf 33 1985" by (simp add: subarray_join)
  ultimately show ?thesis
    using that [of ?d "be_val (subarray buf 1985 1993)"] p reg v len unfolding o by (simp add: readBigUint64BE_def)
qed

section \<open>Verified descriptors\<close>

text \<open>The window, read through the rounding of 64-bit values.\<close>

lemma js_number_lt_iff: "now < 2 ^ 53 \<Longrightarrow> now \<le> int (js_number n) \<longleftrightarrow> now \<le> int n"
  using js_number_small [of n] js_number_big [of n] by (cases "n < 2 ^ 53") auto

lemma window_raw:
  assumes "now < 2 ^ 53" "int (js_number raw) \<le> now" "now \<le> int (js_number (js_number raw + life))"
  shows "int raw \<le> now \<and> now \<le> int raw + int life"
proof -
  have r: "int raw \<le> now" using assms(1,2) js_number_le_iff by blast
  then have "js_number raw = raw" using assms(1) by (intro js_number_small) simp
  then show ?thesis using r assms js_number_lt_iff [OF assms(1), of "raw + life"] by simp
qed

lemma computeIdentityHash_append: "computeIdentityHash C a b = blake2b_32 C (a @ b)"
  by (simp add: computeIdentityHash_def layout)

lemma binds_hash:
  "verifyAddressBindsPubkeys C addr a b \<Longrightarrow> decodeOnionAddress C addr = Some (Identity_Hash (blake2b_32 C (a @ b)))"
  by (auto simp: verifyAddressBindsPubkeys_def computeIdentityHash_append Let_def list_all_length list_all_iff
      split: option.splits onion_id.splits if_splits intro!: nth_equalityI)

text \<open>C19. A descriptor that parses and verifies is authentic and current: the buffer is a signed region and its signatures, the
  region encodes exactly the parsed keys, times and introduction points, the signature (for version 3 both signatures) verify
  over that region, the clock is in the window, and the keys are those that the expected key or address names.\<close>

theorem verified_descriptor:
  assumes "parseServiceDescriptorAny buf = Some p" "verifyServiceDescriptor C (Some p) now (Some pk) (Some addr)" "now < 2 ^ 53"
  shows "case p of
      Version_2 d \<Rightarrow> \<exists>raw. buf = d2_signedRegion d @ d2_signature d
        \<and> d2_signedRegion d = region 2 (d2_SVC_pk d) raw (d2_lifetimeSeconds d) (d2_introPoints d)
        \<and> verify C (d2_signature d) (d2_signedRegion d) (d2_SVC_pk d) \<and> d2_SVC_pk d = pk
        \<and> int raw \<le> now \<and> now \<le> int raw + int (d2_lifetimeSeconds d)
    | Version_3 d \<Rightarrow> \<exists>raw. buf = d3_signedRegion d @ d3_edSig d @ d3_mldsaSig d
        \<and> d3_signedRegion d = region 3 (d3_SVC_pk_ed d @ d3_SVC_pk_mldsa d) raw (d3_lifetimeSeconds d) (d3_introPoints d)
        \<and> verify C (d3_edSig d) (d3_signedRegion d) (d3_SVC_pk_ed d)
        \<and> mldsa_verify C (d3_mldsaSig d) (d3_signedRegion d) (d3_SVC_pk_mldsa d) = Some True
        \<and> decodeOnionAddress C addr = Some (Identity_Hash (blake2b_32 C (d3_SVC_pk_ed d @ d3_SVC_pk_mldsa d)))
        \<and> int raw \<le> now \<and> now \<le> int raw + int (d3_lifetimeSeconds d)"
proof (cases "buf ! 0 = 2")
  case True
  then have "parseServiceDescriptor buf = Some p" using assms(1) by (simp add: parseServiceDescriptorAny_def split: if_splits)
  then obtain d raw where d: "p = Version_2 d" "buf = d2_signedRegion d @ d2_signature d" "list_all ip_ok (d2_introPoints d)"
    "d2_publishEpoch d = js_number raw" "d2_signedRegion d = region 2 (d2_SVC_pk d) raw (d2_lifetimeSeconds d) (d2_introPoints d)"
    "length (d2_SVC_pk d) = 32" "d2_lifetimeSeconds d < 2 ^ 32" by (rule parse_v2_sound)
  have v: "length pk = 32" "xor_diff pk (d2_SVC_pk d) 0 = 0" "int (js_number raw) \<le> now"
    "now \<le> int (js_number (js_number raw + d2_lifetimeSeconds d))" "verify C (d2_signature d) (d2_signedRegion d) (d2_SVC_pk d)"
    using assms(2) by (auto simp: verifyServiceDescriptor_def verifyServiceDescriptorV2_def d(1,4) split: if_splits)
  have "int raw \<le> now \<and> now \<le> int raw + int (d2_lifetimeSeconds d)"
    using window_raw [OF assms(3) v(3,4)] .
  then show ?thesis using v(1,2,5) d(2,5,6) xor_diff_zero [of pk "d2_SVC_pk d" 0] unfolding d(1) by auto
next
  case False
  then have "parseServiceDescriptorV3 buf = Some p" using assms(1) by (simp add: parseServiceDescriptorAny_def split: if_splits)
  then obtain d raw where d: "p = Version_3 d" "buf = d3_signedRegion d @ d3_edSig d @ d3_mldsaSig d" "list_all ip_ok (d3_introPoints d)"
    "d3_publishEpoch d = js_number raw"
    "d3_signedRegion d = region 3 (d3_SVC_pk_ed d @ d3_SVC_pk_mldsa d) raw (d3_lifetimeSeconds d) (d3_introPoints d)"
    "length (d3_SVC_pk_ed d) = 32" "length (d3_SVC_pk_mldsa d) = 1952" "d3_lifetimeSeconds d < 2 ^ 32" by (rule parse_v3_sound)
  have v: "verifyAddressBindsPubkeys C addr (d3_SVC_pk_ed d) (d3_SVC_pk_mldsa d)" "int (js_number raw) \<le> now"
    "now \<le> int (js_number (js_number raw + d3_lifetimeSeconds d))"
    "hybridVerify C (d3_signedRegion d) (d3_SVC_pk_ed d) (d3_SVC_pk_mldsa d) (d3_edSig d) (d3_mldsaSig d)"
    using assms(2) by (auto simp: verifyServiceDescriptor_def verifyServiceDescriptorV3_def d(1,4) split: if_splits)
  have "int raw \<le> now \<and> now \<le> int raw + int (d3_lifetimeSeconds d)"
    using window_raw [OF assms(3) v(2,3)] .
  then show ?thesis using hybridVerify_both [OF v(4)] binds_hash [OF v(1)] d(2,5) unfolding d(1) by auto
qed

section \<open>Building\<close>

lemma length_region: "list_all ip_ok ips \<Longrightarrow> length (region v keys e l ips) = 14 + length keys + length ips * 1312"
  by (simp add: region_def length_ips)

lemma build_v3_layout:
  fixes e life :: int
  assumes "length sk = 32" "length pe = 32" "length pm = 1952" "0 \<le> life" "life < 2 ^ 32" "length ips \<le> 255" "list_all ip_ok ips"
    and "\<And>m. length (sign C m sk) = 64" "\<And>m. length (mldsa_sign C m sm) = 3309"
  defines "r \<equiv> region 3 (pe @ pm) (nat (e mod 2 ^ 64)) (nat life) ips"
  shows "buildServiceDescriptorV3 C sk pe sm pm e life ips = Inr (r @ sign C r sk @ mldsa_sign C r sm)"
proof -
  let ?n = "length ips * 1312"
  obtain us where us: "map_res validateIntroPoint ips = Inr us" using assms(7) validate_all by blast
  have z: "zeros (1998 + ?n) = 0 # zeros 32 @ zeros 1952 @ zeros 8 @ zeros 4 @ [0] @ zeros ?n"
    by (simp add: zeros_def flip: replicate_add replicate_Suc)
  let ?h = "3 # pe @ pm @ be_bytes 8 (nat (e mod 2 ^ 64)) @ be_bytes 4 (nat life) @ [u8 (length ips)]"
  have w: "write_intro_points (?h @ zeros ?n) 1998 ips = r"
    using write_all [OF assms(7), of 1998 ?h] assms(2,3) by (simp add: r_def region_def)
  have h: "writeBigUint64BE (set_at (set_at ((zeros (1998 + ?n))[0 := 3]) 1 pe) 33 pm) 1985 e
      = 3 # pe @ pm @ be_bytes 8 (nat (e mod 2 ^ 64)) @ zeros 4 @ [0] @ zeros ?n"
    unfolding z using assms(2,3) by (simp add: writeBigUint64BE_def layout set_at_front)
  have lr: "length r = 1998 + ?n" using length_region [OF assms(7)] assms(2,3) by (simp add: r_def)
  have "1998 + ?n + 64 + 3309 = length r + 3373" using lr by simp
  show ?thesis
    unfolding buildServiceDescriptorV3_def Let_def us
    using assms(1-6,8,9) h w lr by (simp add: hybridSign_def layout set_at_front)
qed

lemma parse_v3_bytes:
  assumes "length pe = 32" "length pm = 1952" "e < 2 ^ 53" "life < 2 ^ 32" "length ips \<le> 255" "list_all ip_ok ips"
    and "length es = 64" "length ms = 3309"
  defines "r \<equiv> region 3 (pe @ pm) e life ips"
  shows "parseServiceDescriptorAny (r @ es @ ms) = Some (Version_3 \<lparr>d3_SVC_pk_ed = pe, d3_SVC_pk_mldsa = pm, d3_publishEpoch = e,
    d3_lifetimeSeconds = life, d3_introPoints = ips, d3_edSig = es, d3_mldsaSig = ms, d3_signedRegion = r\<rparr>)"
proof -
  let ?buf = "r @ es @ ms" and ?n = "length ips"
  let ?h = "3 # pe @ pm @ be_bytes 8 e @ be_bytes 4 life @ [u8 ?n]"
  have buf: "?buf = ?h @ concat (map ip_bytes ips) @ es @ ms" by (simp add: r_def region_def)
  have lh: "length ?h = 1998" using assms(1,2) by simp
  have lr: "length r = 1998 + ?n * 1312" using length_region [OF assms(6)] assms(1,2) by (simp add: r_def)
  have f: "subarray ?buf 1 33 = pe" "subarray ?buf 33 1985 = pm" "subarray ?buf 1985 1993 = be_bytes 8 e"
    "subarray ?buf 1993 1997 = be_bytes 4 life" "?buf ! 1997 = u8 ?n" "?buf ! 0 = 3"
    unfolding buf using assms(1,2) by (simp_all add: layout)
  have n: "unat (?buf ! 1997) = ?n" using f(5) assms(5) by (simp add: unat_u8_id)
  have i: "read_intro_points ?buf 1998 ?n = (ips, 1998 + ?n * 1312)"
    unfolding buf using read_loop_bytes [OF assms(6) lh [symmetric] refl] .
  have v: "js_number (be_val (be_bytes 8 e)) = e" "be_val (be_bytes 4 life) = life"
    using assms(3,4) by (simp_all add: be_val_be_bytes js_number_small)
  have tail: "subarray ?buf (1998 + ?n * 1312) (1998 + ?n * 1312 + 64) = es"
    "subarray ?buf (1998 + ?n * 1312 + 64) (1998 + ?n * 1312 + 64 + 3309) = ms" "subarray ?buf 0 (length ?buf - 3373) = r"
    using lr assms(7,8) by (simp_all add: subarray_def)
  show ?thesis
    using assms(7,8) lr f n i v tail
    unfolding parseServiceDescriptorAny_def parseServiceDescriptorV3_def Let_def readBigUint64BE_def by simp
qed

lemma v3_address_binds:
  assumes "hash_ok C" "encodeOnionAddressV3 C pe pm = Inr addr"
  shows "verifyAddressBindsPubkeys C addr pe pm"
proof -
  have h: "length (computeIdentityHash C pe pm) = 32" using assms(1) by (simp add: hash_ok_def computeIdentityHash_def Let_def)
  have "addr = address_of C (computeIdentityHash C pe pm) 3" using assms(2) by (simp add: encodeOnionAddressV3_def split: if_splits)
  then have "decodeOnionAddress C addr = Some (id_of 3 (computeIdentityHash C pe pm))" using decode_address [OF assms(1) h] by simp
  then show ?thesis by (simp add: verifyAddressBindsPubkeys_def id_of_def Let_def list_all_iff)
qed

lemma v3_roundtrip:
  fixes e life :: int
  assumes "sig_correct C" "mldsa_correct C" "hash_ok C" "length a = 32" "length b = 32" "hybridKeygen C a b = k"
    and "0 \<le> e" "0 \<le> life" "life < 2 ^ 32" "e + life < 2 ^ 53" "length ips \<le> 255" "list_all ip_ok ips"
  shows "\<exists>buf addr d. buildServiceDescriptorV3 C (key_edSk k) (key_edPk k) (key_mldsaSk k) (key_mldsaPk k) e life ips = Inr buf
    \<and> encodeOnionAddressV3 C (key_edPk k) (key_mldsaPk k) = Inr addr
    \<and> parseServiceDescriptorAny buf = Some (Version_3 d) \<and> d3_introPoints d = ips
    \<and> d3_SVC_pk_ed d = key_edPk k \<and> d3_SVC_pk_mldsa d = key_mldsaPk k
    \<and> (\<forall>now. verifyServiceDescriptor C (Some (Version_3 d)) now None (Some addr) \<longleftrightarrow> e \<le> now \<and> now \<le> e + life)"
proof -
  have k: "key_edSk k = a" "key_edPk k = ed_public C a" "key_mldsaSk k = fst (mldsa_keygen C b)" "key_mldsaPk k = snd (mldsa_keygen C b)"
    using assms(6) by (auto simp: hybridKeygen_def Let_def)
  have l: "length (key_edPk k) = 32" "length (key_mldsaPk k) = 1952" "length (key_edSk k) = 32"
    "length (sign C m (key_edSk k)) = 64" "length (mldsa_sign C m (key_mldsaSk k)) = 3309" for m
    using assms(1,2,4,5) k by (auto simp: sig_correct_def mldsa_correct_def length_sign)
  have e: "e mod 2 ^ 64 = e" using assms(7,8,10) by (intro mod_pos_pos_trivial) simp_all
  let ?r = "region 3 (key_edPk k @ key_mldsaPk k) (nat e) (nat life) ips"
  let ?es = "sign C ?r (key_edSk k)" and ?ms = "mldsa_sign C ?r (key_mldsaSk k)"
  have b: "buildServiceDescriptorV3 C (key_edSk k) (key_edPk k) (key_mldsaSk k) (key_mldsaPk k) e life ips = Inr (?r @ ?es @ ?ms)"
    using build_v3_layout [of "key_edSk k" "key_edPk k" "key_mldsaPk k" life ips C "key_mldsaSk k" e] l assms(8,9,11,12) unfolding e by simp
  have ne: "nat e < 2 ^ 53" "nat life < 2 ^ 32" "nat e + nat life < 2 ^ 53" using assms(7-10) by (simp_all add: nat_less_iff)
  let ?d = "\<lparr>d3_SVC_pk_ed = key_edPk k, d3_SVC_pk_mldsa = key_mldsaPk k, d3_publishEpoch = nat e,
    d3_lifetimeSeconds = nat life, d3_introPoints = ips, d3_edSig = ?es, d3_mldsaSig = ?ms, d3_signedRegion = ?r\<rparr>"
  have p: "parseServiceDescriptorAny (?r @ ?es @ ?ms) = Some (Version_3 ?d)"
    by (rule parse_v3_bytes) (use l ne assms(11,12) in simp_all)
  obtain addr where addr: "encodeOnionAddressV3 C (key_edPk k) (key_mldsaPk k) = Inr addr" using l by (simp add: encodeOnionAddressV3_def)
  have h: "hybridVerify C ?r (key_edPk k) (key_mldsaPk k) ?es ?ms"
    by (rule hybridVerify_hybridSign [OF assms(1,2,4,5,6)]) (simp add: hybridSign_def)
  have "verifyServiceDescriptor C (Some (Version_3 ?d)) now None (Some addr) \<longleftrightarrow> e \<le> now \<and> now \<le> e + life" for now
    using h v3_address_binds [OF assms(3) addr] assms(7,8) js_number_small [OF ne(3)]
    by (auto simp: verifyServiceDescriptor_def verifyServiceDescriptorV3_def)
  then show ?thesis using b addr p by fastforce
qed

text \<open>What a service publishes is found again: a version 3 descriptor built with generated keys parses back to its
  introduction points and keys, and verifies under the address of the keys exactly within its lifetime.\<close>

theorem descriptor_roundtrip:
  fixes e life :: int
  assumes "sig_correct C" "mldsa_correct C" "hash_ok C" "length a = 32" "length b = 32" "hybridKeygen C a b = k"
    and "0 \<le> e" "0 \<le> life" "life < 2 ^ 32" "e + life < 2 ^ 53" "length ips \<le> 255" "list_all ip_ok ips"
  shows "\<exists>buf addr d. buildServiceDescriptorV3 C (key_edSk k) (key_edPk k) (key_mldsaSk k) (key_mldsaPk k) e life ips = Inr buf
    \<and> encodeOnionAddressV3 C (key_edPk k) (key_mldsaPk k) = Inr addr
    \<and> parseServiceDescriptorAny buf = Some (Version_3 d) \<and> d3_introPoints d = ips
    \<and> d3_SVC_pk_ed d = key_edPk k \<and> d3_SVC_pk_mldsa d = key_mldsaPk k
    \<and> (\<forall>now. verifyServiceDescriptor C (Some (Version_3 d)) now None (Some addr) \<longleftrightarrow> e \<le> now \<and> now \<le> e + life)"
  using assms by (rule v3_roundtrip)

section \<open>The index\<close>

definition named_by :: "crypto \<Rightarrow> descriptor \<Rightarrow> string \<Rightarrow> bool" where
  "named_by C d a \<longleftrightarrow> decodeOnionAddress C a = Some (case d of
     Version_2 d \<Rightarrow> Svc_Pk (d2_SVC_pk d) | Version_3 d \<Rightarrow> Identity_Hash (blake2b_32 C (d3_SVC_pk_ed d @ d3_SVC_pk_mldsa d)))"

lemma trim_fix: "list_all (\<lambda>c. \<not> is_space c) s \<Longrightarrow> js_trim s = s"
proof -
  have d: "list_all (\<lambda>c. \<not> is_space c) xs \<Longrightarrow> dropWhile is_space xs = xs" for xs by (cases xs) simp_all
  assume "list_all (\<lambda>c. \<not> is_space c) s"
  then show ?thesis using d [of s] d [of "rev s"] by (simp add: js_trim_def)
qed

lemma alphabet_no_space: "c \<in> set ALPHABET \<Longrightarrow> \<not> is_space c"
  by (auto simp: ALPHABET_def is_space_def char_code_def)

lemma normalise_address:
  assumes "hash_ok C" "length b = 32"
  shows "normaliseHost (address_of C b v) = address_of C b v"
proof -
  let ?p = "b @ computeChecksum C b v @ [u8 v]"
  have l: "length ?p = 35" using assms length_computeChecksum [OF assms(1), of b v] by simp
  have "set (base32encode ?p) \<subseteq> set ALPHABET" using base32encode_spec [of ?p] by blast
  moreover have "list_all (\<lambda>c. \<not> is_space c) ''.anon''" by (simp add: is_space_def char_code_def)
  ultimately have "list_all (\<lambda>c. \<not> is_space c) (base32encode ?p @ ''.anon'')"
    using alphabet_no_space by (force simp: list_all_iff)
  then show ?thesis
    using lower_address [OF l] trim_fix unfolding normaliseHost_def address_layout [OF assms(1,2)] by simp
qed

text \<open>The address that the index derives names the keys of the descriptor, and is its own key.\<close>

lemma derived_address:
  assumes "hash_ok C" "addressForDescriptor C (Some d) = Inr (Some a)"
  shows "named_by C d a \<and> normaliseHost a = a"
proof (cases d)
  case (Version_2 d2)
  have a: "a = address_of C (d2_SVC_pk d2) 2" "length (d2_SVC_pk d2) = 32"
    using assms(2) by (auto simp: Version_2 addressForDescriptor_def encodeOnionAddress_def split: if_splits sum.splits)
  show ?thesis
    using decode_address [OF assms(1) a(2), of 2] normalise_address [OF assms(1) a(2)] unfolding a(1) Version_2
    by (simp add: named_by_def id_of_def)
next
  case (Version_3 d3)
  let ?h = "computeIdentityHash C (d3_SVC_pk_ed d3) (d3_SVC_pk_mldsa d3)"
  have l: "length ?h = 32" using assms(1) by (simp add: computeIdentityHash_append hash_ok_def)
  have a: "a = address_of C ?h 3"
    using assms(2) by (auto simp: Version_3 addressForDescriptor_def encodeOnionAddressV3_def split: if_splits sum.splits)
  show ?thesis
    using decode_address [OF assms(1) l, of 3] normalise_address [OF assms(1) l] unfolding a Version_3
    by (simp add: named_by_def id_of_def computeIdentityHash_append)
qed

definition index_inv :: "crypto \<Rightarrow> (string, descriptor) jsmap \<Rightarrow> bool" where
  "index_inv C m \<longleftrightarrow> (\<forall>a d. map_get m a = Some d \<longrightarrow> addressForDescriptor C (Some d) = Inr (Some a))"

lemma index_load_inv:
  "hash_ok C \<Longrightarrow> index_inv C m \<Longrightarrow> index_load C fs paths m = Inr m' \<Longrightarrow> index_inv C m'"
proof (induction paths arbitrary: m)
  case (Cons path paths)
  obtain r where r: "tryLoadDescriptor C fs path = Inr r" using Cons.prems(3) by (auto split: sum.splits)
  show ?case
  proof (cases r)
    case None
    then show ?thesis using Cons r by simp
  next
    case (Some da)
    obtain d a where da: "da = (d, a)" by (cases da)
    have a: "addressForDescriptor C (Some d) = Inr (Some a)"
      using r unfolding Some da tryLoadDescriptor_def by (auto split: option.splits sum.splits)
    then have n: "normaliseHost a = a" using derived_address [OF Cons.prems(1)] by blast
    have "index_inv C (index_add d a m)"
      using Cons.prems(2) a n by (auto simp: index_inv_def index_add_def Let_def jm.get_put)
    then show ?thesis using Cons.IH [of "index_add d a m"] Cons.prems(1,3) r by (simp add: Some da)
  qed
qed simp

lemma index_loaded:
  assumes "hash_ok C" "createDescriptorIndex C fs paths dir = Inr m"
  shows "index_inv C m"
proof -
  obtain ps where "index_load C fs ps [] = Inr m"
    using assms(2) by (auto simp: createDescriptorIndex_def split: option.splits sum.splits if_splits)
  then show ?thesis using index_load_inv [OF assms(1), of "[]"] by (simp add: index_inv_def)
qed

lemma lookup_key:
  assumes "index_lookup m host = Some d"
  shows "map_get m (normaliseHost host) = Some d \<or> (\<exists>body. map_get m (body @ ''.anon'') = Some d \<and> body = stripSuffix (normaliseHost host))"
  using assms by (auto simp: index_lookup_def Let_def split: if_splits)

text \<open>C20. Whatever the files are called, the index never routes a host to another service: the descriptor found for a host is one
  whose keys are those that the host (with its suffix added where it is missing) names as an onion address.\<close>

theorem index_names_service:
  assumes "hash_ok C" "createDescriptorIndex C fs paths dir = Inr m" "index_lookup m host = Some d"
  shows "named_by C d (normaliseHost host) \<or> named_by C d (stripSuffix (normaliseHost host) @ ''.anon'')"
  using lookup_key [OF assms(3)] index_loaded [OF assms(1,2)] derived_address [OF assms(1)]
  by (auto simp: index_inv_def)

section \<open>Instances\<close>

definition toy_keys :: hybrid_keys where "toy_keys = hybridKeygen toy_crypto (zeros 32) (zeros 32)"

definition toy_ip :: intro_point where
  "toy_ip = \<lparr>ip_fingerprint = zeros 32, ip_ipOnionPk = zeros 32, ip_serviceIntroKey = zeros 32, ip_serviceEncX25519Pk = zeros 32,
     ip_serviceEncMlkemPk = zeros 1184\<rparr>"

lemma toy_published:
  "\<exists>buf addr d. buildServiceDescriptorV3 toy_crypto (key_edSk toy_keys) (key_edPk toy_keys) (key_mldsaSk toy_keys)
      (key_mldsaPk toy_keys) 100 50 [toy_ip] = Inr buf
    \<and> encodeOnionAddressV3 toy_crypto (key_edPk toy_keys) (key_mldsaPk toy_keys) = Inr addr
    \<and> parseServiceDescriptorAny buf = Some (Version_3 d) \<and> d3_introPoints d = [toy_ip]
    \<and> d3_SVC_pk_ed d = key_edPk toy_keys \<and> d3_SVC_pk_mldsa d = key_mldsaPk toy_keys
    \<and> (\<forall>now. verifyServiceDescriptor toy_crypto (Some (Version_3 d)) now None (Some addr) \<longleftrightarrow> 100 \<le> now \<and> now \<le> 150)"
  using v3_roundtrip [OF toy_sig_correct toy_mldsa_correct toy_hash_ok _ _ toy_keys_def [symmetric], of 100 50 "[toy_ip]"]
  by (simp add: ip_ok_def toy_ip_def)

theorem descriptor_roundtrip_witness:
  "\<exists>buf addr d. buildServiceDescriptorV3 toy_crypto (key_edSk toy_keys) (key_edPk toy_keys) (key_mldsaSk toy_keys)
      (key_mldsaPk toy_keys) 100 50 [toy_ip] = Inr buf
    \<and> parseServiceDescriptorAny buf = Some (Version_3 d)
    \<and> verifyServiceDescriptor toy_crypto (Some (Version_3 d)) 120 None (Some addr)
    \<and> \<not> verifyServiceDescriptor toy_crypto (Some (Version_3 d)) 151 None (Some addr)"
proof -
  have ok: "list_all ip_ok [toy_ip]" by (simp add: ip_ok_def toy_ip_def)
  obtain buf addr d where b: "buildServiceDescriptorV3 toy_crypto (key_edSk toy_keys) (key_edPk toy_keys) (key_mldsaSk toy_keys)
      (key_mldsaPk toy_keys) 100 50 [toy_ip] = Inr buf" "parseServiceDescriptorAny buf = Some (Version_3 d)"
    and v: "\<And>now. verifyServiceDescriptor toy_crypto (Some (Version_3 d)) now None (Some addr) \<longleftrightarrow> 100 \<le> now \<and> now \<le> 100 + 50"
    using descriptor_roundtrip [OF toy_sig_correct toy_mldsa_correct toy_hash_ok _ _ toy_keys_def [symmetric], of 100 50 "[toy_ip]"] ok
    by fastforce
  show ?thesis using b v [of 120] v [of 151] by fastforce
qed

theorem verified_descriptor_witness:
  "\<exists>buf addr d raw. parseServiceDescriptorAny buf = Some (Version_3 d)
    \<and> buf = region 3 (d3_SVC_pk_ed d @ d3_SVC_pk_mldsa d) raw (d3_lifetimeSeconds d) [toy_ip] @ d3_edSig d @ d3_mldsaSig d
    \<and> decodeOnionAddress toy_crypto addr = Some (Identity_Hash (blake2b_32 toy_crypto (d3_SVC_pk_ed d @ d3_SVC_pk_mldsa d)))"
proof -
  obtain buf addr d where b: "parseServiceDescriptorAny buf = Some (Version_3 d)" "d3_introPoints d = [toy_ip]"
    "verifyServiceDescriptor toy_crypto (Some (Version_3 d)) 120 None (Some addr)" using toy_published by fastforce
  have "verifyServiceDescriptor toy_crypto (Some (Version_3 d)) 120 (Some []) (Some addr)"
    using b(3) by (simp add: verifyServiceDescriptor_def)
  from verified_descriptor [OF b(1) this] b show ?thesis by fastforce
qed

definition toy_fs :: "bytes \<Rightarrow> file_system" where
  "toy_fs buf = \<lparr>fs_readdir = (\<lambda>_. None), fs_isFile = (\<lambda>_. None), fs_readFile = (\<lambda>_. Some buf), fs_join = (@)\<rparr>"

theorem index_names_service_witness:
  "\<exists>buf m d addr. createDescriptorIndex toy_crypto (toy_fs buf) [''wrong.bin''] None = Inr m \<and> index_lookup m addr = Some d
    \<and> (named_by toy_crypto d (normaliseHost addr) \<or> named_by toy_crypto d (stripSuffix (normaliseHost addr) @ ''.anon''))"
proof -
  obtain buf addr d where b: "parseServiceDescriptorAny buf = Some (Version_3 d)"
    "encodeOnionAddressV3 toy_crypto (key_edPk toy_keys) (key_mldsaPk toy_keys) = Inr addr"
    "d3_SVC_pk_ed d = key_edPk toy_keys" "d3_SVC_pk_mldsa d = key_mldsaPk toy_keys" using toy_published by fastforce
  have a: "addressForDescriptor toy_crypto (Some (Version_3 d)) = Inr (Some addr)" using b by (simp add: addressForDescriptor_def)
  have n: "normaliseHost addr = addr" using derived_address [OF toy_hash_ok a] by simp
  have i: "createDescriptorIndex toy_crypto (toy_fs buf) [''wrong.bin''] None = Inr [(addr, Version_3 d)]"
    using b(1) a n
    by (simp add: createDescriptorIndex_def tryLoadDescriptor_def toy_fs_def index_add_def map_has_def map_set_def map_size_def)
  have l: "index_lookup [(addr, Version_3 d)] addr = Some (Version_3 d)"
    using n by (simp add: index_lookup_def map_has_def map_get_def)
  from index_names_service [OF toy_hash_ok i l] i l show ?thesis by blast
qed

end
