(* ===== verification/V2_Client.thy ===== *)
theory V2_Client
  imports V2_Circuit V2_Consensus V2_Streams
begin

text \<open>
  The client's side of circuits: \<open>v2-runtime/peer\_resolver.mjs\<close>, \<open>cell\_router.mjs\<close> and \<open>circuit\_builder.mjs\<close>. A promise
  is a cell of the state that is settled at most once; what \<open>buildCircuit\<close> does after an \<open>await\<close> is an operation of its own
  (\<open>build_resume\<close>), so that cells can arrive between the settling of a promise and the continuation. Calls of \<open>onData\<close> and
  \<open>onDestroy\<close> and the cells sent to the entry guard are effects. Random draws and clocks are arguments; log lines are left
  out, but not the statistics kept for them.
\<close>

section \<open>Peer resolver\<close>

fun hex_number :: "nat \<Rightarrow> string" where
  "hex_number n = (if n < 16 then [hex_digit n] else hex_number (n div 16) @ [hex_digit (n mod 16)])"

declare hex_number.simps [simp del]

record resolved_peer =
  rpe_host :: string
  rpe_port :: nat
  rpe_idPk :: bytes
  rpe_B_pk :: bytes
  rpe_fingerprint :: bytes

definition decodeIPv4 :: "bytes option \<Rightarrow> (string \<times> nat) option" where
  "decodeIPv4 a =
     (case a of
        None \<Rightarrow> None
      | Some bytes \<Rightarrow>
          let host = ipv4ToString bytes;
              port = push_bit 8 (unat (bytes ! 4)) OR unat (bytes ! 5)
          in if port = 0 then None else Some (host, port))"

fun join_colon :: "string list \<Rightarrow> string" where
  "join_colon [] = []"
| "join_colon [p] = p"
| "join_colon (p # q # ps) = p @ '':'' @ join_colon (q # ps)"

definition decodeIPv6 :: "bytes option \<Rightarrow> (string \<times> nat) option" where
  "decodeIPv6 a =
     (case a of
        None \<Rightarrow> None
      | Some bytes \<Rightarrow>
          let host = join_colon (map (\<lambda>i. hex_number (push_bit 8 (unat (bytes ! (2 * i))) OR unat (bytes ! (2 * i + 1)))) [0..<8]);
              port = push_bit 8 (unat (bytes ! 16)) OR unat (bytes ! 17)
          in if port = 0 then None else Some (host, port))"

definition index_by_fingerprint :: "rse list \<Rightarrow> (string, rse) jsmap" where
  "index_by_fingerprint rses = fold (\<lambda>r m. map_set (toHex (rse_fingerprint r)) r m) rses []"

definition peerResolver :: "rse list \<Rightarrow> bytes \<Rightarrow> resolved_peer option" where
  "peerResolver rses fp =
     (case map_get (index_by_fingerprint rses) (toHex fp) of
        None \<Rightarrow> None
      | Some r \<Rightarrow>
          (case (case decodeIPv4 (rse_ipv4 r) of Some t \<Rightarrow> Some t | None \<Rightarrow> decodeIPv6 (rse_ipv6 r)) of
             None \<Rightarrow> None
           | Some (host, port) \<Rightarrow> Some \<lparr>rpe_host = host, rpe_port = port, rpe_idPk = rse_idPk r, rpe_B_pk = rse_onionPk r,
               rpe_fingerprint = rse_fingerprint r\<rparr>))"

section \<open>Cell router\<close>

definition CLIENT_CIRCUIT_ID_MIN :: nat where [simp]: "CLIENT_CIRCUIT_ID_MIN = 0x80000000"
definition CLIENT_CIRCUIT_ID_MAX :: nat where [simp]: "CLIENT_CIRCUIT_ID_MAX = 0xFFFFFFFF"
definition RELAY_CIRCUIT_ID_MIN :: nat where [simp]: "RELAY_CIRCUIT_ID_MIN = 0x00000001"
definition RELAY_CIRCUIT_ID_MAX :: nat where [simp]: "RELAY_CIRCUIT_ID_MAX = 0x7FFFFFFF"

definition isClientCircuitId :: "nat \<Rightarrow> bool" where
  "isClientCircuitId cid \<longleftrightarrow> cid \<ge> CLIENT_CIRCUIT_ID_MIN \<and> cid \<le> CLIENT_CIRCUIT_ID_MAX"

text \<open>The map of the registered handlers, here by their number, and where a cell goes.\<close>

type_synonym router = "(string \<times> nat, nat) jsmap"

datatype route = Dropped | To_Client nat cell | To_Relay bytes

definition router_onCell :: "router \<Rightarrow> link \<Rightarrow> bytes \<Rightarrow> route" where
  "router_onCell clientCircuits l raw =
     (case parseCell raw of
        None \<Rightarrow> Dropped
      | Some parsed \<Rightarrow>
          (case map_get clientCircuits (keyOf l (cel_circuitId parsed)) of
             Some handler \<Rightarrow> To_Client handler parsed
           | None \<Rightarrow> To_Relay raw))"

definition registerClientCircuit :: "link \<Rightarrow> nat \<Rightarrow> nat \<Rightarrow> router \<Rightarrow> router" where
  "registerClientCircuit l circuitId handler clientCircuits = map_set (keyOf l circuitId) handler clientCircuits"

definition unregisterClientCircuit :: "link \<Rightarrow> nat \<Rightarrow> router \<Rightarrow> router" where
  "unregisterClientCircuit l circuitId clientCircuits = map_delete (keyOf l circuitId) clientCircuits"

section \<open>The handler of a circuit\<close>

datatype handler_state = St_Idle | St_Create | St_Extend | St_Closed

record pending =
  pnd_ntorState :: ntor_state
  pnd_B_pk :: bytes
  pnd_ID_R :: bytes
  pnd_promise :: nat

record cell_stats =
  cst_cellsTotal :: nat
  cst_byCommand :: "(nat, nat) jsmap"
  cst_firstAt :: "int option"
  cst_lastAt :: "int option"

record handler =
  hdl_circuit :: circuit
  hdl_state :: handler_state
  hdl_createdReassembler :: "reassembler option"
  hdl_pendingCreate :: "pending option"
  hdl_pendingExtend :: "pending option"
  hdl_stats :: cell_stats
  hdl_promises :: "hop_keys res option list"

text \<open>What a client does to the outside: cells to the entry guard, and calls of the two callbacks.\<close>

datatype client_effect =
    Entry_Cell bytes
  | On_Data_Call nat nat nat bytes
  | On_Destroy_Call

type_synonym ('a, 'x) handler_act = "('a, client_effect, 'x handler_scheme) effectful"

definition createHandler :: "circuit \<Rightarrow> handler" where
  "createHandler circuit = \<lparr>hdl_circuit = circuit, hdl_state = St_Idle, hdl_createdReassembler = None, hdl_pendingCreate = None,
     hdl_pendingExtend = None, hdl_stats = \<lparr>cst_cellsTotal = 0, cst_byCommand = [], cst_firstAt = None, cst_lastAt = None\<rparr>,
     hdl_promises = []\<rparr>"

definition bumpStat :: "int \<Rightarrow> nat \<Rightarrow> cell_stats \<Rightarrow> cell_stats" where
  "bumpStat now cmd st =
     \<lparr>cst_cellsTotal = cst_cellsTotal st + 1,
      cst_byCommand = map_set cmd ((case map_get (cst_byCommand st) cmd of None \<Rightarrow> 0 | Some n \<Rightarrow> n) + 1) (cst_byCommand st),
      cst_firstAt = (if cst_firstAt st = None then Some now else cst_firstAt st), cst_lastAt = Some now\<rparr>"

text \<open>\<open>resolve\<close> or \<open>reject\<close>: only the first has an effect.\<close>

definition settle :: "nat \<Rightarrow> hop_keys res \<Rightarrow> 'x handler_scheme \<Rightarrow> 'x handler_scheme" where
  "settle p r h =
     (if p < length (hdl_promises h) \<and> hdl_promises h ! p = None
      then h\<lparr>hdl_promises := (hdl_promises h)[p := Some r]\<rparr> else h)"

definition failPending :: "js_error \<Rightarrow> 'x handler_scheme \<Rightarrow> 'x handler_scheme" where
  "failPending err h =
     (let h = (case hdl_pendingCreate h of
                 None \<Rightarrow> h
               | Some p \<Rightarrow> (settle (pnd_promise p) (Inl err) h)\<lparr>hdl_pendingCreate := None, hdl_createdReassembler := None\<rparr>)
      in case hdl_pendingExtend h of
           None \<Rightarrow> h
         | Some p \<Rightarrow> (settle (pnd_promise p) (Inl err) h)\<lparr>hdl_pendingExtend := None\<rparr>)"

text \<open>Both return the promise.\<close>

definition handler_beginCreate :: "ntor_state \<Rightarrow> bytes \<Rightarrow> bytes \<Rightarrow> 'x handler_scheme \<Rightarrow> (nat, 'x) handler_act" where
  "handler_beginCreate ntorState B_pk ID_R h =
     (if hdl_state h \<noteq> St_Idle then throw (Error ''cannot beginCreate in this state'') h
      else
        let p = length (hdl_promises h)
        in ret p (h\<lparr>hdl_state := St_Create, hdl_createdReassembler := Some defaultReassembler,
             hdl_promises := hdl_promises h @ [None],
             hdl_pendingCreate := Some \<lparr>pnd_ntorState = ntorState, pnd_B_pk = B_pk, pnd_ID_R = ID_R, pnd_promise = p\<rparr>\<rparr>))"

definition handler_beginExtend :: "ntor_state \<Rightarrow> bytes \<Rightarrow> bytes \<Rightarrow> 'x handler_scheme \<Rightarrow> (nat, 'x) handler_act" where
  "handler_beginExtend ntorState B_pk ID_R h =
     (if hdl_state h \<noteq> St_Idle then throw (Error ''cannot beginExtend in this state'') h
      else
        let p = length (hdl_promises h)
        in ret p (h\<lparr>hdl_state := St_Extend, hdl_promises := hdl_promises h @ [None],
             hdl_pendingExtend := Some \<lparr>pnd_ntorState = ntorState, pnd_B_pk = B_pk, pnd_ID_R = ID_R, pnd_promise = p\<rparr>\<rparr>))"

definition close_handler :: "js_error \<Rightarrow> 'x handler_scheme \<Rightarrow> 'x handler_scheme" where
  "close_handler err h = failPending err (h\<lparr>hdl_state := St_Closed\<rparr>)"

definition on_created :: "crypto \<Rightarrow> int \<Rightarrow> cell \<Rightarrow> 'x handler_scheme \<Rightarrow> (unit, 'x) handler_act" where
  "on_created C now parsed h =
     (if hdl_state h \<noteq> St_Create then ret () h
      else
        (case hdl_createdReassembler h of
           None \<Rightarrow> throw (TypeError ''createdReassembler is null'') h
         | Some reasm \<Rightarrow>
             let (r, reasm) = ingest now (cel_payload parsed) reasm;
                 h = h\<lparr>hdl_createdReassembler := Some reasm\<rparr>
             in (case r of
                   Failed \<Rightarrow> ret () (close_handler (Error ''CREATED reassembly failed'') h)
                 | Waiting \<Rightarrow> ret () h
                 | Complete message \<Rightarrow>
                     (case hdl_pendingCreate h of
                        None \<Rightarrow> throw (TypeError ''pendingCreate is null'') h
                      | Some p \<Rightarrow>
                          (case clientFinish C (pnd_ntorState p) (pnd_B_pk p) (pnd_ID_R p) message of
                             None \<Rightarrow> ret () (close_handler (Error ''CREATED AUTH did not verify'') h)
                           | Some KEY_SEED \<Rightarrow>
                               (case deriveHopKeys C KEY_SEED of
                                  Inl e \<Rightarrow> throw e h
                                | Inr hopKeys \<Rightarrow>
                                    ret () (settle (pnd_promise p) (Inr hopKeys)
                                      (h\<lparr>hdl_pendingCreate := None, hdl_createdReassembler := None, hdl_state := St_Idle\<rparr>))))))))"

definition on_relay :: "crypto \<Rightarrow> int \<Rightarrow> cell \<Rightarrow> 'x handler_scheme \<Rightarrow> (unit, 'x) handler_act" where
  "on_relay C now parsed h =
     (case decryptInbound C (hdl_circuit h) (cel_payload parsed) of
        Inl e \<Rightarrow> throw e h
      | Inr (peeled, circuit) \<Rightarrow>
          let (d, circuit) = dispatchInboundRelay C now circuit peeled;
              h = h\<lparr>hdl_circuit := circuit\<rparr>
          in (case d of
                No_Match \<Rightarrow> ret () h
              | Extended_Fragment i \<Rightarrow> ret () h
              | Extended i handshakeResponse \<Rightarrow>
                  if hdl_state h \<noteq> St_Extend then ret () h
                  else
                    (case hdl_pendingExtend h of
                       None \<Rightarrow> ret () h
                     | Some p \<Rightarrow>
                         (case clientFinish C (pnd_ntorState p) (pnd_B_pk p) (pnd_ID_R p) handshakeResponse of
                            None \<Rightarrow> ret () (close_handler (Error ''EXTENDED AUTH did not verify'') h)
                          | Some KEY_SEED \<Rightarrow>
                              (case deriveHopKeys C KEY_SEED of
                                 Inl e \<Rightarrow> throw e h
                               | Inr hopKeys \<Rightarrow>
                                   ret () (settle (pnd_promise p) (Inr hopKeys)
                                     (h\<lparr>hdl_pendingExtend := None, hdl_state := St_Idle\<rparr>)))))
              | Inbound_Data i relayCommand streamId data \<Rightarrow> emit (On_Data_Call i relayCommand streamId data) h))"

definition handler_onCell :: "crypto \<Rightarrow> int \<Rightarrow> cell \<Rightarrow> 'x handler_scheme \<Rightarrow> (unit, 'x) handler_act" where
  "handler_onCell C now parsed h =
     (if hdl_state h = St_Closed then ret () h
      else
        let h = h\<lparr>hdl_stats := bumpStat now (cel_command parsed) (hdl_stats h)\<rparr>
        in if cel_command parsed = CMD_CREATED then on_created C now parsed h
           else if cel_command parsed = CMD_RELAY then on_relay C now parsed h
           else if cel_command parsed = CMD_DESTROY then
             emit On_Destroy_Call (close_handler (Error ''peer sent DESTROY during build'') h)
           else ret () h)"

definition handler_close :: "'x handler_scheme \<Rightarrow> 'x handler_scheme" where
  "handler_close h = close_handler (Error ''circuit closed by caller'') h"

section \<open>Building a circuit\<close>

text \<open>The state of one call of \<open>buildCircuit\<close> beside its handler: the path, the hop whose keys are awaited, the promise
  awaited, whether its timer fired first, and the result.\<close>

record path =
  pth_guard :: rse
  pth_middle :: rse
  pth_exit :: rse

record builder = handler +
  bld_path :: path
  bld_entryLink :: link
  bld_circuitId :: nat
  bld_hop :: nat
  bld_awaits :: "nat option"
  bld_expired :: bool
  bld_result :: "unit res option"
  bld_router :: router

type_synonym build_act = "(unit, client_effect, builder) effectful"

record build_draws =
  bdr_xSeed :: bytes
  bdr_kemSeed :: bytes
  bdr_handshakeId :: int

text \<open>\<open>cleanup\<close>, and the rejection of the promise of \<open>buildCircuit\<close>.\<close>

definition build_fail :: "js_error \<Rightarrow> builder \<Rightarrow> build_act" where
  "build_fail err s =
     (let s = s\<lparr>bld_router := unregisterClientCircuit (bld_entryLink s) (bld_circuitId s) (bld_router s)\<rparr>;
          s = handler_close s;
          s = s\<lparr>bld_awaits := None, bld_result := Some (Inl err)\<rparr>
      in (case buildCell WIRE_VERSION_V2 (int (bld_circuitId s)) CMD_DESTROY (zeros LEN_CELL_PAYLOAD) of
            Inl e \<Rightarrow> ret () s
          | Inr c \<Rightarrow> emit (Entry_Cell c) s))"

text \<open>\<open>try { ... } catch (err) { cleanup(err); throw err; }\<close>\<close>

definition build_try :: "(unit, client_effect, builder) effectful \<Rightarrow> build_act" where
  "build_try a =
     (case a of
        (Inr u, es, s) \<Rightarrow> (Inr u, es, s)
      | (Inl err, es, s) \<Rightarrow> (case build_fail err s of (r, fs, s) \<Rightarrow> (r, es @ fs, s)))"

definition await_hop :: "nat \<Rightarrow> nat \<Rightarrow> builder \<Rightarrow> build_act" where
  "await_hop hop p = update (\<lambda>s. s\<lparr>bld_hop := hop, bld_awaits := Some p, bld_expired := False\<rparr>)"

definition start_hop0 :: "crypto \<Rightarrow> build_draws \<Rightarrow> bytes \<Rightarrow> builder \<Rightarrow> build_act" where
  "start_hop0 C w B_pk s =
     seq (lift (beginCreate C (bdr_xSeed w) (bdr_kemSeed w) (bdr_handshakeId w) (int (bld_circuitId s))) s)
       (\<lambda>(cells, ntorState, _) s.
     seq (handler_beginCreate ntorState B_pk (rse_fingerprint (pth_guard (bld_path s))) s) (\<lambda>p s.
     seq (for_each (\<lambda>c. emit (Entry_Cell c)) cells s) (\<lambda>_.
       await_hop 0 p)))"

definition start_extend :: "crypto \<Rightarrow> rse list \<Rightarrow> build_draws \<Rightarrow> nat \<Rightarrow> rse \<Rightarrow> builder \<Rightarrow> build_act" where
  "start_extend C rses w hop target s =
     (case peerResolver rses (rse_fingerprint target) of
        None \<Rightarrow> throw (TypeError ''Cannot read properties of null'') s
      | Some peer \<Rightarrow>
          seq (lift (beginExtend C (bdr_xSeed w) (bdr_kemSeed w) (bdr_handshakeId w) (hdl_circuit s) (rse_fingerprint target)
                 (rpe_B_pk peer)) s) (\<lambda>(cells, ntorState, _, circuit) s.
          seq (handler_beginExtend ntorState (rpe_B_pk peer) (rse_fingerprint target) (s\<lparr>hdl_circuit := circuit\<rparr>)) (\<lambda>p s.
          seq (for_each (\<lambda>c. emit (Entry_Cell c)) cells s) (\<lambda>_.
            await_hop hop p))))"

text \<open>Up to the first \<open>await\<close> on a handshake: the guard is resolved and the link to it, once opened, is an argument.\<close>

definition build_start :: "crypto \<Rightarrow> rse list \<Rightarrow> build_draws \<Rightarrow> path \<Rightarrow> link \<Rightarrow> nat \<Rightarrow> nat \<Rightarrow> router \<Rightarrow> js_error + (unit res \<times> client_effect list \<times> builder)" where
  "build_start C rses w path entryLink circuitId handlerId router =
     (case peerResolver rses (rse_fingerprint (pth_guard path)) of
        None \<Rightarrow> Inl (Error ''guard not resolvable via consensus'')
      | Some guardInfo \<Rightarrow>
          let circuit = createClientCircuit (int circuitId);
              h = createHandler circuit;
              s = handler.extend h \<lparr>bld_path = path, bld_entryLink = entryLink, bld_circuitId = circuitId, bld_hop = 0,
                bld_awaits = None, bld_expired = False, bld_result = None,
                bld_router = registerClientCircuit entryLink circuitId handlerId router\<rparr>
          in Inr (build_try (start_hop0 C w (rpe_B_pk guardInfo) s)))"

text \<open>The continuation of an \<open>await\<close>: the hop is added, and the next handshake is started or the circuit is done.\<close>

definition build_continue :: "crypto \<Rightarrow> rse list \<Rightarrow> build_draws \<Rightarrow> hop_keys \<Rightarrow> builder \<Rightarrow> build_act" where
  "build_continue C rses w hopKeys s =
     seq (lift (addHop (hdl_circuit s) hopKeys) s) (\<lambda>circuit s.
       let s = s\<lparr>hdl_circuit := circuit, bld_awaits := None\<rparr>
       in if bld_hop s = 0 then start_extend C rses w 1 (pth_middle (bld_path s)) s
          else if bld_hop s = 1 then start_extend C rses w 2 (pth_exit (bld_path s)) s
          else update (\<lambda>s. s\<lparr>bld_result := Some (Inr ())\<rparr>) s)"

definition build_resume :: "crypto \<Rightarrow> rse list \<Rightarrow> build_draws \<Rightarrow> builder \<Rightarrow> build_act" where
  "build_resume C rses w s =
     (case bld_awaits s of
        None \<Rightarrow> ret () s
      | Some p \<Rightarrow>
          if bld_expired s then build_fail (Error ''timeout'') s
          else
            (case hdl_promises s ! p of
               None \<Rightarrow> ret () s
             | Some (Inl err) \<Rightarrow> build_fail err s
             | Some (Inr hopKeys) \<Rightarrow> build_try (build_continue C rses w hopKeys s)))"

text \<open>The timer of \<open>withTimeout\<close>.\<close>

definition build_timer :: "builder \<Rightarrow> builder" where
  "build_timer s =
     (case bld_awaits s of
        None \<Rightarrow> s
      | Some p \<Rightarrow> if hdl_promises s ! p = None then s\<lparr>bld_expired := True\<rparr> else s)"

text \<open>One step of a build: a cell that the router hands to the handler (which swallows what it throws), the timer, or the
  continuation.\<close>

datatype build_event = Build_Cell int cell | Build_Timer | Build_Resume build_draws

definition build_step :: "crypto \<Rightarrow> rse list \<Rightarrow> build_event \<Rightarrow> builder \<Rightarrow> build_act" where
  "build_step C rses ev s =
     (case ev of
        Build_Cell now parsed \<Rightarrow> swallow (handler_onCell C now parsed s)
      | Build_Timer \<Rightarrow> ret () (build_timer s)
      | Build_Resume w \<Rightarrow> build_resume C rses w s)"

fun build_run :: "crypto \<Rightarrow> rse list \<Rightarrow> build_event list \<Rightarrow> builder \<Rightarrow> builder" where
  "build_run C rses [] s = s"
| "build_run C rses (ev # evs) s = build_run C rses evs (snd (snd (build_step C rses ev s)))"

end
