(* ===== verification/V2_Client_Props.thy ===== *)
theory V2_Client_Props
  imports V2_Client V2_Handshake
begin

text \<open>
  The promises of a circuit under construction, what a finished circuit consists of, that every build comes to an end, and
  where the router sends a cell.
\<close>

section \<open>Operations keep the keys of the hops\<close>

definition hop_keys_of :: "client_hop \<Rightarrow> hop_keys" where
  "hop_keys_of h = \<lparr>hop_Kf = chp_Kf h, hop_Kb = chp_Kb h, hop_Kdf = chp_Kdf h, hop_Kdb = chp_Kdb h\<rparr>"

abbreviation circuit_keys :: "circuit \<Rightarrow> hop_keys list" where
  "circuit_keys c \<equiv> map hop_keys_of (cct_hops c)"

named_theorems same_keys \<open>operations that keep the keys of the hops\<close>

lemma encrypt_keys: "encrypt_hops C hops p = Inr (q, hops') \<Longrightarrow> map hop_keys_of hops' = map hop_keys_of hops"
  by (induction hops arbitrary: q hops') (auto simp: hop_keys_of_def split: sum.splits)

lemma decrypt_keys: "decrypt_hops C hops p = Inr (q, hops') \<Longrightarrow> map hop_keys_of hops' = map hop_keys_of hops"
  by (induction hops arbitrary: p q hops') (auto simp: hop_keys_of_def split: sum.splits)

lemma encryptOutbound_keys [same_keys]: "encryptOutbound C c p = Inr (q, c') \<Longrightarrow> circuit_keys c' = circuit_keys c"
  by (auto simp: encryptOutbound_def encrypt_keys split: if_splits sum.splits)

lemma decryptInbound_keys [same_keys]: "decryptInbound C c p = Inr (q, c') \<Longrightarrow> circuit_keys c' = circuit_keys c"
  by (auto simp: decryptInbound_def decrypt_keys split: if_splits sum.splits)

lemma dispatch_keys: "dispatch_loop C now p i hops = (ev, hops') \<Longrightarrow> map hop_keys_of hops' = map hop_keys_of hops"
proof (induction hops arbitrary: i ev hops')
  case (Cons hop hops)
  show ?case
    using Cons.prems Cons.IH [of "i + 1"]
    by (auto simp: Let_def hop_keys_of_def split: prod.splits consumed.splits ingested.splits if_splits)
qed simp

lemma dispatchInboundRelay_keys [same_keys]:
  "dispatchInboundRelay C now c p = (ev, c') \<Longrightarrow> circuit_keys c' = circuit_keys c"
  by (auto simp: dispatchInboundRelay_def dispatch_keys split: prod.splits)

lemma digest_keys: "map hop_keys_of (update_last (chp_forwardDigest_update f) hops) = map hop_keys_of hops"
  by (induction hops rule: rev_induct) (simp_all add: update_last_def hop_keys_of_def)

lemma extend_cell_keys:
  assumes "extend_cell C c d = Inr (q, c')"
  shows "circuit_keys c' = circuit_keys c"
proof -
  obtain p dg x where "encryptOutbound C (c\<lparr>cct_hops := update_last (\<lambda>h. h\<lparr>chp_forwardDigest := dg\<rparr>) (cct_hops c)\<rparr>) p = Inr (x, c')"
    using assms by (auto simp: extend_cell_def split: sum.splits)
  from encryptOutbound_keys [OF this] show ?thesis by (simp add: digest_keys)
qed

lemma map_state_keys: "map_state (extend_cell C) c ds = Inr (qs, c') \<Longrightarrow> circuit_keys c' = circuit_keys c"
proof (induction ds arbitrary: c qs)
  case (Cons d ds)
  then show ?case using extend_cell_keys by (fastforce split: sum.splits)
qed simp

lemma beginExtend_keys [same_keys]:
  "beginExtend C xs ks hid c fp B = Inr (cells, st, hid', c') \<Longrightarrow> circuit_keys c' = circuit_keys c \<and> st = clientInit C xs ks"
  by (auto simp: beginExtend_def Let_def split: if_splits sum.splits dest: map_state_keys)

lemma addHop_keys: "addHop c k = Inr c' \<Longrightarrow> circuit_keys c' = circuit_keys c @ [k]"
  by (auto simp: addHop_def new_client_hop_def hop_keys_of_def split: sum.splits)

section \<open>Promises\<close>

definition pending_of :: "'x handler_scheme \<Rightarrow> pending option" where
  "pending_of h = (case hdl_pendingCreate h of Some p \<Rightarrow> Some p | None \<Rightarrow> hdl_pendingExtend h)"

text \<open>Which fields are set in which state, and: a promise is unsettled exactly if it is the one of the pending handshake.\<close>

definition handler_inv :: "'x handler_scheme \<Rightarrow> bool" where
  "handler_inv h \<longleftrightarrow>
     (hdl_pendingCreate h \<noteq> None \<longleftrightarrow> hdl_state h = St_Create) \<and> (hdl_createdReassembler h \<noteq> None \<longleftrightarrow> hdl_state h = St_Create)
   \<and> (hdl_pendingExtend h \<noteq> None \<longleftrightarrow> hdl_state h = St_Extend)
   \<and> (\<forall>i<length (hdl_promises h). hdl_promises h ! i = None \<longleftrightarrow> (\<exists>p. pending_of h = Some p \<and> pnd_promise p = i))
   \<and> (\<forall>p. pending_of h = Some p \<longrightarrow> pnd_promise p < length (hdl_promises h))"

lemma handler_inv_start: "handler_inv (createHandler c)"
  by (simp add: handler_inv_def createHandler_def pending_of_def)

lemma begin_inv:
  "handler_inv h \<Longrightarrow> handler_beginCreate st B ID h = (Inr p, es, h') \<Longrightarrow> handler_inv h'"
  "handler_inv h \<Longrightarrow> handler_beginExtend st B ID h = (Inr p, es, h') \<Longrightarrow> handler_inv h'"
  by (auto simp: handler_beginCreate_def handler_beginExtend_def handler_inv_def pending_of_def ret_def throw_def Let_def nth_append
      split: if_splits option.splits) force+

lemma close_inv: "handler_inv h \<Longrightarrow> handler_inv (close_handler e h)"
  by (auto simp: close_handler_def failPending_def settle_def handler_inv_def pending_of_def nth_list_update Let_def split: option.splits)

lemma close_pending: "pending_of (close_handler e h) = None" "hdl_state (close_handler e h) = St_Closed"
  by (auto simp: close_handler_def failPending_def settle_def pending_of_def Let_def split: option.splits)

lemma on_created_inv: "handler_inv h \<Longrightarrow> handler_inv (snd (snd (on_created C now parsed h)))"
  apply (simp add: on_created_def Let_def ret_def throw_def split: option.splits prod.splits ingested.splits sum.splits)
  apply (intro conjI impI allI close_inv)
  apply (auto simp: handler_inv_def pending_of_def settle_def nth_list_update)
  done

lemma on_relay_inv: "handler_inv h \<Longrightarrow> handler_inv (snd (snd (on_relay C now parsed h)))"
  apply (simp add: on_relay_def Let_def ret_def throw_def emit_def split: option.splits prod.splits inbound_event.splits sum.splits)
  apply (intro conjI impI allI close_inv)
  apply (auto simp: handler_inv_def pending_of_def settle_def nth_list_update)
  done

lemma onCell_inv: "handler_inv h \<Longrightarrow> handler_inv (snd (snd (handler_onCell C now parsed h)))"
proof -
  assume h: "handler_inv h"
  have s: "handler_inv (h\<lparr>hdl_stats := x\<rparr>)" for x using h by (simp add: handler_inv_def pending_of_def cong: option.case_cong)
  show ?thesis
    using h on_created_inv [OF s] on_relay_inv [OF s] close_inv [OF s]
    by (simp add: handler_onCell_def Let_def ret_def emit_def s)
qed

text \<open>The states that the handler reaches, whatever its caller and the network do.\<close>

inductive handler_reach :: "crypto \<Rightarrow> handler \<Rightarrow> bool" for C where
  start: "handler_reach C (createHandler c)"
| begin_create: "handler_reach C h \<Longrightarrow> handler_beginCreate st B ID h = (Inr p, es, h') \<Longrightarrow> handler_reach C h'"
| begin_extend: "handler_reach C h \<Longrightarrow> handler_beginExtend st B ID h = (Inr p, es, h') \<Longrightarrow> handler_reach C h'"
| on_cell: "handler_reach C h \<Longrightarrow> handler_onCell C now parsed h = (r, es, h') \<Longrightarrow> handler_reach C h'"
| circuit: "handler_reach C h \<Longrightarrow> handler_reach C (h\<lparr>hdl_circuit := c\<rparr>)"
| close: "handler_reach C h \<Longrightarrow> handler_reach C (handler_close h)"

lemma circuit_inv: "handler_inv h \<Longrightarrow> handler_inv (h\<lparr>hdl_circuit := c\<rparr>)"
  by (simp add: handler_inv_def pending_of_def cong: option.case_cong)

lemma handler_reach_inv: "handler_reach C h \<Longrightarrow> handler_inv h"
proof (induction rule: handler_reach.induct)
  case (on_cell h now parsed r es h')
  then show ?case using onCell_inv [OF on_cell.IH, of C now parsed] by simp
qed (auto intro: handler_inv_start begin_inv circuit_inv close_inv simp: handler_close_def)

text \<open>C17. No caller of a circuit handler waits for nothing: in every reachable state at most one promise is unsettled, it is the one
  of the handshake under way (and its handshake state and reassembler are there), and in a closed handler all are settled.\<close>

theorem handler_promises:
  assumes "handler_reach C h" "i < length (hdl_promises h)" "hdl_promises h ! i = None"
  shows "(hdl_state h = St_Create \<and> hdl_createdReassembler h \<noteq> None \<and> (\<exists>p. hdl_pendingCreate h = Some p \<and> pnd_promise p = i))
    \<or> (hdl_state h = St_Extend \<and> (\<exists>p. hdl_pendingExtend h = Some p \<and> pnd_promise p = i))"
  using handler_reach_inv [OF assms(1)] assms(2,3) by (auto simp: handler_inv_def pending_of_def split: option.splits)

section \<open>A finished circuit\<close>

definition same_build :: "builder \<Rightarrow> builder \<Rightarrow> bool" where
  "same_build s s' \<longleftrightarrow> bld_path s' = bld_path s \<and> bld_hop s' = bld_hop s \<and> bld_awaits s' = bld_awaits s
     \<and> bld_expired s' = bld_expired s \<and> bld_result s' = bld_result s"

text \<open>What one cell can do to the handler of a build: it settles at most the pending promise, with keys only if the handshake
  verifies, and starts no handshake.\<close>

definition settled_by :: "crypto \<Rightarrow> pending option \<Rightarrow> nat \<Rightarrow> hop_keys res option \<Rightarrow> bool" where
  "settled_by C pe i r \<longleftrightarrow> (\<exists>p. pe = Some p \<and> pnd_promise p = i \<and> (case r of
      None \<Rightarrow> False | Some (Inl e) \<Rightarrow> True
    | Some (Inr k) \<Rightarrow> \<exists>msg seed. clientFinish C (pnd_ntorState p) (pnd_B_pk p) (pnd_ID_R p) msg = Some seed \<and> deriveHopKeys C seed = Inr k))"

definition cell_step :: "crypto \<Rightarrow> builder \<Rightarrow> builder \<Rightarrow> bool" where
  "cell_step C s s' \<longleftrightarrow> same_build s s' \<and> circuit_keys (hdl_circuit s') = circuit_keys (hdl_circuit s)
     \<and> length (hdl_promises s') = length (hdl_promises s) \<and> (pending_of s' = pending_of s \<or> pending_of s' = None)
     \<and> (\<forall>i. hdl_promises s' ! i = hdl_promises s ! i \<or> settled_by C (pending_of s) i (hdl_promises s' ! i))"

lemma cell_step_refl: "cell_step C s s" by (simp add: cell_step_def same_build_def)

lemma cell_step_close: "handler_inv s \<Longrightarrow> cell_step C s (close_handler e s)"
  by (auto simp: handler_inv_def cell_step_def same_build_def close_handler_def failPending_def settle_def pending_of_def settled_by_def
      nth_list_update Let_def split: option.splits)

lemma cell_step_pre:
  assumes "cell_step C s0 s'" "same_build s s0" "hdl_promises s0 = hdl_promises s" "pending_of s0 = pending_of s"
    "circuit_keys (hdl_circuit s0) = circuit_keys (hdl_circuit s)"
  shows "cell_step C s s'"
  using assms by (simp add: cell_step_def same_build_def)

lemma cell_step_settle:
  assumes "pending_of s = Some p" "clientFinish C (pnd_ntorState p) (pnd_B_pk p) (pnd_ID_R p) msg = Some seed" "deriveHopKeys C seed = Inr k"
    and "same_build s s0" "hdl_promises s0 = hdl_promises s" "pending_of s0 = None" "hdl_circuit s0 = hdl_circuit s"
  shows "cell_step C s (settle (pnd_promise p) (Inr k) s0)"
  using assms by (auto simp: cell_step_def same_build_def settle_def settled_by_def nth_list_update pending_of_def
      cong: option.case_cong split: option.splits)

lemma pending_upd [simp]:
  "pending_of (h\<lparr>hdl_stats := x\<rparr>) = pending_of h" "pending_of (h\<lparr>hdl_circuit := c\<rparr>) = pending_of h"
  "pending_of (h\<lparr>hdl_createdReassembler := r\<rparr>) = pending_of h" "pending_of (h\<lparr>hdl_state := st\<rparr>) = pending_of h"
  by (simp_all add: pending_of_def cong: option.case_cong)

lemma on_created_step:
  assumes "handler_inv s"
  shows "cell_step C s (snd (snd (on_created C now parsed (s :: builder))))"
proof (cases "hdl_state s = St_Create \<and> hdl_createdReassembler s \<noteq> None")
  case True
  then obtain reasm where a: "hdl_state s = St_Create" "hdl_createdReassembler s = Some reasm" by blast
  then obtain p where p: "hdl_pendingCreate s = Some p" and ne: "hdl_pendingExtend s = None"
    using assms by (auto simp: handler_inv_def)
  obtain r reasm' where i: "ingest now (cel_payload parsed) reasm = (r, reasm')" by fastforce
  let ?s = "s\<lparr>hdl_createdReassembler := Some reasm'\<rparr>"
  have pre: "same_build s ?s" "hdl_promises ?s = hdl_promises s" "pending_of ?s = pending_of s" "hdl_circuit ?s = hdl_circuit s"
    by (simp_all add: same_build_def)
  have inv: "handler_inv ?s" using assms a by (simp add: handler_inv_def)
  have po: "pending_of s = Some p" using p by (simp add: pending_of_def)
  show ?thesis
  proof (cases r)
    case (Complete message)
    show ?thesis
    proof (cases "clientFinish C (pnd_ntorState p) (pnd_B_pk p) (pnd_ID_R p) message")
      case None
      then show ?thesis
        using cell_step_pre [OF cell_step_close [OF inv] pre(1-3)] pre(4) a p i Complete by (simp add: on_created_def ret_def)
    next
      case (Some seed)
      show ?thesis
      proof (cases "deriveHopKeys C seed")
        case (Inl e)
        then show ?thesis
          using cell_step_pre [OF cell_step_refl pre(1-3)] pre(4) a p i Complete Some by (simp add: on_created_def throw_def)
      next
        case (Inr k)
        have "cell_step C s (settle (pnd_promise p) (Inr k)
            (?s\<lparr>hdl_pendingCreate := None, hdl_createdReassembler := None, hdl_state := St_Idle\<rparr>))"
          by (rule cell_step_settle [OF po Some Inr]) (use ne in \<open>simp_all add: same_build_def pending_of_def\<close>)
        then show ?thesis using a p i Complete Some Inr by (simp add: on_created_def ret_def)
      qed
    qed
  qed (use cell_step_pre [OF cell_step_close [OF inv] pre(1-3)] cell_step_pre [OF cell_step_refl pre(1-3)] pre(4) a i in
      \<open>simp_all add: on_created_def ret_def\<close>)
next
  case False
  then show ?thesis by (auto simp: on_created_def ret_def throw_def cell_step_refl split: option.splits)
qed

lemma on_relay_step:
  assumes "handler_inv s"
  shows "cell_step C s (snd (snd (on_relay C now parsed (s :: builder))))"
proof (cases "decryptInbound C (hdl_circuit s) (cel_payload parsed)")
  case (Inl e)
  then show ?thesis by (simp add: on_relay_def throw_def cell_step_refl)
next
  case (Inr qc)
  obtain q c where qc: "decryptInbound C (hdl_circuit s) (cel_payload parsed) = Inr (q, c)" using Inr by (cases qc) simp
  obtain d c' where d: "dispatchInboundRelay C now c q = (d, c')" by fastforce
  let ?s = "s\<lparr>hdl_circuit := c'\<rparr>"
  have keys: "circuit_keys c' = circuit_keys (hdl_circuit s)" using same_keys(2) [OF qc] same_keys(3) [OF d] by simp
  have pre: "same_build s ?s" "hdl_promises ?s = hdl_promises s" "pending_of ?s = pending_of s"
    "circuit_keys (hdl_circuit ?s) = circuit_keys (hdl_circuit s)" using keys by (simp_all add: same_build_def)
  have inv: "handler_inv ?s" using assms by (simp add: handler_inv_def)
  note stay = cell_step_pre [OF cell_step_refl pre] and closed = cell_step_pre [OF cell_step_close [OF inv] pre]
  show ?thesis
  proof (cases d)
    case (Extended i resp)
    show ?thesis
    proof (cases "hdl_state s = St_Extend \<and> hdl_pendingExtend s \<noteq> None")
      case True
      then obtain p where p: "hdl_state s = St_Extend" "hdl_pendingExtend s = Some p" and nc: "hdl_pendingCreate s = None"
        using assms by (auto simp: handler_inv_def)
      have po: "pending_of ?s = Some p" using p nc by (simp add: pending_of_def)
      show ?thesis
      proof (cases "clientFinish C (pnd_ntorState p) (pnd_B_pk p) (pnd_ID_R p) resp")
        case None
        then show ?thesis using closed qc d Extended p by (simp add: on_relay_def ret_def)
      next
        case (Some seed)
        show ?thesis
        proof (cases "deriveHopKeys C seed")
          case (Inl e)
          then show ?thesis using stay qc d Extended p Some by (simp add: on_relay_def throw_def)
        next
          case (Inr k)
          have "cell_step C ?s (settle (pnd_promise p) (Inr k) (?s\<lparr>hdl_pendingExtend := None, hdl_state := St_Idle\<rparr>))"
            by (rule cell_step_settle [OF po Some Inr]) (use nc in \<open>simp_all add: same_build_def pending_of_def\<close>)
          then show ?thesis using cell_step_pre [OF _ pre] qc d Extended p Some Inr by (simp add: on_relay_def ret_def)
        qed
      qed
    next
      case False
      then show ?thesis using stay qc d Extended by (auto simp: on_relay_def ret_def Let_def split: option.splits)
    qed
  qed (use stay qc d in \<open>simp_all add: on_relay_def ret_def emit_def\<close>)
qed

lemma onCell_step:
  assumes "handler_inv s"
  shows "cell_step C s (snd (snd (handler_onCell C now parsed (s :: builder))))"
proof -
  have pre: "same_build s (s\<lparr>hdl_stats := x\<rparr>)" "hdl_promises (s\<lparr>hdl_stats := x\<rparr>) = hdl_promises s"
    "pending_of (s\<lparr>hdl_stats := x\<rparr>) = pending_of s" "circuit_keys (hdl_circuit (s\<lparr>hdl_stats := x\<rparr>)) = circuit_keys (hdl_circuit s)"
    for x by (simp_all add: same_build_def)
  have inv: "handler_inv (s\<lparr>hdl_stats := x\<rparr>)" for x using assms by (simp add: handler_inv_def)
  show ?thesis
    using cell_step_refl [of C s] cell_step_pre [OF cell_step_refl pre] cell_step_pre [OF on_created_step [OF inv] pre]
      cell_step_pre [OF on_relay_step [OF inv] pre] cell_step_pre [OF cell_step_close [OF inv] pre]
    by (simp add: handler_onCell_def Let_def ret_def emit_def)
qed

text \<open>Keys that were accepted for a relay of the path: the client's own handshake state, the relay's onion key from the consensus and
  its fingerprint verified the answer they are derived from.\<close>

definition hop_rse :: "path \<Rightarrow> nat \<Rightarrow> rse" where
  "hop_rse path i = (if i = 0 then pth_guard path else if i = 1 then pth_middle path else pth_exit path)"

definition authenticated :: "crypto \<Rightarrow> rse list \<Rightarrow> rse \<Rightarrow> hop_keys \<Rightarrow> bool" where
  "authenticated C rses r k \<longleftrightarrow> (\<exists>peer xs ks msg seed. peerResolver rses (rse_fingerprint r) = Some peer
     \<and> clientFinish C (clientInit C xs ks) (rpe_B_pk peer) (rse_fingerprint r) msg = Some seed \<and> deriveHopKeys C seed = Inr k)"

definition pending_for :: "crypto \<Rightarrow> rse list \<Rightarrow> rse \<Rightarrow> pending \<Rightarrow> bool" where
  "pending_for C rses r p \<longleftrightarrow> (\<exists>peer xs ks. peerResolver rses (rse_fingerprint r) = Some peer
     \<and> pnd_ntorState p = clientInit C xs ks \<and> pnd_B_pk p = rpe_B_pk peer \<and> pnd_ID_R p = rse_fingerprint r)"

definition hops_for :: "crypto \<Rightarrow> rse list \<Rightarrow> path \<Rightarrow> nat \<Rightarrow> circuit \<Rightarrow> bool" where
  "hops_for C rses path n c \<longleftrightarrow> length (cct_hops c) = n \<and> (\<forall>i<n. authenticated C rses (hop_rse path i) (circuit_keys c ! i))"

definition awaiting :: "crypto \<Rightarrow> rse list \<Rightarrow> nat \<Rightarrow> builder \<Rightarrow> bool" where
  "awaiting C rses p s \<longleftrightarrow> bld_awaits s = Some p \<and> p < length (hdl_promises s) \<and> bld_hop s \<le> 2
     \<and> hops_for C rses (bld_path s) (bld_hop s) (hdl_circuit s)
     \<and> (\<forall>k. hdl_promises s ! p = Some (Inr k) \<longrightarrow> authenticated C rses (hop_rse (bld_path s) (bld_hop s)) k)
     \<and> (\<forall>pe. pending_of s = Some pe \<longrightarrow> pnd_promise pe = p \<and> pending_for C rses (hop_rse (bld_path s) (bld_hop s)) pe)"

definition build_inv :: "crypto \<Rightarrow> rse list \<Rightarrow> path \<Rightarrow> builder \<Rightarrow> bool" where
  "build_inv C rses path s \<longleftrightarrow> bld_path s = path \<and> handler_inv s \<and> (case bld_result s of
      None \<Rightarrow> \<exists>p. awaiting C rses p s
    | Some (Inr u) \<Rightarrow> bld_awaits s = None \<and> hops_for C rses (bld_path s) 3 (hdl_circuit s)
    | Some (Inl e) \<Rightarrow> bld_awaits s = None)"

lemma hops_for_keys: "circuit_keys c' = circuit_keys c \<Longrightarrow> hops_for C rses path n c' = hops_for C rses path n c"
  using map_eq_imp_length_eq [of hop_keys_of "cct_hops c'" hop_keys_of "cct_hops c"] by (simp add: hops_for_def)

lemma awaiting_step:
  assumes "awaiting C rses p s" "cell_step C s s'"
  shows "awaiting C rses p s'"
proof -
  note a = assms(1)[unfolded awaiting_def] and b = assms(2)[unfolded cell_step_def same_build_def]
  have "authenticated C rses (hop_rse (bld_path s) (bld_hop s)) k" if k: "hdl_promises s' ! p = Some (Inr k)" for k
  proof (cases "hdl_promises s' ! p = hdl_promises s ! p")
    case True
    then show ?thesis using a k by simp
  next
    case False
    then have "settled_by C (pending_of s) p (hdl_promises s' ! p)" using b by blast
    then obtain pe msg seed where pe: "pending_of s = Some pe"
      "clientFinish C (pnd_ntorState pe) (pnd_B_pk pe) (pnd_ID_R pe) msg = Some seed" "deriveHopKeys C seed = Inr k"
      using k by (auto simp: settled_by_def)
    then have "pending_for C rses (hop_rse (bld_path s) (bld_hop s)) pe" using a by blast
    then show ?thesis using pe(2,3) unfolding pending_for_def authenticated_def by metis
  qed
  moreover have "hops_for C rses (bld_path s) (bld_hop s) (hdl_circuit s')"
    using a b hops_for_keys [of "hdl_circuit s'" "hdl_circuit s"] by simp
  ultimately show ?thesis using a b unfolding awaiting_def by auto
qed

lemma cell_inv:
  assumes "build_inv C rses path s"
  shows "build_inv C rses path (snd (snd (handler_onCell C now parsed s)))"
proof -
  let ?s = "snd (snd (handler_onCell C now parsed s))"
  have h: "handler_inv s" using assms by (simp add: build_inv_def)
  have st: "cell_step C s ?s" by (rule onCell_step [OF h])
  have same: "bld_result ?s = bld_result s" "bld_awaits ?s = bld_awaits s" "bld_path ?s = bld_path s"
    "circuit_keys (hdl_circuit ?s) = circuit_keys (hdl_circuit s)"
    using st by (simp_all add: cell_step_def same_build_def)
  show ?thesis
    using assms onCell_inv [OF h, of C now parsed] awaiting_step [OF _ st] hops_for_keys [OF same(4)]
    by (auto simp: build_inv_def same split: option.splits sum.splits)
qed

lemma close_path [simp]: "bld_path (close_handler e s) = bld_path s"
  by (simp add: close_handler_def failPending_def settle_def Let_def split: option.splits)

lemma fail_inv: "handler_inv s \<Longrightarrow> bld_path s = path \<Longrightarrow> build_inv C rses path (snd (snd (build_fail e s)))"
proof -
  assume h: "handler_inv s" and p: "bld_path s = path"
  have "handler_inv (s\<lparr>bld_router := r\<rparr>)" for r using h by (simp add: handler_inv_def pending_of_def cong: option.case_cong)
  from close_inv [OF this]
  have "handler_inv ((close_handler x (s\<lparr>bld_router := r\<rparr>))\<lparr>bld_awaits := None, bld_result := Some (Inl e)\<rparr>)" for r x
    by (simp add: handler_inv_def pending_of_def cong: option.case_cong)
  then show ?thesis using p
    by (auto simp: build_fail_def build_inv_def handler_close_def Let_def ret_def emit_def split: sum.splits)
qed

lemma for_each_emit: "for_each (\<lambda>c. emit (f c)) cs s = (Inr (), map f cs, s)"
  by (induction cs) (simp_all add: ret_def emit_def seq_def)

lemma begin_extend_idle:
  "hdl_state h = St_Idle \<Longrightarrow> handler_beginExtend st B ID h = ret (length (hdl_promises h)) (h\<lparr>hdl_state := St_Extend,
     hdl_promises := hdl_promises h @ [None], hdl_pendingExtend := Some \<lparr>pnd_ntorState = st, pnd_B_pk = B, pnd_ID_R = ID,
       pnd_promise = length (hdl_promises h)\<rparr>\<rparr>)"
  by (simp add: handler_beginExtend_def Let_def)

lemma start_extend_cases:
  obtains (refused) e es where "start_extend C rses w hop target s = (Inl e, es, s)"
  | (closed) e es c where "start_extend C rses w hop target s = (Inl e, es, s\<lparr>hdl_circuit := c\<rparr>)"
  | (started) peer cells st hid c es where "peerResolver rses (rse_fingerprint target) = Some peer" "hdl_state s = St_Idle"
    "beginExtend C (bdr_xSeed w) (bdr_kemSeed w) (bdr_handshakeId w) (hdl_circuit s) (rse_fingerprint target) (rpe_B_pk peer)
      = Inr (cells, st, hid, c)"
    "start_extend C rses w hop target s = (Inr (), es, s\<lparr>hdl_circuit := c, hdl_state := St_Extend,
      hdl_promises := hdl_promises s @ [None], hdl_pendingExtend := Some \<lparr>pnd_ntorState = st, pnd_B_pk = rpe_B_pk peer,
        pnd_ID_R = rse_fingerprint target, pnd_promise = length (hdl_promises s)\<rparr>,
      bld_hop := hop, bld_awaits := Some (length (hdl_promises s)), bld_expired := False\<rparr>)"
proof (cases "peerResolver rses (rse_fingerprint target)")
  case None
  then show ?thesis using refused by (simp add: start_extend_def throw_def)
next
  case (Some peer)
  let ?b = "beginExtend C (bdr_xSeed w) (bdr_kemSeed w) (bdr_handshakeId w) (hdl_circuit s) (rse_fingerprint target) (rpe_B_pk peer)"
  show ?thesis
  proof (cases ?b)
    case (Inl e)
    then show ?thesis using refused Some by (simp add: start_extend_def lift_def seq_def)
  next
    case (Inr r)
    obtain cells st hid c where b: "?b = Inr (cells, st, hid, c)" using Inr by (cases r) auto
    show ?thesis
    proof (cases "hdl_state s = St_Idle")
      case True
      then show ?thesis
        using started [OF Some True b] Some b
        by (simp add: start_extend_def lift_def seq_def begin_extend_idle ret_def for_each_emit await_hop_def update_def)
    next
      case False
      then show ?thesis
        using closed [of _ _ c] Some b by (simp add: start_extend_def lift_def seq_def handler_beginExtend_def throw_def)
    qed
  qed
qed

lemma start_extend_inv:
  assumes "handler_inv s" "bld_result s = None" "hop \<le> 2" "hops_for C rses (bld_path s) hop (hdl_circuit s)"
    and "start_extend C rses w hop (hop_rse (bld_path s) hop) s = (r, es, s')"
  shows "handler_inv s' \<and> bld_path s' = bld_path s \<and> (r = Inr () \<longrightarrow> build_inv C rses (bld_path s) s')"
proof (cases rule: start_extend_cases [of C rses w hop "hop_rse (bld_path s) hop" s])
  case (started peer cells st hid c es)
  note k = beginExtend_keys [OF started(3)]
  have ne: "hdl_pendingCreate s = None" "hdl_pendingExtend s = None" "hdl_createdReassembler s = None"
    "\<forall>i<length (hdl_promises s). hdl_promises s ! i \<noteq> None"
    using assms(1) started(2) by (auto simp: handler_inv_def pending_of_def)
  have s': "r = Inr ()" "s' = s\<lparr>hdl_circuit := c, hdl_state := St_Extend,
      hdl_promises := hdl_promises s @ [None], hdl_pendingExtend := Some \<lparr>pnd_ntorState = st, pnd_B_pk = rpe_B_pk peer,
        pnd_ID_R = rse_fingerprint (hop_rse (bld_path s) hop), pnd_promise = length (hdl_promises s)\<rparr>,
      bld_hop := hop, bld_awaits := Some (length (hdl_promises s)), bld_expired := False\<rparr>"
    using assms(5) started(4) by simp_all
  have h: "handler_inv s'" using ne unfolding s'(2) by (auto simp: handler_inv_def pending_of_def nth_append)
  have "hops_for C rses (bld_path s) hop c" using assms(4) hops_for_keys [of c "hdl_circuit s"] k by simp
  moreover have "pending_for C rses (hop_rse (bld_path s) hop) \<lparr>pnd_ntorState = st, pnd_B_pk = rpe_B_pk peer,
      pnd_ID_R = rse_fingerprint (hop_rse (bld_path s) hop), pnd_promise = length (hdl_promises s)\<rparr>"
    using started(1) k by (auto simp: pending_for_def)
  ultimately have "awaiting C rses (length (hdl_promises s)) s'"
    using assms(3) ne unfolding s'(2) by (simp add: awaiting_def pending_of_def nth_append)
  moreover have "bld_result s' = None" "bld_path s' = bld_path s" using assms(2) unfolding s'(2) by simp_all
  ultimately show ?thesis using h by (auto simp: build_inv_def)
next
  case (refused e es)
  then show ?thesis using assms(1,5) by simp
next
  case (closed e es c)
  then have "r = Inl e" "s' = s\<lparr>hdl_circuit := c\<rparr>" using assms(5) by simp_all
  then show ?thesis using circuit_inv [OF assms(1), of c] by simp
qed

lemma try_inv:
  assumes "handler_inv (snd (snd a))" "bld_path (snd (snd a)) = path" "fst a = Inr () \<longrightarrow> build_inv C rses path (snd (snd a))"
  shows "build_inv C rses path (snd (snd (build_try a)))"
proof (cases a)
  case (fields r es s)
  show ?thesis
  proof (cases r)
    case (Inl e)
    obtain r' fs s' where f: "build_fail e s = (r', fs, s')" by (cases "build_fail e s")
    have a: "a = (Inl e, es, s)" using fields Inl by simp
    have "handler_inv s" "bld_path s = path" using assms(1,2) unfolding a by simp_all
    from fail_inv [OF this, of C rses e] show ?thesis unfolding a build_try_def f by (simp add: f)
  next
    case (Inr u)
    have a: "a = (Inr (), es, s)" using fields Inr by simp
    show ?thesis using assms(3) unfolding a build_try_def by simp
  qed
qed

lemma beginCreate_state: "beginCreate C xs ks hid cid = Inr (cells, st, hid') \<Longrightarrow> st = clientInit C xs ks"
  by (auto simp: beginCreate_def Let_def split: sum.splits)

lemma start_hop0_inv:
  assumes "hdl_state s = St_Idle" "handler_inv s" "bld_result s = None" "hdl_promises s = []" "cct_hops (hdl_circuit s) = []"
    and "peerResolver rses (rse_fingerprint (pth_guard (bld_path s))) = Some peer"
    and "start_hop0 C w (rpe_B_pk peer) s = (r, es, s')"
  shows "handler_inv s' \<and> bld_path s' = bld_path s \<and> (r = Inr () \<longrightarrow> build_inv C rses (bld_path s) s')"
proof (cases "beginCreate C (bdr_xSeed w) (bdr_kemSeed w) (bdr_handshakeId w) (int (bld_circuitId s))")
  case (Inl e)
  then show ?thesis using assms(2,7) by (auto simp: start_hop0_def lift_def seq_def)
next
  case (Inr x)
  obtain cells st hid where b: "beginCreate C (bdr_xSeed w) (bdr_kemSeed w) (bdr_handshakeId w) (int (bld_circuitId s)) = Inr (cells, st, hid)"
    using Inr by (cases x) auto
  let ?pe = "\<lparr>pnd_ntorState = st, pnd_B_pk = rpe_B_pk peer, pnd_ID_R = rse_fingerprint (pth_guard (bld_path s)), pnd_promise = 0\<rparr>"
  have s': "r = Inr ()" "s' = s\<lparr>hdl_state := St_Create, hdl_createdReassembler := Some defaultReassembler, hdl_promises := [None],
      hdl_pendingCreate := Some ?pe, bld_hop := 0, bld_awaits := Some 0, bld_expired := False\<rparr>"
    using assms(1,4,7) b
    by (auto simp: start_hop0_def lift_def seq_def handler_beginCreate_def Let_def ret_def for_each_emit await_hop_def update_def)
  have h: "handler_inv s'" using assms(1,2) unfolding s'(2) by (auto simp: handler_inv_def pending_of_def)
  have "awaiting C rses 0 s'"
    using assms(5,6) beginCreate_state [OF b] unfolding s'(2)
    by (auto simp: awaiting_def pending_of_def hops_for_def pending_for_def hop_rse_def)
  moreover have "bld_result s' = None" "bld_path s' = bld_path s" using assms(3) unfolding s'(2) by simp_all
  ultimately show ?thesis using h by (auto simp: build_inv_def)
qed

lemma start_inv:
  assumes "build_start C rses w path l cid hid router = Inr (r, es, s)"
  shows "build_inv C rses path s"
proof -
  obtain peer where peer: "peerResolver rses (rse_fingerprint (pth_guard path)) = Some peer"
    using assms by (auto simp: build_start_def split: option.splits)
  let ?s = "handler.extend (createHandler (createClientCircuit (int cid))) \<lparr>bld_path = path, bld_entryLink = l, bld_circuitId = cid,
    bld_hop = 0, bld_awaits = None, bld_expired = False, bld_result = None, bld_router = registerClientCircuit l cid hid router\<rparr>"
  have run: "(r, es, s) = build_try (start_hop0 C w (rpe_B_pk peer) ?s)" using assms peer by (simp add: build_start_def Let_def)
  have s: "hdl_state ?s = St_Idle" "handler_inv ?s" "bld_result ?s = None" "hdl_promises ?s = []" "cct_hops (hdl_circuit ?s) = []" "bld_path ?s = path"
    by (simp_all add: createHandler_def createClientCircuit_def handler.defs handler_inv_def pending_of_def)
  obtain r' es' s' where x: "start_hop0 C w (rpe_B_pk peer) ?s = (r', es', s')" by (cases "start_hop0 C w (rpe_B_pk peer) ?s")
  have "build_inv C rses path (snd (snd (build_try (r', es', s'))))"
    by (rule try_inv) (use start_hop0_inv [OF s(1-5) _ x] peer s(6) in simp_all)
  then show ?thesis using run unfolding x by (metis snd_conv)
qed

lemma addHop_for:
  assumes "hops_for C rses path n c" "authenticated C rses (hop_rse path n) k" "addHop c k = Inr c'"
  shows "hops_for C rses path (Suc n) c'"
proof -
  have k: "circuit_keys c' = circuit_keys c @ [k]" by (rule addHop_keys [OF assms(3)])
  then have l: "length (cct_hops c') = Suc (length (cct_hops c))" using map_eq_imp_length_eq [of hop_keys_of "cct_hops c'" id "circuit_keys c @ [k]"] by simp
  show ?thesis using assms(1,2) l k by (auto simp: hops_for_def nth_append less_Suc_eq)
qed

lemma continue_inv:
  assumes "build_inv C rses path s" "bld_result s = None" "awaiting C rses p s" "hdl_promises s ! p = Some (Inr k)"
    and "build_continue C rses w k s = (r, es, s')"
  shows "handler_inv s' \<and> bld_path s' = path \<and> (r = Inr () \<longrightarrow> build_inv C rses path s')"
proof (cases "addHop (hdl_circuit s) k")
  case (Inl e)
  then show ?thesis using assms(1,5) by (auto simp: build_continue_def lift_def seq_def build_inv_def)
next
  case (Inr c)
  let ?s = "s\<lparr>hdl_circuit := c, bld_awaits := None\<rparr>"
  have p: "bld_path s = path" and h: "handler_inv s" using assms(1) by (simp_all add: build_inv_def)
  have h': "handler_inv ?s" using circuit_inv [OF h, of c] by (simp add: handler_inv_def pending_of_def cong: option.case_cong)
  have hops: "hops_for C rses path (Suc (bld_hop s)) c"
    using assms(3,4) p by (intro addHop_for [OF _ _ Inr]) (simp_all add: awaiting_def)
  have run: "(r, es, s') = (if bld_hop s = 0 then start_extend C rses w 1 (pth_middle path) ?s
     else if bld_hop s = 1 then start_extend C rses w 2 (pth_exit path) ?s
     else (Inr (), [], ?s\<lparr>bld_result := Some (Inr ())\<rparr>))"
    using assms(5) Inr p by (auto simp: build_continue_def lift_def seq_def Let_def update_def split: prod.splits)
  consider "bld_hop s = 0" | "bld_hop s = 1" | "bld_hop s = 2" using assms(3) by (fastforce simp: awaiting_def)
  then show ?thesis
  proof cases
    case 1
    have x: "start_extend C rses w 1 (hop_rse (bld_path ?s) 1) ?s = (r, es, s')" using run 1 p by (simp add: hop_rse_def)
    from start_extend_inv [OF h' _ _ _ x] show ?thesis using assms(2) hops 1 p by simp
  next
    case 2
    have x: "start_extend C rses w 2 (hop_rse (bld_path ?s) 2) ?s = (r, es, s')" using run 2 p by (simp add: hop_rse_def)
    from start_extend_inv [OF h' _ _ _ x] show ?thesis using assms(2) hops 2 p by (simp add: numeral_2_eq_2)
  next
    case 3
    then have s': "r = Inr ()" "s' = ?s\<lparr>bld_result := Some (Inr ())\<rparr>" using run by simp_all
    have "handler_inv s'" using h' unfolding s'(2) by (simp add: handler_inv_def pending_of_def cong: option.case_cong)
    then show ?thesis using hops 3 p unfolding s' by (simp add: build_inv_def numeral_3_eq_3 numeral_2_eq_2)
  qed
qed

lemma step_inv:
  assumes "build_inv C rses path s"
  shows "build_inv C rses path (snd (snd (build_step C rses ev s)))"
proof (cases ev)
  case (Build_Cell now parsed)
  have "snd (snd (swallow a)) = snd (snd a)" for a :: build_act by (simp add: swallow_def split: prod.splits)
  then show ?thesis using cell_inv [OF assms] by (simp add: build_step_def Build_Cell)
next
  case Build_Timer
  have "handler_inv (s\<lparr>bld_expired := x\<rparr>) = handler_inv s" "pending_of (s\<lparr>bld_expired := x\<rparr>) = pending_of s" for x
    by (simp_all add: handler_inv_def pending_of_def cong: option.case_cong)
  then show ?thesis
    using assms
    by (auto simp: build_step_def Build_Timer ret_def build_timer_def build_inv_def awaiting_def split: option.splits sum.splits)
next
  case (Build_Resume w)
  have h: "handler_inv s" "bld_path s = path" using assms by (simp_all add: build_inv_def)
  show ?thesis
  proof (cases "bld_awaits s")
    case None
    then show ?thesis using assms by (simp add: build_step_def Build_Resume build_resume_def ret_def)
  next
    case (Some p)
    have res: "bld_result s = None" using assms Some by (auto simp: build_inv_def split: option.splits sum.splits)
    then have aw: "awaiting C rses p s" using assms Some by (auto simp: build_inv_def awaiting_def)
    show ?thesis
    proof (cases "bld_expired s")
      case True
      then show ?thesis using fail_inv [OF h] Some by (simp add: build_step_def Build_Resume build_resume_def)
    next
      case False
      show ?thesis
      proof (cases "hdl_promises s ! p")
        case None
        then show ?thesis using assms Some False by (simp add: build_step_def Build_Resume build_resume_def ret_def)
      next
        case (Some x)
        show ?thesis
        proof (cases x)
          case (Inl e)
          then show ?thesis using fail_inv [OF h] Some False \<open>bld_awaits s = Some p\<close>
            by (simp add: build_step_def Build_Resume build_resume_def)
        next
          case (Inr k)
          obtain r es s' where c: "build_continue C rses w k s = (r, es, s')" by (cases "build_continue C rses w k s")
          have "build_inv C rses path (snd (snd (build_try (r, es, s'))))"
            by (rule try_inv) (use continue_inv [OF assms res aw _ c] Some Inr in simp_all)
          then show ?thesis using Some Inr False \<open>bld_awaits s = Some p\<close> c
            by (simp add: build_step_def Build_Resume build_resume_def)
        qed
      qed
    qed
  qed
qed

lemma run_inv: "build_inv C rses path s \<Longrightarrow> build_inv C rses path (build_run C rses evs s)"
  by (induction evs arbitrary: s) (simp_all add: step_inv)

text \<open>C15. The hops of a circuit under construction are the relays of its path, under any order of cells, timers and continuations:
  unless the build has failed, the keys of each hop so far, three once the build is done, were accepted for the relay of the
  path at that position, derived from an answer that verified against the relay's fingerprint and its onion key in the
  consensus, and later cells do not change them.\<close>

theorem built_circuit_authentic:
  assumes "build_start C rses w path l cid hid router = Inr (r, es, s)"
  shows "let t = build_run C rses evs s; n = (if bld_result t = Some (Inr ()) then 3 else bld_hop t)
    in (\<exists>e. bld_result t = Some (Inl e))
      \<or> (length (circuit_keys (hdl_circuit t)) = n \<and> list_all (\<lambda>i. authenticated C rses (hop_rse path i) (circuit_keys (hdl_circuit t) ! i)) [0..<n])"
proof -
  let ?t = "build_run C rses evs s"
  have "build_inv C rses path ?t" by (rule run_inv [OF start_inv [OF assms(1)]])
  then have "(\<exists>e. bld_result ?t = Some (Inl e))
    \<or> hops_for C rses path (if bld_result ?t = Some (Inr ()) then 3 else bld_hop ?t) (hdl_circuit ?t)"
    unfolding build_inv_def by (cases "bld_result ?t") (auto simp: awaiting_def split: sum.splits)
  then show ?thesis unfolding Let_def hops_for_def by (auto simp: list_all_iff)
qed

section \<open>Every build ends\<close>

lemma fail_result: "bld_result (snd (snd (build_fail e s))) = Some (Inl e)"
  by (simp add: build_fail_def Let_def ret_def emit_def split: sum.splits)

lemma try_result:
  assumes "a = (r, es, s)"
  shows "bld_result (snd (snd (build_try a))) \<noteq> None \<or> (r = Inr () \<and> snd (snd (build_try a)) = s)"
proof (cases r)
  case (Inl e)
  then show ?thesis using fail_result [of e s] assms by (auto simp: build_try_def split: prod.splits)
next
  case (Inr u)
  then show ?thesis using assms by (simp add: build_try_def)
qed

lemma start_extend_hop: "start_extend C rses w hop target s = (Inr (), es, s') \<Longrightarrow> bld_hop s' = hop"
  by (cases rule: start_extend_cases [of C rses w hop target s]) auto

lemma continue_progress:
  assumes "build_continue C rses w k s = (Inr (), es, s')" "bld_hop s \<le> 2"
  shows "bld_result s' \<noteq> None \<or> bld_hop s' = Suc (bld_hop s)"
proof -
  obtain c where "addHop (hdl_circuit s) k = Inr c" using assms(1) by (auto simp: build_continue_def lift_def seq_def split: sum.splits)
  then have "(Inr (), es, s') = (if bld_hop s = 0 then start_extend C rses w 1 (pth_middle (bld_path s)) (s\<lparr>hdl_circuit := c, bld_awaits := None\<rparr>)
     else if bld_hop s = 1 then start_extend C rses w 2 (pth_exit (bld_path s)) (s\<lparr>hdl_circuit := c, bld_awaits := None\<rparr>)
     else (Inr (), [], s\<lparr>hdl_circuit := c, bld_awaits := None, bld_result := Some (Inr ())\<rparr>))"
    using assms(1) by (auto simp: build_continue_def lift_def seq_def Let_def update_def split: prod.splits)
  then show ?thesis
    using start_extend_hop [of C rses w 1 "pth_middle (bld_path s)" _ es s'] start_extend_hop [of C rses w 2 "pth_exit (bld_path s)" _ es s']
    by (auto split: if_splits dest: sym)
qed

lemma round_progress:
  fixes w :: build_draws
  assumes "build_inv C rses path s" "bld_result s = None"
  defines "s' \<equiv> build_run C rses [Build_Timer, Build_Resume w] s"
  shows "bld_result s' \<noteq> None \<or> bld_hop s' = Suc (bld_hop s)"
proof -
  obtain p where p: "awaiting C rses p s" using assms(1,2) by (auto simp: build_inv_def)
  then have a: "bld_awaits s = Some p" "bld_hop s \<le> 2" by (simp_all add: awaiting_def)
  show ?thesis
  proof (cases "hdl_promises s ! p = None \<or> bld_expired s")
    case True
    then show ?thesis
      using a fail_result by (auto simp: s'_def build_step_def ret_def build_timer_def build_resume_def)
  next
    case False
    then obtain x where x: "hdl_promises s ! p = Some x" "\<not> bld_expired s" by auto
    show ?thesis
    proof (cases x)
      case (Inl e)
      then show ?thesis using a x fail_result by (simp add: s'_def build_step_def ret_def build_timer_def build_resume_def)
    next
      case (Inr k)
      obtain r es t where c: "build_continue C rses w k s = (r, es, t)" by (cases "build_continue C rses w k s")
      have "s' = snd (snd (build_try (build_continue C rses w k s)))"
        using a x Inr by (simp add: s'_def build_step_def ret_def build_timer_def build_resume_def)
      then show ?thesis using try_result [OF c] continue_progress [of C rses w k s es t] a(2) c by auto
    qed
  qed
qed

lemma result_stays: "build_inv C rses path s \<Longrightarrow> bld_result s \<noteq> None \<Longrightarrow> bld_result (build_run C rses evs s) = bld_result s"
proof (induction evs arbitrary: s)
  case (Cons ev evs)
  have aw: "bld_awaits s = None" using Cons.prems unfolding build_inv_def by (cases "bld_result s") (auto split: sum.splits)
  have "bld_result (snd (snd (build_step C rses ev s))) = bld_result s"
  proof (cases ev)
    case (Build_Cell now parsed)
    have "snd (snd (swallow a)) = snd (snd a)" for a :: build_act by (simp add: swallow_def split: prod.splits)
    then show ?thesis
      using onCell_step [of s C now parsed] Cons.prems by (simp add: build_step_def Build_Cell cell_step_def same_build_def build_inv_def)
  qed (simp_all add: build_step_def build_timer_def build_resume_def aw ret_def)
  then show ?case using Cons.IH [OF step_inv [OF Cons.prems(1), of ev]] Cons.prems(2) by simp
qed simp

lemma run_append: "build_run C rses (xs @ ys) s = build_run C rses ys (build_run C rses xs s)"
  by (induction xs arbitrary: s) simp_all

lemma rounds_progress:
  "build_inv C rses path s \<Longrightarrow> bld_result s = None \<Longrightarrow>
   bld_result (build_run C rses (concat (map (\<lambda>w. [Build_Timer, Build_Resume w]) ws)) s) \<noteq> None
   \<or> bld_hop (build_run C rses (concat (map (\<lambda>w. [Build_Timer, Build_Resume w]) ws)) s) = bld_hop s + length ws"
proof (induction ws arbitrary: s)
  case (Cons w ws)
  let ?t = "build_run C rses [Build_Timer, Build_Resume w] s"
  have r: "build_run C rses (concat (map (\<lambda>w. [Build_Timer, Build_Resume w]) (w # ws))) s
      = build_run C rses (concat (map (\<lambda>w. [Build_Timer, Build_Resume w]) ws)) ?t" by simp
  have t: "build_inv C rses path ?t" by (rule run_inv [OF Cons.prems(1)])
  show ?case
  proof (cases "bld_result ?t")
    case None
    then show ?thesis using Cons.IH [OF t None] round_progress [OF Cons.prems, of w] unfolding r by simp
  next
    case (Some x)
    then show ?thesis using result_stays [OF t, of "concat (map (\<lambda>w. [Build_Timer, Build_Resume w]) ws)"] unfolding r by simp
  qed
qed simp

text \<open>C16. The promise of \<open>buildCircuit\<close> never stays open: whatever has happened, once the handshake timer has run out and the
  continuation has run three more times, once for each hop at most, the build has succeeded or failed.\<close>

theorem build_ends:
  assumes "build_start C rses w path l cid hid router = Inr (r, es, s)" "length ws = 3"
  shows "bld_result (build_run C rses (evs @ concat (map (\<lambda>w. [Build_Timer, Build_Resume w]) ws)) s) \<noteq> None"
proof -
  let ?s = "build_run C rses evs s" and ?evs = "concat (map (\<lambda>w. [Build_Timer, Build_Resume w]) ws)"
  have i: "build_inv C rses path ?s" by (rule run_inv [OF start_inv [OF assms(1)]])
  have j: "build_inv C rses path (build_run C rses ?evs ?s)" by (rule run_inv [OF i])
  show ?thesis
  proof (cases "bld_result ?s")
    case (Some x)
    then show ?thesis using result_stays [OF i, of ?evs] by (simp add: run_append)
  next
    case None
    have "bld_hop (build_run C rses ?evs ?s) \<le> 2" if n: "bld_result (build_run C rses ?evs ?s) = None"
    proof -
      obtain p where "awaiting C rses p (build_run C rses ?evs ?s)" using j n by (auto simp: build_inv_def)
      then show ?thesis by (simp add: awaiting_def)
    qed
    then show ?thesis using rounds_progress [OF i None, of ws] assms(2) unfolding run_append by fastforce
  qed
qed

section \<open>The answer of an honest guard\<close>

abbreviation cell_event :: "int \<times> bytes \<Rightarrow> build_event" where
  "cell_event \<equiv> \<lambda>(now, raw). Build_Cell now (the (parseCell raw))"

definition guard_pending :: "reassembler \<Rightarrow> pending \<Rightarrow> builder \<Rightarrow> bool" where
  "guard_pending r p s \<longleftrightarrow> hdl_state s = St_Create \<and> hdl_createdReassembler s = Some r \<and> hdl_pendingCreate s = Some p
     \<and> pnd_promise p < length (hdl_promises s) \<and> hdl_promises s ! pnd_promise p = None"

lemma created_more:
  fixes rses :: "rse list"
  assumes "guard_pending r p s" "finishCreate C now (pnd_ntorState p) (pnd_B_pk p) (pnd_ID_R p) raw r = Inr (More, r')"
  defines "s' \<equiv> snd (snd (build_step C rses (cell_event (now, raw)) s))"
  shows "guard_pending r' p s' \<and> same_build s s' \<and> hdl_circuit s' = hdl_circuit s \<and> hdl_promises s' = hdl_promises s"
proof -
  obtain c where c: "parseCell raw = Some c" "cel_command c = 2" "ingest now (cel_payload c) r = (Waiting, r')"
    using assms(2) by (auto simp: finishCreate_def split: option.splits if_splits prod.splits ingested.splits sum.splits)
  show ?thesis
    using assms(1) c
    by (simp add: s'_def build_step_def swallow_def handler_onCell_def on_created_def guard_pending_def ret_def same_build_def split: prod.splits)
qed

lemma created_done:
  fixes rses :: "rse list"
  assumes "guard_pending r p s" "finishCreate C now (pnd_ntorState p) (pnd_B_pk p) (pnd_ID_R p) raw r = Inr (Done k, r')"
  defines "s' \<equiv> snd (snd (build_step C rses (cell_event (now, raw)) s))"
  shows "hdl_state s' = St_Idle \<and> same_build s s' \<and> hdl_circuit s' = hdl_circuit s
    \<and> hdl_promises s' = (hdl_promises s)[pnd_promise p := Some (Inr k)]"
proof -
  obtain c m seed where c: "parseCell raw = Some c" "cel_command c = 2" "ingest now (cel_payload c) r = (Complete m, r')"
    "clientFinish C (pnd_ntorState p) (pnd_B_pk p) (pnd_ID_R p) m = Some seed" "deriveHopKeys C seed = Inr k"
    using assms(2) by (auto simp: finishCreate_def split: option.splits if_splits prod.splits ingested.splits sum.splits)
  show ?thesis
    using assms(1) c
    by (simp add: s'_def build_step_def swallow_def handler_onCell_def on_created_def guard_pending_def ret_def settle_def
        same_build_def split: prod.splits)
qed

lemma created_run:
  fixes rses :: "rse list"
  assumes "guard_pending r p s"
    and "progress_run (\<lambda>now. finishCreate C now (pnd_ntorState p) (pnd_B_pk p) (pnd_ID_R p)) cs r = Inr (replicate n More @ [Done k], r')"
  defines "s' \<equiv> build_run C rses (map cell_event cs) s"
  shows "hdl_state s' = St_Idle \<and> same_build s s' \<and> hdl_circuit s' = hdl_circuit s
    \<and> hdl_promises s' = (hdl_promises s)[pnd_promise p := Some (Inr k)]"
  using assms(1,2) unfolding s'_def
proof (induction cs arbitrary: n r s)
  case (Cons c cs)
  obtain now raw where c: "c = (now, raw)" by (cases c)
  obtain x r1 xs where x: "finishCreate C now (pnd_ntorState p) (pnd_B_pk p) (pnd_ID_R p) raw r = Inr (x, r1)"
    and xs: "progress_run (\<lambda>now. finishCreate C now (pnd_ntorState p) (pnd_B_pk p) (pnd_ID_R p)) cs r1 = Inr (xs, r')"
    and eq: "x # xs = replicate n More @ [Done k]"
    using Cons.prems(2) unfolding c by (auto split: sum.splits)
  let ?s = "snd (snd (build_step C rses (cell_event c) s))"
  show ?case
  proof (cases n)
    case 0
    then have e: "x = Done k" "xs = []" using eq by simp_all
    have "cs = []" using xs e(2) by (cases cs) (auto split: sum.splits)
    then show ?thesis using created_done [OF Cons.prems(1) x [unfolded e(1)], of rses] by (simp add: c)
  next
    case (Suc j)
    then have e: "x = More" "xs = replicate j More @ [Done k]" using eq by simp_all
    note m = created_more [OF Cons.prems(1) x [unfolded e(1)], of rses]
    then have g: "guard_pending r1 p ?s" by (simp add: c)
    show ?thesis using Cons.IH [OF g xs [unfolded e(2)]] m by (simp add: c same_build_def)
  qed
qed simp

text \<open>Extending a circuit whose hops have full keys does not throw.\<close>

definition full_keys :: "circuit \<Rightarrow> bool" where
  "full_keys c \<longleftrightarrow> cct_hops c \<noteq> [] \<and> list_all (\<lambda>k. length (hop_Kf k) = 32) (circuit_keys c) \<and> 0 \<le> cct_circuitId c \<and> cct_circuitId c \<le> 0xFFFFFFFF"

lemma extend_cell_ok:
  assumes "hash_ok C" "full_keys c" "length d \<le> 499"
  shows "\<exists>q c'. extend_cell C c d = Inr (q, c') \<and> full_keys c'"
proof -
  obtain p dg where p: "buildRelayPayload C RELAY_EXTEND 0 d (chp_forwardDigest (last (cct_hops c))) = Inr (p, dg)"
    and lp: "length p = 508"
    using buildRelayPayload_layout [OF assms(3), of 0 C RELAY_EXTEND] assms(1,3) by (auto simp: length_relay_bytes hash_ok_def)
  let ?hs = "update_last (\<lambda>h. h\<lparr>chp_forwardDigest := dg\<rparr>) (cct_hops c)"
  have ne: "?hs \<noteq> []" using assms(2) by (simp add: full_keys_def update_last_def)
  have km: "map hop_keys_of ?hs = circuit_keys c" by (rule digest_keys)
  have "list_all (\<lambda>k. length (hop_Kf k) = 32) (map hop_keys_of ?hs)" using assms(2) unfolding km full_keys_def by blast
  then have len: "\<forall>h\<in>set ?hs. length (chp_Kf h) = 32" by (auto simp: list_all_iff hop_keys_of_def)
  obtain q c1 where q: "encryptOutbound C (c\<lparr>cct_hops := ?hs\<rparr>) p = Inr (q, c1)" and c1: "c1 = c\<lparr>cct_hops := map bump_fwd ?hs\<rparr>"
    and lq: "length q = 508"
    using lp ne encrypt_hops_layers [OF len, of C p] chacha.length_wrap [of C "fwd_keys ?hs" p] by (simp add: encryptOutbound_def)
  have "circuit_keys c1 = circuit_keys c" using encryptOutbound_keys [OF q] km by simp
  then have f: "full_keys c1" using assms(2) ne by (simp add: full_keys_def c1)
  have "buildCell WIRE_VERSION_V2 (cct_circuitId c1) CMD_RELAY q = Inr (cell_bytes 2 (nat (cct_circuitId c1)) 3 q)"
    using buildCell_layout [of "cct_circuitId c1" q 2 3] f lq by (simp add: full_keys_def)
  then show ?thesis using p q f by (auto simp: extend_cell_def)
qed

lemma extend_cells_ok:
  "hash_ok C \<Longrightarrow> full_keys c \<Longrightarrow> \<forall>d\<in>set ds. length d \<le> 499 \<Longrightarrow> \<exists>qs c'. map_state (extend_cell C) c ds = Inr (qs, c')"
proof (induction ds arbitrary: c)
  case (Cons d ds)
  then obtain q c1 where q: "extend_cell C c d = Inr (q, c1)" "full_keys c1" using extend_cell_ok [of C c d] by auto
  then show ?case using Cons.IH [of c1] Cons.prems by fastforce
qed simp

lemma beginExtend_ok:
  assumes "hash_ok C" "full_keys c" "length fp = 32" "length B = 32" "0 \<le> hid" "hid \<le> 0xFFFFFFFF"
    and "length (nts_createMsg (clientInit C xs ks)) = 1216"
  shows "\<exists>cells st c'. beginExtend C xs ks hid c fp B = Inr (cells, st, hid, c')"
proof -
  let ?m = "fp @ B @ nts_createMsg (clientInit C xs ks)"
  have n: "ceil_div (length ?m) 491 \<le> 255" and ne: "?m \<noteq> []" using assms(3,4,7) by (auto simp: ceil_div_def)
  obtain fs where fs: "fragmentMessage ?m hid 491 = Inr fs"
    using assms(5,6) n ne by (simp add: fragmentMessage_def Let_def)
  have "\<forall>d\<in>set fs. length d \<le> 499" using fragments_of_cell [OF fs] by auto
  from extend_cells_ok [OF assms(1,2) this] show ?thesis
    using assms(2-4) fs by (auto simp: beginExtend_def Let_def full_keys_def)
qed

section \<open>Instances\<close>

definition toy_guard :: rse where
  "toy_guard = \<lparr>rse_fingerprint = zeros 32, rse_idPk = zeros 32, rse_onionPk = x_public toy_crypto (3 # zeros 31),
     rse_ipv4 = Some [127, 0, 0, 1, 0, 80], rse_ipv6 = None, rse_flags = 71, rse_exitPolicy = [], rse_exitPolicyBytes = []\<rparr>"

definition toy_path :: path where "toy_path = \<lparr>pth_guard = toy_guard, pth_middle = toy_guard, pth_exit = toy_guard\<rparr>"

definition toy_build :: build_draws where
  "toy_build = \<lparr>bdr_xSeed = 1 # zeros 31, bdr_kemSeed = [9], bdr_handshakeId = 77\<rparr>"

definition toy_entry_link :: link where "toy_entry_link = \<lparr>lnk_id = 0, lnk_peerFingerprintHex = toHex (zeros 32)\<rparr>"

lemma toy_peer_of: "\<exists>peer. peerResolver [toy_guard] (zeros 32) = Some peer \<and> rpe_B_pk peer = x_public toy_crypto (3 # zeros 31)"
  by (simp add: peerResolver_def index_by_fingerprint_def toy_guard_def decodeIPv4_def map_get_def map_set_def)

lemma toy_started:
  "\<exists>es s. build_start toy_crypto [toy_guard] toy_build toy_path toy_entry_link 0x80000001 0 [] = Inr (Inr (), es, s)
    \<and> guard_pending defaultReassembler \<lparr>pnd_ntorState = clientInit toy_crypto (1 # zeros 31) [9],
        pnd_B_pk = x_public toy_crypto (3 # zeros 31), pnd_ID_R = zeros 32, pnd_promise = 0\<rparr> s
    \<and> bld_path s = toy_path \<and> bld_hop s = 0 \<and> bld_awaits s = Some 0 \<and> \<not> bld_expired s \<and> bld_result s = None \<and> hdl_promises s = [None]
    \<and> hdl_circuit s = createClientCircuit 0x80000001"
proof -
  have m: "length (nts_createMsg (clientInit toy_crypto (1 # zeros 31) [9])) = 1216"
    using toy_response by (auto elim!: relayResponse_Some)
  then have ne: "nts_createMsg (clientInit toy_crypto (1 # zeros 31) [9]) \<noteq> []" by auto
  obtain cells where c: "handshake_cells 1 0x80000001 77 (nts_createMsg (clientInit toy_crypto (1 # zeros 31) [9])) = Inr cells"
    using handshake_cells_ok [of "0x80000001" 1 77, OF _ _ _ _ _ ne] m by auto
  obtain peer where "peerResolver [toy_guard] (zeros 32) = Some peer" "rpe_B_pk peer = x_public toy_crypto (3 # zeros 31)"
    using toy_peer_of by blast
  then show ?thesis
    using c
    by (simp add: build_start_def toy_path_def toy_guard_def toy_build_def start_hop0_def beginCreate_def lift_def seq_def
        handler_beginCreate_def createHandler_def handler.defs ret_def Let_def for_each_emit await_hop_def update_def build_try_def
        guard_pending_def)
qed

lemma toy_one_hop:
  "\<exists>r es s evs. build_start toy_crypto [toy_guard] toy_build toy_path toy_entry_link 0x80000001 0 [] = Inr (r, es, s)
    \<and> bld_result (build_run toy_crypto [toy_guard] evs s) = None \<and> bld_hop (build_run toy_crypto [toy_guard] evs s) = 1"
proof -
  let ?st = "clientInit toy_crypto (1 # zeros 31) [9]" and ?B = "x_public toy_crypto (3 # zeros 31)"
  let ?p = "\<lparr>pnd_ntorState = ?st, pnd_B_pk = ?B, pnd_ID_R = zeros 32, pnd_promise = 0\<rparr>"
  obtain es s where s: "build_start toy_crypto [toy_guard] toy_build toy_path toy_entry_link 0x80000001 0 [] = Inr (Inr (), es, s)"
    "guard_pending defaultReassembler ?p s" "bld_path s = toy_path" "bld_hop s = 0" "bld_awaits s = Some 0" "\<not> bld_expired s"
    "bld_result s = None" "hdl_promises s = [None]" "hdl_circuit s = createClientCircuit 0x80000001"
    using toy_started by blast
  obtain res where res: "relayResponse toy_crypto [5] (2 # zeros 31) (nts_createMsg ?st) (3 # zeros 31) ?B (zeros 32) = Some res"
    using toy_response by blast
  have fin: "clientFinish toy_crypto ?st ?B (zeros 32) (ntr_createdMsg res) = Some (ntr_KEY_SEED res)"
    by (rule ntor_agree [OF toy_hash_ok toy_dh_correct toy_kem_correct _ _ _ res]) simp_all
  have l: "length (ntr_createdMsg res) = 1152" "length (ntr_KEY_SEED res) = 32" and lm: "length (nts_createMsg ?st) = 1216"
    using res toy_hash_ok toy_dh_correct by (auto elim!: relayResponse_Some simp: Let_def dh_correct_def)
  obtain k where k: "deriveHopKeys toy_crypto (ntr_KEY_SEED res) = Inr k" "length (hop_Kf k) = 32" "length (hop_Kb k) = 32"
    "length (hop_Kdf k) = 32" "length (hop_Kdb k) = 32" using deriveHopKeys_ok [OF toy_hash_ok l(2)] by blast
  have ne: "ntr_createdMsg res \<noteq> []" "length (ntr_createdMsg res) \<le> 65536" using l(1) by auto
  obtain cells where c: "handshake_cells 2 5 8 (ntr_createdMsg res) = Inr cells"
    using handshake_cells_ok [of 5 2 8, OF _ _ _ _ _ ne] by auto
  obtain n r' where run: "progress_run (\<lambda>now. finishCreate toy_crypto now ?st ?B (zeros 32)) (zip (replicate (length cells) 0) cells)
      defaultReassembler = Inr (replicate n More @ [Done k], r')"
    using run_handshake [OF c _ _ _ _ _ ne, of "replicate (length cells) 0" "\<lambda>now. finishCreate toy_crypto now ?st ?B (zeros 32)" k]
      finishCreate_follows [OF fin k(1)] by auto
  let ?evs = "map cell_event (zip (replicate (length cells) 0) cells)"
  let ?t = "build_run toy_crypto [toy_guard] ?evs s"
  have t: "hdl_state ?t = St_Idle" "same_build s ?t" "hdl_circuit ?t = hdl_circuit s" "hdl_promises ?t = [Some (Inr k)]"
    using created_run [OF s(2), of toy_crypto _ n k r' "[toy_guard]"] run s(8) by simp_all
  obtain c' where c': "addHop (hdl_circuit ?t) k = Inr c'" using k by (simp add: addHop_def new_client_hop_def createDigestState_def)
  have "circuit_keys c' = [k]" using addHop_keys [OF c'] t(3) s(9) by (simp add: createClientCircuit_def)
  moreover have "cct_circuitId c' = 0x80000001" using c' t(3) s(9) by (auto simp: addHop_def createClientCircuit_def split: sum.splits)
  ultimately have full: "full_keys c'" using k(2) by (auto simp: full_keys_def)
  obtain peer where peer: "peerResolver [toy_guard] (zeros 32) = Some peer" "rpe_B_pk peer = ?B" using toy_peer_of by blast
  have lB: "length ?B = 32" by (simp add: toy_crypto_def)
  obtain cells' st' c2 where ext: "beginExtend toy_crypto (1 # zeros 31) [9] 77 c' (zeros 32) ?B = Inr (cells', st', 77, c2)"
    using beginExtend_ok [OF toy_hash_ok full _ lB _ _ lm, of "zeros 32" 77] by auto
  have b: "bld_path ?t = toy_path" "bld_hop ?t = 0" "bld_awaits ?t = Some 0" "\<not> bld_expired ?t" "bld_result ?t = None"
    using t(2) s(3-7) by (simp_all add: same_build_def)
  let ?u = "snd (snd (build_step toy_crypto [toy_guard] (Build_Resume toy_build) ?t))"
  have "bld_result ?u = None \<and> bld_hop ?u = 1"
    using b t(1,4) c' peer ext
    by (simp add: build_step_def build_resume_def build_continue_def lift_def seq_def start_extend_def toy_path_def toy_guard_def toy_build_def
        begin_extend_idle ret_def for_each_emit await_hop_def update_def build_try_def)
  then have "bld_result (build_run toy_crypto [toy_guard] (?evs @ [Build_Resume toy_build]) s) = None
      \<and> bld_hop (build_run toy_crypto [toy_guard] (?evs @ [Build_Resume toy_build]) s) = 1"
    by (simp add: run_append)
  then show ?thesis using s(1) by blast
qed

theorem built_circuit_authentic_witness:
  "\<exists>s evs k. bld_hop (build_run toy_crypto [toy_guard] evs s) = 1
    \<and> circuit_keys (hdl_circuit (build_run toy_crypto [toy_guard] evs s)) = [k] \<and> authenticated toy_crypto [toy_guard] toy_guard k"
proof -
  obtain r es s evs where s: "build_start toy_crypto [toy_guard] toy_build toy_path toy_entry_link 0x80000001 0 [] = Inr (r, es, s)"
    "bld_result (build_run toy_crypto [toy_guard] evs s) = None" "bld_hop (build_run toy_crypto [toy_guard] evs s) = 1"
    using toy_one_hop by blast
  have "length (circuit_keys (hdl_circuit (build_run toy_crypto [toy_guard] evs s))) = 1
    \<and> authenticated toy_crypto [toy_guard] toy_guard (circuit_keys (hdl_circuit (build_run toy_crypto [toy_guard] evs s)) ! 0)"
    using built_circuit_authentic [OF s(1), of evs] s(2,3) by (simp add: Let_def hop_rse_def toy_path_def del: nth_map)
  then show ?thesis using s(3) by (metis One_nat_def length_0_conv length_Suc_conv nth_Cons_0)
qed

theorem build_ends_witness:
  "\<exists>s. bld_result (build_run toy_crypto [toy_guard] (concat (map (\<lambda>w. [Build_Timer, Build_Resume w]) [toy_build, toy_build, toy_build])) s) \<noteq> None"
proof -
  obtain r es s where s: "build_start toy_crypto [toy_guard] toy_build toy_path toy_entry_link 0x80000001 0 [] = Inr (r, es, s)"
    using toy_started by blast
  show ?thesis using build_ends [OF s, of "[toy_build, toy_build, toy_build]" "[]"] by fastforce
qed

theorem handler_promises_witness:
  "\<exists>h. handler_reach toy_crypto h \<and> hdl_promises h = [None] \<and> hdl_state h = St_Create \<and> (\<exists>p. hdl_pendingCreate h = Some p \<and> pnd_promise p = 0)"
proof -
  let ?h = "snd (snd (handler_beginCreate (clientInit toy_crypto [] []) [] [] (createHandler (createClientCircuit 5))))"
  have b: "handler_beginCreate (clientInit toy_crypto [] []) [] [] (createHandler (createClientCircuit 5)) = (Inr 0, [], ?h)"
    "hdl_promises ?h = [None]" "hdl_state ?h = St_Create"
    by (simp_all add: handler_beginCreate_def createHandler_def ret_def)
  have r: "handler_reach toy_crypto ?h" by (rule handler_reach.begin_create [OF handler_reach.start b(1)])
  from handler_promises [OF r, of 0] b r show ?thesis by auto
qed

section \<open>Routing\<close>

text \<open>A cell reaches a client handler exactly if the handler is registered under the link and the circuit id of the cell, so that cells of
  another link or id never do.\<close>

lemma route_client:
  "router_onCell m l raw = To_Client h c \<longleftrightarrow> parseCell raw = Some c \<and> map_get m (keyOf l (cel_circuitId c)) = Some h"
  by (auto simp: router_onCell_def split: option.splits)

text \<open>Both ends of a link draw the ids of their own circuits from the same range: a CREATE of the peer under an id for which this end has
  registered a circuit goes to that circuit's handler, which drops it, and never to the dispatcher.\<close>

lemma create_shadowed:
  assumes "parseCell raw = Some c" "cel_command c = CMD_CREATE" "cel_circuitId c = cid"
  shows "router_onCell (registerClientCircuit l cid h m) l raw = To_Client h c
    \<and> (\<exists>x. handler_onCell C now c (s :: handler) = ret () (s\<lparr>hdl_stats := x\<rparr>))"
  using assms
  by (auto simp: router_onCell_def registerClientCircuit_def jm.get_put handler_onCell_def Let_def ret_def)
    (metis handler.surjective handler.update_convs(6))

end
