(* ===== verification/V2_Client_Streams.thy ===== *)
theory V2_Client_Streams
  imports V2_Circuit V2_Streams
begin

text \<open>
  The client's side of streams (\<open>createClientStreams\<close> of \<open>v2-runtime/streams.mjs\<close>) and the \<open>sendForward\<close> that it shares with
  the clients of hidden services and of the directory. The promise of \<open>openStream\<close>, the stream it resolves with and the timer
  of the connection attempt are one object of the state; its handlers are called by effects.
\<close>

section \<open>Sending through a circuit\<close>

record client_circuit =
  ccl_circuit :: circuit

text \<open>A RELAY cell to the last hop: its forward digest moves, then every layer is added. The cell is an effect.\<close>

definition sendForward ::
  "(bytes \<Rightarrow> 'e) \<Rightarrow> crypto \<Rightarrow> nat \<Rightarrow> nat \<Rightarrow> bytes \<Rightarrow> 'x client_circuit_scheme \<Rightarrow> (unit, 'e, 'x client_circuit_scheme) effectful" where
  "sendForward cell C relayCommand streamId data s =
     (let circuit = ccl_circuit s
      in if cct_hops circuit = [] then throw (TypeError ''Cannot read properties of undefined'') s
         else
           (case buildRelayPayload C relayCommand (int streamId) data (chp_forwardDigest (last (cct_hops circuit))) of
              Inl e \<Rightarrow> throw e s
            | Inr (relayPayload, digest) \<Rightarrow>
                let circuit = circuit\<lparr>cct_hops := update_last (\<lambda>h. h\<lparr>chp_forwardDigest := digest\<rparr>) (cct_hops circuit)\<rparr>
                in (case encryptOutbound C circuit relayPayload of
                      Inl e \<Rightarrow> throw e (s\<lparr>ccl_circuit := circuit\<rparr>)
                    | Inr (cipher, circuit) \<Rightarrow>
                        (case buildCell WIRE_VERSION_V2 (cct_circuitId circuit) CMD_RELAY cipher of
                           Inl e \<Rightarrow> throw e (s\<lparr>ccl_circuit := circuit\<rparr>)
                         | Inr c \<Rightarrow> emit (cell c) (s\<lparr>ccl_circuit := circuit\<rparr>)))))"

section \<open>State\<close>

record client_stream =
  csm_streamId :: nat
  csm_closed :: bool
  csm_settled :: "unit res option"
  csm_timer :: bool

record client_streams = client_circuit +
  cls_nextStreamId :: nat
  cls_streams :: "(nat, nat) jsmap"
  cls_objs :: "client_stream list"

datatype stream_effect =
    Stream_Cell bytes
  | Stream_Data nat bytes
  | Stream_Ended nat nat

type_synonym 'a streams_act = "('a, stream_effect, client_streams) effectful"

definition createClientStreams :: "circuit \<Rightarrow> client_streams" where
  "createClientStreams circuit = \<lparr>ccl_circuit = circuit, cls_nextStreamId = 1, cls_streams = [], cls_objs = []\<rparr>"

definition stream_obj :: "client_streams \<Rightarrow> nat \<Rightarrow> client_stream" where
  "stream_obj s k = cls_objs s ! k"

definition on_stream :: "nat \<Rightarrow> (client_stream \<Rightarrow> client_stream) \<Rightarrow> client_streams \<Rightarrow> client_streams" where
  "on_stream k f s = s\<lparr>cls_objs := (cls_objs s)[k := f (cls_objs s ! k)]\<rparr>"

definition settle_stream :: "nat \<Rightarrow> unit res \<Rightarrow> client_streams \<Rightarrow> client_streams" where
  "settle_stream k r = on_stream k (\<lambda>x. if csm_settled x = None then x\<lparr>csm_settled := Some r\<rparr> else x)"

definition drop_stream :: "nat \<Rightarrow> client_streams \<Rightarrow> client_streams" where
  "drop_stream streamId s = s\<lparr>cls_streams := map_delete streamId (cls_streams s)\<rparr>"

section \<open>Operations\<close>

text \<open>The id that is handed out, and the next one.\<close>

definition next_stream_id :: "nat \<Rightarrow> nat" where
  "next_stream_id n = (let m = (n + 1) AND 0xFFFF in if m = 0 then 1 else m)"

definition stream_sendForward :: "crypto \<Rightarrow> nat \<Rightarrow> nat \<Rightarrow> bytes \<Rightarrow> client_streams \<Rightarrow> unit streams_act" where
  "stream_sendForward C relayCommand streamId data s =
     (if length (cct_hops (ccl_circuit s)) = 0 then throw (Error ''circuit has no hops'') s
      else sendForward Stream_Cell C relayCommand streamId data s)"

text \<open>\<open>openStream\<close>: the number of the new object stands for its promise.\<close>

definition openStream :: "crypto \<Rightarrow> destination \<Rightarrow> client_streams \<Rightarrow> nat streams_act" where
  "openStream C dest s =
     (let streamId = cls_nextStreamId s;
          k = length (cls_objs s);
          s = s\<lparr>cls_nextStreamId := next_stream_id streamId, cls_streams := map_set streamId k (cls_streams s),
            cls_objs := cls_objs s @ [\<lparr>csm_streamId = streamId, csm_closed = False, csm_settled = None, csm_timer = False\<rparr>]\<rparr>
      in (case seq (lift (buildBeginPayload dest) s) (stream_sendForward C RELAY_BEGIN streamId) of
            (Inl err, es, s) \<Rightarrow> (Inr k, es, settle_stream k (Inl err) (drop_stream streamId s))
          | (Inr _, es, s) \<Rightarrow> (Inr k, es, on_stream k (\<lambda>x. x\<lparr>csm_timer := True\<rparr>) s)))"

definition stream_send :: "crypto \<Rightarrow> nat \<Rightarrow> bytes \<Rightarrow> client_streams \<Rightarrow> unit streams_act" where
  "stream_send C k data s =
     (if csm_closed (stream_obj s k) then throw (Error ''stream is closed'') s
      else send_chunks (stream_sendForward C RELAY_DATA (csm_streamId (stream_obj s k))) data 0 s)"

definition stream_end :: "crypto \<Rightarrow> nat \<Rightarrow> nat \<Rightarrow> client_streams \<Rightarrow> unit streams_act" where
  "stream_end C k reason s =
     (if csm_closed (stream_obj s k) then ret () s
      else
        let streamId = csm_streamId (stream_obj s k)
        in seq (swallow (stream_sendForward C RELAY_END streamId (buildEndPayload reason) (on_stream k (\<lambda>x. x\<lparr>csm_closed := True\<rparr>) s)))
             (\<lambda>_. update (drop_stream streamId)))"

text \<open>The three callbacks of an entry of the map, and the timer.\<close>

definition entry_onConnected :: "nat \<Rightarrow> nat \<Rightarrow> client_streams \<Rightarrow> unit streams_act" where
  "entry_onConnected k status s =
     (let s = on_stream k (\<lambda>x. x\<lparr>csm_timer := False\<rparr>) s
      in ret () (settle_stream k (if status = CONNECTED_STATUS_OK then Inr () else Inl (Error ''stream open failed'')) s))"

definition entry_onData :: "nat \<Rightarrow> bytes \<Rightarrow> client_streams \<Rightarrow> unit streams_act" where
  "entry_onData k bytes s = emit (Stream_Data k bytes) s"

definition entry_onEnd :: "nat \<Rightarrow> nat \<Rightarrow> client_streams \<Rightarrow> unit streams_act" where
  "entry_onEnd k reason s =
     emit (Stream_Ended k reason) (drop_stream (csm_streamId (stream_obj s k)) (on_stream k (\<lambda>x. x\<lparr>csm_closed := True\<rparr>) s))"

definition stream_timer :: "crypto \<Rightarrow> nat \<Rightarrow> client_streams \<Rightarrow> unit streams_act" where
  "stream_timer C k s =
     (if \<not> csm_timer (stream_obj s k) then ret () s
      else
        let s = on_stream k (\<lambda>x. x\<lparr>csm_timer := False\<rparr>) s;
            streamId = csm_streamId (stream_obj s k)
        in if map_has (cls_streams s) streamId then
             seq (stream_end C k END_REASON_CLIENT_CLOSED (drop_stream streamId s)) (\<lambda>_.
               update (settle_stream k (Inl (Error ''RELAY_CONNECTED timeout''))))
           else ret () s)"

definition handleInboundRelay :: "nat \<Rightarrow> nat \<Rightarrow> bytes \<Rightarrow> client_streams \<Rightarrow> unit streams_act" where
  "handleInboundRelay relayCommand streamId data s =
     (case map_get (cls_streams s) streamId of
        None \<Rightarrow> ret () s
      | Some k \<Rightarrow>
          if relayCommand = RELAY_CONNECTED then entry_onConnected k (if length data > 0 then unat (data ! 0) else 0xFF) s
          else if relayCommand = RELAY_DATA then entry_onData k data s
          else if relayCommand = RELAY_END then entry_onEnd k (if length data > 0 then unat (data ! 0) else END_REASON_MISC) s
          else ret () s)"

definition streams_closeAll :: "nat \<Rightarrow> client_streams \<Rightarrow> unit streams_act" where
  "streams_closeAll reason s =
     seq (for_each (\<lambda>k. entry_onEnd k reason) (map snd (cls_streams s)) s)
       (\<lambda>_. update (\<lambda>s. s\<lparr>cls_streams := []\<rparr>))"

text \<open>One operation on the streams of a circuit, by the application, the network or the clock. The application holds only streams
  that exist.\<close>

datatype stream_op =
    Op_Open destination
  | Op_Send nat bytes
  | Op_End nat nat
  | Op_Inbound nat nat bytes
  | Op_Timer nat
  | Op_Close_All nat

fun stream_step :: "crypto \<Rightarrow> stream_op \<Rightarrow> client_streams \<Rightarrow> client_streams" where
  "stream_step C (Op_Open dest) s = snd (snd (openStream C dest s))"
| "stream_step C (Op_Send k data) s = (if k < length (cls_objs s) then snd (snd (stream_send C k data s)) else s)"
| "stream_step C (Op_End k reason) s = (if k < length (cls_objs s) then snd (snd (stream_end C k reason s)) else s)"
| "stream_step C (Op_Inbound cmd streamId data) s = snd (snd (handleInboundRelay cmd streamId data s))"
| "stream_step C (Op_Timer k) s = (if k < length (cls_objs s) then snd (snd (stream_timer C k s)) else s)"
| "stream_step C (Op_Close_All reason) s = snd (snd (streams_closeAll reason s))"

definition stream_run :: "crypto \<Rightarrow> stream_op list \<Rightarrow> client_streams \<Rightarrow> client_streams" where
  "stream_run C ops s = fold (stream_step C) ops s"

end
