(* ===== verification/V2_Client_Streams_Props.thy ===== *)
theory V2_Client_Streams_Props
  imports V2_Client_Streams V2_Circuit_Props
begin

text \<open>
  The bookkeeping of a client's streams, and a promise that is never settled.
\<close>

section \<open>Sending does not touch the streams\<close>

definition same_streams :: "client_streams \<Rightarrow> client_streams \<Rightarrow> bool" where
  "same_streams s s' \<longleftrightarrow> cls_objs s' = cls_objs s \<and> cls_streams s' = cls_streams s \<and> cls_nextStreamId s' = cls_nextStreamId s"

abbreviation final :: "'a streams_act \<Rightarrow> client_streams" where
  "final a \<equiv> snd (snd a)"

lemma streams_same_trans: "same_streams s t \<Longrightarrow> same_streams t u \<Longrightarrow> same_streams s u"
  by (simp add: same_streams_def)

lemma streams_same_refl [simp]: "same_streams s s" by (simp add: same_streams_def)

lemma sendForward_same: "same_streams s (final (stream_sendForward C cmd sid data s))"
  by (auto simp: stream_sendForward_def sendForward_def throw_def emit_def Let_def same_streams_def split: sum.splits)

lemma final_seq: "final (seq a k) = (case a of (Inl e, es, s) \<Rightarrow> s | (Inr x, es, s) \<Rightarrow> final (k x s))"
  by (auto simp: seq_def split: prod.splits sum.splits)

lemma send_chunks_same: "same_streams s (final (send_chunks (stream_sendForward C cmd sid) data off s))"
proof (induction "stream_sendForward C cmd sid" data off s rule: send_chunks.induct)
  case (1 data off s)
  show ?case
  proof (cases "off < length data")
    case True
    let ?n = "min MAX_RELAY_DATA (length data - off)"
    obtain r es t where t: "stream_sendForward C cmd sid (subarray data off (off + ?n)) s = (r, es, t)"
      by (cases "stream_sendForward C cmd sid (subarray data off (off + ?n)) s")
    have st: "same_streams s t" using sendForward_same [of s C cmd sid "subarray data off (off + ?n)"] t by simp
    have "same_streams t (final (send_chunks (stream_sendForward C cmd sid) data (off + ?n) t))"
      using 1(1) [OF True refl refl] by blast
    then have "same_streams s (final (send_chunks (stream_sendForward C cmd sid) data (off + ?n) t))" by (rule streams_same_trans [OF st])
    then show ?thesis using True t st by (subst send_chunks.simps) (auto simp: Let_def final_seq split: sum.splits)
  next
    case False
    then show ?thesis by (subst send_chunks.simps) (simp add: ret_def)
  qed
qed

section \<open>The map of the streams\<close>

definition streams_inv :: "client_streams \<Rightarrow> bool" where
  "streams_inv s \<longleftrightarrow> 0 < cls_nextStreamId s \<and> cls_nextStreamId s < 65536 \<and> distinct (map_keys (cls_streams s))
     \<and> (\<forall>sid k. map_get (cls_streams s) sid = Some k \<longrightarrow>
          0 < sid \<and> sid < 65536 \<and> k < length (cls_objs s) \<and> csm_streamId (cls_objs s ! k) = sid \<and> \<not> csm_closed (cls_objs s ! k))
     \<and> (\<forall>k<length (cls_objs s). 0 < csm_streamId (cls_objs s ! k) \<and> csm_streamId (cls_objs s ! k) < 65536)"

lemma next_stream_id_range: "0 < next_stream_id n \<and> next_stream_id n < 65536"
proof -
  have "m AND 0xFFFF = m mod 65536" for m :: nat
  proof -
    have "m AND mask 16 = take_bit 16 m" by (simp add: take_bit_eq_mask)
    then show ?thesis by (simp add: take_bit_eq_mod mask_eq_exp_minus_1)
  qed
  then show ?thesis by (simp add: next_stream_id_def Let_def)
qed

lemma inv_start: "streams_inv (createClientStreams c)"
  by (simp add: streams_inv_def createClientStreams_def)

lemma inv_same: "streams_inv s \<Longrightarrow> same_streams s t \<Longrightarrow> streams_inv t"
  by (simp add: streams_inv_def same_streams_def)

lemma upd_field: "(\<And>x. g (f x) = g x) \<Longrightarrow> g (xs[k := f (xs ! k)] ! j) = g (xs ! j)"
  by (cases "k < length xs") (auto simp: nth_list_update list_update_beyond)

lemma inv_on_stream:
  "streams_inv s \<Longrightarrow> (\<And>x. csm_streamId (f x) = csm_streamId x) \<Longrightarrow> (\<And>x. csm_closed (f x) = csm_closed x) \<Longrightarrow> streams_inv (on_stream k f s)"
  by (simp add: streams_inv_def on_stream_def upd_field [of csm_streamId f] upd_field [of csm_closed f])

lemma inv_settle: "streams_inv s \<Longrightarrow> streams_inv (settle_stream k r s)"
  unfolding settle_stream_def by (rule inv_on_stream) simp_all

lemma inv_drop: "streams_inv s \<Longrightarrow> streams_inv (drop_stream sid s)"
  by (auto simp: streams_inv_def drop_stream_def jm.get_del jm.distinct_del)

text \<open>Closing a stream and removing its id from the map go together.\<close>

lemma inv_close:
  "streams_inv s \<Longrightarrow> same_streams (on_stream k (\<lambda>x. x\<lparr>csm_closed := True\<rparr>) s) t \<Longrightarrow> k < length (cls_objs s)
    \<Longrightarrow> streams_inv (drop_stream (csm_streamId (stream_obj s k)) t)"
  by (auto simp: streams_inv_def drop_stream_def on_stream_def same_streams_def stream_obj_def nth_list_update jm.get_del jm.distinct_del
      split: if_splits)

lemma stream_end_inv:
  assumes "streams_inv s" "k < length (cls_objs s)"
  shows "streams_inv (final (stream_end C k reason s))"
proof (cases "csm_closed (stream_obj s k)")
  case True
  then show ?thesis using assms(1) by (simp add: stream_end_def ret_def)
next
  case False
  let ?t = "on_stream k (\<lambda>x. x\<lparr>csm_closed := True\<rparr>) s" and ?sid = "csm_streamId (stream_obj s k)"
  obtain r es u where u: "stream_sendForward C RELAY_END ?sid (buildEndPayload reason) ?t = (r, es, u)"
    by (cases "stream_sendForward C RELAY_END ?sid (buildEndPayload reason) ?t")
  have "same_streams ?t u" using sendForward_same [of ?t C RELAY_END ?sid "buildEndPayload reason"] u by simp
  from inv_close [OF assms(1) this assms(2)] show ?thesis
    using False u by (simp add: stream_end_def Let_def swallow_def final_seq update_def)
qed

lemma openStream_inv:
  assumes "streams_inv s"
  shows "streams_inv (final (openStream C dest s))"
proof -
  let ?sid = "cls_nextStreamId s" and ?k = "length (cls_objs s)"
  let ?s = "s\<lparr>cls_nextStreamId := next_stream_id ?sid, cls_streams := map_set ?sid ?k (cls_streams s),
    cls_objs := cls_objs s @ [\<lparr>csm_streamId = ?sid, csm_closed = False, csm_settled = None, csm_timer = False\<rparr>]\<rparr>"
  have i: "streams_inv ?s"
    using assms next_stream_id_range [of ?sid]
    by (auto simp: streams_inv_def jm.get_put jm.distinct_put nth_append less_Suc_eq split: if_splits)
  let ?a = "seq (lift (buildBeginPayload dest) ?s) (stream_sendForward C RELAY_BEGIN ?sid)"
  obtain r es u where u: "?a = (r, es, u)" by (cases ?a)
  have "same_streams ?s (final ?a)"
    using sendForward_same [of ?s C RELAY_BEGIN ?sid] by (auto simp: final_seq lift_def split: sum.splits)
  then have iu: "streams_inv u" using inv_same [OF i, of u] u by simp
  have "final (openStream C dest s) = (case r of Inl err \<Rightarrow> settle_stream ?k (Inl err) (drop_stream ?sid u)
      | Inr _ \<Rightarrow> on_stream ?k (\<lambda>x. x\<lparr>csm_timer := True\<rparr>) u)"
    using u by (simp add: openStream_def Let_def split: sum.splits)
  then show ?thesis
    using inv_settle [OF inv_drop [OF iu]] inv_on_stream [OF iu] by (auto split: sum.splits)
qed

lemma onEnd_inv: "streams_inv s \<Longrightarrow> k < length (cls_objs s) \<Longrightarrow> streams_inv (final (entry_onEnd k reason s))"
  using inv_close [of s k "on_stream k (\<lambda>x. x\<lparr>csm_closed := True\<rparr>) s"] by (simp add: entry_onEnd_def emit_def)

lemma inbound_inv: "streams_inv s \<Longrightarrow> streams_inv (final (handleInboundRelay cmd sid data s))"
  using onEnd_inv
  by (fastforce simp: handleInboundRelay_def ret_def entry_onConnected_def entry_onData_def emit_def Let_def streams_inv_def [of s]
      intro!: inv_settle inv_on_stream split: option.splits)

lemma timer_inv:
  assumes "streams_inv s" "k < length (cls_objs s)"
  shows "streams_inv (final (stream_timer C k s))"
proof -
  let ?s = "on_stream k (\<lambda>x. x\<lparr>csm_timer := False\<rparr>) s"
  have i: "streams_inv ?s" by (rule inv_on_stream [OF assms(1)]) simp_all
  have l: "k < length (cls_objs (drop_stream sid ?s))" for sid using assms(2) by (simp add: drop_stream_def on_stream_def)
  show ?thesis
    using assms(1) i stream_end_inv [OF inv_drop [OF i] l] inv_settle
    by (auto simp: stream_timer_def Let_def ret_def final_seq update_def split: prod.splits sum.splits)
      (metis fst_conv snd_conv)+
qed

lemma closeAll_loop:
  "streams_inv s \<Longrightarrow> \<forall>k\<in>set ks. k < length (cls_objs s) \<Longrightarrow> streams_inv (final (for_each (\<lambda>k. entry_onEnd k reason) ks s))"
proof (induction ks arbitrary: s)
  case (Cons k ks)
  have l: "length (cls_objs (final (entry_onEnd k reason s))) = length (cls_objs s)"
    by (simp add: entry_onEnd_def emit_def drop_stream_def on_stream_def)
  have e: "entry_onEnd k reason s = (Inr (), [Stream_Ended k reason], final (entry_onEnd k reason s))"
    by (simp add: entry_onEnd_def emit_def)
  show ?case
    using Cons.IH [OF onEnd_inv [OF Cons.prems(1)]] Cons.prems l by (simp add: final_seq) (subst e, simp)
qed (simp add: ret_def)

lemma closeAll_inv:
  assumes "streams_inv s"
  shows "streams_inv (final (streams_closeAll reason s))"
proof -
  have "\<forall>k\<in>set (map snd (cls_streams s)). k < length (cls_objs s)"
    using assms map_mem_get [of "cls_streams s"] by (force simp: streams_inv_def)
  from closeAll_loop [OF assms this, of reason] show ?thesis
    by (auto simp: streams_closeAll_def final_seq update_def streams_inv_def split: prod.splits sum.splits)
qed

lemma step_streams_inv: "streams_inv s \<Longrightarrow> streams_inv (stream_step C op s)"
  using inv_same [OF _ send_chunks_same]
  by (cases op) (auto simp: openStream_inv stream_end_inv inbound_inv timer_inv closeAll_inv stream_send_def throw_def)

lemma run_streams_inv: "streams_inv s \<Longrightarrow> streams_inv (stream_run C ops s)"
  unfolding stream_run_def by (induction ops arbitrary: s) (simp_all add: step_streams_inv)

text \<open>C18. Whatever the application, the network and the timers do, an inbound cell for a stream id reaches at most one stream: the one
  that was opened under this id, which is still open, and id 0 is never given to a stream.\<close>

theorem streams_routed:
  assumes "map_get (cls_streams (stream_run C ops (createClientStreams c))) sid = Some k"
  shows "0 < sid \<and> sid < 65536 \<and> k < length (cls_objs (stream_run C ops (createClientStreams c)))
    \<and> csm_streamId (stream_obj (stream_run C ops (createClientStreams c)) k) = sid
    \<and> \<not> csm_closed (stream_obj (stream_run C ops (createClientStreams c)) k)
    \<and> distinct (map_keys (cls_streams (stream_run C ops (createClientStreams c))))"
  using run_streams_inv [OF inv_start, of C ops c] assms by (simp add: streams_inv_def stream_obj_def)

section \<open>A promise without a future\<close>

text \<open>An unsettled stream that is in no map and has no timer: nothing refers to its promise any more.\<close>

definition abandoned :: "nat \<Rightarrow> client_streams \<Rightarrow> bool" where
  "abandoned k s \<longleftrightarrow> k < length (cls_objs s) \<and> csm_settled (cls_objs s ! k) = None \<and> \<not> csm_timer (cls_objs s ! k)
     \<and> (\<forall>sid. map_get (cls_streams s) sid \<noteq> Some k)"

lemma abandoned_same: "abandoned k s \<Longrightarrow> same_streams s t \<Longrightarrow> abandoned k t"
  by (simp add: abandoned_def same_streams_def)

lemma abandoned_other: "abandoned k s \<Longrightarrow> j \<noteq> k \<Longrightarrow> abandoned k (on_stream j f s)"
  by (simp add: abandoned_def on_stream_def)

lemma abandoned_close: "abandoned k s \<Longrightarrow> abandoned k (on_stream j (\<lambda>x. x\<lparr>csm_closed := b\<rparr>) s)"
  by (cases "j = k") (simp_all add: abandoned_def on_stream_def)

lemma abandoned_drop: "abandoned k s \<Longrightarrow> abandoned k (drop_stream sid s)"
  by (simp add: abandoned_def drop_stream_def jm.get_del)

lemma abandoned_end: "abandoned k s \<Longrightarrow> abandoned k (final (stream_end C j reason s))"
  using sendForward_same [of "on_stream j (\<lambda>x. x\<lparr>csm_closed := True\<rparr>) s" C RELAY_END]
  by (auto simp: stream_end_def ret_def Let_def swallow_def final_seq update_def intro!: abandoned_drop split: prod.splits)
    (metis abandoned_close abandoned_same snd_conv)

lemma abandoned_open:
  assumes "abandoned k s"
  shows "abandoned k (final (openStream C dest s))"
proof -
  let ?sid = "cls_nextStreamId s" and ?n = "length (cls_objs s)"
  let ?s = "s\<lparr>cls_nextStreamId := next_stream_id ?sid, cls_streams := map_set ?sid ?n (cls_streams s),
    cls_objs := cls_objs s @ [\<lparr>csm_streamId = ?sid, csm_closed = False, csm_settled = None, csm_timer = False\<rparr>]\<rparr>"
  have ne: "?n \<noteq> k" using assms by (auto simp: abandoned_def)
  have i: "abandoned k ?s" using assms by (auto simp: abandoned_def jm.get_put nth_append)
  let ?a = "seq (lift (buildBeginPayload dest) ?s) (stream_sendForward C RELAY_BEGIN ?sid)"
  obtain r es u where u: "?a = (r, es, u)" by (cases ?a)
  have "same_streams ?s (final ?a)"
    using sendForward_same [of ?s C RELAY_BEGIN ?sid] by (auto simp: final_seq lift_def split: sum.splits)
  then have iu: "abandoned k u" using abandoned_same [OF i, of u] u by simp
  have "final (openStream C dest s) = (case r of Inl err \<Rightarrow> settle_stream ?n (Inl err) (drop_stream ?sid u)
      | Inr _ \<Rightarrow> on_stream ?n (\<lambda>x. x\<lparr>csm_timer := True\<rparr>) u)"
    using u by (simp add: openStream_def Let_def split: sum.splits)
  then show ?thesis
    using abandoned_other [OF abandoned_drop [OF iu] ne] abandoned_other [OF iu ne] by (auto simp: settle_stream_def split: sum.splits)
qed

lemma abandoned_onEnd: "abandoned k s \<Longrightarrow> abandoned k (final (entry_onEnd j reason s))"
  by (simp add: entry_onEnd_def emit_def abandoned_drop abandoned_close)

lemma abandoned_inbound:
  assumes "abandoned k s"
  shows "abandoned k (final (handleInboundRelay cmd sid data s))"
proof (cases "map_get (cls_streams s) sid")
  case None
  then show ?thesis using assms by (simp add: handleInboundRelay_def ret_def)
next
  case (Some j)
  then have "j \<noteq> k" using assms by (auto simp: abandoned_def)
  then show ?thesis
    using assms Some abandoned_onEnd [OF assms]
    by (simp add: handleInboundRelay_def ret_def entry_onConnected_def entry_onData_def emit_def Let_def settle_stream_def abandoned_other)
qed

lemma abandoned_timer:
  assumes "abandoned k s" "j < length (cls_objs s)"
  shows "abandoned k (final (stream_timer C j s))"
proof (cases "csm_timer (stream_obj s j)")
  case True
  then have ne: "j \<noteq> k" using assms by (auto simp: abandoned_def stream_obj_def)
  let ?s = "on_stream j (\<lambda>x. x\<lparr>csm_timer := False\<rparr>) s"
  have i: "abandoned k ?s" by (rule abandoned_other [OF assms(1) ne])
  let ?e = "stream_end C j END_REASON_CLIENT_CLOSED (drop_stream (csm_streamId (stream_obj ?s j)) ?s)"
  obtain r es u where e: "?e = (r, es, u)" by (cases ?e)
  have "abandoned k u" using abandoned_end [OF abandoned_drop [OF i]] e by (metis snd_conv)
  then have "abandoned k u" "abandoned k (settle_stream j x u)" for x
    using abandoned_other [OF _ ne] by (simp_all add: settle_stream_def)
  then show ?thesis
    using True i e by (cases r) (simp_all add: stream_timer_def Let_def ret_def final_seq update_def)
next
  case False
  then show ?thesis using assms(1) by (simp add: stream_timer_def ret_def)
qed

lemma abandoned_loop: "abandoned k s \<Longrightarrow> abandoned k (final (for_each (\<lambda>j. entry_onEnd j reason) ks s))"
proof (induction ks arbitrary: s)
  case (Cons j ks)
  have e: "entry_onEnd j reason s = (Inr (), [Stream_Ended j reason], final (entry_onEnd j reason s))"
    by (simp add: entry_onEnd_def emit_def)
  show ?case using Cons.IH [OF abandoned_onEnd [OF Cons.prems]] by (simp add: final_seq) (subst e, simp)
qed (simp add: ret_def)

lemma abandoned_closeAll: "abandoned k s \<Longrightarrow> abandoned k (final (streams_closeAll reason s))"
proof -
  assume "abandoned k s"
  from abandoned_loop [OF this, of reason "map snd (cls_streams s)"]
  show ?thesis by (auto simp: streams_closeAll_def final_seq update_def abandoned_def split: prod.splits sum.splits)
qed

lemma abandoned_step: "abandoned k s \<Longrightarrow> abandoned k (stream_step C op s)"
  using abandoned_same [OF _ send_chunks_same]
  by (cases op) (auto simp: abandoned_open abandoned_end abandoned_inbound abandoned_timer abandoned_closeAll stream_send_def throw_def)

lemma abandoned_run: "abandoned k s \<Longrightarrow> abandoned k (stream_run C ops s)"
  unfolding stream_run_def by (induction ops arbitrary: s) (simp_all add: abandoned_step)

lemma timer_abandons:
  assumes "k < length (cls_objs t)" "csm_settled (cls_objs t ! k) = None" "map_get (cls_streams t) (csm_streamId (cls_objs t ! k)) = None"
    and "\<And>j. map_get (cls_streams t) j \<noteq> Some k"
  shows "abandoned k (stream_step C (Op_Timer k) t)"
  using assms by (simp add: abandoned_def stream_timer_def stream_obj_def on_stream_def ret_def Let_def map_has_get)

text \<open>An exit that answers BEGIN with END, as this code's own exit does when it refuses a destination, leaves the promise of
  \<open>openStream\<close> open for ever: once END has been handled and the timer has fired, no later operation settles it. (The
  timeout looks the stream up in the map, from which END has removed it, and END itself rejects nothing.)\<close>

theorem refused_stream_hangs:
  assumes "map_get (cls_streams (stream_run C ops (createClientStreams c))) sid = Some k"
    and "csm_settled (stream_obj (stream_run C ops (createClientStreams c)) k) = None"
  shows "csm_settled (stream_obj (stream_run C (ops @ [Op_Inbound RELAY_END sid reason, Op_Timer k] @ later) (createClientStreams c)) k) = None"
proof -
  let ?s = "stream_run C ops (createClientStreams c)"
  let ?t = "stream_step C (Op_Inbound RELAY_END sid reason) ?s"
  have inv: "streams_inv ?s" by (rule run_streams_inv [OF inv_start])
  have k: "k < length (cls_objs ?s)" "csm_streamId (cls_objs ?s ! k) = sid" using inv assms(1) by (simp_all add: streams_inv_def)
  have only: "map_get (cls_streams ?s) j = Some k \<Longrightarrow> j = sid" for j using inv k by (auto simp: streams_inv_def)
  have t: "cls_objs ?t = (cls_objs ?s)[k := (cls_objs ?s ! k)\<lparr>csm_closed := True\<rparr>]" "cls_streams ?t = map_delete sid (cls_streams ?s)"
    using assms(1) k by (simp_all add: handleInboundRelay_def entry_onEnd_def emit_def drop_stream_def on_stream_def stream_obj_def)
  have gone: "map_get (cls_streams ?t) sid = None" "map_get (cls_streams ?t) j \<noteq> Some k" for j
    unfolding t by (auto simp: jm.get_del dest: only)
  have x: "cls_objs ?t ! k = (cls_objs ?s ! k)\<lparr>csm_closed := True\<rparr>" "length (cls_objs ?t) = length (cls_objs ?s)"
    unfolding t(1) using k(1) by simp_all
  have "abandoned k (stream_step C (Op_Timer k) ?t)"
    by (rule timer_abandons; (unfold x)?) (use k assms(2) gone in \<open>simp_all add: stream_obj_def\<close>)
  then have "abandoned k (stream_run C later (stream_step C (Op_Timer k) ?t))" by (rule abandoned_run)
  then show ?thesis by (simp add: stream_run_def abandoned_def stream_obj_def)
qed

section \<open>Instances\<close>

lemma sendForward_ok:
  assumes "hash_ok C" "cct_hops (ccl_circuit s) \<noteq> []" "\<forall>h\<in>set (cct_hops (ccl_circuit s)). length (chp_Kf h) = 32"
    and "0 \<le> cct_circuitId (ccl_circuit s)" "cct_circuitId (ccl_circuit s) \<le> 0xFFFFFFFF" "length data \<le> 499" "sid < 65536"
  shows "\<exists>c s'. sendForward cell C cmd sid data s = (Inr (), [cell c], s')"
proof -
  let ?c = "ccl_circuit s"
  obtain p dg where p: "buildRelayPayload C cmd (int sid) data (chp_forwardDigest (last (cct_hops ?c))) = Inr (p, dg)"
    and lp: "length p = 508"
    using buildRelayPayload_layout [OF assms(6), of "int sid" C cmd] assms(1,6,7) by (auto simp: length_relay_bytes hash_ok_def)
  let ?hs = "update_last (\<lambda>h. h\<lparr>chp_forwardDigest := dg\<rparr>) (cct_hops ?c)"
  have ne: "?hs \<noteq> []" using assms(2) by (simp add: update_last_def)
  have "set ?hs \<subseteq> set (cct_hops ?c) \<union> {(last (cct_hops ?c))\<lparr>chp_forwardDigest := dg\<rparr>}"
    by (auto simp: update_last_def dest: in_set_butlastD)
  then have len: "\<forall>h\<in>set ?hs. length (chp_Kf h) = 32" using assms(2,3) by fastforce
  obtain q where q: "encryptOutbound C (?c\<lparr>cct_hops := ?hs\<rparr>) p = Inr (q, ?c\<lparr>cct_hops := map bump_fwd ?hs\<rparr>)" and lq: "length q = 508"
    using lp ne encrypt_hops_layers [OF len, of C p] chacha.length_wrap [of C "fwd_keys ?hs" p] by (simp add: encryptOutbound_def)
  have "buildCell WIRE_VERSION_V2 (cct_circuitId ?c) CMD_RELAY q = Inr (cell_bytes 2 (nat (cct_circuitId ?c)) 3 q)"
    using buildCell_layout [OF assms(4,5), of q 2 3] lq by simp
  then show ?thesis using p q assms(2) by (auto simp: sendForward_def Let_def emit_def)
qed

definition toy_dest :: destination where
  "toy_dest = \<lparr>dst_addrType = 1, dst_addr = [127, 0, 0, 1], dst_port = 80, dst_flags = 0\<rparr>"

lemma toy_opened:
  "\<exists>c. map_get (cls_streams (stream_run toy_crypto [Op_Open toy_dest] (createClientStreams c))) 1 = Some 0
    \<and> csm_settled (stream_obj (stream_run toy_crypto [Op_Open toy_dest] (createClientStreams c)) 0) = None"
proof -
  obtain h r where h: "in_step h r" using toy_hop by blast
  let ?c = "\<lparr>cct_circuitId = 1, cct_hops = [h]\<rparr>"
  let ?s = "(createClientStreams ?c)\<lparr>cls_nextStreamId := next_stream_id 1, cls_streams := [(1, 0)],
    cls_objs := [\<lparr>csm_streamId = 1, csm_closed = False, csm_settled = None, csm_timer = False\<rparr>]\<rparr>"
  obtain p where p: "buildBeginPayload toy_dest = Inr p" "length p \<le> 499"
    by (simp add: toy_dest_def buildBeginPayload_def addr_field_def Let_def)
  have "length (chp_Kf h) = 32" using h by (simp add: in_step_def)
  then obtain x s' where "sendForward Stream_Cell toy_crypto RELAY_BEGIN 1 p ?s = (Inr (), [Stream_Cell x], s')"
    using sendForward_ok [OF toy_hash_ok, of ?s p 1 Stream_Cell RELAY_BEGIN] p(2) by (auto simp: createClientStreams_def)
  moreover have "same_streams ?s (final (stream_sendForward toy_crypto RELAY_BEGIN 1 p ?s))" by (rule sendForward_same)
  ultimately have o: "seq (lift (Inr p) ?s) (stream_sendForward toy_crypto RELAY_BEGIN 1) = (Inr (), [Stream_Cell x], s')" "same_streams ?s s'"
    by (simp_all add: stream_sendForward_def lift_def seq_def createClientStreams_def)
  have "snd (snd (openStream toy_crypto toy_dest (createClientStreams ?c))) = on_stream 0 (\<lambda>x. x\<lparr>csm_timer := True\<rparr>) s'"
    using o(1) p(1) by (simp add: openStream_def createClientStreams_def map_set_def)
  then have "map_get (cls_streams (stream_run toy_crypto [Op_Open toy_dest] (createClientStreams ?c))) 1 = Some 0
    \<and> csm_settled (stream_obj (stream_run toy_crypto [Op_Open toy_dest] (createClientStreams ?c)) 0) = None"
    using o(2) by (simp add: stream_run_def same_streams_def on_stream_def stream_obj_def map_get_def)
  then show ?thesis by blast
qed

theorem streams_routed_witness:
  "\<exists>c. map_get (cls_streams (stream_run toy_crypto [Op_Open toy_dest] (createClientStreams c))) 1 = Some 0
    \<and> csm_streamId (stream_obj (stream_run toy_crypto [Op_Open toy_dest] (createClientStreams c)) 0) = 1
    \<and> \<not> csm_closed (stream_obj (stream_run toy_crypto [Op_Open toy_dest] (createClientStreams c)) 0)"
  using toy_opened streams_routed [of toy_crypto "[Op_Open toy_dest]" _ 1 0] by blast

theorem refused_stream_hangs_witness:
  "\<exists>c. csm_settled (stream_obj (stream_run toy_crypto ([Op_Open toy_dest] @ [Op_Inbound RELAY_END 1 [2], Op_Timer 0] @ [Op_Open toy_dest])
      (createClientStreams c)) 0) = None"
  using toy_opened refused_stream_hangs [of toy_crypto "[Op_Open toy_dest]" _ 1 0 "[2]" "[Op_Open toy_dest]"] by blast

end
