(* ===== verification/V2_Hsdir.thy ===== *)
theory V2_Hsdir
  imports V2_Descriptor V2_Client_Streams V2_Hsdir_Role
begin

text \<open>
  The directory of descriptors: the client with its cache (\<open>v2-runtime/hsdir\_client.mjs\<close>), the reading of a reply's cells
  (\<open>hsdir\_exit\_role.mjs\<close>) and the fetch through a circuit (\<open>hsdir\_circuit\_fetch.mjs\<close>). The HTTP client is an
  argument: it maps a URL to an answer or to nothing where it throws. What follows an \<open>await\<close> is an operation of its own.
\<close>

section \<open>Lookup keys\<close>

definition is_base32_char :: "char \<Rightarrow> bool" where "is_base32_char c \<longleftrightarrow> c \<in> set ''abcdefghijklmnopqrstuvwxyz234567''"

definition lookupKeyForAddress :: "string \<Rightarrow> string res" where
  "lookupKeyForAddress address =
     (let a = toLowerCase (js_trim address)
      in if length a < 5 \<or> drop (length a - 5) a \<noteq> ONION_ADDR_SUFFIX then Inl (Error ''address missing .anon suffix'')
         else
           let body = take (length a - 5) a
           in if \<not> (16 \<le> length body \<and> length body \<le> 64 \<and> list_all is_base32_char body)
              then Inl (Error ''malformed .anon address body'') else Inr body)"

section \<open>Fetching\<close>

text \<open>The comparison of a descriptor with the address it was fetched for. Reading a field of null, or one that the descriptor of
  the other version does not have, throws.\<close>

definition bytes_differ :: "bytes \<Rightarrow> bytes \<Rightarrow> bool" where
  "bytes_differ a b \<longleftrightarrow> (\<exists>i\<in>set [0..<length a]. i \<ge> length b \<or> a ! i \<noteq> b ! i)"

definition check_binding :: "crypto \<Rightarrow> string \<Rightarrow> descriptor \<Rightarrow> descriptor res" where
  "check_binding C address descriptor =
     (case decodeOnionAddress C address of
        None \<Rightarrow> Inl (TypeError ''Cannot read properties of null'')
      | Some (Identity_Hash identityHash) \<Rightarrow>
          (case descriptor of
             Version_2 d \<Rightarrow> Inl (Error ''v3 descriptor missing hybrid pubkeys'')
           | Version_3 d \<Rightarrow>
               if bytes_differ (blake2b_32 C (d3_SVC_pk_ed d @ d3_SVC_pk_mldsa d)) identityHash
               then Inl (Error ''pubkey binding mismatch'') else Inr descriptor)
      | Some (Svc_Pk svcPk) \<Rightarrow>
          (case descriptor of
             Version_3 d \<Rightarrow> Inl (Error ''v2 descriptor missing SVC_pk'')
           | Version_2 d \<Rightarrow> if bytes_differ (d2_SVC_pk d) svcPk then Inl (Error ''SVC_pk mismatch'') else Inr descriptor))"

definition fetchDescriptorFromHsdir :: "crypto \<Rightarrow> (string \<Rightarrow> http_reply option) \<Rightarrow> string \<Rightarrow> string \<Rightarrow> descriptor res" where
  "fetchDescriptorFromHsdir C fetch daBaseUrl address =
     (case lookupKeyForAddress address of
        Inl e \<Rightarrow> Inl e
      | Inr key \<Rightarrow>
          (case fetch (hsdir_url daBaseUrl key) of
             None \<Rightarrow> Inl (Error ''HSDir GET failed'')
           | Some resp \<Rightarrow>
               if \<not> (200 \<le> htr_status resp \<and> htr_status resp \<le> 299) then Inl (Error ''HSDir GET: HTTP status'')
               else
                 let buf = htr_body resp
                 in if length buf = 0 \<or> length buf > 65536 then Inl (Error ''HSDir descriptor: bad size'')
                    else
                      (case parseServiceDescriptorAny buf of
                         None \<Rightarrow> Inl (Error ''HSDir descriptor: parse failed'')
                       | Some descriptor \<Rightarrow> check_binding C address descriptor)))"

text \<open>\<open>doFetch\<close>: through a circuit where there is a fetcher for it, and directly when that fails. The fetcher is an argument.\<close>

definition fetch_over_circuit :: "crypto \<Rightarrow> (string \<Rightarrow> (nat \<times> bytes) res) \<Rightarrow> string \<Rightarrow> descriptor res" where
  "fetch_over_circuit C circuitFetcher address =
     (case circuitFetcher address of
        Inl e \<Rightarrow> Inl e
      | Inr (httpStatus, body) \<Rightarrow>
          if httpStatus < 200 \<or> httpStatus > 299 then Inl (Error ''circuit-routed HSDir GET: HTTP status'')
          else
            (case parseServiceDescriptorAny body of
               None \<Rightarrow> Inl (Error ''circuit-routed: descriptor parse failed'')
             | Some descriptor \<Rightarrow> check_binding C address descriptor))"

definition doFetch ::
  "crypto \<Rightarrow> (string \<Rightarrow> (nat \<times> bytes) res) option \<Rightarrow> (string \<Rightarrow> http_reply option) \<Rightarrow> string \<Rightarrow> string \<Rightarrow> descriptor res" where
  "doFetch C circuitFetcher fetch daBaseUrl address =
     (case circuitFetcher of
        None \<Rightarrow> fetchDescriptorFromHsdir C fetch daBaseUrl address
      | Some f \<Rightarrow>
          (case fetch_over_circuit C f address of
             Inr descriptor \<Rightarrow> Inr descriptor
           | Inl e \<Rightarrow> fetchDescriptorFromHsdir C fetch daBaseUrl address))"

section \<open>The client and its cache\<close>

text \<open>A fetch under way is kept with the address it was started for; its number stands for the promise, which the callers that
  come while it runs share.\<close>

record hsdir_client =
  hsc_cache :: "(string, descriptor \<times> nat) jsmap"
  hsc_inFlight :: "(string, nat) jsmap"
  hsc_fetches :: "(string \<times> descriptor option option) list"

definition createHsdirClient :: hsdir_client where
  "createHsdirClient = \<lparr>hsc_cache = [], hsc_inFlight = [], hsc_fetches = []\<rparr>"

fun descriptor_expiry :: "descriptor \<Rightarrow> nat" where
  "descriptor_expiry (Version_2 d) = js_number (d2_publishEpoch d + d2_lifetimeSeconds d)"
| "descriptor_expiry (Version_3 d) = js_number (d3_publishEpoch d + d3_lifetimeSeconds d)"

datatype lookup_result = Found descriptor | Pending nat

definition hsdir_lookup :: "int \<Rightarrow> string \<Rightarrow> hsdir_client \<Rightarrow> lookup_result \<times> hsdir_client" where
  "hsdir_lookup now address s =
     (let key = normaliseHost address
      in case (case map_get (hsc_cache s) key of
                 Some (descriptor, expiresAt) \<Rightarrow> if int expiresAt > now then Some descriptor else None
               | None \<Rightarrow> None) of
           Some descriptor \<Rightarrow> (Found descriptor, s)
         | None \<Rightarrow>
             (case map_get (hsc_inFlight s) key of
                Some p \<Rightarrow> (Pending p, s)
              | None \<Rightarrow>
                  let p = length (hsc_fetches s)
                  in (Pending p, s\<lparr>hsc_inFlight := map_set key p (hsc_inFlight s), hsc_fetches := hsc_fetches s @ [(address, None)]\<rparr>)))"

text \<open>The end of a fetch: what \<open>doFetch\<close> returned or threw; its promise resolves with the descriptor or null.\<close>

definition fetch_done :: "nat \<Rightarrow> descriptor res \<Rightarrow> hsdir_client \<Rightarrow> hsdir_client" where
  "fetch_done p r s =
     (if p < length (hsc_fetches s) \<and> snd (hsc_fetches s ! p) = None then
        let address = fst (hsc_fetches s ! p);
            key = normaliseHost address;
            s = (case r of
                   Inl e \<Rightarrow> s\<lparr>hsc_fetches := (hsc_fetches s)[p := (address, Some None)]\<rparr>
                 | Inr descriptor \<Rightarrow>
                     s\<lparr>hsc_cache := map_set key (descriptor, descriptor_expiry descriptor) (hsc_cache s),
                       hsc_fetches := (hsc_fetches s)[p := (address, Some (Some descriptor))]\<rparr>)
        in s\<lparr>hsc_inFlight := map_delete key (hsc_inFlight s)\<rparr>
      else s)"

definition hsdir_invalidate :: "string \<Rightarrow> hsdir_client \<Rightarrow> hsdir_client" where
  "hsdir_invalidate address s = s\<lparr>hsc_cache := map_delete (normaliseHost address) (hsc_cache s)\<rparr>"

section \<open>The cells of a reply\<close>

text \<open>\<open>source.copy(target, off)\<close>, which copies what fits.\<close>

definition buf_copy :: "bytes \<Rightarrow> bytes \<Rightarrow> nat \<Rightarrow> bytes" where
  "buf_copy source target off = (if off \<ge> length target then target else set_at target off (take (length target - off) source))"

fun collect_cells :: "bytes list \<Rightarrow> bytes \<Rightarrow> nat \<Rightarrow> bytes \<times> nat" where
  "collect_cells [] collected off = (collected, off)"
| "collect_cells (d # ds) collected off = collect_cells ds (buf_copy d collected off) (off + length d)"

definition parseDescfetchReplyStream :: "bytes list \<Rightarrow> nat option \<Rightarrow> (nat \<times> bytes) res" where
  "parseDescfetchReplyStream replyCells endCell =
     (case replyCells of
        [] \<Rightarrow> Inl (Error ''parseDescfetchReplyStream: no reply cells'')
      | first # rest \<Rightarrow>
          if endCell \<noteq> Some RELAY_DESCFETCH_END then Inl (Error ''parseDescfetchReplyStream: missing END terminator'')
          else if length first < REPLY_HEADER_BYTES then Inl (Error ''parseDescfetchReplyStream: first cell too short'')
          else
            let httpStatus = be_val (subarray first 0 4);
                totalLen = be_val (subarray first 4 8);
                (collected, off) = collect_cells (drop REPLY_HEADER_BYTES first # rest) (zeros totalLen) 0
            in if off \<noteq> totalLen then Inl (Error ''parseDescfetchReplyStream: length mismatch'')
               else Inr (httpStatus, collected))"

section \<open>The fetch through a circuit\<close>

definition DESCFETCH_STREAM_ID :: nat where [simp]: "DESCFETCH_STREAM_ID = 0x0042"

record descfetch = client_circuit +
  dsf_replies :: "bytes list"
  dsf_settled :: "(nat \<times> bytes) res option"

definition settle_fetch :: "(nat \<times> bytes) res \<Rightarrow> descfetch \<Rightarrow> descfetch" where
  "settle_fetch r s = (if dsf_settled s = None then s\<lparr>dsf_settled := Some r\<rparr> else s)"

definition descfetch_onData :: "nat \<Rightarrow> bytes \<Rightarrow> descfetch \<Rightarrow> descfetch" where
  "descfetch_onData relayCommand data s =
     (if relayCommand = RELAY_DESCFETCH_REPLY then s\<lparr>dsf_replies := dsf_replies s @ [data]\<rparr>
      else if relayCommand = RELAY_DESCFETCH_END then
        settle_fetch (parseDescfetchReplyStream (dsf_replies s) (Some relayCommand)) s
      else s)"

definition descfetch_timeout :: "descfetch \<Rightarrow> descfetch" where
  "descfetch_timeout s = settle_fetch (Inl (Error ''descfetch timeout'')) s"

definition descfetch_onDestroy :: "descfetch \<Rightarrow> descfetch" where
  "descfetch_onDestroy s = settle_fetch (Inl (Error ''circuit destroyed'')) s"

text \<open>The request, once the circuit is built.\<close>

definition descfetch_start :: "crypto \<Rightarrow> string \<Rightarrow> descfetch \<Rightarrow> (unit, bytes, descfetch) effectful" where
  "descfetch_start C address s =
     (case lookupKeyForAddress address of
        Inl e \<Rightarrow> throw e s
      | Inr key \<Rightarrow> sendForward id C RELAY_DESCFETCH DESCFETCH_STREAM_ID (ascii key) s)"

end
