(* ===== verification/V2_Hsdir_Props.thy ===== *)
theory V2_Hsdir_Props
  imports V2_Hsdir V2_Descriptor_Props
begin

text \<open>
  What a descriptor from the directory is checked for, and what it is not; the cache; the cells of a reply and back.
\<close>

section \<open>The binding to the address\<close>

lemma bytes_differ_iff: "length a = length b \<Longrightarrow> bytes_differ a b \<longleftrightarrow> a \<noteq> b"
  unfolding bytes_differ_def by (metis atLeastLessThan_iff le0 leD nth_equalityI set_upt)

lemma decoded_length:
  assumes "hash_ok C" "decodeOnionAddress C addr = Some d"
  shows "case d of Svc_Pk b \<Rightarrow> length b = 32 | Identity_Hash b \<Rightarrow> length b = 32"
  using assms(2) by (elim decode_steps) (auto simp: id_of_def)

lemma binding_named:
  assumes "hash_ok C" "check_binding C addr d = Inr d'" "case d of Version_2 d2 \<Rightarrow> length (d2_SVC_pk d2) = 32 | _ \<Rightarrow> True"
  shows "d' = d \<and> named_by C d addr"
proof -
  obtain i where i: "decodeOnionAddress C addr = Some i" using assms(2) by (cases "decodeOnionAddress C addr") (auto simp: check_binding_def)
  note l = decoded_length [OF assms(1) i]
  have h: "length (blake2b_32 C x) = 32" for x using assms(1) by (simp add: hash_ok_def)
  show ?thesis
    using assms(2,3) i l h bytes_differ_iff
    by (cases i; cases d) (auto simp: check_binding_def named_by_def split: if_splits)
qed

lemma parsed_length:
  "parseServiceDescriptorAny buf = Some d \<Longrightarrow> case d of Version_2 d2 \<Rightarrow> length (d2_SVC_pk d2) = 32 | _ \<Rightarrow> True"
  by (auto simp: parseServiceDescriptorAny_def elim!: parse_v2_sound parse_v3_sound split: if_splits)

lemma fetched_named:
  assumes "hash_ok C" "doFetch C cf fetch base addr = Inr d"
  shows "named_by C d addr"
proof -
  have direct: "named_by C d addr" if "fetchDescriptorFromHsdir C fetch base addr = Inr d"
    using that binding_named [OF assms(1)] parsed_length
    by (fastforce simp: fetchDescriptorFromHsdir_def Let_def split: sum.splits option.splits if_splits)
  have circ: "named_by C d addr" if "fetch_over_circuit C f addr = Inr d" for f
    using that binding_named [OF assms(1)] parsed_length
    by (fastforce simp: fetch_over_circuit_def split: sum.splits option.splits if_splits)
  show ?thesis using assms(2) direct circ by (auto simp: doFetch_def split: option.splits sum.splits)
qed

section \<open>The cache\<close>

lemma space_lower: "is_space (lower_char c) = is_space c"
proof -
  have "char_code (char_of (char_code c + 32)) = char_code c + 32" if "char_code c \<le> 90"
    using that by (simp add: char_code_def)
  then show ?thesis by (auto simp: lower_char_def is_space_def)
qed

lemma space_index: "is_space c \<Longrightarrow> symbol_index c < 0"
  by (auto simp: is_space_def symbol_index_def ALPHABET_INDEX_updates)

lemma toLowerCase_idem: "toLowerCase (toLowerCase s) = toLowerCase s"
proof -
  have "lower_char (lower_char c) = lower_char c" for c by (auto simp: lower_char_def char_code_def)
  then show ?thesis by (simp add: toLowerCase_def)
qed

lemma decode_lower: "decodeOnionAddress C (toLowerCase a) = decodeOnionAddress C a"
  by (simp add: decodeOnionAddress_def toLowerCase_idem)

lemma decoded_no_space:
  assumes "decodeOnionAddress C a = Some d"
  shows "list_all (\<lambda>c. \<not> is_space c) a"
proof -
  let ?l = "toLowerCase a"
  obtain bs where l: "5 \<le> length ?l" "drop (length ?l - 5) ?l = ''.anon''" and b: "base32decode (take (length ?l - 5) ?l) = Some bs"
    by (rule decode_steps [OF assms])
  have "list_all (\<lambda>c. 0 \<le> symbol_index c) (take (length ?l - 5) ?l)" using base32decode_spec [OF b] by blast
  then have "list_all (\<lambda>c. \<not> is_space c) (take (length ?l - 5) ?l)" using space_index by (fastforce simp: list_all_iff)
  moreover have "list_all (\<lambda>c. \<not> is_space c) ''.anon''" by (simp add: is_space_def char_code_def)
  ultimately have "list_all (\<lambda>c. \<not> is_space c) (take (length ?l - 5) ?l @ drop (length ?l - 5) ?l)" using l(2) by simp
  then show ?thesis by (simp add: toLowerCase_def list.pred_map space_lower comp_def)
qed

lemma named_normal:
  assumes "named_by C d a"
  shows "named_by C d (normaliseHost a)"
proof -
  have "list_all (\<lambda>c. \<not> is_space c) a" using assms decoded_no_space by (auto simp: named_by_def)
  then show ?thesis using assms by (simp add: normaliseHost_def trim_fix named_by_def decode_lower)
qed

text \<open>What happens to the client, when every fetch ends with what \<open>doFetch\<close> made of some answer of the directory.\<close>

inductive hsdir_step :: "crypto \<Rightarrow> string \<Rightarrow> hsdir_client \<Rightarrow> hsdir_client \<Rightarrow> bool" for C base where
  lookup: "hsdir_step C base s (snd (hsdir_lookup now a s))"
| fetched: "p < length (hsc_fetches s) \<Longrightarrow> hsdir_step C base s (fetch_done p (doFetch C cf fetch base (fst (hsc_fetches s ! p))) s)"
| invalidate: "hsdir_step C base s (hsdir_invalidate a s)"

definition hsdir_runs :: "crypto \<Rightarrow> string \<Rightarrow> hsdir_client \<Rightarrow> hsdir_client \<Rightarrow> bool" where
  "hsdir_runs C base = (hsdir_step C base)\<^sup>*\<^sup>*"

text \<open>Cached descriptors are named by their key and expire with their own lifetime; a key in flight has an unfinished fetch, started
  for an address of that key; and a fetch that ended with a descriptor has one that its address names.\<close>

definition hsdir_inv :: "crypto \<Rightarrow> hsdir_client \<Rightarrow> bool" where
  "hsdir_inv C s \<longleftrightarrow>
     (\<forall>key d e. map_get (hsc_cache s) key = Some (d, e) \<longrightarrow> named_by C d key \<and> e = descriptor_expiry d)
   \<and> (\<forall>key p. map_get (hsc_inFlight s) key = Some p \<longleftrightarrow>
         p < length (hsc_fetches s) \<and> snd (hsc_fetches s ! p) = None \<and> normaliseHost (fst (hsc_fetches s ! p)) = key)
   \<and> (\<forall>p d. p < length (hsc_fetches s) \<longrightarrow> snd (hsc_fetches s ! p) = Some (Some d) \<longrightarrow> named_by C d (normaliseHost (fst (hsc_fetches s ! p))))"

lemma lookup_inv:
  assumes "hsdir_inv C s"
  shows "hsdir_inv C (snd (hsdir_lookup now a s))"
proof (cases "map_get (hsc_inFlight s) (normaliseHost a)")
  case None
  let ?s = "s\<lparr>hsc_inFlight := map_set (normaliseHost a) (length (hsc_fetches s)) (hsc_inFlight s), hsc_fetches := hsc_fetches s @ [(a, None)]\<rparr>"
  have "\<not> (p < length (hsc_fetches s) \<and> snd (hsc_fetches s ! p) = None \<and> normaliseHost (fst (hsc_fetches s ! p)) = normaliseHost a)" for p
    using assms None unfolding hsdir_inv_def by (metis option.distinct(1))
  then have "hsdir_inv C ?s" using assms by (auto simp: hsdir_inv_def jm.get_put nth_append less_Suc_eq)
  then show ?thesis using assms None by (auto simp: hsdir_lookup_def Let_def split: option.splits prod.splits)
next
  case (Some p)
  then show ?thesis using assms by (auto simp: hsdir_lookup_def Let_def split: option.splits prod.splits)
qed

lemma fetched_inv:
  assumes "hash_ok C" "hsdir_inv C s" "p < length (hsc_fetches s)"
  shows "hsdir_inv C (fetch_done p (doFetch C cf fetch base (fst (hsc_fetches s ! p))) s)"
proof (cases "snd (hsc_fetches s ! p) = None")
  case True
  let ?a = "fst (hsc_fetches s ! p)" and ?r = "doFetch C cf fetch base (fst (hsc_fetches s ! p))"
  have p: "map_get (hsc_inFlight s) (normaliseHost ?a) = Some p" using assms(2,3) True by (simp add: hsdir_inv_def)
  have own: "q = p" if "q < length (hsc_fetches s)" "snd (hsc_fetches s ! q) = None" "normaliseHost (fst (hsc_fetches s ! q)) = normaliseHost ?a" for q
    using assms(2) p that unfolding hsdir_inv_def by (metis option.inject)
  show ?thesis
  proof (cases ?r)
    case (Inl e)
    then show ?thesis using assms(2,3) True own
      by (auto simp: fetch_done_def hsdir_inv_def jm.get_del nth_list_update Let_def)
  next
    case (Inr d)
    have "named_by C d (normaliseHost ?a)" by (rule named_normal [OF fetched_named [OF assms(1) Inr]])
    then show ?thesis using assms(2,3) True own Inr
      by (auto simp: fetch_done_def hsdir_inv_def jm.get_del jm.get_put nth_list_update Let_def)
  qed
next
  case False
  then show ?thesis using assms(2) by (auto simp: fetch_done_def)
qed

lemma pending_of:
  assumes "hsdir_inv C s" "hsdir_lookup now a s = (Pending p, s')"
  shows "p < length (hsc_fetches s') \<and> normaliseHost (fst (hsc_fetches s' ! p)) = normaliseHost a"
proof (cases "map_get (hsc_inFlight s) (normaliseHost a)")
  case None
  then show ?thesis using assms(2) by (auto simp: hsdir_lookup_def Let_def split: option.splits prod.splits if_splits)
next
  case (Some q)
  then have "q < length (hsc_fetches s) \<and> normaliseHost (fst (hsc_fetches s ! q)) = normaliseHost a"
    using assms(1) unfolding hsdir_inv_def by blast
  then show ?thesis using Some assms(2) by (auto simp: hsdir_lookup_def Let_def split: option.splits prod.splits if_splits)
qed

lemma hsdir_step_inv: "hsdir_step C base s t \<Longrightarrow> hash_ok C \<Longrightarrow> hsdir_inv C s \<Longrightarrow> hsdir_inv C t"
proof (induction rule: hsdir_step.induct)
  case (invalidate s a)
  then show ?case by (auto simp: hsdir_inv_def hsdir_invalidate_def jm.get_del)
qed (simp_all add: lookup_inv fetched_inv)

lemma hsdir_runs_inv: "hsdir_runs C base s t \<Longrightarrow> hash_ok C \<Longrightarrow> hsdir_inv C s \<Longrightarrow> hsdir_inv C t"
  unfolding hsdir_runs_def by (induction rule: rtranclp_induct) (auto intro: hsdir_step_inv)

lemma hsdir_start_inv: "hsdir_inv C createHsdirClient" by (simp add: hsdir_inv_def createHsdirClient_def)

text \<open>A promise stays that of its address.\<close>

lemma hsdir_step_keeps:
  "hsdir_step C base s t \<Longrightarrow> p < length (hsc_fetches s) \<Longrightarrow> p < length (hsc_fetches t) \<and> fst (hsc_fetches t ! p) = fst (hsc_fetches s ! p)"
  by (induction rule: hsdir_step.induct)
    (auto simp: hsdir_lookup_def fetch_done_def hsdir_invalidate_def Let_def nth_append nth_list_update split: option.splits sum.splits prod.splits)

lemma hsdir_runs_keeps:
  "hsdir_runs C base s t \<Longrightarrow> p < length (hsc_fetches s) \<Longrightarrow> p < length (hsc_fetches t) \<and> fst (hsc_fetches t ! p) = fst (hsc_fetches s ! p)"
  unfolding hsdir_runs_def by (induction rule: rtranclp_induct) (simp, metis hsdir_step_keeps)

text \<open>C21. Whatever the directory answers, and in whatever order fetches overlap, a lookup gives a descriptor whose keys the address
  names, at once or later. One that is in the cache has not outlived its own lifetime. Otherwise the lookup waits for a fetch, and
  at whatever later time that fetch has ended with a descriptor, it is one that the address of the lookup names; its lifetime is
  not checked then (\<open>fetch\_ignores\_lifetime\<close>). At most one fetch is under way for an address.\<close>

theorem hsdir_lookup_sound:
  assumes "hash_ok C" "hsdir_runs C base createHsdirClient s" "hsdir_lookup now a s = (r, s')" "hsdir_runs C base s' t"
  shows "(case r of
      Found d \<Rightarrow> named_by C d (normaliseHost a) \<and> now < int (descriptor_expiry d)
    | Pending p \<Rightarrow> p < length (hsc_fetches t)
        \<and> (case snd (hsc_fetches t ! p) of Some (Some d) \<Rightarrow> named_by C d (normaliseHost a) | _ \<Rightarrow> True))
    \<and> (\<forall>p q. \<not> (p < q \<and> q < length (hsc_fetches t) \<and> snd (hsc_fetches t ! p) = None \<and> snd (hsc_fetches t ! q) = None
         \<and> normaliseHost (fst (hsc_fetches t ! p)) = normaliseHost (fst (hsc_fetches t ! q))))"
proof -
  have inv: "hsdir_inv C s" by (rule hsdir_runs_inv [OF assms(2,1) hsdir_start_inv])
  have s': "s' = snd (hsdir_lookup now a s)" using assms(3) by simp
  have inv_t: "hsdir_inv C t" by (rule hsdir_runs_inv [OF assms(4,1)]) (simp add: s' lookup_inv inv)
  have "p = q" if "p < length (hsc_fetches t)" "q < length (hsc_fetches t)" "snd (hsc_fetches t ! p) = None"
    "snd (hsc_fetches t ! q) = None" "normaliseHost (fst (hsc_fetches t ! p)) = normaliseHost (fst (hsc_fetches t ! q))" for p q
    using inv_t that unfolding hsdir_inv_def by (metis option.inject)
  note one = this
  have one': "\<not> (p < q \<and> q < length (hsc_fetches t) \<and> snd (hsc_fetches t ! p) = None \<and> snd (hsc_fetches t ! q) = None
      \<and> normaliseHost (fst (hsc_fetches t ! p)) = normaliseHost (fst (hsc_fetches t ! q)))" for p q
    using one [of p q] by auto
  show ?thesis
  proof (cases r)
    case (Found d)
    obtain e where e: "map_get (hsc_cache s) (normaliseHost a) = Some (d, e)" "now < int e"
      using assms(3) Found by (auto simp: hsdir_lookup_def Let_def split: option.splits prod.splits if_splits)
    have "named_by C d (normaliseHost a) \<and> e = descriptor_expiry d" using inv e(1) unfolding hsdir_inv_def by blast
    then show ?thesis using e(2) Found one' by simp
  next
    case (Pending p)
    have "p < length (hsc_fetches s') \<and> normaliseHost (fst (hsc_fetches s' ! p)) = normaliseHost a"
      using pending_of [OF inv assms(3) [unfolded Pending]] .
    then have p: "p < length (hsc_fetches t)" "normaliseHost (fst (hsc_fetches t ! p)) = normaliseHost a"
      using hsdir_runs_keeps [OF assms(4), of p] by auto
    have "named_by C d (normaliseHost a)" if "snd (hsc_fetches t ! p) = Some (Some d)" for d
      using inv_t p that unfolding hsdir_inv_def by metis
    then show ?thesis using Pending p(1) one' by (auto split: option.split)
  qed
qed

text \<open>A descriptor that has outlived its lifetime is what the lookup that fetched it resolves with, whereas the next lookup at the
  same time does not find it.\<close>

lemma fetch_ignores_lifetime:
  assumes "p < length (hsc_fetches s)" "hsc_fetches s ! p = (a, None)" "int (descriptor_expiry d) \<le> now"
  shows "snd (hsc_fetches (fetch_done p (Inr d) s) ! p) = Some (Some d) \<and> fst (hsdir_lookup now a (fetch_done p (Inr d) s)) \<noteq> Found d"
  using assms by (auto simp: fetch_done_def hsdir_lookup_def Let_def jm.get_put jm.get_del split: option.splits)

section \<open>What is not checked\<close>

lemma lookup_key_of_address:
  assumes "hash_ok C" "encodeOnionAddressV3 C pe pm = Inr addr"
  shows "\<exists>key. lookupKeyForAddress addr = Inr key"
proof -
  let ?h = "computeIdentityHash C pe pm"
  have l: "length ?h = 32" using assms(1) by (simp add: hash_ok_def computeIdentityHash_append)
  have a: "addr = address_of C ?h 3" using assms(2) by (simp add: encodeOnionAddressV3_def split: if_splits)
  let ?p = "?h @ computeChecksum C ?h 3 @ [u8 3]"
  have lp: "length ?p = 35" using l length_computeChecksum [OF assms(1), of ?h 3] by simp
  have b: "length (base32encode ?p) = 56" "set (base32encode ?p) \<subseteq> set ALPHABET"
    using length_base32_address [OF lp] base32encode_spec [of ?p] by blast+
  have "normaliseHost addr = base32encode ?p @ ''.anon''"
    using normalise_address [OF assms(1) l] address_layout [OF assms(1) l] by (simp add: a)
  then have n: "toLowerCase (js_trim addr) = base32encode ?p @ ''.anon''" by (simp add: normaliseHost_def)
  have "list_all is_base32_char (base32encode ?p)" using b(2) unfolding list_all_iff is_base32_char_def ALPHABET_def by blast
  then show ?thesis using b(1) by (simp only: lookupKeyForAddress_def n Let_def length_append) simp
qed

lemma forged_accepted:
  assumes "hash_ok C" "encodeOnionAddressV3 C pe pm = Inr addr" "list_all ip_ok ips" "length ips \<le> 45"
    and "length es = 64" "length ms = 3309" "e < 2 ^ 53" "life < 2 ^ 32"
    and "\<And>url. fetch url = Some \<lparr>htr_status = 200, htr_body = region 3 (pe @ pm) e life ips @ es @ ms\<rparr>"
  shows "\<exists>d. fetchDescriptorFromHsdir C fetch base addr = Inr (Version_3 d) \<and> d3_introPoints d = ips
    \<and> d3_SVC_pk_ed d = pe \<and> d3_SVC_pk_mldsa d = pm \<and> d3_edSig d = es \<and> d3_mldsaSig d = ms \<and> d3_publishEpoch d = e
    \<and> d3_lifetimeSeconds d = life \<and> d3_signedRegion d = region 3 (pe @ pm) e life ips"
proof -
  have l: "length pe = 32" "length pm = 1952" using assms(2) by (simp_all add: encodeOnionAddressV3_def split: if_splits)
  let ?buf = "region 3 (pe @ pm) e life ips @ es @ ms"
  let ?d = "\<lparr>d3_SVC_pk_ed = pe, d3_SVC_pk_mldsa = pm, d3_publishEpoch = e, d3_lifetimeSeconds = life, d3_introPoints = ips,
    d3_edSig = es, d3_mldsaSig = ms, d3_signedRegion = region 3 (pe @ pm) e life ips\<rparr>"
  have p: "parseServiceDescriptorAny ?buf = Some (Version_3 ?d)"
    by (rule parse_v3_bytes [OF l assms(7,8) _ assms(3,5,6)]) (use assms(4) in simp)
  have size: "length ?buf = 5371 + length ips * 1312" using length_region [OF assms(3)] l assms(5,6) by simp
  have nz: "length ?buf \<noteq> 0" "\<not> length ?buf > 65536" using size assms(4) by simp_all
  obtain key where key: "lookupKeyForAddress addr = Inr key" using lookup_key_of_address [OF assms(1,2)] by blast
  have "decodeOnionAddress C addr = Some (Identity_Hash (blake2b_32 C (pe @ pm)))"
    by (rule binds_hash [OF v3_address_binds [OF assms(1,2)]])
  then have "check_binding C addr (Version_3 ?d) = Inr (Version_3 ?d)" by (simp add: check_binding_def bytes_differ_iff)
  then show ?thesis using key nz p assms(9) by (simp add: fetchDescriptorFromHsdir_def Let_def del: length_append length_greater_0_conv)
qed

text \<open>The directory can substitute the introduction points of a service. Whatever points and times it writes around the two public
  keys of the service, and whatever bytes it puts where the signatures belong, the client accepts the descriptor, also one that
  does not verify: the fetch compares the keys with the address and nothing in the client calls
  \<open>verifyServiceDescriptor\<close>.\<close>

theorem directory_forges_points:
  assumes "hash_ok C" "encodeOnionAddressV3 C pe pm = Inr addr" "list_all ip_ok ips" "length ips \<le> 45"
    and "length es = 64" "length ms = 3309" "e < 2 ^ 53" "life < 2 ^ 32"
    and "\<And>url. fetch url = Some \<lparr>htr_status = 200, htr_body = region 3 (pe @ pm) e life ips @ es @ ms\<rparr>"
    and "\<not> verify C es (region 3 (pe @ pm) e life ips) pe"
  shows "\<exists>d. fetchDescriptorFromHsdir C fetch base addr = Inr (Version_3 d) \<and> d3_introPoints d = ips
    \<and> (\<forall>now pk. \<not> verifyServiceDescriptor C (Some (Version_3 d)) now pk (Some addr))"
proof -
  obtain d where d: "fetchDescriptorFromHsdir C fetch base addr = Inr (Version_3 d)" "d3_introPoints d = ips" "d3_SVC_pk_ed d = pe"
    "d3_edSig d = es" "d3_signedRegion d = region 3 (pe @ pm) e life ips"
    using forged_accepted [OF assms(1-8), of fetch base, OF assms(9)] by blast
  have "\<not> hybridVerify C (d3_signedRegion d) (d3_SVC_pk_ed d) (d3_SVC_pk_mldsa d) (d3_edSig d) (d3_mldsaSig d)"
    using assms(10) d hybridVerify_both by metis
  then show ?thesis using d by (auto simp: verifyServiceDescriptor_def verifyServiceDescriptorV3_def)
qed

section \<open>The cells of a reply\<close>

lemma reply_chunks_spec:
  "off \<le> length body \<Longrightarrow> \<exists>ds. reply_chunks body off = map (\<lambda>d. (RELAY_DESCFETCH_REPLY, d)) ds \<and> concat ds = drop off body
    \<and> list_all (\<lambda>d. length d \<le> MAX_RELAY_DATA) ds"
proof (induction body off rule: reply_chunks.induct)
  case (1 body off)
  show ?case
  proof (cases "off < length body")
    case True
    let ?n = "min (length body - off) 499"
    have h: "off + min (length body - off) MAX_RELAY_DATA \<le> length body" using True by simp
    obtain ds where ds: "reply_chunks body (off + ?n) = map (\<lambda>d. (RELAY_DESCFETCH_REPLY, d)) ds" "concat ds = drop (off + ?n) body"
      "list_all (\<lambda>d. length d \<le> MAX_RELAY_DATA) ds"
      using "1.IH" [OF True refl h] by auto
    have c: "subarray body off (off + ?n) @ drop (off + ?n) body = drop off body"
      using append_take_drop_id [of ?n "drop off body"] by (simp add: subarray_def add.commute del: append_take_drop_id)
    have "reply_chunks body off = map (\<lambda>d. (RELAY_DESCFETCH_REPLY, d)) (subarray body off (off + ?n) # ds)"
      using True ds(1) by (subst reply_chunks.simps) (simp add: Let_def)
    moreover have "concat (subarray body off (off + ?n) # ds) = drop off body" using ds(2) c by simp
    moreover have "list_all (\<lambda>d. length d \<le> MAX_RELAY_DATA) (subarray body off (off + ?n) # ds)" using ds(3) by simp
    ultimately show ?thesis by blast
  next
    case False
    then have "reply_chunks body off = []" by (subst reply_chunks.simps) simp
    then show ?thesis using False by auto
  qed
qed

lemma collect_concat:
  "off + length (concat ds) \<le> length pre + n \<Longrightarrow> off = length pre \<Longrightarrow>
   collect_cells ds (pre @ zeros n) off = (pre @ concat ds @ zeros (n - length (concat ds)), off + length (concat ds))"
proof (induction ds arbitrary: pre off n)
  case (Cons d ds)
  have n: "length d \<le> n" using Cons.prems by simp
  have b: "buf_copy d (pre @ zeros n) (length pre) = (pre @ d) @ zeros (n - length d)"
    using n by (auto simp: buf_copy_def set_at_def)
  show ?case using Cons.IH [of "off + length d" "pre @ d" "n - length d"] Cons.prems b by (simp add: add.assoc)
qed simp

lemma reply_first:
  assumes "status < 2 ^ 32" "length b < 2 ^ 32"
  shows "\<exists>first rest. buildReplyCells status (Some b) = Inr ((RELAY_DESCFETCH_REPLY, first) # map (\<lambda>d. (RELAY_DESCFETCH_REPLY, d)) rest
      @ [(RELAY_DESCFETCH_END, [])])
    \<and> take 8 first = be_bytes 4 status @ be_bytes 4 (length b) \<and> drop 8 first @ concat rest = b
    \<and> 8 \<le> length first \<and> list_all (\<lambda>d. length d \<le> MAX_RELAY_DATA) (first # rest)"
proof -
  let ?n = "min (length b) 491"
  obtain rest where rest: "reply_chunks b ?n = map (\<lambda>d. (RELAY_DESCFETCH_REPLY, d)) rest" "concat rest = drop ?n b"
    "list_all (\<lambda>d. length d \<le> MAX_RELAY_DATA) rest" using reply_chunks_spec [of ?n b] by auto
  let ?first = "be_bytes 4 status @ be_bytes 4 (length b) @ take ?n b"
  have z: "zeros (8 + ?n) = zeros 4 @ zeros 4 @ zeros ?n" by (simp add: zeros_def flip: replicate_add)
  have f: "set_at (set_at (zeros (8 + ?n)) 0 (be_bytes 4 status)) 4 (be_bytes 4 (length b))
      = be_bytes 4 status @ be_bytes 4 (length b) @ zeros ?n"
    unfolding z by (simp add: layout set_at_front)
  have g: "set_at (be_bytes 4 status @ be_bytes 4 (length b) @ zeros ?n) 8 (subarray b 0 ?n) = ?first"
    by (simp add: layout subarray_def)
  have "buildReplyCells status (Some b) = Inr ((RELAY_DESCFETCH_REPLY, ?first) # map (\<lambda>d. (RELAY_DESCFETCH_REPLY, d)) rest
      @ [(RELAY_DESCFETCH_END, [])])"
  proof (cases "b = []")
    case True
    have "rest = []" using rest(1) True by (subst (asm) reply_chunks.simps) simp
    then show ?thesis using True assms f rest(1) by (simp add: buildReplyCells_def Let_def)
  next
    case False
    then show ?thesis using assms f g rest(1) by (simp add: buildReplyCells_def Let_def)
  qed
  then show ?thesis using rest(2,3) by (intro exI [of _ ?first] exI [of _ rest]) simp
qed

definition fresh_fetch :: "descfetch \<Rightarrow> bool" where "fresh_fetch s \<longleftrightarrow> dsf_replies s = [] \<and> dsf_settled s = None"

lemma onData_replies:
  "fold (\<lambda>(cmd, d). descfetch_onData cmd d) (map (\<lambda>d. (RELAY_DESCFETCH_REPLY, d)) ds) s = s\<lparr>dsf_replies := dsf_replies s @ ds\<rparr>"
  by (induction ds arbitrary: s) (simp_all add: descfetch_onData_def)

lemma parse_reply_cells:
  assumes "take 8 first = be_bytes 4 status @ be_bytes 4 (length b)" "drop 8 first @ concat rest = b" "8 \<le> length first"
    "status < 2 ^ 32" "length b < 2 ^ 32"
  shows "parseDescfetchReplyStream (first # rest) (Some RELAY_DESCFETCH_END) = Inr (status, b)"
proof -
  have a: "subarray first 0 4 = be_bytes 4 status" "subarray first 4 8 = be_bytes 4 (length b)"
    using arg_cong [OF assms(1), of "take 4"] arg_cong [OF assms(1), of "drop 4"] by (simp_all add: subarray_def drop_take min_def)
  have cc: "concat (drop 8 first # rest) = b" using assms(2) by simp
  have c: "collect_cells (drop 8 first # rest) (zeros (length b)) 0 = (b, length b)"
    using collect_concat [of 0 "drop 8 first # rest" "[]" "length b"] unfolding cc by simp
  show ?thesis
    using assms(3-5) by (simp add: parseDescfetchReplyStream_def a be_val_be_bytes Let_def c del: collect_cells.simps)
qed

text \<open>What the exit answers reaches the client whole: the cells that \<open>buildReplyCells\<close> cuts a status and a body into all fit a
  relay cell, and when they arrive in order the fetch settles with that status and that body, whatever the length of the body.\<close>

theorem descfetch_roundtrip:
  assumes "status < 2 ^ 32" "length b < 2 ^ 32" "fresh_fetch s"
  shows "\<exists>cells. buildReplyCells status (Some b) = Inr cells \<and> list_all (\<lambda>(cmd, d). length d \<le> MAX_RELAY_DATA) cells
    \<and> dsf_settled (fold (\<lambda>(cmd, d). descfetch_onData cmd d) cells s) = Some (Inr (status, b))"
proof -
  obtain first rest where r: "buildReplyCells status (Some b) = Inr ((RELAY_DESCFETCH_REPLY, first) # map (\<lambda>d. (RELAY_DESCFETCH_REPLY, d)) rest
      @ [(RELAY_DESCFETCH_END, [])])" "take 8 first = be_bytes 4 status @ be_bytes 4 (length b)" "drop 8 first @ concat rest = b"
    "8 \<le> length first" "list_all (\<lambda>d. length d \<le> MAX_RELAY_DATA) (first # rest)"
    using reply_first [OF assms(1,2)] by blast
  let ?cells = "map (\<lambda>d. (RELAY_DESCFETCH_REPLY, d)) (first # rest) @ [(RELAY_DESCFETCH_END, [])]"
  have b: "buildReplyCells status (Some b) = Inr ?cells" using r(1) by simp
  have f: "list_all (\<lambda>(cmd, d). length d \<le> MAX_RELAY_DATA) ?cells" using r(5) by (auto simp: list_all_iff)
  have "dsf_settled (fold (\<lambda>(cmd, d). descfetch_onData cmd d) ?cells s) = Some (Inr (status, b))"
    unfolding fold_append comp_def onData_replies
    using assms(3) parse_reply_cells [OF r(2-4) assms(1,2)]
    by (simp add: descfetch_onData_def settle_fetch_def fresh_fetch_def)
  then show ?thesis using b f by blast
qed

section \<open>Instances\<close>

lemma toy_unverified: "\<exists>es. length es = 64 \<and> \<not> verify toy_crypto es m pk"
proof -
  have "zeros 64 \<noteq> replicate 64 (1::byte)" by (simp add: zeros_def replicate_eq_replicate)
  then have "\<not> (verify toy_crypto (zeros 64) m pk \<and> verify toy_crypto (replicate 64 1) m pk)"
    by (auto simp: verify_def toy_crypto_def)
  then show ?thesis using length_replicate by (metis length_zeros)
qed

theorem directory_forges_points_witness:
  "\<exists>fetch d addr. fetchDescriptorFromHsdir toy_crypto fetch ''http://da'' addr = Inr (Version_3 d) \<and> d3_introPoints d = [toy_ip]
    \<and> \<not> verifyServiceDescriptor toy_crypto (Some (Version_3 d)) 120 None (Some addr)"
proof -
  obtain addr where a: "encodeOnionAddressV3 toy_crypto (key_edPk toy_keys) (key_mldsaPk toy_keys) = Inr addr" using toy_published by blast
  let ?r = "region 3 (key_edPk toy_keys @ key_mldsaPk toy_keys) 100 50 [toy_ip]"
  obtain es where es: "length es = 64" "\<not> verify toy_crypto es ?r (key_edPk toy_keys)" using toy_unverified by blast
  have ok: "list_all ip_ok [toy_ip]" by (simp add: ip_ok_def toy_ip_def)
  let ?f = "\<lambda>url :: string. Some \<lparr>htr_status = 200, htr_body = ?r @ es @ zeros 3309\<rparr>"
  show ?thesis
    using directory_forges_points [OF toy_hash_ok a ok _ es(1) length_zeros _ _ _ es(2), of ?f "''http://da''"] by fastforce
qed

theorem hsdir_lookup_sound_witness:
  "\<exists>s s' d addr. hsdir_runs toy_crypto ''http://da'' createHsdirClient s \<and> hsdir_lookup 120 addr s = (Found d, s') \<and> named_by toy_crypto d (normaliseHost addr)"
proof -
  obtain addr where a: "encodeOnionAddressV3 toy_crypto (key_edPk toy_keys) (key_mldsaPk toy_keys) = Inr addr" using toy_published by blast
  let ?r = "region 3 (key_edPk toy_keys @ key_mldsaPk toy_keys) 100 50 [toy_ip]"
  let ?f = "\<lambda>url :: string. Some \<lparr>htr_status = 200, htr_body = ?r @ zeros 64 @ zeros 3309\<rparr>"
  have ok: "list_all ip_ok [toy_ip]" by (simp add: ip_ok_def toy_ip_def)
  obtain d where d: "fetchDescriptorFromHsdir toy_crypto ?f ''http://da'' addr = Inr (Version_3 d)" "d3_publishEpoch d = 100"
    "d3_lifetimeSeconds d = 50"
    using forged_accepted [OF toy_hash_ok a ok _ length_zeros length_zeros, of 100 50 ?f "''http://da''"] by auto
  let ?s1 = "snd (hsdir_lookup 110 addr createHsdirClient)"
  have s1: "hsdir_runs toy_crypto ''http://da'' createHsdirClient ?s1" unfolding hsdir_runs_def by (rule r_into_rtranclp [of "hsdir_step _ _", OF hsdir_step.lookup])
  have f: "hsc_fetches ?s1 = [(addr, None)]" by (simp add: hsdir_lookup_def createHsdirClient_def Let_def)
  let ?s2 = "fetch_done 0 (doFetch toy_crypto None ?f ''http://da'' (fst (hsc_fetches ?s1 ! 0))) ?s1"
  have s2: "hsdir_runs toy_crypto ''http://da'' createHsdirClient ?s2"
    using s1 unfolding hsdir_runs_def by (rule rtranclp.rtrancl_into_rtrancl) (rule hsdir_step.fetched, simp add: f)
  have dd: "doFetch toy_crypto None ?f ''http://da'' (fst (hsc_fetches ?s1 ! 0)) = Inr (Version_3 d)" using d(1) by (simp add: doFetch_def f)
  have c: "map_get (hsc_cache ?s2) (normaliseHost addr) = Some (Version_3 d, 150)"
    unfolding dd by (simp add: fetch_done_def f Let_def jm.get_put d(2,3) js_number_small)
  obtain s2 where s2: "hsdir_runs toy_crypto ''http://da'' createHsdirClient s2" "map_get (hsc_cache s2) (normaliseHost addr) = Some (Version_3 d, 150)"
    using s2 c by blast
  then have l: "hsdir_lookup 120 addr s2 = (Found (Version_3 d), s2)" by (simp add: hsdir_lookup_def)
  have "hsdir_runs toy_crypto ''http://da'' s2 s2" by (simp add: hsdir_runs_def)
  from hsdir_lookup_sound [OF toy_hash_ok s2(1) l this] have "named_by toy_crypto (Version_3 d) (normaliseHost addr)" by simp
  then show ?thesis using s2 l by blast
qed

theorem descfetch_roundtrip_witness:
  "\<exists>cells. buildReplyCells 200 (Some (zeros 600)) = Inr cells
    \<and> dsf_settled (fold (\<lambda>(cmd, d). descfetch_onData cmd d) cells
        \<lparr>ccl_circuit = \<lparr>cct_circuitId = 1, cct_hops = []\<rparr>, dsf_replies = [], dsf_settled = None\<rparr>) = Some (Inr (200, zeros 600))"
  using descfetch_roundtrip [of 200 "zeros 600" "\<lparr>ccl_circuit = \<lparr>cct_circuitId = 1, cct_hops = []\<rparr>, dsf_replies = [], dsf_settled = None\<rparr>"]
  by (auto simp: fresh_fetch_def)

end
