(* ===== verification/V2_Hidden_Client.thy ===== *)
theory V2_Hidden_Client
  imports V2_Client V2_Client_Streams V2_Descriptor V2_Rendezvous
begin

text \<open>
  \<open>v2-runtime/rendezvous\_client.mjs\<close>: the client of a hidden service. \<open>openHiddenService\<close> is cut at its awaits: the two
  circuits that it builds (with retries), the two answers and the message of the service. Cells of its two circuits go
  through the handlers of \<open>V2\_Client\<close>, whose calls of \<open>onData\<close> are the inputs here. What the circuit builder returned, the
  timers, the random draws and the clock are arguments; the caller's path pickers count as a part of the building.
\<close>

section \<open>Building with retries\<close>

definition is_prefix :: "string \<Rightarrow> string \<Rightarrow> bool" where
  "is_prefix p s \<longleftrightarrow> take (length p) s = p"

fun occurs :: "(string \<Rightarrow> bool) \<Rightarrow> string \<Rightarrow> bool" where
  "occurs here [] \<longleftrightarrow> here []"
| "occurs here (c # cs) \<longleftrightarrow> here (c # cs) \<or> occurs here cs"

definition is_digit :: "char \<Rightarrow> bool" where "is_digit c \<longleftrightarrow> 48 \<le> char_code c \<and> char_code c \<le> 57"

text \<open>\<open>hop \d+ (CREATE|EXTEND) timeout\<close> at the head of a string in lower case.\<close>

definition hop_timeout :: "string \<Rightarrow> bool" where
  "hop_timeout s \<longleftrightarrow> is_prefix ''hop '' s \<and>
     (let d = drop 4 s; rest = dropWhile is_digit d
      in d \<noteq> rest \<and> (is_prefix '' create timeout'' rest \<or> is_prefix '' extend timeout'' rest))"

fun err_message :: "js_error \<Rightarrow> string" where
  "err_message (Error m) = m"
| "err_message (TypeError m) = m"
| "err_message (RangeError m) = m"

definition isTransientBuildError :: "js_error \<Rightarrow> bool" where
  "isTransientBuildError err \<longleftrightarrow>
     (let m = toLowerCase (err_message err)
      in m \<noteq> [] \<and> occurs (\<lambda>s. is_prefix ''peer sent destroy'' s \<or> is_prefix ''extended auth did not verify'' s \<or> hop_timeout s) m)"

definition RETRY_LIMIT :: nat where [simp]: "RETRY_LIMIT = 4"

text \<open>After a failed attempt: the number of the next one, or none.\<close>

definition next_attempt :: "nat \<Rightarrow> js_error \<Rightarrow> nat option" where
  "next_attempt attempt err =
     (if \<not> isTransientBuildError err then None
      else if attempt + 1 < RETRY_LIMIT then Some (attempt + 1) else None)"

section \<open>State\<close>

text \<open>A promise together with the variable that holds its \<open>resolve\<close>.\<close>

datatype 'a promise = No_Promise | Unsettled | Settled "'a res"

definition resolve_with :: "'a res \<Rightarrow> 'a promise \<Rightarrow> 'a promise" where
  "resolve_with r p = (case p of Unsettled \<Rightarrow> Settled r | _ \<Rightarrow> p)"

datatype open_phase =
    Build_Rp nat
  | Await_Established
  | Build_Ip nat
  | Await_Ack
  | Await_Rendezvous2
  | Connected
  | Not_Opened js_error

record meeting =
  mtg_ip :: intro_point
  mtg_rp :: rse
  mtg_id :: bytes
  mtg_cookie :: bytes

record hidden_client =
  hcl_phase :: open_phase
  hcl_meeting :: meeting
  hcl_ntorState :: "ntor_state option"
  hcl_rp :: "handler option"
  hcl_ip :: "handler option"
  hcl_established :: "nat option promise"
  hcl_ack :: "nat option promise"
  hcl_rendezvous2 :: "bytes promise"
  hcl_reassembler :: reassembler
  hcl_streams :: "client_streams option"

datatype hidden_effect =
    Rp_Cell bytes
  | Ip_Cell bytes
  | Stream_Call stream_effect

type_synonym 'a hidden_act = "('a, hidden_effect, hidden_client) effectful"

definition findRseByFp :: "rse list \<Rightarrow> bytes \<Rightarrow> rse option" where
  "findRseByFp rses fp = find (\<lambda>r. rse_fingerprint r = fp) rses"

definition service_id :: "bytes option \<Rightarrow> descriptor \<Rightarrow> bytes" where
  "service_id SVC_pk d = (case SVC_pk of Some k \<Rightarrow> k | None \<Rightarrow> (case d of Version_3 d \<Rightarrow> d3_SVC_pk_ed d | Version_2 d \<Rightarrow> d2_SVC_pk d))"

definition intro_points :: "descriptor \<Rightarrow> intro_point list" where
  "intro_points d = (case d of Version_3 d \<Rightarrow> d3_introPoints d | Version_2 d \<Rightarrow> d2_introPoints d)"

definition rp_candidate :: "bytes \<Rightarrow> rse \<Rightarrow> bool" where
  "rp_candidate ipFingerprint r \<longleftrightarrow> rse_fingerprint r \<noteq> ipFingerprint \<and> rse_flags r AND 0x06 = 0x06"

section \<open>Sending\<close>

definition on_rp :: "handler \<Rightarrow> hidden_client \<Rightarrow> hidden_client" where "on_rp h s = s\<lparr>hcl_rp := Some h\<rparr>"
definition on_ip :: "handler \<Rightarrow> hidden_client \<Rightarrow> hidden_client" where "on_ip h s = s\<lparr>hcl_ip := Some h\<rparr>"

definition send_on :: "(bytes \<Rightarrow> hidden_effect) \<Rightarrow> crypto \<Rightarrow> nat \<Rightarrow> bytes \<Rightarrow> handler \<Rightarrow> (unit, hidden_effect, handler) effectful" where
  "send_on cell C relayCommand data h =
     (case sendForward cell C relayCommand 0 data \<lparr>ccl_circuit = hdl_circuit h\<rparr> of
        (r, es, c) \<Rightarrow> (r, es, h\<lparr>hdl_circuit := ccl_circuit c\<rparr>))"

text \<open>Work on a circuit that has been built.\<close>

definition through :: "handler option \<Rightarrow> (handler \<Rightarrow> hidden_client \<Rightarrow> hidden_client) \<Rightarrow>
    (handler \<Rightarrow> ('a, hidden_effect, handler) effectful) \<Rightarrow> hidden_client \<Rightarrow> 'a hidden_act" where
  "through h put f s =
     (case h of
        None \<Rightarrow> throw (TypeError ''Cannot read properties of undefined'') s
      | Some h \<Rightarrow> (case f h of (r, es, h) \<Rightarrow> (r, es, put h s)))"

text \<open>An operation of the streams, which share the circuit to the rendezvous point.\<close>

definition with_streams :: "(client_streams \<Rightarrow> 'a streams_act) \<Rightarrow> hidden_client \<Rightarrow> 'a hidden_act" where
  "with_streams f s =
     (case (hcl_streams s, hcl_rp s) of
        (Some st, Some h) \<Rightarrow>
          (case f (st\<lparr>ccl_circuit := hdl_circuit h\<rparr>) of
             (r, es, st) \<Rightarrow> (r, map Stream_Call es, s\<lparr>hcl_streams := Some st, hcl_rp := Some (h\<lparr>hdl_circuit := ccl_circuit st\<rparr>)\<rparr>))
      | _ \<Rightarrow> throw (TypeError ''Cannot read properties of null'') s)"

section \<open>What arrives on the two circuits\<close>

definition first_byte :: "bytes \<Rightarrow> nat option" where
  "first_byte data = (if length data > 0 then Some (unat (data ! 0)) else None)"

definition handleRpCircuitData :: "int \<Rightarrow> nat \<Rightarrow> nat \<Rightarrow> bytes \<Rightarrow> hidden_client \<Rightarrow> unit hidden_act" where
  "handleRpCircuitData now relayCommand streamId data s =
     (if relayCommand = RELAY_RENDEZVOUS_ESTABLISHED then
        ret () (s\<lparr>hcl_established := resolve_with (Inr (first_byte data)) (hcl_established s)\<rparr>)
      else if relayCommand = RELAY_RENDEZVOUS2 then
        (let (r, reasm) = ingest now data (hcl_reassembler s);
             s = s\<lparr>hcl_reassembler := reasm\<rparr>
         in case r of
              Complete message \<Rightarrow> ret () (s\<lparr>hcl_rendezvous2 := resolve_with (Inr message) (hcl_rendezvous2 s)\<rparr>)
            | _ \<Rightarrow> ret () s)
      else if hcl_streams s = None then ret () s
      else with_streams (handleInboundRelay relayCommand streamId data) s)"

definition handleIpCircuitData :: "nat \<Rightarrow> bytes \<Rightarrow> hidden_client \<Rightarrow> unit hidden_act" where
  "handleIpCircuitData relayCommand data s =
     (if relayCommand = RELAY_INTRODUCE_ACK then ret () (s\<lparr>hcl_ack := resolve_with (Inr (first_byte data)) (hcl_ack s)\<rparr>)
      else ret () s)"

text \<open>A cell of either circuit: the handler's calls of \<open>onData\<close> are answered here; what they throw is caught.\<close>

fun data_calls :: "(nat \<Rightarrow> nat \<Rightarrow> bytes \<Rightarrow> hidden_client \<Rightarrow> unit hidden_act) \<Rightarrow> client_effect list \<Rightarrow> hidden_client \<Rightarrow> unit hidden_act" where
  "data_calls f [] s = ret () s"
| "data_calls f (On_Data_Call i cmd streamId data # es) s = seq (swallow (f cmd streamId data s)) (\<lambda>_. data_calls f es)"
| "data_calls f (Entry_Cell c # es) s = data_calls f es s"
| "data_calls f (On_Destroy_Call # es) s = data_calls f es s"

definition rp_inbound :: "crypto \<Rightarrow> int \<Rightarrow> cell \<Rightarrow> hidden_client \<Rightarrow> unit hidden_act" where
  "rp_inbound C now parsed s =
     (case hcl_rp s of
        None \<Rightarrow> ret () s
      | Some h \<Rightarrow>
          (case handler_onCell C now parsed h of (r, es, h) \<Rightarrow> data_calls (handleRpCircuitData now) es (on_rp h s)))"

definition ip_inbound :: "crypto \<Rightarrow> int \<Rightarrow> cell \<Rightarrow> hidden_client \<Rightarrow> unit hidden_act" where
  "ip_inbound C now parsed s =
     (case hcl_ip s of
        None \<Rightarrow> ret () s
      | Some h \<Rightarrow>
          (case handler_onCell C now parsed h of (r, es, h) \<Rightarrow> data_calls (\<lambda>cmd _. handleIpCircuitData cmd) es (on_ip h s)))"

section \<open>Opening\<close>

text \<open>Up to the first await: the choices and the cookie.\<close>

definition open_start :: "crypto \<Rightarrow> rse list \<Rightarrow> bytes \<Rightarrow> bytes option \<Rightarrow> descriptor \<Rightarrow> hidden_client res" where
  "open_start C rses cookie SVC_pk descriptor =
     (case intro_points descriptor of
        [] \<Rightarrow> Inl (Error ''descriptor has no intro points'')
      | ipRecord # _ \<Rightarrow>
          (case findRseByFp rses (ip_fingerprint ipRecord) of
             None \<Rightarrow> Inl (Error ''IP fingerprint not in consensus'')
           | Some ipRse \<Rightarrow>
               (case find (rp_candidate (ip_fingerprint ipRecord)) rses of
                  None \<Rightarrow> Inl (Error ''no RP candidate in consensus'')
                | Some rpRse \<Rightarrow>
                    Inr \<lparr>hcl_phase = Build_Rp 0,
                      hcl_meeting = \<lparr>mtg_ip = ipRecord, mtg_rp = rpRse, mtg_id = service_id SVC_pk descriptor, mtg_cookie = cookie\<rparr>,
                      hcl_ntorState = None, hcl_rp = None, hcl_ip = None, hcl_established = No_Promise, hcl_ack = No_Promise,
                      hcl_rendezvous2 = No_Promise, hcl_reassembler = defaultReassembler, hcl_streams = None\<rparr>)))"

text \<open>A throw inside the function rejects its promise; the circuits stay as they are.\<close>

definition run_open :: "unit hidden_act \<Rightarrow> unit hidden_act" where
  "run_open a = (case a of (Inl e, es, s) \<Rightarrow> (Inr (), es, s\<lparr>hcl_phase := Not_Opened e\<rparr>) | (Inr u, es, s) \<Rightarrow> (Inr u, es, s))"

text \<open>The circuit to the rendezvous point is there. The executor of the promise installs \<open>resolve\<close> before it sends; what it
  throws rejects the promise.\<close>

definition rp_built :: "crypto \<Rightarrow> handler \<Rightarrow> hidden_client \<Rightarrow> unit hidden_act" where
  "rp_built C h s =
     (let s = s\<lparr>hcl_rp := Some h, hcl_phase := Await_Established, hcl_established := Unsettled\<rparr>
      in case seq (lift (buildEstablishRendezvous (mtg_cookie (hcl_meeting s))) s)
                (\<lambda>data s. through (hcl_rp s) on_rp (send_on Rp_Cell C RELAY_ESTABLISH_RENDEZVOUS data) s) of
           (Inl e, es, s) \<Rightarrow> (Inr (), es, s\<lparr>hcl_established := resolve_with (Inl e) (hcl_established s)\<rparr>)
         | (Inr u, es, s) \<Rightarrow> (Inr u, es, s))"

record intro_draws =
  idr_xSeed :: bytes
  idr_kemSeed :: bytes
  idr_seal :: seal_draws
  idr_handshakeId :: int

definition introduce_payload :: "crypto \<Rightarrow> seal_draws \<Rightarrow> meeting \<Rightarrow> ntor_state \<Rightarrow> bytes res" where
  "introduce_payload C d m ntorState =
     buildIntroducePayload C d (ip_serviceIntroKey (mtg_ip m)) (ip_serviceEncX25519Pk (mtg_ip m)) (ip_serviceEncMlkemPk (mtg_ip m))
       \<lparr>iin_cookie = mtg_cookie m, iin_rpFingerprint = rse_fingerprint (mtg_rp m), iin_rpOnionPk = rse_onionPk (mtg_rp m),
        iin_handshakeMessage = nts_createMsg ntorState\<rparr>"

definition ip_built :: "crypto \<Rightarrow> intro_draws \<Rightarrow> handler \<Rightarrow> hidden_client \<Rightarrow> unit hidden_act" where
  "ip_built C w h s =
     (let ntorState = clientInit C (idr_xSeed w) (idr_kemSeed w);
          s = s\<lparr>hcl_ip := Some h, hcl_ntorState := Some ntorState\<rparr>
      in run_open
        (seq (lift (introduce_payload C (idr_seal w) (hcl_meeting s) ntorState) s) (\<lambda>introducePayload s.
         seq (lift (fragmentMessage introducePayload (idr_handshakeId w) (int RELAY_FRAGMENT_CAPACITY)) s) (\<lambda>fragments s.
         seq (for_each (\<lambda>fragData s. through (hcl_ip s) on_ip (send_on Ip_Cell C RELAY_INTRODUCE1 fragData) s) fragments
                (s\<lparr>hcl_ack := Unsettled\<rparr>)) (\<lambda>_.
           update (\<lambda>s. s\<lparr>hcl_phase := Await_Ack\<rparr>))))))"

text \<open>The end of an attempt to build a circuit.\<close>

definition attempt_done :: "crypto \<Rightarrow> intro_draws \<Rightarrow> handler res \<Rightarrow> hidden_client \<Rightarrow> unit hidden_act" where
  "attempt_done C w r s =
     (case hcl_phase s of
        Build_Rp attempt \<Rightarrow>
          (case r of
             Inr h \<Rightarrow> rp_built C h s
           | Inl e \<Rightarrow> (case next_attempt attempt e of
                           Some n \<Rightarrow> ret () (s\<lparr>hcl_phase := Build_Rp n\<rparr>)
                         | None \<Rightarrow> ret () (s\<lparr>hcl_phase := Not_Opened e\<rparr>)))
      | Build_Ip attempt \<Rightarrow>
          (case r of
             Inr h \<Rightarrow> ip_built C w h s
           | Inl e \<Rightarrow> (case next_attempt attempt e of
                           Some n \<Rightarrow> ret () (s\<lparr>hcl_phase := Build_Ip n\<rparr>)
                         | None \<Rightarrow> ret () (s\<lparr>hcl_phase := Not_Opened e\<rparr>)))
      | _ \<Rightarrow> ret () s)"

text \<open>A status byte that is missing is null, and the text of the error then throws itself.\<close>

definition check_status :: "nat option \<Rightarrow> string \<Rightarrow> js_error option" where
  "check_status status what =
     (case status of
        None \<Rightarrow> Some (TypeError ''Cannot read properties of null'')
      | Some st \<Rightarrow> if st \<noteq> 0x00 then Some (Error what) else None)"

definition finish_rendezvous :: "crypto \<Rightarrow> bytes \<Rightarrow> hidden_client \<Rightarrow> unit hidden_act" where
  "finish_rendezvous C rendezvous2Bytes s =
     (case parseRendezvous2 rendezvous2Bytes of
        None \<Rightarrow> throw (Error ''RENDEZVOUS2 parse failed'') s
      | Some handshakeResponse \<Rightarrow>
          let m = hcl_meeting s
          in (case Option.bind (hcl_ntorState s) (\<lambda>ntorState. clientFinish C ntorState (ip_serviceEncX25519Pk (mtg_ip m)) (mtg_id m) handshakeResponse) of
                None \<Rightarrow> throw (Error ''rendezvous handshake AUTH did not verify'') s
              | Some KEY_SEED \<Rightarrow>
                  seq (lift (deriveHopKeys C KEY_SEED) s) (\<lambda>e2eKeys s.
                  seq (through (hcl_rp s) on_rp (\<lambda>h. case addHop (hdl_circuit h) e2eKeys of
                           Inl e \<Rightarrow> throw e h | Inr c \<Rightarrow> ret () (h\<lparr>hdl_circuit := c\<rparr>)) s) (\<lambda>_ s.
                    (case hcl_rp s of
                       None \<Rightarrow> throw (TypeError ''Cannot read properties of undefined'') s
                     | Some h \<Rightarrow> update (\<lambda>s. s\<lparr>hcl_streams := Some (createClientStreams (hdl_circuit h)), hcl_phase := Connected\<rparr>) s)))))"

text \<open>The continuations of the three awaits on answers.\<close>

definition open_resume :: "crypto \<Rightarrow> hidden_client \<Rightarrow> unit hidden_act" where
  "open_resume C s =
     (case hcl_phase s of
        Await_Established \<Rightarrow>
          (case hcl_established s of
             Settled r \<Rightarrow>
               run_open (seq (lift r s) (\<lambda>status s.
                 (case check_status status ''RENDEZVOUS_ESTABLISHED returned status'' of
                    Some e \<Rightarrow> throw e s
                  | None \<Rightarrow> update (\<lambda>s. s\<lparr>hcl_phase := Build_Ip 0\<rparr>) s)))
           | _ \<Rightarrow> ret () s)
      | Await_Ack \<Rightarrow>
          (case hcl_ack s of
             Settled r \<Rightarrow>
               run_open (seq (lift r s) (\<lambda>status s.
                 (case check_status status ''INTRODUCE_ACK returned status'' of
                    Some e \<Rightarrow> throw e s
                  | None \<Rightarrow> update (\<lambda>s. s\<lparr>hcl_rendezvous2 := Unsettled, hcl_phase := Await_Rendezvous2\<rparr>) s)))
           | _ \<Rightarrow> ret () s)
      | Await_Rendezvous2 \<Rightarrow>
          (case hcl_rendezvous2 s of
             Settled r \<Rightarrow> run_open (seq (lift r s) (finish_rendezvous C))
           | _ \<Rightarrow> ret () s)
      | _ \<Rightarrow> ret () s)"

text \<open>The three timers, which nothing cancels.\<close>

definition established_timer :: "hidden_client \<Rightarrow> hidden_client" where
  "established_timer s = s\<lparr>hcl_established := resolve_with (Inl (Error ''RENDEZVOUS_ESTABLISHED timeout'')) (hcl_established s)\<rparr>"

definition ack_timer :: "hidden_client \<Rightarrow> hidden_client" where
  "ack_timer s = s\<lparr>hcl_ack := resolve_with (Inl (Error ''INTRODUCE_ACK timeout'')) (hcl_ack s)\<rparr>"

definition rendezvous2_timer :: "hidden_client \<Rightarrow> hidden_client" where
  "rendezvous2_timer s = s\<lparr>hcl_rendezvous2 := resolve_with (Inl (Error ''RENDEZVOUS2 timeout'')) (hcl_rendezvous2 s)\<rparr>"

section \<open>The connection\<close>

text \<open>The destination bytes are a placeholder, which the service ignores.\<close>

definition hidden_openStream :: "crypto \<Rightarrow> nat \<Rightarrow> hidden_client \<Rightarrow> nat hidden_act" where
  "hidden_openStream C port = with_streams (openStream C \<lparr>dst_addrType = BEGIN_ADDR_TYPE_IPV4, dst_addr = [127, 0, 0, 1], dst_port = int port, dst_flags = 0\<rparr>)"

definition hidden_close :: "hidden_client \<Rightarrow> unit hidden_act" where
  "hidden_close s = (if hcl_streams s = None then ret () s else swallow (with_streams (streams_closeAll END_REASON_CLIENT_CLOSED) s))"

section \<open>Steps\<close>

datatype hidden_event =
    Attempt intro_draws "handler res"
  | Rp_Inbound int cell
  | Ip_Inbound int cell
  | Established_Timer
  | Ack_Timer
  | Rendezvous2_Timer
  | Resume
  | Open_Stream nat
  | Stream_Op stream_op
  | Close

definition hidden_step :: "crypto \<Rightarrow> hidden_event \<Rightarrow> hidden_client \<Rightarrow> hidden_client" where
  "hidden_step C ev s =
     (case ev of
        Attempt w r \<Rightarrow> snd (snd (attempt_done C w r s))
      | Rp_Inbound now c \<Rightarrow> snd (snd (rp_inbound C now c s))
      | Ip_Inbound now c \<Rightarrow> snd (snd (ip_inbound C now c s))
      | Established_Timer \<Rightarrow> established_timer s
      | Ack_Timer \<Rightarrow> ack_timer s
      | Rendezvous2_Timer \<Rightarrow> rendezvous2_timer s
      | Resume \<Rightarrow> snd (snd (open_resume C s))
      | Open_Stream port \<Rightarrow> snd (snd (hidden_openStream C port s))
      | Stream_Op op \<Rightarrow> snd (snd (with_streams (update (stream_step C op)) s))
      | Close \<Rightarrow> snd (snd (hidden_close s)))"

definition hidden_run :: "crypto \<Rightarrow> hidden_event list \<Rightarrow> hidden_client \<Rightarrow> hidden_client" where
  "hidden_run C evs s = fold (hidden_step C) evs s"

end
