(* ===== verification/V2_Publisher.thy ===== *)
theory V2_Publisher
  imports V2_Hidden_Client
begin

text \<open>
  \<open>v2-runtime/service\_publisher.mjs\<close>: the service's side of a hidden service. It registers at its introduction point, answers
  every introduction with a circuit to the rendezvous point, and joins the streams that arrive there to its local destination.
  The local sockets are objects whose events come in as steps; the calls on them are effects. The builds of circuits that
  are awaited are kept with what is needed to go on.
\<close>

section \<open>State\<close>

record introduction_point =
  inp_fingerprint :: bytes
  inp_serviceIntroSk :: bytes
  inp_serviceIntroPk :: bytes
  inp_serviceEncX25519Sk :: bytes
  inp_serviceEncX25519Pk :: bytes
  inp_serviceEncMlkemSk :: bytes

datatype start_phase = Not_Started | Build_Intro | Await_Intro | Published | Not_Published js_error

text \<open>A rendezvous whose circuit is being built, and one whose circuit was built. Circuits are numbered; the closure of the
  callback of each keeps the cookie in hex.\<close>

record rendezvous_pending =
  rvp_cookie :: bytes
  rvp_createdMsg :: bytes
  rvp_keys :: hop_keys
  rvp_rp :: rse

record rendezvous_circuit =
  rvc_cookieHex :: string
  rvc_handler :: handler

record rendezvous_entry =
  rve_circuit :: nat
  rve_tcpSockets :: "(nat, nat) jsmap"

text \<open>A local socket remembers the circuit, the stream and the entry of its \<open>BEGIN\<close>.\<close>

record local_socket =
  lsk_circuit :: nat
  lsk_streamId :: nat
  lsk_entry :: nat

record publisher =
  pub_phase :: start_phase
  pub_ip :: "handler option"
  pub_established :: "nat option promise"
  pub_introduce2Reassemblers :: "(nat, reassembler) jsmap"
  pub_pending :: "rendezvous_pending list"
  pub_circuits :: "rendezvous_circuit list"
  pub_activeRendezvous :: "(string, nat) jsmap"
  pub_entries :: "rendezvous_entry list"
  pub_sockets :: "local_socket list"

datatype publisher_effect =
    Intro_Cell bytes
  | Rendezvous_Cell nat bytes
  | Build_Circuit_To bytes
  | Local_Connect nat
  | Local_Write nat bytes
  | Local_End nat
  | Local_Destroy nat

type_synonym 'a publisher_act = "('a, publisher_effect, publisher) effectful"

definition createServicePublisher :: publisher where
  "createServicePublisher = \<lparr>pub_phase = Not_Started, pub_ip = None, pub_established = No_Promise, pub_introduce2Reassemblers = [],
     pub_pending = [], pub_circuits = [], pub_activeRendezvous = [], pub_entries = [], pub_sockets = []\<rparr>"

section \<open>Sending\<close>

definition pub_send :: "(bytes \<Rightarrow> publisher_effect) \<Rightarrow> crypto \<Rightarrow> nat \<Rightarrow> nat \<Rightarrow> bytes \<Rightarrow> handler \<Rightarrow> (unit, publisher_effect, handler) effectful" where
  "pub_send cell C relayCommand streamId data h =
     (case sendForward cell C relayCommand streamId data \<lparr>ccl_circuit = hdl_circuit h\<rparr> of
        (r, es, c) \<Rightarrow> (r, es, h\<lparr>hdl_circuit := ccl_circuit c\<rparr>))"

definition send_intro :: "crypto \<Rightarrow> nat \<Rightarrow> bytes \<Rightarrow> publisher \<Rightarrow> unit publisher_act" where
  "send_intro C relayCommand data s =
     (case pub_ip s of
        None \<Rightarrow> throw (TypeError ''Cannot read properties of null'') s
      | Some h \<Rightarrow> (case pub_send Intro_Cell C relayCommand 0 data h of (r, es, h) \<Rightarrow> (r, es, s\<lparr>pub_ip := Some h\<rparr>)))"

definition on_circuit :: "nat \<Rightarrow> (handler \<Rightarrow> handler) \<Rightarrow> publisher \<Rightarrow> publisher" where
  "on_circuit k f s = s\<lparr>pub_circuits := (pub_circuits s)[k := (pub_circuits s ! k)\<lparr>rvc_handler := f (rvc_handler (pub_circuits s ! k))\<rparr>]\<rparr>"

definition send_rendezvous :: "crypto \<Rightarrow> nat \<Rightarrow> nat \<Rightarrow> nat \<Rightarrow> bytes \<Rightarrow> publisher \<Rightarrow> unit publisher_act" where
  "send_rendezvous C k relayCommand streamId data s =
     (case pub_send (Rendezvous_Cell k) C relayCommand streamId data (rvc_handler (pub_circuits s ! k)) of
        (r, es, h) \<Rightarrow> (r, es, on_circuit k (\<lambda>_. h) s))"

section \<open>Introductions\<close>

definition swap_keys :: "hop_keys \<Rightarrow> hop_keys" where
  "swap_keys k = \<lparr>hop_Kf = hop_Kb k, hop_Kb = hop_Kf k, hop_Kdf = hop_Kdb k, hop_Kdb = hop_Kdf k\<rparr>"

record answer_draws =
  adr_encSeed :: bytes
  adr_ySeed :: bytes

text \<open>\<open>beginRendezvous\<close> up to its await: the answer to the handshake and the keys of the virtual hop, swapped. What it throws is
  logged.\<close>

definition begin_rendezvous :: "crypto \<Rightarrow> rse list \<Rightarrow> bytes \<Rightarrow> introduction_point \<Rightarrow> answer_draws \<Rightarrow> introduce_inner \<Rightarrow> rendezvous_pending res" where
  "begin_rendezvous C rses SVC_pk p w inner =
     (case relayResponse C (adr_encSeed w) (adr_ySeed w) (iin_handshakeMessage inner) (inp_serviceEncX25519Sk p) (inp_serviceEncX25519Pk p) SVC_pk of
        None \<Rightarrow> Inl (Error ''relayResponse failed'')
      | Some response \<Rightarrow>
          (case deriveHopKeys C (ntr_KEY_SEED response) of
             Inl e \<Rightarrow> Inl e
           | Inr e2eKeys \<Rightarrow>
               (case findRseByFp rses (iin_rpFingerprint inner) of
                  None \<Rightarrow> Inl (Error ''RP fingerprint not in consensus'')
                | Some rpRse \<Rightarrow> Inr \<lparr>rvp_cookie = iin_cookie inner, rvp_createdMsg = ntr_createdMsg response,
                    rvp_keys = swap_keys e2eKeys, rvp_rp = rpRse\<rparr>)))"

text \<open>A complete message: the envelope must name the own key and open under the own keys.\<close>

definition open_introduction :: "crypto \<Rightarrow> introduction_point \<Rightarrow> bytes \<Rightarrow> introduce_inner option" where
  "open_introduction C p message =
     (case parseIntroduceEnvelope message of
        None \<Rightarrow> None
      | Some (serviceIntroPk, sealedEnvelope) \<Rightarrow>
          if serviceIntroPk \<noteq> inp_serviceIntroPk p then None
          else unsealIntroduceInner C sealedEnvelope (inp_serviceEncX25519Sk p) (inp_serviceEncMlkemSk p))"

definition handleIntroduce2 ::
  "crypto \<Rightarrow> rse list \<Rightarrow> bytes \<Rightarrow> introduction_point \<Rightarrow> answer_draws \<Rightarrow> int \<Rightarrow> nat \<Rightarrow> bytes \<Rightarrow> publisher \<Rightarrow> unit publisher_act" where
  "handleIntroduce2 C rses SVC_pk p w now streamId data s =
     (let reasm = (case map_get (pub_introduce2Reassemblers s) streamId of None \<Rightarrow> defaultReassembler | Some r \<Rightarrow> r);
          (r, reasm) = ingest now data reasm;
          s = s\<lparr>pub_introduce2Reassemblers := map_set streamId reasm (pub_introduce2Reassemblers s)\<rparr>;
          dropped = s\<lparr>pub_introduce2Reassemblers := map_delete streamId (pub_introduce2Reassemblers s)\<rparr>
      in case r of
           Failed \<Rightarrow> ret () dropped
         | Waiting \<Rightarrow> ret () s
         | Complete message \<Rightarrow>
             (case open_introduction C p message of
                None \<Rightarrow> ret () dropped
              | Some inner \<Rightarrow>
                  (case begin_rendezvous C rses SVC_pk p w inner of
                     Inl e \<Rightarrow> ret () dropped
                   | Inr pending \<Rightarrow> emit (Build_Circuit_To (rse_fingerprint (rvp_rp pending)))
                       (dropped\<lparr>pub_pending := pub_pending dropped @ [pending]\<rparr>))))"

definition pub_handleIpCircuitData ::
  "crypto \<Rightarrow> rse list \<Rightarrow> bytes \<Rightarrow> introduction_point \<Rightarrow> answer_draws \<Rightarrow> int \<Rightarrow> nat \<Rightarrow> nat \<Rightarrow> bytes \<Rightarrow> publisher \<Rightarrow> unit publisher_act" where
  "pub_handleIpCircuitData C rses SVC_pk p w now relayCommand streamId data s =
     (if relayCommand = RELAY_INTRO_ESTABLISHED then
        ret () (s\<lparr>pub_established := resolve_with (Inr (first_byte data)) (pub_established s)\<rparr>)
      else if relayCommand = RELAY_INTRODUCE2 then handleIntroduce2 C rses SVC_pk p w now streamId data s
      else ret () s)"

text \<open>The rest of \<open>beginRendezvous\<close>, once the circuit of a pending rendezvous is built: the handshake's answer goes to the
  rendezvous point, then the virtual hop is added. An error is logged, and what was sent stays sent.\<close>

definition rendezvous_circuit_built :: "crypto \<Rightarrow> int \<Rightarrow> nat \<Rightarrow> handler \<Rightarrow> publisher \<Rightarrow> unit publisher_act" where
  "rendezvous_circuit_built C handshakeId i h s =
     (let m = pub_pending s ! i;
          cookieHex = toHex (rvp_cookie m);
          k = length (pub_circuits s);
          s = s\<lparr>pub_pending := take i (pub_pending s) @ drop (Suc i) (pub_pending s),
            pub_circuits := pub_circuits s @ [\<lparr>rvc_cookieHex = cookieHex, rvc_handler = h\<rparr>]\<rparr>
      in swallow
        (seq (lift (buildRendezvous1 (rvp_cookie m) (rvp_createdMsg m)) s) (\<lambda>rendezvous1Payload s.
         seq (lift (fragmentMessage rendezvous1Payload handshakeId (int RELAY_FRAGMENT_CAPACITY)) s) (\<lambda>fragments s.
         seq (for_each (send_rendezvous C k RELAY_RENDEZVOUS1 0) fragments s) (\<lambda>_ s.
         seq (lift (addHop (hdl_circuit (rvc_handler (pub_circuits s ! k))) (rvp_keys m)) s) (\<lambda>circuit.
           update (\<lambda>s. (on_circuit k (\<lambda>h. h\<lparr>hdl_circuit := circuit\<rparr>) s)
             \<lparr>pub_activeRendezvous := map_set cookieHex (length (pub_entries s)) (pub_activeRendezvous s),
              pub_entries := pub_entries s @ [\<lparr>rve_circuit = k, rve_tcpSockets = []\<rparr>]\<rparr>)))))))"

definition rendezvous_build_done :: "crypto \<Rightarrow> int \<Rightarrow> nat \<Rightarrow> handler res \<Rightarrow> publisher \<Rightarrow> unit publisher_act" where
  "rendezvous_build_done C handshakeId i r s =
     (if i \<ge> length (pub_pending s) then ret () s
      else
        (case r of
           Inl e \<Rightarrow> ret () (s\<lparr>pub_pending := take i (pub_pending s) @ drop (Suc i) (pub_pending s)\<rparr>)
         | Inr h \<Rightarrow> rendezvous_circuit_built C handshakeId i h s))"

section \<open>Streams\<close>

definition on_entry :: "nat \<Rightarrow> (rendezvous_entry \<Rightarrow> rendezvous_entry) \<Rightarrow> publisher \<Rightarrow> publisher" where
  "on_entry e f s = s\<lparr>pub_entries := (pub_entries s)[e := f (pub_entries s ! e)]\<rparr>"

definition drop_local :: "nat \<Rightarrow> nat \<Rightarrow> publisher \<Rightarrow> publisher" where
  "drop_local e streamId = on_entry e (\<lambda>x. x\<lparr>rve_tcpSockets := map_delete streamId (rve_tcpSockets x)\<rparr>)"

definition handleRendezvousCircuitData :: "string \<Rightarrow> nat \<Rightarrow> nat \<Rightarrow> bytes \<Rightarrow> publisher \<Rightarrow> unit publisher_act" where
  "handleRendezvousCircuitData cookieHex relayCommand streamId data s =
     (case map_get (pub_activeRendezvous s) cookieHex of
        None \<Rightarrow> ret () s
      | Some e \<Rightarrow>
          let entry = pub_entries s ! e
          in if relayCommand = RELAY_BEGIN then
               (let sock = length (pub_sockets s)
                in emit (Local_Connect sock)
                  (on_entry e (\<lambda>x. x\<lparr>rve_tcpSockets := map_set streamId sock (rve_tcpSockets x)\<rparr>)
                    (s\<lparr>pub_sockets := pub_sockets s @ [\<lparr>lsk_circuit = rve_circuit entry, lsk_streamId = streamId, lsk_entry = e\<rparr>]\<rparr>)))
             else if relayCommand = RELAY_DATA then
               (case map_get (rve_tcpSockets entry) streamId of None \<Rightarrow> ret () s | Some sock \<Rightarrow> emit (Local_Write sock data) s)
             else if relayCommand = RELAY_END then
               (case map_get (rve_tcpSockets entry) streamId of
                  None \<Rightarrow> ret () s
                | Some sock \<Rightarrow> emit (Local_End sock) (drop_local e streamId s))
             else ret () s)"

text \<open>The handlers of a local socket.\<close>

datatype local_event = Local_Connected | Local_Data bytes | Local_Ended | Local_Error

definition on_local :: "crypto \<Rightarrow> nat \<Rightarrow> local_event \<Rightarrow> publisher \<Rightarrow> unit publisher_act" where
  "on_local C sock ev s =
     (let x = pub_sockets s ! sock;
          sendBack = (\<lambda>cmd. send_rendezvous C (lsk_circuit x) cmd (lsk_streamId x))
      in case ev of
           Local_Connected \<Rightarrow>
             sendBack RELAY_CONNECTED (buildConnectedPayload CONNECTED_STATUS_OK) s
         | Local_Data chunk \<Rightarrow> send_chunks (sendBack RELAY_DATA) chunk 0 s
         | Local_Ended \<Rightarrow> seq (sendBack RELAY_END (buildEndPayload END_REASON_REMOTE_CLOSED) s)
             (\<lambda>_. update (drop_local (lsk_entry x) (lsk_streamId x)))
         | Local_Error \<Rightarrow> seq (sendBack RELAY_END (buildEndPayload END_REASON_REFUSED) s)
             (\<lambda>_. update (drop_local (lsk_entry x) (lsk_streamId x))))"

section \<open>Starting and stopping\<close>

text \<open>The circuit to the introduction point is there; its failure rejects \<open>start\<close>.\<close>

definition intro_built :: "crypto \<Rightarrow> introduction_point \<Rightarrow> int \<Rightarrow> handler res \<Rightarrow> publisher \<Rightarrow> unit publisher_act" where
  "intro_built C p now r s =
     (if pub_phase s \<noteq> Build_Intro then ret () s
      else
        (case r of
           Inl e \<Rightarrow> ret () (s\<lparr>pub_phase := Not_Published e\<rparr>)
         | Inr h \<Rightarrow>
             (case seq (lift (buildEstablishIntro C (inp_serviceIntroPk p) (inp_serviceIntroSk p) (inp_fingerprint p) now)
                      (s\<lparr>pub_ip := Some h\<rparr>))
                    (\<lambda>payload s. send_intro C RELAY_ESTABLISH_INTRO payload (s\<lparr>pub_established := Unsettled\<rparr>)) of
                (Inl e, es, s) \<Rightarrow> (Inr (), es, s\<lparr>pub_phase := Not_Published e\<rparr>)
              | (Inr u, es, s) \<Rightarrow> (Inr u, es, s\<lparr>pub_phase := Await_Intro\<rparr>))))"

definition start_resume :: "publisher \<Rightarrow> publisher" where
  "start_resume s =
     (case (pub_phase s, pub_established s) of
        (Await_Intro, Settled (Inl e)) \<Rightarrow> s\<lparr>pub_phase := Not_Published e\<rparr>
      | (Await_Intro, Settled (Inr status)) \<Rightarrow>
          (case check_status status ''ESTABLISH_INTRO rejected'' of
             Some e \<Rightarrow> s\<lparr>pub_phase := Not_Published e\<rparr>
           | None \<Rightarrow> s\<lparr>pub_phase := Published\<rparr>)
      | _ \<Rightarrow> s)"

definition intro_timer :: "publisher \<Rightarrow> publisher" where
  "intro_timer s = s\<lparr>pub_established := resolve_with (Inl (Error ''INTRO_ESTABLISHED timeout'')) (pub_established s)\<rparr>"

definition publisher_stop :: "publisher \<Rightarrow> unit publisher_act" where
  "publisher_stop s =
     seq (for_each (\<lambda>e. for_each (\<lambda>sock. emit (Local_Destroy sock)) (map snd (rve_tcpSockets (pub_entries s ! e))))
            (map snd (pub_activeRendezvous s)) s)
       (\<lambda>_. update (\<lambda>s. s\<lparr>pub_activeRendezvous := [], pub_introduce2Reassemblers := []\<rparr>))"

section \<open>Steps\<close>

text \<open>The calls of \<open>onData\<close> by the handler of a circuit; what they throw is caught.\<close>

fun pub_data_calls :: "(nat \<Rightarrow> nat \<Rightarrow> bytes \<Rightarrow> publisher \<Rightarrow> unit publisher_act) \<Rightarrow> client_effect list \<Rightarrow> publisher \<Rightarrow> unit publisher_act" where
  "pub_data_calls f [] s = ret () s"
| "pub_data_calls f (On_Data_Call i cmd streamId data # es) s = seq (swallow (f cmd streamId data s)) (\<lambda>_. pub_data_calls f es)"
| "pub_data_calls f (Entry_Cell c # es) s = pub_data_calls f es s"
| "pub_data_calls f (On_Destroy_Call # es) s = pub_data_calls f es s"

definition pub_intro_inbound ::
  "crypto \<Rightarrow> rse list \<Rightarrow> bytes \<Rightarrow> introduction_point \<Rightarrow> answer_draws \<Rightarrow> int \<Rightarrow> cell \<Rightarrow> publisher \<Rightarrow> unit publisher_act" where
  "pub_intro_inbound C rses SVC_pk p w now parsed s =
     (case pub_ip s of
        None \<Rightarrow> ret () s
      | Some h \<Rightarrow>
          (case handler_onCell C now parsed h of
             (r, es, h) \<Rightarrow> pub_data_calls (pub_handleIpCircuitData C rses SVC_pk p w now) es (s\<lparr>pub_ip := Some h\<rparr>)))"

definition pub_rendezvous_inbound :: "crypto \<Rightarrow> int \<Rightarrow> nat \<Rightarrow> cell \<Rightarrow> publisher \<Rightarrow> unit publisher_act" where
  "pub_rendezvous_inbound C now k parsed s =
     (if k \<ge> length (pub_circuits s) then ret () s
      else
        (case handler_onCell C now parsed (rvc_handler (pub_circuits s ! k)) of
           (r, es, h) \<Rightarrow> pub_data_calls (handleRendezvousCircuitData (rvc_cookieHex (pub_circuits s ! k))) es (on_circuit k (\<lambda>_. h) s)))"

datatype publisher_event =
    Start
  | Intro_Built int "handler res"
  | Intro_Inbound answer_draws int cell
  | Intro_Timer
  | Start_Resume
  | Rendezvous_Built int nat "handler res"
  | Rendezvous_Inbound int nat cell
  | Local_Event nat local_event
  | Stop

definition publisher_step :: "crypto \<Rightarrow> rse list \<Rightarrow> bytes \<Rightarrow> introduction_point \<Rightarrow> publisher_event \<Rightarrow> publisher \<Rightarrow> unit publisher_act" where
  "publisher_step C rses SVC_pk p ev s =
     (case ev of
        Start \<Rightarrow> (if pub_phase s = Not_Started then emit (Build_Circuit_To (inp_fingerprint p)) (s\<lparr>pub_phase := Build_Intro\<rparr>) else ret () s)
      | Intro_Built now r \<Rightarrow> intro_built C p now r s
      | Intro_Inbound w now c \<Rightarrow> pub_intro_inbound C rses SVC_pk p w now c s
      | Intro_Timer \<Rightarrow> ret () (intro_timer s)
      | Start_Resume \<Rightarrow> ret () (start_resume s)
      | Rendezvous_Built handshakeId i r \<Rightarrow> rendezvous_build_done C handshakeId i r s
      | Rendezvous_Inbound now k c \<Rightarrow> pub_rendezvous_inbound C now k c s
      | Local_Event sock e \<Rightarrow> (if sock < length (pub_sockets s) then on_local C sock e s else ret () s)
      | Stop \<Rightarrow> publisher_stop s)"

fun publisher_run :: "crypto \<Rightarrow> rse list \<Rightarrow> bytes \<Rightarrow> introduction_point \<Rightarrow> publisher_event list \<Rightarrow> publisher \<Rightarrow> publisher_effect list \<times> publisher" where
  "publisher_run C rses SVC_pk p [] s = ([], s)"
| "publisher_run C rses SVC_pk p (ev # evs) s =
     (case publisher_step C rses SVC_pk p ev s of
        (r, es, s) \<Rightarrow> (case publisher_run C rses SVC_pk p evs s of (fs, s) \<Rightarrow> (es @ fs, s)))"

end
