(* ===== verification/V2_Hidden_Props.thy ===== *)
theory V2_Hidden_Props
  imports V2_Publisher V2_Client_Props V2_Rendezvous_Props V2_Client_Streams_Props V2_Streams_Props
begin

text \<open>
  Hidden services end to end: the client and the service meet with mirrored keys; a cell of one reaches the other through
  the spliced circuits; what the client has checked before it opens a stream; that opening comes to an end; and what the
  service answers.
\<close>

section \<open>Client and service meet\<close>

text \<open>The two virtual hops of a rendezvous: what one encrypts with the other decrypts with, in both directions, with equal counters and
  digests.\<close>

definition mirror :: "client_hop \<Rightarrow> client_hop \<Rightarrow> bool" where
  "mirror a b \<longleftrightarrow> chp_Kf a = chp_Kb b \<and> chp_Kb a = chp_Kf b \<and> length (chp_Kf a) = 32 \<and> length (chp_Kb a) = 32
     \<and> chp_forwardCounter a = chp_backwardCounter b \<and> chp_backwardCounter a = chp_forwardCounter b
     \<and> chp_forwardDigest a = chp_backwardDigest b \<and> chp_backwardDigest a = chp_forwardDigest b"

lemma mirror_sym: "mirror a b \<Longrightarrow> mirror b a" by (auto simp: mirror_def)

lemma new_hop_ok:
  assumes "length (hop_Kdf k) = 32" "length (hop_Kdb k) = 32"
  shows "\<exists>hop. new_client_hop k = Inr hop \<and> hop_keys_of hop = k \<and> chp_forwardCounter hop = 0 \<and> chp_backwardCounter hop = 0
    \<and> createDigestState (hop_Kdf k) = Inr (chp_forwardDigest hop) \<and> createDigestState (hop_Kdb k) = Inr (chp_backwardDigest hop)"
  using assms by (auto simp: new_client_hop_def createDigestState_def hop_keys_of_def)

lemma swapped_hop_mirrors:
  assumes "length (hop_Kf k) = 32" "length (hop_Kb k) = 32" "length (hop_Kdf k) = 32" "length (hop_Kdb k) = 32"
  shows "\<exists>a b. new_client_hop k = Inr a \<and> new_client_hop (swap_keys k) = Inr b \<and> mirror a b"
  using assms by (simp add: new_client_hop_def createDigestState_def swap_keys_def mirror_def)

text \<open>The service behind an introduction point: its keys match the record of the point in the descriptor.\<close>

definition serves :: "crypto \<Rightarrow> introduction_point \<Rightarrow> intro_point \<Rightarrow> bool" where
  "serves C p ip \<longleftrightarrow> ip_serviceIntroKey ip = inp_serviceIntroPk p \<and> ip_serviceEncX25519Pk ip = inp_serviceEncX25519Pk p
     \<and> inp_serviceEncX25519Pk p = x_public C (inp_serviceEncX25519Sk p) \<and> length (inp_serviceEncX25519Sk p) = 32
     \<and> (\<exists>seed. ip_serviceEncMlkemPk ip = fst (kem_keygen C seed) \<and> inp_serviceEncMlkemSk p = snd (kem_keygen C seed))"

lemma introduction_read:
  assumes "hash_ok C" "aead_correct C" "dh_correct C" "kem_correct C" "length (sld_ephemeral d) = 32" "serves C p (mtg_ip m)"
    and "introduce_payload C d m st = Inr payload"
  shows "open_introduction C p payload = Some \<lparr>iin_cookie = mtg_cookie m, iin_rpFingerprint = rse_fingerprint (mtg_rp m),
    iin_rpOnionPk = rse_onionPk (mtg_rp m), iin_handshakeMessage = nts_createMsg st\<rparr>"
proof -
  obtain seed where s: "ip_serviceEncMlkemPk (mtg_ip m) = fst (kem_keygen C seed)" "inp_serviceEncMlkemSk p = snd (kem_keygen C seed)"
    and k: "ip_serviceIntroKey (mtg_ip m) = inp_serviceIntroPk p" "ip_serviceEncX25519Pk (mtg_ip m) = x_public C (inp_serviceEncX25519Sk p)"
      "length (inp_serviceEncX25519Sk p) = 32"
    using assms(6) by (auto simp: serves_def)
  from introduction_opens [OF assms(1-5) k(3) assms(7) [unfolded introduce_payload_def k s]] show ?thesis
    using s(2) k(1) by (auto simp: open_introduction_def)
qed

lemma answer_accepted:
  assumes "hash_ok C" "dh_correct C" "kem_correct C" "length xs = 32" "length (adr_ySeed w) = 32" "serves C p ip"
    and "begin_rendezvous C rses SVC_pk p w inner = Inr m" "iin_handshakeMessage inner = nts_createMsg (clientInit C xs ks)"
  shows "\<exists>seed k. clientFinish C (clientInit C xs ks) (ip_serviceEncX25519Pk ip) SVC_pk (rvp_createdMsg m) = Some seed
    \<and> deriveHopKeys C seed = Inr k \<and> rvp_keys m = swap_keys k \<and> rvp_cookie m = iin_cookie inner
    \<and> length (rvp_createdMsg m) = 1152
    \<and> length (hop_Kf k) = 32 \<and> length (hop_Kb k) = 32 \<and> length (hop_Kdf k) = 32 \<and> length (hop_Kdb k) = 32"
proof -
  have pk: "ip_serviceEncX25519Pk ip = x_public C (inp_serviceEncX25519Sk p)" "inp_serviceEncX25519Pk p = x_public C (inp_serviceEncX25519Sk p)"
    "length (inp_serviceEncX25519Sk p) = 32" using assms(6) by (auto simp: serves_def)
  obtain res k where r: "relayResponse C (adr_encSeed w) (adr_ySeed w) (nts_createMsg (clientInit C xs ks)) (inp_serviceEncX25519Sk p)
      (x_public C (inp_serviceEncX25519Sk p)) SVC_pk = Some res" "deriveHopKeys C (ntr_KEY_SEED res) = Inr k"
    "m = \<lparr>rvp_cookie = iin_cookie inner, rvp_createdMsg = ntr_createdMsg res, rvp_keys = swap_keys k, rvp_rp = rvp_rp m\<rparr>"
    using assms(7) unfolding begin_rendezvous_def assms(8) pk(2) by (auto split: option.splits sum.splits)
  have f: "clientFinish C (clientInit C xs ks) (ip_serviceEncX25519Pk ip) SVC_pk (ntr_createdMsg res) = Some (ntr_KEY_SEED res)"
    unfolding pk(1) by (rule ntor_agree [OF assms(1-5) pk(3) r(1)])
  have "length (ntr_createdMsg res) = 1152" using f by (elim clientFinish_Some)
  moreover have "length (hop_Kf k) = 32 \<and> length (hop_Kb k) = 32 \<and> length (hop_Kdf k) = 32 \<and> length (hop_Kdb k) = 32"
    using r(2) assms(1) by (auto simp: deriveHopKeys_def Let_def split: if_splits)
  ultimately show ?thesis using f r by (metis rendezvous_pending.select_convs(1-3))
qed

text \<open>The last step of the client, on a message that verifies.\<close>

lemma finish_connects:
  assumes "hcl_ntorState s = Some st" "hcl_rp s = Some h" "length msg = 1152"
    and "clientFinish C st (ip_serviceEncX25519Pk (mtg_ip (hcl_meeting s))) (mtg_id (hcl_meeting s)) msg = Some seed"
    and "deriveHopKeys C seed = Inr k" "new_client_hop k = Inr a"
  shows "\<exists>c. c = (hdl_circuit h)\<lparr>cct_hops := cct_hops (hdl_circuit h) @ [a]\<rparr>
    \<and> finish_rendezvous C msg s = (Inr (), [], s\<lparr>hcl_rp := Some (h\<lparr>hdl_circuit := c\<rparr>), hcl_streams := Some (createClientStreams c),
        hcl_phase := Connected\<rparr>)"
  using assms by (simp add: finish_rendezvous_def parseRendezvous2_def lift_def seq_def through_def addHop_def ret_def on_rp_def update_def)

text \<open>C23. Client and service meet. The introduction that the client seals is opened by the service behind the introduction point to
  the client's cookie, rendezvous point and handshake; when the service answers it, the answer passes the rendezvous point
  unchanged under the same cookie, connects the client, and the two virtual hops that the ends add to their circuits mirror
  each other.\<close>

theorem hidden_service_meets:
  assumes "hash_ok C" "aead_correct C" "dh_correct C" "kem_correct C"
    and "length (sld_ephemeral d) = 32" "length xs = 32" "length (adr_ySeed w) = 32"
    and "serves C p (mtg_ip (hcl_meeting s))" "mtg_id (hcl_meeting s) = SVC_pk"
    and "hcl_ntorState s = Some (clientInit C xs ks)" "hcl_rp s = Some h"
    and "introduce_payload C d (hcl_meeting s) (clientInit C xs ks) = Inr payload"
  shows "\<exists>inner. open_introduction C p payload = Some inner \<and> iin_cookie inner = mtg_cookie (hcl_meeting s)
    \<and> iin_rpFingerprint inner = rse_fingerprint (mtg_rp (hcl_meeting s))
    \<and> (\<forall>m. begin_rendezvous C rses SVC_pk p w inner = Inr m \<longrightarrow>
        (\<exists>msg1 msg2 a b s'. buildRendezvous1 (rvp_cookie m) (rvp_createdMsg m) = Inr msg1
          \<and> parseRendezvous1 msg1 = Some (mtg_cookie (hcl_meeting s), rvp_createdMsg m) \<and> buildRendezvous2 (rvp_createdMsg m) = Inr msg2
          \<and> finish_rendezvous C msg2 s = (Inr (), [], s') \<and> hcl_phase s' = Connected
          \<and> hcl_rp s' = Some (h\<lparr>hdl_circuit := (hdl_circuit h)\<lparr>cct_hops := cct_hops (hdl_circuit h) @ [a]\<rparr>\<rparr>)
          \<and> new_client_hop (rvp_keys m) = Inr b \<and> mirror a b))"
proof -
  let ?m = "hcl_meeting s"
  let ?inner = "\<lparr>iin_cookie = mtg_cookie ?m, iin_rpFingerprint = rse_fingerprint (mtg_rp ?m), iin_rpOnionPk = rse_onionPk (mtg_rp ?m),
    iin_handshakeMessage = nts_createMsg (clientInit C xs ks)\<rparr>"
  have o: "open_introduction C p payload = Some ?inner" by (rule introduction_read [OF assms(1-5,8,12)])
  have cookie: "length (mtg_cookie ?m) = 20"
    using assms(12) by (auto simp: introduce_payload_def buildIntroducePayload_def buildIntroduceInner_def split: if_splits sum.splits)
  have "\<exists>msg1 msg2 a b s'. buildRendezvous1 (rvp_cookie m) (rvp_createdMsg m) = Inr msg1
      \<and> parseRendezvous1 msg1 = Some (mtg_cookie ?m, rvp_createdMsg m) \<and> buildRendezvous2 (rvp_createdMsg m) = Inr msg2
      \<and> finish_rendezvous C msg2 s = (Inr (), [], s') \<and> hcl_phase s' = Connected
      \<and> hcl_rp s' = Some (h\<lparr>hdl_circuit := (hdl_circuit h)\<lparr>cct_hops := cct_hops (hdl_circuit h) @ [a]\<rparr>\<rparr>)
      \<and> new_client_hop (rvp_keys m) = Inr b \<and> mirror a b" if m: "begin_rendezvous C rses SVC_pk p w ?inner = Inr m" for m
  proof -
    obtain seed k where f: "clientFinish C (clientInit C xs ks) (ip_serviceEncX25519Pk (mtg_ip ?m)) SVC_pk (rvp_createdMsg m) = Some seed"
      "deriveHopKeys C seed = Inr k" "rvp_keys m = swap_keys k" "rvp_cookie m = mtg_cookie ?m" "length (rvp_createdMsg m) = 1152"
      "length (hop_Kf k) = 32" "length (hop_Kb k) = 32" "length (hop_Kdf k) = 32" "length (hop_Kdb k) = 32"
      using answer_accepted [OF assms(1,3,4,6,7,8) m, where ks = ks] by auto
    obtain a b where ab: "new_client_hop k = Inr a" "new_client_hop (swap_keys k) = Inr b" "mirror a b"
      using swapped_hop_mirrors [OF f(6-9)] by blast
    show ?thesis
      using finish_connects [OF assms(10,11) f(5) _ f(2) ab(1)] f ab cookie assms(9)
      by (simp add: buildRendezvous1_def parseRendezvous1_def buildRendezvous2_def layout) blast
  qed
  then show ?thesis using o by (intro exI [of _ ?inner]) simp
qed

section \<open>A cell through the spliced circuits\<close>

lemma sendForward_spec:
  assumes "hash_ok C" "\<forall>h\<in>set (hops @ [a]). length (chp_Kf h) = 32" "0 \<le> cct_circuitId c" "cct_circuitId c \<le> 0xFFFFFFFF"
    and "length data \<le> 499" "sid < 65536" "cct_hops c = hops @ [a]"
  shows "\<exists>p dg. buildRelayPayload C cmd (int sid) data (chp_forwardDigest a) = Inr (p, dg) \<and> length p = 508
    \<and> sendForward cell C cmd sid data \<lparr>ccl_circuit = c\<rparr>
      = (Inr (), [cell (cell_bytes 2 (nat (cct_circuitId c)) 3 (foldr (layers C) (fwd_keys (hops @ [a])) p))],
         \<lparr>ccl_circuit = c\<lparr>cct_hops := map bump_fwd (hops @ [a\<lparr>chp_forwardDigest := dg\<rparr>])\<rparr>\<rparr>)"
proof -
  obtain p dg where p: "buildRelayPayload C cmd (int sid) data (chp_forwardDigest a) = Inr (p, dg)" and lp: "length p = 508"
    using buildRelayPayload_layout [OF assms(5), of "int sid" C cmd] assms(1,5,6) by (auto simp: length_relay_bytes hash_ok_def)
  let ?hs = "hops @ [a\<lparr>chp_forwardDigest := dg\<rparr>]"
  have k: "fwd_keys ?hs = fwd_keys (hops @ [a])" by (simp add: fwd_keys_def)
  have len: "\<forall>h\<in>set ?hs. length (chp_Kf h) = 32" using assms(2) by auto
  have u: "update_last (\<lambda>h. h\<lparr>chp_forwardDigest := dg\<rparr>) (cct_hops c) = ?hs" by (simp add: assms(7) update_last_def)
  have q: "encryptOutbound C (c\<lparr>cct_hops := ?hs\<rparr>) p = Inr (foldr (layers C) (fwd_keys (hops @ [a])) p, c\<lparr>cct_hops := map bump_fwd ?hs\<rparr>)"
    unfolding k [symmetric] using lp encrypt_hops_layers [OF len, of C p] by (simp add: encryptOutbound_def del: map_append)
  have "buildCell WIRE_VERSION_V2 (cct_circuitId c) CMD_RELAY (foldr (layers C) (fwd_keys (hops @ [a])) p)
      = Inr (cell_bytes 2 (nat (cct_circuitId c)) 3 (foldr (layers C) (fwd_keys (hops @ [a])) p))"
    using buildCell_layout [OF assms(3,4), of "foldr (layers C) (fwd_keys (hops @ [a])) p" 2 3] lp length_layers by simp
  then show ?thesis
    using p lp q u by (simp add: sendForward_def Let_def emit_def assms(7) del: map_append)
qed

lemma dispatch_last:
  assumes "\<forall>h\<in>set hops. fst (tryConsumeRelayPayload C p (chp_backwardDigest h)) = Mismatch"
    and "tryConsumeRelayPayload C p (chp_backwardDigest b) = (Match q, d)" "rly_relayCommand q \<noteq> RELAY_EXTENDED"
  shows "dispatch_loop C now p i (hops @ [b]) = (Inbound_Data (i + length hops) (rly_relayCommand q) (rly_streamId q) (rly_data q),
    hops @ [b\<lparr>chp_backwardDigest := d\<rparr>])"
  using assms(1)
proof (induction hops arbitrary: i)
  case Nil
  then show ?case using assms(2,3) by simp
next
  case (Cons h hops)
  obtain r dg where c: "tryConsumeRelayPayload C p (chp_backwardDigest h) = (r, dg)" by fastforce
  then have "r = Mismatch" using Cons.prems by auto
  then have "dg = chp_backwardDigest h" using c by (auto simp: tryConsumeRelayPayload_def Let_def split: if_splits option.splits)
  then show ?case using Cons c \<open>r = Mismatch\<close> by simp
qed

lemma mirror_moves:
  "mirror a b \<Longrightarrow> mirror (bump_fwd (a\<lparr>chp_forwardDigest := d\<rparr>)) ((bump_bwd b)\<lparr>chp_backwardDigest := d\<rparr>)"
  by (auto simp: mirror_def bump_fwd_def bump_bwd_def)

text \<open>A cell that the far hop has built for the client's handler.\<close>

lemma handler_delivers:
  assumes "hash_ok C" "cct_hops (hdl_circuit h) = hs @ [b]" "\<forall>h\<in>set (hs @ [b]). length (chp_Kb h) = 32"
    and p: "buildRelayPayload C cmd (int sid) data (chp_backwardDigest b) = Inr (p, d)" "length p = 508"
    and "\<forall>x\<in>set hs. fst (tryConsumeRelayPayload C p (chp_backwardDigest x)) = Mismatch" "cmd < 256" "cmd \<noteq> RELAY_EXTENDED" "hdl_state h \<noteq> St_Closed"
  shows "handler_onCell C now \<lparr>cel_version = v, cel_circuitId = cid, cel_command = CMD_RELAY, cel_payload = foldr (layers C) (bwd_keys (hs @ [b])) p\<rparr> h
    = (Inr (), [On_Data_Call (length hs) cmd sid data], h\<lparr>hdl_stats := bumpStat now 3 (hdl_stats h),
        hdl_circuit := (hdl_circuit h)\<lparr>cct_hops := map bump_bwd hs @ [(bump_bwd b)\<lparr>chp_backwardDigest := d\<rparr>]\<rparr>\<rparr>)"
proof -
  let ?ct = "foldr (layers C) (bwd_keys (hs @ [b])) p"
  have dec: "decryptInbound C (hdl_circuit h) ?ct = Inr (p, (hdl_circuit h)\<lparr>cct_hops := map bump_bwd (hs @ [b])\<rparr>)"
    using decrypt_hops_layers [OF assms(3), of C ?ct] p(2) chacha.wrap_peel [of C "bwd_keys (hs @ [b])" p]
    by (simp add: decryptInbound_def assms(2) length_layers del: map_append)
  have dg: "chp_backwardDigest (bump_bwd x) = chp_backwardDigest x" for x by (simp add: bump_bwd_def)
  have t: "tryConsumeRelayPayload C p (chp_backwardDigest (bump_bwd b)) = (Match \<lparr>rly_relayCommand = cmd, rly_streamId = sid, rly_data = data\<rparr>, d)"
    unfolding dg using consume_built [OF p(1) assms(1,7)] by simp
  have "\<forall>x\<in>set (map bump_bwd hs). fst (tryConsumeRelayPayload C p (chp_backwardDigest x)) = Mismatch"
    using assms(6) by (simp add: dg)
  from dispatch_last [OF this t, of now 0] assms(8)
  have disp: "dispatchInboundRelay C now ((hdl_circuit h)\<lparr>cct_hops := map bump_bwd (hs @ [b])\<rparr>) p
      = (Inbound_Data (length hs) cmd sid data, (hdl_circuit h)\<lparr>cct_hops := map bump_bwd hs @ [(bump_bwd b)\<lparr>chp_backwardDigest := d\<rparr>]\<rparr>)"
    by (simp add: dispatchInboundRelay_def)
  show ?thesis using assms(9) dec disp by (simp add: handler_onCell_def Let_def on_relay_def emit_def del: map_append)
qed

text \<open>C24. A cell of one end reaches the other through the spliced circuits: what one end sends on its circuit, peeled by the relays of
  its own circuit and wrapped by those of the other, makes the handler of the other end call \<open>onData\<close> once, with the
  command, the stream and the data sent; and both circuits and the two virtual hops stay in step, so the next cell, in
  either direction, passes too. (No relay of the other circuit may find its own four digest bytes in the cell by chance.)\<close>

theorem spliced_cell_delivered:
  assumes "hash_ok C" "cct_hops c = hs1 @ [a]" "list_all2 in_step hs1 rs1" "cct_hops (hdl_circuit h) = hs2 @ [b]" "list_all2 in_step hs2 rs2"
    and "mirror a b" "0 \<le> cct_circuitId c" "cct_circuitId c \<le> 0xFFFFFFFF" "length data \<le> 499" "sid < 65536" "cmd < 256" "cmd \<noteq> RELAY_EXTENDED"
    and "\<And>p d. buildRelayPayload C cmd (int sid) data (chp_forwardDigest a) = Inr (p, d) \<Longrightarrow>
      \<forall>x\<in>set hs2. fst (tryConsumeRelayPayload C p (chp_backwardDigest x)) = Mismatch"
    and "hdl_state h \<noteq> St_Closed"
  shows "\<exists>raw s' cl q rs1' ct rs2' h' hs1' a' hs2' b'. sendForward id C cmd sid data \<lparr>ccl_circuit = c\<rparr> = (Inr (), [raw], s')
    \<and> parseCell raw = Some cl \<and> cel_command cl = CMD_RELAY
    \<and> peel_path C rs1 (cel_payload cl) = Inr (q, rs1') \<and> wrap_path C rs2 q = Inr (ct, rs2')
    \<and> handler_onCell C now \<lparr>cel_version = v, cel_circuitId = cid, cel_command = CMD_RELAY, cel_payload = ct\<rparr> h
      = (Inr (), [On_Data_Call (length hs2) cmd sid data], h')
    \<and> cct_hops (ccl_circuit s') = hs1' @ [a'] \<and> list_all2 in_step hs1' rs1' \<and> cct_hops (hdl_circuit h') = hs2' @ [b']
    \<and> list_all2 in_step hs2' rs2' \<and> mirror a' b'"
proof -
  have m: "length (chp_Kf a) = 32" "chp_Kb b = chp_Kf a" "chp_backwardCounter b = chp_forwardCounter a" "chp_backwardDigest b = chp_forwardDigest a"
    using assms(6) by (auto simp: mirror_def)
  have k1: "\<forall>h\<in>set (hs1 @ [a]). length (chp_Kf h) = 32" using in_step_keys [OF assms(3)] m(1) by auto
  have k2: "\<forall>h\<in>set (hs2 @ [b]). length (chp_Kb h) = 32" using in_step_keys [OF assms(5)] m(1,2) by auto
  obtain p d where p: "buildRelayPayload C cmd (int sid) data (chp_forwardDigest a) = Inr (p, d)" "length p = 508"
    and s: "sendForward id C cmd sid data \<lparr>ccl_circuit = c\<rparr>
      = (Inr (), [cell_bytes 2 (nat (cct_circuitId c)) 3 (foldr (layers C) (fwd_keys (hs1 @ [a])) p)],
         \<lparr>ccl_circuit = c\<lparr>cct_hops := map bump_fwd (hs1 @ [a\<lparr>chp_forwardDigest := d\<rparr>])\<rparr>\<rparr>)"
    using sendForward_spec [OF assms(1) k1 assms(7-10,2), of cmd id] by auto
  let ?x = "layers C (chp_Kf a, chp_forwardCounter a) p"
  have lx: "length ?x = 508" using p(2) chacha.length_layer by simp
  have w: "foldr (layers C) (fwd_keys (hs1 @ [a])) p = foldr (layers C) (fwd_keys hs1) ?x" by (simp add: fwd_keys_def)
  have pc: "parseCell (cell_bytes 2 (nat (cct_circuitId c)) 3 (foldr (layers C) (fwd_keys (hs1 @ [a])) p))
      = Some \<lparr>cel_version = 2, cel_circuitId = nat (cct_circuitId c), cel_command = 3, cel_payload = foldr (layers C) (fwd_keys hs1) ?x\<rparr>"
    unfolding w using assms(8) lx by (subst parse_cell_bytes) (simp_all add: length_layers)
  have peel: "peel_path C rs1 (foldr (layers C) (fwd_keys hs1) ?x) = Inr (?x, map bump_peel rs1)"
    using peel_path_layers [OF assms(3), of "foldr (layers C) (fwd_keys hs1) ?x" C] chacha.wrap_peel [of C "fwd_keys hs1" ?x] lx
    by (simp add: length_layers)
  let ?ct = "foldr (layers C) (bwd_keys hs2) ?x"
  have wrap: "wrap_path C rs2 ?x = Inr (?ct, map bump_wrap rs2)" by (rule wrap_path_layers [OF assms(5) lx])
  let ?h = "h\<lparr>hdl_stats := bumpStat now 3 (hdl_stats h),
    hdl_circuit := (hdl_circuit h)\<lparr>cct_hops := map bump_bwd hs2 @ [(bump_bwd b)\<lparr>chp_backwardDigest := d\<rparr>]\<rparr>\<rparr>"
  have "?ct = foldr (layers C) (bwd_keys (hs2 @ [b])) p" using m by (simp add: bwd_keys_def)
  then have rcv: "handler_onCell C now \<lparr>cel_version = v, cel_circuitId = cid, cel_command = CMD_RELAY, cel_payload = ?ct\<rparr> h
      = (Inr (), [On_Data_Call (length hs2) cmd sid data], ?h)"
    using handler_delivers [OF assms(1,4) k2 p(1) [folded m(4)] p(2) _ assms(11,12,14)] assms(13) [OF p(1)] by simp
  have "list_all2 in_step (map bump_fwd hs1) (map bump_peel rs1)" "list_all2 in_step (map bump_bwd hs2) (map bump_wrap rs2)"
    using list_all2_bump assms(3,5) by blast+
  note step = this
  have e: "cct_hops (ccl_circuit \<lparr>ccl_circuit = c\<lparr>cct_hops := map bump_fwd (hs1 @ [a\<lparr>chp_forwardDigest := d\<rparr>])\<rparr>\<rparr>)
      = map bump_fwd hs1 @ [bump_fwd (a\<lparr>chp_forwardDigest := d\<rparr>)]"
    "cct_hops (hdl_circuit ?h) = map bump_bwd hs2 @ [(bump_bwd b)\<lparr>chp_backwardDigest := d\<rparr>]" by simp_all
  show ?thesis
    apply (intro exI conjI)
              apply (rule s)
             apply (rule pc)
            apply simp
           apply (simp only: cell.select_convs, rule peel)
          apply (rule wrap)
         apply (rule rcv)
        apply (rule e(1))
       apply (rule step(1))
      apply (rule e(2))
     apply (rule step(2))
    apply (rule mirror_moves [OF assms(6)])
    done
qed

section \<open>What the client has checked\<close>

lemma sendForward_keys [same_keys]:
  "circuit_keys (ccl_circuit (snd (snd (sendForward cell C cmd sid data s)))) = circuit_keys (ccl_circuit s)"
  by (auto simp: sendForward_def throw_def emit_def Let_def digest_keys dest: encryptOutbound_keys split: sum.splits)

abbreviation on_keys :: "hop_keys list \<Rightarrow> 'x client_circuit_scheme \<Rightarrow> bool" where
  "on_keys ks \<equiv> (\<lambda>s. circuit_keys (ccl_circuit s) = ks)"

abbreviation keeps_keys :: "hop_keys list \<Rightarrow> ('a, 'e, 'x client_circuit_scheme) effectful \<Rightarrow> bool" where
  "keeps_keys ks \<equiv> sound (on_keys ks) (\<lambda>_. True)"

lemma sound_any: "I (snd (snd a)) \<Longrightarrow> sound I (\<lambda>_. True) a" by (simp add: sound_def list_all_iff)

lemma stream_sendForward_sound: "on_keys ks s \<Longrightarrow> keeps_keys ks (stream_sendForward C cmd sid data s)"
  by (rule sound_any) (auto simp: stream_sendForward_def throw_def sendForward_keys)

lemma send_chunks_sound:
  "(\<And>d s. I s \<Longrightarrow> sound I E (f d s)) \<Longrightarrow> I s \<Longrightarrow> sound I E (send_chunks f data 0 s)"
  unfolding send_chunks_each by (rule sound_for_each)

lemma sound_steps: "I s \<Longrightarrow> sound I E (ret x s)" "I (f s) \<Longrightarrow> sound I E (update f s)" "I s \<Longrightarrow> E e \<Longrightarrow> sound I E (emit e s)"
  by (simp_all add: sound_def ret_def update_def emit_def)

lemma on_stream_keys [simp]:
  "ccl_circuit (on_stream k f s) = ccl_circuit s" "ccl_circuit (drop_stream sid s) = ccl_circuit s"
  "ccl_circuit (settle_stream k r s) = ccl_circuit s"
  by (simp_all add: on_stream_def drop_stream_def settle_stream_def)

lemma sound_swallow: "sound I E a \<Longrightarrow> sound I E (swallow a)" by (cases a) (simp add: sound_def swallow_def)

lemma stream_end_sound:
  assumes "on_keys ks s"
  shows "keeps_keys ks (stream_end C k reason s)"
  unfolding stream_end_def Let_def using assms
  by (auto intro!: sound_seq [where J = "on_keys ks"] sound_swallow stream_sendForward_sound sound_steps)

lemma closeAll_sound: "on_keys ks s \<Longrightarrow> keeps_keys ks (streams_closeAll reason s)"
  unfolding streams_closeAll_def
  by (intro sound_seq [where J = "on_keys ks"] sound_for_each sound_steps)
    (auto simp: entry_onEnd_def intro!: sound_steps)

lemma inbound_sound: "on_keys ks s \<Longrightarrow> keeps_keys ks (handleInboundRelay cmd sid data s)"
  by (auto simp: handleInboundRelay_def entry_onConnected_def entry_onData_def entry_onEnd_def Let_def
      intro!: sound_steps split: option.splits)

lemma openStream_sound:
  assumes "on_keys ks s"
  shows "keeps_keys ks (openStream C dest s)"
proof -
  let ?sid = "cls_nextStreamId s" and ?k = "length (cls_objs s)"
  let ?s = "s\<lparr>cls_nextStreamId := next_stream_id ?sid, cls_streams := map_set ?sid ?k (cls_streams s),
    cls_objs := cls_objs s @ [\<lparr>csm_streamId = ?sid, csm_closed = False, csm_settled = None, csm_timer = False\<rparr>]\<rparr>"
  let ?a = "seq (lift (buildBeginPayload dest) ?s) (stream_sendForward C RELAY_BEGIN ?sid)"
  obtain r es u where u: "?a = (r, es, u)" by (cases ?a)
  have "sound (on_keys ks) (\<lambda>_. True) (lift (buildBeginPayload dest) ?s)" using assms by (intro sound_any) (simp add: lift_def)
  then have "keeps_keys ks ?a" by (rule sound_seq) (auto intro: stream_sendForward_sound)
  then have "on_keys ks u" using u by (simp add: sound_def)
  then show ?thesis using u by (intro sound_any) (simp add: openStream_def Let_def split: sum.splits)
qed

lemma stream_timer_sound:
  assumes "on_keys ks s"
  shows "keeps_keys ks (stream_timer C k s)"
  using assms unfolding stream_timer_def Let_def
  by (auto intro!: sound_seq [where J = "on_keys ks"] stream_end_sound sound_steps)

lemma stream_step_keys: "circuit_keys (ccl_circuit (stream_step C op s)) = circuit_keys (ccl_circuit s)"
proof -
  have f: "circuit_keys (ccl_circuit (snd (snd a))) = circuit_keys (ccl_circuit s)"
    if "on_keys (circuit_keys (ccl_circuit s)) s \<Longrightarrow> keeps_keys (circuit_keys (ccl_circuit s)) a" for a :: "'a streams_act"
    using that by (simp add: sound_def)
  have c: "keeps_keys (circuit_keys (ccl_circuit s)) (stream_send C k data s)" for k data
    unfolding stream_send_def by (auto intro!: sound_throw send_chunks_sound stream_sendForward_sound)
  show ?thesis
    by (cases op) (auto intro!: f openStream_sound c stream_end_sound inbound_sound stream_timer_sound closeAll_sound)
qed

lemma close_circuit: "hdl_circuit (close_handler e h) = hdl_circuit h"
  by (simp add: close_handler_def failPending_def settle_def Let_def split: option.splits)

lemma settle_circuit: "hdl_circuit (settle p r h) = hdl_circuit h" by (simp add: settle_def)

lemma on_created_circuit: "hdl_circuit (snd (snd (on_created C now parsed h))) = hdl_circuit h"
  by (simp add: on_created_def Let_def ret_def throw_def close_circuit settle_circuit split: option.splits prod.splits ingested.splits sum.splits)

lemma on_relay_keys: "circuit_keys (hdl_circuit (snd (snd (on_relay C now parsed h)))) = circuit_keys (hdl_circuit h)"
proof (cases "decryptInbound C (hdl_circuit h) (cel_payload parsed)")
  case (Inl e)
  then show ?thesis by (simp add: on_relay_def throw_def)
next
  case (Inr qc)
  obtain q c where q: "decryptInbound C (hdl_circuit h) (cel_payload parsed) = Inr (q, c)" using Inr by (cases qc) simp
  obtain d c' where d: "dispatchInboundRelay C now c q = (d, c')" by fastforce
  have "circuit_keys c' = circuit_keys (hdl_circuit h)" using decryptInbound_keys [OF q] dispatchInboundRelay_keys [OF d] by simp
  then show ?thesis
    using q d by (simp add: on_relay_def Let_def ret_def throw_def emit_def close_circuit settle_circuit split: inbound_event.splits option.splits sum.splits)
qed

lemma onCell_keys: "circuit_keys (hdl_circuit (snd (snd (handler_onCell C now parsed h)))) = circuit_keys (hdl_circuit h)"
  by (simp add: handler_onCell_def Let_def ret_def emit_def on_created_circuit on_relay_keys close_circuit)

text \<open>Keys that the client of a hidden service accepts: derived from an answer to its own handshake that verified under the service's
  onion key of the introduction point and the identity that the caller asked for.\<close>

definition accepted_for :: "crypto \<Rightarrow> meeting \<Rightarrow> hop_keys \<Rightarrow> bool" where
  "accepted_for C m k \<longleftrightarrow> (\<exists>xs ks msg seed. clientFinish C (clientInit C xs ks) (ip_serviceEncX25519Pk (mtg_ip m)) (mtg_id m) msg = Some seed
     \<and> deriveHopKeys C seed = Inr k)"

definition hidden_inv :: "crypto \<Rightarrow> meeting \<Rightarrow> hidden_client \<Rightarrow> bool" where
  "hidden_inv C m s \<longleftrightarrow> hcl_meeting s = m
     \<and> (\<forall>st. hcl_ntorState s = Some st \<longrightarrow> (\<exists>xs ks. st = clientInit C xs ks))
     \<and> (hcl_streams s \<noteq> None \<longleftrightarrow> hcl_phase s = Connected)
     \<and> (hcl_phase s = Connected \<longrightarrow> (\<exists>h ks k. hcl_rp s = Some h \<and> circuit_keys (hdl_circuit h) = ks @ [k] \<and> accepted_for C m k))"

text \<open>What a step of the network changes of the client's state: neither the phase nor the keys of the circuit.\<close>

definition calm :: "hidden_client \<Rightarrow> hidden_client \<Rightarrow> bool" where
  "calm s t \<longleftrightarrow> hcl_meeting t = hcl_meeting s \<and> hcl_ntorState t = hcl_ntorState s \<and> hcl_phase t = hcl_phase s
     \<and> (hcl_streams t = None \<longleftrightarrow> hcl_streams s = None)
     \<and> map_option (\<lambda>h. circuit_keys (hdl_circuit h)) (hcl_rp t) = map_option (\<lambda>h. circuit_keys (hdl_circuit h)) (hcl_rp s)"

lemma calm_refl [simp]: "calm s s" by (simp add: calm_def)

lemma calm_trans: "calm s t \<Longrightarrow> calm t u \<Longrightarrow> calm s u" by (simp add: calm_def)

lemma calm_inv:
  assumes "hidden_inv C m s" "calm s t"
  shows "hidden_inv C m t"
proof -
  have "\<exists>h ks k. hcl_rp t = Some h \<and> circuit_keys (hdl_circuit h) = ks @ [k] \<and> accepted_for C m k" if "hcl_phase t = Connected"
  proof -
    have "hcl_phase s = Connected" using that assms(2) by (simp add: calm_def)
    then obtain h ks k where h: "hcl_rp s = Some h" "circuit_keys (hdl_circuit h) = ks @ [k]" "accepted_for C m k"
      using assms(1) unfolding hidden_inv_def by blast
    then obtain h' where "hcl_rp t = Some h'" "circuit_keys (hdl_circuit h') = ks @ [k]" using assms(2) by (auto simp: calm_def)
    then show ?thesis using h(3) by blast
  qed
  then show ?thesis using assms by (simp add: hidden_inv_def calm_def)
qed

lemma streams_calm:
  assumes "\<And>ks st. on_keys ks st \<Longrightarrow> keeps_keys ks (f st)"
  shows "calm s (snd (snd (with_streams f s)))"
proof -
  have "circuit_keys (ccl_circuit (snd (snd (f st)))) = circuit_keys (ccl_circuit st)" for st
    using assms [of st "circuit_keys (ccl_circuit st)"] by (simp add: sound_def)
  then show ?thesis by (auto simp: with_streams_def throw_def calm_def split: option.splits prod.splits) (metis client_circuit.select_convs(1)
      client_circuit.surjective client_circuit.update_convs(1) snd_conv)
qed

lemma rp_data_calm: "calm s (snd (snd (handleRpCircuitData now cmd sid data s)))"
proof -
  have "calm s (snd (snd (with_streams (handleInboundRelay cmd sid data) s)))" by (rule streams_calm) (rule inbound_sound)
  then show ?thesis
    by (auto simp: handleRpCircuitData_def Let_def ret_def calm_def split: prod.splits ingested.splits)
qed

lemma data_calls_calm:
  "(\<And>cmd sid data s. calm s (snd (snd (f cmd sid data s)))) \<Longrightarrow> calm s (snd (snd (data_calls f es s)))"
proof (induction f es s rule: data_calls.induct)
  case (2 f i cmd sid data es s)
  obtain r fs t where t: "f cmd sid data s = (r, fs, t)" by (cases "f cmd sid data s")
  have "calm s t" using 2(2) [of s cmd sid data] t by simp
  moreover have "calm t (snd (snd (data_calls f es t)))" using 2 by blast
  ultimately show ?case using t by (auto simp: seq_def swallow_def split: prod.splits intro: calm_trans)
qed (auto simp: ret_def)

lemma inbound_calm: "calm s (snd (snd (rp_inbound C now c s)))" "calm s (snd (snd (ip_inbound C now c s)))"
proof -
  show "calm s (snd (snd (rp_inbound C now c s)))"
  proof (cases "hcl_rp s")
    case (Some h)
    obtain r es h' where h': "handler_onCell C now c h = (r, es, h')" by (cases "handler_onCell C now c h")
    have "circuit_keys (hdl_circuit h') = circuit_keys (hdl_circuit h)" using onCell_keys [of C now c h] h' by simp
    then have "calm s (on_rp h' s)" using Some by (simp add: calm_def on_rp_def)
    from calm_trans [OF this data_calls_calm [of "handleRpCircuitData now", OF rp_data_calm]] show ?thesis
      using Some h' by (simp add: rp_inbound_def)
  qed (simp add: rp_inbound_def ret_def)
  have d: "calm t (snd (snd (handleIpCircuitData cmd data t)))" for cmd data t
    by (simp add: handleIpCircuitData_def ret_def calm_def)
  show "calm s (snd (snd (ip_inbound C now c s)))"
  proof (cases "hcl_ip s")
    case (Some h)
    obtain r es h' where h': "handler_onCell C now c h = (r, es, h')" by (cases "handler_onCell C now c h")
    have "calm s (on_ip h' s)" by (simp add: calm_def on_ip_def)
    from calm_trans [OF this data_calls_calm [of "\<lambda>cmd _. handleIpCircuitData cmd", OF d]] show ?thesis
      using Some h' by (simp add: ip_inbound_def)
  qed (simp add: ip_inbound_def ret_def)
qed

text \<open>While no stream can exist, the phase may move freely except to \<open>Connected\<close>.\<close>

definition not_yet :: "crypto \<Rightarrow> meeting \<Rightarrow> hidden_client \<Rightarrow> bool" where
  "not_yet C m s \<longleftrightarrow> hcl_meeting s = m \<and> (\<forall>st. hcl_ntorState s = Some st \<longrightarrow> (\<exists>xs ks. st = clientInit C xs ks)) \<and> hcl_streams s = None"

lemma not_yet_inv: "not_yet C m s \<Longrightarrow> hcl_phase s \<noteq> Connected \<Longrightarrow> hidden_inv C m s"
  by (simp add: hidden_inv_def not_yet_def)

lemma inv_not_yet: "hidden_inv C m s \<Longrightarrow> hcl_phase s \<noteq> Connected \<Longrightarrow> not_yet C m s"
  by (simp add: hidden_inv_def not_yet_def)

lemma through_phase: "snd (snd (through h put f s)) = s \<or> (\<exists>h'. snd (snd (through h put f s)) = put h' s)"
  by (auto simp: through_def throw_def split: option.splits prod.splits)

lemma through_sound:
  "(\<And>h'. I (put h' s)) \<Longrightarrow> I s \<Longrightarrow> sound I (\<lambda>_. True) (through h put f s)"
  by (rule sound_any) (metis through_phase)

lemma rp_built_inv:
  assumes "not_yet C m s"
  shows "hidden_inv C m (snd (snd (rp_built C h s)))"
proof -
  let ?s = "s\<lparr>hcl_rp := Some h, hcl_phase := Await_Established, hcl_established := Unsettled\<rparr>"
  let ?I = "\<lambda>t. not_yet C m t \<and> hcl_phase t = Await_Established"
  let ?a = "seq (lift (buildEstablishRendezvous (mtg_cookie (hcl_meeting ?s))) ?s)
      (\<lambda>data s. through (hcl_rp s) on_rp (send_on Rp_Cell C RELAY_ESTABLISH_RENDEZVOUS data) s)"
  obtain r es t where t: "?a = (r, es, t)" by (cases ?a)
  have "sound ?I (\<lambda>_. True) (lift (buildEstablishRendezvous (mtg_cookie (hcl_meeting ?s))) ?s)"
    using assms by (intro sound_any) (simp add: lift_def not_yet_def)
  then have "sound ?I (\<lambda>_. True) ?a"
    by (rule sound_seq) (auto intro!: through_sound simp: on_rp_def not_yet_def)
  then have "?I t" using t by (simp add: sound_def)
  then show ?thesis using t by (auto simp: rp_built_def Let_def hidden_inv_def not_yet_def split: sum.splits)
qed

lemma run_open_inv:
  assumes "sound (not_yet C m) (\<lambda>_. True) a" "\<And>u es s. a = (Inr u, es, s) \<Longrightarrow> hcl_phase s \<noteq> Connected"
  shows "hidden_inv C m (snd (snd (run_open a)))"
  using assms by (cases a) (auto simp: run_open_def sound_def hidden_inv_def not_yet_def split: sum.splits)

lemma ip_built_inv:
  assumes "not_yet C m s" "hcl_phase s \<noteq> Connected"
  shows "hidden_inv C m (snd (snd (ip_built C w h s)))"
proof -
  let ?J = "\<lambda>t. not_yet C m t \<and> hcl_phase t \<noteq> Connected"
  let ?n = "clientInit C (idr_xSeed w) (idr_kemSeed w)"
  let ?s = "s\<lparr>hcl_ip := Some h, hcl_ntorState := Some ?n\<rparr>"
  have l: "?J t \<Longrightarrow> sound ?J (\<lambda>_. True) (lift x t)" for x :: "'a res" and t by (rule sound_any) (simp add: lift_def)
  have s: "?J ?s" using assms by (auto simp: not_yet_def)
  let ?a = "seq (lift (introduce_payload C (idr_seal w) (hcl_meeting ?s) ?n) ?s) (\<lambda>introducePayload s.
         seq (lift (fragmentMessage introducePayload (idr_handshakeId w) (int RELAY_FRAGMENT_CAPACITY)) s) (\<lambda>fragments s.
         seq (for_each (\<lambda>fragData s. through (hcl_ip s) on_ip (send_on Ip_Cell C RELAY_INTRODUCE1 fragData) s) fragments
                (s\<lparr>hcl_ack := Unsettled\<rparr>)) (\<lambda>_.
           update (\<lambda>s. s\<lparr>hcl_phase := Await_Ack\<rparr>))))"
  have a: "sound ?J (\<lambda>_. True) ?a"
    by (rule sound_seq [OF l [OF s]], rule sound_seq [OF l], assumption, rule sound_seq [OF sound_for_each])
      (auto intro!: through_sound sound_steps simp: not_yet_def on_ip_def)
  obtain r es t where t: "?a = (r, es, t)" by (cases ?a)
  have "?J t" using a t by (simp add: sound_def)
  then have "hidden_inv C m (snd (snd (run_open ?a)))"
    unfolding t by (auto simp: run_open_def hidden_inv_def not_yet_def split: sum.splits)
  then show ?thesis by (simp only: ip_built_def Let_def)
qed

lemma attempt_inv:
  assumes "hidden_inv C m s"
  shows "hidden_inv C m (snd (snd (attempt_done C w r s)))"
proof (cases "\<exists>n. hcl_phase s = Build_Rp n \<or> hcl_phase s = Build_Ip n")
  case True
  then have n: "not_yet C m s" "hcl_phase s \<noteq> Connected" using inv_not_yet [OF assms] by auto
  have p: "hidden_inv C m (s\<lparr>hcl_phase := p\<rparr>)" if "p \<noteq> Connected" for p
    using n(1) that by (simp add: hidden_inv_def not_yet_def)
  show ?thesis using True n
    by (auto simp: attempt_done_def ret_def p rp_built_inv ip_built_inv split: sum.splits option.splits)
next
  case False
  then show ?thesis using assms by (simp add: attempt_done_def ret_def split: open_phase.splits)
qed

lemma finish_inv:
  assumes "not_yet C m s" "hcl_phase s \<noteq> Connected"
  shows "hidden_inv C m (snd (snd (run_open (finish_rendezvous C bs s))))"
proof -
  have f: "hidden_inv C m (t\<lparr>hcl_phase := Not_Opened e\<rparr>)" if "not_yet C m t" for t e using that by (simp add: hidden_inv_def not_yet_def)
  have o: "not_yet C m (on_rp h t)" if "not_yet C m t" for t h using that by (simp add: not_yet_def on_rp_def)
  show ?thesis
  proof (cases "\<exists>msg st k seed h c. parseRendezvous2 bs = Some msg \<and> hcl_ntorState s = Some st
      \<and> clientFinish C st (ip_serviceEncX25519Pk (mtg_ip (hcl_meeting s))) (mtg_id (hcl_meeting s)) msg = Some seed
      \<and> deriveHopKeys C seed = Inr k \<and> hcl_rp s = Some h \<and> addHop (hdl_circuit h) k = Inr c")
    case True
    then obtain msg st k seed h c where g: "parseRendezvous2 bs = Some msg" "hcl_ntorState s = Some st"
      "clientFinish C st (ip_serviceEncX25519Pk (mtg_ip (hcl_meeting s))) (mtg_id (hcl_meeting s)) msg = Some seed"
      "deriveHopKeys C seed = Inr k" "hcl_rp s = Some h" "addHop (hdl_circuit h) k = Inr c" by blast
    obtain xs ks where st: "st = clientInit C xs ks" using assms(1) g(2) by (auto simp: not_yet_def)
    have m: "hcl_meeting s = m" using assms(1) by (simp add: not_yet_def)
    have "accepted_for C m k" unfolding accepted_for_def using g(3,4) st m by blast
    moreover have "circuit_keys c = circuit_keys (hdl_circuit h) @ [k]" by (rule addHop_keys [OF g(6)])
    ultimately show ?thesis using g assms m
      by (simp add: finish_rendezvous_def Let_def run_open_def seq_def lift_def ret_def through_def on_rp_def update_def hidden_inv_def not_yet_def)
  next
    case False
    then show ?thesis using f assms o
      by (auto simp: finish_rendezvous_def Let_def run_open_def seq_def lift_def ret_def throw_def through_def update_def
        split: option.splits sum.splits bind_splits)
  qed
qed

lemma check_inv:
  assumes "not_yet C m s" "\<And>s. g s = s\<lparr>hcl_phase := p\<rparr> \<or> (\<exists>q. g s = s\<lparr>hcl_rendezvous2 := q, hcl_phase := p\<rparr>)" "p \<noteq> Connected"
  shows "hidden_inv C m (snd (snd (run_open (seq (lift r s) (\<lambda>status s.
    (case check_status status what of Some e \<Rightarrow> throw e s | None \<Rightarrow> update g s))))))"
  using assms(1,3) assms(2) [of s]
  by (auto simp: run_open_def seq_def lift_def ret_def throw_def update_def hidden_inv_def not_yet_def split: option.splits sum.splits)

lemma resume_inv:
  assumes "hidden_inv C m s"
  shows "hidden_inv C m (snd (snd (open_resume C s)))"
proof -
  have f: "hidden_inv C m (snd (snd (run_open (seq (lift r s) (finish_rendezvous C)))))"
    if "not_yet C m s" "hcl_phase s \<noteq> Connected" for r
    using that finish_inv [OF that]
    by (cases r) (auto simp: seq_def lift_def ret_def throw_def run_open_def hidden_inv_def not_yet_def split: prod.splits)
  show ?thesis
  proof (cases "hcl_phase s = Connected")
    case True
    then show ?thesis using assms by (simp add: open_resume_def ret_def)
  next
    case False
    note n = inv_not_yet [OF assms False]
    show ?thesis using assms n False f
      by (auto simp: open_resume_def ret_def intro!: check_inv split: open_phase.splits promise.splits)
  qed
qed

lemma swallow_state [simp]: "snd (snd (swallow a)) = snd (snd a)" by (cases a) (simp add: swallow_def)

lemma hidden_step_inv:
  assumes "hidden_inv C m s"
  shows "hidden_inv C m (hidden_step C ev s)"
proof (cases ev)
  case (Rp_Inbound now c)
  then show ?thesis using calm_inv [OF assms inbound_calm(1)] by (simp add: hidden_step_def)
next
  case (Ip_Inbound now c)
  then show ?thesis using calm_inv [OF assms inbound_calm(2)] by (simp add: hidden_step_def)
next
  case (Open_Stream port)
  have "calm s (snd (snd (hidden_openStream C port s)))"
    unfolding hidden_openStream_def by (rule streams_calm) (rule openStream_sound)
  then show ?thesis using Open_Stream calm_inv [OF assms] by (simp add: hidden_step_def)
next
  case (Stream_Op op)
  have "calm s (snd (snd (with_streams (update (stream_step C op)) s)))"
    by (rule streams_calm) (auto intro!: sound_steps simp: stream_step_keys)
  then show ?thesis using Stream_Op calm_inv [OF assms] by (simp add: hidden_step_def)
next
  case Close
  have "calm s (snd (snd (with_streams (streams_closeAll END_REASON_CLIENT_CLOSED) s)))"
    by (rule streams_calm) (rule closeAll_sound)
  then show ?thesis using Close calm_inv [OF assms] assms by (simp add: hidden_step_def hidden_close_def ret_def)
next
  case (Attempt w r)
  then show ?thesis using attempt_inv [OF assms] by (simp add: hidden_step_def)
next
  case Resume
  then show ?thesis using resume_inv [OF assms] by (simp add: hidden_step_def)
qed (use assms in \<open>simp_all add: hidden_step_def established_timer_def ack_timer_def rendezvous2_timer_def hidden_inv_def\<close>)

lemma hidden_run_inv: "hidden_inv C m s \<Longrightarrow> hidden_inv C m (hidden_run C evs s)"
  unfolding hidden_run_def by (induction evs arbitrary: s) (simp_all add: hidden_step_inv)

lemma open_start_inv: "open_start C rses cookie SVC_pk d = Inr s \<Longrightarrow> hidden_inv C (hcl_meeting s) s"
  by (auto simp: open_start_def hidden_inv_def split: list.splits option.splits)

text \<open>C22. Whatever arrives and whenever, the client of a hidden service offers streams exactly when it says that it is connected,
  and then the far end of its circuit to the rendezvous point holds keys that came out of its own handshake: the answer verified
  under the onion key in the descriptor and under the identity of the service that the caller asked for. Neither of the two relays
  in between can put itself at the end of the circuit.\<close>

theorem hidden_service_authentic:
  assumes "open_start C rses cookie SVC_pk descriptor = Inr s0"
  shows "let s = hidden_run C evs s0 in
    (hcl_streams s \<noteq> None \<longleftrightarrow> hcl_phase s = Connected) \<and>
    (hcl_phase s = Connected \<longrightarrow>
      (\<exists>h ks k xs kem msg seed. hcl_rp s = Some h \<and> circuit_keys (hdl_circuit h) = ks @ [k] \<and>
        clientFinish C (clientInit C xs kem) (ip_serviceEncX25519Pk (mtg_ip (hcl_meeting s0))) (mtg_id (hcl_meeting s0)) msg = Some seed \<and>
        deriveHopKeys C seed = Inr k))"
  using hidden_run_inv [OF open_start_inv [OF assms], of evs] by (auto simp: Let_def hidden_inv_def accepted_for_def)

section \<open>Opening ends\<close>

text \<open>What the three timers and the failing attempts still have to do.\<close>

fun open_rank :: "open_phase \<Rightarrow> nat" where
  "open_rank (Build_Rp n) = 11 - n"
| "open_rank Await_Established = 7"
| "open_rank (Build_Ip n) = 6 - n"
| "open_rank Await_Ack = 2"
| "open_rank Await_Rendezvous2 = 1"
| "open_rank Connected = 0"
| "open_rank (Not_Opened e) = 0"

definition waits :: "hidden_client \<Rightarrow> bool" where
  "waits s \<longleftrightarrow> (case hcl_phase s of
      Build_Rp n \<Rightarrow> n < 4
    | Build_Ip n \<Rightarrow> n < 4
    | Await_Established \<Rightarrow> hcl_established s \<noteq> No_Promise
    | Await_Ack \<Rightarrow> hcl_ack s \<noteq> No_Promise
    | Await_Rendezvous2 \<Rightarrow> hcl_rendezvous2 s \<noteq> No_Promise
    | _ \<Rightarrow> True)"

text \<open>Cells and streams settle promises and never take one back.\<close>

definition settles :: "hidden_client \<Rightarrow> hidden_client \<Rightarrow> bool" where
  "settles s t \<longleftrightarrow> hcl_phase t = hcl_phase s \<and> (hcl_established t = No_Promise \<longleftrightarrow> hcl_established s = No_Promise)
     \<and> (hcl_ack t = No_Promise \<longleftrightarrow> hcl_ack s = No_Promise) \<and> (hcl_rendezvous2 t = No_Promise \<longleftrightarrow> hcl_rendezvous2 s = No_Promise)"

lemma resolve_none [simp]: "resolve_with r p = No_Promise \<longleftrightarrow> p = No_Promise" by (simp add: resolve_with_def split: promise.splits)

lemma settles_refl [simp]: "settles s s" by (simp add: settles_def)

lemma settles_trans: "settles s t \<Longrightarrow> settles t u \<Longrightarrow> settles s u" by (simp add: settles_def)

lemma settles_waits: "settles s t \<Longrightarrow> waits s \<Longrightarrow> waits t" by (auto simp: settles_def waits_def split: open_phase.splits)

lemma settles_ops:
  "settles s (snd (snd (with_streams f s)))" "settles s (snd (snd (handleRpCircuitData now cmd sid data s)))"
  "settles s (snd (snd (handleIpCircuitData cmd data s)))" "settles s (on_rp h s)" "settles s (on_ip h s)"
proof -
  show "settles s (snd (snd (with_streams f s)))"
    by (simp add: with_streams_def settles_def throw_def split: option.splits prod.splits)
  show "settles s (snd (snd (handleRpCircuitData now cmd sid data s)))"
    by (auto simp: handleRpCircuitData_def Let_def ret_def settles_def with_streams_def throw_def split: prod.splits ingested.splits option.splits)
  show "settles s (snd (snd (handleIpCircuitData cmd data s)))" by (simp add: handleIpCircuitData_def ret_def settles_def)
  show "settles s (on_rp h s)" "settles s (on_ip h s)" by (simp_all add: on_rp_def on_ip_def settles_def)
qed

lemma settles_calls:
  "(\<And>cmd sid data s. settles s (snd (snd (f cmd sid data s)))) \<Longrightarrow> settles s (snd (snd (data_calls f es s)))"
proof (induction f es s rule: data_calls.induct)
  case (2 f i cmd sid data es s)
  obtain r fs t where t: "f cmd sid data s = (r, fs, t)" by (cases "f cmd sid data s")
  have "settles s t" using 2(2) [of s cmd sid data] t by simp
  moreover have "settles t (snd (snd (data_calls f es t)))" using 2 by blast
  ultimately show ?case using t by (auto simp: seq_def swallow_def split: prod.splits intro: settles_trans)
qed (auto simp: ret_def)

lemma settles_inbound: "settles s (snd (snd (rp_inbound C now c s)))" "settles s (snd (snd (ip_inbound C now c s)))"
  by (auto simp: rp_inbound_def ip_inbound_def ret_def split: option.splits prod.splits
      intro!: settles_trans [OF settles_ops(4) settles_calls] settles_trans [OF settles_ops(5) settles_calls] settles_ops)

lemma next_attempt_bound: "next_attempt n e = Some k \<Longrightarrow> k = n + 1 \<and> k < 4"
  by (auto simp: next_attempt_def split: if_splits)

lemma finish_phase: "fst (finish_rendezvous C bs s) = Inr () \<Longrightarrow> hcl_phase (snd (snd (finish_rendezvous C bs s))) = Connected"
  by (auto simp: finish_rendezvous_def Let_def seq_def lift_def ret_def throw_def through_def update_def
      split: option.splits sum.splits prod.splits)

lemma run_open_rank:
  assumes "\<And>t es. a = (Inr (), es, t) \<Longrightarrow> waits t \<and> open_rank (hcl_phase t) \<le> n"
  shows "waits (snd (snd (run_open a))) \<and> open_rank (hcl_phase (snd (snd (run_open a)))) \<le> n"
proof -
  obtain r es t where a: "a = (r, es, t)" by (cases a)
  show ?thesis
  proof (cases r)
    case (Inr u)
    then show ?thesis using assms a by (simp add: run_open_def)
  qed (simp add: run_open_def waits_def a)
qed

lemma ip_built_rank: "waits (snd (snd (ip_built C w h s))) \<and> open_rank (hcl_phase (snd (snd (ip_built C w h s)))) \<le> 2"
proof -
  have k: "sound (\<lambda>t. hcl_ack t = Unsettled) (\<lambda>_. True)
      (for_each (\<lambda>d s. through (hcl_ip s) on_ip (send_on Ip_Cell C RELAY_INTRODUCE1 d) s) fs (t\<lparr>hcl_ack := Unsettled\<rparr>))" for fs t
    by (rule sound_for_each) (auto intro!: through_sound simp: on_ip_def)
  show ?thesis unfolding ip_built_def Let_def
  proof (rule run_open_rank)
    fix t es
    assume a: "seq (lift (introduce_payload C (idr_seal w) (hcl_meeting (s\<lparr>hcl_ip := Some h, hcl_ntorState := Some (clientInit C (idr_xSeed w) (idr_kemSeed w))\<rparr>)) (clientInit C (idr_xSeed w) (idr_kemSeed w))) (s\<lparr>hcl_ip := Some h, hcl_ntorState := Some (clientInit C (idr_xSeed w) (idr_kemSeed w))\<rparr>)) (\<lambda>introducePayload s.
         seq (lift (fragmentMessage introducePayload (idr_handshakeId w) (int RELAY_FRAGMENT_CAPACITY)) s) (\<lambda>fragments s.
         seq (for_each (\<lambda>fragData s. through (hcl_ip s) on_ip (send_on Ip_Cell C RELAY_INTRODUCE1 fragData) s) fragments
                (s\<lparr>hcl_ack := Unsettled\<rparr>)) (\<lambda>_.
           update (\<lambda>s. s\<lparr>hcl_phase := Await_Ack\<rparr>)))) = (Inr (), es, t)"
    have "\<exists>fs u es' u'. for_each (\<lambda>d s. through (hcl_ip s) on_ip (send_on Ip_Cell C RELAY_INTRODUCE1 d) s) fs (u\<lparr>hcl_ack := Unsettled\<rparr>) = (Inr (), es', u')
        \<and> t = u'\<lparr>hcl_phase := Await_Ack\<rparr>"
      using a by (auto simp: seq_def lift_def ret_def throw_def update_def split: sum.splits prod.splits)
    then obtain fs u es' u' where u: "for_each (\<lambda>d s. through (hcl_ip s) on_ip (send_on Ip_Cell C RELAY_INTRODUCE1 d) s) fs (u\<lparr>hcl_ack := Unsettled\<rparr>) = (Inr (), es', u')"
      "t = u'\<lparr>hcl_phase := Await_Ack\<rparr>" by blast
    have "hcl_ack u' = Unsettled" using k [of fs u] unfolding u(1) by (simp add: sound_def)
    note this u(2)
    then show "waits t \<and> open_rank (hcl_phase t) \<le> 2" by (simp add: waits_def)
  qed
qed

lemma rp_built_rank: "waits (snd (snd (rp_built C h s))) \<and> open_rank (hcl_phase (snd (snd (rp_built C h s)))) = 7"
proof -
  let ?s = "s\<lparr>hcl_rp := Some h, hcl_phase := Await_Established, hcl_established := Unsettled\<rparr>"
  let ?J = "\<lambda>t. hcl_established t = Unsettled \<and> hcl_phase t = Await_Established"
  let ?a = "seq (lift (buildEstablishRendezvous (mtg_cookie (hcl_meeting ?s))) ?s)
      (\<lambda>data s. through (hcl_rp s) on_rp (send_on Rp_Cell C RELAY_ESTABLISH_RENDEZVOUS data) s)"
  obtain r es t where t: "?a = (r, es, t)" by (cases ?a)
  have "sound ?J (\<lambda>_. True) (lift (buildEstablishRendezvous (mtg_cookie (hcl_meeting ?s))) ?s)"
    by (intro sound_any) (simp add: lift_def)
  then have "sound ?J (\<lambda>_. True) ?a" by (rule sound_seq) (auto intro!: through_sound simp: on_rp_def)
  then have "?J t" using t by (simp add: sound_def)
  then show ?thesis using t by (auto simp: rp_built_def Let_def waits_def split: sum.splits)
qed

lemma attempt_rank:
  assumes "waits s"
  shows "waits (snd (snd (attempt_done C w r s))) \<and> open_rank (hcl_phase (snd (snd (attempt_done C w r s)))) \<le> open_rank (hcl_phase s)
    \<and> ((\<exists>n. hcl_phase s = Build_Rp n \<or> hcl_phase s = Build_Ip n) \<longrightarrow> open_rank (hcl_phase (snd (snd (attempt_done C w r s)))) < open_rank (hcl_phase s))"
proof (cases "hcl_phase s")
  case (Build_Rp n)
  have n: "n < 4" using assms Build_Rp by (simp add: waits_def)
  then have "7 < 11 - n" by arith
  show ?thesis
  proof (cases r)
    case (Inr h)
    then show ?thesis using Build_Rp \<open>7 < 11 - n\<close> rp_built_rank [of C h s] by (simp add: attempt_done_def)
  next
    case (Inl e)
    then show ?thesis using Build_Rp n
      by (cases "next_attempt n e") (auto simp: attempt_done_def ret_def waits_def dest: next_attempt_bound)
  qed
next
  case (Build_Ip n)
  have n: "n < 4" using assms Build_Ip by (simp add: waits_def)
  then have "2 < 6 - n" by arith
  show ?thesis
  proof (cases r)
    case (Inr h)
    then show ?thesis using Build_Ip \<open>2 < 6 - n\<close> ip_built_rank [of C w h s] by (auto simp: attempt_done_def)
  next
    case (Inl e)
    then show ?thesis using Build_Ip n
      by (cases "next_attempt n e") (auto simp: attempt_done_def ret_def waits_def dest: next_attempt_bound)
  qed
qed (use assms in \<open>simp_all add: attempt_done_def ret_def\<close>)

definition settled_now :: "hidden_client \<Rightarrow> bool" where
  "settled_now s \<longleftrightarrow> (case hcl_phase s of
      Await_Established \<Rightarrow> \<exists>r. hcl_established s = Settled r
    | Await_Ack \<Rightarrow> \<exists>r. hcl_ack s = Settled r
    | Await_Rendezvous2 \<Rightarrow> \<exists>r. hcl_rendezvous2 s = Settled r
    | _ \<Rightarrow> False)"

lemma finish_rank: "let t = snd (snd (run_open (seq (lift r s) (finish_rendezvous C)))) in waits t \<and> open_rank (hcl_phase t) \<le> 0"
  unfolding Let_def
proof (rule run_open_rank)
  fix t es
  assume "seq (lift r s) (finish_rendezvous C) = (Inr (), es, t)"
  then obtain bs es' where "finish_rendezvous C bs s = (Inr (), es', t)"
    by (auto simp: seq_def lift_def split: sum.splits prod.splits)
  then have "hcl_phase t = Connected" using finish_phase [of C bs s] by simp
  then show "waits t \<and> open_rank (hcl_phase t) \<le> 0" by (simp add: waits_def)
qed

lemma check_rank:
  assumes "waits (g s)"
  shows "let t = snd (snd (run_open (seq (lift r s) (\<lambda>status s. (case check_status status what of Some e \<Rightarrow> throw e s | None \<Rightarrow> update g s)))))
    in waits t \<and> open_rank (hcl_phase t) \<le> open_rank (hcl_phase (g s))"
  unfolding Let_def
  by (rule run_open_rank) (use assms in \<open>auto simp: seq_def lift_def ret_def throw_def update_def split: sum.splits option.splits prod.splits\<close>)

lemma resume_rank:
  assumes "waits s"
  shows "waits (snd (snd (open_resume C s))) \<and> open_rank (hcl_phase (snd (snd (open_resume C s)))) \<le> open_rank (hcl_phase s)
    \<and> (settled_now s \<longrightarrow> open_rank (hcl_phase (snd (snd (open_resume C s)))) < open_rank (hcl_phase s))"
proof (cases "settled_now s")
  case False
  then have "snd (snd (open_resume C s)) = s"
    by (auto simp: open_resume_def settled_now_def ret_def split: open_phase.splits promise.splits)
  then show ?thesis using False assms by simp
next
  case True
  then consider r where "hcl_phase s = Await_Established" "hcl_established s = Settled r"
    | r where "hcl_phase s = Await_Ack" "hcl_ack s = Settled r"
    | r where "hcl_phase s = Await_Rendezvous2" "hcl_rendezvous2 s = Settled r"
    by (auto simp: settled_now_def split: open_phase.splits)
  then show ?thesis
  proof cases
    case (1 r)
    then show ?thesis using check_rank [of "\<lambda>s. s\<lparr>hcl_phase := Build_Ip 0\<rparr>" s r "''RENDEZVOUS_ESTABLISHED returned status''"]
      by (simp add: open_resume_def Let_def waits_def)
  next
    case (2 r)
    then show ?thesis using check_rank [of "\<lambda>s. s\<lparr>hcl_rendezvous2 := Unsettled, hcl_phase := Await_Rendezvous2\<rparr>" s r "''INTRODUCE_ACK returned status''"]
      by (simp add: open_resume_def Let_def waits_def)
  next
    case (3 r)
    then show ?thesis using finish_rank [of r s C] by (simp add: open_resume_def Let_def)
  qed
qed

lemma settles_rank: "settles s t \<Longrightarrow> waits s \<Longrightarrow> waits t \<and> open_rank (hcl_phase t) = open_rank (hcl_phase s)"
  using settles_waits by (simp add: settles_def)

lemma hidden_step_settles:
  "(\<nexists>w r. ev = Attempt w r) \<Longrightarrow> ev \<noteq> Resume \<Longrightarrow> settles s (hidden_step C ev s)"
  by (cases ev) (auto simp: hidden_step_def settles_inbound settles_ops hidden_openStream_def hidden_close_def ret_def
      established_timer_def ack_timer_def rendezvous2_timer_def settles_def [of s "s\<lparr>hcl_established := p\<rparr>" for p]
      settles_def [of s "s\<lparr>hcl_ack := p\<rparr>" for p] settles_def [of s "s\<lparr>hcl_rendezvous2 := p\<rparr>" for p])

lemma hidden_step_rank:
  assumes "waits s"
  shows "waits (hidden_step C ev s) \<and> open_rank (hcl_phase (hidden_step C ev s)) \<le> open_rank (hcl_phase s)"
proof (cases "(\<exists>w r. ev = Attempt w r) \<or> ev = Resume")
  case True
  then show ?thesis using attempt_rank [OF assms] resume_rank [OF assms] by (auto simp: hidden_step_def)
next
  case False
  then show ?thesis using settles_rank [OF hidden_step_settles assms] by simp
qed

lemma hidden_run_rank:
  "waits s \<Longrightarrow> waits (hidden_run C evs s) \<and> open_rank (hcl_phase (hidden_run C evs s)) \<le> open_rank (hcl_phase s)"
proof (induction evs arbitrary: s)
  case (Cons ev evs)
  show ?case using Cons.IH [of "hidden_step C ev s"] hidden_step_rank [OF Cons.prems, of C ev] by (simp add: hidden_run_def)
qed (simp add: hidden_run_def)

lemma hidden_run_append: "hidden_run C (es @ fs) s = hidden_run C fs (hidden_run C es s)" by (simp add: hidden_run_def)

text \<open>A round in which the three timers fire, the function resumes and an attempt to build a circuit ends.\<close>

abbreviation last_round :: "intro_draws \<Rightarrow> handler res \<Rightarrow> hidden_event list" where
  "last_round w r \<equiv> [Established_Timer, Ack_Timer, Rendezvous2_Timer, Resume, Attempt w r]"

lemma timers_settle:
  assumes "waits s" "open_rank (hcl_phase s) > 0"
  shows "(\<exists>n. hcl_phase s = Build_Rp n \<or> hcl_phase s = Build_Ip n) \<or> settled_now (rendezvous2_timer (ack_timer (established_timer s)))"
  using assms by (auto simp: waits_def settled_now_def rendezvous2_timer_def ack_timer_def established_timer_def resolve_with_def
      split: open_phase.splits promise.splits)

lemma round_rank:
  assumes "waits s" "open_rank (hcl_phase s) > 0"
  shows "open_rank (hcl_phase (hidden_run C (last_round w r) s)) < open_rank (hcl_phase s)"
proof -
  let ?u = "rendezvous2_timer (ack_timer (established_timer s))"
  let ?v = "snd (snd (open_resume C ?u))"
  have u: "waits ?u" "hcl_phase ?u = hcl_phase s"
    using hidden_run_rank [OF assms(1), of C "[Established_Timer, Ack_Timer, Rendezvous2_Timer]"]
    by (simp_all add: hidden_run_def hidden_step_def rendezvous2_timer_def ack_timer_def established_timer_def)
  have run: "hidden_run C (last_round w r) s = snd (snd (attempt_done C w r ?v))" by (simp add: hidden_run_def hidden_step_def)
  note v = resume_rank [OF u(1), of C]
  note a = attempt_rank [OF v [THEN conjunct1], of C w r]
  consider "settled_now ?u" | n where "hcl_phase s = Build_Rp n \<or> hcl_phase s = Build_Ip n" using timers_settle [OF assms] by blast
  then show ?thesis
  proof cases
    case 1
    then show ?thesis using v a u(2) run by (metis le_less_trans)
  next
    case (2 n)
    then have "?v = ?u" using u(2) by (auto simp: open_resume_def ret_def)
    then show ?thesis using 2 a u(2) run by (metis (full_types))
  qed
qed

lemma rounds_rank:
  assumes "waits s"
  shows "open_rank (hcl_phase (hidden_run C (concat (map (\<lambda>(es, w, r). es @ last_round w r) ws)) s)) \<le> open_rank (hcl_phase s) - length ws"
  using assms
proof (induction ws arbitrary: s)
  case (Cons x ws)
  obtain es w r where x: "x = (es, w, r)" by (cases x)
  let ?t = "hidden_run C es s" and ?u = "hidden_run C (last_round w r) (hidden_run C es s)"
  have t: "waits ?t" "open_rank (hcl_phase ?t) \<le> open_rank (hcl_phase s)" using hidden_run_rank [OF Cons.prems, of C es] by simp_all
  have u: "waits ?u" "open_rank (hcl_phase ?u) \<le> open_rank (hcl_phase ?t)" using hidden_run_rank [OF t(1), of C "last_round w r"] by simp_all
  have "open_rank (hcl_phase ?u) \<le> open_rank (hcl_phase s) - 1"
  proof (cases "open_rank (hcl_phase ?t) = 0")
    case False
    then show ?thesis using round_rank [OF t(1), of C w r] t(2) by simp
  qed (use u(2) in simp)
  moreover have "hidden_run C (concat (map (\<lambda>(es, w, r). es @ last_round w r) (x # ws))) s
      = hidden_run C (concat (map (\<lambda>(es, w, r). es @ last_round w r) ws)) ?u"
    by (simp only: x list.map concat.simps case_prod_conv hidden_run_append append_assoc)
  ultimately show ?case using Cons.IH [OF u(1)] by simp
qed (simp add: hidden_run_def)

text \<open>C25. Opening a hidden service comes to an end: if the three timers keep firing and no attempt to build a circuit hangs, then after
  eleven rounds the promise has been resolved or rejected, whatever cells arrive in between, in whatever order and whatever
  they say. (Four attempts for each of the two circuits and the three awaits make eleven.)\<close>

theorem open_ends:
  assumes "open_start C rses cookie SVC_pk descriptor = Inr s0" "length ws \<ge> 11"
  shows "(case hcl_phase (hidden_run C (concat (map (\<lambda>(es, w, r).
        es @ [Established_Timer, Ack_Timer, Rendezvous2_Timer, Resume, Attempt w r]) ws)) s0) of
      Connected \<Rightarrow> True | Not_Opened e \<Rightarrow> True | _ \<Rightarrow> False)"
proof -
  have s0: "hcl_phase s0 = Build_Rp 0" using assms(1) by (auto simp: open_start_def split: list.splits option.splits)
  then have w0: "waits s0" by (simp add: waits_def)
  let ?t = "hidden_run C (concat (map (\<lambda>(es, w, r). es @ last_round w r) ws)) s0"
  have "open_rank (hcl_phase ?t) = 0" using rounds_rank [OF w0, of C ws] assms(2) s0 by simp
  moreover have "waits ?t" using hidden_run_rank [OF w0] by blast
  ultimately show ?thesis by (auto simp: waits_def split: open_phase.splits)
qed

section \<open>An answer that comes too early\<close>

text \<open>The promise for the message of the service is made only after the acknowledgement of the introduction point has been awaited. A message
  that completes before is handled by nobody: it changes nothing, and its fragments are gone, so that the opening can only time out.\<close>

lemma early_rendezvous2_lost:
  assumes "hcl_rendezvous2 s = No_Promise" "ingest now data (hcl_reassembler s) = (Complete message, reasm)"
  shows "handleRpCircuitData now RELAY_RENDEZVOUS2 sid data s = (Inr (), [], s\<lparr>hcl_reassembler := reasm\<rparr>)"
  using assms by (simp add: handleRpCircuitData_def Let_def ret_def resolve_with_def)

end
