(* ===== verification/V2_Publisher_Props.thy ===== *)
theory V2_Publisher_Props
  imports V2_Hidden_Props
begin

text \<open>
  What the publisher of a hidden service keeps in every history: each rendezvous in its table ends in keys that it derived from an
  introduction that opened under its own keys, and each local socket belongs to such a rendezvous.
\<close>

section \<open>The invariant\<close>

text \<open>Keys of the virtual hop of a rendezvous: from an introduction for the cookie, opened with the service's keys.\<close>

definition answered :: "crypto \<Rightarrow> bytes \<Rightarrow> introduction_point \<Rightarrow> bytes \<Rightarrow> hop_keys \<Rightarrow> bool" where
  "answered C SVC_pk p cookie keys \<longleftrightarrow> (\<exists>message inner (w :: answer_draws) response k. open_introduction C p message = Some inner \<and> iin_cookie inner = cookie
     \<and> relayResponse C (adr_encSeed w) (adr_ySeed w) (iin_handshakeMessage inner) (inp_serviceEncX25519Sk p) (inp_serviceEncX25519Pk p) SVC_pk = Some response
     \<and> deriveHopKeys C (ntr_KEY_SEED response) = Inr k \<and> keys = swap_keys k)"

definition circuit_view :: "publisher \<Rightarrow> (string \<times> hop_keys list) list" where
  "circuit_view s = map (\<lambda>c. (rvc_cookieHex c, circuit_keys (hdl_circuit (rvc_handler c)))) (pub_circuits s)"

definition ends_at :: "crypto \<Rightarrow> bytes \<Rightarrow> introduction_point \<Rightarrow> string \<times> hop_keys list \<Rightarrow> bool" where
  "ends_at C SVC_pk p v \<longleftrightarrow> (\<exists>cookie ks k. v = (toHex cookie, ks @ [k]) \<and> answered C SVC_pk p cookie k)"

definition publisher_inv :: "crypto \<Rightarrow> bytes \<Rightarrow> introduction_point \<Rightarrow> publisher \<Rightarrow> bool" where
  "publisher_inv C SVC_pk p s \<longleftrightarrow>
     (\<forall>m\<in>set (pub_pending s). answered C SVC_pk p (rvp_cookie m) (rvp_keys m)) \<and>
     (\<forall>e\<in>set (pub_entries s). rve_circuit e < length (circuit_view s) \<and> ends_at C SVC_pk p (circuit_view s ! rve_circuit e)) \<and>
     (\<forall>hex e. map_get (pub_activeRendezvous s) hex = Some e \<longrightarrow>
        e < length (pub_entries s) \<and> fst (circuit_view s ! rve_circuit (pub_entries s ! e)) = hex) \<and>
     (\<forall>x\<in>set (pub_sockets s). lsk_entry x < length (pub_entries s) \<and> lsk_circuit x = rve_circuit (pub_entries s ! lsk_entry x)) \<and>
     (\<forall>e sid k. e < length (pub_entries s) \<longrightarrow> map_get (rve_tcpSockets (pub_entries s ! e)) sid = Some k \<longrightarrow>
        k < length (pub_sockets s) \<and> lsk_streamId (pub_sockets s ! k) = sid \<and> lsk_entry (pub_sockets s ! k) = e)"

lemma publisher_invI:
  assumes "\<And>m. m \<in> set (pub_pending s) \<Longrightarrow> answered C SVC_pk p (rvp_cookie m) (rvp_keys m)"
    and "\<And>e. e \<in> set (pub_entries s) \<Longrightarrow> rve_circuit e < length (circuit_view s) \<and> ends_at C SVC_pk p (circuit_view s ! rve_circuit e)"
    and "\<And>hex e. map_get (pub_activeRendezvous s) hex = Some e \<Longrightarrow>
        e < length (pub_entries s) \<and> fst (circuit_view s ! rve_circuit (pub_entries s ! e)) = hex"
    and "\<And>x. x \<in> set (pub_sockets s) \<Longrightarrow> lsk_entry x < length (pub_entries s) \<and> lsk_circuit x = rve_circuit (pub_entries s ! lsk_entry x)"
    and "\<And>e sid k. e < length (pub_entries s) \<Longrightarrow> map_get (rve_tcpSockets (pub_entries s ! e)) sid = Some k \<Longrightarrow>
        k < length (pub_sockets s) \<and> lsk_streamId (pub_sockets s ! k) = sid \<and> lsk_entry (pub_sockets s ! k) = e"
  shows "publisher_inv C SVC_pk p s"
  unfolding publisher_inv_def using assms by blast

lemma publisher_invD:
  assumes "publisher_inv C SVC_pk p s"
  shows "m \<in> set (pub_pending s) \<Longrightarrow> answered C SVC_pk p (rvp_cookie m) (rvp_keys m)"
    and "e \<in> set (pub_entries s) \<Longrightarrow> rve_circuit e < length (circuit_view s) \<and> ends_at C SVC_pk p (circuit_view s ! rve_circuit e)"
    and "map_get (pub_activeRendezvous s) hex = Some n \<Longrightarrow>
        n < length (pub_entries s) \<and> fst (circuit_view s ! rve_circuit (pub_entries s ! n)) = hex"
    and "x \<in> set (pub_sockets s) \<Longrightarrow> lsk_entry x < length (pub_entries s) \<and> lsk_circuit x = rve_circuit (pub_entries s ! lsk_entry x)"
    and "n < length (pub_entries s) \<Longrightarrow> map_get (rve_tcpSockets (pub_entries s ! n)) sid = Some k \<Longrightarrow>
        k < length (pub_sockets s) \<and> lsk_streamId (pub_sockets s ! k) = sid \<and> lsk_entry (pub_sockets s ! k) = n"
  using assms unfolding publisher_inv_def by blast+

lemma circuit_view_upd [simp]:
  "circuit_view (s\<lparr>pub_pending := a\<rparr>) = circuit_view s" "circuit_view (s\<lparr>pub_entries := b\<rparr>) = circuit_view s"
  "circuit_view (s\<lparr>pub_activeRendezvous := c\<rparr>) = circuit_view s" "circuit_view (s\<lparr>pub_sockets := d\<rparr>) = circuit_view s"
  "circuit_view (s\<lparr>pub_introduce2Reassemblers := e\<rparr>) = circuit_view s" "circuit_view (s\<lparr>pub_ip := f\<rparr>) = circuit_view s"
  "circuit_view (s\<lparr>pub_phase := g\<rparr>) = circuit_view s" "circuit_view (s\<lparr>pub_established := h\<rparr>) = circuit_view s"
  by (simp_all add: circuit_view_def)

text \<open>What most steps leave alone.\<close>

definition still :: "publisher \<Rightarrow> publisher \<Rightarrow> bool" where
  "still s t \<longleftrightarrow> pub_pending t = pub_pending s \<and> circuit_view t = circuit_view s \<and> pub_entries t = pub_entries s
     \<and> pub_activeRendezvous t = pub_activeRendezvous s \<and> pub_sockets t = pub_sockets s"

lemma still_refl [simp]: "still s s" by (simp add: still_def)

lemma still_trans: "still s t \<Longrightarrow> still t u \<Longrightarrow> still s u" by (simp add: still_def)

lemma still_inv: "publisher_inv C SVC_pk p s \<Longrightarrow> still s t \<Longrightarrow> publisher_inv C SVC_pk p t" by (simp add: publisher_inv_def still_def)

section \<open>Sending and receiving on the circuits\<close>

lemma pub_send_keys: "circuit_keys (hdl_circuit (snd (snd (pub_send cell C cmd sid data h)))) = circuit_keys (hdl_circuit h)"
  using sendForward_keys [of cell C cmd sid data "\<lparr>ccl_circuit = hdl_circuit h\<rparr>"]
  by (cases "sendForward cell C cmd sid data \<lparr>ccl_circuit = hdl_circuit h\<rparr>") (simp add: pub_send_def)

lemma on_circuit_still:
  assumes "circuit_keys (hdl_circuit (f (rvc_handler (pub_circuits s ! k)))) = circuit_keys (hdl_circuit (rvc_handler (pub_circuits s ! k)))"
  shows "still s (on_circuit k f s)"
proof -
  have "circuit_view (on_circuit k f s) = circuit_view s"
  proof (rule nth_equalityI)
    fix i
    assume "i < length (circuit_view (on_circuit k f s))"
    then show "circuit_view (on_circuit k f s) ! i = circuit_view s ! i"
      using assms by (cases "i = k") (auto simp: circuit_view_def on_circuit_def)
  qed (simp add: circuit_view_def on_circuit_def)
  then show ?thesis by (simp add: still_def on_circuit_def)
qed

lemma send_rendezvous_still: "still s (snd (snd (send_rendezvous C k cmd sid data s)))"
proof -
  obtain r es h where h: "pub_send (Rendezvous_Cell k) C cmd sid data (rvc_handler (pub_circuits s ! k)) = (r, es, h)" by (cases "pub_send (Rendezvous_Cell k) C cmd sid data (rvc_handler (pub_circuits s ! k))")
  have "circuit_keys (hdl_circuit h) = circuit_keys (hdl_circuit (rvc_handler (pub_circuits s ! k)))"
    using pub_send_keys [of "Rendezvous_Cell k" C cmd sid data "rvc_handler (pub_circuits s ! k)"] h by simp
  then show ?thesis using h on_circuit_still [of "\<lambda>_. h" s k] by (simp add: send_rendezvous_def)
qed

abbreviation stays :: "publisher \<Rightarrow> ('a, publisher_effect, publisher) effectful \<Rightarrow> bool" where
  "stays s \<equiv> sound (still s) (\<lambda>_. True)"

lemma send_stays: "still s t \<Longrightarrow> stays s (send_rendezvous C k cmd sid data t)"
  by (rule sound_any) (rule still_trans [OF _ send_rendezvous_still])

lemma send_intro_still: "still s (snd (snd (send_intro C cmd data s)))"
  by (auto simp: send_intro_def throw_def still_def circuit_view_def split: option.splits prod.splits)

lemma stays_inv: "publisher_inv C SVC_pk p s \<Longrightarrow> stays s a \<Longrightarrow> publisher_inv C SVC_pk p (snd (snd a))"
  by (auto simp: sound_def intro: still_inv)

lemma soundD: "sound I E a \<Longrightarrow> I (snd (snd a))" by (simp add: sound_def)

section \<open>Each operation\<close>

lemma handleIntroduce2_inv:
  assumes "publisher_inv C SVC_pk p s"
  shows "publisher_inv C SVC_pk p (snd (snd (handleIntroduce2 C rses SVC_pk p w now sid data s)))"
proof -
  have r: "publisher_inv C SVC_pk p (s\<lparr>pub_introduce2Reassemblers := m\<rparr>)" for m
    by (rule still_inv [OF assms]) (simp add: still_def circuit_view_def)
  have a: "publisher_inv C SVC_pk p (s\<lparr>pub_introduce2Reassemblers := m, pub_pending := pub_pending s @ [pending]\<rparr>)"
    if "open_introduction C p message = Some inner" "begin_rendezvous C rses SVC_pk p w inner = Inr pending" for m message inner pending
  proof -
    have "answered C SVC_pk p (rvp_cookie pending) (rvp_keys pending)"
      using that unfolding begin_rendezvous_def answered_def by (fastforce split: option.splits sum.splits)
    then show ?thesis using assms by (auto simp: publisher_inv_def)
  qed
  show ?thesis
    by (auto simp: handleIntroduce2_def Let_def ret_def emit_def r a split: option.splits sum.splits prod.splits ingested.splits)
qed

lemma intro_data_inv:
  "publisher_inv C SVC_pk p s \<Longrightarrow> publisher_inv C SVC_pk p (snd (snd (pub_handleIpCircuitData C rses SVC_pk p w now cmd sid data s)))"
  by (auto simp: pub_handleIpCircuitData_def ret_def handleIntroduce2_inv still_def circuit_view_def intro: still_inv)

lemma pub_calls_inv:
  "(\<And>cmd sid data s. I s \<Longrightarrow> I (snd (snd (f cmd sid data s)))) \<Longrightarrow> I s \<Longrightarrow> I (snd (snd (pub_data_calls f es s)))"
proof (induction f es s rule: pub_data_calls.induct)
  case (2 f i cmd sid data es s)
  obtain r fs t where t: "f cmd sid data s = (r, fs, t)" by (cases "f cmd sid data s")
  have "I t" using 2(2) [OF 2(3), of cmd sid data] t by simp
  then have "I (snd (snd (pub_data_calls f es t)))" using 2 by blast
  then show ?case using t by (auto simp: seq_def swallow_def split: prod.splits)
qed (auto simp: ret_def)

lemma intro_inbound_inv:
  assumes "publisher_inv C SVC_pk p s"
  shows "publisher_inv C SVC_pk p (snd (snd (pub_intro_inbound C rses SVC_pk p w now c s)))"
proof -
  have "publisher_inv C SVC_pk p (s\<lparr>pub_ip := h\<rparr>)" for h by (rule still_inv [OF assms]) (simp add: still_def circuit_view_def)
  then show ?thesis using assms
    by (auto simp: pub_intro_inbound_def ret_def split: option.splits prod.splits intro!: pub_calls_inv [where I = "publisher_inv C SVC_pk p"] intro_data_inv)
qed

text \<open>The circuit of a rendezvous joins the table with its virtual hop on.\<close>

lemma publisher_inv_new_circuit:
  assumes "publisher_inv C SVC_pk p s"
  shows "publisher_inv C SVC_pk p (s\<lparr>pub_pending := take i (pub_pending s) @ drop (Suc i) (pub_pending s), pub_circuits := pub_circuits s @ [c]\<rparr>)"
proof -
  have v: "circuit_view (s\<lparr>pub_pending := m, pub_circuits := pub_circuits s @ [c]\<rparr>) = circuit_view s @ [(rvc_cookieHex c, circuit_keys (hdl_circuit (rvc_handler c)))]" for m
    by (simp add: circuit_view_def)
  have n: "rve_circuit (pub_entries s ! e) < length (circuit_view s)" if "e < length (pub_entries s)" for e
    using assms that by (auto simp: publisher_inv_def)
  show ?thesis
    using assms n unfolding publisher_inv_def v
    by (auto simp: nth_append dest: in_set_takeD in_set_dropD)
qed

lemma publisher_inv_new_entry:
  assumes "publisher_inv C SVC_pk p s" "k < length (circuit_view s)" "circuit_view s ! k = (toHex cookie, ks @ [key])" "answered C SVC_pk p cookie key"
  shows "publisher_inv C SVC_pk p (s\<lparr>pub_activeRendezvous := map_set (toHex cookie) (length (pub_entries s)) (pub_activeRendezvous s),
    pub_entries := pub_entries s @ [\<lparr>rve_circuit = k, rve_tcpSockets = []\<rparr>]\<rparr>)"
proof -
  have "ends_at C SVC_pk p (circuit_view s ! k)" using assms by (auto simp: ends_at_def)
  then show ?thesis
    using assms unfolding publisher_inv_def
    by (auto simp: jm.get_put nth_append less_Suc_eq split: if_splits)
qed

lemma rendezvous_circuit_built_inv:
  assumes "publisher_inv C SVC_pk p s" "i < length (pub_pending s)"
  shows "publisher_inv C SVC_pk p (snd (snd (rendezvous_circuit_built C handshakeId i h s)))"
proof -
  let ?m = "pub_pending s ! i" and ?k = "length (pub_circuits s)"
  let ?s = "s\<lparr>pub_pending := take i (pub_pending s) @ drop (Suc i) (pub_pending s),
    pub_circuits := pub_circuits s @ [\<lparr>rvc_cookieHex = toHex (rvp_cookie ?m), rvc_handler = h\<rparr>]\<rparr>"
  have m: "answered C SVC_pk p (rvp_cookie ?m) (rvp_keys ?m)" using assms by (auto simp: publisher_inv_def)
  have s: "publisher_inv C SVC_pk p ?s" by (rule publisher_inv_new_circuit [OF assms(1)])
  let ?J = "still ?s" and ?I = "publisher_inv C SVC_pk p"
  have l: "?J t \<Longrightarrow> sound ?J (\<lambda>_. True) (lift x t)" for x :: "'a res" and t by (rule sound_any) (simp add: lift_def)
  have e: "?I ((on_circuit ?k (\<lambda>h. h\<lparr>hdl_circuit := c\<rparr>) t)\<lparr>pub_activeRendezvous := map_set (toHex (rvp_cookie ?m)) (length (pub_entries t)) (pub_activeRendezvous t),
      pub_entries := pub_entries t @ [\<lparr>rve_circuit = ?k, rve_tcpSockets = []\<rparr>]\<rparr>)"
    if t: "?J t" and c: "addHop (hdl_circuit (rvc_handler (pub_circuits t ! ?k))) (rvp_keys ?m) = Inr c" for t c
  proof -
    let ?u = "on_circuit ?k (\<lambda>h. h\<lparr>hdl_circuit := c\<rparr>) t"
    have cv: "circuit_view t = circuit_view ?s" using t unfolding still_def by blast
    have len: "length (pub_circuits t) = Suc ?k" using arg_cong [where f = length, OF cv] by (simp add: circuit_view_def)
    have hex: "rvc_cookieHex (pub_circuits t ! ?k) = toHex (rvp_cookie ?m)"
      using arg_cong [where f = "\<lambda>v. fst (v ! ?k)", OF cv] len by (simp add: circuit_view_def nth_append)
    have keys: "circuit_keys c = circuit_keys (hdl_circuit (rvc_handler (pub_circuits t ! ?k))) @ [rvp_keys ?m]" by (rule addHop_keys [OF c])
    have v: "circuit_view ?u = (circuit_view t)[?k := (toHex (rvp_cookie ?m), circuit_keys c)]"
      using len hex by (intro nth_equalityI) (auto simp: circuit_view_def on_circuit_def nth_list_update)
    have ti: "?I t" by (rule still_inv [OF s t])
    have old: "rve_circuit x < ?k" if "x \<in> set (pub_entries t)" for x
      using assms(1) t that by (auto simp: publisher_inv_def still_def circuit_view_def)
    have f: "pub_entries ?u = pub_entries t" "pub_pending ?u = pub_pending t" "pub_activeRendezvous ?u = pub_activeRendezvous t" "pub_sockets ?u = pub_sockets t"
      by (simp_all add: on_circuit_def)
    have "?I ?u"
    proof (rule publisher_invI, unfold v f)
      fix x
      assume "x \<in> set (pub_entries t)"
      then show "rve_circuit x < length ((circuit_view t)[?k := (toHex (rvp_cookie ?m), circuit_keys c)])
          \<and> ends_at C SVC_pk p ((circuit_view t)[?k := (toHex (rvp_cookie ?m), circuit_keys c)] ! rve_circuit x)"
        using publisher_invD(2) [OF ti, of x] old [of x] by (simp add: nth_list_update_neq)
    next
      fix hex n
      assume "map_get (pub_activeRendezvous t) hex = Some n"
      then show "n < length (pub_entries t) \<and> fst ((circuit_view t)[?k := (toHex (rvp_cookie ?m), circuit_keys c)] ! rve_circuit (pub_entries t ! n)) = hex"
        using publisher_invD(3) [OF ti, of hex n] old [of "pub_entries t ! n"] by simp
    qed (use publisher_invD [OF ti] in blast)+
    moreover have "?k < length (circuit_view ?u)" using len by (simp add: circuit_view_def on_circuit_def)
    moreover have "circuit_view ?u ! ?k = (toHex (rvp_cookie ?m), circuit_keys (hdl_circuit (rvc_handler (pub_circuits t ! ?k))) @ [rvp_keys ?m])"
      using len keys unfolding v by (simp add: circuit_view_def)
    ultimately show ?thesis using publisher_inv_new_entry [OF _ _ _ m, of ?u ?k] unfolding f by blast
  qed
  have last_step: "sound ?I (\<lambda>_. True) (seq (lift (addHop (hdl_circuit (rvc_handler (pub_circuits t ! ?k))) (rvp_keys ?m)) t) (\<lambda>circuit.
           update (\<lambda>s. (on_circuit ?k (\<lambda>h. h\<lparr>hdl_circuit := circuit\<rparr>) s)
             \<lparr>pub_activeRendezvous := map_set (toHex (rvp_cookie ?m)) (length (pub_entries s)) (pub_activeRendezvous s),
              pub_entries := pub_entries s @ [\<lparr>rve_circuit = ?k, rve_tcpSockets = []\<rparr>]\<rparr>)))" if "?J t" for t
  proof (cases "addHop (hdl_circuit (rvc_handler (pub_circuits t ! ?k))) (rvp_keys ?m)")
    case (Inl x)
    then show ?thesis using still_inv [OF s that] by (simp add: lift_def seq_def sound_def)
  next
    case (Inr c)
    then show ?thesis using e [OF that Inr] by (simp add: lift_def seq_def sound_def update_def)
  qed
  have to: "?J t \<Longrightarrow> ?I t" for t by (rule still_inv [OF s])
  have j: "stays ?s (for_each (send_rendezvous C ?k RELAY_RENDEZVOUS1 0) fs t)" if "?J t" for fs t
    by (rule sound_for_each) (use that in \<open>auto intro: send_stays\<close>)
  show ?thesis
    unfolding rendezvous_circuit_built_def Let_def swallow_state
    apply (rule soundD)
    apply (rule sound_seq [OF l])
      apply simp
     apply (rule sound_seq [OF l])
       apply assumption
      apply (rule sound_seq [OF j])
        apply assumption
       apply (rule last_step)
       apply assumption
      apply (erule to)
     apply (erule to)
    apply (erule to)
    done
qed

lemma build_done_inv:
  assumes "publisher_inv C SVC_pk p s"
  shows "publisher_inv C SVC_pk p (snd (snd (rendezvous_build_done C handshakeId i r s)))"
proof -
  have "publisher_inv C SVC_pk p (s\<lparr>pub_pending := take i (pub_pending s) @ drop (Suc i) (pub_pending s)\<rparr>)"
    using assms by (auto simp: publisher_inv_def dest: in_set_takeD in_set_dropD)
  then show ?thesis
    using assms rendezvous_circuit_built_inv [OF assms] by (auto simp: rendezvous_build_done_def ret_def split: sum.splits)
qed

text \<open>A step that only changes which sockets an entry lists.\<close>

lemma publisher_inv_sockets:
  assumes "publisher_inv C SVC_pk p s" and v: "circuit_view t = circuit_view s" and a: "pub_activeRendezvous t = pub_activeRendezvous s"
    and "pub_pending t = pub_pending s" and en: "map rve_circuit (pub_entries t) = map rve_circuit (pub_entries s)"
    and so: "\<And>x. x \<in> set (pub_sockets t) \<Longrightarrow> lsk_entry x < length (pub_entries s) \<and> lsk_circuit x = rve_circuit (pub_entries s ! lsk_entry x)"
    and ts: "\<And>e sid k. e < length (pub_entries s) \<Longrightarrow> map_get (rve_tcpSockets (pub_entries t ! e)) sid = Some k \<Longrightarrow>
        k < length (pub_sockets t) \<and> lsk_streamId (pub_sockets t ! k) = sid \<and> lsk_entry (pub_sockets t ! k) = e"
  shows "publisher_inv C SVC_pk p t"
proof (rule publisher_invI)
  have len: "length (pub_entries t) = length (pub_entries s)" using arg_cong [where f = length, OF en] by simp
  have c: "rve_circuit (pub_entries t ! n) = rve_circuit (pub_entries s ! n)" if "n < length (pub_entries s)" for n
    using arg_cong [where f = "\<lambda>xs. xs ! n", OF en] that len by simp
  show "answered C SVC_pk p (rvp_cookie m) (rvp_keys m)" if "m \<in> set (pub_pending t)" for m
    using publisher_invD(1) [OF assms(1)] that assms(4) by simp
  show "rve_circuit x < length (circuit_view t) \<and> ends_at C SVC_pk p (circuit_view t ! rve_circuit x)" if x: "x \<in> set (pub_entries t)" for x
  proof -
    obtain n where n: "n < length (pub_entries s)" "x = pub_entries t ! n" using x len by (auto simp: in_set_conv_nth)
    show ?thesis using publisher_invD(2) [OF assms(1) nth_mem [OF n(1)]] c [OF n(1)] unfolding v n(2) by simp
  qed
  show "n < length (pub_entries t) \<and> fst (circuit_view t ! rve_circuit (pub_entries t ! n)) = hex" if "map_get (pub_activeRendezvous t) hex = Some n" for hex n
    using publisher_invD(3) [OF assms(1) that [unfolded a]] c [of n] unfolding v len by simp
  show "lsk_entry x < length (pub_entries t) \<and> lsk_circuit x = rve_circuit (pub_entries t ! lsk_entry x)" if "x \<in> set (pub_sockets t)" for x
    using so [OF that] c [of "lsk_entry x"] unfolding len by simp
  show "k < length (pub_sockets t) \<and> lsk_streamId (pub_sockets t ! k) = sid \<and> lsk_entry (pub_sockets t ! k) = e"
    if "e < length (pub_entries t)" "map_get (rve_tcpSockets (pub_entries t ! e)) sid = Some k" for e sid k
    by (rule ts [OF that(1) [unfolded len] that(2)])
qed

lemma on_entry_parts:
  assumes "e < length (pub_entries s)"
  shows "n < length (pub_entries s) \<Longrightarrow> pub_entries (on_entry e f s) ! n = (if n = e then f (pub_entries s ! e) else pub_entries s ! n)"
    and "rve_circuit (f (pub_entries s ! e)) = rve_circuit (pub_entries s ! e) \<Longrightarrow>
      map rve_circuit (pub_entries (on_entry e f s)) = map rve_circuit (pub_entries s)"
  using assms by (auto simp: on_entry_def map_update list_update_same_conv)

lemma publisher_inv_begin:
  assumes "publisher_inv C SVC_pk p s" "e < length (pub_entries s)"
  shows "publisher_inv C SVC_pk p (on_entry e (\<lambda>x. x\<lparr>rve_tcpSockets := map_set sid (length (pub_sockets s)) (rve_tcpSockets x)\<rparr>)
    (s\<lparr>pub_sockets := pub_sockets s @ [\<lparr>lsk_circuit = rve_circuit (pub_entries s ! e), lsk_streamId = sid, lsk_entry = e\<rparr>]\<rparr>))"
    (is "publisher_inv _ _ _ (on_entry e ?f ?s)")
proof (rule publisher_inv_sockets [OF assms(1)])
  have e: "e < length (pub_entries ?s)" using assms(2) by simp
  have so: "pub_sockets (on_entry e ?f ?s) = pub_sockets s @ [\<lparr>lsk_circuit = rve_circuit (pub_entries s ! e), lsk_streamId = sid, lsk_entry = e\<rparr>]"
    by (simp add: on_entry_def)
  show "map rve_circuit (pub_entries (on_entry e ?f ?s)) = map rve_circuit (pub_entries s)"
    using on_entry_parts(2) [OF e, of ?f] by simp
  show "lsk_entry x < length (pub_entries s) \<and> lsk_circuit x = rve_circuit (pub_entries s ! lsk_entry x)"
    if "x \<in> set (pub_sockets (on_entry e ?f ?s))" for x
    using that publisher_invD(4) [OF assms(1), of x] assms(2) unfolding so by auto
  show "k < length (pub_sockets (on_entry e ?f ?s)) \<and> lsk_streamId (pub_sockets (on_entry e ?f ?s) ! k) = i \<and> lsk_entry (pub_sockets (on_entry e ?f ?s) ! k) = n"
    if "n < length (pub_entries s)" "map_get (rve_tcpSockets (pub_entries (on_entry e ?f ?s) ! n)) i = Some k" for n i k
    using publisher_invD(5) [OF assms(1) that(1), of i k] that(2) on_entry_parts(1) [OF e, of n ?f] that(1) unfolding so
    by (auto simp: jm.get_put nth_append split: if_splits)
qed (simp_all add: on_entry_def)

lemma publisher_inv_drop:
  assumes "publisher_inv C SVC_pk p s"
  shows "publisher_inv C SVC_pk p (drop_local e sid s)"
proof (cases "e < length (pub_entries s)")
  case True
  let ?f = "\<lambda>x. x\<lparr>rve_tcpSockets := map_delete sid (rve_tcpSockets x)\<rparr>"
  have "publisher_inv C SVC_pk p (on_entry e ?f s)"
  proof (rule publisher_inv_sockets [OF assms])
    show "map rve_circuit (pub_entries (on_entry e ?f s)) = map rve_circuit (pub_entries s)" by (rule on_entry_parts(2) [OF True]) simp
    show "lsk_entry x < length (pub_entries s) \<and> lsk_circuit x = rve_circuit (pub_entries s ! lsk_entry x)"
      if "x \<in> set (pub_sockets (on_entry e ?f s))" for x
      using that publisher_invD(4) [OF assms, of x] by (simp add: on_entry_def)
    show "k < length (pub_sockets (on_entry e ?f s)) \<and> lsk_streamId (pub_sockets (on_entry e ?f s) ! k) = i \<and> lsk_entry (pub_sockets (on_entry e ?f s) ! k) = n"
      if "n < length (pub_entries s)" "map_get (rve_tcpSockets (pub_entries (on_entry e ?f s) ! n)) i = Some k" for n i k
    proof -
      have "map_get (rve_tcpSockets (pub_entries s ! n)) i = Some k"
        using that(2) on_entry_parts(1) [OF True that(1), of ?f] by (auto simp: jm.get_del split: if_splits)
      then show ?thesis using publisher_invD(5) [OF assms that(1)] by (simp add: on_entry_def)
    qed
  qed (simp_all add: on_entry_def)
  then show ?thesis by (simp add: drop_local_def)
next
  case False
  then show ?thesis using assms by (simp add: drop_local_def on_entry_def list_update_beyond)
qed

lemma rendezvous_data_inv:
  assumes "publisher_inv C SVC_pk p s"
  shows "publisher_inv C SVC_pk p (snd (snd (handleRendezvousCircuitData hex cmd sid data s)))"
proof (cases "map_get (pub_activeRendezvous s) hex")
  case (Some e)
  have "e < length (pub_entries s)" using assms Some by (auto simp: publisher_inv_def)
  then show ?thesis using Some assms
    by (auto simp: handleRendezvousCircuitData_def Let_def emit_def ret_def publisher_inv_begin publisher_inv_drop split: option.splits)
qed (simp add: handleRendezvousCircuitData_def ret_def assms)

lemma rendezvous_inbound_inv:
  assumes "publisher_inv C SVC_pk p s"
  shows "publisher_inv C SVC_pk p (snd (snd (pub_rendezvous_inbound C now k c s)))"
proof (cases "k < length (pub_circuits s)")
  case True
  obtain r es h where h: "handler_onCell C now c (rvc_handler (pub_circuits s ! k)) = (r, es, h)"
    by (cases "handler_onCell C now c (rvc_handler (pub_circuits s ! k))")
  have "still s (on_circuit k (\<lambda>_. h) s)"
    using onCell_keys [of C now c "rvc_handler (pub_circuits s ! k)"] h by (intro on_circuit_still) simp
  then have "publisher_inv C SVC_pk p (on_circuit k (\<lambda>_. h) s)" by (rule still_inv [OF assms])
  then show ?thesis using True h
    by (simp add: pub_rendezvous_inbound_def pub_calls_inv [where I = "publisher_inv C SVC_pk p"] rendezvous_data_inv)
qed (simp add: pub_rendezvous_inbound_def ret_def assms)

lemma on_local_inv:
  assumes "publisher_inv C SVC_pk p s"
  shows "publisher_inv C SVC_pk p (snd (snd (on_local C sock ev s)))"
proof -
  let ?I = "publisher_inv C SVC_pk p" and ?x = "pub_sockets s ! sock"
  have b: "sound ?I (\<lambda>_. True) (send_rendezvous C k cmd sid data t)" if "?I t" for k cmd sid data t
    by (rule sound_any) (rule still_inv [OF that send_rendezvous_still])
  have e: "sound ?I (\<lambda>_. True) (seq (send_rendezvous C k cmd sid data s) (\<lambda>_. update (drop_local e sid)))" for k cmd sid data e
    by (rule sound_seq [where J = ?I]) (auto intro!: b assms sound_steps publisher_inv_drop)
  have "sound ?I (\<lambda>_. True) (send_chunks (send_rendezvous C k cmd sid) chunk 0 s)" for k cmd sid chunk
    by (rule send_chunks_sound) (auto intro: b assms)
  then have "sound ?I (\<lambda>_. True) (on_local C sock ev s)"
    by (cases ev) (auto simp: on_local_def Let_def intro!: b e assms)
  then show ?thesis by (rule soundD)
qed

lemma intro_built_inv:
  assumes "publisher_inv C SVC_pk p s"
  shows "publisher_inv C SVC_pk p (snd (snd (intro_built C p' now r s)))"
proof -
  have st: "still s (t\<lparr>pub_phase := q\<rparr>)" if "still s t" for t q using that by (simp add: still_def)
  have "still s (snd (snd (intro_built C p' now r s)))"
  proof (cases r)
    case (Inl e)
    then show ?thesis by (simp add: intro_built_def ret_def still_def)
  next
    case (Inr h)
    let ?a = "seq (lift (buildEstablishIntro C (inp_serviceIntroPk p') (inp_serviceIntroSk p') (inp_fingerprint p') now) (s\<lparr>pub_ip := Some h\<rparr>))
                    (\<lambda>payload s. send_intro C RELAY_ESTABLISH_INTRO payload (s\<lparr>pub_established := Unsettled\<rparr>))"
    have i: "still s (s\<lparr>pub_ip := Some h\<rparr>)" "still s t \<Longrightarrow> still s (t\<lparr>pub_established := Unsettled\<rparr>)" for t by (simp_all add: still_def)
    have l: "stays s (lift (buildEstablishIntro C (inp_serviceIntroPk p') (inp_serviceIntroSk p') (inp_fingerprint p') now) (s\<lparr>pub_ip := Some h\<rparr>))"
      by (rule sound_any) (simp add: lift_def i)
    have a: "stays s ?a"
      by (rule sound_seq [OF l]) (auto intro!: sound_any intro: still_trans [OF i(2) send_intro_still])
    obtain q es t where t: "?a = (q, es, t)" by (cases ?a)
    have "still s t" using a t by (simp add: sound_def)
    then show ?thesis using t Inr st by (auto simp: intro_built_def ret_def split: sum.splits)
  qed
  then show ?thesis by (rule still_inv [OF assms])
qed

lemma stop_inv:
  assumes "publisher_inv C SVC_pk p s"
  shows "publisher_inv C SVC_pk p (snd (snd (publisher_stop s)))"
proof -
  have "publisher_inv C SVC_pk p (t\<lparr>pub_activeRendezvous := [], pub_introduce2Reassemblers := []\<rparr>)" if "publisher_inv C SVC_pk p t" for t
    using that by (simp add: publisher_inv_def)
  then show ?thesis unfolding publisher_stop_def
    by (intro soundD [where E = "\<lambda>_. True"] sound_seq [where J = "publisher_inv C SVC_pk p"] sound_for_each sound_steps assms) auto
qed

section \<open>Every history\<close>

lemma publisher_step_inv:
  assumes "publisher_inv C SVC_pk p s"
  shows "publisher_inv C SVC_pk p (snd (snd (publisher_step C rses SVC_pk p ev s)))"
proof -
  have q: "publisher_inv C SVC_pk p t" if "still s t" for t by (rule still_inv [OF assms that])
  show ?thesis
  proof (cases ev)
    case Start
    then show ?thesis using assms q [of "s\<lparr>pub_phase := Build_Intro\<rparr>"] by (simp add: publisher_step_def emit_def ret_def still_def)
  next
    case Intro_Timer
    then show ?thesis using q [of "intro_timer s"] by (simp add: publisher_step_def ret_def intro_timer_def still_def)
  next
    case Start_Resume
    have "still s (start_resume s)" by (auto simp: start_resume_def still_def split: start_phase.splits promise.splits sum.splits option.splits)
    then show ?thesis using Start_Resume q by (simp add: publisher_step_def ret_def)
  qed (use assms in \<open>auto simp: publisher_step_def ret_def intro_built_inv intro_inbound_inv build_done_inv rendezvous_inbound_inv on_local_inv stop_inv\<close>)
qed

lemma publisher_run_inv: "publisher_inv C SVC_pk p s \<Longrightarrow> publisher_inv C SVC_pk p (snd (publisher_run C rses SVC_pk p evs s))"
proof (induction evs arbitrary: s)
  case (Cons ev evs)
  obtain r es t where t: "publisher_step C rses SVC_pk p ev s = (r, es, t)" by (cases "publisher_step C rses SVC_pk p ev s")
  have "publisher_inv C SVC_pk p t" using publisher_step_inv [OF Cons.prems, of rses ev] t by simp
  obtain fs u where u: "publisher_run C rses SVC_pk p evs t = (fs, u)" by (cases "publisher_run C rses SVC_pk p evs t")
  show ?case using Cons.IH [OF \<open>publisher_inv C SVC_pk p t\<close>] t u by simp
qed simp

lemma publisher_start_inv: "publisher_inv C SVC_pk p createServicePublisher"
  by (simp add: publisher_inv_def createServicePublisher_def)

lemma publisher_inv_tables:
  assumes "publisher_inv C SVC_pk p s"
  shows "let s = s in
    (\<forall>hex. case map_get (pub_activeRendezvous s) hex of None \<Rightarrow> True
      | Some e \<Rightarrow> e < length (pub_entries s) \<and> fst (circuit_view s ! rve_circuit (pub_entries s ! e)) = hex
          \<and> ends_at C SVC_pk p (circuit_view s ! rve_circuit (pub_entries s ! e))
          \<and> (\<forall>sid. case map_get (rve_tcpSockets (pub_entries s ! e)) sid of None \<Rightarrow> True
              | Some k \<Rightarrow> k < length (pub_sockets s) \<and> lsk_streamId (pub_sockets s ! k) = sid \<and> lsk_entry (pub_sockets s ! k) = e)) \<and>
    list_all (\<lambda>x. lsk_circuit x < length (pub_circuits s) \<and> ends_at C SVC_pk p (circuit_view s ! lsk_circuit x)) (pub_sockets s)"
proof -
  have e: "rve_circuit (pub_entries s ! n) < length (circuit_view s) \<and> ends_at C SVC_pk p (circuit_view s ! rve_circuit (pub_entries s ! n))"
    if "n < length (pub_entries s)" for n
    by (rule publisher_invD(2) [OF assms nth_mem [OF that]])
  have l: "length (circuit_view s) = length (pub_circuits s)" by (simp add: circuit_view_def)
  have t: "case map_get (rve_tcpSockets (pub_entries s ! e)) sid of None \<Rightarrow> True
      | Some k \<Rightarrow> k < length (pub_sockets s) \<and> lsk_streamId (pub_sockets s ! k) = sid \<and> lsk_entry (pub_sockets s ! k) = e"
    if "e < length (pub_entries s)" for e sid
    using publisher_invD(5) [OF assms that, of sid] by (simp split: option.split)
  show ?thesis
    unfolding Let_def list_all_iff using e t publisher_invD(3,4) [OF assms] l by (simp split: option.split)
qed

text \<open>C26. Whatever reaches the publisher of a hidden service, each rendezvous in its table belongs to a circuit whose far end holds the
  keys that the publisher derived, with its own keys, from an introduction for that very cookie, with the two directions
  swapped; and every local socket that it ever opened belongs to such a circuit, as do the sockets in the tables of streams, each
  under its own stream.\<close>

theorem publisher_sound:
  "let s = snd (publisher_run C rses SVC_pk p evs createServicePublisher) in
    (\<forall>hex. case map_get (pub_activeRendezvous s) hex of None \<Rightarrow> True
      | Some e \<Rightarrow> e < length (pub_entries s) \<and> fst (circuit_view s ! rve_circuit (pub_entries s ! e)) = hex
          \<and> ends_at C SVC_pk p (circuit_view s ! rve_circuit (pub_entries s ! e))
          \<and> (\<forall>sid. case map_get (rve_tcpSockets (pub_entries s ! e)) sid of None \<Rightarrow> True
              | Some k \<Rightarrow> k < length (pub_sockets s) \<and> lsk_streamId (pub_sockets s ! k) = sid \<and> lsk_entry (pub_sockets s ! k) = e)) \<and>
    list_all (\<lambda>x. lsk_circuit x < length (pub_circuits s) \<and> ends_at C SVC_pk p (circuit_view s ! lsk_circuit x)) (pub_sockets s)"
  by (rule publisher_inv_tables [OF publisher_run_inv [OF publisher_start_inv]])

text \<open>The publisher does not remember the introductions that it has answered: the same message, delivered again, makes it build
  another circuit to the same rendezvous point for the same cookie.\<close>

lemma replayed_introduction:
  assumes "ingest now data defaultReassembler = (Complete message, reasm)" "open_introduction C p message = Some inner"
    and "begin_rendezvous C rses SVC_pk p w inner = Inr pending" "map_get (pub_introduce2Reassemblers s) sid = None"
  obtains t where "handleIntroduce2 C rses SVC_pk p w now sid data s = (Inr (), [Build_Circuit_To (rse_fingerprint (rvp_rp pending))], t)"
    "pub_pending t = pub_pending s @ [pending]" "map_get (pub_introduce2Reassemblers t) sid = None"
  using assms by (simp add: handleIntroduce2_def Let_def emit_def jm.get_del)

end
