(* ===== verification/V2_Hidden_Open.thy ===== *)
theory V2_Hidden_Open
  imports V2_Publisher_Props
begin

text \<open>
  Opening a hidden service succeeds: a run of the client against a rendezvous point, an introduction point and a service that
  answer as they should; and the instances of the theorems on hidden services.
\<close>

section \<open>Circuits of one hop\<close>

text \<open>The circuits of the run end at their first relay.\<close>

definition ready :: "handler \<Rightarrow> bool" where
  "ready h \<longleftrightarrow> (\<exists>b. cct_hops (hdl_circuit h) = [b] \<and> length (chp_Kf b) = 32 \<and> length (chp_Kb b) = 32)
     \<and> 0 \<le> cct_circuitId (hdl_circuit h) \<and> cct_circuitId (hdl_circuit h) \<le> 0xFFFFFFFF \<and> hdl_state h \<noteq> St_Closed"

lemma ready_sends:
  assumes "hash_ok C" "ready h" "length data \<le> 499"
  shows "\<exists>es h'. send_on cell C cmd data h = (Inr (), es, h') \<and> ready h'"
proof -
  obtain b where b: "cct_hops (hdl_circuit h) = [b]" "length (chp_Kf b) = 32" "length (chp_Kb b) = 32"
    using assms(2) by (auto simp: ready_def)
  obtain p dg where s: "sendForward cell C cmd 0 data \<lparr>ccl_circuit = hdl_circuit h\<rparr>
      = (Inr (), [cell (cell_bytes 2 (nat (cct_circuitId (hdl_circuit h))) 3 (foldr (layers C) (fwd_keys [b]) p))],
         \<lparr>ccl_circuit = (hdl_circuit h)\<lparr>cct_hops := map bump_fwd [b\<lparr>chp_forwardDigest := dg\<rparr>]\<rparr>\<rparr>)"
    using sendForward_spec [OF assms(1), of "[]" b "hdl_circuit h" data 0 cmd cell] assms b by (auto simp: ready_def)
  then show ?thesis using assms(2) b by (simp add: send_on_def ready_def bump_fwd_def)
qed

lemma ready_receives:
  assumes "hash_ok C" "ready h" "length data \<le> 499" "cmd < 256" "cmd \<noteq> RELAY_EXTENDED" "sid < 65536"
  shows "\<exists>cl h'. handler_onCell C now cl h = (Inr (), [On_Data_Call 0 cmd sid data], h') \<and> ready h'"
proof -
  obtain b where b: "cct_hops (hdl_circuit h) = [b]" "length (chp_Kf b) = 32" "length (chp_Kb b) = 32"
    using assms(2) by (auto simp: ready_def)
  obtain p d where p: "buildRelayPayload C cmd (int sid) data (chp_backwardDigest b) = Inr (p, d)" "length p = 508"
    using buildRelayPayload_layout [OF assms(3), of "int sid" C cmd] assms(1,3,6) by (auto simp: length_relay_bytes hash_ok_def)
  let ?h = "h\<lparr>hdl_stats := bumpStat now 3 (hdl_stats h),
    hdl_circuit := (hdl_circuit h)\<lparr>cct_hops := [(bump_bwd b)\<lparr>chp_backwardDigest := d\<rparr>]\<rparr>\<rparr>"
  let ?cl = "\<lparr>cel_version = 2, cel_circuitId = 0, cel_command = CMD_RELAY, cel_payload = foldr (layers C) (bwd_keys ([] @ [b])) p\<rparr>"
  have "handler_onCell C now ?cl h = (Inr (), [On_Data_Call 0 cmd sid data], ?h)"
    using handler_delivers [OF assms(1), of h "[]" b cmd sid data p d now] assms b p by (simp add: ready_def)
  moreover have "ready ?h" using assms(2) b by (simp add: ready_def bump_bwd_def)
  ultimately show ?thesis by blast
qed

section \<open>The steps of the run\<close>

abbreviation steps_to :: "crypto \<Rightarrow> hidden_client \<Rightarrow> hidden_client \<Rightarrow> bool" where
  "steps_to C s t \<equiv> \<exists>evs. hidden_run C evs s = t"

lemma step_run: "hidden_step C ev s = t \<Longrightarrow> steps_to C s t" by (rule exI [of _ "[ev]"]) (simp add: hidden_run_def)

lemma steps_trans: "steps_to C s t \<Longrightarrow> steps_to C t u \<Longrightarrow> steps_to C s u" by (metis hidden_run_append)

lemma rp_answer:
  assumes "hash_ok C" "hcl_rp s = Some h" "ready h" "length data \<le> 499" "cmd < 256" "cmd \<noteq> RELAY_EXTENDED"
  shows "\<exists>h'. ready h' \<and> steps_to C s (snd (snd (handleRpCircuitData now cmd 0 data (on_rp h' s))))"
proof -
  obtain cl h' where c: "handler_onCell C now cl h = (Inr (), [On_Data_Call 0 cmd 0 data], h')" "ready h'"
    using ready_receives [OF assms(1,3-6), of 0 now] by auto
  obtain r es t where t: "handleRpCircuitData now cmd 0 data (on_rp h' s) = (r, es, t)" by (cases "handleRpCircuitData now cmd 0 data (on_rp h' s)")
  have "hidden_step C (Rp_Inbound now cl) s = t"
    using c t assms(2) by (simp add: hidden_step_def rp_inbound_def seq_def swallow_def ret_def)
  then show ?thesis using c(2) t step_run by (intro exI [of _ h']) fastforce
qed

lemma ip_answer:
  assumes "hash_ok C" "hcl_ip s = Some h" "ready h" "length data \<le> 499" "cmd < 256" "cmd \<noteq> RELAY_EXTENDED"
  shows "\<exists>h'. ready h' \<and> steps_to C s (snd (snd (handleIpCircuitData cmd data (on_ip h' s))))"
proof -
  obtain cl h' where c: "handler_onCell C 0 cl h = (Inr (), [On_Data_Call 0 cmd 0 data], h')" "ready h'"
    using ready_receives [OF assms(1,3-6), of 0 0] by auto
  obtain r es t where t: "handleIpCircuitData cmd data (on_ip h' s) = (r, es, t)" by (cases "handleIpCircuitData cmd data (on_ip h' s)")
  have "hidden_step C (Ip_Inbound 0 cl) s = t"
    using c t assms(2) by (simp add: hidden_step_def ip_inbound_def seq_def swallow_def ret_def)
  then show ?thesis using c(2) t step_run by (intro exI [of _ h']) fastforce
qed

lemma send_each:
  assumes "hash_ok C" "hcl_ip s = Some h" "ready h" "\<forall>d\<in>set fs. length d \<le> 499"
  shows "\<exists>es h'. for_each (\<lambda>d s. through (hcl_ip s) on_ip (send_on Ip_Cell C cmd d) s) fs s = (Inr (), es, s\<lparr>hcl_ip := Some h'\<rparr>) \<and> ready h'"
  using assms(2-4)
proof (induction fs arbitrary: s h)
  case (Cons d fs)
  obtain es h' where h': "send_on Ip_Cell C cmd d h = (Inr (), es, h')" "ready h'"
    using ready_sends [OF assms(1) Cons.prems(2), of d Ip_Cell cmd] Cons.prems(3) by auto
  obtain es2 h2 where f: "for_each (\<lambda>d s. through (hcl_ip s) on_ip (send_on Ip_Cell C cmd d) s) fs (s\<lparr>hcl_ip := Some h'\<rparr>) = (Inr (), es2, s\<lparr>hcl_ip := Some h2\<rparr>)" "ready h2"
    using Cons.IH [of "s\<lparr>hcl_ip := Some h'\<rparr>" h'] h'(2) Cons.prems(3) by auto
  have "for_each (\<lambda>d s. through (hcl_ip s) on_ip (send_on Ip_Cell C cmd d) s) (d # fs) s = (Inr (), es @ es2, s\<lparr>hcl_ip := Some h2\<rparr>)"
    using h'(1) Cons.prems(1) f(1) by (simp add: through_def on_ip_def seq_def)
  then show ?case using f(2) by blast
next
  case Nil
  then have "s = s\<lparr>hcl_ip := Some h\<rparr>" by simp
  then show ?case using Nil(2) by (auto simp: ret_def)
qed

text \<open>Each stage of the opening, with what it leaves in the state.\<close>

lemma opens_rp:
  assumes "hash_ok C" "ready h" "length (mtg_cookie (hcl_meeting s)) = 20" "hcl_phase s = Build_Rp n"
  shows "\<exists>h'. ready h' \<and> steps_to C s (s\<lparr>hcl_rp := Some h', hcl_phase := Build_Ip 0, hcl_established := Settled (Inr (Some 0))\<rparr>)"
proof -
  let ?s = "s\<lparr>hcl_rp := Some h, hcl_phase := Await_Established, hcl_established := Unsettled\<rparr>"
  obtain es h1 where h1: "send_on Rp_Cell C RELAY_ESTABLISH_RENDEZVOUS (mtg_cookie (hcl_meeting s)) h = (Inr (), es, h1)" "ready h1"
    using ready_sends [OF assms(1,2), of "mtg_cookie (hcl_meeting s)" Rp_Cell RELAY_ESTABLISH_RENDEZVOUS] assms(3) by auto
  have 1: "hidden_step C (Attempt w (Inr h)) s = ?s\<lparr>hcl_rp := Some h1\<rparr>" for w
    using h1(1) assms(3,4) by (simp add: hidden_step_def attempt_done_def rp_built_def Let_def buildEstablishRendezvous_def seq_def lift_def through_def on_rp_def)
  obtain h2 where h2: "ready h2" "steps_to C (?s\<lparr>hcl_rp := Some h1\<rparr>) (snd (snd (handleRpCircuitData 0 RELAY_RENDEZVOUS_ESTABLISHED 0 [0] (on_rp h2 (?s\<lparr>hcl_rp := Some h1\<rparr>)))))"
    using rp_answer [OF assms(1) _ h1(2), of "?s\<lparr>hcl_rp := Some h1\<rparr>" "[0]" RELAY_RENDEZVOUS_ESTABLISHED 0] by auto
  let ?t = "?s\<lparr>hcl_rp := Some h2, hcl_established := Settled (Inr (Some 0))\<rparr>"
  have t: "snd (snd (handleRpCircuitData 0 RELAY_RENDEZVOUS_ESTABLISHED 0 [0] (on_rp h2 (?s\<lparr>hcl_rp := Some h1\<rparr>)))) = ?t"
    by (simp add: handleRpCircuitData_def ret_def on_rp_def first_byte_def resolve_with_def)
  have "hidden_step C Resume ?t = s\<lparr>hcl_rp := Some h2, hcl_phase := Build_Ip 0, hcl_established := Settled (Inr (Some 0))\<rparr>"
    by (simp add: hidden_step_def open_resume_def run_open_def seq_def lift_def check_status_def update_def)
  then show ?thesis
    using h2 steps_trans [OF step_run [OF 1] steps_trans [OF h2(2) [unfolded t] step_run]] by blast
qed

lemma opens_ip:
  fixes w :: intro_draws
  assumes "hash_ok C" "ready h" "hcl_phase s = Build_Ip n" "introduce_payload C (idr_seal w) (hcl_meeting s) (clientInit C (idr_xSeed w) (idr_kemSeed w)) = Inr payload"
    and "fragmentMessage payload (idr_handshakeId w) (int RELAY_FRAGMENT_CAPACITY) = Inr fs"
  shows "\<exists>h'. steps_to C s (s\<lparr>hcl_ip := Some h', hcl_ntorState := Some (clientInit C (idr_xSeed w) (idr_kemSeed w)),
    hcl_phase := Await_Rendezvous2, hcl_ack := Settled (Inr (Some 0)), hcl_rendezvous2 := Unsettled\<rparr>)"
proof -
  let ?st = "clientInit C (idr_xSeed w) (idr_kemSeed w)"
  let ?s = "s\<lparr>hcl_ip := Some h, hcl_ntorState := Some ?st, hcl_ack := Unsettled\<rparr>"
  have small: "\<forall>d\<in>set fs. length d \<le> 499" using fragments_of_cell [OF assms(5)] by auto
  obtain es h1 where h1: "for_each (\<lambda>d s. through (hcl_ip s) on_ip (send_on Ip_Cell C RELAY_INTRODUCE1 d) s) fs ?s = (Inr (), es, ?s\<lparr>hcl_ip := Some h1\<rparr>)" "ready h1"
    using send_each [OF assms(1) _ assms(2) small, of ?s RELAY_INTRODUCE1] by auto
  let ?a = "?s\<lparr>hcl_ip := Some h1, hcl_phase := Await_Ack\<rparr>"
  have 1: "hidden_step C (Attempt w (Inr h)) s = ?a"
    using h1(1) assms(3-5) by (simp add: hidden_step_def attempt_done_def ip_built_def Let_def run_open_def seq_def lift_def update_def)
  obtain h2 where h2: "ready h2" "steps_to C ?a (snd (snd (handleIpCircuitData RELAY_INTRODUCE_ACK [0] (on_ip h2 ?a))))"
    using ip_answer [OF assms(1) _ h1(2), of ?a "[0]" RELAY_INTRODUCE_ACK] by auto
  let ?t = "?a\<lparr>hcl_ip := Some h2, hcl_ack := Settled (Inr (Some 0))\<rparr>"
  have t: "snd (snd (handleIpCircuitData RELAY_INTRODUCE_ACK [0] (on_ip h2 ?a))) = ?t"
    by (simp add: handleIpCircuitData_def ret_def on_ip_def first_byte_def resolve_with_def)
  have "hidden_step C Resume ?t = s\<lparr>hcl_ip := Some h2, hcl_ntorState := Some ?st,
    hcl_phase := Await_Rendezvous2, hcl_ack := Settled (Inr (Some 0)), hcl_rendezvous2 := Unsettled\<rparr>"
    by (simp add: hidden_step_def open_resume_def run_open_def seq_def lift_def check_status_def update_def)
  then show ?thesis
    using h2 steps_trans [OF step_run [OF 1] steps_trans [OF h2(2) [unfolded t] step_run]] by blast
qed

text \<open>The fragments of the message of the service, one cell each.\<close>

lemma message_arrives:
  assumes "hash_ok C" "hcl_rp s = Some h" "ready h" "hcl_rendezvous2 s = Unsettled" "\<forall>d\<in>set fs. length d \<le> 499"
    and "ingest_run (map (Pair now) fs) (hcl_reassembler s) = (replicate n Waiting @ [Complete m], r)"
  shows "\<exists>h'. ready h' \<and> steps_to C s (s\<lparr>hcl_rp := Some h', hcl_reassembler := r, hcl_rendezvous2 := Settled (Inr m)\<rparr>)"
  using assms(2-6)
proof (induction n arbitrary: s h fs)
  case 0
  then have "length fs = 1" using ingest_run_length by fastforce
  then obtain f where f: "fs = [f]" by (metis length_0_conv length_Suc_conv One_nat_def)
  then have fs: "fs = [f]" "ingest now f (hcl_reassembler s) = (Complete m, r)" using 0(5) by (auto split: prod.splits)
  obtain h' where h': "ready h'" "steps_to C s (snd (snd (handleRpCircuitData now RELAY_RENDEZVOUS2 0 f (on_rp h' s))))"
    using rp_answer [OF assms(1) 0(1,2), of f RELAY_RENDEZVOUS2 now] 0(4) fs(1) by auto
  moreover have "snd (snd (handleRpCircuitData now RELAY_RENDEZVOUS2 0 f (on_rp h' s)))
      = s\<lparr>hcl_rp := Some h', hcl_reassembler := r, hcl_rendezvous2 := Settled (Inr m)\<rparr>"
    using fs(2) 0(3) by (simp add: handleRpCircuitData_def Let_def ret_def on_rp_def resolve_with_def)
  ultimately show ?case by metis
next
  case (Suc n)
  then obtain f fs' r1 where fs: "fs = f # fs'" "ingest now f (hcl_reassembler s) = (Waiting, r1)"
    "ingest_run (map (Pair now) fs') r1 = (replicate n Waiting @ [Complete m], r)"
    by (cases fs) (auto split: prod.splits)
  obtain h' where h': "ready h'" "steps_to C s (snd (snd (handleRpCircuitData now RELAY_RENDEZVOUS2 0 f (on_rp h' s))))"
    using rp_answer [OF assms(1) Suc(2,3), of f RELAY_RENDEZVOUS2 now] Suc(5) fs(1) by auto
  have t: "snd (snd (handleRpCircuitData now RELAY_RENDEZVOUS2 0 f (on_rp h' s))) = s\<lparr>hcl_rp := Some h', hcl_reassembler := r1\<rparr>"
    using fs(2) by (simp add: handleRpCircuitData_def Let_def ret_def on_rp_def)
  obtain h2 where h2: "ready h2" "steps_to C (s\<lparr>hcl_rp := Some h', hcl_reassembler := r1\<rparr>)
      (s\<lparr>hcl_rp := Some h2, hcl_reassembler := r, hcl_rendezvous2 := Settled (Inr m)\<rparr>)"
    using Suc.IH [of "s\<lparr>hcl_rp := Some h', hcl_reassembler := r1\<rparr>" h' fs'] Suc(4,5) fs h'(1) by auto
  then show ?case using steps_trans [OF h'(2) [unfolded t]] by blast
qed

text \<open>A hidden service can be reached: for every choice of the client there is a run in which it connects, when the circuits
  are built, the two points answer with status zero and the message of the service verifies; the fragments of both
  handshakes pass through the cells of the circuits.\<close>

lemma open_connects:
  fixes w :: intro_draws
  assumes "hash_ok C" "open_start C rses cookie SVC_pk descriptor = Inr s0" "length cookie = 20" "ready h" "ready h2"
    and "introduce_payload C (idr_seal w) (hcl_meeting s0) (clientInit C (idr_xSeed w) (idr_kemSeed w)) = Inr payload"
    and "fragmentMessage payload (idr_handshakeId w) (int RELAY_FRAGMENT_CAPACITY) = Inr fs1"
    and "clientFinish C (clientInit C (idr_xSeed w) (idr_kemSeed w)) (ip_serviceEncX25519Pk (mtg_ip (hcl_meeting s0)))
      (mtg_id (hcl_meeting s0)) msg = Some seed"
    and "deriveHopKeys C seed = Inr k" "length msg = 1152"
  shows "\<exists>evs. hcl_phase (hidden_run C evs s0) = Connected"
proof -
  have s0: "mtg_cookie (hcl_meeting s0) = cookie" "hcl_phase s0 = Build_Rp 0" "hcl_reassembler s0 = defaultReassembler"
    using assms(2) by (auto simp: open_start_def split: list.splits option.splits)
  obtain h3 where h3: "ready h3" "steps_to C s0 (s0\<lparr>hcl_rp := Some h3, hcl_phase := Build_Ip 0, hcl_established := Settled (Inr (Some 0))\<rparr>)"
    using opens_rp [OF assms(1,4) _ s0(2)] assms(3) s0(1) by auto
  let ?s1 = "s0\<lparr>hcl_rp := Some h3, hcl_phase := Build_Ip 0, hcl_established := Settled (Inr (Some 0))\<rparr>"
  obtain h4 where h4: "steps_to C ?s1 (?s1\<lparr>hcl_ip := Some h4, hcl_ntorState := Some (clientInit C (idr_xSeed w) (idr_kemSeed w)),
    hcl_phase := Await_Rendezvous2, hcl_ack := Settled (Inr (Some 0)), hcl_rendezvous2 := Unsettled\<rparr>)"
    using opens_ip [OF assms(1,5), of ?s1 0 w payload fs1] assms(6,7) by auto
  let ?s2 = "?s1\<lparr>hcl_ip := Some h4, hcl_ntorState := Some (clientInit C (idr_xSeed w) (idr_kemSeed w)),
    hcl_phase := Await_Rendezvous2, hcl_ack := Settled (Inr (Some 0)), hcl_rendezvous2 := Unsettled\<rparr>"
  obtain fs where f: "fragmentMessage msg 0 (int RELAY_FRAGMENT_CAPACITY) = Inr fs"
    using assms(10) by (auto simp: fragmentMessage_def ceil_div_def Let_def)
  have fs: "\<forall>d\<in>set fs. length d \<le> 499" using fragments_of_cell [OF f] by auto
  obtain r where "ingest_run (zip (replicate (length fs) 0) fs) defaultReassembler = (replicate (length fs - 1) Waiting @ [Complete msg], r)"
    using ingest_in_order [OF f, of "replicate (length fs) 0"] assms(10) by auto
  moreover have "zip (replicate (length fs) 0) fs = map (Pair (0 :: int)) fs" by (simp add: zip_replicate1)
  ultimately obtain h5 where h5: "ready h5" "steps_to C ?s2 (?s2\<lparr>hcl_rp := Some h5, hcl_reassembler := r, hcl_rendezvous2 := Settled (Inr msg)\<rparr>)"
    using message_arrives [OF assms(1), of ?s2 h3 fs 0 "length fs - 1" msg r] fs h3(1) s0(3) by auto
  let ?s3 = "?s2\<lparr>hcl_rp := Some h5, hcl_reassembler := r, hcl_rendezvous2 := Settled (Inr msg)\<rparr>"
  obtain a where a: "new_client_hop k = Inr a"
    using assms(1,9) by (auto simp: deriveHopKeys_def Let_def new_client_hop_def createDigestState_def split: if_splits)
  obtain s4 where s4: "finish_rendezvous C msg ?s3 = (Inr (), [], s4)" "hcl_phase s4 = Connected"
    using finish_connects [of ?s3 _ h5 msg C seed k a] assms(8-10) a by auto
  have "hidden_step C Resume ?s3 = s4" using s4(1) by (simp add: hidden_step_def open_resume_def run_open_def seq_def lift_def)
  then have "steps_to C s0 s4" using steps_trans [OF h3(2) steps_trans [OF h4 steps_trans [OF h5(2) step_run]]] by blast
  then show ?thesis using s4(2) by blast
qed

section \<open>Instances\<close>

definition toy_service :: introduction_point where
  "toy_service = \<lparr>inp_fingerprint = zeros 32, inp_serviceIntroSk = zeros 32, inp_serviceIntroPk = zeros 32,
     inp_serviceEncX25519Sk = 3 # zeros 31, inp_serviceEncX25519Pk = x_public toy_crypto (3 # zeros 31),
     inp_serviceEncMlkemSk = snd (kem_keygen toy_crypto [7])\<rparr>"

definition toy_rp :: rse where "toy_rp = toy_guard\<lparr>rse_fingerprint := 1 # zeros 31, rse_flags := 6\<rparr>"

definition toy_meeting :: meeting where
  "toy_meeting = \<lparr>mtg_ip = \<lparr>ip_fingerprint = zeros 32, ip_ipOnionPk = zeros 32, ip_serviceIntroKey = zeros 32,
       ip_serviceEncX25519Pk = x_public toy_crypto (3 # zeros 31), ip_serviceEncMlkemPk = fst (kem_keygen toy_crypto [7])\<rparr>,
     mtg_rp = toy_rp, mtg_id = zeros 32, mtg_cookie = zeros 20\<rparr>"

definition toy_descriptor :: descriptor where
  "toy_descriptor = Version_2 \<lparr>d2_SVC_pk = zeros 32, d2_publishEpoch = 0, d2_lifetimeSeconds = 0, d2_introPoints = [mtg_ip toy_meeting],
     d2_signature = [], d2_signedRegion = []\<rparr>"

definition toy_intro_draws :: intro_draws where
  "toy_intro_draws = \<lparr>idr_xSeed = 1 # zeros 31, idr_kemSeed = [9],
     idr_seal = \<lparr>sld_ephemeral = 1 # zeros 31, sld_encaps = [5], sld_nonce = zeros 12\<rparr>, idr_handshakeId = 5\<rparr>"

definition toy_answer_draws :: answer_draws where "toy_answer_draws = \<lparr>adr_encSeed = [5], adr_ySeed = 2 # zeros 31\<rparr>"

abbreviation "toy_ntor \<equiv> clientInit toy_crypto (1 # zeros 31) [9]"

definition toy_short :: handler where
  "toy_short = createHandler ((createClientCircuit 5)\<lparr>cct_hops := [\<lparr>chp_Kf = zeros 32, chp_Kb = zeros 32, chp_Kdf = zeros 32, chp_Kdb = zeros 32, chp_forwardCounter = 0, chp_backwardCounter = 0,
     chp_forwardDigest = zeros 32, chp_backwardDigest = zeros 32, chp_extendedReassembler = defaultReassembler\<rparr>]\<rparr>)"

definition toy_start :: hidden_client where
  "toy_start = \<lparr>hcl_phase = Build_Rp 0, hcl_meeting = toy_meeting, hcl_ntorState = None, hcl_rp = None, hcl_ip = None,
     hcl_established = No_Promise, hcl_ack = No_Promise, hcl_rendezvous2 = No_Promise, hcl_reassembler = defaultReassembler, hcl_streams = None\<rparr>"

lemma cons_not_zeros: "n \<noteq> 0 \<Longrightarrow> (n :: byte) # xs \<noteq> zeros 32" "n \<noteq> 0 \<Longrightarrow> zeros 32 \<noteq> (n :: byte) # xs"
proof -
  have "n # xs \<noteq> zeros 32" if "n \<noteq> 0"
  proof
    assume "n # xs = zeros 32"
    then have "hd (n # xs) = hd (zeros 32)" by (rule arg_cong)
    then show False using that by (simp add: zeros_def)
  qed
  then show "n \<noteq> 0 \<Longrightarrow> n # xs \<noteq> zeros 32" "n \<noteq> 0 \<Longrightarrow> zeros 32 \<noteq> n # xs" by metis+
qed

lemma toy_hidden_started: "open_start toy_crypto [toy_guard, toy_rp] (zeros 20) None toy_descriptor = Inr toy_start"
  by (simp add: open_start_def toy_descriptor_def intro_points_def findRseByFp_def rp_candidate_def service_id_def toy_start_def
      toy_meeting_def toy_rp_def toy_guard_def cons_not_zeros)

lemma toy_serves: "serves toy_crypto toy_service (mtg_ip toy_meeting)"
  by (auto simp: serves_def toy_service_def toy_meeting_def)

lemma toy_ready: "ready toy_short"
  by (simp add: ready_def toy_short_def createHandler_def createClientCircuit_def)

lemma toy_introduction:
  "\<exists>payload fs. introduce_payload toy_crypto (idr_seal toy_intro_draws) toy_meeting toy_ntor = Inr payload
    \<and> fragmentMessage payload 5 (int RELAY_FRAGMENT_CAPACITY) = Inr fs"
proof -
  let ?pk = "x_public toy_crypto (3 # zeros 31)" and ?kp = "fst (kem_keygen toy_crypto [7])"
  have x: "length ?pk = 32" by (simp add: toy_crypto_def)
  have s: "\<exists>s. sharedSecret toy_crypto (1 # zeros 31) ?pk = Some s \<and> length s = 32"
  proof -
    have "map2 (\<lambda>x y :: byte. x XOR y) (1 # zeros 31) (3 # zeros 31) \<noteq> zeros 32" by (simp add: cons_not_zeros)
    then show ?thesis by (simp add: sharedSecret_def toy_crypto_def pad_to_id)
  qed
  obtain ct ss where k: "length ?kp = 1184" "kem_encaps toy_crypto [5] ?kp = Some (ct, ss)" "length ct = 1088" "length ss = 32"
    using toy_kem_correct unfolding kem_correct_def by blast
  have "length (x_public toy_crypto (1 # zeros 31)) = 32" by (simp add: toy_crypto_def)
  note x1 = this
  then have "length (nts_createMsg toy_ntor) = 1216"
    using toy_kem_correct unfolding kem_correct_def by (simp add: clientInit_def generateOnion_def split_beta)
  then obtain inner where i: "buildIntroduceInner \<lparr>iin_cookie = zeros 20, iin_rpFingerprint = 1 # zeros 31, iin_rpOnionPk = ?pk,
      iin_handshakeMessage = nts_createMsg toy_ntor\<rparr> = Inr inner" "length inner = 1300"
    using x by (simp add: buildIntroduceInner_def)
  obtain sh where sh: "sharedSecret toy_crypto (1 # zeros 31) ?pk = Some sh" using s by blast
  have "length (kdf toy_crypto (sh @ ss) SEALED_BOX_INFO 32) = 32" using toy_hash_ok by simp
  then obtain c t where a: "aeadEncrypt toy_crypto (kdf toy_crypto (sh @ ss) SEALED_BOX_INFO 32) (zeros 12) [] inner = Inr (c, t)"
    using aeadEncrypt_Inr [of _ "zeros 12"] by fastforce
  have lc: "length c = 1300" "length t = 16" using aeadEncrypt_ok [OF toy_aead_correct a] i(2) by simp_all
  have z: "zeros 32 \<noteq> []" by (simp add: zeros_def)
  have "\<exists>payload. introduce_payload toy_crypto (idr_seal toy_intro_draws) toy_meeting toy_ntor = Inr payload \<and> length payload \<le> 125205 \<and> payload \<noteq> []"
    using x x1 z sh k i a lc
    by (simp add: introduce_payload_def buildIntroducePayload_def seal_def generateOnion_def Let_def toy_intro_draws_def toy_meeting_def toy_rp_def toy_guard_def)
  then obtain payload where p: "introduce_payload toy_crypto (idr_seal toy_intro_draws) toy_meeting toy_ntor = Inr payload"
    "length payload \<le> 125205" "payload \<noteq> []" by blast
  have "ceil_div (length payload) 491 \<le> 255" using p(2) by (simp add: ceil_div_def) 
  then show ?thesis using p by (simp add: fragmentMessage_def Let_def)
qed

lemma toy_answer:
  "\<exists>inner m. iin_handshakeMessage inner = nts_createMsg toy_ntor \<and> iin_cookie inner = zeros 20
    \<and> inner = \<lparr>iin_cookie = zeros 20, iin_rpFingerprint = 1 # zeros 31, iin_rpOnionPk = rse_onionPk toy_rp, iin_handshakeMessage = nts_createMsg toy_ntor\<rparr>
    \<and> begin_rendezvous toy_crypto [toy_guard, toy_rp] (zeros 32) toy_service toy_answer_draws inner = Inr m"
proof -
  obtain res where r: "relayResponse toy_crypto [5] (2 # zeros 31) (nts_createMsg toy_ntor) (3 # zeros 31) (x_public toy_crypto (3 # zeros 31)) (zeros 32) = Some res"
    using toy_response by blast
  have "length (ntr_KEY_SEED res) = 32" using r toy_hash_ok by (auto elim!: relayResponse_Some simp: Let_def)
  then obtain k where "deriveHopKeys toy_crypto (ntr_KEY_SEED res) = Inr k" using deriveHopKeys_ok [OF toy_hash_ok] by blast
  then show ?thesis using r
    by (simp add: begin_rendezvous_def toy_service_def toy_answer_draws_def findRseByFp_def toy_rp_def toy_guard_def zeros_def)
qed

theorem hidden_service_meets_witness:
  "\<exists>payload inner m msg2 s' a b. introduce_payload toy_crypto (idr_seal toy_intro_draws) toy_meeting toy_ntor = Inr payload
    \<and> open_introduction toy_crypto toy_service payload = Some inner
    \<and> begin_rendezvous toy_crypto [toy_guard, toy_rp] (zeros 32) toy_service toy_answer_draws inner = Inr m
    \<and> finish_rendezvous toy_crypto msg2 (toy_start\<lparr>hcl_rp := Some toy_short, hcl_ntorState := Some toy_ntor\<rparr>) = (Inr (), [], s')
    \<and> hcl_phase s' = Connected \<and> new_client_hop (rvp_keys m) = Inr b \<and> mirror a b"
proof -
  let ?s = "toy_start\<lparr>hcl_rp := Some toy_short, hcl_ntorState := Some toy_ntor\<rparr>"
  have m: "hcl_meeting ?s = toy_meeting" by (simp add: toy_start_def)
  obtain payload fs where p: "introduce_payload toy_crypto (idr_seal toy_intro_draws) toy_meeting toy_ntor = Inr payload"
    using toy_introduction by blast
  have c: "length (sld_ephemeral (idr_seal toy_intro_draws)) = 32" "length (1 # zeros 31 :: bytes) = 32" "length (adr_ySeed toy_answer_draws) = 32"
    "serves toy_crypto toy_service (mtg_ip (hcl_meeting ?s))" "mtg_id (hcl_meeting ?s) = zeros 32" "hcl_ntorState ?s = Some toy_ntor" "hcl_rp ?s = Some toy_short"
    using toy_serves by (simp_all add: toy_intro_draws_def toy_answer_draws_def toy_start_def toy_meeting_def)
  have o: "open_introduction toy_crypto toy_service payload = Some \<lparr>iin_cookie = zeros 20, iin_rpFingerprint = 1 # zeros 31,
      iin_rpOnionPk = rse_onionPk toy_rp, iin_handshakeMessage = nts_createMsg toy_ntor\<rparr>"
    using introduction_read [OF toy_hash_ok toy_aead_correct toy_dh_correct toy_kem_correct c(1) toy_serves p] by (simp add: toy_meeting_def toy_rp_def)
  obtain r where r: "begin_rendezvous toy_crypto [toy_guard, toy_rp] (zeros 32) toy_service toy_answer_draws \<lparr>iin_cookie = zeros 20,
      iin_rpFingerprint = 1 # zeros 31, iin_rpOnionPk = rse_onionPk toy_rp, iin_handshakeMessage = nts_createMsg toy_ntor\<rparr> = Inr r"
    using toy_answer by blast
  obtain msg2 a b s' where f: "finish_rendezvous toy_crypto msg2 ?s = (Inr (), [], s')" "hcl_phase s' = Connected"
    "new_client_hop (rvp_keys r) = Inr b" "mirror a b"
    using hidden_service_meets [OF toy_hash_ok toy_aead_correct toy_dh_correct toy_kem_correct c p [folded m], of "[toy_guard, toy_rp]"] o r by auto
  show ?thesis
    apply (intro exI conjI)
          apply (rule p)
         apply (rule o)
        apply (rule r)
       apply (rule f(1))
      apply (rule f(2))
     apply (rule f(3))
    apply (rule f(4))
    done
qed

theorem spliced_cell_delivered_witness:
  "\<exists>h r a b raw s' cl q rs1' h'. in_step h r
    \<and> sendForward id toy_crypto RELAY_DATA 3 [7, 8] \<lparr>ccl_circuit = (createClientCircuit 9)\<lparr>cct_hops := [h, a]\<rparr>\<rparr> = (Inr (), [raw], s')
    \<and> parseCell raw = Some cl \<and> peel_path toy_crypto [r] (cel_payload cl) = Inr (q, rs1')
    \<and> handler_onCell toy_crypto 0 \<lparr>cel_version = 2, cel_circuitId = 5, cel_command = CMD_RELAY, cel_payload = q\<rparr>
        (createHandler ((createClientCircuit 5)\<lparr>cct_hops := [b]\<rparr>)) = (Inr (), [On_Data_Call 0 RELAY_DATA 3 [7, 8]], h')"
proof -
  obtain h r where h: "in_step h r" using toy_hop by blast
  let ?k = "\<lparr>hop_Kf = zeros 32, hop_Kb = zeros 32, hop_Kdf = zeros 32, hop_Kdb = zeros 32\<rparr>"
  obtain a b where ab: "mirror a b" using swapped_hop_mirrors [of ?k] by auto
  have e: "cct_hops ((createClientCircuit 9)\<lparr>cct_hops := [h, a]\<rparr>) = [h] @ [a]"
    "cct_hops (hdl_circuit (createHandler ((createClientCircuit 5)\<lparr>cct_hops := [b]\<rparr>))) = [] @ [b]"
    "hdl_state (createHandler ((createClientCircuit 5)\<lparr>cct_hops := [b]\<rparr>)) \<noteq> St_Closed"
    "0 \<le> cct_circuitId ((createClientCircuit 9)\<lparr>cct_hops := [h, a]\<rparr>)"
    "cct_circuitId ((createClientCircuit 9)\<lparr>cct_hops := [h, a]\<rparr>) \<le> 0xFFFFFFFF"
    by (simp_all add: createHandler_def createClientCircuit_def)
  obtain raw s' cl q rs1' ct rs2' h' where r: "sendForward id toy_crypto RELAY_DATA 3 [7, 8] \<lparr>ccl_circuit = (createClientCircuit 9)\<lparr>cct_hops := [h, a]\<rparr>\<rparr> = (Inr (), [raw], s')"
    "parseCell raw = Some cl" "peel_path toy_crypto [r] (cel_payload cl) = Inr (q, rs1')" "wrap_path toy_crypto [] q = Inr (ct, rs2')"
    "handler_onCell toy_crypto 0 \<lparr>cel_version = 2, cel_circuitId = 5, cel_command = CMD_RELAY, cel_payload = ct\<rparr>
        (createHandler ((createClientCircuit 5)\<lparr>cct_hops := [b]\<rparr>)) = (Inr (), [On_Data_Call 0 RELAY_DATA 3 [7, 8]], h')"
    using spliced_cell_delivered [OF toy_hash_ok e(1) _ e(2) _ ab e(4,5), of "[r]" "[]" "[7, 8]" 3 RELAY_DATA 0 2 5] e(3) h by auto
  have "ct = q" using r(4) by simp
  then show ?thesis using h r(1-3,5) by blast
qed

theorem hidden_service_authentic_witness:
  "\<exists>evs h ks k xs kem msg seed. hcl_phase (hidden_run toy_crypto evs toy_start) = Connected
    \<and> hcl_streams (hidden_run toy_crypto evs toy_start) \<noteq> None
    \<and> hcl_rp (hidden_run toy_crypto evs toy_start) = Some h \<and> circuit_keys (hdl_circuit h) = ks @ [k]
    \<and> clientFinish toy_crypto (clientInit toy_crypto xs kem) (x_public toy_crypto (3 # zeros 31)) (zeros 32) msg = Some seed
    \<and> deriveHopKeys toy_crypto seed = Inr k"
proof -
  obtain payload fs where p: "introduce_payload toy_crypto (idr_seal toy_intro_draws) toy_meeting toy_ntor = Inr payload"
    "fragmentMessage payload 5 (int RELAY_FRAGMENT_CAPACITY) = Inr fs" using toy_introduction by blast
  obtain res where res: "relayResponse toy_crypto [5] (2 # zeros 31) (nts_createMsg toy_ntor) (3 # zeros 31) (x_public toy_crypto (3 # zeros 31)) (zeros 32) = Some res"
    using toy_response by blast
  have fin: "clientFinish toy_crypto toy_ntor (x_public toy_crypto (3 # zeros 31)) (zeros 32) (ntr_createdMsg res) = Some (ntr_KEY_SEED res)"
    by (rule ntor_agree [OF toy_hash_ok toy_dh_correct toy_kem_correct _ _ _ res]) simp_all
  have l: "length (ntr_createdMsg res) = 1152" "length (ntr_KEY_SEED res) = 32"
    using res toy_hash_ok toy_dh_correct by (auto elim!: relayResponse_Some simp: Let_def dh_correct_def)
  obtain k where k: "deriveHopKeys toy_crypto (ntr_KEY_SEED res) = Inr k" using deriveHopKeys_ok [OF toy_hash_ok l(2)] by blast
  have m: "hcl_meeting toy_start = toy_meeting" "ip_serviceEncX25519Pk (mtg_ip toy_meeting) = x_public toy_crypto (3 # zeros 31)" "mtg_id toy_meeting = zeros 32"
    by (simp_all add: toy_start_def toy_meeting_def)
  have d: "idr_xSeed toy_intro_draws = 1 # zeros 31" "idr_kemSeed toy_intro_draws = [9]" "idr_handshakeId toy_intro_draws = 5"
    by (simp_all add: toy_intro_draws_def)
  obtain evs where evs: "hcl_phase (hidden_run toy_crypto evs toy_start) = Connected"
    using open_connects [OF toy_hash_ok toy_hidden_started _ toy_ready toy_ready, of toy_intro_draws payload fs "ntr_createdMsg res" "ntr_KEY_SEED res" k] p fin k l m d
    by auto
  show ?thesis
    by (rule exI [of _ evs]) (use hidden_service_authentic [OF toy_hidden_started, of evs] evs m in \<open>simp add: Let_def\<close>)
qed

theorem open_ends_witness:
  "\<exists>ws. length ws = 11 \<and> (case hcl_phase (hidden_run toy_crypto (concat (map (\<lambda>(es, w, r).
        es @ [Established_Timer, Ack_Timer, Rendezvous2_Timer, Resume, Attempt w r]) ws)) toy_start) of
      Connected \<Rightarrow> True | Not_Opened e \<Rightarrow> True | _ \<Rightarrow> False)"
proof -
  let ?ws = "replicate 11 ([Rp_Inbound 0 \<lparr>cel_version = 2, cel_circuitId = 5, cel_command = 4, cel_payload = []\<rparr>], toy_intro_draws, Inr toy_short)"
  show ?thesis
    by (rule exI [of _ ?ws]) (use open_ends [OF toy_hidden_started, of ?ws] in simp)
qed

end
