(* ===== verification/Utf8.thy ===== *)
theory Utf8
  imports Prelude
begin

text \<open>
  Text beyond ASCII. A JavaScript string is the list of its code points (a surrogate without partner stands for itself);
  \<open>TextEncoder\<close> writes UTF-8, \<open>TextDecoder\<close> and \<open>Buffer.toString\<close> read it by the decoder of the Encoding standard: a state
  of its own for the bytes still needed, what has been read, and the range allowed next.
\<close>

type_synonym js_text = "nat list"

definition text_of :: "string \<Rightarrow> js_text" where "text_of s = map of_char s"

section \<open>Encoder\<close>

definition surrogate :: "nat \<Rightarrow> bool" where "surrogate c \<longleftrightarrow> 0xD800 \<le> c \<and> c \<le> 0xDFFF"

definition utf8_char :: "nat \<Rightarrow> bytes" where
  "utf8_char c =
     (if c < 0x80 then [u8 c]
      else if c < 0x800 then [u8 (0xC0 + c div 64), u8 (0x80 + c mod 64)]
      else if surrogate c then [0xEF, 0xBF, 0xBD]
      else if c < 0x10000 then [u8 (0xE0 + c div 4096), u8 (0x80 + c div 64 mod 64), u8 (0x80 + c mod 64)]
      else [u8 (0xF0 + c div 262144), u8 (0x80 + c div 4096 mod 64), u8 (0x80 + c div 64 mod 64), u8 (0x80 + c mod 64)])"

definition utf8_encode :: "js_text \<Rightarrow> bytes" where "utf8_encode t = concat (map utf8_char t)"

section \<open>Decoder\<close>

text \<open>Each item is a code point or an error.\<close>

fun utf8_items :: "nat \<Rightarrow> nat \<Rightarrow> nat \<Rightarrow> nat \<Rightarrow> bytes \<Rightarrow> nat option list" where
  "utf8_items needed cp lower upper [] = (if needed > 0 then [None] else [])"
| "utf8_items 0 cp lower upper (b # bs) =
     (let n = unat b
      in if n < 0x80 then Some n # utf8_items 0 0 0x80 0xBF bs
         else if 0xC2 \<le> n \<and> n \<le> 0xDF then utf8_items 1 (n - 0xC0) 0x80 0xBF bs
         else if 0xE0 \<le> n \<and> n \<le> 0xEF then utf8_items 2 (n - 0xE0) (if n = 0xE0 then 0xA0 else 0x80) (if n = 0xED then 0x9F else 0xBF) bs
         else if 0xF0 \<le> n \<and> n \<le> 0xF4 then utf8_items 3 (n - 0xF0) (if n = 0xF0 then 0x90 else 0x80) (if n = 0xF4 then 0x8F else 0xBF) bs
         else None # utf8_items 0 0 0x80 0xBF bs)"
| "utf8_items (Suc needed) cp lower upper (b # bs) =
     (let n = unat b
      in if n < lower \<or> n > upper then None # utf8_items 0 0 0x80 0xBF (b # bs)
         else if needed = 0 then Some (cp * 64 + (n - 0x80)) # utf8_items 0 0 0x80 0xBF bs
         else utf8_items needed (cp * 64 + (n - 0x80)) 0x80 0xBF bs)"

definition utf8_toString :: "bytes \<Rightarrow> js_text" where
  "utf8_toString bs = map (\<lambda>i. case i of None \<Rightarrow> 0xFFFD | Some c \<Rightarrow> c) (utf8_items 0 0 0x80 0xBF bs)"

text \<open>\<open>new TextDecoder('utf-8', { fatal: true }).decode(...)\<close>, which drops a byte order mark; None is its exception.\<close>

definition utf8_fatal :: "bytes \<Rightarrow> js_text option" where
  "utf8_fatal bs =
     (let items = utf8_items 0 0 0x80 0xBF bs
      in if None \<in> set items then None
         else case map the items of c # cs \<Rightarrow> Some (if c = 0xFEFF then cs else c # cs) | [] \<Rightarrow> Some [])"

section \<open>What is encoded is decoded\<close>

definition scalar :: "nat \<Rightarrow> bool" where "scalar c \<longleftrightarrow> c < 0x110000 \<and> \<not> surrogate c"

lemma utf8_items_char:
  assumes "scalar c"
  shows "utf8_items 0 0 0x80 0xBF (utf8_char c @ bs) = Some c # utf8_items 0 0 0x80 0xBF bs"
proof -
  consider "c < 0x80" | "0x80 \<le> c" "c < 0x800" | "0x800 \<le> c" "c < 0x10000" "\<not> surrogate c" | "0x10000 \<le> c" "c < 0x110000"
    using assms unfolding scalar_def by linarith
  then show ?thesis
  proof cases
    case 1
    then show ?thesis by (simp add: utf8_char_def unat_u8_id)
  next
    case 2
    then have "2 \<le> c div 64" "c div 64 < 32" by auto
    then show ?thesis using 2 by (simp add: utf8_char_def unat_u8_id Let_def)
  next
    case 3
    obtain a b d where abd: "a = c div 64 div 64" "b = c div 64 mod 64" "d = c mod 64" by blast
    have c: "c = (a * 64 + b) * 64 + d" "b < 64" "d < 64" unfolding abd div_mult_mod_eq by simp_all
    have v: "c div 4096 = a" "c div 64 mod 64 = b" "c mod 64 = d" unfolding abd by (simp_all add: div_mult2_eq [symmetric])
    have r: "a < 16" "a = 0 \<Longrightarrow> 32 \<le> b" "a = 13 \<Longrightarrow> b \<le> 31" using 3 c unfolding surrogate_def by auto
    have e: "utf8_char c = [u8 (0xE0 + a), u8 (0x80 + b), u8 (0x80 + d)]" using 3 v by (simp add: utf8_char_def)
    show ?thesis unfolding e using r c by (auto simp: unat_u8_id Let_def numeral_2_eq_2)
  next
    case 4
    obtain a b d g where abd: "a = c div 64 div 64 div 64" "b = c div 64 div 64 mod 64" "d = c div 64 mod 64" "g = c mod 64" by blast
    have c: "c = ((a * 64 + b) * 64 + d) * 64 + g" "b < 64" "d < 64" "g < 64" unfolding abd div_mult_mod_eq by simp_all
    have v: "c div 262144 = a" "c div 4096 mod 64 = b" "c div 64 mod 64 = d" "c mod 64 = g" unfolding abd by (simp_all add: div_mult2_eq [symmetric])
    have r: "a < 5" "a = 0 \<Longrightarrow> 16 \<le> b" "a = 4 \<Longrightarrow> b \<le> 15" using 4 c by auto
    have e: "utf8_char c = [u8 (0xF0 + a), u8 (0x80 + b), u8 (0x80 + d), u8 (0x80 + g)]" using 4 v by (simp add: utf8_char_def surrogate_def)
    show ?thesis unfolding e using r c by (auto simp: unat_u8_id Let_def numeral_2_eq_2 numeral_3_eq_3)
  qed
qed

lemma utf8_items_encode: "\<forall>c\<in>set t. scalar c \<Longrightarrow> utf8_items 0 0 0x80 0xBF (utf8_encode t) = map Some t"
  by (induction t) (simp_all add: utf8_encode_def utf8_items_char)

lemma utf8_toString_encode: "\<forall>c\<in>set t. scalar c \<Longrightarrow> utf8_toString (utf8_encode t) = t"
  by (simp add: utf8_toString_def utf8_items_encode map_idI)

lemma utf8_fatal_encode:
  "\<forall>c\<in>set t. scalar c \<Longrightarrow> utf8_fatal (utf8_encode t) = Some (if t \<noteq> [] \<and> hd t = 0xFEFF then tl t else t)"
  by (cases t) (auto simp: utf8_fatal_def utf8_items_encode)

end
