(* ===== verification/V2_Socks.thy ===== *)
theory V2_Socks
  imports Utf8 V2_Streams
begin

text \<open>
  \<open>v2/socks.mjs\<close>: the SOCKS5 server. The handler of a connection is an asynchronous function; it is written here as the tree
  of what it waits for: bytes of the buffered reader, the completion of a write, the tunnel. \<open>advance\<close> runs it up to the next
  wait, and an event of the socket, of a timer or of the tunnel takes it further. The tunnel factory is outside: what it
  answers is an event.
\<close>

section \<open>Constants and replies\<close>

definition SOCKS_VERSION :: byte where [simp]: "SOCKS_VERSION = 0x05"
definition AUTH_NONE :: byte where [simp]: "AUTH_NONE = 0x00"
definition AUTH_NO_ACCEPTABLE :: byte where [simp]: "AUTH_NO_ACCEPTABLE = 0xFF"
definition CMD_CONNECT :: byte where [simp]: "CMD_CONNECT = 0x01"
definition ATYP_IPV4 :: byte where [simp]: "ATYP_IPV4 = 0x01"
definition ATYP_DOMAIN :: byte where [simp]: "ATYP_DOMAIN = 0x03"
definition ATYP_IPV6 :: byte where [simp]: "ATYP_IPV6 = 0x04"
definition REP_SUCCESS :: byte where [simp]: "REP_SUCCESS = 0x00"
definition REP_GENERAL_FAILURE :: byte where [simp]: "REP_GENERAL_FAILURE = 0x01"
definition REP_NETWORK_UNREACHABLE :: byte where [simp]: "REP_NETWORK_UNREACHABLE = 0x03"
definition REP_HOST_UNREACHABLE :: byte where [simp]: "REP_HOST_UNREACHABLE = 0x04"
definition REP_CONNECTION_REFUSED :: byte where [simp]: "REP_CONNECTION_REFUSED = 0x05"
definition REP_TTL_EXPIRED :: byte where [simp]: "REP_TTL_EXPIRED = 0x06"
definition REP_COMMAND_NOT_SUPPORTED :: byte where [simp]: "REP_COMMAND_NOT_SUPPORTED = 0x07"
definition REP_ADDR_TYPE_NOT_SUPPORTED :: byte where [simp]: "REP_ADDR_TYPE_NOT_SUPPORTED = 0x08"

text \<open>Every reply has the address 0.0.0.0 and the port 0.\<close>

definition buildReply :: "byte \<Rightarrow> bytes" where
  "buildReply rep = [SOCKS_VERSION, rep, 0x00, ATYP_IPV4] @ zeros 4 @ [0, 0]"

section \<open>The handler as a tree of waits\<close>

datatype socks_io =
    Finished string
  | Read_Exactly nat "bytes \<Rightarrow> socks_io"
  | Write_Then bytes socks_io
  | End_Then socks_io
  | Open_Tunnel js_text nat "string option \<Rightarrow> socks_io"
  | Piping

record socks_request =
  srq_cmd :: byte
  srq_atyp :: byte
  srq_host :: js_text
  srq_port :: nat

text \<open>\<open>toString(16)\<close>.\<close>

fun toString16 :: "nat \<Rightarrow> string" where
  "toString16 n = (if n < 16 then [hex_digit n] else toString16 (n div 16) @ [hex_digit (n mod 16)])"

declare toString16.simps [simp del]

definition ipv4_host :: "bytes \<Rightarrow> js_text" where
  "ipv4_host ip = text_of (ipv4ToString ip)"

fun ipv6_groups :: "bytes \<Rightarrow> string list" where
  "ipv6_groups (a # b # bs) = toString16 (unat a * 256 + unat b) # ipv6_groups bs"
| "ipv6_groups _ = []"

fun join_colon :: "string list \<Rightarrow> string" where
  "join_colon [] = []"
| "join_colon [p] = p"
| "join_colon (p # q # ps) = p @ '':'' @ join_colon (q # ps)"

definition ipv6_host :: "bytes \<Rightarrow> js_text" where "ipv6_host ip = text_of (join_colon (ipv6_groups ip))"

definition read_port :: "byte \<Rightarrow> byte \<Rightarrow> js_text \<Rightarrow> (socks_request option \<Rightarrow> socks_io) \<Rightarrow> socks_io" where
  "read_port cmd atyp host k =
     Read_Exactly 2 (\<lambda>portBytes. k (Some \<lparr>srq_cmd = cmd, srq_atyp = atyp, srq_host = host, srq_port = be_val portBytes\<rparr>))"

definition readConnectRequest :: "(socks_request option \<Rightarrow> socks_io) \<Rightarrow> socks_io" where
  "readConnectRequest k =
     Read_Exactly 4 (\<lambda>head.
       if head ! 0 \<noteq> SOCKS_VERSION then k None
       else if head ! 2 \<noteq> 0x00 then k None
       else
         let cmd = head ! 1; atyp = head ! 3
         in if atyp = ATYP_IPV4 then Read_Exactly 4 (\<lambda>ip. read_port cmd atyp (ipv4_host ip) k)
            else if atyp = ATYP_IPV6 then Read_Exactly 16 (\<lambda>ip. read_port cmd atyp (ipv6_host ip) k)
            else if atyp = ATYP_DOMAIN then
              Read_Exactly 1 (\<lambda>lenByte.
                let nameLen = unat (lenByte ! 0)
                in if nameLen = 0 then k None
                   else Read_Exactly nameLen (\<lambda>nameBytes. read_port cmd atyp (utf8_toString nameBytes) k))
            else k None)"

definition tunnel_reply :: "string \<Rightarrow> byte" where
  "tunnel_reply code =
     (if code = ''ECONNREFUSED'' then REP_CONNECTION_REFUSED
      else if code = ''ENETUNREACH'' then REP_NETWORK_UNREACHABLE
      else if code = ''EHOSTUNREACH'' then REP_HOST_UNREACHABLE
      else if code = ''ETIMEDOUT'' then REP_TTL_EXPIRED
      else REP_GENERAL_FAILURE)"

text \<open>What \<open>handleSocksConnection\<close> answers a request with.\<close>

definition serve_request :: "socks_request option \<Rightarrow> socks_io" where
  "serve_request req =
     (case req of
        None \<Rightarrow> Write_Then (buildReply REP_GENERAL_FAILURE) (End_Then (Finished ''malformed''))
      | Some req \<Rightarrow>
          if srq_cmd req \<noteq> CMD_CONNECT then
            Write_Then (buildReply REP_COMMAND_NOT_SUPPORTED) (End_Then (Finished ''unsupported-cmd''))
          else if srq_atyp req \<noteq> ATYP_IPV4 \<and> srq_atyp req \<noteq> ATYP_IPV6 \<and> srq_atyp req \<noteq> ATYP_DOMAIN then
            Write_Then (buildReply REP_ADDR_TYPE_NOT_SUPPORTED) (End_Then (Finished ''unsupported-atyp''))
          else
            Open_Tunnel (srq_host req) (srq_port req) (\<lambda>r.
              case r of
                Some code \<Rightarrow> Write_Then (buildReply (tunnel_reply code)) (End_Then (Finished ''tunnel-failed''))
              | None \<Rightarrow> Write_Then (buildReply REP_SUCCESS) Piping))"

definition handleSocksConnection :: socks_io where
  "handleSocksConnection =
     Read_Exactly 2 (\<lambda>greetHead.
       if greetHead ! 0 \<noteq> SOCKS_VERSION then End_Then (Finished ''malformed'')
       else
         let nMethods = unat (greetHead ! 1)
         in if nMethods = 0 then Write_Then [SOCKS_VERSION, AUTH_NO_ACCEPTABLE] (End_Then (Finished ''malformed''))
            else Read_Exactly nMethods (\<lambda>methods.
              if AUTH_NONE \<notin> set methods then Write_Then [SOCKS_VERSION, AUTH_NO_ACCEPTABLE] (End_Then (Finished ''rejected''))
              else Write_Then [SOCKS_VERSION, AUTH_NONE] (readConnectRequest serve_request)))"

section \<open>Running it\<close>

text \<open>The buffered reader and the socket under the function. \<open>skc_settled\<close>: the promise of the function has its value.\<close>

record socks_connection =
  skc_program :: socks_io
  skc_buffer :: bytes
  skc_closed :: bool
  skc_error :: bool
  skc_settled :: bool

datatype socks_effect =
    Sock_Write bytes
  | Sock_End
  | Tunnel_Request js_text nat
  | Tunnel_Write bytes
  | Tunnel_End
  | Outcome string

definition socks_start :: socks_connection where
  "socks_start = \<lparr>skc_program = handleSocksConnection, skc_buffer = [], skc_closed = False, skc_error = False, skc_settled = False\<rparr>"

definition finish_socks :: "string \<Rightarrow> socks_connection \<Rightarrow> socks_effect list \<times> socks_connection" where
  "finish_socks status s = (if skc_settled s then ([], s) else ([Outcome status], s\<lparr>skc_settled := True\<rparr>))"

text \<open>\<open>catch\<close>: a rejected read ends the connection. A socket that had an error is destroyed, and \<open>safeEnd\<close> does nothing.\<close>

definition fail_socks :: "socks_connection \<Rightarrow> socks_effect list \<times> socks_connection" where
  "fail_socks s =
     (if skc_error s then finish_socks ''malformed'' (s\<lparr>skc_program := Finished ''malformed''\<rparr>)
      else ([Sock_End], s\<lparr>skc_program := End_Then (Finished ''malformed'')\<rparr>))"

text \<open>A write or an end is made when the program gets there; it then waits for the completion. Bytes that were read past the
  handshake go to the tunnel before the two streams are piped; an end that came before is passed on.\<close>

primrec advance :: "socks_io \<Rightarrow> socks_connection \<Rightarrow> socks_effect list \<times> socks_connection" where
  "advance (Finished status) s = finish_socks status (s\<lparr>skc_program := Finished status\<rparr>)"
| "advance (Read_Exactly n k) s =
     (if skc_error s then fail_socks s
      else if n \<le> length (skc_buffer s) then advance (k (take n (skc_buffer s))) (s\<lparr>skc_buffer := drop n (skc_buffer s)\<rparr>)
      else if skc_closed s then fail_socks s
      else ([], s\<lparr>skc_program := Read_Exactly n k\<rparr>))"
| "advance (Write_Then data p) s =
     (if skc_error s then advance p s else ([Sock_Write data], s\<lparr>skc_program := Write_Then data p\<rparr>))"
| "advance (End_Then p) s = (if skc_error s then advance p s else ([Sock_End], s\<lparr>skc_program := End_Then p\<rparr>))"
| "advance (Open_Tunnel host port k) s = ([Tunnel_Request host port], s\<lparr>skc_program := Open_Tunnel host port k\<rparr>)"
| "advance Piping s =
     ((if skc_buffer s = [] then [] else [Tunnel_Write (skc_buffer s)]) @ (if skc_closed s then [Tunnel_End] else []),
      s\<lparr>skc_program := Piping, skc_buffer := []\<rparr>)"

datatype socks_event =
    Chunk bytes
  | Sock_Ended
  | Sock_Errored
  | Read_Timeout
  | Written
  | Tunnel_Opened
  | Tunnel_Failed string
  | Tunnel_Data bytes
  | Tunnel_Ended
  | Tunnel_Errored

definition drain :: "socks_connection \<Rightarrow> socks_effect list \<times> socks_connection" where
  "drain s = (case skc_program s of Read_Exactly n k \<Rightarrow> advance (Read_Exactly n k) s | _ \<Rightarrow> ([], s))"

definition also_finish :: "socks_effect list \<Rightarrow> socks_connection \<Rightarrow> socks_effect list \<times> socks_connection" where
  "also_finish es s = (case finish_socks ''ok'' s of (fs, s) \<Rightarrow> (es @ fs, s))"

definition socks_step :: "socks_event \<Rightarrow> socks_connection \<Rightarrow> socks_effect list \<times> socks_connection" where
  "socks_step ev s =
     (case ev of
        Chunk data \<Rightarrow>
          (if skc_program s = Piping then ([Tunnel_Write data], s) else drain (s\<lparr>skc_buffer := skc_buffer s @ data\<rparr>))
      | Sock_Ended \<Rightarrow>
          (if skc_program s = Piping then also_finish [Tunnel_End] s else drain (s\<lparr>skc_closed := True\<rparr>))
      | Sock_Errored \<Rightarrow>
          (if skc_program s = Piping then also_finish [] s else drain (s\<lparr>skc_error := True\<rparr>))
      | Read_Timeout \<Rightarrow> (case skc_program s of Read_Exactly n k \<Rightarrow> fail_socks s | _ \<Rightarrow> ([], s))
      | Written \<Rightarrow> (case skc_program s of Write_Then data p \<Rightarrow> advance p s | End_Then p \<Rightarrow> advance p s | _ \<Rightarrow> ([], s))
      | Tunnel_Opened \<Rightarrow> (case skc_program s of Open_Tunnel host port k \<Rightarrow> advance (k None) s | _ \<Rightarrow> ([], s))
      | Tunnel_Failed code \<Rightarrow> (case skc_program s of Open_Tunnel host port k \<Rightarrow> advance (k (Some code)) s | _ \<Rightarrow> ([], s))
      | Tunnel_Data data \<Rightarrow> (if skc_program s = Piping then ([Sock_Write data], s) else ([], s))
      | Tunnel_Ended \<Rightarrow> (if skc_program s = Piping then also_finish [Sock_End] s else ([], s))
      | Tunnel_Errored \<Rightarrow> (if skc_program s = Piping then also_finish [] s else ([], s)))"

fun socks_run :: "socks_event list \<Rightarrow> socks_connection \<Rightarrow> socks_effect list \<times> socks_connection" where
  "socks_run [] s = ([], s)"
| "socks_run (ev # evs) s =
     (case socks_step ev s of (es, s) \<Rightarrow> (case socks_run evs s of (fs, s) \<Rightarrow> (es @ fs, s)))"

end
