(* ===== verification/V2_Socks_Props.thy ===== *)
theory V2_Socks_Props
  imports V2_Socks
begin

text \<open>
  The SOCKS server: what happens does not depend on how the client's bytes are cut into chunks or how they interleave with the
  completions of writes; a well-formed request gets its tunnel and everything after it goes through unchanged; and no
  history opens a tunnel without such a request.
\<close>

section \<open>Chunks\<close>

definition tunnel_bytes :: "socks_effect list \<Rightarrow> bytes" where
  "tunnel_bytes es = concat (map (\<lambda>e. case e of Tunnel_Write d \<Rightarrow> d | _ \<Rightarrow> []) es)"

definition visible :: "socks_effect list \<Rightarrow> socks_effect list" where
  "visible es = filter (\<lambda>e. case e of Tunnel_Write d \<Rightarrow> False | _ \<Rightarrow> True) es"

text \<open>The same effects, up to the cutting of what goes into the tunnel.\<close>

definition same_view :: "socks_effect list \<times> socks_connection \<Rightarrow> socks_effect list \<times> socks_connection \<Rightarrow> bool" where
  "same_view a b \<longleftrightarrow> snd a = snd b \<and> visible (fst a) = visible (fst b) \<and> tunnel_bytes (fst a) = tunnel_bytes (fst b)"

lemma view_append [simp]:
  "tunnel_bytes (es @ fs) = tunnel_bytes es @ tunnel_bytes fs" "visible (es @ fs) = visible es @ visible fs"
  by (simp_all add: tunnel_bytes_def visible_def)

lemma view_simps [simp]:
  "tunnel_bytes [] = []" "visible [] = []" "tunnel_bytes [Tunnel_Write d] = d" "visible [Tunnel_Write d] = []"
  by (simp_all add: tunnel_bytes_def visible_def)

lemma same_view_refl [simp]: "same_view a a" by (simp add: same_view_def)

lemma same_view_sym: "same_view a b \<Longrightarrow> same_view b a" by (simp add: same_view_def)

lemma same_view_trans: "same_view a b \<Longrightarrow> same_view b c \<Longrightarrow> same_view a c" by (simp add: same_view_def)

lemma socks_run_append:
  "socks_run (xs @ ys) s = (let (es, t) = socks_run xs s; (fs, u) = socks_run ys t in (es @ fs, u))"
  by (induction xs arbitrary: s) (auto simp: Let_def split: prod.splits)

lemma same_view_after: "same_view (socks_run xs s) (socks_run ys s) \<Longrightarrow> same_view (socks_run (xs @ zs) s) (socks_run (ys @ zs) s)"
  by (auto simp: same_view_def socks_run_append Let_def split: prod.splits)

lemma same_view_before:
  "same_view (socks_run xs (snd (socks_run ps s))) (socks_run ys (snd (socks_run ps s))) \<Longrightarrow> same_view (socks_run (ps @ xs) s) (socks_run (ps @ ys) s)"
  by (auto simp: same_view_def socks_run_append Let_def split: prod.splits)

text \<open>A connection on which nothing has gone wrong, and one whose program really waits.\<close>

definition healthy :: "socks_connection \<Rightarrow> bool" where "healthy s \<longleftrightarrow> \<not> skc_closed s \<and> \<not> skc_error s"

definition blocked :: "socks_connection \<Rightarrow> bool" where
  "blocked s \<longleftrightarrow> (case skc_program s of Read_Exactly n k \<Rightarrow> length (skc_buffer s) < n | _ \<Rightarrow> True)"

lemma advance_healthy: "healthy s \<Longrightarrow> healthy (snd (advance p s)) \<and> blocked (snd (advance p s))"
proof (induction p arbitrary: s)
  case (Read_Exactly n k)
  then show ?case by (auto simp: healthy_def blocked_def)
qed (auto simp: healthy_def blocked_def finish_socks_def)

lemma chunk_waits:
  "skc_program s \<noteq> Piping \<Longrightarrow> (\<nexists>n k. skc_program s = Read_Exactly n k) \<Longrightarrow> socks_step (Chunk d) s = ([], s\<lparr>skc_buffer := skc_buffer s @ d\<rparr>)"
  by (cases "skc_program s") (simp_all add: socks_step_def drain_def)

lemma buffer_inside [simp]:
  "s\<lparr>skc_program := p, skc_buffer := b\<rparr> = s\<lparr>skc_buffer := b, skc_program := p\<rparr>"
  "s\<lparr>skc_settled := x, skc_buffer := b\<rparr> = s\<lparr>skc_buffer := b, skc_settled := x\<rparr>"
  by simp_all

lemma advance_program [simp]: "advance p (s\<lparr>skc_program := q\<rparr>) = advance p s"
proof (induction p arbitrary: s)
  case (Read_Exactly n k)
  show ?case using Read_Exactly.IH [of "k (take n (skc_buffer s))" "s\<lparr>skc_buffer := drop n (skc_buffer s)\<rparr>"]
    by (simp add: fail_socks_def finish_socks_def)
qed (simp_all add: finish_socks_def)

lemma advance_chunk:
  assumes "healthy s"
  shows "same_view (let (es, t) = advance p s; (fs, u) = socks_step (Chunk d) t in (es @ fs, u)) (advance p (s\<lparr>skc_buffer := skc_buffer s @ d\<rparr>))"
  using assms
proof (induction p arbitrary: s)
  case (Read_Exactly n k)
  show ?case
  proof (cases "n \<le> length (skc_buffer s)")
    case True
    have h: "healthy (s\<lparr>skc_buffer := drop n (skc_buffer s)\<rparr>)" using Read_Exactly.prems by (simp add: healthy_def)
    show ?thesis using Read_Exactly.IH [OF _ h, of "k (take n (skc_buffer s))"] True Read_Exactly.prems by (simp add: healthy_def)
  next
    case False
    then show ?thesis using Read_Exactly.prems by (simp add: healthy_def socks_step_def drain_def)
  qed
next
  case (Finished status)
  then show ?case by (auto simp: finish_socks_def socks_step_def drain_def)
qed (auto simp: healthy_def socks_step_def drain_def same_view_def)

text \<open>Completions and answers that come while the program waits for them.\<close>

definition awaited :: "socks_event \<Rightarrow> socks_connection \<Rightarrow> bool" where
  "awaited ev s \<longleftrightarrow> (case (ev, skc_program s) of
      (Written, Write_Then data p) \<Rightarrow> True
    | (Written, End_Then p) \<Rightarrow> True
    | (Tunnel_Opened, Open_Tunnel host port k) \<Rightarrow> True
    | (Tunnel_Failed code, Open_Tunnel host port k) \<Rightarrow> True
    | _ \<Rightarrow> False)"

fun awaited_run :: "socks_event list \<Rightarrow> socks_connection \<Rightarrow> bool" where
  "awaited_run [] s \<longleftrightarrow> True"
| "awaited_run (ev # evs) s \<longleftrightarrow> ((case ev of Chunk d \<Rightarrow> True | _ \<Rightarrow> awaited ev s) \<and> awaited_run evs (snd (socks_step ev s)))"

definition sent :: "socks_event list \<Rightarrow> bytes" where
  "sent evs = concat (map (\<lambda>ev. case ev of Chunk d \<Rightarrow> d | _ \<Rightarrow> []) evs)"

definition controls :: "socks_event list \<Rightarrow> socks_event list" where
  "controls evs = filter (\<lambda>ev. case ev of Chunk d \<Rightarrow> False | _ \<Rightarrow> True) evs"

lemma sent_simps [simp]: "sent [] = []" "sent (Chunk d # evs) = d @ sent evs" "controls [] = []" "controls (Chunk d # evs) = controls evs"
  by (simp_all add: sent_def controls_def)

lemma awaited_step:
  assumes "awaited ev s"
  obtains p where "socks_step ev s = advance p s" "\<And>d. socks_step ev (s\<lparr>skc_buffer := d\<rparr>) = advance p (s\<lparr>skc_buffer := d\<rparr>)"
    "sent (ev # evs) = sent evs" "controls (ev # evs) = ev # controls evs"
    "\<And>d. socks_step (Chunk d) s = ([], s\<lparr>skc_buffer := skc_buffer s @ d\<rparr>)"
proof (cases ev)
  case Written
  then show ?thesis using assms that
    by (cases "skc_program s") (simp_all add: awaited_def socks_step_def sent_def controls_def drain_def)
next
  case Tunnel_Opened
  then show ?thesis using assms that
    by (cases "skc_program s") (simp_all add: awaited_def socks_step_def sent_def controls_def drain_def)
next
  case (Tunnel_Failed code)
  then show ?thesis using assms that
    by (cases "skc_program s") (simp_all add: awaited_def socks_step_def sent_def controls_def drain_def)
qed (use assms in \<open>simp_all add: awaited_def\<close>)

lemma two_chunks:
  assumes "healthy s"
  shows "same_view (socks_run [Chunk d, Chunk e] s) (socks_run [Chunk (d @ e)] s)"
proof (cases "\<exists>n k. skc_program s = Read_Exactly n k")
  case True
  then obtain n k where p: "skc_program s = Read_Exactly n k" by blast
  have "same_view (let (es, t) = advance (Read_Exactly n k) (s\<lparr>skc_buffer := skc_buffer s @ d\<rparr>); (fs, u) = socks_step (Chunk e) t in (es @ fs, u))
      (advance (Read_Exactly n k) (s\<lparr>skc_buffer := skc_buffer s @ d @ e\<rparr>))"
    using advance_chunk [of "s\<lparr>skc_buffer := skc_buffer s @ d\<rparr>" "Read_Exactly n k" e] assms by (simp add: healthy_def)
  then show ?thesis using p
    by (simp add: socks_step_def drain_def Let_def same_view_def del: advance.simps split: prod.splits)
next
  case False
  then show ?thesis
  proof (cases "skc_program s = Piping")
    case True
    then show ?thesis by (simp add: socks_step_def same_view_def tunnel_bytes_def visible_def)
  next
    case nPiping: False
    then show ?thesis using False chunk_waits [of s] chunk_waits [of "s\<lparr>skc_buffer := skc_buffer s @ d\<rparr>"] by simp
  qed
qed

lemma no_chunk:
  assumes "healthy s" "blocked s"
  shows "same_view ([], s) (socks_run [Chunk []] s)"
proof (cases "skc_program s")
  case (Read_Exactly n k)
  then have "socks_run [Chunk []] s = ([], s)" using assms by (simp add: socks_step_def drain_def blocked_def healthy_def)
  then show ?thesis by simp
qed (auto simp: socks_step_def drain_def same_view_def)

lemma chunk_first:
  assumes "healthy s" "awaited ev s"
  shows "same_view (socks_run [ev, Chunk d] s) (socks_run [Chunk d, ev] s)"
proof -
  obtain p where p: "socks_step ev s = advance p s" "socks_step ev (s\<lparr>skc_buffer := skc_buffer s @ d\<rparr>) = advance p (s\<lparr>skc_buffer := skc_buffer s @ d\<rparr>)"
    "socks_step (Chunk d) s = ([], s\<lparr>skc_buffer := skc_buffer s @ d\<rparr>)" using awaited_step [OF assms(2)] by metis
  show ?thesis using advance_chunk [OF assms(1), of p d] p by (auto simp: Let_def split: prod.splits)
qed

lemma step_healthy:
  assumes "healthy s" "blocked s" "case ev of Chunk d \<Rightarrow> True | _ \<Rightarrow> awaited ev s"
  shows "healthy (snd (socks_step ev s)) \<and> blocked (snd (socks_step ev s))"
proof (cases ev)
  case (Chunk d)
  show ?thesis
  proof (cases "\<exists>n k. skc_program s = Read_Exactly n k")
    case True
    then obtain n k where p: "skc_program s = Read_Exactly n k" by blast
    then show ?thesis using Chunk assms(1) advance_healthy [of "s\<lparr>skc_buffer := skc_buffer s @ d\<rparr>" "Read_Exactly n k"]
      by (simp add: socks_step_def drain_def healthy_def del: advance.simps)
  next
    case False
    then show ?thesis using Chunk assms chunk_waits [of s d] by (cases "skc_program s = Piping") (auto simp: socks_step_def healthy_def blocked_def split: socks_io.splits)
  qed
qed (use assms advance_healthy [OF assms(1)] awaited_step in \<open>(metis socks_event.simps)+\<close>)

lemma chunks_first:
  "healthy s \<Longrightarrow> blocked s \<Longrightarrow> awaited_run evs s \<Longrightarrow> same_view (socks_run evs s) (socks_run (Chunk (sent evs) # controls evs) s)"
proof (induction evs arbitrary: s)
  case Nil
  then show ?case using no_chunk [of s] by simp
next
  case (Cons ev evs)
  have a: "case ev of Chunk d \<Rightarrow> True | _ \<Rightarrow> awaited ev s" "awaited_run evs (snd (socks_step ev s))" using Cons.prems(3) by simp_all
  have one: "snd (socks_run [ev] s) = snd (socks_step ev s)" by (simp split: prod.splits)
  note h = step_healthy [OF Cons.prems(1,2) a(1)]
  have ih: "same_view (socks_run ([ev] @ evs) s) (socks_run ([ev] @ Chunk (sent evs) # controls evs) s)"
    by (rule same_view_before) (unfold one, rule Cons.IH [OF h [THEN conjunct1] h [THEN conjunct2] a(2)])
  show ?case
  proof (cases "\<exists>d. ev = Chunk d")
    case True
    then obtain d where d: "ev = Chunk d" by blast
    have "same_view (socks_run ([Chunk d, Chunk (sent evs)] @ controls evs) s) (socks_run ([Chunk (d @ sent evs)] @ controls evs) s)"
      by (rule same_view_after [OF two_chunks [OF Cons.prems(1)]])
    then show ?thesis using same_view_trans [OF ih] d by simp
  next
    case False
    then have w: "awaited ev s" using a(1) by (cases ev) simp_all
    have "same_view (socks_run ([ev, Chunk (sent evs)] @ controls evs) s) (socks_run ([Chunk (sent evs), ev] @ controls evs) s)"
      by (rule same_view_after [OF chunk_first [OF Cons.prems(1) w]])
    moreover have "sent (ev # evs) = sent evs" "controls (ev # evs) = ev # controls evs" using awaited_step [OF w] by metis+
    ultimately show ?thesis using same_view_trans [OF ih] by simp
  qed
qed

lemma start_blocked: "healthy socks_start" "blocked socks_start"
  by (simp_all add: healthy_def blocked_def socks_start_def handleSocksConnection_def)

text \<open>C38. The outcome does not depend on timing, in histories of chunks, of completions of writes and of answers of the tunnel, the
  last two when they are waited for (ends, errors and timeouts do matter, see \<open>tunnel\_only\_on\_request\<close>). However the client's
  bytes are cut into chunks, and however these interleave with the completions and the answer, the connection makes the same replies, asks for the same tunnel
  in the same order, gives it the same bytes and ends in the same state as if all bytes had been there at once.\<close>

theorem socks_timing_irrelevant:
  assumes "awaited_run evs socks_start"
  shows "snd (socks_run evs socks_start) = snd (socks_run (Chunk (sent evs) # controls evs) socks_start)
    \<and> visible (fst (socks_run evs socks_start)) = visible (fst (socks_run (Chunk (sent evs) # controls evs) socks_start))
    \<and> tunnel_bytes (fst (socks_run evs socks_start)) = tunnel_bytes (fst (socks_run (Chunk (sent evs) # controls evs) socks_start))"
  using chunks_first [OF start_blocked assms] by (simp add: same_view_def)

section \<open>A well-formed request\<close>

datatype socks_destination = To_Ipv4 bytes | To_Ipv6 bytes | To_Name bytes

fun destination_ok :: "socks_destination \<Rightarrow> bool" where
  "destination_ok (To_Ipv4 ip) \<longleftrightarrow> length ip = 4"
| "destination_ok (To_Ipv6 ip) \<longleftrightarrow> length ip = 16"
| "destination_ok (To_Name bs) \<longleftrightarrow> 0 < length bs \<and> length bs < 256"

fun destination_bytes :: "socks_destination \<Rightarrow> bytes" where
  "destination_bytes (To_Ipv4 ip) = ATYP_IPV4 # ip"
| "destination_bytes (To_Ipv6 ip) = ATYP_IPV6 # ip"
| "destination_bytes (To_Name bs) = ATYP_DOMAIN # u8 (length bs) # bs"

fun destination_host :: "socks_destination \<Rightarrow> js_text" where
  "destination_host (To_Ipv4 ip) = ipv4_host ip"
| "destination_host (To_Ipv6 ip) = ipv6_host ip"
| "destination_host (To_Name bs) = utf8_toString bs"

definition greeting :: "bytes \<Rightarrow> bytes" where
  "greeting methods = SOCKS_VERSION # u8 (length methods) # methods"

definition connect_request :: "socks_destination \<Rightarrow> bytes \<Rightarrow> bytes" where
  "connect_request d port = SOCKS_VERSION # CMD_CONNECT # 0 # destination_bytes d @ port"

lemma read_request:
  assumes "destination_ok d" "length port = 2" "healthy s" "skc_buffer s = connect_request d port @ rest"
  shows "advance (readConnectRequest serve_request) s = ([Tunnel_Request (destination_host d) (be_val port)],
    s\<lparr>skc_buffer := rest, skc_program := Open_Tunnel (destination_host d) (be_val port) (\<lambda>r.
              case r of
                Some code \<Rightarrow> Write_Then (buildReply (tunnel_reply code)) (End_Then (Finished ''tunnel-failed''))
              | None \<Rightarrow> Write_Then (buildReply REP_SUCCESS) Piping)\<rparr>)"
proof (cases d)
  case (To_Ipv4 ip)
  then show ?thesis using assms
    by (simp add: readConnectRequest_def connect_request_def read_port_def serve_request_def healthy_def Let_def)
next
  case (To_Ipv6 ip)
  then show ?thesis using assms
    by (simp add: readConnectRequest_def connect_request_def read_port_def serve_request_def healthy_def Let_def)
next
  case (To_Name bs)
  then show ?thesis using assms
    by (simp add: readConnectRequest_def connect_request_def read_port_def serve_request_def healthy_def Let_def unat_u8_id)
qed

text \<open>A client that offers no authentication and asks for a connection gets it: whatever the timing, the server selects the method,
  asks the factory for the very host and port of the request, reports success, and every byte after the request, and no other,
  goes into the tunnel in order.\<close>

theorem socks_connects:
  assumes "awaited_run evs socks_start" "sent evs = greeting methods @ connect_request d port @ rest"
    and "controls evs = [Written, Tunnel_Opened, Written]"
    and "AUTH_NONE \<in> set methods" "length methods < 256" "destination_ok d" "length port = 2"
  shows "visible (fst (socks_run evs socks_start)) = [Sock_Write [SOCKS_VERSION, AUTH_NONE],
      Tunnel_Request (destination_host d) (be_val port), Sock_Write (buildReply REP_SUCCESS)]
    \<and> tunnel_bytes (fst (socks_run evs socks_start)) = rest \<and> skc_program (snd (socks_run evs socks_start)) = Piping"
proof -
  have m: "methods \<noteq> []" "unat (u8 (length methods)) = length methods" using assms(4,5) by (auto simp: unat_u8_id)
  let ?s = "socks_start\<lparr>skc_buffer := connect_request d port @ rest,
      skc_program := Write_Then [SOCKS_VERSION, AUTH_NONE] (readConnectRequest serve_request)\<rparr>"
  have 1: "socks_step (Chunk (sent evs)) socks_start = ([Sock_Write [SOCKS_VERSION, AUTH_NONE]], ?s)"
    using assms(2,4) m by (simp add: socks_step_def drain_def socks_start_def handleSocksConnection_def greeting_def Let_def)
  have h: "healthy ?s" "skc_buffer ?s = connect_request d port @ rest" by (simp_all add: healthy_def socks_start_def)
  have 2: "socks_step Written ?s = advance (readConnectRequest serve_request) ?s" by (simp add: socks_step_def)
  show ?thesis
    using socks_timing_irrelevant [OF assms(1)] 1 2 read_request [OF assms(6,7) h] unfolding assms(3)
    by (simp add: socks_step_def socks_start_def tunnel_bytes_def visible_def)
qed

text \<open>An address type that is not known is answered like garbage: the reply for it cannot be sent.\<close>

lemma unknown_type_general_failure:
  assumes "atyp \<notin> {ATYP_IPV4, ATYP_IPV6, ATYP_DOMAIN}" "healthy s" "skc_buffer s = SOCKS_VERSION # CMD_CONNECT # 0 # atyp # rest"
  shows "fst (advance (readConnectRequest serve_request) s) = [Sock_Write (buildReply REP_GENERAL_FAILURE)]"
  using assms by (simp add: readConnectRequest_def serve_request_def healthy_def Let_def)

section \<open>No tunnel without a request\<close>

text \<open>Where a program can get to, and the bytes that it reads on the way.\<close>

inductive gets :: "socks_io \<Rightarrow> bytes \<Rightarrow> socks_io \<Rightarrow> bool" where
  Gets_Here: "gets p [] p"
| Gets_Read: "gets (k d) c q \<Longrightarrow> length d = n \<Longrightarrow> gets (Read_Exactly n k) (d @ c) q"
| Gets_Failed: "gets (End_Then (Finished ''malformed'')) c q \<Longrightarrow> gets (Read_Exactly n k) c q"
| Gets_Write: "gets p c q \<Longrightarrow> gets (Write_Then data p) c q"
| Gets_End: "gets p c q \<Longrightarrow> gets (End_Then p) c q"
| Gets_Tunnel: "gets (k r) c q \<Longrightarrow> gets (Open_Tunnel host port k) c q"

inductive_simps gets_finished: "gets (Finished status) c q"
inductive_simps gets_read: "gets (Read_Exactly n k) c q"
inductive_simps gets_write: "gets (Write_Then data p) c q"
inductive_simps gets_end: "gets (End_Then p) c q"
inductive_simps gets_tunnel: "gets (Open_Tunnel host port k) c q"

lemma gets_trans: "gets p c q \<Longrightarrow> gets q c' r \<Longrightarrow> gets p (c @ c') r"
  by (induction arbitrary: c' rule: gets.induct) (auto intro: gets.intros)

lemma gets_malformed: "gets (Read_Exactly n k) [] (Finished ''malformed'')" "gets (Read_Exactly n k) [] (End_Then (Finished ''malformed''))"
  by (auto intro: gets.intros)

text \<open>What the connection has done so far, with the bytes that it has received: the buffer holds the rest of what the program has
  read, until everything goes into the tunnel.\<close>

definition requests_ok :: "bytes \<Rightarrow> socks_effect list \<Rightarrow> bool" where
  "requests_ok received es \<longleftrightarrow> (\<forall>host port. Tunnel_Request host port \<in> set es \<longrightarrow>
     (\<exists>c k rest. gets handleSocksConnection c (Open_Tunnel host port k) \<and> received = c @ rest))"

definition socks_inv :: "bytes \<Rightarrow> socks_effect list \<Rightarrow> socks_connection \<Rightarrow> bool" where
  "socks_inv received es s \<longleftrightarrow> requests_ok received es
     \<and> (\<exists>c. gets handleSocksConnection c (skc_program s) \<and> received = c @ (if skc_program s = Piping then tunnel_bytes es else skc_buffer s)
         \<and> (skc_program s \<noteq> Piping \<longrightarrow> tunnel_bytes es = []))"

lemma requests_more: "requests_ok received es \<Longrightarrow> requests_ok (received @ d) es"
  unfolding requests_ok_def by (metis append.assoc)

lemma requests_append: "requests_ok received (es @ fs) \<longleftrightarrow> requests_ok received es \<and> requests_ok received fs"
  by (auto simp: requests_ok_def)

lemma no_requests: "(\<And>host port. Tunnel_Request host port \<notin> set fs) \<Longrightarrow> requests_ok received fs" by (simp add: requests_ok_def)

lemma fail_socks_inv:
  assumes "requests_ok received es" "gets handleSocksConnection c (Read_Exactly n k)" "received = c @ skc_buffer s" "tunnel_bytes es = []"
  shows "socks_inv received (es @ fst (fail_socks s)) (snd (fail_socks s))"
proof -
  have "gets handleSocksConnection c (Finished ''malformed'')" "gets handleSocksConnection c (End_Then (Finished ''malformed''))"
    using gets_trans [OF assms(2) gets_malformed(1)] gets_trans [OF assms(2) gets_malformed(2)] by simp_all
  then show ?thesis using assms
    by (auto simp: socks_inv_def fail_socks_def finish_socks_def requests_append no_requests tunnel_bytes_def)
qed

lemma advance_inv:
  assumes "requests_ok received es" "gets handleSocksConnection c p" "received = c @ skc_buffer s" "tunnel_bytes es = []"
  shows "socks_inv received (es @ fst (advance p s)) (snd (advance p s))"
  using assms
proof (induction p arbitrary: s c)
  case (Read_Exactly n k)
  show ?case
  proof (cases "\<not> skc_error s \<and> n \<le> length (skc_buffer s)")
    case True
    have "gets handleSocksConnection (c @ take n (skc_buffer s)) (k (take n (skc_buffer s)))"
      using gets_trans [OF Read_Exactly.prems(2), of "take n (skc_buffer s) @ []"] Gets_Read [OF Gets_Here, of "take n (skc_buffer s)"] True by simp
    then show ?thesis
      using Read_Exactly.IH [of "k (take n (skc_buffer s))" "c @ take n (skc_buffer s)" "s\<lparr>skc_buffer := drop n (skc_buffer s)\<rparr>"] Read_Exactly.prems True by simp
  next
    case False
    then show ?thesis using fail_socks_inv [OF Read_Exactly.prems] Read_Exactly.prems by (auto simp: socks_inv_def)
  qed
next
  case (Write_Then data p)
  have "gets handleSocksConnection c p" using gets_trans [OF Write_Then.prems(2), of "[]" p] by (simp add: gets.intros)
  then show ?case using Write_Then by (auto simp: socks_inv_def requests_append no_requests tunnel_bytes_def)
next
  case (End_Then p)
  have "gets handleSocksConnection c p" using gets_trans [OF End_Then.prems(2), of "[]" p] by (simp add: gets.intros)
  then show ?case using End_Then by (auto simp: socks_inv_def requests_append no_requests tunnel_bytes_def)
next
  case (Open_Tunnel host port k)
  then show ?case by (auto simp: socks_inv_def requests_ok_def tunnel_bytes_def)
qed (auto simp: socks_inv_def requests_append no_requests finish_socks_def tunnel_bytes_def)

lemma drain_inv:
  assumes "requests_ok received es" "gets handleSocksConnection c (skc_program s)" "received = c @ skc_buffer s" "tunnel_bytes es = []" "skc_program s \<noteq> Piping"
  shows "socks_inv received (es @ fst (drain s)) (snd (drain s))"
proof (cases "\<exists>n k. skc_program s = Read_Exactly n k")
  case True
  then obtain n k where p: "skc_program s = Read_Exactly n k" by blast
  then have d: "drain s = advance (Read_Exactly n k) s" by (simp add: drain_def)
  show ?thesis unfolding d by (rule advance_inv [OF assms(1) assms(2) [unfolded p] assms(3,4)])
next
  case False
  then have "drain s = ([], s)" by (cases "skc_program s") (simp_all add: drain_def)
  then show ?thesis using assms by (auto simp: socks_inv_def)
qed

lemma socks_step_inv:
  assumes "socks_inv received es s"
  shows "socks_inv (received @ sent [ev]) (es @ fst (socks_step ev s)) (snd (socks_step ev s))"
proof -
  obtain c where r: "requests_ok received es" and c: "gets handleSocksConnection c (skc_program s)"
    "received = c @ (if skc_program s = Piping then tunnel_bytes es else skc_buffer s)" "skc_program s \<noteq> Piping \<longrightarrow> tunnel_bytes es = []"
    using assms by (auto simp: socks_inv_def)
  show ?thesis
  proof (cases "skc_program s = Piping")
    case True
    have "socks_inv (received @ sent [ev]) (es @ fs) t" if "skc_program t = Piping" "tunnel_bytes fs = sent [ev]" "\<And>host port. Tunnel_Request host port \<notin> set fs" for fs t
      using that c True requests_more [OF r] by (auto simp: socks_inv_def requests_append no_requests)
    then show ?thesis using True assms
      by (cases ev) (simp_all add: socks_step_def also_finish_def finish_socks_def sent_def tunnel_bytes_def)
  next
    case False
    then have b: "received = c @ skc_buffer s" "tunnel_bytes es = []" using c by simp_all
    have idle: "socks_inv received (es @ []) s" using assms by simp
    have adv: "socks_inv received (es @ fst (advance p s)) (snd (advance p s))" if "gets (skc_program s) [] p" for p
      using advance_inv [OF r gets_trans [OF c(1) that, simplified] b] .
    have dr: "socks_inv received (es @ fst (drain t)) (snd (drain t))" if "skc_program t = skc_program s" "skc_buffer t = skc_buffer s" for t
      using drain_inv [OF r, of c t] that c(1) b False by simp
    have fl: "socks_inv received (es @ fst (fail_socks s)) (snd (fail_socks s))" if "skc_program s = Read_Exactly n k" for n k
      using fail_socks_inv [OF r] c(1) b that by simp
    have tn: "socks_inv received (es @ fst (advance (k r) s)) (snd (advance (k r) s))" if "skc_program s = Open_Tunnel host port k" for host port k r
      by (rule adv, unfold that, rule Gets_Tunnel [OF Gets_Here])
    show ?thesis
    proof (cases ev)
      case (Chunk d)
      then show ?thesis
        using False drain_inv [OF requests_more [OF r, of d], of c "s\<lparr>skc_buffer := skc_buffer s @ d\<rparr>"] c(1) b by (simp add: socks_step_def sent_def)
    qed (use False idle adv tn dr fl in \<open>auto simp: socks_step_def sent_def gets.intros split: socks_io.split\<close>)
  qed
qed

lemma socks_run_inv:
  "socks_inv received es s \<Longrightarrow> socks_inv (received @ sent evs) (es @ fst (socks_run evs s)) (snd (socks_run evs s))"
proof (induction evs arbitrary: received es s)
  case (Cons ev evs)
  obtain fs t where t: "socks_step ev s = (fs, t)" by (cases "socks_step ev s")
  obtain gs u where u: "socks_run evs t = (gs, u)" by (cases "socks_run evs t")
  have "sent (ev # evs) = sent [ev] @ sent evs" by (simp add: sent_def)
  then show ?case using Cons.IH [OF socks_step_inv [OF Cons.prems, of ev]] t u by simp
qed simp

text \<open>The only way through the program to a tunnel.\<close>

lemma gets_serve:
  "gets (serve_request req) c (Open_Tunnel host port k) \<Longrightarrow>
    c = [] \<and> (\<exists>r. req = Some r \<and> srq_cmd r = CMD_CONNECT \<and> srq_host r = host \<and> srq_port r = port)"
  by (auto simp: serve_request_def gets_finished gets_write gets_end gets_tunnel split: option.splits if_splits elim: gets.cases)

lemma gets_port:
  assumes "gets (read_port cmd atyp h serve_request) c (Open_Tunnel host port k)"
  shows "length c = 2 \<and> cmd = CMD_CONNECT \<and> h = host \<and> be_val c = port"
proof -
  obtain d c' where d: "length d = 2" "c = d @ c'"
    "gets (serve_request (Some \<lparr>srq_cmd = cmd, srq_atyp = atyp, srq_host = h, srq_port = be_val d\<rparr>)) c' (Open_Tunnel host port k)"
    using assms by (auto simp: read_port_def gets_read gets_end gets_finished)
  show ?thesis using gets_serve [OF d(3)] d(1,2) by simp
qed

lemma bytes4: "length (d :: bytes) = 4 \<Longrightarrow> d = [d ! 0, d ! 1, d ! 2, d ! 3]"
  by (rule nth_equalityI) (auto simp: less_Suc_eq numeral_eq_Suc)

lemma gets_request:
  assumes "gets (readConnectRequest serve_request) c (Open_Tunnel host port k)"
  shows "\<exists>d p. destination_ok d \<and> length p = 2 \<and> c = connect_request d p \<and> host = destination_host d \<and> port = be_val p"
proof -
  obtain hd c1 where h: "length hd = 4" "c = hd @ c1" "hd ! 0 = SOCKS_VERSION" "hd ! 2 = 0"
    and g: "gets (let cmd = hd ! 1; atyp = hd ! 3
         in if atyp = ATYP_IPV4 then Read_Exactly 4 (\<lambda>ip. read_port cmd atyp (ipv4_host ip) serve_request)
            else if atyp = ATYP_IPV6 then Read_Exactly 16 (\<lambda>ip. read_port cmd atyp (ipv6_host ip) serve_request)
            else if atyp = ATYP_DOMAIN then
              Read_Exactly 1 (\<lambda>lenByte.
                let nameLen = unat (lenByte ! 0)
                in if nameLen = 0 then serve_request None
                   else Read_Exactly nameLen (\<lambda>nameBytes. read_port cmd atyp (utf8_toString nameBytes) serve_request))
            else serve_request None) c1 (Open_Tunnel host port k)"
    using assms by (auto simp: readConnectRequest_def gets_read gets_end gets_finished dest: gets_serve split: if_splits)
  have hb: "hd = [SOCKS_VERSION, hd ! 1, 0, hd ! 3]" using bytes4 [OF h(1)] h(3,4) by simp
  consider (ipv4) ip c2 where "hd ! 3 = ATYP_IPV4" "length ip = 4" "c1 = ip @ c2" "gets (read_port (hd ! 1) (hd ! 3) (ipv4_host ip) serve_request) c2 (Open_Tunnel host port k)"
    | (ipv6) ip c2 where "hd ! 3 = ATYP_IPV6" "length ip = 16" "c1 = ip @ c2" "gets (read_port (hd ! 1) (hd ! 3) (ipv6_host ip) serve_request) c2 (Open_Tunnel host port k)"
    | (name) l bs c2 where "hd ! 3 = ATYP_DOMAIN" "length l = 1" "unat (l ! 0) \<noteq> 0" "length bs = unat (l ! 0)" "c1 = l @ bs @ c2"
        "gets (read_port (hd ! 1) (hd ! 3) (utf8_toString bs) serve_request) c2 (Open_Tunnel host port k)"
    using g by (auto simp: Let_def gets_read gets_end gets_finished dest: gets_serve split: if_splits)
  then show ?thesis
  proof cases
    case ipv4
    note p = gets_port [OF ipv4(4)]
    have "c = connect_request (To_Ipv4 ip) c2" using h(2) hb ipv4(1,3) p by (simp add: connect_request_def)
    then show ?thesis using p ipv4(2) by (intro exI [of _ "To_Ipv4 ip"] exI [of _ c2]) simp
  next
    case ipv6
    note p = gets_port [OF ipv6(4)]
    have "c = connect_request (To_Ipv6 ip) c2" using h(2) hb ipv6(1,3) p by (simp add: connect_request_def)
    then show ?thesis using p ipv6(2) by (intro exI [of _ "To_Ipv6 ip"] exI [of _ c2]) simp
  next
    case name
    have l: "l = [u8 (length bs)]" using name(2,4) by (cases l) auto
    have "length bs < 256" using name(4) unat_byte_bound [of "l ! 0"] by simp
    note p = gets_port [OF name(6)]
    have "c = connect_request (To_Name bs) c2" using h(2) hb name(1,5) l p by (simp add: connect_request_def)
    then show ?thesis using p name(3,4) \<open>length bs < 256\<close> by (intro exI [of _ "To_Name bs"] exI [of _ c2]) auto
  qed
qed

lemma gets_handler:
  assumes "gets handleSocksConnection c (Open_Tunnel host port k)"
  shows "\<exists>methods d p. AUTH_NONE \<in> set methods \<and> length methods < 256 \<and> destination_ok d \<and> length p = 2
    \<and> c = greeting methods @ connect_request d p \<and> host = destination_host d \<and> port = be_val p"
proof -
  obtain g methods c' where g: "length g = 2" "g ! 0 = SOCKS_VERSION" "length methods = unat (g ! 1)" "AUTH_NONE \<in> set methods" "c = g @ methods @ c'"
    and r: "gets (readConnectRequest serve_request) c' (Open_Tunnel host port k)"
    using assms by (auto simp: handleSocksConnection_def Let_def gets_read gets_write gets_end gets_finished split: if_splits)
  have "g = [g ! 0, g ! 1]" using g(1) by (intro nth_equalityI) (auto simp: less_Suc_eq numeral_2_eq_2)
  then have "g = [SOCKS_VERSION, u8 (length methods)]" using g(2,3) by simp
  moreover have "length methods < 256" using g(3) unat_byte_bound [of "g ! 1"] by simp
  ultimately show ?thesis using gets_request [OF r] g(4,5) unfolding greeting_def by (metis append.assoc append_Cons append_Nil)
qed

text \<open>No tunnel without a request, in no history at all: timeouts, errors, half-closed sockets and failing tunnels included, the server
  asks the factory for a tunnel only when the bytes that it has received begin with a greeting that offers no authentication and
  a CONNECT request, for exactly the host and port of this request. As long as the tunnel is there, what went into it is
  what followed the program's reading, and while it is not, nothing has.\<close>

theorem tunnel_only_on_request:
  shows "list_all (\<lambda>e. case e of Tunnel_Request host port \<Rightarrow>
      (\<exists>methods d p rest. sent evs = greeting methods @ connect_request d p @ rest \<and> AUTH_NONE \<in> set methods \<and> length methods < 256
        \<and> destination_ok d \<and> length p = 2 \<and> host = destination_host d \<and> port = be_val p) | _ \<Rightarrow> True) (fst (socks_run evs socks_start))
    \<and> (\<exists>read. sent evs = read @ (if skc_program (snd (socks_run evs socks_start)) = Piping
        then tunnel_bytes (fst (socks_run evs socks_start)) else skc_buffer (snd (socks_run evs socks_start))))"
proof -
  have "socks_inv [] [] socks_start" by (auto simp: socks_inv_def requests_ok_def socks_start_def handleSocksConnection_def intro: gets.intros)
  from socks_run_inv [OF this, of evs] have i: "socks_inv (sent evs) (fst (socks_run evs socks_start)) (snd (socks_run evs socks_start))" by simp
  have "\<exists>methods d p rest. sent evs = greeting methods @ connect_request d p @ rest \<and> AUTH_NONE \<in> set methods \<and> length methods < 256
        \<and> destination_ok d \<and> length p = 2 \<and> host = destination_host d \<and> port = be_val p"
    if t: "Tunnel_Request host port \<in> set (fst (socks_run evs socks_start))" for host port
  proof -
    have "requests_ok (sent evs) (fst (socks_run evs socks_start))" using i by (simp add: socks_inv_def)
    then obtain c k rest where c: "gets handleSocksConnection c (Open_Tunnel host port k)" "sent evs = c @ rest"
      using t unfolding requests_ok_def by blast
    obtain methods d p where g: "AUTH_NONE \<in> set methods" "length methods < 256" "destination_ok d" "length p = 2"
      "c = greeting methods @ connect_request d p" "host = destination_host d" "port = be_val p"
      using gets_handler [OF c(1)] by blast
    show ?thesis
      by (rule exI [of _ methods], rule exI [of _ d], rule exI [of _ p], rule exI [of _ rest]) (use g c(2) in simp)
  qed
  moreover have "\<exists>c. sent evs = c @ (if skc_program (snd (socks_run evs socks_start)) = Piping
        then tunnel_bytes (fst (socks_run evs socks_start)) else skc_buffer (snd (socks_run evs socks_start)))"
    using i unfolding socks_inv_def by blast
  ultimately show ?thesis unfolding list_all_iff
  proof (intro conjI ballI)
    fix e
    assume r: "\<And>host port. Tunnel_Request host port \<in> set (fst (socks_run evs socks_start)) \<Longrightarrow>
        \<exists>methods d p rest. sent evs = greeting methods @ connect_request d p @ rest \<and> AUTH_NONE \<in> set methods \<and> length methods < 256
        \<and> destination_ok d \<and> length p = 2 \<and> host = destination_host d \<and> port = be_val p"
      and e: "e \<in> set (fst (socks_run evs socks_start))"
    show "case e of Tunnel_Request host port \<Rightarrow>
        (\<exists>methods d p rest. sent evs = greeting methods @ connect_request d p @ rest \<and> AUTH_NONE \<in> set methods \<and> length methods < 256
        \<and> destination_ok d \<and> length p = 2 \<and> host = destination_host d \<and> port = be_val p) | _ \<Rightarrow> True"
    proof (cases e)
      case (Tunnel_Request host port)
      show ?thesis unfolding Tunnel_Request socks_effect.case by (rule r [OF e [unfolded Tunnel_Request]])
    qed simp_all
  qed
qed

section \<open>Instances\<close>

theorem socks_timing_irrelevant_witness:
  "visible (fst (socks_run [Chunk [5], Chunk [1, 0, 5], Written, Chunk [1, 0]] socks_start))
    = visible (fst (socks_run [Chunk [5, 1, 0, 5, 1, 0], Written] socks_start))"
proof -
  let ?evs = "[Chunk [5], Chunk [1, 0, 5], Written, Chunk [1, 0]]"
  have "awaited_run ?evs socks_start"
    by (simp add: socks_step_def drain_def socks_start_def handleSocksConnection_def awaited_def Let_def)
  moreover have "sent ?evs = [5, 1, 0, 5, 1, 0]" "controls ?evs = [Written]" by (simp_all add: sent_def controls_def)
  ultimately show ?thesis using socks_timing_irrelevant [of ?evs] by simp
qed

theorem socks_connects_witness:
  "visible (fst (socks_run [Chunk ([5, 1, 0] @ [5, 1, 0, 1, 10, 0, 0, 1, 0, 80] @ [7]), Written, Tunnel_Opened, Written, Chunk [8]] socks_start))
    = [Sock_Write [5, 0], Tunnel_Request (ipv4_host [10, 0, 0, 1]) 80, Sock_Write [5, 0, 0, 1, 0, 0, 0, 0, 0, 0]]
   \<and> tunnel_bytes (fst (socks_run [Chunk ([5, 1, 0] @ [5, 1, 0, 1, 10, 0, 0, 1, 0, 80] @ [7]), Written, Tunnel_Opened, Written, Chunk [8]] socks_start)) = [7, 8]"
proof -
  let ?evs = "[Chunk ([5, 1, 0] @ [5, 1, 0, 1, 10, 0, 0, 1, 0, 80] @ [7]), Written, Tunnel_Opened, Written, Chunk [8]]"
  have "awaited_run ?evs socks_start"
    by (simp add: socks_step_def drain_def socks_start_def handleSocksConnection_def awaited_def Let_def readConnectRequest_def read_port_def serve_request_def)
  moreover have "sent ?evs = greeting [0] @ connect_request (To_Ipv4 [10, 0, 0, 1]) [0, 80] @ [7, 8]" "controls ?evs = [Written, Tunnel_Opened, Written]"
    by (simp_all add: sent_def controls_def greeting_def connect_request_def u8_def)
  ultimately have c: "visible (fst (socks_run ?evs socks_start)) = [Sock_Write [SOCKS_VERSION, AUTH_NONE],
      Tunnel_Request (destination_host (To_Ipv4 [10, 0, 0, 1])) (be_val [0, 80]), Sock_Write (buildReply REP_SUCCESS)]
    \<and> tunnel_bytes (fst (socks_run ?evs socks_start)) = [7, 8]"
    using socks_connects [of ?evs "[0]" "To_Ipv4 [10, 0, 0, 1]" "[0, 80]" "[7, 8]"] by (simp del: socks_run.simps)
  have "zeros 4 = [0, 0, 0, 0]" by (simp add: zeros_def numeral_eq_Suc)
  then have "buildReply REP_SUCCESS = [5, 0, 0, 1, 0, 0, 0, 0, 0, 0]" by (simp add: buildReply_def)
  moreover have "be_val [0, 80] = 80" by (simp add: be_val_def)
  ultimately show ?thesis using c by (simp only: destination_host.simps SOCKS_VERSION_def AUTH_NONE_def)
qed

end
