(* ===== verification/V2_Site.thy ===== *)
theory V2_Site
  imports Utf8 V2_Onion_Address V2_Streams
begin

text \<open>
  \<open>v2-site/\<close>: the request and response codecs of anonymous sites, the request loop of the server and the client. Strings are
  lists of code points. \<open>toLowerCase\<close> acts on the ASCII letters and on the Kelvin sign, the one other character whose lower
  case is ASCII; the case of other letters matters nowhere, except in the names of parameters that nothing reads.
\<close>

section \<open>Strings\<close>

definition starts_with :: "js_text \<Rightarrow> js_text \<Rightarrow> bool" where
  "starts_with p t \<longleftrightarrow> take (length p) t = p"

fun index_of :: "nat \<Rightarrow> js_text \<Rightarrow> nat option" where
  "index_of c [] = None"
| "index_of c (x # xs) = (if x = c then Some 0 else map_option Suc (index_of c xs))"

definition slice :: "js_text \<Rightarrow> nat \<Rightarrow> nat \<Rightarrow> js_text" where "slice t a b = take (b - a) (drop a t)"

definition lower_code :: "nat \<Rightarrow> nat" where
  "lower_code c = (if 65 \<le> c \<and> c \<le> 90 then c + 32 else if c = 0x212A then 107 else c)"

definition white :: "nat \<Rightarrow> bool" where
  "white c \<longleftrightarrow> c \<in> {9, 10, 11, 12, 13, 32, 0xA0, 0x1680, 0x2028, 0x2029, 0x202F, 0x205F, 0x3000, 0xFEFF} \<or> 0x2000 \<le> c \<and> c \<le> 0x200A"

definition trim :: "js_text \<Rightarrow> js_text" where "trim t = rev (dropWhile white (rev (dropWhile white t)))"

fun split_on :: "nat \<Rightarrow> js_text \<Rightarrow> js_text list" where
  "split_on c [] = [[]]"
| "split_on c (x # xs) = (if x = c then [] # split_on c xs else (case split_on c xs of [] \<Rightarrow> [[x]] | p # ps \<Rightarrow> (x # p) # ps))"

section \<open>Requests\<close>

definition MAX_REQUEST_BYTES :: nat where [simp]: "MAX_REQUEST_BYTES = 1024"
definition CR :: byte where [simp]: "CR = 0x0D"
definition LF :: byte where [simp]: "LF = 0x0A"
definition URL_SCHEME :: js_text where "URL_SCHEME = text_of ''anon://''"

abbreviation "code_hash \<equiv> (35 :: nat)"
abbreviation "code_at \<equiv> (64 :: nat)"
abbreviation "code_slash \<equiv> (47 :: nat)"
abbreviation "code_question \<equiv> (63 :: nat)"
abbreviation "code_colon \<equiv> (58 :: nat)"

text \<open>\<open>!decodeOnionAddress(host)\<close>: a host with a character beyond ASCII is no address, the Kelvin sign apart.\<close>

definition is_onion_host :: "crypto \<Rightarrow> js_text \<Rightarrow> bool" where
  "is_onion_host C host \<longleftrightarrow> list_all (\<lambda>c. c < 128 \<or> c = 0x212A) host
     \<and> decodeOnionAddress C (map (\<lambda>c. if c = 0x212A then char_of (107 :: nat) else char_of c) host) \<noteq> None"

text \<open>The end of the host after the scheme.\<close>

definition host_end :: "js_text \<Rightarrow> nat" where
  "host_end afterScheme =
     (let hostEnd = length afterScheme;
          hostEnd = (case index_of code_slash afterScheme of None \<Rightarrow> hostEnd | Some i \<Rightarrow> min hostEnd i)
      in (case index_of code_question afterScheme of None \<Rightarrow> hostEnd | Some i \<Rightarrow> min hostEnd i))"

definition buildRequest :: "crypto \<Rightarrow> js_text \<Rightarrow> bytes res" where
  "buildRequest C url =
     (if \<not> starts_with URL_SCHEME url then Inl (Error ''url must use anon:// scheme'')
      else if code_hash \<in> set url then Inl (Error ''URL fragments are not permitted; client-local concern'')
      else if code_at \<in> set url then Inl (Error ''URL userinfo is not permitted'')
      else
        let afterScheme = drop (length URL_SCHEME) url;
            host = take (host_end afterScheme) afterScheme
        in if code_colon \<in> set host then Inl (Error ''explicit ports are not permitted; anon:// has no transport port'')
           else if \<not> is_onion_host C host then Inl (Error ''URL host is not a valid .anon address'')
           else
             let encoded = utf8_encode url
             in if length encoded + 2 > MAX_REQUEST_BYTES then Inl (Error ''URL exceeds 1022 bytes'')
                else Inr (encoded @ [CR, LF]))"

text \<open>\<open>for (let i = 0; i + 1 < length; i += 1)\<close>: the first CR LF.\<close>

fun find_crlf :: "bytes \<Rightarrow> nat option" where
  "find_crlf (a # b # bs) = (if a = CR \<and> b = LF then Some 0 else map_option Suc (find_crlf (b # bs)))"
| "find_crlf _ = None"

record site_request =
  sit_url :: js_text
  sit_host :: js_text
  sit_path :: js_text
  sit_query :: "js_text option"

datatype parsed_request = Req_Incomplete | Req_Too_Long | Req_Malformed | Request site_request

definition parse_url :: "crypto \<Rightarrow> js_text \<Rightarrow> parsed_request" where
  "parse_url C url =
     (if \<not> starts_with URL_SCHEME url then Req_Malformed
      else if code_hash \<in> set url then Req_Malformed
      else if code_at \<in> set url then Req_Malformed
      else
        let afterScheme = drop (length URL_SCHEME) url;
            slashIdx = index_of code_slash afterScheme;
            queryIdx = index_of code_question afterScheme;
            host = take (host_end afterScheme) afterScheme
        in if code_colon \<in> set host then Req_Malformed
           else if \<not> is_onion_host C host then Req_Malformed
           else Request \<lparr>sit_url = url, sit_host = host,
               sit_path = (case slashIdx of None \<Rightarrow> [code_slash]
                 | Some i \<Rightarrow> slice afterScheme i (case queryIdx of None \<Rightarrow> length afterScheme | Some j \<Rightarrow> j)),
               sit_query = map_option (\<lambda>j. drop (j + 1) afterScheme) queryIdx\<rparr>)"

text \<open>The decoder's exception is not caught.\<close>

definition parseRequest :: "crypto \<Rightarrow> bytes \<Rightarrow> parsed_request res" where
  "parseRequest C bytesAvailable =
     (case find_crlf bytesAvailable of
        None \<Rightarrow> Inr (if length bytesAvailable \<ge> MAX_REQUEST_BYTES then Req_Too_Long else Req_Incomplete)
      | Some terminator \<Rightarrow>
          if terminator + 2 > MAX_REQUEST_BYTES then Inr Req_Too_Long
          else
            (case utf8_fatal (take terminator bytesAvailable) of
               None \<Rightarrow> Inl (TypeError ''The encoded data was not valid'')
             | Some url \<Rightarrow> Inr (parse_url C url)))"

section \<open>Responses\<close>

definition MAX_META_BYTES :: nat where [simp]: "MAX_META_BYTES = 1024"
definition STATUS_SUCCESS :: int where [simp]: "STATUS_SUCCESS = 20"
definition STATUS_PERMANENT_FAILURE :: int where [simp]: "STATUS_PERMANENT_FAILURE = 50"
definition STATUS_BAD_REQUEST :: int where [simp]: "STATUS_BAD_REQUEST = 59"

definition isSuccess :: "int \<Rightarrow> bool" where "isSuccess status \<longleftrightarrow> status \<ge> 20 \<and> status \<le> 29"
definition isRedirect :: "int \<Rightarrow> bool" where "isRedirect status \<longleftrightarrow> status \<ge> 30 \<and> status \<le> 39"
definition isInput :: "int \<Rightarrow> bool" where "isInput status \<longleftrightarrow> status \<ge> 10 \<and> status \<le> 19"
definition isValidStatus :: "int \<Rightarrow> bool" where "isValidStatus status \<longleftrightarrow> status \<ge> 10 \<and> status \<le> 69"

record site_response =
  srs_status :: int
  srs_meta :: js_text
  srs_body :: "bytes option"

definition buildResponseHead :: "int \<Rightarrow> js_text \<Rightarrow> bytes res" where
  "buildResponseHead status meta =
     (if \<not> isValidStatus status then Inl (Error ''invalid status code'')
      else
        let metaBytes = utf8_encode meta
        in if length metaBytes > MAX_META_BYTES then Inl (Error ''META exceeds 1024 bytes'')
           else if CR \<in> set metaBytes \<or> LF \<in> set metaBytes then Inl (Error ''META MUST NOT contain CR or LF'')
           else Inr (map of_char (decimal (nat status)) @ [0x20] @ metaBytes @ [CR, LF]))"

definition buildResponse :: "site_response \<Rightarrow> bytes res" where
  "buildResponse r =
     (case buildResponseHead (srs_status r) (srs_meta r) of
        Inl e \<Rightarrow> Inl e
      | Inr head \<Rightarrow>
          (case srs_body r of
             None \<Rightarrow> Inr head
           | Some body \<Rightarrow> if \<not> isSuccess (srs_status r) then Inr head else Inr (head @ body)))"

datatype parsed_head = Head_Incomplete | Head_Too_Long | Head_Malformed | Head int js_text nat

definition ascii_digit :: "byte \<Rightarrow> bool" where "ascii_digit b \<longleftrightarrow> 0x30 \<le> b \<and> b \<le> 0x39"

definition parseResponseHead :: "bytes \<Rightarrow> parsed_head" where
  "parseResponseHead bytesAvailable =
     (case find_crlf bytesAvailable of
        None \<Rightarrow> if length bytesAvailable > 2 + 1 + MAX_META_BYTES + 2 then Head_Too_Long else Head_Incomplete
      | Some terminator \<Rightarrow>
          if terminator < 3 then Head_Malformed
          else
            let statusByte0 = bytesAvailable ! 0; statusByte1 = bytesAvailable ! 1
            in if \<not> ascii_digit statusByte0 \<or> \<not> ascii_digit statusByte1 then Head_Malformed
               else if bytesAvailable ! 2 \<noteq> 0x20 then Head_Malformed
               else
                 let status = (int (unat statusByte0) - 0x30) * 10 + (int (unat statusByte1) - 0x30)
                 in if \<not> isValidStatus status then Head_Malformed
                    else
                      let metaBytes = subarray bytesAvailable 3 terminator
                      in if length metaBytes > MAX_META_BYTES then Head_Too_Long
                         else (case utf8_fatal metaBytes of None \<Rightarrow> Head_Malformed | Some meta \<Rightarrow> Head status meta (terminator + 2)))"

text \<open>\<open>/^[a-z0-9!#$&^_.+-]+\/[a-z0-9!#$&^_.+-]+$/i\<close>.\<close>

definition mime_code :: "nat \<Rightarrow> bool" where
  "mime_code c \<longleftrightarrow> 97 \<le> c \<and> c \<le> 122 \<or> 65 \<le> c \<and> c \<le> 90 \<or> 48 \<le> c \<and> c \<le> 57 \<or> c \<in> set (text_of ''!#$&^_.+-'')"

definition is_mime :: "js_text \<Rightarrow> bool" where
  "is_mime t \<longleftrightarrow> (case split_on code_slash t of [a, b] \<Rightarrow> a \<noteq> [] \<and> b \<noteq> [] \<and> list_all mime_code a \<and> list_all mime_code b | _ \<Rightarrow> False)"

fun read_parameters :: "js_text list \<Rightarrow> (js_text \<times> js_text) list \<Rightarrow> (js_text \<times> js_text) list option" where
  "read_parameters [] ps = Some ps"
| "read_parameters (q # qs) ps =
     (case index_of 61 q of
        None \<Rightarrow> None
      | Some eq \<Rightarrow>
          let name = map lower_code (trim (take eq q)); val = trim (drop (eq + 1) q)
          in if name = [] then None else read_parameters qs ((name, val) # ps))"

text \<open>The MIME type and the parameters, the last of a name first.\<close>

definition parseSuccessMeta :: "js_text \<Rightarrow> (js_text \<times> (js_text \<times> js_text) list) option" where
  "parseSuccessMeta meta =
     (if meta = [] then None
      else
        let parts = map trim (split_on 59 meta);
            mimeType = map lower_code (hd parts)
        in if \<not> is_mime mimeType then None
           else map_option (Pair mimeType) (read_parameters (tl parts) []))"

end
