(* ===== verification/V2_Site_Run.thy ===== *)
theory V2_Site_Run
  imports V2_Site Effects
begin

text \<open>
  \<open>v2-site/server.mjs\<close> and \<open>client.mjs\<close>: the request loop of a connection, cut at the await of the handler, and the client
  that fetches a page and follows redirects. The handler of requests, the opening of connections and the prompt for input are
  outside: what they answer are events or arguments.
\<close>

section \<open>The server's connection\<close>

record site_connection =
  scn_buffer :: bytes
  scn_busy :: bool
  scn_closing :: bool
  scn_peerClosed :: bool

datatype site_effect =
    Handle site_request
  | Site_Write bytes
  | Site_End

type_synonym 'a site_act = "('a, site_effect, site_connection) effectful"

definition site_start :: site_connection where
  "site_start = \<lparr>scn_buffer = [], scn_busy = False, scn_closing = False, scn_peerClosed = False\<rparr>"

definition maybeClose :: "site_connection \<Rightarrow> unit site_act" where
  "maybeClose s =
     (if scn_closing s then ret () s
      else if \<not> scn_peerClosed s then ret () s
      else if scn_busy s then ret () s
      else if length (scn_buffer s) > 0 then ret () s
      else emit Site_End (s\<lparr>scn_closing := True\<rparr>))"

definition sendResponse :: "bytes \<Rightarrow> bool \<Rightarrow> site_connection \<Rightarrow> unit site_act" where
  "sendResponse response forceClose s =
     (if scn_closing s then ret () s
      else seq (emit (Site_Write response) s) (\<lambda>_ s.
        if forceClose then emit Site_End (s\<lparr>scn_closing := True\<rparr>) else ret () s))"

definition bad_request :: "js_text \<Rightarrow> site_connection \<Rightarrow> unit site_act" where
  "bad_request meta s =
     seq (lift (buildResponse \<lparr>srs_status = STATUS_BAD_REQUEST, srs_meta = meta, srs_body = None\<rparr>) s) (\<lambda>response. sendResponse response True)"

text \<open>The loop of \<open>processBuffer\<close>: a round either starts the handler, where the function waits, or leaves.\<close>

definition process_loop :: "crypto \<Rightarrow> site_connection \<Rightarrow> unit site_act" where
  "process_loop C s =
     (if scn_buffer s = [] \<or> scn_busy s \<or> scn_closing s then maybeClose s
      else seq (lift (parseRequest C (scn_buffer s)) s) (\<lambda>parsed s.
        (case parsed of
           Req_Incomplete \<Rightarrow> maybeClose s
         | Req_Too_Long \<Rightarrow> bad_request (text_of ''request too long'') s
         | Req_Malformed \<Rightarrow> bad_request (text_of ''bad request'') s
         | Request r \<Rightarrow>
             (case find_crlf (scn_buffer s) of
                None \<Rightarrow> maybeClose s
              | Some i \<Rightarrow> emit (Handle r) (s\<lparr>scn_buffer := drop (i + 2) (scn_buffer s), scn_busy := True\<rparr>)))))"

definition processBuffer :: "crypto \<Rightarrow> site_connection \<Rightarrow> unit site_act" where
  "processBuffer C s = (if scn_busy s \<or> scn_closing s then ret () s else process_loop C s)"

text \<open>The handler is done: its response, or that of an exception. A response that cannot be built rejects the promise of
  \<open>processBuffer\<close>, which nobody looks at.\<close>

definition handler_done :: "crypto \<Rightarrow> site_response option \<Rightarrow> site_connection \<Rightarrow> unit site_act" where
  "handler_done C r s =
     (if \<not> scn_busy s then ret () s
      else
        let response = (case r of Some r \<Rightarrow> r
                          | None \<Rightarrow> \<lparr>srs_status = STATUS_PERMANENT_FAILURE, srs_meta = text_of ''internal server error'', srs_body = None\<rparr>);
            s = s\<lparr>scn_busy := False\<rparr>
        in seq (lift (buildResponse response) s) (\<lambda>bytes s. seq (sendResponse bytes False s) (\<lambda>_. process_loop C)))"

datatype site_event =
    Site_Data bytes
  | Site_Peer_End
  | Handler_Done "site_response option"
  | Site_Error

definition site_step :: "crypto \<Rightarrow> site_event \<Rightarrow> site_connection \<Rightarrow> unit site_act" where
  "site_step C ev s =
     (case ev of
        Site_Data chunk \<Rightarrow>
          (if scn_closing s then ret () s
           else
             let s = s\<lparr>scn_buffer := scn_buffer s @ chunk\<rparr>
             in if length (scn_buffer s) > MAX_REQUEST_BYTES * 2 then bad_request (text_of ''request too long'') s
                else swallow (processBuffer C s))
      | Site_Peer_End \<Rightarrow>
          (let s = s\<lparr>scn_peerClosed := True\<rparr> in if \<not> scn_busy s then swallow (processBuffer C s) else maybeClose s)
      | Handler_Done r \<Rightarrow> swallow (handler_done C r s)
      | Site_Error \<Rightarrow> ret () (s\<lparr>scn_closing := True\<rparr>))"

fun site_run :: "crypto \<Rightarrow> site_event list \<Rightarrow> site_connection \<Rightarrow> site_effect list \<times> site_connection" where
  "site_run C [] s = ([], s)"
| "site_run C (ev # evs) s =
     (case site_step C ev s of (r, es, s) \<Rightarrow> (case site_run C evs s of (fs, s) \<Rightarrow> (es @ fs, s)))"

section \<open>Fetching a page\<close>

text \<open>\<open>ftc_done\<close>: the promise of \<open>fetchOnce\<close>, which takes its listeners away when it is settled.\<close>

record fetching =
  ftc_buffer :: bytes
  ftc_head :: "(int \<times> js_text) option"
  ftc_needed :: "nat option"
  ftc_body :: bytes
  ftc_done :: "site_response res option"

definition fetch_settle :: "site_response res \<Rightarrow> fetching \<Rightarrow> fetching" where
  "fetch_settle r f = (if ftc_done f = None then f\<lparr>ftc_done := Some r\<rparr> else f)"

text \<open>\<open>parseInt(s, 10)\<close>, if it is an integer from zero on; a number too large for a double is infinite.\<close>

fun digits_value :: "js_text \<Rightarrow> nat \<Rightarrow> nat" where
  "digits_value [] n = n"
| "digits_value (d # ds) n = digits_value ds (n * 10 + (d - 48))"

definition parse_length :: "js_text \<Rightarrow> nat option" where
  "parse_length t =
     (let t = dropWhile white t;
          minus = (t \<noteq> [] \<and> hd t = 45);
          t = (if t \<noteq> [] \<and> (hd t = 45 \<or> hd t = 43) then tl t else t);
          ds = takeWhile (\<lambda>c. 48 \<le> c \<and> c \<le> 57) t;
          n = digits_value ds 0
      in if ds = [] then None
         else if minus then (if n = 0 then Some 0 else None)
         else if n \<ge> 2 ^ 1024 - 2 ^ 970 then None
         else Some (js_number n))"

definition fetch_body :: "fetching \<Rightarrow> fetching" where
  "fetch_body f =
     (let f = (if length (ftc_buffer f) > 0 then f\<lparr>ftc_body := ftc_body f @ ftc_buffer f, ftc_buffer := []\<rparr> else f)
      in case (ftc_needed f, ftc_head f) of
           (Some n, Some (status, meta)) \<Rightarrow>
             if length (ftc_body f) \<ge> n
             then fetch_settle (Inr \<lparr>srs_status = status, srs_meta = meta, srs_body = Some (take n (ftc_body f))\<rparr>) f else f
         | _ \<Rightarrow> f)"

definition tryAdvance :: "fetching \<Rightarrow> fetching" where
  "tryAdvance f =
     (case ftc_head f of
        Some h \<Rightarrow> fetch_body f
      | None \<Rightarrow>
          (case parseResponseHead (ftc_buffer f) of
             Head_Incomplete \<Rightarrow> f
           | Head_Too_Long \<Rightarrow> fetch_settle (Inl (Error ''malformed response head: too-long'')) f
           | Head_Malformed \<Rightarrow> fetch_settle (Inl (Error ''malformed response head: malformed'')) f
           | Head status meta headEnd \<Rightarrow>
               let f = f\<lparr>ftc_head := Some (status, meta), ftc_body := drop headEnd (ftc_buffer f), ftc_buffer := []\<rparr>
               in if isSuccess status then
                    fetch_body (case parseSuccessMeta meta of
                        None \<Rightarrow> f
                      | Some (mime, params) \<Rightarrow>
                          (case map_of params (text_of ''length'') of
                             None \<Rightarrow> f
                           | Some v \<Rightarrow> f\<lparr>ftc_needed := parse_length v\<rparr>))
                  else fetch_settle (Inr \<lparr>srs_status = status, srs_meta = meta, srs_body = None\<rparr>) f))"

datatype fetch_event = Fetch_Data bytes | Fetch_End | Fetch_Error js_error | Fetch_Timeout

definition fetch_step :: "fetch_event \<Rightarrow> fetching \<Rightarrow> fetching" where
  "fetch_step ev f =
     (if ftc_done f \<noteq> None then f
      else
        (case ev of
           Fetch_Data chunk \<Rightarrow> tryAdvance (f\<lparr>ftc_buffer := ftc_buffer f @ chunk\<rparr>)
         | Fetch_End \<Rightarrow>
             (case ftc_head f of
                None \<Rightarrow> fetch_settle (Inl (Error ''connection closed before response head arrived'')) f
              | Some (status, meta) \<Rightarrow>
                  if ftc_needed f = None \<or> ftc_needed f = Some (length (ftc_body f)) then
                    fetch_settle (Inr \<lparr>srs_status = status, srs_meta = meta, srs_body = Some (ftc_body f)\<rparr>) f
                  else fetch_settle (Inl (Error ''stream ended before all body bytes'')) f)
         | Fetch_Error e \<Rightarrow> fetch_settle (Inl e) f
         | Fetch_Timeout \<Rightarrow> fetch_settle (Inl (Error ''fetchOnce timeout'')) f))"

text \<open>The request is written at the start; a URL for which none can be built fails the fetch.\<close>

definition fetchOnce :: "crypto \<Rightarrow> js_text \<Rightarrow> fetch_event list \<Rightarrow> bytes option \<times> fetching" where
  "fetchOnce C url evs =
     (let f = \<lparr>ftc_buffer = [], ftc_head = None, ftc_needed = None, ftc_body = [], ftc_done = None\<rparr>
      in case buildRequest C url of
           Inl e \<Rightarrow> (None, fold fetch_step evs (fetch_settle (Inl e) f))
         | Inr request \<Rightarrow> (Some request, fold fetch_step evs f))"

section \<open>Redirects and input\<close>

text \<open>\<open>encodeURIComponent\<close>, which throws on a surrogate without partner.\<close>

definition unreserved :: "nat \<Rightarrow> bool" where
  "unreserved c \<longleftrightarrow> 97 \<le> c \<and> c \<le> 122 \<or> 65 \<le> c \<and> c \<le> 90 \<or> 48 \<le> c \<and> c \<le> 57 \<or> c \<in> set (text_of ''-_.!~*'') \<or> c = 39 \<or> c = 40 \<or> c = 41"

definition percent_byte :: "byte \<Rightarrow> js_text" where
  "percent_byte b = (let hex = text_of (hex_byte b) in 37 # map (\<lambda>c. if 97 \<le> c \<and> c \<le> 102 then c - 32 else c) hex)"

definition encodeURIComponent :: "js_text \<Rightarrow> js_text res" where
  "encodeURIComponent t =
     (if list_ex surrogate t then Inl (Error ''URI malformed'')
      else Inr (concat (map (\<lambda>c. if unreserved c then [c] else concat (map percent_byte (utf8_char c))) t)))"

definition appendQuery :: "js_text \<Rightarrow> js_text \<Rightarrow> js_text res" where
  "appendQuery url query =
     map_sum id (\<lambda>encoded. if code_question \<in> set url then url @ [38] @ encoded else url @ [code_question] @ encoded) (encodeURIComponent query)"

text \<open>\<open>fetch\<close> answers for the request of each round, \<open>onInput\<close> for its prompt.\<close>

fun redirect_loop ::
  "(js_text \<Rightarrow> nat \<Rightarrow> site_response res) \<Rightarrow> (nat \<Rightarrow> js_text option) option \<Rightarrow> nat \<Rightarrow> nat \<Rightarrow> js_text \<Rightarrow> js_text list \<Rightarrow>
   site_response res \<times> js_text list" where
  "redirect_loop fetch onInput 0 hop currentUrl visited = (Inl (Error ''exceeded redirects''), [])"
| "redirect_loop fetch onInput (Suc left) hop currentUrl visited =
     (case fetch currentUrl hop of
        Inl e \<Rightarrow> (Inl e, [currentUrl])
      | Inr response \<Rightarrow>
          if isRedirect (srs_status response) then
            (let nextUrl = trim (srs_meta response)
             in if nextUrl \<in> set visited then (Inl (Error ''redirect loop''), [currentUrl])
                else (case redirect_loop fetch onInput left (hop + 1) nextUrl (visited @ [nextUrl]) of (r, us) \<Rightarrow> (r, currentUrl # us)))
          else
            (case (isInput (srs_status response), onInput) of
               (True, Some ask) \<Rightarrow>
                 (case ask hop of
                    None \<Rightarrow> (Inr response, [currentUrl])
                  | Some userInput \<Rightarrow>
                      (case appendQuery currentUrl userInput of
                         Inl e \<Rightarrow> (Inl e, [currentUrl])
                       | Inr newUrl \<Rightarrow>
                           (case redirect_loop fetch onInput left (hop + 1) newUrl (visited @ [newUrl]) of (r, us) \<Rightarrow> (r, currentUrl # us))))
             | _ \<Rightarrow> (Inr response, [currentUrl])))"

definition fetchWithRedirects ::
  "(js_text \<Rightarrow> nat \<Rightarrow> site_response res) \<Rightarrow> (nat \<Rightarrow> js_text option) option \<Rightarrow> nat \<Rightarrow> js_text \<Rightarrow> site_response res \<times> js_text list" where
  "fetchWithRedirects fetch onInput maxRedirects url = redirect_loop fetch onInput (maxRedirects + 1) 0 url [url]"

end
