(* ===== verification/V2_Site_Props.thy ===== *)
theory V2_Site_Props
  imports V2_Site_Run V2_Onion_Address_Props
begin

text \<open>
  Sites: requests and responses survive their codecs; the server handles the lines it receives one at a time and in order, and
  answers nothing after it has closed; a page reaches the client whole however it is cut up; and what stalls a connection.
\<close>

section \<open>Lines\<close>

lemma find_crlf_append: "CR \<notin> set xs \<Longrightarrow> find_crlf (xs @ CR # LF # ys) = Some (length xs)"
proof (induction xs)
  case (Cons x xs)
  then show ?case by (cases xs) auto
qed simp

lemma find_crlf_none: "CR \<notin> set (butlast xs) \<Longrightarrow> find_crlf xs = None"
  by (induction xs rule: find_crlf.induct) auto

lemma find_crlf_Some:
  "find_crlf xs = Some i \<Longrightarrow> i + 2 \<le> length xs \<and> find_crlf (xs @ ys) = Some i \<and> xs ! i = CR \<and> xs ! (i + 1) = LF"
  by (induction xs arbitrary: i rule: find_crlf.induct) (auto split: if_splits)

lemma utf8_char_high:
  assumes "c < 0x110000" "0x80 \<le> c" "b \<in> set (utf8_char c)"
  shows "128 \<le> unat b"
proof -
  have k: "128 \<le> unat (u8 (0x80 + n mod 64))" for n :: nat by (simp add: unat_u8_id)
  have h: "128 \<le> unat (u8 (x + n))" if "128 \<le> x" "x + n < 256" for x n using that by (simp add: unat_u8_id)
  consider "c < 0x800" | "\<not> c < 0x800" "surrogate c" | "\<not> c < 0x800" "\<not> surrogate c" "c < 0x10000" | "\<not> c < 0x10000" "\<not> surrogate c"
    unfolding surrogate_def by linarith
  then show ?thesis
  proof cases
    case 1
    then have "c div 64 < 32" by auto
    then show ?thesis using assms 1 k h [of "0xC0" "c div 64"] by (auto simp: utf8_char_def)
  next
    case 2
    then show ?thesis using assms by (auto simp: utf8_char_def)
  next
    case 3
    then have "c div 4096 < 16" by auto
    then show ?thesis using assms 3 k h [of "0xE0" "c div 4096"] by (auto simp: utf8_char_def)
  next
    case 4
    have "c div 262144 < 5" using assms(1) by auto
    then show ?thesis using assms 4 k h [of "0xF0" "c div 262144"] by (auto simp: utf8_char_def)
  qed
qed

lemma utf8_char_ascii: "c < 0x80 \<Longrightarrow> utf8_char c = [u8 c]" by (simp add: utf8_char_def)

lemma utf8_encode_CR:
  assumes "\<forall>c\<in>set t. scalar c" "13 \<notin> set t"
  shows "CR \<notin> set (utf8_encode t)"
proof
  assume "CR \<in> set (utf8_encode t)"
  then obtain c where c: "c \<in> set t" "CR \<in> set (utf8_char c)" by (auto simp: utf8_encode_def)
  show False
  proof (cases "c < 0x80")
    case True
    have "u8 c = CR" using c(2) True by (auto simp: utf8_char_ascii)
    moreover have "unat (u8 c) = c" using True by (simp add: unat_u8_id)
    ultimately have "c = unat CR" by metis
    then show False using c(1) assms(2) by simp
  next
    case False
    then have "128 \<le> unat CR" using utf8_char_high [of c CR] assms(1) c by (auto simp: scalar_def)
    then show False by simp
  qed
qed

section \<open>Codecs\<close>

text \<open>A request is read as the URL that was asked for, whatever follows it on the stream.\<close>

lemma build_parse_url: "buildRequest C url = Inr bs \<Longrightarrow> \<exists>r. parse_url C url = Request r \<and> sit_url r = url"
  by (auto simp: buildRequest_def parse_url_def Let_def split: if_splits)

lemma request_roundtrip:
  assumes "buildRequest C url = Inr bs" "\<forall>c\<in>set url. scalar c" "13 \<notin> set url"
  shows "\<exists>r. parseRequest C (bs @ rest) = Inr (Request r) \<and> sit_url r = url \<and> parse_url C url = Request r"
proof -
  obtain r where r: "parse_url C url = Request r" "sit_url r = url" using build_parse_url [OF assms(1)] by blast
  have b: "bs = utf8_encode url @ [CR, LF]" "length (utf8_encode url) + 2 \<le> 1024" "starts_with URL_SCHEME url"
    using assms(1) by (auto simp: buildRequest_def Let_def split: if_splits)
  have "find_crlf (bs @ rest) = Some (length (utf8_encode url))"
    using find_crlf_append [OF utf8_encode_CR [OF assms(2,3)], of rest] b(1) by simp
  moreover have "url \<noteq> []" "hd url \<noteq> 0xFEFF" using b(3) by (cases url; auto simp: starts_with_def URL_SCHEME_def text_of_def)+
  then have "utf8_fatal (utf8_encode url) = Some url" using utf8_fatal_encode [OF assms(2)] by simp
  ultimately show ?thesis using b r by (simp add: parseRequest_def)
qed

text \<open>A line feed in the URL is not refused: one URL can be two requests for the server.\<close>

lemma request_splitting:
  assumes "buildRequest C (url @ 13 # 10 # second) = Inr bs" "13 \<notin> set url" "\<forall>c\<in>set url. scalar c" "starts_with URL_SCHEME url"
  shows "parseRequest C bs = Inr (parse_url C url)"
proof -
  have b: "bs = utf8_encode url @ CR # LF # utf8_encode second @ [CR, LF]" "length (utf8_encode url) + 2 \<le> 1024"
    using assms(1) by (auto simp: buildRequest_def Let_def utf8_encode_def utf8_char_def u8_def split: if_splits)
  have "find_crlf bs = Some (length (utf8_encode url))" unfolding b(1) by (rule find_crlf_append [OF utf8_encode_CR [OF assms(3,2)]])
  moreover have "url \<noteq> []" "hd url \<noteq> 0xFEFF" using assms(4) by (cases url; auto simp: starts_with_def URL_SCHEME_def text_of_def)+
  then have "utf8_fatal (utf8_encode url) = Some url" using utf8_fatal_encode [OF assms(3)] by simp
  ultimately show ?thesis using b by (simp add: parseRequest_def)
qed

lemma status_digits:
  assumes "isValidStatus status"
  shows "\<exists>a b. map of_char (decimal (nat status)) = [a, b :: byte] \<and> ascii_digit a \<and> ascii_digit b
    \<and> (int (unat a) - 0x30) * 10 + (int (unat b) - 0x30) = status"
proof -
  obtain n where n: "status = int n" "10 \<le> n" "n \<le> 69" using assms by (cases status) (auto simp: isValidStatus_def)
  have d: "decimal n = [char_of (48 + n div 10), char_of (48 + n mod 10)]"
    using n by (subst decimal.simps) (simp add: decimal.simps [of "n div 10"] div_less_iff_less_mult)
  have k: "n div 10 < 10" "n mod 10 < 10" using n by auto
  have u: "of_char (char_of (48 + m)) = (word_of_nat (48 + m) :: byte)" if "m < 10" for m
  proof -
    have "of_char (char_of (48 + m)) = (of_nat (of_char (char_of (48 + m) :: char)) :: byte)" by (simp only: of_nat_of_char)
    then show ?thesis using that by (simp only: of_char_of) simp
  qed
  have v: "unat (word_of_nat (48 + m) :: byte) = 48 + m" if "m < 10" for m
    using that by (simp only: unat_byte_of_nat) simp
  have a: "ascii_digit (word_of_nat (48 + m))" if "m < 10" for m
    using v [OF that] that by (simp add: ascii_digit_def word_le_nat_alt)
  have "10 * (n div 10) + n mod 10 = n" by simp
  then have "10 * int (n div 10) + int (n mod 10) = int n" by (metis of_nat_add of_nat_mult of_nat_numeral)
  then have "(int (48 + n div 10) - 0x30) * 10 + (int (48 + n mod 10) - 0x30) = status" unfolding n(1) of_nat_add of_nat_numeral by (simp only: add_diff_cancel_left' mult.commute)
  then have "(int (unat (word_of_nat (48 + n div 10) :: byte)) - 0x30) * 10 + (int (unat (word_of_nat (48 + n mod 10) :: byte)) - 0x30) = status"
    by (simp only: v [OF k(1)] v [OF k(2)])
  moreover have "map of_char (decimal (nat status)) = [word_of_nat (48 + n div 10), word_of_nat (48 + n mod 10) :: byte]"
    by (simp only: n(1) nat_int d list.map u [OF k(1)] u [OF k(2)])
  ultimately show ?thesis using a [OF k(1)] a [OF k(2)] by (intro exI [of _ "word_of_nat (48 + n div 10)"] exI [of _ "word_of_nat (48 + n mod 10)"] conjI)
qed

lemma response_roundtrip:
  assumes "buildResponse r = Inr bs" "\<forall>c\<in>set (srs_meta r). scalar c" "srs_meta r = [] \<or> hd (srs_meta r) \<noteq> 0xFEFF"
  shows "\<exists>head. parseResponseHead (bs @ rest) = Head (srs_status r) (srs_meta r) (length head)
    \<and> bs = head @ (if isSuccess (srs_status r) then case srs_body r of None \<Rightarrow> [] | Some b \<Rightarrow> b else [])"
proof -
  obtain head where h: "buildResponseHead (srs_status r) (srs_meta r) = Inr head"
    and bs: "bs = head @ (if isSuccess (srs_status r) then case srs_body r of None \<Rightarrow> [] | Some b \<Rightarrow> b else [])"
    using assms(1) by (auto simp: buildResponse_def split: sum.splits option.splits if_splits)
  let ?m = "utf8_encode (srs_meta r)"
  have v: "isValidStatus (srs_status r)" "length ?m \<le> 1024" "CR \<notin> set ?m" and hd: "head = map of_char (decimal (nat (srs_status r))) @ [0x20] @ ?m @ [CR, LF]"
    using h by (auto simp: buildResponseHead_def Let_def split: if_splits)
  obtain a b where ab: "map of_char (decimal (nat (srs_status r))) = [a, b :: byte]" "ascii_digit a" "ascii_digit b"
    "(int (unat a) - 0x30) * 10 + (int (unat b) - 0x30) = srs_status r" using status_digits [OF v(1)] by metis
  have ne: "a \<noteq> CR" "b \<noteq> CR" using ab(2,3) by (auto simp: ascii_digit_def word_le_nat_alt)
  obtain t where t_def: "t = (if isSuccess (srs_status r) then case srs_body r of None \<Rightarrow> [] | Some b \<Rightarrow> b else []) @ rest" by blast
  have e: "bs @ rest = (a # b # 0x20 # ?m) @ CR # LF # t" unfolding bs hd ab(1) t_def by simp
  have f: "find_crlf (bs @ rest) = Some (length ?m + 3)"
    unfolding e using find_crlf_append [of "a # b # 0x20 # ?m" t] ne v(3) by simp
  have "utf8_fatal ?m = Some (srs_meta r)" using utf8_fatal_encode [OF assms(2)] assms(3) by auto
  moreover have "subarray (bs @ rest) 3 (length ?m + 3) = ?m" unfolding e by (simp add: subarray_def)
  moreover have "(bs @ rest) ! 0 = a" "(bs @ rest) ! 1 = b" "(bs @ rest) ! 2 = 0x20" unfolding e by simp_all
  ultimately have "parseResponseHead (bs @ rest) = Head (srs_status r) (srs_meta r) (length ?m + 5)"
    using f ab v by (simp add: parseResponseHead_def Let_def)
  moreover have "length head = length ?m + 5" using hd ab(1) by simp
  ultimately show ?thesis using bs by (intro exI [of _ head]) simp
qed

section \<open>The client\<close>

text \<open>A page with its length: however the response is cut into chunks, and whatever comes after it on the stream.\<close>

lemma find_crlf_prefix: "find_crlf (xs @ ys) = Some i \<Longrightarrow> find_crlf xs = None \<or> find_crlf xs = Some i"
  using find_crlf_Some [of xs _ ys] by (cases "find_crlf xs") auto

lemma find_crlf_short:
  assumes "find_crlf (xs @ ys) = Some i" "find_crlf xs = None"
  shows "length xs < i + 2"
proof (rule ccontr)
  assume "\<not> length xs < i + 2"
  moreover have "find_crlf xs = Some i" if "find_crlf (xs @ ys) = Some i" "i + 2 \<le> length xs" for xs
    using that
  proof (induction xs arbitrary: i rule: find_crlf.induct)
    case (1 a b bs)
    then show ?case by (cases i) (auto split: if_splits)
  qed auto
  ultimately show False using assms by simp
qed

definition fresh_fetching :: fetching where
  "fresh_fetching = \<lparr>ftc_buffer = [], ftc_head = None, ftc_needed = None, ftc_body = [], ftc_done = None\<rparr>"

definition told_length :: "js_text \<Rightarrow> nat \<Rightarrow> bool" where
  "told_length meta n \<longleftrightarrow> (\<exists>mime ps v. parseSuccessMeta meta = Some (mime, ps) \<and> map_of ps (text_of ''length'') = Some v \<and> parse_length v = Some n)"

text \<open>Where the client is after the bytes that it has got of a response with a body.\<close>

definition fetch_at :: "bytes \<Rightarrow> int \<Rightarrow> js_text \<Rightarrow> bytes \<Rightarrow> bytes \<Rightarrow> fetching \<Rightarrow> bool" where
  "fetch_at head status meta body got f \<longleftrightarrow>
     (if length got < length head then f = fresh_fetching\<lparr>ftc_buffer := got\<rparr>
      else if length got < length head + length body then
        f = fresh_fetching\<lparr>ftc_head := Some (status, meta), ftc_needed := Some (length body), ftc_body := drop (length head) got\<rparr>
      else ftc_done f = Some (Inr \<lparr>srs_status = status, srs_meta = meta, srs_body = Some body\<rparr>))"

lemma append_long: "xs @ ys = zs @ ws \<Longrightarrow> length zs \<le> length xs \<Longrightarrow> \<exists>b. xs = zs @ b \<and> b @ ys = ws"
  by (auto simp: append_eq_append_conv2)

lemma append_short: "xs @ ys = zs @ ws \<Longrightarrow> length xs \<le> length zs \<Longrightarrow> \<exists>c. zs = xs @ c"
  by (auto simp: append_eq_append_conv2)

lemma fetch_at_step:
  assumes "isSuccess status" "told_length meta (length body)" "length head \<le> 1029"
    and head: "find_crlf head = Some (length head - 2)" "\<And>rest. parseResponseHead (head @ rest) = Head status meta (length head)"
    and got: "got @ chunk @ tail = head @ body @ rest" and f: "fetch_at head status meta body got f"
  shows "fetch_at head status meta body (got @ chunk) (fetch_step (Fetch_Data chunk) f)"
proof -
  obtain mime ps v where t: "parseSuccessMeta meta = Some (mime, ps)" "map_of ps (text_of ''length'') = Some v" "parse_length v = Some (length body)"
    using assms(2) by (auto simp: told_length_def)
  have got': "(got @ chunk) @ tail = head @ (body @ rest)" using got by simp
  have "length head \<ge> 2" using find_crlf_Some [OF head(1), of "[]"] by simp
  show ?thesis
  proof (cases "length got < length head")
    case True
    then have f: "f = fresh_fetching\<lparr>ftc_buffer := got\<rparr>" using f by (simp add: fetch_at_def)
    show ?thesis
    proof (cases "length (got @ chunk) < length head")
      case short: True
      then obtain c where p: "head = (got @ chunk) @ c" using append_short [OF got'] by auto
      have "find_crlf (got @ chunk) = None"
      proof (rule ccontr)
        assume "find_crlf (got @ chunk) \<noteq> None"
        then have "find_crlf (got @ chunk) = Some (length head - 2)" using find_crlf_prefix [of "got @ chunk" c] head(1) unfolding p by auto
        from find_crlf_Some [OF this, of "[]"] show False using short \<open>length head \<ge> 2\<close> by linarith
      qed
      then show ?thesis using short assms(3) f
        by (simp add: fetch_at_def fetch_step_def fresh_fetching_def tryAdvance_def parseResponseHead_def)
    next
      case False
      then obtain b where b: "got @ chunk = head @ b" "b @ tail = body @ rest" using append_long [OF got'] by auto
      show ?thesis
      proof (cases "length b < length body")
        case True
        then show ?thesis using b f head(2) t assms(1)
          by (simp add: fetch_at_def fetch_step_def fresh_fetching_def tryAdvance_def fetch_body_def)
      next
        case full: False
        then obtain b' where "b = body @ b'" using append_long [OF b(2)] by auto
        then show ?thesis using full b f head(2) t assms(1)
          by (simp add: fetch_at_def fetch_step_def fresh_fetching_def tryAdvance_def fetch_body_def fetch_settle_def)
      qed
    qed
  next
    case long: False
    then obtain b where b: "got = head @ b" "b @ (chunk @ tail) = body @ rest" using append_long [of got "chunk @ tail" head "body @ rest"] got by auto
    show ?thesis
    proof (cases "length b < length body")
      case True
      then have f: "f = fresh_fetching\<lparr>ftc_head := Some (status, meta), ftc_needed := Some (length body), ftc_body := b\<rparr>"
        using f b(1) by (simp add: fetch_at_def)
      show ?thesis
      proof (cases "length (b @ chunk) < length body")
        case True
        then show ?thesis using b(1) f
          by (simp add: fetch_at_def fetch_step_def fresh_fetching_def tryAdvance_def fetch_body_def)
      next
        case full: False
        have "(b @ chunk) @ tail = body @ rest" using b(2) by simp
        then obtain b' where "b @ chunk = body @ b'" using append_long [of "b @ chunk" tail body rest] full by auto
        then show ?thesis using full b(1) f True
          by (cases "chunk = []") (auto simp: fetch_at_def fetch_step_def fresh_fetching_def tryAdvance_def fetch_body_def fetch_settle_def)
      qed
    next
      case False
      then show ?thesis using f b(1) by (simp add: fetch_at_def fetch_step_def)
    qed
  qed
qed

lemma fetch_at_run:
  assumes "isSuccess status" "told_length meta (length body)" "length head \<le> 1029"
    and "find_crlf head = Some (length head - 2)" "\<And>rest. parseResponseHead (head @ rest) = Head status meta (length head)"
  shows "got @ concat chunks @ tail = head @ body @ rest \<Longrightarrow> fetch_at head status meta body got f
    \<Longrightarrow> fetch_at head status meta body (got @ concat chunks) (fold fetch_step (map Fetch_Data chunks) f)"
proof (induction chunks arbitrary: got f)
  case (Cons c cs)
  have "fetch_at head status meta body (got @ c) (fetch_step (Fetch_Data c) f)"
    using fetch_at_step [OF assms, where tail = "concat cs @ tail"] Cons.prems by simp
  then show ?case using Cons.IH [of "got @ c"] Cons.prems by simp
qed simp

lemma fetch_done_keeps: "ftc_done f = Some r \<Longrightarrow> ftc_done (fold fetch_step evs f) = Some r"
  by (induction evs arbitrary: f) (auto simp: fetch_step_def)

lemma response_head:
  assumes "buildResponse r = Inr bs" "\<forall>c\<in>set (srs_meta r). scalar c" "srs_meta r = [] \<or> hd (srs_meta r) \<noteq> 0xFEFF"
    and "isSuccess (srs_status r)" "srs_body r = Some body"
  shows "\<exists>head. bs = head @ body \<and> length head \<le> 1029 \<and> find_crlf head = Some (length head - 2)
    \<and> (\<forall>rest. parseResponseHead (head @ rest) = Head (srs_status r) (srs_meta r) (length head))"
proof -
  obtain head where h: "buildResponse (r\<lparr>srs_body := None\<rparr>) = Inr head" and bs: "bs = head @ body"
    using assms by (auto simp: buildResponse_def split: sum.splits)
  have p: "parseResponseHead (head @ rest) = Head (srs_status r) (srs_meta r) (length head)" for rest
    using response_roundtrip [OF h, of rest] assms(2,3) by auto
  let ?m = "utf8_encode (srs_meta r)"
  have "isValidStatus (srs_status r)" "length ?m \<le> 1024" "CR \<notin> set ?m"
    and hd: "head = map of_char (decimal (nat (srs_status r))) @ [0x20] @ ?m @ [CR, LF]"
    using h by (auto simp: buildResponse_def buildResponseHead_def Let_def split: if_splits)
  moreover from status_digits [OF this(1)] obtain a b where
    "map of_char (decimal (nat (srs_status r))) = [a, b :: byte]" "ascii_digit a" "ascii_digit b" by metis
  moreover from this have "a \<noteq> CR" "b \<noteq> CR" by (auto simp: ascii_digit_def word_le_nat_alt)
  ultimately have "length head \<le> 1029" "find_crlf head = Some (length head - 2)"
    using find_crlf_append [of "a # b # 0x20 # ?m" "[]"] by auto
  then show ?thesis using p bs by blast
qed

text \<open>C40. A page whose meta tells its length arrives whole: a success response, as the server writes it, makes the fetch end with
  just that response, into whatever chunks the stream cuts it, whatever comes behind it in the last of them (the next response on
  the connection), and whatever happens afterwards, be it an error, the end of the stream or the timeout.\<close>

theorem site_page_delivered:
  assumes "buildRequest C url = Inr request" "buildResponse r = Inr bs" "isSuccess (srs_status r)" "srs_body r = Some body"
    and "\<forall>c\<in>set (srs_meta r). scalar c" "srs_meta r = [] \<or> hd (srs_meta r) \<noteq> 0xFEFF" "told_length (srs_meta r) (length body)"
    and "take (length bs) (concat chunks) = bs"
  shows "fst (fetchOnce C url (map Fetch_Data chunks @ evs)) = Some request
    \<and> ftc_done (snd (fetchOnce C url (map Fetch_Data chunks @ evs))) = Some (Inr r)"
proof -
  obtain head where h: "bs = head @ body" "length head \<le> 1029" "find_crlf head = Some (length head - 2)"
    "\<And>rest. parseResponseHead (head @ rest) = Head (srs_status r) (srs_meta r) (length head)"
    using response_head [OF assms(2,5,6,3,4)] by blast
  have e: "concat chunks = head @ body @ drop (length bs) (concat chunks)"
    using append_take_drop_id [of "length bs" "concat chunks"] unfolding assms(8) by (simp only: h(1) append_assoc)
  have "fetch_at head (srs_status r) (srs_meta r) body [] fresh_fetching"
    using h(3) by (cases head) (simp_all add: fetch_at_def fresh_fetching_def)
  then have "fetch_at head (srs_status r) (srs_meta r) body (concat chunks) (fold fetch_step (map Fetch_Data chunks) fresh_fetching)"
    using fetch_at_run [OF assms(3,7) h(2,3,4), where tail = "[]" and got = "[]" and chunks = chunks and rest = "drop (length bs) (concat chunks)"] e
    by simp
  moreover have "\<not> length (concat chunks) < length head + length body" using arg_cong [OF e, of length] by simp
  ultimately have "ftc_done (fold fetch_step (map Fetch_Data chunks) fresh_fetching) = Some (Inr r)"
    using assms(4) by (cases r) (auto simp: fetch_at_def)
  then show ?thesis using assms(1) fetch_done_keeps by (simp add: fetchOnce_def fresh_fetching_def)
qed

definition toy_page :: site_response where
  "toy_page = \<lparr>srs_status = 20, srs_meta = text_of ''text/anon; length=3'', srs_body = Some [1, 2, 3]\<rparr>"

text \<open>A URL that is an address alone.\<close>

definition toy_url :: js_text where "toy_url = text_of (''anon://'' @ address_of toy_crypto (zeros 32) 2)"

lemma toy_address: "set (address_of toy_crypto (zeros 32) 2) \<subseteq> set ALPHABET \<union> {CHR ''.'', CHR ''o''}"
proof -
  let ?bs = "zeros 32 @ computeChecksum toy_crypto (zeros 32) 2 @ [u8 2]"
  have a: "address_of toy_crypto (zeros 32) 2 = base32encode ?bs @ ''.anon''" using address_layout [OF toy_hash_ok] by simp
  have "set (base32encode ?bs) \<subseteq> set ALPHABET" using base32encode_spec [of ?bs] by blast
  moreover have "set ''.anon'' \<subseteq> set ALPHABET \<union> {CHR ''.'', CHR ''o''}" by (simp add: ALPHABET_def)
  ultimately show ?thesis unfolding a set_append by blast
qed

lemma toy_host: "is_onion_host toy_crypto (text_of (address_of toy_crypto (zeros 32) 2))"
proof -
  let ?a = "address_of toy_crypto (zeros 32) 2"
  have "of_char c < (128 :: nat)" if "c \<in> set ?a" for c using that toy_address by (auto simp: ALPHABET_def)
  moreover from this have "of_char c \<noteq> (0x212A :: nat)" if "c \<in> set ?a" for c using that by fastforce
  ultimately have "list_all (\<lambda>c. c < 128) (text_of ?a)" "map (\<lambda>c. if c = 0x212A then char_of (107 :: nat) else char_of c) (text_of ?a) = ?a"
    by (auto simp: text_of_def list_all_iff intro!: map_idI)
  then show ?thesis using decode_address [OF toy_hash_ok, of "zeros 32" 2] by (simp add: is_onion_host_def list_all_iff)
qed

lemma index_of_none: "c \<notin> set t \<Longrightarrow> index_of c t = None" by (induction t) auto

lemma build_host_request:
  assumes "35 \<notin> set h" "64 \<notin> set h" "47 \<notin> set h" "63 \<notin> set h" "58 \<notin> set h" "is_onion_host C h" "length h \<le> 200"
  shows "\<exists>bs. buildRequest C (URL_SCHEME @ h) = Inr bs"
proof -
  have "host_end h = length h" using assms by (simp add: host_end_def index_of_none)
  moreover have "length (utf8_encode t) \<le> 4 * length t" for t by (induction t) (auto simp: utf8_encode_def utf8_char_def)
  from this [of "URL_SCHEME @ h"] have "\<not> length (utf8_encode (URL_SCHEME @ h)) + 2 > 1024"
    using assms(7) by (simp add: URL_SCHEME_def text_of_def)
  moreover have "35 \<notin> set URL_SCHEME" "64 \<notin> set URL_SCHEME" by (simp_all add: URL_SCHEME_def text_of_def)
  ultimately show ?thesis using assms by (simp add: buildRequest_def starts_with_def Let_def)
qed

lemma toy_request: "\<exists>bs. buildRequest toy_crypto toy_url = Inr bs"
proof -
  let ?a = "address_of toy_crypto (zeros 32) 2"
  have n: "of_char c \<notin> {35, 64, 47, 63, 58 :: nat}" if "c \<in> set ALPHABET \<union> {CHR ''.'', CHR ''o''}" for c
    using that by (auto simp: ALPHABET_def)
  have "c \<notin> set (text_of ?a)" if "c \<in> {35, 64, 47, 63, 58}" for c
  proof
    assume "c \<in> set (text_of ?a)"
    then obtain x where "c = of_char x" "x \<in> set ?a" unfolding text_of_def set_map by (rule imageE)
    then show False using n [OF subsetD [OF toy_address]] that by blast
  qed
  then have "35 \<notin> set (text_of ?a)" "64 \<notin> set (text_of ?a)" "47 \<notin> set (text_of ?a)" "63 \<notin> set (text_of ?a)" "58 \<notin> set (text_of ?a)"
    by blast+
  moreover have "length (text_of ?a) \<le> 200" using length_base32_address [of "zeros 32 @ computeChecksum toy_crypto (zeros 32) 2 @ [u8 2]"]
      length_computeChecksum [OF toy_hash_ok] address_layout [OF toy_hash_ok, of "zeros 32" 2] by (simp add: text_of_def)
  moreover have "toy_url = URL_SCHEME @ text_of ?a" by (simp add: toy_url_def URL_SCHEME_def text_of_def)
  ultimately show ?thesis using build_host_request [OF _ _ _ _ _ toy_host] by metis
qed

lemma toy_page_bytes: "buildResponse toy_page = Inr (ascii ''20 text/anon; length=3'' @ [13, 10, 1, 2, 3])"
  by (simp add: toy_page_def buildResponse_def buildResponseHead_def isValidStatus_def isSuccess_def text_of_def utf8_encode_def utf8_char_def
      u8_def ascii_def decimal.simps) code_simp

lemma toy_length: "told_length (srs_meta toy_page) (length [1, 2, 3 :: byte])"
  by (simp add: toy_page_def told_length_def parseSuccessMeta_def text_of_def trim_def white_def lower_code_def is_mime_def mime_code_def
      parse_length_def js_number_small)

theorem site_page_delivered_witness:
  "ftc_done (snd (fetchOnce toy_crypto toy_url
     [Fetch_Data (ascii ''20 text''), Fetch_Data (ascii ''/anon; length=3'' @ [13]), Fetch_Data [10, 1, 2], Fetch_Data [3, 50, 48],
      Fetch_Timeout])) = Some (Inr toy_page)"
proof -
  obtain q where q: "buildRequest toy_crypto toy_url = Inr q" using toy_request by blast
  have m: "\<forall>c\<in>set (srs_meta toy_page). scalar c" "hd (srs_meta toy_page) \<noteq> 0xFEFF" "isSuccess (srs_status toy_page)"
    "srs_body toy_page = Some [1, 2, 3]"
    by (simp_all add: toy_page_def text_of_def scalar_def surrogate_def isSuccess_def)
  show ?thesis
    using site_page_delivered [OF q toy_page_bytes m(3,4,1) disjI2 [OF m(2)] toy_length,
      of "[ascii ''20 text'', ascii ''/anon; length=3'' @ [13], [10, 1, 2], [3, 50, 48]]" "[Fetch_Timeout]"]
    by (simp add: ascii_def)
qed

section \<open>The server\<close>

definition "handled" :: "site_effect list \<Rightarrow> site_request list" where
  "handled fx = concat (map (\<lambda>e. case e of Handle r \<Rightarrow> [r] | _ \<Rightarrow> []) fx)"

definition received :: "site_event list \<Rightarrow> bytes" where
  "received evs = concat (map (\<lambda>e. case e of Site_Data bs \<Rightarrow> bs | _ \<Rightarrow> []) evs)"

definition request_line :: "crypto \<Rightarrow> bytes \<Rightarrow> site_request \<Rightarrow> bool" where
  "request_line C l r \<longleftrightarrow> find_crlf (l @ [CR, LF]) = Some (length l) \<and> parseRequest C (l @ [CR, LF]) = Inr (Request r)"

definition terminated :: "bytes list \<Rightarrow> bytes" where "terminated lines = concat (map (\<lambda>l. l @ [CR, LF]) lines)"

text \<open>What the peer sees: a request is handled, then answered; a refusal is the last answer.\<close>

datatype exchange = Waiting | Handling | Refused | Ended | Broken

fun exchange_step :: "exchange \<Rightarrow> site_effect \<Rightarrow> exchange" where
  "exchange_step Waiting (Handle r) = Handling"
| "exchange_step Waiting (Site_Write w) = Refused"
| "exchange_step Waiting Site_End = Ended"
| "exchange_step Handling (Site_Write w) = Waiting"
| "exchange_step Refused Site_End = Ended"
| "exchange_step _ _ = Broken"

definition no_request :: "crypto \<Rightarrow> bytes \<Rightarrow> bool" where
  "no_request C bs \<longleftrightarrow> (case parseRequest C bs of Inl e \<Rightarrow> True | Inr p \<Rightarrow> p = Req_Incomplete)"

text \<open>The lines of the requests handled are what has been received, up to the rest.\<close>

definition taken :: "crypto \<Rightarrow> bytes \<Rightarrow> bytes \<Rightarrow> site_effect list \<Rightarrow> bool" where
  "taken C bs rest fx \<longleftrightarrow> (\<exists>lines. bs = terminated lines @ rest \<and> list_all2 (request_line C) lines (handled fx))"

definition site_core :: "crypto \<Rightarrow> bytes \<Rightarrow> site_effect list \<Rightarrow> site_connection \<Rightarrow> bool" where
  "site_core C bs fx s \<longleftrightarrow>
     (\<exists>ignored. taken C bs (scn_buffer s @ ignored) fx) \<and> (\<not> scn_closing s \<longrightarrow> taken C bs (scn_buffer s) fx)
     \<and> (let x = foldl exchange_step Waiting fx
        in x \<noteq> Broken \<and> (\<not> scn_closing s \<longrightarrow> x = (if scn_busy s then Handling else Waiting)))"

text \<open>What a round of the loop may do.\<close>

definition site_round :: "crypto \<Rightarrow> site_connection \<Rightarrow> site_effect list \<Rightarrow> site_connection \<Rightarrow> bool" where
  "site_round C s es s' \<longleftrightarrow>
     es = [] \<and> s' = s \<and> no_request C (scn_buffer s)
     \<or> (es = [Site_End] \<or> (\<exists>w. es = [Site_Write w, Site_End])) \<and> s' = s\<lparr>scn_closing := True\<rparr>
     \<or> (\<exists>r l. es = [Handle r] \<and> request_line C l r \<and> s' = s\<lparr>scn_buffer := scn_buffer s', scn_busy := True\<rparr>
          \<and> scn_buffer s = l @ CR # LF # scn_buffer s')"

lemma crlf_split:
  assumes "find_crlf bs = Some i"
  shows "bs = take i bs @ CR # LF # drop (i + 2) bs \<and> find_crlf (take i bs @ [CR, LF]) = Some i"
proof -
  have k: "i + 2 \<le> length bs" "bs ! i = CR" "bs ! (i + 1) = LF" using find_crlf_Some [OF assms, of "[]"] by simp_all
  have b: "bs = take i bs @ CR # LF # drop (i + 2) bs"
    using k id_take_nth_drop [of i bs] Cons_nth_drop_Suc [of "i + 1" bs] by simp
  moreover have "find_crlf (take i bs @ [CR, LF]) = Some i"
  proof -
    have f: "find_crlf ((take i bs @ [CR, LF]) @ drop (i + 2) bs) = Some i" using assms b by simp
    then show ?thesis using find_crlf_prefix [OF f] find_crlf_short [OF f] k by fastforce
  qed
  ultimately show ?thesis by blast
qed

lemma parse_line:
  assumes "find_crlf bs = Some i"
  shows "parseRequest C (take i bs @ [CR, LF]) = parseRequest C bs"
  using crlf_split [OF assms] assms find_crlf_Some [OF assms, of "[]"] by (simp add: parseRequest_def)

lemma bad_request_writes:
  assumes "\<not> scn_closing s" "meta = text_of ''request too long'' \<or> meta = text_of ''bad request''"
  shows "\<exists>w. bad_request meta s = (Inr (), [Site_Write w, Site_End], s\<lparr>scn_closing := True\<rparr>)"
proof -
  have "\<exists>w. buildResponse \<lparr>srs_status = 59, srs_meta = meta, srs_body = None\<rparr> = Inr w"
    using assms(2) by (auto simp: buildResponse_def buildResponseHead_def isValidStatus_def text_of_def utf8_encode_def utf8_char_def u8_def)
  then show ?thesis using assms(1) by (auto simp: bad_request_def lift_def seq_def sendResponse_def emit_def)
qed

lemma process_round:
  assumes "\<not> scn_busy s" "\<not> scn_closing s" "process_loop C s = (x, es, s')"
  shows "site_round C s es s'"
proof -
  have m: "site_round C s es s'" if "maybeClose s = (x, es, s')" "no_request C (scn_buffer s)"
    using that assms(1,2) by (auto simp: maybeClose_def site_round_def ret_def emit_def split: if_splits)
  show ?thesis
  proof (cases "scn_buffer s = []")
    case True
    then show ?thesis using m assms by (simp add: process_loop_def no_request_def parseRequest_def)
  next
    case ne: False
    show ?thesis
    proof (cases "parseRequest C (scn_buffer s)")
      case (Inl e)
      then show ?thesis using assms ne by (auto simp: process_loop_def lift_def seq_def site_round_def no_request_def)
    next
      case p: (Inr p)
      have e: "process_loop C s = (case p of Req_Incomplete \<Rightarrow> maybeClose s
           | Req_Too_Long \<Rightarrow> bad_request (text_of ''request too long'') s
           | Req_Malformed \<Rightarrow> bad_request (text_of ''bad request'') s
           | Request r \<Rightarrow>
             (case find_crlf (scn_buffer s) of None \<Rightarrow> maybeClose s
              | Some i \<Rightarrow> emit (Handle r) (s\<lparr>scn_buffer := drop (i + 2) (scn_buffer s), scn_busy := True\<rparr>)))"
        using assms(1,2) ne p by (simp add: process_loop_def lift_def seq_def split: prod.split)
      show ?thesis
      proof (cases p)
        case Req_Incomplete
        then show ?thesis using m e p assms(3) by (simp add: no_request_def)
      next
        case Req_Too_Long
        then show ?thesis using bad_request_writes [OF assms(2)] e assms(3) by (fastforce simp: site_round_def)
      next
        case Req_Malformed
        then show ?thesis using bad_request_writes [OF assms(2)] e assms(3) by (fastforce simp: site_round_def)
      next
        case (Request r)
        then obtain i where i: "find_crlf (scn_buffer s) = Some i" using p by (auto simp: parseRequest_def split: option.splits if_splits)
        have "request_line C (take i (scn_buffer s)) r"
          using crlf_split [OF i] parse_line [OF i, of C] p Request find_crlf_Some [OF i, of "[]"] by (simp add: request_line_def)
        moreover have "es = [Handle r]" "s' = s\<lparr>scn_buffer := drop (i + 2) (scn_buffer s), scn_busy := True\<rparr>"
          using e assms(3) Request i by (simp_all add: emit_def)
        ultimately show ?thesis using crlf_split [OF i] unfolding site_round_def by fastforce
      qed
    qed
  qed
qed

lemma handled_append [simp]: "handled (xs @ ys) = handled xs @ handled ys" by (simp add: handled_def)

lemma handled_simps [simp]: "handled [] = []" "handled (Handle r # es) = r # handled es" "handled (Site_Write w # es) = handled es"
  "handled (Site_End # es) = handled es"
  by (simp_all add: handled_def)

lemma terminated_snoc [simp]: "terminated (ls @ [l]) = terminated ls @ l @ [CR, LF]" by (simp add: terminated_def)

lemma taken_some: "taken C bs rest fx \<Longrightarrow> \<exists>ignored. taken C bs (rest @ ignored) fx"
  by (rule exI [of _ "[]"]) simp

lemma taken_more: "taken C bs rest fx \<Longrightarrow> taken C (bs @ x) (rest @ x) fx"
  by (auto simp: taken_def)

lemma taken_handled: "handled (fx @ es) = handled fx \<Longrightarrow> taken C bs rest (fx @ es) = taken C bs rest fx"
  by (simp add: taken_def)

lemma taken_line:
  assumes "taken C bs (l @ CR # LF # rest) fx" "request_line C l r"
  shows "taken C bs rest (fx @ [Handle r])"
proof -
  obtain ls where "bs = terminated ls @ l @ CR # LF # rest" "list_all2 (request_line C) ls (handled fx)" using assms(1) unfolding taken_def by blast
  then have "bs = terminated (ls @ [l]) @ rest" "list_all2 (request_line C) (ls @ [l]) (handled (fx @ [Handle r]))"
    using assms(2) by (simp_all add: list_all2_appendI)
  then show ?thesis unfolding taken_def by blast
qed

lemma core_round:
  assumes "site_core C bs fx s" "\<not> scn_busy s" "\<not> scn_closing s" "site_round C s es s'"
  shows "site_core C bs (fx @ es) s' \<and> (\<not> scn_busy s' \<and> \<not> scn_closing s' \<longrightarrow> no_request C (scn_buffer s'))"
proof -
  have t: "taken C bs (scn_buffer s) fx" and x: "foldl exchange_step Waiting fx = Waiting"
    using assms(1-3) by (auto simp: site_core_def Let_def)
  from assms(4) show ?thesis unfolding site_round_def
  proof (elim disjE exE conjE)
    fix r l assume a: "es = [Handle r]" "request_line C l r" "s' = s\<lparr>scn_buffer := scn_buffer s', scn_busy := True\<rparr>"
      "scn_buffer s = l @ CR # LF # scn_buffer s'"
    have "taken C bs (scn_buffer s') (fx @ es)" using taken_line [of C bs l "scn_buffer s'" fx r] t a by simp
    moreover have "scn_busy s'" by (subst a(3)) simp
    moreover have "\<not> scn_closing s'" using assms(3) by (subst a(3)) simp
    ultimately show ?thesis using x a(1) taken_some by (simp add: site_core_def Let_def)
  qed (use assms(1-3) t x taken_some in \<open>auto simp: site_core_def Let_def taken_handled\<close>)
qed

lemma closed_step:
  assumes "scn_closing s"
  shows "\<exists>s'. site_step C ev s = (Inr (), [], s') \<and> scn_closing s' \<and> scn_buffer s' = scn_buffer s"
  using assms
  by (cases ev) (auto simp: site_step_def Let_def ret_def processBuffer_def maybeClose_def swallow_def handler_done_def sendResponse_def
      process_loop_def lift_def seq_def split: prod.splits sum.splits)

definition site_inv :: "crypto \<Rightarrow> bytes \<Rightarrow> site_effect list \<Rightarrow> site_connection \<Rightarrow> bool" where
  "site_inv C bs fx s \<longleftrightarrow> site_core C bs fx s \<and> (\<not> scn_busy s \<and> \<not> scn_closing s \<longrightarrow> no_request C (scn_buffer s))"

definition builds :: "site_event \<Rightarrow> bool" where
  "builds ev \<longleftrightarrow> (case ev of Handler_Done (Some r) \<Rightarrow> (\<exists>bs. buildResponse r = Inr bs) | _ \<Rightarrow> True)"

lemma inv_process:
  assumes "site_core C bs fx s" "\<not> scn_busy s" "\<not> scn_closing s" "swallow (processBuffer C s) = (x, es, s')"
  shows "site_inv C bs (fx @ es) s'"
proof -
  obtain y where "process_loop C s = (y, es, s')" using assms(2-4) by (auto simp: processBuffer_def swallow_def split: prod.splits)
  then show ?thesis using core_round [OF assms(1-3)] process_round [OF assms(2,3)] unfolding site_inv_def by blast
qed

lemma site_inv_step:
  assumes "site_inv C bs fx s" "builds ev" "site_step C ev s = (x, es, s')"
  shows "site_inv C (bs @ received [ev]) (fx @ es) s'"
proof (cases "scn_closing s")
  case True
  then have s': "es = []" "scn_closing s'" "scn_buffer s' = scn_buffer s" using closed_step [OF True, of C ev] assms(3) by auto
  obtain i where "taken C bs (scn_buffer s @ i) fx" "foldl exchange_step Waiting fx \<noteq> Broken"
    using assms(1) by (auto simp: site_inv_def site_core_def Let_def)
  then have "taken C (bs @ received [ev]) (scn_buffer s @ (i @ received [ev])) fx" "foldl exchange_step Waiting fx \<noteq> Broken"
    using taken_more by (metis append_assoc, simp)
  then show ?thesis using s' unfolding site_inv_def site_core_def Let_def by auto
next
  case open_: False
  have core: "site_core C bs fx s" using assms(1) by (simp add: site_inv_def)
  show ?thesis
  proof (cases ev)
    case (Site_Data chunk)
    let ?s = "s\<lparr>scn_buffer := scn_buffer s @ chunk\<rparr>"
    have core': "site_core C (bs @ chunk) fx ?s" using core open_ taken_more taken_some by (fastforce simp: site_core_def Let_def)
    have r: "received [ev] = chunk" using Site_Data by (simp add: received_def)
    show ?thesis
    proof (cases "length (scn_buffer ?s) > MAX_REQUEST_BYTES * 2")
      case True
      obtain w where "bad_request (text_of ''request too long'') ?s = (Inr (), [Site_Write w, Site_End], ?s\<lparr>scn_closing := True\<rparr>)"
        using bad_request_writes [of ?s] open_ by auto
      then have "es = [Site_Write w, Site_End]" "s' = ?s\<lparr>scn_closing := True\<rparr>"
        using assms(3) Site_Data True open_ by (simp_all add: site_step_def Let_def)
      then show ?thesis using core' open_ r by (auto simp: site_inv_def site_core_def Let_def taken_handled)
    next
      case False
      then have e: "swallow (processBuffer C ?s) = (x, es, s')" using assms(3) Site_Data open_ by (simp add: site_step_def Let_def)
      show ?thesis
      proof (cases "scn_busy s")
        case True
        then have "es = []" "s' = ?s" using e by (auto simp: processBuffer_def swallow_def ret_def)
        then show ?thesis using core' True r by (simp add: site_inv_def)
      next
        case False
        then show ?thesis using inv_process [OF core' _ _ e] open_ r by simp
      qed
    qed
  next
    case Site_Peer_End
    let ?s = "s\<lparr>scn_peerClosed := True\<rparr>"
    have core': "site_core C bs fx ?s" using core by (simp add: site_core_def)
    have r: "received [ev] = []" using Site_Peer_End by (simp add: received_def)
    show ?thesis
    proof (cases "scn_busy s")
      case True
      then have "es = []" "s' = ?s" using assms(3) Site_Peer_End by (auto simp: site_step_def Let_def maybeClose_def ret_def split: if_splits)
      then show ?thesis using core' True r by (simp add: site_inv_def)
    next
      case False
      then have "swallow (processBuffer C ?s) = (x, es, s')" using assms(3) Site_Peer_End by (simp add: site_step_def Let_def)
      then show ?thesis using inv_process [OF core'] False open_ r by simp
    qed
  next
    case (Handler_Done h)
    have r: "received [ev] = []" using Handler_Done by (simp add: received_def)
    show ?thesis
    proof (cases "scn_busy s")
      case False
      then show ?thesis using assms(1,3) Handler_Done r by (auto simp: site_step_def handler_done_def swallow_def ret_def)
    next
      case True
      let ?s = "s\<lparr>scn_busy := False\<rparr>"
      let ?r = "case h of Some r \<Rightarrow> r | None \<Rightarrow> \<lparr>srs_status = 50, srs_meta = text_of ''internal server error'', srs_body = None\<rparr>"
      obtain w where w: "buildResponse ?r = Inr w"
        using assms(2) Handler_Done
        by (cases h) (auto simp: builds_def buildResponse_def buildResponseHead_def isValidStatus_def text_of_def utf8_encode_def utf8_char_def u8_def)
      have "handler_done C h s = seq (sendResponse w False ?s) (\<lambda>_. process_loop C)"
        using w True by (cases h) (auto simp: handler_done_def Let_def lift_def seq_def split: prod.splits sum.splits)
      moreover have "sendResponse w False ?s = (Inr (), [Site_Write w], ?s)" using open_ by (simp add: sendResponse_def seq_def emit_def ret_def)
      ultimately obtain y fs where p: "process_loop C ?s = (y, fs, s')" and es: "es = Site_Write w # fs"
        using assms(3) Handler_Done by (auto simp: site_step_def swallow_def seq_def split: prod.splits)
      have "site_core C bs (fx @ [Site_Write w]) ?s" using core True open_ by (auto simp: site_core_def Let_def taken_handled)
      then show ?thesis using core_round [where fx = "fx @ [Site_Write w]"] process_round [OF _ _ p] open_ es r by (simp add: site_inv_def)
    qed
  next
    case Site_Error
    then show ?thesis using assms open_ by (auto simp: site_step_def ret_def site_inv_def site_core_def Let_def received_def)
  qed
qed

lemma site_inv_run:
  "site_inv C bs fx s \<Longrightarrow> list_all builds evs \<Longrightarrow> site_run C evs s = (es, s') \<Longrightarrow> site_inv C (bs @ received evs) (fx @ es) s'"
proof (induction evs arbitrary: bs fx s es)
  case (Cons ev evs)
  obtain x gs t where st: "site_step C ev s = (x, gs, t)" by (cases "site_step C ev s")
  obtain hs where ru: "site_run C evs t = (hs, s')" and es: "es = gs @ hs" using Cons.prems(3) st by (auto split: prod.splits)
  show ?case using Cons.IH [OF site_inv_step [OF Cons.prems(1) _ st] _ ru] Cons.prems(2) es by (simp add: received_def)
qed (simp add: received_def)

text \<open>C39. What a server's connection does with what it receives: the requests given to the handler are those of the complete lines
  of the stream, in its order, none skipped, none twice and however the stream is cut; what is left waits in the buffer, and while
  no handler runs on an open connection it holds no further request that could be taken. Requests and answers alternate, a refusal
  is the last answer, and nothing is sent after the end. (The handlers' responses can be built: one that cannot is never answered.)\<close>

theorem site_requests:
  assumes "site_run C evs site_start = (fx, s)" "list_all builds evs"
  shows "(\<exists>lines ignored. received evs = terminated lines @ scn_buffer s @ ignored \<and> (scn_closing s \<or> ignored = [])
        \<and> list_all2 (request_line C) lines (handled fx))
    \<and> foldl exchange_step Waiting fx \<noteq> Broken
    \<and> (scn_closing s \<or> (if scn_busy s then foldl exchange_step Waiting fx = Handling
          else foldl exchange_step Waiting fx = Waiting \<and> no_request C (scn_buffer s)))"
proof -
  have "taken C [] [] []" by (simp add: taken_def terminated_def)
  then have "site_inv C [] [] site_start"
    by (simp add: site_inv_def site_core_def site_start_def no_request_def parseRequest_def taken_some [of C "[]" "[]" "[]", simplified])
  from site_inv_run [OF this assms(2,1)] have i: "site_inv C (received evs) fx s" by simp
  then have "\<exists>ignored. taken C (received evs) (scn_buffer s @ ignored) fx \<and> (scn_closing s \<or> ignored = [])"
    by (cases "scn_closing s") (auto simp: site_inv_def site_core_def intro!: exI [of _ "[]"])
  then show ?thesis using i unfolding site_inv_def site_core_def taken_def Let_def by (metis (no_types, lifting))
qed

text \<open>A line that is not UTF-8 stays in the buffer: it is not answered, and the connection is not closed when the peer ends.\<close>

lemma bad_utf8_stalls:
  assumes "parseRequest C (scn_buffer s) = Inl e" "\<not> scn_busy s" "\<not> scn_closing s"
  shows "site_step C Site_Peer_End s = (Inr (), [], s\<lparr>scn_peerClosed := True\<rparr>)"
proof -
  have "scn_buffer s \<noteq> []" using assms(1) by (auto simp: parseRequest_def)
  then show ?thesis using assms by (simp add: site_step_def Let_def processBuffer_def process_loop_def swallow_def lift_def seq_def)
qed

text \<open>A response that cannot be built is no answer.\<close>

lemma invalid_response_stalls:
  assumes "buildResponse r = Inl e" "scn_busy s"
  shows "site_step C (Handler_Done (Some r)) s = (Inr (), [], s\<lparr>scn_busy := False\<rparr>)"
  using assms by (simp add: site_step_def handler_done_def Let_def swallow_def lift_def seq_def)

text \<open>At most one request more than the redirects allowed.\<close>

lemma redirects_bounded: "length (snd (fetchWithRedirects fetch onInput maxRedirects url)) \<le> maxRedirects + 1"
proof -
  have "length (snd (redirect_loop fetch onInput left hop u vs)) \<le> left" for left hop u vs
    by (induction left arbitrary: hop u vs) (auto simp: Let_def case_prod_unfold split: sum.splits option.splits bool.splits)
  from this [of "maxRedirects + 1"] show ?thesis unfolding fetchWithRedirects_def .
qed

definition toy_visit :: "bytes \<Rightarrow> site_event list" where
  "toy_visit bs = [Site_Data (take 9 bs), Site_Data (drop 9 bs), Handler_Done (Some toy_page), Site_Peer_End]"

lemma toy_visit_runs:
  assumes "parseRequest C bs = Inr (Request r)" "find_crlf bs = Some i" "i + 2 = length bs" "length bs \<le> 1024" "find_crlf (take 9 bs) = None" "9 < length bs"
  shows "\<exists>w. site_run C (toy_visit bs) site_start = ([Handle r, Site_Write w, Site_End], \<lparr>scn_buffer = [], scn_busy = False, scn_closing = True, scn_peerClosed = True\<rparr>)"
proof -
  have n: "parseRequest C (take 9 bs) = Inr Req_Incomplete" using assms(5,6) by (simp add: parseRequest_def)
  have ne: "bs \<noteq> []" using assms(6) by auto
  have l: "length (take 9 bs) \<le> 9" by simp
  show ?thesis using assms(1-4) n ne l
    by (simp add: toy_visit_def site_start_def site_step_def processBuffer_def process_loop_def swallow_def lift_def seq_def maybeClose_def
        ret_def emit_def handler_done_def Let_def toy_page_bytes sendResponse_def)
qed

lemma toy_url_codes: "\<forall>c\<in>set toy_url. scalar c \<and> 13 < c"
proof -
  have "scalar (of_char c) \<and> (13 :: nat) < of_char c" if "c \<in> set ''anon://'' \<union> (set ALPHABET \<union> {CHR ''.'', CHR ''o''})" for c
    using that by (auto simp: ALPHABET_def scalar_def surrogate_def)
  moreover have "set (''anon://'' @ address_of toy_crypto (zeros 32) 2) \<subseteq> set ''anon://'' \<union> (set ALPHABET \<union> {CHR ''.'', CHR ''o''})"
    unfolding set_append using toy_address by blast
  ultimately have "scalar (of_char c) \<and> (13 :: nat) < of_char c" if "c \<in> set (''anon://'' @ address_of toy_crypto (zeros 32) 2)" for c
    using that by blast
  then show ?thesis unfolding toy_url_def text_of_def set_map by blast
qed

theorem site_requests_witness:
  "\<exists>bs fx r. fst (site_run toy_crypto (toy_visit bs) site_start) = fx \<and> handled fx = [r] \<and> sit_url r = toy_url
     \<and> foldl exchange_step Waiting fx \<noteq> Broken \<and> (\<exists>lines ignored. bs = terminated lines @ ignored \<and> list_all2 (request_line toy_crypto) lines [r])"
proof -
  obtain bs where bs: "buildRequest toy_crypto toy_url = Inr bs" using toy_request by blast
  obtain r where r: "parseRequest toy_crypto bs = Inr (Request r)" "sit_url r = toy_url"
    using request_roundtrip [OF bs, of "[]"] toy_url_codes by auto
  have e: "bs = utf8_encode toy_url @ [CR, LF]" "length bs \<le> 1024" using bs by (auto simp: buildRequest_def Let_def split: if_splits)
  have cr: "CR \<notin> set (utf8_encode toy_url)" by (rule utf8_encode_CR) (use toy_url_codes in auto)
  have u: "utf8_encode toy_url = utf8_encode (text_of ''anon://'') @ utf8_encode (text_of (address_of toy_crypto (zeros 32) 2))"
    by (simp add: toy_url_def utf8_encode_def text_of_def)
  have "length t \<le> length (utf8_encode t)" for t by (induction t) (auto simp: utf8_encode_def utf8_char_def)
  from this [of toy_url] have l: "9 < length (utf8_encode toy_url)"
    using length_base32_address [of "zeros 32 @ computeChecksum toy_crypto (zeros 32) 2 @ [u8 2]"]
      length_computeChecksum [OF toy_hash_ok] address_layout [OF toy_hash_ok, of "zeros 32" 2] by (simp add: toy_url_def text_of_def)
  have "CR \<notin> set (butlast (take 9 bs))" using cr l e(1) by (auto dest!: in_set_butlastD in_set_takeD)
  then have n: "find_crlf (take 9 bs) = None" by (rule find_crlf_none)
  have f: "find_crlf bs = Some (length (utf8_encode toy_url))" using find_crlf_append [OF cr, of "[]"] e(1) by simp
  obtain w where w: "site_run toy_crypto (toy_visit bs) site_start = ([Handle r, Site_Write w, Site_End], \<lparr>scn_buffer = [], scn_busy = False, scn_closing = True, scn_peerClosed = True\<rparr>)"
    using toy_visit_runs [OF r(1) f _ e(2) n] l e(1) by auto
  have b: "list_all builds (toy_visit bs)" using toy_page_bytes by (simp add: toy_visit_def builds_def)
  have "received (toy_visit bs) = bs" by (simp add: received_def toy_visit_def)
  then show ?thesis using site_requests [OF w b] w r(2) by (intro exI [of _ bs] exI [of _ r]) simp
qed

end
