(* ===== verification/Spec2Isabelle.thy ===== *)
theory Spec2Isabelle
  imports Node_Props V2_Handshake V2_Exit_Policy_Props V2_Link V2_Onion_Address_Props V2_Relay_Node V2_Rendezvous_Props V2_Consensus_Props
    V2_Descriptor_Props V2_Client_Props V2_Client_Streams_Props V2_Hsdir_Props V2_Hidden_Open
    V2_Socks_Props V2_Site_Props
begin

text \<open>
  Anonymous Layer: a verification library for the JavaScript modules under \<open>src/modules/\<close>.

  \<^bold>\<open>The program.\<close> Two generations of an overlay network live in the repository. Version 0.1 (\<open>crypto/\<close>, \<open>wire/\<close>, \<open>peer/\<close>, \<open>node/\<close>) is a
  mesh of nodes that exchange padded, encrypted packets over WebSockets: a node keeps a table of certified peers, answers the packets
  that its transports deliver, and serves its peers in scheduler passes. Version 0.2 (\<open>v2/\<close>, \<open>v2-runtime/\<close>, \<open>v2-site/\<close>) is an onion
  router: links between relays are authenticated by a handshake, cells of 514 bytes travel on them, a client builds circuits of three
  relays with a hybrid (X25519 and ML-KEM) handshake per hop, and streams, hidden services, a SOCKS server and sites of their own
  protocol stand on the circuits.

  \<^bold>\<open>Conventions.\<close> A \<open>Uint8Array\<close> is a list of bytes (\<open>8 word\<close>); numbers that the code keeps in doubles are nat or int, with
  \<open>js\_number\<close> where they may exceed 53 bits, and the 32-bit shifts of JavaScript are on \<open>32 word\<close>. A function that throws returns
  \<open>js\_error + 'a\<close>; null is \<open>None\<close>. A closure's variables are a record. Operations that act on the outside return their effects as a
  list beside the new state, and keep them when they throw (\<open>Effects\<close>). What follows an \<open>await\<close> is an operation of its own, so that
  any other event may come between; a promise is a numbered cell that is settled once. \<open>Map\<close> is an association list in insertion
  order (\<open>JsMap\<close>). Random numbers, clocks and what other parties answer are arguments or events.

  \<^bold>\<open>Parameters.\<close> The primitives of the noble packages and of OpenSSL (BLAKE2b, Ed25519, X25519, ML-KEM, ML-DSA, ChaCha20-Poly1305,
  the ChaCha20 key stream) are the fields of the record \<open>crypto\<close>; \<open>hash\_ok\<close>, \<open>sig\_correct\<close>, \<open>dh\_correct\<close>, \<open>aead\_correct\<close>,
  \<open>kem\_correct\<close> and \<open>mldsa\_correct\<close> state their documented behaviour where a theorem needs it, and \<open>toy\_crypto\<close> satisfies them and lets the
  witnesses evaluate. The link manager, the peer resolver, HTTP, the file system and the handler of a site are arguments.

  \<^bold>\<open>Shared theories.\<close> \<open>Prelude\<close> (typed arrays, big-endian integers, errors), \<open>Codec\<close> (the locales \<open>frame\_codec\<close> and \<open>record\_codec\<close>
  for wire formats, interpreted for every format with a parser), \<open>JsMap\<close> (\<open>ordered\_map\<close>), \<open>Machine\<close> (\<open>call\_machine\<close>, invariants of components
  that answer calls), \<open>Effects\<close> (sequencing of effectful operations and the rules \<open>good\<close> and \<open>sound\<close> for their invariants), \<open>Utf8\<close>.

  \<^bold>\<open>Version 0.1.\<close>
  \<^item> \<open>Crypto\<close>: \<open>crypto/*.mjs\<close>; certificates verify for their keys and survive their codec.
  \<^item> \<open>Wire\_Format\<close>, \<open>Wire\_Transport\<close>, \<open>Wire\_Payloads\<close>: headers, padded plaintexts, transport lists, the four payloads. \<open>Wire\_Packet\<close>:
    \<open>encodePacket\<close> and \<open>decodePacket\<close>: packets come back, no two byte strings decode to the same packet, the receive path never throws, and with
    \<open>Wire\_Replay\<close> (\<open>replay.mjs\<close>) none is accepted twice inside the window. \<open>Wire\_Rate\_Limit\<close>: no window exceeds its limit.
  \<^item> \<open>Peer\_Table\<close>, \<open>Peer\_Table\_Props\<close>: \<open>peer/table.mjs\<close>; records are filed under their fingerprints and certified, and leave only by eviction or on
    request. \<open>Peer\_Seed\<close>: seed lists, bootstrap and gossip plans.
  \<^item> \<open>Node\_Dispatcher\<close>, \<open>Node\<close>, \<open>Node\_Props\<close>: \<open>node/dispatcher.mjs\<close>, \<open>identity\_cache.mjs\<close>, \<open>node.mjs\<close>; the shared state stays sound over all
    operations, reports of connection and disconnection alternate, and what one node sends the other hands to its callback.

  \<^bold>\<open>Version 0.2, protocol.\<close>
  \<^item> \<open>V2\_Cells\<close>, \<open>V2\_Relay\<close>, \<open>V2\_Fragment\<close>: cells, RELAY payloads with their running digest, fragments reassembled in any order.
  \<^item> \<open>V2\_Ntor\<close>, \<open>V2\_Circuit\<close>, \<open>V2\_Circuit\_Props\<close>, \<open>V2\_Handshake\<close>: the handshake of a hop, which leaves both ends with one set of keys, also when it
    is cut into cells; layered encryption that client and relays undo in step.
  \<^item> \<open>V2\_Link\<close>: \<open>link.mjs\<close>; the handshake refines a protocol of claim, trust and close, is authentic, and comes about between honest ends.
  \<^item> \<open>V2\_Exit\_Policy\<close>, \<open>V2\_Exit\_Policy\_Props\<close>: the evaluator is the first match by numeric prefix. \<open>V2\_Onion\_Address\<close>,
    \<open>V2\_Onion\_Address\_Props\<close>: base32 and checksums; the spelling of an address is determined by its service, up to letter case and a defect of the reverse table.
  \<^item> \<open>V2\_Consensus\<close>, \<open>V2\_Consensus\_Props\<close>: documents under a quorum of signatures, and the selection of paths.
  \<^item> \<open>V2\_Rendezvous\<close>, \<open>V2\_Rendezvous\_Props\<close>: the sealed box and the payloads of introduction and rendezvous. \<open>V2\_Descriptor\<close>,
    \<open>V2\_Descriptor\_Props\<close>: descriptors of services, their verification, their index.

  \<^bold>\<open>Version 0.2, runtime.\<close>
  \<^item> \<open>V2\_Dispatcher\<close>, \<open>V2\_Dispatcher\_Props\<close>: \<open>circuit\_dispatcher.mjs\<close>; circuit objects in a store, the table by link and number, the halves of an
    extension around its dial. The locale \<open>exit\_roles\<close> is the contract with the roles behind the exit callback.
  \<^item> \<open>V2\_Roles\<close> (introduction and rendezvous points), \<open>V2\_Streams\<close>, \<open>V2\_Streams\_Props\<close> (the exit), \<open>V2\_Hsdir\_Role\<close> (fetches of descriptors, and
    \<open>onExitData\<close> of \<open>bin/anon-node-v2.mjs\<close>, which runs all four roles), \<open>V2\_Relay\_Node\<close> (the composed relay, where \<open>exit\_roles\<close> is interpreted):
    no cell makes a relay throw; its table is exact as long as no circuit awaits two dials; it connects only where its exit policy, or the
    directory its operator configured, lets it; rendezvous join the right circuits.
  \<^item> \<open>V2\_Client\<close>, \<open>V2\_Client\_Props\<close>: \<open>circuit\_builder.mjs\<close>, \<open>cell\_router.mjs\<close>, \<open>peer\_resolver.mjs\<close>: a built circuit is authenticated hop by hop and every build
    ends. \<open>V2\_Client\_Streams\<close>, \<open>V2\_Client\_Streams\_Props\<close>: the client's streams and their promises.
  \<^item> \<open>V2\_Hsdir\<close>, \<open>V2\_Hsdir\_Props\<close>: \<open>hsdir\_client.mjs\<close>, \<open>hsdir\_circuit\_fetch.mjs\<close>; what a looked-up descriptor was checked for, and what it was not.
  \<^item> \<open>V2\_Hidden\_Client\<close> (\<open>rendezvous\_client.mjs\<close>), \<open>V2\_Publisher\<close> (\<open>service\_publisher.mjs\<close>), \<open>V2\_Hidden\_Props\<close>, \<open>V2\_Publisher\_Props\<close>, \<open>V2\_Hidden\_Open\<close>: client
    and service meet with mirrored keys, each has checked the other's part, opening ends, and a run in which it succeeds.
  \<^item> \<open>V2\_Socks\<close>, \<open>V2\_Socks\_Props\<close>: \<open>v2/socks.mjs\<close>, its asynchronous handler as a tree of what it waits for; the outcome does not depend on timing, and a
    tunnel is opened only on a well-formed request and for its destination.
  \<^item> \<open>V2\_Site\<close>, \<open>V2\_Site\_Run\<close>, \<open>V2\_Site\_Props\<close>: \<open>v2-site/\<close>; requests and responses survive their codecs, the server serves the lines it receives in
    order and one at a time, and a page reaches the client whole.

  \<^bold>\<open>Bounds and termination.\<close> No function runs on fuel except where the code itself counts: the 16 draws of a circuit number and the retries of an
  ephemeral key are loops over the draws, the redirects of a site are counted by \<open>maxRedirects\<close>, the retries of a hidden service by its attempts.
  Other loops are structural or have a measure. Sequences of events are lists or step relations of any length.

  \<^bold>\<open>Properties.\<close> The claims C1 to C40 stand in the theories of their subjects, with a witness each where they have hypotheses. Lemmas without a number
  that show weaknesses (such as \<open>second\_dial\_leaks\<close>, \<open>ipv6\_relays\_no\_path\<close>, \<open>directory\_forges\_points\<close>, \<open>fetch\_ignores\_lifetime\<close>, \<open>request\_splitting\<close>,
  \<open>bad\_utf8\_stalls\<close>) say where the code does less than one would expect.

  \<^bold>\<open>Not modelled.\<close> The dialer of a node (timers around operations that are modelled) and its WebSocket, file and console modules; the link manager and the
  WebSocket and TLS transport of version 0.2; the tunnels and stream adapters behind the SOCKS server, and its two tunnel factories; consensus
  files, service state on disk and the control of an external Tor process; the handler that serves the files of a site; parser and renderer of
  the text/anon markup; the programs under \<open>bin/\<close> apart from the exit callback. They are input and output, wiring, or presentation. Messages to
  loggers are left out throughout. Texts are lists of code points where they may leave ASCII (SOCKS names, sites) and lists of 8-bit
  characters elsewhere.
\<close>

end
